(* ===== verification/Prelude.thy ===== *)
theory Prelude
  imports Main "HOL-Library.Word" "HOL-Library.Sublist"
begin

text \<open>
  Shared vocabulary of the development: the byte type, Go's error-or-value results,
  big-endian integers (\<open>encoding/binary\<close>), in-memory readers and writers (\<open>io\<close>), and
  the generic lemmas, the interface of self-delimiting codecs that the component theories interpret,
  and first-match rule lists.
\<close>

named_theorems wire_simps \<open>equations for encoding and decoding wire formats\<close>
named_theorems go_simps \<open>equations for the Go standard-library functions the program calls\<close>

type_synonym byte = "8 word"
type_synonym u16 = "16 word"
type_synonym u32 = "32 word"
type_synonym u64 = "64 word"

abbreviation Err :: "'e \<Rightarrow> 'e + 'a" where "Err \<equiv> Inl"
abbreviation Ok :: "'a \<Rightarrow> 'e + 'a" where "Ok \<equiv> Inr"

section \<open>Words as naturals\<close>

lemma unat_word_of_nat_lt [simp]:
  "n < 2 ^ LENGTH('a) \<Longrightarrow> unat (word_of_nat n :: 'a::len word) = n"
  by (simp add: unat_of_nat take_bit_nat_eq_self)

lemma unat_u8_lt [simp]: "unat (b :: byte) < 256"
  using unsigned_less [of b] by simp

lemma unat_plus_no_wrap:
  fixes a b :: "'a::len word"
  assumes "unat a + unat b < 2 ^ LENGTH('a)"
  shows "unat (a + b) = unat a + unat b"
  using assms by (simp add: unat_add_lem [symmetric])

lemma unat_max_u64: "unat (- 1 :: u64) = 18446744073709551615"
  by (simp add: unsigned_minus_1_eq_mask mask_eq_exp_minus_1)

lemma unat_u64_lt: "unat (w :: u64) < 18446744073709551616"
  using unsigned_less [of w] by simp

lemma unat_complement_u64: "unat (- 1 - w :: u64) = 18446744073709551615 - unat w"
proof -
  have "unat w \<le> unat (- 1 :: u64)"
    using unat_u64_lt [of w] unat_max_u64 by linarith
  then have "unat (- 1 - w) = unat (- 1 :: u64) - unat w"
    by (intro unat_sub) (simp add: word_le_nat_alt)
  then show ?thesis by (simp only: unat_max_u64)
qed

text \<open>The overflow guard \<open>uint64(n) > ^uint64(0) - w\<close> in natural numbers.\<close>

lemma u64_guard_iff:
  "n < 18446744073709551616 \<Longrightarrow>
    (word_of_nat n > - 1 - (w :: u64)) \<longleftrightarrow> 18446744073709551616 \<le> unat w + n"
  using unat_u64_lt [of w]
  by (simp add: word_less_nat_alt unat_complement_u64 del: diff_minus_eq_add) linarith

lemma unat_u64_add_nat:
  "unat w + n < 18446744073709551616 \<Longrightarrow> unat (w + word_of_nat n :: u64) = unat w + n"
  using unat_plus_no_wrap [of w "word_of_nat n"] by simp

section \<open>Big-endian integers\<close>

text \<open>\<open>binary.BigEndian.PutUintN\<close> writes \<open>n\<close> bytes, most significant first;
  \<open>binary.BigEndian.UintN\<close> reads them back.\<close>

fun be_bytes :: "nat \<Rightarrow> nat \<Rightarrow> byte list" where
  "be_bytes 0 v = []"
| "be_bytes (Suc n) v = be_bytes n (v div 256) @ [word_of_nat v]"

definition be_val :: "byte list \<Rightarrow> nat" where
  "be_val bs = foldl (\<lambda>a b. a * 256 + unat b) 0 bs"

lemma length_be_bytes [simp]: "length (be_bytes n v) = n"
  by (induction n arbitrary: v) auto

lemma be_val_Nil [simp]: "be_val [] = 0"
  by (simp add: be_val_def)

lemma be_val_snoc [simp]: "be_val (bs @ [b]) = be_val bs * 256 + unat b"
  by (simp add: be_val_def)

lemma unat_byte_of_nat: "unat (word_of_nat v :: byte) = v mod 256"
  by (simp add: unat_of_nat take_bit_eq_mod)

lemma be_val_be_bytes: "be_val (be_bytes n v) = v mod 256 ^ n"
proof (induction n arbitrary: v)
  case 0
  then show ?case by simp
next
  case (Suc n)
  have "be_val (be_bytes (Suc n) v) = (v div 256) mod 256 ^ n * 256 + v mod 256"
    by (simp add: Suc unat_byte_of_nat)
  also have "\<dots> = v mod (256 * 256 ^ n)"
    by (simp add: mod_mult2_eq)
  finally show ?case by simp
qed

lemma be_val_be_bytes_id [simp]: "v < 256 ^ n \<Longrightarrow> be_val (be_bytes n v) = v"
  by (simp add: be_val_be_bytes)

lemma be_val_bound: "be_val bs < 256 ^ length bs"
proof (induction bs rule: rev_induct)
  case Nil
  then show ?case by simp
next
  case (snoc b bs)
  have "be_val bs * 256 + unat b < (be_val bs + 1) * 256" by simp
  also have "\<dots> \<le> 256 ^ length bs * 256"
    using snoc by (intro mult_right_mono) simp_all
  finally show ?case by (simp add: mult.commute)
qed

lemma be_bytes_be_val: "be_bytes (length bs) (be_val bs) = bs"
proof (induction bs rule: rev_induct)
  case Nil
  then show ?case by simp
next
  case (snoc b bs)
  have "(word_of_nat (be_val bs * 256 + unat b) :: byte) = b"
    by (simp only: word_unat_eq_iff unat_byte_of_nat) simp
  with snoc show ?case by simp
qed

definition put_u16 :: "u16 \<Rightarrow> byte list" where "put_u16 w = be_bytes 2 (unat w)"
definition put_u32 :: "u32 \<Rightarrow> byte list" where "put_u32 w = be_bytes 4 (unat w)"
definition put_u64 :: "u64 \<Rightarrow> byte list" where "put_u64 w = be_bytes 8 (unat w)"
definition get_u16 :: "byte list \<Rightarrow> u16" where "get_u16 bs = word_of_nat (be_val bs)"
definition get_u32 :: "byte list \<Rightarrow> u32" where "get_u32 bs = word_of_nat (be_val bs)"
definition get_u64 :: "byte list \<Rightarrow> u64" where "get_u64 bs = word_of_nat (be_val bs)"

lemma length_put [simp]:
  "length (put_u16 a) = 2" "length (put_u32 b) = 4" "length (put_u64 c) = 8"
  by (simp_all add: put_u16_def put_u32_def put_u64_def)

lemma get_put_u16 [simp]: "get_u16 (put_u16 w) = w"
  by (cases w rule: word_nat_cases) (simp add: get_u16_def put_u16_def)

lemma get_put_u32 [simp]: "get_u32 (put_u32 w) = w"
  by (cases w rule: word_nat_cases) (simp add: get_u32_def put_u32_def)

lemma get_put_u64 [simp]: "get_u64 (put_u64 w) = w"
  by (cases w rule: word_nat_cases) (simp add: get_u64_def put_u64_def)

lemma be_val_lt: "length bs = n \<Longrightarrow> be_val bs < 256 ^ n"
  using be_val_bound by blast

lemma put_get_u16 [simp]: "length bs = 2 \<Longrightarrow> put_u16 (get_u16 bs) = bs"
  using be_val_lt [of bs 2] be_bytes_be_val [of bs] by (simp add: get_u16_def put_u16_def)

lemma put_get_u32 [simp]: "length bs = 4 \<Longrightarrow> put_u32 (get_u32 bs) = bs"
  using be_val_lt [of bs 4] be_bytes_be_val [of bs] by (simp add: get_u32_def put_u32_def)

lemma put_get_u64 [simp]: "length bs = 8 \<Longrightarrow> put_u64 (get_u64 bs) = bs"
  using be_val_lt [of bs 8] be_bytes_be_val [of bs] by (simp add: get_u64_def put_u64_def)

text \<open>\<open>prefix p (drop a xs)\<close> says that \<open>p\<close> is the slice of \<open>xs\<close> that starts at \<open>a\<close>.\<close>

lemma slice_eq_take: "prefix p (drop a xs) \<Longrightarrow> p = take (length p) (drop a xs)"
  by (auto simp: prefix_def)

lemma slice_bound: "prefix p (drop a xs) \<Longrightarrow> p \<noteq> [] \<Longrightarrow> a + length p \<le> length xs"
  using prefix_length_le [of p "drop a xs"] by (cases p) auto

lemma slice_drop: "prefix p (drop a xs) \<Longrightarrow> prefix (drop k p) (drop (a + k) xs)"
  by (auto simp: prefix_def) (metis append_take_drop_id drop_append drop_drop add.commute append.assoc)

lemma slice_extend: "prefix p (drop a xs) \<Longrightarrow> a \<le> length xs \<Longrightarrow> prefix p (drop a (xs @ ys))"
  by (auto simp: prefix_def)

lemma slice_append_take: "prefix p (drop a xs) \<Longrightarrow> take a xs @ p = take (a + length p) xs"
  by (metis slice_eq_take take_add)

lemma slice_append_drop: "prefix p (drop a xs) \<Longrightarrow> p @ drop (a + length p) xs = drop a xs"
  by (metis add.commute append_take_drop_id drop_drop slice_eq_take)

lemma nth_Cons_drop: "i < length xs \<Longrightarrow> drop i xs = xs ! i # drop (Suc i) xs"
  by (rule Cons_nth_drop_Suc [symmetric])

lemma take_drop_split: "drop i xs = take n (drop i xs) @ drop (i + n) xs"
  by (metis append_take_drop_id add.commute drop_drop)

section \<open>Readers and writers\<close>

text \<open>
  A reader is the list of bytes it will still deliver before end of file. \<open>io.ReadFull\<close>
  takes exactly \<open>n\<close> bytes; with none left it reports EOF, with fewer than \<open>n\<close> left it
  reports an unexpected EOF.
\<close>

datatype io_error = EOF | UnexpectedEOF | ShortWrite | SlicePanic | WriteFailed

definition read_full :: "nat \<Rightarrow> byte list \<Rightarrow> io_error + (byte list \<times> byte list)" where
  "read_full n r =
     (if n \<le> length r then Ok (take n r, drop n r)
      else Err (if r = [] then EOF else UnexpectedEOF))"

lemma read_full_append [simp]: "length xs = n \<Longrightarrow> read_full n (xs @ ys) = Ok (xs, ys)"
  by (simp add: read_full_def)

lemma read_full_Ok: "read_full n r = Ok (xs, ys) \<longleftrightarrow> r = xs @ ys \<and> length xs = n"
  by (auto simp: read_full_def)

text \<open>
  A writer is a state with \<open>Write(p) (n int, err error)\<close>. Its state is a parameter of the
  model; \<^const>\<open>SlicePanic\<close> stands for the run-time panic of \<open>payload[n:]\<close> on a writer that
  reports more bytes than it was given.
\<close>

type_synonym 'w writer = "'w \<Rightarrow> byte list \<Rightarrow> 'w \<times> nat \<times> io_error option"

section \<open>Interface: self-delimiting codecs\<close>

text \<open>
  Every wire format of the program is read from a byte stream that continues after the
  message. The contract is that decoding an encoding followed by anything gives the value and
  exactly what followed.
\<close>

locale framed_codec =
  fixes enc :: "'a \<Rightarrow> byte list"
    and dec :: "byte list \<Rightarrow> 'e + ('a \<times> byte list)"
    and wf :: "'a \<Rightarrow> bool"
  assumes dec_enc: "wf x \<Longrightarrow> dec (enc x @ rest) = Inr (x, rest)"
begin

text \<open>Two encodings that start the same stream are the same message: the format is
  prefix-free.\<close>

lemma unambiguous:
  assumes "wf x" "wf y" "enc x @ r = enc y @ s"
  shows "x = y \<and> r = s"
proof -
  have "Inr (x, r) = dec (enc y @ s)" using assms dec_enc by metis
  also have "\<dots> = Inr (y, s)" using assms by (simp add: dec_enc)
  finally show ?thesis by simp
qed

lemma enc_inject: "wf x \<Longrightarrow> wf y \<Longrightarrow> enc x = enc y \<longleftrightarrow> x = y"
  using unambiguous [of x y "[]" "[]"] by auto

lemma stream_unambiguous:
  assumes "\<forall>x\<in>set xs. wf x" "\<forall>y\<in>set ys. wf y" "length xs = length ys"
    and "concat (map enc xs) @ r = concat (map enc ys) @ s"
  shows "xs = ys \<and> r = s"
  using assms
proof (induction xs arbitrary: ys)
  case Nil
  then show ?case by simp
next
  case (Cons x xs)
  then obtain y ys' where ys: "ys = y # ys'" by (cases ys) auto
  with Cons.prems have
    "enc x @ (concat (map enc xs) @ r) = enc y @ (concat (map enc ys') @ s)" by simp
  moreover from Cons.prems ys have "wf x" "wf y" by simp_all
  ultimately have "x = y \<and> concat (map enc xs) @ r = concat (map enc ys') @ s"
    by (intro unambiguous)
  moreover from Cons.prems ys calculation have "xs = ys' \<and> r = s"
    by (intro Cons.IH) simp_all
  ultimately show ?case using ys by simp
qed

end

section \<open>Interface: first-match rule lists\<close>

text \<open>
  Access control, routing and packet diversion all walk an ordered rule list and let the
  first applicable rule decide. A rule yields \<^const>\<open>None\<close> when it does not apply.
\<close>

fun first_match :: "('r \<Rightarrow> 'd option) \<Rightarrow> 'r list \<Rightarrow> 'd \<Rightarrow> 'd" where
  "first_match f [] d = d"
| "first_match f (r # rs) d = (case f r of Some v \<Rightarrow> v | None \<Rightarrow> first_match f rs d)"

lemma first_match_none: "\<forall>r\<in>set rs. f r = None \<Longrightarrow> first_match f rs d = d"
  by (induction rs) auto

lemma first_match_split:
  "\<forall>r\<in>set xs. f r = None \<Longrightarrow> f r = Some v \<Longrightarrow> first_match f (xs @ r # ys) d = v"
  by (induction xs) auto

lemma first_match_cases:
  "(first_match f rs d = d \<and> (\<forall>r\<in>set rs. f r = None)) \<or>
   (\<exists>xs r ys v. rs = xs @ r # ys \<and> (\<forall>x\<in>set xs. f x = None) \<and> f r = Some v \<and> first_match f rs d = v)"
proof (induction rs)
  case Nil
  then show ?case by simp
next
  case (Cons a rs)
  show ?case
  proof (cases "f a")
    case (Some v)
    then show ?thesis by (intro disjI2 exI [of _ "[]"]) auto
  next
    case None
    from Cons show ?thesis
    proof (elim disjE conjE exE)
      fix xs r ys v
      assume "rs = xs @ r # ys" "\<forall>x\<in>set xs. f x = None" "f r = Some v" "first_match f rs d = v"
      with None show ?thesis
        by (intro disjI2 exI [of _ "a # xs"] exI [of _ r] exI [of _ ys] exI [of _ v]) auto
    qed (use None in auto)
  qed
qed

end
