(* ===== verification/Resume_Frame.thy ===== *)
theory Resume_Frame
  imports Prelude
begin

unbundle bit_operations_syntax

text \<open>
  \<open>internal/p2p/resume/frame.go\<close>: the frame format of resumable streams. A frame is a 32-byte
  header (magic, version, type, flags, sequence offset, acknowledged offset, payload length and
  four reserved zero bytes) and a payload of at most 32 KiB. Only DATA frames carry a payload and
  they always carry one.
\<close>

section \<open>Constants, frames and errors\<close>

definition Magic :: u32 where "Magic = 0x52505352"
definition Version :: byte where "Version = 1"
definition HeaderSize :: nat where "HeaderSize = 32"
definition MaxPayload :: nat where "MaxPayload = 32768"

text \<open>\<open>type FrameType byte\<close>: any byte can occur, four are defined.\<close>

definition FrameData :: byte where "FrameData = 1"
definition FrameAck :: byte where "FrameAck = 2"
definition FrameFIN :: byte where "FrameFIN = 3"
definition FrameRST :: byte where "FrameRST = 4"

definition FlagFINAck :: u16 where "FlagFINAck = 1"

definition unknown_flags :: "u16 \<Rightarrow> bool" where
  "unknown_flags fl \<longleftrightarrow> fl AND NOT FlagFINAck \<noteq> 0"

lemmas frame_types = FrameData_def FrameAck_def FrameFIN_def FrameRST_def

lemma frame_types_distinct [simp]:
  "FrameData \<noteq> FrameAck" "FrameData \<noteq> FrameFIN" "FrameData \<noteq> FrameRST"
  "FrameAck \<noteq> FrameData" "FrameAck \<noteq> FrameFIN" "FrameAck \<noteq> FrameRST"
  "FrameFIN \<noteq> FrameData" "FrameFIN \<noteq> FrameAck" "FrameFIN \<noteq> FrameRST"
  "FrameRST \<noteq> FrameData" "FrameRST \<noteq> FrameAck" "FrameRST \<noteq> FrameFIN"
  by (simp_all add: frame_types)

datatype resume_error =
    ErrFrame | ErrPayloadSize | ErrSequenceGap | ErrReplayLimit | ErrBinding | ErrIO io_error

text \<open>\<open>fr_wire\<close> is the optional block \<open>Frame.wire\<close>: room for the header followed by the payload;
  the empty list is Go's nil.\<close>

record frame =
  fr_type :: byte
  fr_flags :: u16
  fr_seq :: u64
  fr_ack :: u64
  fr_payload :: "byte list"
  fr_wire :: "byte list"

section \<open>Writing\<close>

text \<open>\<open>writeAll\<close> loops until the writer has taken everything. A writer that takes nothing and
  reports no error ends the loop with a short-write error, so the loop always stops.\<close>

function writeAll :: "'w writer \<Rightarrow> 'w \<Rightarrow> byte list \<Rightarrow> 'w \<times> io_error option" where
  "writeAll wr w payload =
     (if payload = [] then (w, None)
      else (case wr w payload of (w', n, err) \<Rightarrow>
        if n > length payload then (w', Some SlicePanic)
        else (case err of
          Some e \<Rightarrow> (w', Some e)
        | None \<Rightarrow> if n = 0 then (w', Some ShortWrite) else writeAll wr w' (drop n payload))))"
  by pat_completeness auto
termination
  by (relation "measure (\<lambda>(wr, w, payload). length payload)") auto

declare writeAll.simps [simp del]

text \<open>The header fields are written into a 32-byte buffer; the reserved bytes 28 to 31 keep
  what the buffer held.\<close>

definition put_header :: "frame \<Rightarrow> byte list \<Rightarrow> byte list" where
  "put_header f header =
     put_u32 Magic @ [Version, fr_type f] @ put_u16 (fr_flags f) @ put_u64 (fr_seq f) @
     put_u64 (fr_ack f) @ put_u32 (word_of_nat (length (fr_payload f))) @ drop 28 header"

definition writeFrame ::
  "'w writer \<Rightarrow> 'w option \<Rightarrow> frame \<Rightarrow> byte list \<Rightarrow> 'w option \<times> resume_error option" where
  "writeFrame wr w f header =
     (case w of
        None \<Rightarrow> (w, Some ErrFrame)
      | Some w0 \<Rightarrow>
        if length (fr_payload f) > MaxPayload then (w, Some ErrPayloadSize)
        else if unknown_flags (fr_flags f) then (w, Some ErrFrame)
        else if fr_type f = FrameData \<and> fr_payload f = [] then (w, Some ErrFrame)
        else if fr_type f \<in> {FrameAck, FrameFIN, FrameRST} \<and> fr_payload f \<noteq> [] then (w, Some ErrFrame)
        else if fr_type f \<notin> {FrameData, FrameAck, FrameFIN, FrameRST} then (w, Some ErrFrame)
        else if fr_payload f \<noteq> [] \<and> length (fr_wire f) = HeaderSize + length (fr_payload f) then
          (case writeAll wr w0 (put_header f (take HeaderSize (fr_wire f)) @ drop HeaderSize (fr_wire f)) of
             (w1, e) \<Rightarrow> (Some w1, map_option ErrIO e))
        else
          (case writeAll wr w0 (put_header f header) of
             (w1, Some e) \<Rightarrow> (Some w1, Some (ErrIO e))
           | (w1, None) \<Rightarrow>
             (case writeAll wr w1 (fr_payload f) of (w2, e) \<Rightarrow> (Some w2, map_option ErrIO e))))"

text \<open>\<open>WriteFrame\<close> uses a fresh zeroed header; \<open>frameWriter.Write\<close> reuses one header array and
  leaves the last header in it.\<close>

definition WriteFrame :: "'w writer \<Rightarrow> 'w option \<Rightarrow> frame \<Rightarrow> 'w option \<times> resume_error option" where
  "WriteFrame wr w f = writeFrame wr w f (replicate HeaderSize 0)"

definition frameWriter_Write ::
  "'w writer \<Rightarrow> byte list \<Rightarrow> 'w option \<Rightarrow> frame \<Rightarrow> byte list \<times> 'w option \<times> resume_error option" where
  "frameWriter_Write wr header w f =
     (if w \<noteq> None \<and> length (fr_payload f) \<le> MaxPayload \<and> \<not> unknown_flags (fr_flags f) \<and>
         (fr_type f = FrameData \<and> fr_payload f \<noteq> [] \<or>
          fr_type f \<in> {FrameAck, FrameFIN, FrameRST} \<and> fr_payload f = []) \<and>
         \<not> (fr_payload f \<noteq> [] \<and> length (fr_wire f) = HeaderSize + length (fr_payload f))
      then put_header f header else header,
      writeFrame wr w f header)"

section \<open>Reading\<close>

definition readFrame :: "byte list option \<Rightarrow> resume_error + (frame \<times> byte list)" where
  "readFrame r =
     (case r of
        None \<Rightarrow> Err ErrFrame
      | Some bs \<Rightarrow>
        (case read_full HeaderSize bs of
          Inl e \<Rightarrow> Err (ErrIO e)
        | Inr (h, rest) \<Rightarrow>
          if get_u32 (take 4 h) \<noteq> Magic \<or> h ! 4 \<noteq> Version \<or>
             h ! 28 \<noteq> 0 \<or> h ! 29 \<noteq> 0 \<or> h ! 30 \<noteq> 0 \<or> h ! 31 \<noteq> 0
          then Err ErrFrame
          else
            let ty = h ! 5;
                flags = get_u16 (take 2 (drop 6 h));
                sq = get_u64 (take 8 (drop 8 h));
                ak = get_u64 (take 8 (drop 16 h));
                n = unat (get_u32 (take 4 (drop 24 h)))
            in
            if unknown_flags flags then Err ErrFrame
            else if n > MaxPayload then Err ErrPayloadSize
            else if ty = FrameData \<and> n = 0 then Err ErrFrame
            else if ty \<in> {FrameAck, FrameFIN, FrameRST} \<and> n \<noteq> 0 then Err ErrFrame
            else if ty \<notin> {FrameData, FrameAck, FrameFIN, FrameRST} then Err ErrFrame
            else if n > 0 then
              (case read_full n rest of
                 Inl e \<Rightarrow> Err (ErrIO e)
               | Inr (p, rest') \<Rightarrow>
                 Ok (\<lparr>fr_type = ty, fr_flags = flags, fr_seq = sq, fr_ack = ak,
                      fr_payload = p, fr_wire = []\<rparr>, rest'))
            else Ok (\<lparr>fr_type = ty, fr_flags = flags, fr_seq = sq, fr_ack = ak,
                      fr_payload = [], fr_wire = []\<rparr>, rest)))"

definition ReadFrame :: "byte list option \<Rightarrow> resume_error + (frame \<times> byte list)" where
  "ReadFrame r = readFrame r"

text \<open>\<open>frameReader.Read\<close> keeps the payload storage of the last DATA frame for the next read.\<close>

definition frameReader_Read ::
  "byte list \<Rightarrow> byte list option \<Rightarrow> byte list \<times> (resume_error + (frame \<times> byte list))" where
  "frameReader_Read payload r =
     (let res = readFrame r in
      (case res of Inr (f, _) \<Rightarrow> if fr_payload f \<noteq> [] then fr_payload f else payload | Inl _ \<Rightarrow> payload,
       res))"

section \<open>What a frame looks like on the wire\<close>

definition frame_valid :: "frame \<Rightarrow> bool" where
  "frame_valid f \<longleftrightarrow>
     length (fr_payload f) \<le> MaxPayload \<and> \<not> unknown_flags (fr_flags f) \<and>
     (fr_type f = FrameData \<and> fr_payload f \<noteq> [] \<or>
      fr_type f \<in> {FrameAck, FrameFIN, FrameRST} \<and> fr_payload f = [])"

text \<open>A wire block is usable when it has room for the header, its reserved bytes are zero and the
  payload follows.\<close>

definition wire_ok :: "frame \<Rightarrow> bool" where
  "wire_ok f \<longleftrightarrow> fr_wire f = [] \<or>
     (length (fr_wire f) = HeaderSize + length (fr_payload f) \<and>
      drop HeaderSize (fr_wire f) = fr_payload f \<and>
      take 4 (drop 28 (fr_wire f)) = replicate 4 0)"

definition frame_bytes :: "frame \<Rightarrow> byte list" where
  "frame_bytes f = put_header f (replicate HeaderSize 0) @ fr_payload f"

lemma length_put_header [simp]: "length header = HeaderSize \<Longrightarrow> length (put_header f header) = HeaderSize"
  by (simp add: put_header_def HeaderSize_def)

lemma length_frame_bytes: "length (frame_bytes f) = HeaderSize + length (fr_payload f)"
  by (simp add: frame_bytes_def)

lemma put_header_wire:
  assumes "wire_ok f" "fr_wire f \<noteq> []"
  shows "put_header f (take HeaderSize (fr_wire f)) @ drop HeaderSize (fr_wire f) = frame_bytes f"
proof -
  have "drop 28 (take 32 (fr_wire f)) = take 4 (drop 28 (fr_wire f))"
    by (simp add: drop_take)
  with assms show ?thesis
    by (simp add: wire_ok_def frame_bytes_def put_header_def HeaderSize_def numeral_eq_Suc)
qed

section \<open>Writers that follow the \<open>io.Writer\<close> contract\<close>

text \<open>\<open>io.Writer\<close>: at most \<open>len(p)\<close> bytes are taken, a short write reports an error, and what was
  taken reaches the sink in order.\<close>

definition writer_ok :: "'w writer \<Rightarrow> ('w \<Rightarrow> byte list) \<Rightarrow> bool" where
  "writer_ok wr sink \<longleftrightarrow>
     (\<forall>w p w' n e. wr w p = (w', n, e) \<longrightarrow>
        n \<le> length p \<and> sink w' = sink w @ take n p \<and> (n < length p \<longrightarrow> e \<noteq> None))"

lemma writeAll_Nil [simp]: "writeAll wr w [] = (w, None)"
  by (subst writeAll.simps) simp

lemma writeAll_step:
  assumes "p \<noteq> []" "wr w p = (w1, n, err)"
  shows "writeAll wr w p =
     (if n > length p then (w1, Some SlicePanic)
      else case err of Some e \<Rightarrow> (w1, Some e)
           | None \<Rightarrow> if n = 0 then (w1, Some ShortWrite) else writeAll wr w1 (drop n p))"
  using assms by (subst writeAll.simps) simp

text \<open>On such a writer \<open>writeAll\<close> stops, what reached the sink is a prefix of the payload, and it
  is the whole payload when no error is reported.\<close>

lemma writeAll_prefix:
  assumes ok: "writer_ok wr sink" and run: "writeAll wr w p = (w', e)"
  shows "\<exists>k \<le> length p. sink w' = sink w @ take k p \<and> (e = None \<longrightarrow> k = length p)"
  using run
proof (induction "length p" arbitrary: w p rule: less_induct)
  case less
  show ?case
  proof (cases "p = []")
    case True
    with less.prems show ?thesis by simp
  next
    case False
    obtain w1 n err where w1: "wr w p = (w1, n, err)" by (metis prod_cases3)
    with ok have n: "n \<le> length p" "sink w1 = sink w @ take n p" "n < length p \<Longrightarrow> err \<noteq> None"
      by (auto simp: writer_ok_def)
    show ?thesis
    proof (cases "err = None \<and> n \<noteq> 0")
      case True
      with n less.prems writeAll_step [OF False, of wr w w1 n err, OF w1] have rec: "writeAll wr w1 (drop n p) = (w', e)"
        by simp
      from True n False have "length (drop n p) < length p" by simp
      from less.hyps [OF this rec] obtain k where
        "k \<le> length (drop n p)" "sink w' = sink w1 @ take k (drop n p)"
        "e = None \<longrightarrow> k = length (drop n p)" by blast
      with n show ?thesis
        by (intro exI [of _ "n + k"]) (auto simp: take_add)
    next
      case fail: False
      with n less.prems writeAll_step [OF False, of wr w w1 n err, OF w1] have "w' = w1" "e \<noteq> None"
        by (auto split: option.splits)
      with n show ?thesis by blast
    qed
  qed
qed

lemma writeAll_all:
  "writer_ok wr sink \<Longrightarrow> writeAll wr w p = (w', None) \<Longrightarrow> sink w' = sink w @ p"
  using writeAll_prefix by fastforce

section \<open>Writing and reading back\<close>

lemma writeFrame_invalid:
  assumes "\<not> frame_valid f"
  shows "fst (writeFrame wr w f header) = w \<and> snd (writeFrame wr w f header) \<in> {Some ErrFrame, Some ErrPayloadSize}"
  using assms by (auto simp: writeFrame_def frame_valid_def split: option.splits)

lemma writeFrame_valid:
  assumes "frame_valid f"
  shows "writeFrame wr (Some w) f header =
    (if fr_payload f \<noteq> [] \<and> length (fr_wire f) = HeaderSize + length (fr_payload f) then
       (case writeAll wr w (put_header f (take HeaderSize (fr_wire f)) @ drop HeaderSize (fr_wire f)) of
          (w1, e) \<Rightarrow> (Some w1, map_option ErrIO e))
     else
       (case writeAll wr w (put_header f header) of
          (w1, Some e) \<Rightarrow> (Some w1, Some (ErrIO e))
        | (w1, None) \<Rightarrow>
          (case writeAll wr w1 (fr_payload f) of (w2, e) \<Rightarrow> (Some w2, map_option ErrIO e))))"
  using assms by (cases "fr_payload f = []") (auto simp: writeFrame_def frame_valid_def)

lemma writeFrame_sent:
  assumes ok: "writer_ok wr sink" and valid: "frame_valid f" "wire_ok f"
    and hdr: "length header = HeaderSize" "drop 28 header = replicate 4 0"
    and run: "writeFrame wr (Some w) f header = (Some w', None)"
  shows "sink w' = sink w @ frame_bytes f"
proof (cases "fr_payload f \<noteq> [] \<and> length (fr_wire f) = HeaderSize + length (fr_payload f)")
  case True
  then have "fr_wire f \<noteq> []" by (auto simp: HeaderSize_def)
  with True valid run put_header_wire [OF valid(2)]
  have "writeAll wr w (frame_bytes f) = (w', None)"
    by (auto simp: writeFrame_valid split: prod.splits)
  with ok show ?thesis by (rule writeAll_all)
next
  case False
  from hdr have h: "put_header f header = put_header f (replicate HeaderSize 0)"
    by (simp add: put_header_def HeaderSize_def numeral_eq_Suc)
  from False valid run obtain w1 where
    "writeAll wr w (put_header f header) = (w1, None)"
    "writeAll wr w1 (fr_payload f) = (w', None)"
    by (auto simp: writeFrame_valid split: prod.splits option.splits if_splits)
  with ok h show ?thesis
    using writeAll_all by (fastforce simp: frame_bytes_def)
qed

lemma readFrame_frame_bytes:
  assumes "frame_valid f"
  shows "readFrame (Some (frame_bytes f @ rest)) = Ok (f\<lparr>fr_wire := []\<rparr>, rest)"
proof -
  let ?h = "put_header f (replicate HeaderSize 0)"
  have len: "length ?h = HeaderSize" by (simp add: HeaderSize_def)
  have h: "?h = put_u32 Magic @ [Version, fr_type f] @ put_u16 (fr_flags f) @ put_u64 (fr_seq f) @
     put_u64 (fr_ack f) @ put_u32 (word_of_nat (length (fr_payload f))) @ [0, 0, 0, 0]"
    by (simp add: put_header_def HeaderSize_def numeral_eq_Suc)
  have n: "unat (word_of_nat (length (fr_payload f)) :: u32) = length (fr_payload f)"
    using assms by (simp add: frame_valid_def MaxPayload_def)
  have "read_full HeaderSize (frame_bytes f @ rest) = Ok (?h, fr_payload f @ rest)"
    using len by (simp add: frame_bytes_def)
  then show ?thesis
    using assms n
    by (cases "fr_payload f = []")
       (auto simp: readFrame_def h frame_valid_def Let_def nth_append frame_types)
qed

text \<open>Conversely the reader accepts nothing but the encoding of a valid frame: every malformed
  header, wrong reserved byte, unknown flag or length mismatch is rejected.\<close>

lemma header_split:
  assumes "length h = HeaderSize" "get_u32 (take 4 h) = Magic" "h ! 4 = Version"
    and "h ! 28 = 0" "h ! 29 = 0" "h ! 30 = 0" "h ! 31 = 0"
  shows "h = put_u32 Magic @ [Version, h ! 5] @ put_u16 (get_u16 (take 2 (drop 6 h))) @
     put_u64 (get_u64 (take 8 (drop 8 h))) @ put_u64 (get_u64 (take 8 (drop 16 h))) @
     put_u32 (get_u32 (take 4 (drop 24 h))) @ [0, 0, 0, 0]"
proof -
  have len: "length h = 32" using assms(1) by (simp add: HeaderSize_def)
  have magic: "put_u32 Magic = take 4 h"
    using assms(2) len put_get_u32 [of "take 4 h"] by simp
  have tail: "drop 28 h = [0, 0, 0, 0]"
    using assms(4-7) len
    by (simp add: nth_Cons_drop)
  have "h = take 4 h @ drop 4 h" by simp
  also have "drop 4 h = [Version, h ! 5] @ drop 6 h"
    using len assms(3) by (simp add: nth_Cons_drop)
  also have "drop 6 h = take 2 (drop 6 h) @ take 8 (drop 8 h) @ take 8 (drop 16 h) @
      take 4 (drop 24 h) @ drop 28 h"
    using take_drop_split [of 6 h 2] take_drop_split [of 8 h 8] take_drop_split [of 16 h 8]
      take_drop_split [of 24 h 4] by simp
  finally show ?thesis using len magic tail by simp
qed

lemma readFrame_OkD:
  assumes "readFrame (Some bs) = Ok (f, rest)"
  shows "frame_valid f \<and> fr_wire f = [] \<and> bs = frame_bytes f @ rest"
proof -
  obtain h r where h: "bs = h @ r" "length h = HeaderSize"
    and rd: "read_full HeaderSize bs = Ok (h, r)"
    using assms by (cases "read_full HeaderSize bs") (auto simp: readFrame_def read_full_Ok)
  have hd: "get_u32 (take 4 h) = Magic" "h ! 4 = Version" "h ! 28 = 0" "h ! 29 = 0" "h ! 30 = 0" "h ! 31 = 0"
    using assms rd by (auto simp: readFrame_def split: if_splits)
  define n where "n = unat (get_u32 (take 4 (drop 24 h)))"
  have f: "f = \<lparr>fr_type = h ! 5, fr_flags = get_u16 (take 2 (drop 6 h)),
      fr_seq = get_u64 (take 8 (drop 8 h)), fr_ack = get_u64 (take 8 (drop 16 h)),
      fr_payload = take n r, fr_wire = []\<rparr>"
    and r: "r = take n r @ rest" "length (take n r) = n"
    and ok: "\<not> unknown_flags (fr_flags f)" "n \<le> MaxPayload"
      "h ! 5 = FrameData \<and> n \<noteq> 0 \<or> h ! 5 \<in> {FrameAck, FrameFIN, FrameRST} \<and> n = 0"
    using assms rd hd n_def
    by (auto simp: readFrame_def Let_def read_full_Ok split: if_splits sum.splits)
  have n': "put_u32 (word_of_nat (length (take n r))) = put_u32 (get_u32 (take 4 (drop 24 h)))"
    using r(2) by (simp add: n_def)
  have "h = put_header f (replicate HeaderSize 0)"
    using header_split [OF h(2) hd] n' f by (simp add: put_header_def HeaderSize_def numeral_eq_Suc)
  then have "bs = frame_bytes f @ rest"
    using h(1) r(1) f by (simp add: frame_bytes_def)
  moreover have "frame_valid f"
    using ok r(2) f by (auto simp: frame_valid_def)
  ultimately show ?thesis using f by simp
qed

section \<open>The frame format is a self-delimiting codec\<close>

definition decode_frame :: "byte list \<Rightarrow> resume_error + (frame \<times> byte list)" where
  "decode_frame bs = ReadFrame (Some bs)"

definition frame_wf :: "frame \<Rightarrow> bool" where
  "frame_wf f \<longleftrightarrow> frame_valid f \<and> fr_wire f = []"

interpretation frames: framed_codec frame_bytes decode_frame frame_wf
  by unfold_locales (simp add: decode_frame_def ReadFrame_def frame_wf_def readFrame_frame_bytes)

end
