(* ===== verification/Resume_Binding.thy ===== *)
theory Resume_Binding
  imports Resume_Frame
begin

text \<open>
  \<open>internal/p2p/resume/binding.go\<close> and \<open>protocol.go\<close>: the identity of a resumable stream, the
  80-byte binding that both peers exchange before framed data, its validation when a transport is
  replaced, and the translation to and from the control message \<open>protocol.TCPResumeBinding\<close>.
\<close>

section \<open>Identities\<close>

definition StreamIDSize :: nat where "StreamIDSize = 16"
definition TokenSize :: nat where "TokenSize = 32"
definition BindSize :: nat where "BindSize = 80"
definition bindMagic :: u32 where "bindMagic = 0x52505342"

definition BindOpen :: byte where "BindOpen = 1"
definition BindAck :: byte where "BindAck = 2"

lemma bind_types_distinct [simp]: "BindOpen \<noteq> BindAck" "BindAck \<noteq> BindOpen"
  by (simp_all add: BindOpen_def BindAck_def)

text \<open>The arrays \<open>[16]byte\<close> and \<open>[32]byte\<close> are byte lists; \<open>identity_sized\<close> is what the array
  types guarantee.\<close>

record identity =
  id_ID :: "byte list"
  id_Token :: "byte list"

lemma identity_eta [simp]: "\<lparr>id_ID = id_ID i, id_Token = id_Token i\<rparr> = i"
  by simp

definition identity_sized :: "identity \<Rightarrow> bool" where
  "identity_sized i \<longleftrightarrow> length (id_ID i) = StreamIDSize \<and> length (id_Token i) = TokenSize"

text \<open>\<open>subtle.ConstantTimeCompare\<close>: 1 when lengths and contents agree, else 0.\<close>

definition ConstantTimeCompare :: "byte list \<Rightarrow> byte list \<Rightarrow> nat" where
  "ConstantTimeCompare x y = (if x = y then 1 else 0)"

definition identity_Valid :: "identity \<Rightarrow> bool" where
  "identity_Valid i \<longleftrightarrow>
     ConstantTimeCompare (id_ID i) (replicate StreamIDSize 0) = 0 \<and>
     ConstantTimeCompare (id_Token i) (replicate TokenSize 0) = 0"

definition VerifyToken :: "identity \<Rightarrow> byte list \<Rightarrow> bool" where
  "VerifyToken i token \<longleftrightarrow>
     identity_Valid i \<and> length token = TokenSize \<and> ConstantTimeCompare (id_Token i) token = 1"

text \<open>\<open>NewIdentity\<close> fills both arrays from the system's random source, here the bytes it will
  deliver.\<close>

definition NewIdentity :: "byte list \<Rightarrow> resume_error + identity" where
  "NewIdentity rand =
     (case read_full StreamIDSize rand of
        Inl e \<Rightarrow> Err (ErrIO e)
      | Inr (i, rand') \<Rightarrow>
        (case read_full TokenSize rand' of
           Inl e \<Rightarrow> Err (ErrIO e)
         | Inr (t, _) \<Rightarrow> Ok \<lparr>id_ID = i, id_Token = t\<rparr>))"

lemma VerifyToken_iff: "identity_sized i \<Longrightarrow> VerifyToken i t \<longleftrightarrow> identity_Valid i \<and> id_Token i = t"
  by (auto simp: VerifyToken_def ConstantTimeCompare_def identity_sized_def)

section \<open>Bindings on the wire\<close>

record binding =
  bd_Type :: byte
  bd_Identity :: identity
  bd_Generation :: u64
  bd_SendOffset :: u64
  bd_ReceiveOffset :: u64

definition binding_raw :: "binding \<Rightarrow> byte list" where
  "binding_raw b =
     put_u32 bindMagic @ [Version, bd_Type b, 0, 0] @ id_ID (bd_Identity b) @ id_Token (bd_Identity b) @
     put_u64 (bd_Generation b) @ put_u64 (bd_SendOffset b) @ put_u64 (bd_ReceiveOffset b)"

definition WriteBinding :: "'w writer \<Rightarrow> 'w option \<Rightarrow> binding \<Rightarrow> 'w option \<times> resume_error option" where
  "WriteBinding wr w b =
     (case w of
        None \<Rightarrow> (w, Some ErrBinding)
      | Some w0 \<Rightarrow>
        if \<not> identity_Valid (bd_Identity b) \<or> bd_Generation b = 0 then (w, Some ErrBinding)
        else if bd_Type b \<noteq> BindOpen \<and> bd_Type b \<noteq> BindAck then (w, Some ErrBinding)
        else (case writeAll wr w0 (binding_raw b) of (w1, e) \<Rightarrow> (Some w1, map_option ErrIO e)))"

definition ReadBinding :: "byte list option \<Rightarrow> resume_error + (binding \<times> byte list)" where
  "ReadBinding r =
     (case r of
        None \<Rightarrow> Err ErrBinding
      | Some bs \<Rightarrow>
        (case read_full BindSize bs of
          Inl e \<Rightarrow> Err (ErrIO e)
        | Inr (raw, rest) \<Rightarrow>
          if get_u32 (take 4 raw) \<noteq> bindMagic \<or> raw ! 4 \<noteq> Version \<or> raw ! 6 \<noteq> 0 \<or> raw ! 7 \<noteq> 0
          then Err ErrBinding
          else if raw ! 5 \<noteq> BindOpen \<and> raw ! 5 \<noteq> BindAck then Err ErrBinding
          else
            let b = \<lparr>bd_Type = raw ! 5,
                     bd_Identity = \<lparr>id_ID = take 16 (drop 8 raw), id_Token = take 32 (drop 24 raw)\<rparr>,
                     bd_Generation = get_u64 (take 8 (drop 56 raw)),
                     bd_SendOffset = get_u64 (take 8 (drop 64 raw)),
                     bd_ReceiveOffset = get_u64 (take 8 (drop 72 raw))\<rparr>
            in if \<not> identity_Valid (bd_Identity b) \<or> bd_Generation b = 0 then Err ErrBinding
               else Ok (b, rest)))"

definition binding_valid :: "binding \<Rightarrow> bool" where
  "binding_valid b \<longleftrightarrow>
     identity_sized (bd_Identity b) \<and> identity_Valid (bd_Identity b) \<and> bd_Generation b \<noteq> 0 \<and>
     (bd_Type b = BindOpen \<or> bd_Type b = BindAck)"

lemma length_binding_raw:
  "identity_sized (bd_Identity b) \<Longrightarrow> length (binding_raw b) = BindSize"
  by (simp add: binding_raw_def identity_sized_def StreamIDSize_def TokenSize_def BindSize_def)

lemma ReadBinding_raw:
  assumes "binding_valid b"
  shows "ReadBinding (Some (binding_raw b @ rest)) = Ok (b, rest)"
proof -
  have len: "length (id_ID (bd_Identity b)) = 16" "length (id_Token (bd_Identity b)) = 32"
    using assms by (simp_all add: binding_valid_def identity_sized_def StreamIDSize_def TokenSize_def)
  have "read_full BindSize (binding_raw b @ rest) = Ok (binding_raw b, rest)"
    using assms by (simp add: length_binding_raw binding_valid_def)
  then show ?thesis
    using assms len
    by (auto simp: ReadBinding_def binding_raw_def Let_def nth_append binding_valid_def)
qed

lemma ReadBinding_OkD:
  assumes "ReadBinding (Some bs) = Ok (b, rest)"
  shows "binding_valid b \<and> bs = binding_raw b @ rest"
proof -
  obtain raw where raw: "bs = raw @ rest" "length raw = 80"
    and rd: "read_full BindSize bs = Ok (raw, rest)"
    using assms
    by (cases "read_full BindSize bs")
       (auto simp: ReadBinding_def read_full_Ok BindSize_def Let_def split: if_splits)
  have hd: "get_u32 (take 4 raw) = bindMagic" "raw ! 4 = Version" "raw ! 6 = 0" "raw ! 7 = 0"
    using assms rd by (auto simp: ReadBinding_def split: if_splits)
  have b: "b = \<lparr>bd_Type = raw ! 5,
                     bd_Identity = \<lparr>id_ID = take 16 (drop 8 raw), id_Token = take 32 (drop 24 raw)\<rparr>,
                     bd_Generation = get_u64 (take 8 (drop 56 raw)),
                     bd_SendOffset = get_u64 (take 8 (drop 64 raw)),
                     bd_ReceiveOffset = get_u64 (take 8 (drop 72 raw))\<rparr>"
    and valid: "identity_Valid (bd_Identity b)" "bd_Generation b \<noteq> 0" "bd_Type b = BindOpen \<or> bd_Type b = BindAck"
    using assms rd hd by (auto simp: ReadBinding_def Let_def split: if_splits)
  have magic: "put_u32 bindMagic = take 4 raw"
    using hd(1) raw(2) put_get_u32 [of "take 4 raw"] by simp
  have "raw = take 4 raw @ drop 4 raw" by simp
  also have "drop 4 raw = [Version, raw ! 5, 0, 0] @ drop 8 raw"
    using raw(2) hd by (simp add: nth_Cons_drop)
  also have "drop 8 raw = take 16 (drop 8 raw) @ take 32 (drop 24 raw) @ take 8 (drop 56 raw) @
      take 8 (drop 64 raw) @ take 8 (drop 72 raw)"
    using take_drop_split [of 8 raw 16] take_drop_split [of 24 raw 32] take_drop_split [of 56 raw 8]
      take_drop_split [of 64 raw 8] raw(2) by simp
  finally have "raw = binding_raw b"
    using raw(2) magic by (simp add: binding_raw_def b)
  with raw(1) have "bs = binding_raw b @ rest" by blast
  moreover have "identity_sized (bd_Identity b)"
    using raw(2) by (simp add: b identity_sized_def StreamIDSize_def TokenSize_def)
  ultimately show ?thesis using valid by (simp add: binding_valid_def)
qed

definition decode_binding :: "byte list \<Rightarrow> resume_error + (binding \<times> byte list)" where
  "decode_binding bs = ReadBinding (Some bs)"

interpretation bindings: framed_codec binding_raw decode_binding binding_valid
  by unfold_locales (simp add: decode_binding_def ReadBinding_raw)

section \<open>Replacing a transport\<close>

text \<open>Every failure wraps \<open>ErrBinding\<close> with a text; the constructors name the texts.\<close>

datatype rebind_fault =
    StreamIdMismatch | TokenMismatch | NonConsecutiveGeneration | PeerSendOffsetRolledBack
  | PeerAcknowledgedUnsent | InvalidRequestDirection | InvalidResponseDirection
  | InvalidRetryDirection | MismatchedRetryGeneration

text \<open>\<open>^uint64(0)\<close>.\<close>

abbreviation max_u64 :: u64 where "max_u64 \<equiv> - 1"

definition ValidateRebind :: "binding \<Rightarrow> binding \<Rightarrow> rebind_fault option" where
  "ValidateRebind current next =
     (if id_ID (bd_Identity current) \<noteq> id_ID (bd_Identity next) then Some StreamIdMismatch
      else if \<not> VerifyToken (bd_Identity current) (id_Token (bd_Identity next)) then Some TokenMismatch
      else if bd_Generation current = max_u64 \<or> bd_Generation next \<noteq> bd_Generation current + 1
      then Some NonConsecutiveGeneration
      else if bd_SendOffset next < bd_ReceiveOffset current then Some PeerSendOffsetRolledBack
      else if bd_ReceiveOffset next > bd_SendOffset current then Some PeerAcknowledgedUnsent
      else None)"

definition ValidateRebindRequest :: "binding \<Rightarrow> binding \<Rightarrow> rebind_fault option" where
  "ValidateRebindRequest current next =
     (if bd_Type current \<noteq> BindAck \<or> bd_Type next \<noteq> BindOpen then Some InvalidRequestDirection
      else ValidateRebind current next)"

definition ValidateRebindResponse :: "binding \<Rightarrow> binding \<Rightarrow> rebind_fault option" where
  "ValidateRebindResponse current next =
     (if bd_Type current \<noteq> BindAck \<or> bd_Type next \<noteq> BindAck then Some InvalidResponseDirection
      else ValidateRebind current next)"

definition ValidateRebindRetryRequest :: "binding \<Rightarrow> binding \<Rightarrow> rebind_fault option" where
  "ValidateRebindRetryRequest current next =
     (if bd_Type current \<noteq> BindAck \<or> bd_Type next \<noteq> BindOpen then Some InvalidRetryDirection
      else if bd_Generation current = 0 \<or> bd_Generation next \<noteq> bd_Generation current
      then Some MismatchedRetryGeneration
      else ValidateRebind (current\<lparr>bd_Generation := bd_Generation current - 1\<rparr>) next)"

text \<open>What an accepted rebind means, in natural numbers: the same stream and token, exactly the next
  generation, and offsets that neither roll the peer back nor acknowledge bytes never sent.\<close>

definition rebind_safe :: "binding \<Rightarrow> binding \<Rightarrow> bool" where
  "rebind_safe current next \<longleftrightarrow>
     bd_Identity next = bd_Identity current \<and> identity_Valid (bd_Identity current) \<and>
     unat (bd_Generation next) = Suc (unat (bd_Generation current)) \<and>
     unat (bd_ReceiveOffset current) \<le> unat (bd_SendOffset next) \<and>
     unat (bd_ReceiveOffset next) \<le> unat (bd_SendOffset current)"

lemma generation_next_iff:
  fixes g h :: u64
  shows "g \<noteq> max_u64 \<and> h = g + 1 \<longleftrightarrow> unat h = Suc (unat g)"
proof (cases "unat g = 18446744073709551615")
  case True
  then have "g = max_u64" by (simp only: word_unat_eq_iff unat_max_u64)
  moreover have "unat h < 18446744073709551616" using unsigned_less [of h] by simp
  ultimately show ?thesis using True by auto
next
  case False
  moreover have "unat g < 18446744073709551616" using unsigned_less [of g] by simp
  ultimately have lt: "unat g + 1 < 18446744073709551616" by linarith
  then have "unat (g + 1) = unat g + unat (1 :: u64)"
    by (intro unat_plus_no_wrap) simp
  moreover have "g \<noteq> max_u64" using False unat_max_u64 by auto
  ultimately show ?thesis by (auto simp: word_unat_eq_iff)
qed

lemma ValidateRebind_safe:
  assumes "identity_sized (bd_Identity current)" "identity_sized (bd_Identity next)"
  shows "ValidateRebind current next = None \<longleftrightarrow> rebind_safe current next"
proof -
  have "bd_Identity next = bd_Identity current \<longleftrightarrow>
      id_ID (bd_Identity current) = id_ID (bd_Identity next) \<and>
      id_Token (bd_Identity current) = id_Token (bd_Identity next)"
    by (cases "bd_Identity next"; cases "bd_Identity current") auto
  then show ?thesis
    using assms
    by (auto simp: ValidateRebind_def rebind_safe_def VerifyToken_iff generation_next_iff [symmetric]
        word_less_nat_alt not_less)
qed

text \<open>A retry is validated as a rebind from the generation before: it is accepted for exactly the
  current generation.\<close>

lemma ValidateRebindRetryRequest_safe:
  assumes "identity_sized (bd_Identity current)" "identity_sized (bd_Identity next)"
  shows "ValidateRebindRetryRequest current next = None \<longleftrightarrow>
    bd_Type current = BindAck \<and> bd_Type next = BindOpen \<and> bd_Generation current \<noteq> 0 \<and>
    bd_Generation next = bd_Generation current \<and>
    rebind_safe (current\<lparr>bd_Generation := bd_Generation current - 1\<rparr>) next"
  using assms ValidateRebind_safe [of "current\<lparr>bd_Generation := bd_Generation current - 1\<rparr>" "next"]
  by (auto simp: ValidateRebindRetryRequest_def)

section \<open>The control message\<close>

record tcp_resume_binding =
  tr_Mode :: string
  tr_StreamID :: "byte list"
  tr_Token :: "byte list"
  tr_Generation :: u64
  tr_SendOffset :: u64
  tr_ReceiveOffset :: u64

definition TCPResumeModeOpen :: string where "TCPResumeModeOpen = ''open''"
definition TCPResumeModeRebind :: string where "TCPResumeModeRebind = ''rebind''"

definition IdentityFromProtocol :: "tcp_resume_binding option \<Rightarrow> resume_error + identity" where
  "IdentityFromProtocol b =
     (case b of
        None \<Rightarrow> Err ErrBinding
      | Some b \<Rightarrow>
        if length (tr_StreamID b) \<noteq> StreamIDSize \<or> length (tr_Token b) \<noteq> TokenSize then Err ErrBinding
        else
          let i = \<lparr>id_ID = tr_StreamID b, id_Token = tr_Token b\<rparr>
          in if \<not> identity_Valid i then Err ErrBinding else Ok i)"

definition binding_from_protocol ::
  "byte \<Rightarrow> tcp_resume_binding option \<Rightarrow> resume_error + binding" where
  "binding_from_protocol ty b =
     (case (IdentityFromProtocol b, b) of
        (Inr i, Some b) \<Rightarrow>
          if tr_Generation b = 0 then Err ErrBinding
          else if tr_Mode b \<noteq> TCPResumeModeOpen \<and> tr_Mode b \<noteq> TCPResumeModeRebind then Err ErrBinding
          else Ok \<lparr>bd_Type = ty, bd_Identity = i, bd_Generation = tr_Generation b,
                   bd_SendOffset = tr_SendOffset b, bd_ReceiveOffset = tr_ReceiveOffset b\<rparr>
      | _ \<Rightarrow> Err ErrBinding)"

definition RequestBindingFromProtocol :: "tcp_resume_binding option \<Rightarrow> resume_error + binding" where
  "RequestBindingFromProtocol = binding_from_protocol BindOpen"

definition ResponseBindingFromProtocol :: "tcp_resume_binding option \<Rightarrow> resume_error + binding" where
  "ResponseBindingFromProtocol = binding_from_protocol BindAck"

definition BindingToProtocol :: "binding \<Rightarrow> string \<Rightarrow> resume_error + tcp_resume_binding" where
  "BindingToProtocol b mode =
     (if \<not> identity_Valid (bd_Identity b) \<or> bd_Generation b = 0 then Err ErrBinding
      else if mode \<noteq> TCPResumeModeOpen \<and> mode \<noteq> TCPResumeModeRebind then Err ErrBinding
      else Ok \<lparr>tr_Mode = mode, tr_StreamID = id_ID (bd_Identity b), tr_Token = id_Token (bd_Identity b),
               tr_Generation = bd_Generation b, tr_SendOffset = bd_SendOffset b,
               tr_ReceiveOffset = bd_ReceiveOffset b\<rparr>)"

lemma BindingToProtocol_request:
  assumes "binding_valid b" "bd_Type b = BindOpen" "BindingToProtocol b mode = Ok m"
  shows "RequestBindingFromProtocol (Some m) = Ok b"
  using assms
  by (auto simp: BindingToProtocol_def RequestBindingFromProtocol_def binding_from_protocol_def
      IdentityFromProtocol_def binding_valid_def identity_sized_def Let_def split: if_splits)

end
