(* ===== verification/Resume_Replay.thy ===== *)
theory Resume_Replay
  imports Resume_Frame
begin

text \<open>
  \<open>internal/p2p/resume/replay.go\<close>: the bounded buffer of sent but unacknowledged bytes of one
  direction, and the receiver that removes the duplicates a replay brings. Offsets are \<open>uint64\<close>
  and stay words; the code's own overflow guards are part of the definitions. The mutexes make
  every operation atomic; storage reuse (\<open>spare\<close>) is kept, because the header bytes of a reused
  block matter to \<open>writeFrame\<close>.
\<close>

section \<open>The replay buffer\<close>

definition DefaultReplayLimit :: int where "DefaultReplayLimit = 8388608"

text \<open>\<open>sg_wire\<close> and \<open>rb_spare\<close> are the backing arrays up to their capacity.\<close>

record segment =
  sg_seq :: u64
  sg_data :: "byte list"
  sg_wire :: "byte list"

record replay_buffer =
  rb_limit :: int
  rb_next :: u64
  rb_acked :: u64
  rb_buffered :: int
  rb_segments :: "segment list"
  rb_spare :: "byte list"

definition NewReplayBuffer :: "int \<Rightarrow> replay_buffer" where
  "NewReplayBuffer limit =
     \<lparr>rb_limit = (if limit \<le> 0 then DefaultReplayLimit else limit), rb_next = 0, rb_acked = 0,
      rb_buffered = 0, rb_segments = [], rb_spare = []\<rparr>"

definition appendRetainedLocked ::
  "replay_buffer \<Rightarrow> byte list \<Rightarrow> resume_error + (u64 \<times> byte list \<times> byte list \<times> replay_buffer)" where
  "appendRetainedLocked b payload =
     (if payload = [] then Err ErrFrame
      else if length payload > MaxPayload then Err ErrPayloadSize
      else if rb_buffered b + int (length payload) > rb_limit b then Err ErrReplayLimit
      else if word_of_nat (length payload) > - 1 - rb_next b then Err ErrFrame
      else
        let sq = rb_next b;
            wireSize = HeaderSize + length payload;
            reuse = length (rb_spare b) \<ge> wireSize;
            block = (if reuse
                     then take HeaderSize (rb_spare b) @ payload @ drop wireSize (rb_spare b)
                     else replicate HeaderSize 0 @ payload)
        in Ok (sq, payload, take wireSize block,
               b\<lparr>rb_segments := rb_segments b @ [\<lparr>sg_seq = sq, sg_data = payload, sg_wire = block\<rparr>],
                 rb_next := rb_next b + word_of_nat (length payload),
                 rb_buffered := rb_buffered b + int (length payload),
                 rb_spare := (if reuse then [] else rb_spare b)\<rparr>))"

text \<open>Exported operations start with a nil check on the receiver; \<^const>\<open>None\<close> is the nil pointer.\<close>

definition appendRetained ::
  "replay_buffer option \<Rightarrow> byte list \<Rightarrow> resume_error + (u64 \<times> byte list \<times> byte list \<times> replay_buffer)" where
  "appendRetained b payload =
     (case b of None \<Rightarrow> Err ErrFrame | Some b \<Rightarrow> appendRetainedLocked b payload)"

definition Append :: "replay_buffer option \<Rightarrow> byte list \<Rightarrow> resume_error + (u64 \<times> replay_buffer)" where
  "Append b payload =
     (case appendRetained b payload of
        Inl e \<Rightarrow> Err e
      | Inr (sq, _, _, b') \<Rightarrow> Ok (sq, b'))"

text \<open>The loop of \<open>ackLocked\<close> over the segments, with the running \<open>buffered\<close> and \<open>spare\<close>.\<close>

fun ack_segments :: "u64 \<Rightarrow> int \<Rightarrow> byte list \<Rightarrow> segment list \<Rightarrow> int \<times> byte list \<times> segment list" where
  "ack_segments offset buffered spare [] = (buffered, spare, [])"
| "ack_segments offset buffered spare (s # ss) =
     (if sg_seq s + word_of_nat (length (sg_data s)) \<le> offset then
        ack_segments offset (buffered - int (length (sg_data s)))
          (if length (sg_wire s) > length spare \<and> length (sg_wire s) \<le> HeaderSize + MaxPayload
           then sg_wire s else spare) ss
      else if sg_seq s < offset then
        (let trim = unat (offset - sg_seq s)
         in (buffered - int trim, spare, s\<lparr>sg_data := drop trim (sg_data s), sg_seq := offset\<rparr> # ss))
      else (buffered, spare, s # ss))"

definition ackLocked :: "replay_buffer \<Rightarrow> u64 \<Rightarrow> resume_error + replay_buffer" where
  "ackLocked b offset =
     (if offset > rb_next b then Err ErrFrame
      else if offset \<le> rb_acked b then Ok b
      else (case ack_segments offset (rb_buffered b) (rb_spare b) (rb_segments b) of
              (buffered, spare, segs) \<Rightarrow>
                Ok (b\<lparr>rb_acked := offset, rb_buffered := buffered, rb_spare := spare,
                      rb_segments := segs\<rparr>)))"

definition Ack :: "replay_buffer option \<Rightarrow> u64 \<Rightarrow> resume_error + replay_buffer" where
  "Ack b offset = (case b of None \<Rightarrow> Err ErrFrame | Some b \<Rightarrow> ackLocked b offset)"

definition snapshotLocked :: "replay_buffer \<Rightarrow> frame list" where
  "snapshotLocked b =
     map (\<lambda>s. \<lparr>fr_type = FrameData, fr_flags = 0, fr_seq = sg_seq s, fr_ack = 0,
              fr_payload = sg_data s, fr_wire = replicate HeaderSize 0 @ sg_data s\<rparr>) (rb_segments b)"

definition Snapshot :: "replay_buffer option \<Rightarrow> frame list" where
  "Snapshot b = (case b of None \<Rightarrow> [] | Some b \<Rightarrow> snapshotLocked b)"

definition rb_Acked :: "replay_buffer option \<Rightarrow> u64" where
  "rb_Acked b = (case b of None \<Rightarrow> 0 | Some b \<Rightarrow> rb_acked b)"

definition rb_Next :: "replay_buffer option \<Rightarrow> u64" where
  "rb_Next b = (case b of None \<Rightarrow> 0 | Some b \<Rightarrow> rb_next b)"

definition rb_Buffered :: "replay_buffer option \<Rightarrow> int" where
  "rb_Buffered b = (case b of None \<Rightarrow> 0 | Some b \<Rightarrow> rb_buffered b)"

section \<open>The receiver\<close>

record receiver =
  rc_expected :: u64

definition acceptBorrowedLocked ::
  "receiver \<Rightarrow> u64 \<Rightarrow> byte list \<Rightarrow> (byte list \<times> u64 \<times> resume_error option) \<times> receiver" where
  "acceptBorrowedLocked r sq payload =
     (if payload = [] then (([], 0, Some ErrFrame), r)
      else if sq > rc_expected r then (([], rc_expected r, Some ErrSequenceGap), r)
      else if word_of_nat (length payload) > - 1 - sq then (([], rc_expected r, Some ErrFrame), r)
      else if sq + word_of_nat (length payload) \<le> rc_expected r then (([], rc_expected r, None), r)
      else
        let start = (if sq < rc_expected r then unat (rc_expected r - sq) else 0);
            fresh = drop start payload;
            expected = rc_expected r + word_of_nat (length fresh)
        in ((fresh, expected, None), r\<lparr>rc_expected := expected\<rparr>))"

definition Accept ::
  "receiver option \<Rightarrow> u64 \<Rightarrow> byte list \<Rightarrow> (byte list \<times> u64 \<times> resume_error option) \<times> receiver option" where
  "Accept r sq payload =
     (case r of
        None \<Rightarrow> (([], 0, Some ErrFrame), None)
      | Some r \<Rightarrow> (case acceptBorrowedLocked r sq payload of (res, r') \<Rightarrow> (res, Some r')))"

definition rc_Expected :: "receiver option \<Rightarrow> u64" where
  "rc_Expected r = (case r of None \<Rightarrow> 0 | Some r \<Rightarrow> rc_expected r)"

section \<open>Invariant and abstraction\<close>

text \<open>Segments are contiguous and non-empty: \<open>seg_chain a ss z\<close> says that they cover exactly the
  offsets from \<open>a\<close> to \<open>z\<close>.\<close>

fun seg_chain :: "nat \<Rightarrow> segment list \<Rightarrow> nat \<Rightarrow> bool" where
  "seg_chain a [] z \<longleftrightarrow> a = z"
| "seg_chain a (s # ss) z \<longleftrightarrow>
     unat (sg_seq s) = a \<and> sg_data s \<noteq> [] \<and> length (sg_data s) \<le> MaxPayload \<and>
     seg_chain (a + length (sg_data s)) ss z"

definition rb_bytes :: "segment list \<Rightarrow> byte list" where
  "rb_bytes ss = concat (map sg_data ss)"

text \<open>A block is at most one header and one maximal payload long, and its reserved header bytes are
  zero.\<close>

definition block_ok :: "byte list \<Rightarrow> bool" where
  "block_ok w \<longleftrightarrow> length w \<le> HeaderSize + MaxPayload \<and>
     (w \<noteq> [] \<longrightarrow> HeaderSize \<le> length w \<and> take 4 (drop 28 w) = replicate 4 0)"

definition rb_inv :: "replay_buffer \<Rightarrow> bool" where
  "rb_inv b \<longleftrightarrow>
     0 < rb_limit b \<and>
     seg_chain (unat (rb_acked b)) (rb_segments b) (unat (rb_next b)) \<and>
     rb_buffered b = int (length (rb_bytes (rb_segments b))) \<and>
     rb_buffered b \<le> rb_limit b \<and>
     (\<forall>s \<in> set (rb_segments b). block_ok (sg_wire s)) \<and> block_ok (rb_spare b)"

text \<open>The abstract state is every byte ever appended and how many of them are acknowledged: the
  buffer holds exactly the rest.\<close>

definition rb_rel :: "replay_buffer \<Rightarrow> byte list \<Rightarrow> bool" where
  "rb_rel b sent \<longleftrightarrow>
     rb_inv b \<and> unat (rb_next b) = length sent \<and> unat (rb_acked b) \<le> length sent \<and>
     rb_bytes (rb_segments b) = drop (unat (rb_acked b)) sent"

lemma rb_bytes_simps [simp]:
  "rb_bytes [] = []" "rb_bytes (s # ss) = sg_data s @ rb_bytes ss"
  "rb_bytes (ss @ ts) = rb_bytes ss @ rb_bytes ts"
  by (simp_all add: rb_bytes_def)

lemma seg_chain_length: "seg_chain a ss z \<Longrightarrow> z = a + length (rb_bytes ss)"
  by (induction ss arbitrary: a) fastforce+

lemma seg_chain_append:
  "seg_chain a (ss @ ts) z \<longleftrightarrow> (\<exists>m. seg_chain a ss m \<and> seg_chain m ts z)"
  by (induction ss arbitrary: a) auto

lemma block_ok_Nil [simp]: "block_ok []"
  by (simp add: block_ok_def)

lemma rb_rel_new: "rb_rel (NewReplayBuffer limit) []"
  by (simp add: rb_rel_def rb_inv_def NewReplayBuffer_def DefaultReplayLimit_def)

section \<open>Appending\<close>

lemma append_fits_iff:
  assumes "length p \<le> MaxPayload"
  shows "(word_of_nat (length p) > - 1 - (w :: u64)) \<longleftrightarrow> 18446744073709551616 \<le> unat w + length p"
  using assms by (intro u64_guard_iff) (simp add: MaxPayload_def)

lemma fresh_block_ok:
  assumes "block_ok spare" "length p \<le> MaxPayload"
  defines "block \<equiv> (if length spare \<ge> HeaderSize + length p
     then take HeaderSize spare @ p @ drop (HeaderSize + length p) spare
     else replicate HeaderSize 0 @ p)"
  shows "block_ok block \<and> HeaderSize \<le> length block \<and>
    length (take (HeaderSize + length p) block) = HeaderSize + length p \<and>
    drop HeaderSize (take (HeaderSize + length p) block) = p \<and>
    take 4 (drop 28 (take (HeaderSize + length p) block)) = replicate 4 0"
proof (cases "length spare \<ge> HeaderSize + length p")
  case True
  then have "spare \<noteq> []" by (auto simp: HeaderSize_def)
  with assms(1) have "take 4 (drop 28 spare) = replicate 4 0" "length spare \<le> HeaderSize + MaxPayload"
    by (auto simp: block_ok_def)
  with True show ?thesis
    by (cases p) (auto simp: block_def block_ok_def HeaderSize_def drop_take min_def)
next
  case False
  with assms(2) show ?thesis
    by (auto simp: block_def block_ok_def HeaderSize_def numeral_eq_Suc)
qed

lemma append_Ok:
  assumes rel: "rb_rel b sent" and app: "appendRetainedLocked b p = Ok (sq, q, w, b')"
  shows "rb_rel b' (sent @ p) \<and> unat sq = length sent \<and> q = p \<and> p \<noteq> [] \<and> length p \<le> MaxPayload \<and>
    length w = HeaderSize + length p \<and> drop HeaderSize w = p \<and> take 4 (drop 28 w) = replicate 4 0 \<and>
    rb_acked b' = rb_acked b \<and> unat (rb_next b') = length (sent @ p)"
proof -
  have guards: "p \<noteq> []" "length p \<le> MaxPayload" "rb_buffered b + int (length p) \<le> rb_limit b"
    "\<not> word_of_nat (length p) > - 1 - rb_next b"
    using app by (auto simp: appendRetainedLocked_def Let_def split: if_splits)
  with append_fits_iff have fits: "unat (rb_next b) + length p < 18446744073709551616"
    by (metis not_le)
  have inv: "rb_inv b" "unat (rb_next b) = length sent" "unat (rb_acked b) \<le> length sent"
    "rb_bytes (rb_segments b) = drop (unat (rb_acked b)) sent"
    using rel by (auto simp: rb_rel_def)
  define block where "block = (if length (rb_spare b) \<ge> HeaderSize + length p
     then take HeaderSize (rb_spare b) @ p @ drop (HeaderSize + length p) (rb_spare b)
     else replicate HeaderSize 0 @ p)"
  have b': "b' = b\<lparr>rb_segments := rb_segments b @ [\<lparr>sg_seq = rb_next b, sg_data = p, sg_wire = block\<rparr>],
                 rb_next := rb_next b + word_of_nat (length p),
                 rb_buffered := rb_buffered b + int (length p),
                 rb_spare := (if length (rb_spare b) \<ge> HeaderSize + length p then [] else rb_spare b)\<rparr>"
    and out: "sq = rb_next b" "q = p" "w = take (HeaderSize + length p) block"
    using app guards by (auto simp: appendRetainedLocked_def Let_def block_def split: if_splits)
  have block: "block_ok block" "length w = HeaderSize + length p" "drop HeaderSize w = p"
    "take 4 (drop 28 w) = replicate 4 0"
    using fresh_block_ok [of "rb_spare b" p] inv(1) guards(2)
    unfolding block_def [symmetric] out by (auto simp: rb_inv_def)
  have "rb_inv b'"
    using inv(1) guards(1-3) fits block(1)
    by (auto simp: rb_inv_def b' seg_chain_append unat_u64_add_nat)
  with inv fits out block guards show ?thesis
    by (simp add: rb_rel_def b' unat_u64_add_nat)
qed

text \<open>When an append is refused, and why: it never loses a byte silently.\<close>

lemma append_Err_iff:
  assumes "rb_rel b sent"
  shows "appendRetainedLocked b p = Err e \<longleftrightarrow>
    (e = ErrFrame \<and> p = []) \<or>
    (e = ErrPayloadSize \<and> length p > MaxPayload) \<or>
    (e = ErrReplayLimit \<and> p \<noteq> [] \<and> length p \<le> MaxPayload \<and>
       int (length sent - unat (rb_acked b)) + int (length p) > rb_limit b) \<or>
    (e = ErrFrame \<and> p \<noteq> [] \<and> length p \<le> MaxPayload \<and>
       int (length sent - unat (rb_acked b)) + int (length p) \<le> rb_limit b \<and>
       18446744073709551616 \<le> length sent + length p)"
proof -
  have "rb_buffered b = int (length sent - unat (rb_acked b))" "unat (rb_next b) = length sent"
    using assms by (auto simp: rb_rel_def rb_inv_def)
  then show ?thesis
    using append_fits_iff [of p "rb_next b"]
    by (auto simp: appendRetainedLocked_def Let_def MaxPayload_def)
qed

section \<open>Acknowledging\<close>

lemma ack_segments_spec:
  assumes "seg_chain a ss z" "a \<le> unat off" "unat off \<le> z" "z < 18446744073709551616"
    and "ack_segments off buf spare ss = (buf', spare', ss')"
    and "\<forall>s \<in> set ss. block_ok (sg_wire s)" "block_ok spare"
  shows "seg_chain (unat off) ss' z \<and> rb_bytes ss' = drop (unat off - a) (rb_bytes ss) \<and>
    buf' = buf - int (unat off - a) \<and> (\<forall>s \<in> set ss'. block_ok (sg_wire s)) \<and> block_ok spare'"
  using assms
proof (induction off buf spare ss arbitrary: a rule: ack_segments.induct)
  case (1 off buf spare)
  then show ?case by simp
next
  case (2 off buf spare s ss)
  let ?n = "length (sg_data s)"
  from "2.prems" have chain: "unat (sg_seq s) = a" "sg_data s \<noteq> []" "?n \<le> MaxPayload"
    "seg_chain (a + ?n) ss z" by simp_all
  then have "a + ?n \<le> z" using seg_chain_length by fastforce
  with "2.prems"(4) chain(1) have fin: "unat (sg_seq s + word_of_nat ?n) = a + ?n"
    by (simp add: unat_u64_add_nat)
  show ?case
  proof (cases "a + ?n \<le> unat off")
    case True
    then have le: "sg_seq s + word_of_nat ?n \<le> off" by (simp add: word_le_nat_alt fin)
    let ?spare = "if length (sg_wire s) > length spare \<and> length (sg_wire s) \<le> HeaderSize + MaxPayload
           then sg_wire s else spare"
    from le "2.prems"(5) have rec: "ack_segments off (buf - int ?n) ?spare ss = (buf', spare', ss')"
      by simp
    have "block_ok ?spare" "\<forall>s \<in> set ss. block_ok (sg_wire s)" using "2.prems"(6,7) by auto
    from "2.IH"(1) [OF le chain(4) True "2.prems"(3,4) rec this(2,1)] True show ?thesis
      by auto
  next
    case False
    then have nle: "\<not> sg_seq s + word_of_nat ?n \<le> off" by (simp add: word_le_nat_alt fin)
    show ?thesis
    proof (cases "a < unat off")
      case True
      then have lt: "sg_seq s < off" by (simp add: word_less_nat_alt chain(1))
      then have sub: "unat (off - sg_seq s) = unat off - a"
        by (simp add: unat_sub chain(1))
      with nle lt "2.prems"(5) have out: "buf' = buf - int (unat off - a)" "spare' = spare"
        "ss' = s\<lparr>sg_data := drop (unat off - a) (sg_data s), sg_seq := off\<rparr> # ss"
        by (auto simp: Let_def)
      with False True chain "2.prems"(6,7) show ?thesis by (auto simp: add.commute)
    next
      case eq: False
      with "2.prems"(2) have "unat off = a" by simp
      moreover from eq have "\<not> sg_seq s < off" by (simp add: word_less_nat_alt chain(1))
      ultimately show ?thesis using nle "2.prems" chain by auto
    qed
  qed
qed

lemma ack_beyond:
  "rb_rel b sent \<Longrightarrow> unat off > length sent \<Longrightarrow> ackLocked b off = Err ErrFrame"
  by (simp add: ackLocked_def word_less_nat_alt rb_rel_def)

lemma ack_Ok:
  assumes rel: "rb_rel b sent" and off: "unat off \<le> length sent"
  shows "\<exists>b'. ackLocked b off = Ok b' \<and> rb_rel b' sent \<and> rb_next b' = rb_next b \<and>
    unat (rb_acked b') = max (unat (rb_acked b)) (unat off) \<and> rb_limit b' = rb_limit b"
proof -
  have inv: "rb_inv b" "unat (rb_next b) = length sent" "unat (rb_acked b) \<le> length sent"
    "rb_bytes (rb_segments b) = drop (unat (rb_acked b)) sent"
    using rel by (auto simp: rb_rel_def)
  have ok: "\<not> off > rb_next b" using off inv(2) by (simp add: word_less_nat_alt)
  show ?thesis
  proof (cases "off \<le> rb_acked b")
    case True
    with ok rel show ?thesis by (simp add: ackLocked_def word_le_nat_alt)
  next
    case False
    then have lt: "unat (rb_acked b) \<le> unat off" by (simp add: word_le_nat_alt)
    obtain buf' spare' ss' where run:
      "ack_segments off (rb_buffered b) (rb_spare b) (rb_segments b) = (buf', spare', ss')"
      by (metis prod_cases3)
    have "seg_chain (unat (rb_acked b)) (rb_segments b) (length sent)"
      "\<forall>s \<in> set (rb_segments b). block_ok (sg_wire s)" "block_ok (rb_spare b)"
      "length sent < 18446744073709551616"
      using inv unat_u64_lt [of "rb_next b"] by (auto simp: rb_inv_def)
    from ack_segments_spec [OF this(1) lt off this(4) run this(2,3)] inv lt off
    have post: "seg_chain (unat off) ss' (length sent)" "rb_bytes ss' = drop (unat off) sent"
      "buf' = int (length sent - unat off)" "\<forall>s \<in> set ss'. block_ok (sg_wire s)" "block_ok spare'"
      by (auto simp: rb_inv_def)
    let ?b = "b\<lparr>rb_acked := off, rb_buffered := buf', rb_spare := spare', rb_segments := ss'\<rparr>"
    have "rb_buffered b = int (length sent - unat (rb_acked b))" "rb_buffered b \<le> rb_limit b"
      using inv by (auto simp: rb_inv_def)
    moreover have "int (length sent - unat off) \<le> int (length sent - unat (rb_acked b))"
      using lt by simp
    ultimately have "buf' \<le> rb_limit b" using post(3) by linarith
    moreover have "buf' = int (length (rb_bytes ss'))" using post(2,3) by simp
    ultimately have "rb_rel ?b sent"
      using post(1,2,4,5) inv off by (simp add: rb_rel_def rb_inv_def)
    with ok False run lt show ?thesis
      by (auto simp: ackLocked_def)
  qed
qed

section \<open>Replaying\<close>

text \<open>\<open>data_chain sent a fs z\<close>: the frames carry, in order and without gap or overlap, exactly the
  bytes of \<open>sent\<close> from offset \<open>a\<close> to \<open>z\<close>.\<close>

definition data_of :: "byte list \<Rightarrow> frame \<Rightarrow> bool" where
  "data_of sent f \<longleftrightarrow>
     fr_type f = FrameData \<and> fr_payload f \<noteq> [] \<and> length (fr_payload f) \<le> MaxPayload \<and>
     prefix (fr_payload f) (drop (unat (fr_seq f)) sent)"

fun data_chain :: "byte list \<Rightarrow> nat \<Rightarrow> frame list \<Rightarrow> nat \<Rightarrow> bool" where
  "data_chain sent a [] z \<longleftrightarrow> a = z"
| "data_chain sent a (f # fs) z \<longleftrightarrow>
     data_of sent f \<and> unat (fr_seq f) = a \<and> wire_ok f \<and>
     data_chain sent (a + length (fr_payload f)) fs z"

lemma data_of_bound: "data_of sent f \<Longrightarrow> unat (fr_seq f) + length (fr_payload f) \<le> length sent"
  by (simp add: data_of_def slice_bound)

lemma data_of_append:
  assumes "data_of sent f"
  shows "data_of (sent @ tl1) f"
proof -
  have "unat (fr_seq f) \<le> length sent" using data_of_bound [OF assms] by simp
  with assms show ?thesis by (simp add: data_of_def slice_extend)
qed

lemma data_chain_le: "data_chain sent a fs z \<Longrightarrow> a \<le> z"
  by (induction fs arbitrary: a) fastforce+

lemma data_chain_payloads:
  "data_chain sent a fs z \<Longrightarrow> z \<le> length sent \<Longrightarrow> concat (map fr_payload fs) = take (z - a) (drop a sent)"
proof (induction fs arbitrary: a)
  case Nil
  then show ?case by simp
next
  case (Cons f fs)
  let ?n = "length (fr_payload f)"
  from Cons.prems have le: "a + ?n \<le> z" and pre: "prefix (fr_payload f) (drop a sent)"
    using data_chain_le by (fastforce, auto simp: data_of_def)
  have "concat (map fr_payload fs) = take (z - (a + ?n)) (drop (a + ?n) sent)"
    using Cons by simp
  moreover from le have "z - a = ?n + (z - (a + ?n))" by simp
  moreover from pre have "take ?n (drop a sent) = fr_payload f" by (rule slice_eq_take [symmetric])
  ultimately show ?case by (simp add: take_add add.commute)
qed

lemma seg_chain_snapshot:
  assumes "seg_chain a ss (length sent)" "rb_bytes ss = drop a sent" "a \<le> length sent"
  shows "data_chain sent a
    (map (\<lambda>s. \<lparr>fr_type = FrameData, fr_flags = 0, fr_seq = sg_seq s, fr_ack = 0,
              fr_payload = sg_data s, fr_wire = replicate HeaderSize 0 @ sg_data s\<rparr>) ss)
    (length sent)"
  using assms
proof (induction ss arbitrary: a)
  case Nil
  then show ?case by simp
next
  case (Cons s ss)
  let ?n = "length (sg_data s)"
  have le: "a + ?n \<le> length sent"
    using Cons.prems(1) seg_chain_length by fastforce
  have split: "sg_data s @ rb_bytes ss = drop a sent" using Cons.prems(2) by simp
  then have pre: "prefix (sg_data s) (drop a sent)" by (metis prefixI)
  with split have "rb_bytes ss = drop (a + ?n) sent"
    using slice_append_drop by (metis same_append_eq)
  with Cons le pre show ?case
    by (simp add: data_of_def wire_ok_def HeaderSize_def numeral_eq_Suc)
qed

lemma snapshot_chain:
  "rb_rel b sent \<Longrightarrow> data_chain sent (unat (rb_acked b)) (snapshotLocked b) (length sent)"
  by (auto simp: rb_rel_def rb_inv_def snapshotLocked_def intro: seg_chain_snapshot)

section \<open>Receiving\<close>

lemma accept_error_keeps: "acceptBorrowedLocked r sq p = ((fr, ack, Some e), r') \<Longrightarrow> r' = r \<and> fr = []"
  by (auto simp: acceptBorrowedLocked_def Let_def split: if_splits)

text \<open>A slice of the sender's stream that does not start beyond what was accepted: the receiver
  takes exactly the new part.\<close>

lemma accept_slice:
  assumes p: "p \<noteq> []" "prefix p (drop (unat sq) sent)"
    and sent: "length sent < 18446744073709551616"
    and exp: "unat (rc_expected r) \<le> length sent" "unat sq \<le> unat (rc_expected r)"
  shows "\<exists>fresh r'. acceptBorrowedLocked r sq p = ((fresh, rc_expected r', None), r') \<and>
    unat (rc_expected r') = max (unat (rc_expected r)) (unat sq + length p) \<and>
    take (unat (rc_expected r)) sent @ fresh = take (unat (rc_expected r')) sent"
proof -
  let ?e = "unat (rc_expected r)"
  have bound: "unat sq + length p \<le> length sent" using p slice_bound by blast
  have ngap: "\<not> sq > rc_expected r" using exp by (simp add: word_less_nat_alt)
  have nov: "\<not> word_of_nat (length p) > - 1 - sq"
    using bound sent u64_guard_iff [of "length p" sq] by simp
  have fin: "unat (sq + word_of_nat (length p)) = unat sq + length p"
    using bound sent by (simp add: unat_u64_add_nat)
  show ?thesis
  proof (cases "unat sq + length p \<le> ?e")
    case True
    then have "sq + word_of_nat (length p) \<le> rc_expected r" by (simp add: word_le_nat_alt fin)
    with p ngap nov True show ?thesis by (simp add: acceptBorrowedLocked_def)
  next
    case False
    then have nle: "\<not> sq + word_of_nat (length p) \<le> rc_expected r" by (simp add: word_le_nat_alt fin)
    have start: "(if sq < rc_expected r then unat (rc_expected r - sq) else 0) = ?e - unat sq"
      using exp(2) by (simp add: word_less_nat_alt unat_sub word_le_nat_alt)
    let ?fresh = "drop (?e - unat sq) p"
    have len: "?e + length ?fresh = unat sq + length p" using exp(2) False by simp
    then have exp': "unat (rc_expected r + word_of_nat (length ?fresh)) = unat sq + length p"
      using bound sent by (simp only: unat_u64_add_nat)
    have "prefix ?fresh (drop ?e sent)"
      using slice_drop [OF p(2), of "?e - unat sq"] exp(2) by simp
    then have "take ?e sent @ ?fresh = take (?e + length ?fresh) sent"
      by (rule slice_append_take)
    with p ngap nov nle start len exp' False show ?thesis
      by (simp add: acceptBorrowedLocked_def Let_def max_def del: length_drop)
  qed
qed

section \<open>The replay contract\<close>

text \<open>What the stream state relies on, whatever stores the bytes: appends extend the stream,
  acknowledgements only move forward, and a snapshot is exactly the unacknowledged rest.\<close>

fun accept_frames :: "receiver \<Rightarrow> frame list \<Rightarrow> (byte list \<times> receiver) option" where
  "accept_frames r [] = Some ([], r)"
| "accept_frames r (f # fs) =
     (case acceptBorrowedLocked r (fr_seq f) (fr_payload f) of
        ((fresh, _, None), r') \<Rightarrow> map_option (\<lambda>(rest, r''). (fresh @ rest, r'')) (accept_frames r' fs)
      | ((_, _, Some _), _) \<Rightarrow> None)"

lemma accept_chain:
  assumes "data_chain sent a fs (length sent)" "length sent < 18446744073709551616"
    and "a \<le> unat (rc_expected r)" "unat (rc_expected r) \<le> length sent"
  shows "\<exists>r'. accept_frames r fs = Some (drop (unat (rc_expected r)) sent, r') \<and>
    unat (rc_expected r') = length sent"
  using assms
proof (induction fs arbitrary: a r)
  case Nil
  then show ?case by simp
next
  case (Cons f fs)
  then have f: "data_of sent f" "unat (fr_seq f) = a" by simp_all
  with Cons.prems obtain fresh r1 where
    acc: "acceptBorrowedLocked r (fr_seq f) (fr_payload f) = ((fresh, rc_expected r1, None), r1)"
    and r1: "unat (rc_expected r1) = max (unat (rc_expected r)) (a + length (fr_payload f))"
    and new: "take (unat (rc_expected r)) sent @ fresh = take (unat (rc_expected r1)) sent"
    using accept_slice [of "fr_payload f" "fr_seq f" sent r] by (auto simp: data_of_def)
  have "a + length (fr_payload f) \<le> length sent" using f data_of_bound by blast
  with r1 Cons.prems(4) have "unat (rc_expected r1) \<le> length sent" by simp
  with Cons.IH [of "a + length (fr_payload f)" r1] Cons.prems r1 obtain r2 where
    r2: "accept_frames r1 fs = Some (drop (unat (rc_expected r1)) sent, r2)"
      "unat (rc_expected r2) = length sent" by auto
  have "(take (unat (rc_expected r)) sent @ fresh) @ drop (unat (rc_expected r1)) sent =
      take (unat (rc_expected r)) sent @ drop (unat (rc_expected r)) sent"
    by (simp only: new append_take_drop_id)
  then have "fresh @ drop (unat (rc_expected r1)) sent = drop (unat (rc_expected r)) sent"
    by (simp only: append_assoc same_append_eq)
  with acc r2 show ?case by simp
qed

locale replay_store =
  fixes rel :: "'b \<Rightarrow> byte list \<Rightarrow> bool"
    and append :: "'b \<Rightarrow> byte list \<Rightarrow> resume_error + (u64 \<times> byte list \<times> byte list \<times> 'b)"
    and ack :: "'b \<Rightarrow> u64 \<Rightarrow> resume_error + 'b"
    and snapshot :: "'b \<Rightarrow> frame list"
    and acked :: "'b \<Rightarrow> nat"
  assumes append_rel: "rel b sent \<Longrightarrow> append b p = Inr (sq, q, w, b') \<Longrightarrow>
      rel b' (sent @ p) \<and> unat sq = length sent \<and> acked b' = acked b"
    and ack_rel: "rel b sent \<Longrightarrow> unat off \<le> length sent \<Longrightarrow>
      \<exists>b'. ack b off = Inr b' \<and> rel b' sent \<and> acked b' = max (acked b) (unat off)"
    and snapshot_rel: "rel b sent \<Longrightarrow> data_chain sent (acked b) (snapshot b) (length sent)"
    and acked_le: "rel b sent \<Longrightarrow> acked b \<le> length sent"
    and sent_bound: "rel b sent \<Longrightarrow> length sent < 18446744073709551616"
begin

lemma snapshot_is_unacked:
  "rel b sent \<Longrightarrow> concat (map fr_payload (snapshot b)) = drop (acked b) sent"
  using data_chain_payloads [OF snapshot_rel] acked_le by fastforce

text \<open>Replaying a snapshot into a receiver that is anywhere between the acknowledged and the sent
  offset delivers precisely what it is missing.\<close>

lemma replay_completes:
  assumes "rel b sent" "acked b \<le> unat (rc_expected r)" "unat (rc_expected r) \<le> length sent"
  shows "\<exists>r'. accept_frames r (snapshot b) = Some (drop (unat (rc_expected r)) sent, r') \<and>
    unat (rc_expected r') = length sent"
  using accept_chain [OF snapshot_rel [OF assms(1)] sent_bound [OF assms(1)] assms(2,3)] .

lemma append_ack_snapshot:
  assumes "rel b sent" "append b p = Inr (sq, q, w, b')" "unat off \<le> length sent"
    and "ack b' off = Inr b''"
  shows "concat (map fr_payload (snapshot b'')) = drop (max (acked b) (unat off)) (sent @ p)"
proof -
  have rel': "rel b' (sent @ p)" "acked b' = acked b" using append_rel [OF assms(1,2)] by auto
  with ack_rel [OF rel'(1), of off] assms(3,4)
  have "rel b'' (sent @ p)" "acked b'' = max (acked b) (unat off)" by auto
  with snapshot_is_unacked show ?thesis by metis
qed

end

interpretation rb: replay_store rb_rel appendRetainedLocked ackLocked snapshotLocked "\<lambda>b. unat (rb_acked b)"
proof unfold_locales
  fix b sent p sq q w b'
  assume "rb_rel b sent" "appendRetainedLocked b p = Inr (sq, q, w, b')"
  from append_Ok [OF this]
  show "rb_rel b' (sent @ p) \<and> unat sq = length sent \<and> unat (rb_acked b') = unat (rb_acked b)" by simp
next
  fix b sent and off :: u64
  assume "rb_rel b sent" "unat off \<le> length sent"
  from ack_Ok [OF this]
  show "\<exists>b'. ackLocked b off = Inr b' \<and> rb_rel b' sent \<and>
      unat (rb_acked b') = max (unat (rb_acked b)) (unat off)" by blast
next
  fix b sent assume rel: "rb_rel b sent"
  then show "data_chain sent (unat (rb_acked b)) (snapshotLocked b) (length sent)"
    by (rule snapshot_chain)
  from rel show "unat (rb_acked b) \<le> length sent" by (simp add: rb_rel_def)
  from rel show "length sent < 18446744073709551616"
    using unat_u64_lt [of "rb_next b"] by (simp add: rb_rel_def)
qed

end
