(* ===== verification/Resume_State.thy ===== *)
theory Resume_State
  imports Resume_Binding Resume_Replay
begin

text \<open>
  \<open>internal/p2p/resume/state.go\<close>: one logical stream end, combining the outbound replay buffer,
  the inbound receiver and the half-close flags. It does not know which transport carries its
  frames, so its correctness is stated against the bytes written at the other end.
\<close>

unbundle bit_operations_syntax

section \<open>State and operations\<close>

record stream_state =
  ss_identity :: identity
  ss_send :: replay_buffer
  ss_receive :: receiver
  ss_localFIN :: bool
  ss_localFINAck :: bool
  ss_remoteFIN :: bool

definition NewStreamState :: "identity \<Rightarrow> int \<Rightarrow> resume_error + stream_state" where
  "NewStreamState i replayLimit =
     (if \<not> identity_Valid i then Err ErrBinding
      else Ok \<lparr>ss_identity = i, ss_send = NewReplayBuffer replayLimit,
               ss_receive = \<lparr>rc_expected = 0\<rparr>, ss_localFIN = False, ss_localFINAck = False,
               ss_remoteFIN = False\<rparr>)"

definition NewRandomStreamState :: "byte list \<Rightarrow> int \<Rightarrow> resume_error + stream_state" where
  "NewRandomStreamState rand replayLimit =
     (case NewIdentity rand of Inl e \<Rightarrow> Err e | Inr i \<Rightarrow> NewStreamState i replayLimit)"

definition receiveState :: "stream_state \<Rightarrow> u64 \<times> u16" where
  "receiveState s = (rc_expected (ss_receive s), if ss_remoteFIN s then FlagFINAck else 0)"

definition dataRetained :: "stream_state \<Rightarrow> byte list \<Rightarrow> resume_error + (frame \<times> stream_state)" where
  "dataRetained s payload =
     (if ss_localFIN s then Err ErrFrame
      else (case appendRetainedLocked (ss_send s) payload of
              Inl e \<Rightarrow> Err e
            | Inr (sq, retained, wire, b') \<Rightarrow>
              (case receiveState s of (ack, flags) \<Rightarrow>
                 Ok (\<lparr>fr_type = FrameData, fr_flags = flags, fr_seq = sq, fr_ack = ack,
                      fr_payload = retained, fr_wire = wire\<rparr>, s\<lparr>ss_send := b'\<rparr>))))"

text \<open>Exported operations check for a nil receiver first.\<close>

definition deref :: "'e \<Rightarrow> 's option \<Rightarrow> ('s \<Rightarrow> 'e + 'a) \<Rightarrow> 'e + 'a" where
  "deref e s f = (case s of None \<Rightarrow> Err e | Some s \<Rightarrow> f s)"

definition Data :: "stream_state option \<Rightarrow> byte list \<Rightarrow> resume_error + (frame \<times> stream_state)" where
  "Data s payload = deref ErrFrame s (\<lambda>s.
     case dataRetained s payload of
       Inl e \<Rightarrow> Err e
     | Inr (f, s') \<Rightarrow> Ok (f\<lparr>fr_wire := []\<rparr>, s'))"

definition control_frame :: "stream_state \<Rightarrow> byte \<Rightarrow> u64 \<Rightarrow> frame" where
  "control_frame s ty sq =
     (case receiveState s of (ack, flags) \<Rightarrow>
        \<lparr>fr_type = ty, fr_flags = flags, fr_seq = sq, fr_ack = ack, fr_payload = [], fr_wire = []\<rparr>)"

definition state_FIN :: "stream_state option \<Rightarrow> resume_error + (frame \<times> stream_state)" where
  "state_FIN s = deref ErrFrame s (\<lambda>s.
     let s' = s\<lparr>ss_localFIN := True\<rparr> in Ok (control_frame s' FrameFIN (rb_next (ss_send s')), s'))"

definition AckFrame :: "stream_state option \<Rightarrow> resume_error + frame" where
  "AckFrame s = deref ErrFrame s (\<lambda>s. Ok (control_frame s FrameAck 0))"

definition state_RST :: "stream_state option \<Rightarrow> resume_error + frame" where
  "state_RST s = deref ErrFrame s (\<lambda>s. Ok (control_frame s FrameRST (rb_next (ss_send s))))"

definition receive_frame ::
  "stream_state \<Rightarrow> frame \<Rightarrow> (byte list \<times> u64 \<times> resume_error option) \<times> stream_state" where
  "receive_frame s f =
     (let expected = rc_expected (ss_receive s); n = word_of_nat (length (fr_payload f)) in
      if fr_type f = FrameData then
        if ss_remoteFIN s \<and> n > - 1 - fr_seq f then (([], expected, Some ErrFrame), s)
        else if ss_remoteFIN s \<and> fr_seq f + n > expected then (([], expected, Some ErrFrame), s)
        else (case acceptBorrowedLocked (ss_receive s) (fr_seq f) (fr_payload f) of
                ((fresh, ack, Some e), r') \<Rightarrow> (([], ack, Some e), s\<lparr>ss_receive := r'\<rparr>)
              | ((fresh, ack, None), r') \<Rightarrow> ((fresh, ack, None), s\<lparr>ss_receive := r'\<rparr>))
      else if fr_type f = FrameFIN then
        if fr_seq f > expected then (([], expected, Some ErrSequenceGap), s)
        else if fr_seq f < expected then (([], expected, Some ErrFrame), s)
        else (([], expected, None), s\<lparr>ss_remoteFIN := True\<rparr>)
      else if fr_type f = FrameAck \<or> fr_type f = FrameRST then
        if fr_payload f \<noteq> [] then (([], expected, Some ErrFrame), s)
        else (([], expected, None), s)
      else (([], expected, Some ErrFrame), s))"

definition handleBorrowed ::
  "stream_state \<Rightarrow> frame \<Rightarrow> (byte list \<times> u64 \<times> resume_error option) \<times> stream_state" where
  "handleBorrowed s f =
     (let expected = rc_expected (ss_receive s); finack = fr_flags f AND FlagFINAck \<noteq> 0 in
      if unknown_flags (fr_flags f) then (([], 0, Some ErrFrame), s)
      else if fr_ack f > rb_next (ss_send s) then (([], expected, Some ErrFrame), s)
      else if finack \<and> (\<not> ss_localFIN s \<or> fr_ack f \<noteq> rb_next (ss_send s))
      then (([], expected, Some ErrFrame), s)
      else (case ackLocked (ss_send s) (fr_ack f) of
              Inl e \<Rightarrow> (([], expected, Some e), s)
            | Inr b' \<Rightarrow>
              receive_frame
                (s\<lparr>ss_send := b', ss_localFINAck := (ss_localFINAck s \<or> finack)\<rparr>) f))"

definition Handle ::
  "stream_state option \<Rightarrow> frame \<Rightarrow> (byte list \<times> u64 \<times> resume_error option) \<times> stream_state option" where
  "Handle s f =
     (case s of
        None \<Rightarrow> (([], 0, Some ErrFrame), None)
      | Some s \<Rightarrow> (case handleBorrowed s f of (res, s') \<Rightarrow> (res, Some s')))"

definition currentReceiveOffset :: "stream_state \<Rightarrow> u64" where
  "currentReceiveOffset s = rc_expected (ss_receive s)"

definition ReplayFrames :: "stream_state option \<Rightarrow> frame list" where
  "ReplayFrames s =
     (case s of
        None \<Rightarrow> []
      | Some s \<Rightarrow>
        (case receiveState s of (ack, flags) \<Rightarrow>
           map (\<lambda>f. f\<lparr>fr_ack := ack, fr_flags := flags\<rparr>) (snapshotLocked (ss_send s)) @
           (if ss_localFIN s \<and> \<not> ss_localFINAck s
            then [\<lparr>fr_type = FrameFIN, fr_flags = flags, fr_seq = rb_next (ss_send s), fr_ack = ack,
                   fr_payload = [], fr_wire = []\<rparr>]
            else [])))"

definition state_Binding :: "stream_state option \<Rightarrow> byte \<Rightarrow> u64 \<Rightarrow> resume_error + binding" where
  "state_Binding s kind generation = deref ErrBinding s (\<lambda>s.
     if generation = 0 then Err ErrBinding
     else Ok \<lparr>bd_Type = kind, bd_Identity = ss_identity s, bd_Generation = generation,
              bd_SendOffset = rb_next (ss_send s), bd_ReceiveOffset = currentReceiveOffset s\<rparr>)"

definition BufferedReplayBytes :: "stream_state option \<Rightarrow> int" where
  "BufferedReplayBytes s = (case s of None \<Rightarrow> 0 | Some s \<Rightarrow> rb_buffered (ss_send s))"

definition LocalFINAcknowledged :: "stream_state option \<Rightarrow> bool" where
  "LocalFINAcknowledged s = (case s of None \<Rightarrow> False | Some s \<Rightarrow> ss_localFINAck s)"

definition RemoteFIN :: "stream_state option \<Rightarrow> bool" where
  "RemoteFIN s = (case s of None \<Rightarrow> False | Some s \<Rightarrow> ss_remoteFIN s)"

section \<open>Error frames do not advance the receive side\<close>

text \<open>Whatever the frame, an error leaves every received byte and the half-close flag as they were,
  and an impossible acknowledgement leaves the whole state as it was.\<close>

lemma receive_frame_frame:
  assumes "receive_frame s f = ((fresh, ack, e), s')"
  shows "ss_send s' = ss_send s \<and> ss_localFIN s' = ss_localFIN s \<and>
    ss_localFINAck s' = ss_localFINAck s \<and> ss_identity s' = ss_identity s"
  using assms
  by (auto simp: receive_frame_def Let_def split: if_splits prod.splits option.splits)

lemma receive_frame_error:
  assumes "receive_frame s f = ((fresh, ack, Some e), s')"
  shows "s' = s \<and> fresh = []"
  using assms
  by (auto simp: receive_frame_def Let_def split: if_splits prod.splits option.splits
      dest: accept_error_keeps)

lemma handle_error_keeps:
  assumes "handleBorrowed s f = ((fresh, ack, Some e), s')"
  shows "fresh = [] \<and> ss_receive s' = ss_receive s \<and> ss_remoteFIN s' = ss_remoteFIN s \<and>
    ss_localFIN s' = ss_localFIN s"
  using assms
  by (auto simp: handleBorrowed_def Let_def split: if_splits sum.splits
      dest!: receive_frame_error)

lemma handle_bad_ack:
  assumes "fr_ack f > rb_next (ss_send s)"
  shows "\<exists>a. handleBorrowed s f = (([], a, Some ErrFrame), s)"
  using assms by (auto simp: handleBorrowed_def Let_def)

section \<open>Two ends of one stream\<close>

text \<open>
  \<open>link X Y sent\<close> relates the sending half of \<open>X\<close> to the receiving half of \<open>Y\<close>, where \<open>sent\<close> is
  everything ever written at \<open>X\<close>: \<open>X\<close> keeps what \<open>Y\<close> may still miss, \<open>Y\<close> never counts more than
  was sent, and the half-close flags agree.
\<close>

definition exp_of :: "stream_state \<Rightarrow> nat" where
  "exp_of s = unat (rc_expected (ss_receive s))"

definition acked_of :: "stream_state \<Rightarrow> nat" where
  "acked_of s = unat (rb_acked (ss_send s))"

definition link :: "stream_state \<Rightarrow> stream_state \<Rightarrow> byte list \<Rightarrow> bool" where
  "link X Y sent \<longleftrightarrow>
     rb_rel (ss_send X) sent \<and> exp_of Y \<le> length sent \<and> acked_of X \<le> exp_of Y \<and>
     (ss_remoteFIN Y \<longrightarrow> ss_localFIN X \<and> exp_of Y = length sent) \<and>
     (ss_localFINAck X \<longrightarrow> ss_remoteFIN Y)"

text \<open>\<open>from_peer\<close>: a frame that \<open>X\<close> emitted at some point and that may still be in flight to \<open>Y\<close>.\<close>

definition finack :: "frame \<Rightarrow> bool" where
  "finack f \<longleftrightarrow> fr_flags f AND FlagFINAck \<noteq> 0"

definition from_peer :: "stream_state \<Rightarrow> byte list \<Rightarrow> byte list \<Rightarrow> frame \<Rightarrow> bool" where
  "from_peer X sentX sentY f \<longleftrightarrow>
     \<not> unknown_flags (fr_flags f) \<and> unat (fr_ack f) \<le> exp_of X \<and>
     (finack f \<longrightarrow> ss_remoteFIN X \<and> unat (fr_ack f) = length sentY) \<and>
     (data_of sentX f \<or>
      fr_type f = FrameFIN \<and> fr_payload f = [] \<and> ss_localFIN X \<and> unat (fr_seq f) = length sentX \<or>
      fr_type f \<in> {FrameAck, FrameRST} \<and> fr_payload f = [])"

lemma flags_receiveState [simp]:
  "\<not> unknown_flags (if b then FlagFINAck else 0)"
  "(if b then FlagFINAck else 0) AND FlagFINAck \<noteq> 0 \<longleftrightarrow> b"
  by (auto simp: unknown_flags_def FlagFINAck_def)

lemma rb_next_sent: "link X Y sent \<Longrightarrow> unat (rb_next (ss_send X)) = length sent"
  by (simp add: link_def rb_rel_def)

lemma sent_u64: "link X Y sent \<Longrightarrow> length sent < 18446744073709551616"
  using rb.sent_bound by (auto simp: link_def)

text \<open>The order in which frames leave matters only through their offsets: a frame of a transport
  never starts beyond what the frames before it reach.\<close>

definition positional :: "frame \<Rightarrow> bool" where
  "positional f \<longleftrightarrow> fr_type f = FrameData \<or> fr_type f = FrameFIN"

definition frame_end :: "frame \<Rightarrow> nat" where
  "frame_end f = (if positional f then unat (fr_seq f) + length (fr_payload f) else 0)"

fun covered :: "nat \<Rightarrow> frame list \<Rightarrow> bool" where
  "covered e [] \<longleftrightarrow> True"
| "covered e (f # fs) \<longleftrightarrow>
     (positional f \<longrightarrow> unat (fr_seq f) \<le> e) \<and> covered (max e (frame_end f)) fs"

fun reach :: "nat \<Rightarrow> frame list \<Rightarrow> nat" where
  "reach e [] = e"
| "reach e (f # fs) = reach (max e (frame_end f)) fs"

lemma reach_append [simp]: "reach e (fs @ gs) = reach (reach e fs) gs"
  by (induction fs arbitrary: e) auto

lemma covered_append [simp]: "covered e (fs @ gs) \<longleftrightarrow> covered e fs \<and> covered (reach e fs) gs"
  by (induction fs arbitrary: e) auto

lemma covered_mono: "covered e fs \<Longrightarrow> e \<le> e' \<Longrightarrow> covered e' fs"
proof (induction fs arbitrary: e e')
  case Nil
  then show ?case by simp
next
  case (Cons f fs)
  have "max e (frame_end f) \<le> max e' (frame_end f)" using Cons.prems(2) by simp
  with Cons show ?case by auto
qed

lemma reach_mono: "e \<le> e' \<Longrightarrow> reach e fs \<le> reach e' fs"
  by (induction fs arbitrary: e e') auto

lemma reach_ge: "e \<le> reach e fs"
proof (induction fs arbitrary: e)
  case Nil
  then show ?case by simp
next
  case (Cons f fs)
  have "e \<le> max e (frame_end f)" by simp
  also have "\<dots> \<le> reach (max e (frame_end f)) fs" by (rule Cons)
  finally show ?case by simp
qed

lemma data_of_end: "data_of sent f \<Longrightarrow> frame_end f = unat (fr_seq f) + length (fr_payload f)"
  by (simp add: data_of_def frame_end_def positional_def)

lemma from_peer_end: "from_peer X sentX sentY f \<Longrightarrow> frame_end f \<le> length sentX"
  using data_of_bound by (auto simp: from_peer_def frame_end_def positional_def)

lemma from_peer_reach:
  "\<forall>f\<in>set fs. from_peer X sentX sentY f \<Longrightarrow> e \<le> length sentX \<Longrightarrow> reach e fs \<le> length sentX"
  by (induction fs arbitrary: e) (auto simp: from_peer_end)

section \<open>Handling a genuine frame\<close>

lemma finack_simp: "fr_flags f AND FlagFINAck \<noteq> 0 \<longleftrightarrow> finack f"
  by (simp add: finack_def)

text \<open>The acknowledgement part of \<open>handleBorrowed\<close> always succeeds on a genuine frame and keeps
  both links.\<close>

lemma handle_ack_part:
  assumes XY: "link X Y sentX" and YX: "link Y X sentY" and f: "from_peer X sentX sentY f"
  shows "\<exists>b'. ackLocked (ss_send Y) (fr_ack f) = Ok b' \<and>
    (let Y1 = Y\<lparr>ss_send := b', ss_localFINAck := (ss_localFINAck Y \<or> finack f)\<rparr> in
     handleBorrowed Y f = receive_frame Y1 f \<and> link X Y1 sentX \<and> link Y1 X sentY \<and>
     rb_next b' = rb_next (ss_send Y))"
proof -
  have ack: "unat (fr_ack f) \<le> exp_of X" "unat (fr_ack f) \<le> length sentY"
    and fin: "finack f \<Longrightarrow> ss_remoteFIN X \<and> unat (fr_ack f) = length sentY"
    using f YX by (auto simp: from_peer_def link_def)
  have rel: "rb_rel (ss_send Y) sentY" using YX by (simp add: link_def)
  from ack_Ok [OF rel ack(2)] obtain b' where b': "ackLocked (ss_send Y) (fr_ack f) = Ok b'"
    "rb_rel b' sentY" "rb_next b' = rb_next (ss_send Y)"
    "unat (rb_acked b') = max (unat (rb_acked (ss_send Y))) (unat (fr_ack f))" by blast
  have nx: "unat (rb_next (ss_send Y)) = length sentY" using YX by (rule rb_next_sent)
  have guards: "\<not> unknown_flags (fr_flags f)" "\<not> fr_ack f > rb_next (ss_send Y)"
    "\<not> (finack f \<and> (\<not> ss_localFIN Y \<or> fr_ack f \<noteq> rb_next (ss_send Y)))"
    using f YX ack(2) nx fin
    by (auto simp: from_peer_def word_less_nat_alt link_def word_unat_eq_iff)
  let ?Y1 = "Y\<lparr>ss_send := b', ss_localFINAck := (ss_localFINAck Y \<or> finack f)\<rparr>"
  have "handleBorrowed Y f = receive_frame ?Y1 f"
    using guards b'(1) by (auto simp: handleBorrowed_def Let_def finack_simp)
  moreover have "link X ?Y1 sentX" using XY by (simp add: link_def exp_of_def)
  moreover have "link ?Y1 X sentY"
    using YX b' ack(1) fin by (auto simp: link_def exp_of_def acked_of_def)
  ultimately show ?thesis using b' by (auto simp: Let_def)
qed

lemma receive_data_part:
  assumes XY: "link X Y sentX" and f: "data_of sentX f" and seq: "unat (fr_seq f) \<le> exp_of Y"
  shows "\<exists>fresh r'. receive_frame Y f = ((fresh, rc_expected r', None), Y\<lparr>ss_receive := r'\<rparr>) \<and>
    unat (rc_expected r') = max (exp_of Y) (frame_end f) \<and>
    take (exp_of Y) sentX @ fresh = take (unat (rc_expected r')) sentX"
proof -
  have f': "fr_type f = FrameData" "fr_payload f \<noteq> []" "prefix (fr_payload f) (drop (unat (fr_seq f)) sentX)"
    and bound: "unat (fr_seq f) + length (fr_payload f) \<le> length sentX"
    using f data_of_bound by (auto simp: data_of_def)
  have exp: "exp_of Y \<le> length sentX" "ss_remoteFIN Y \<Longrightarrow> exp_of Y = length sentX"
    using XY by (auto simp: link_def)
  have len: "length sentX < 18446744073709551616" using XY by (rule sent_u64)
  from accept_slice [OF f'(2,3) len, of "ss_receive Y"] exp(1) seq obtain fresh r' where
    acc: "acceptBorrowedLocked (ss_receive Y) (fr_seq f) (fr_payload f) = ((fresh, rc_expected r', None), r')"
    "unat (rc_expected r') = max (exp_of Y) (unat (fr_seq f) + length (fr_payload f))"
    "take (exp_of Y) sentX @ fresh = take (unat (rc_expected r')) sentX"
    unfolding exp_of_def by blast
  have "\<not> word_of_nat (length (fr_payload f)) > - 1 - fr_seq f"
    using bound len u64_guard_iff [of "length (fr_payload f)" "fr_seq f"] by simp
  moreover have "unat (fr_seq f + word_of_nat (length (fr_payload f))) =
      unat (fr_seq f) + length (fr_payload f)"
    using bound len by (simp add: unat_u64_add_nat)
  then have "ss_remoteFIN Y \<Longrightarrow>
      \<not> fr_seq f + word_of_nat (length (fr_payload f)) > rc_expected (ss_receive Y)"
    using bound exp by (simp add: word_less_nat_alt exp_of_def)
  ultimately have "receive_frame Y f = ((fresh, rc_expected r', None), Y\<lparr>ss_receive := r'\<rparr>)"
    using f' acc(1) by (auto simp: receive_frame_def Let_def)
  with acc f show ?thesis by (auto simp: data_of_end)
qed

lemma handle_from_peer:
  assumes XY: "link X Y sentX" and YX: "link Y X sentY" and f: "from_peer X sentX sentY f"
    and ord: "positional f \<Longrightarrow> unat (fr_seq f) \<le> exp_of Y"
  shows "\<exists>fresh ack Y'. handleBorrowed Y f = ((fresh, ack, None), Y') \<and>
    link X Y' sentX \<and> link Y' X sentY \<and> exp_of Y' = max (exp_of Y) (frame_end f) \<and>
    take (exp_of Y) sentX @ fresh = take (exp_of Y') sentX \<and>
    ss_localFIN Y' = ss_localFIN Y \<and> (ss_remoteFIN Y \<longrightarrow> ss_remoteFIN Y') \<and>
    rb_next (ss_send Y') = rb_next (ss_send Y) \<and> ss_identity Y' = ss_identity Y"
proof -
  from handle_ack_part [OF XY YX f] obtain b' where
    b': "rb_next b' = rb_next (ss_send Y)" and
    hb: "handleBorrowed Y f = receive_frame (Y\<lparr>ss_send := b', ss_localFINAck := (ss_localFINAck Y \<or> finack f)\<rparr>) f"
    and l: "link X (Y\<lparr>ss_send := b', ss_localFINAck := (ss_localFINAck Y \<or> finack f)\<rparr>) sentX"
      "link (Y\<lparr>ss_send := b', ss_localFINAck := (ss_localFINAck Y \<or> finack f)\<rparr>) X sentY"
    by (auto simp: Let_def)
  define Y1 where "Y1 = Y\<lparr>ss_send := b', ss_localFINAck := (ss_localFINAck Y \<or> finack f)\<rparr>"
  note hb = hb [folded Y1_def] and l = l [folded Y1_def]
  have Y1: "exp_of Y1 = exp_of Y" "ss_localFIN Y1 = ss_localFIN Y" "ss_remoteFIN Y1 = ss_remoteFIN Y"
    "rb_next (ss_send Y1) = rb_next (ss_send Y)" "ss_identity Y1 = ss_identity Y"
    by (simp_all add: Y1_def exp_of_def b')
  consider (data) "data_of sentX f"
    | (fin) "fr_type f = FrameFIN" "fr_payload f = []" "ss_localFIN X" "unat (fr_seq f) = length sentX"
    | (ctl) "fr_type f \<in> {FrameAck, FrameRST}" "fr_payload f = []"
    using f by (auto simp: from_peer_def)
  then show ?thesis
  proof cases
    case data
    then have "positional f" by (simp add: data_of_def positional_def)
    with ord Y1 have "unat (fr_seq f) \<le> exp_of Y1" by simp
    from receive_data_part [OF l(1) data this] obtain fresh r' where
      r': "receive_frame Y1 f = ((fresh, rc_expected r', None), Y1\<lparr>ss_receive := r'\<rparr>)"
      "unat (rc_expected r') = max (exp_of Y1) (frame_end f)"
      "take (exp_of Y1) sentX @ fresh = take (unat (rc_expected r')) sentX" by blast
    have "frame_end f \<le> length sentX" using data data_of_bound by (simp add: data_of_end)
    with l r'(2) have "link X (Y1\<lparr>ss_receive := r'\<rparr>) sentX"
      by (auto simp: link_def exp_of_def)
    moreover have "link (Y1\<lparr>ss_receive := r'\<rparr>) X sentY"
      using l(2) by (simp add: link_def exp_of_def acked_of_def)
    ultimately show ?thesis using hb r' Y1 by (auto simp: exp_of_def)
  next
    case fin
    then have "positional f" by (simp add: positional_def)
    with ord fin(4) l(1) Y1 have eq: "exp_of Y1 = length sentX" by (simp add: link_def)
    with fin(4) have "fr_seq f = rc_expected (ss_receive Y1)"
      by (simp add: exp_of_def word_unat_eq_iff)
    with fin have rf: "receive_frame Y1 f =
        (([], rc_expected (ss_receive Y1), None), Y1\<lparr>ss_remoteFIN := True\<rparr>)"
      by (simp add: receive_frame_def Let_def)
    have "link X (Y1\<lparr>ss_remoteFIN := True\<rparr>) sentX" "link (Y1\<lparr>ss_remoteFIN := True\<rparr>) X sentY"
      using l fin(3) eq by (simp_all add: link_def exp_of_def acked_of_def)
    moreover have "frame_end f = length sentX" using fin by (simp add: frame_end_def positional_def)
    ultimately show ?thesis using hb rf Y1 eq by (simp add: exp_of_def)
  next
    case ctl
    then have "receive_frame Y1 f = (([], rc_expected (ss_receive Y1), None), Y1)"
      by (auto simp: receive_frame_def Let_def)
    moreover have "frame_end f = 0" using ctl by (auto simp: frame_end_def positional_def)
    ultimately show ?thesis using hb l Y1 by simp
  qed
qed

section \<open>Emitting frames\<close>

lemma from_peer_mono:
  assumes "from_peer X sentX sentY f" "exp_of X \<le> exp_of X'"
    and "ss_remoteFIN X \<Longrightarrow> ss_remoteFIN X'" "ss_localFIN X \<Longrightarrow> ss_localFIN X'"
  shows "from_peer X' sentX sentY f"
  using assms by (auto simp: from_peer_def)

lemma from_peer_more:
  assumes "from_peer X sentX sentY f" "\<not> ss_localFIN X"
  shows "from_peer X (sentX @ p) sentY f"
  using assms data_of_append by (auto simp: from_peer_def)

lemma from_peer_more_other:
  assumes "from_peer Y sentY sentX f" "link X Y sentX" "\<not> ss_localFIN X"
  shows "from_peer Y sentY (sentX @ p) f"
  using assms by (auto simp: from_peer_def link_def)

lemma control_frame_simps [simp]:
  "fr_type (control_frame s ty sq) = ty" "fr_payload (control_frame s ty sq) = []"
  "fr_seq (control_frame s ty sq) = sq" "fr_wire (control_frame s ty sq) = []"
  "fr_ack (control_frame s ty sq) = rc_expected (ss_receive s)"
  "fr_flags (control_frame s ty sq) = (if ss_remoteFIN s then FlagFINAck else 0)"
  by (simp_all add: control_frame_def receiveState_def)

lemma carries_state:
  assumes "link Y X sentY" "fr_ack f = rc_expected (ss_receive X)"
    and "fr_flags f = (if ss_remoteFIN X then FlagFINAck else 0)"
  shows "\<not> unknown_flags (fr_flags f) \<and> unat (fr_ack f) \<le> exp_of X \<and>
     (finack f \<longrightarrow> ss_remoteFIN X \<and> unat (fr_ack f) = length sentY)"
  using assms by (auto simp: exp_of_def finack_def link_def)

lemma emit_data:
  assumes XY: "link X Y sentX" and YX: "link Y X sentY" and d: "dataRetained X p = Ok (f, X')"
  shows "link X' Y (sentX @ p) \<and> link Y X' sentY \<and> from_peer X' (sentX @ p) sentY f \<and>
    positional f \<and> unat (fr_seq f) = length sentX \<and> frame_end f = length (sentX @ p) \<and>
    frame_valid f \<and> wire_ok f \<and>
    exp_of X' = exp_of X \<and> ss_remoteFIN X' = ss_remoteFIN X \<and> \<not> ss_localFIN X \<and> \<not> ss_localFIN X'"
proof -
  from d obtain sq q w b' where nf: "\<not> ss_localFIN X"
    and app: "appendRetainedLocked (ss_send X) p = Ok (sq, q, w, b')"
    and X': "X' = X\<lparr>ss_send := b'\<rparr>"
    and f: "f = \<lparr>fr_type = FrameData, fr_flags = (if ss_remoteFIN X then FlagFINAck else 0),
       fr_seq = sq, fr_ack = rc_expected (ss_receive X), fr_payload = q, fr_wire = w\<rparr>"
    by (auto simp: dataRetained_def receiveState_def split: if_splits sum.splits prod.splits)
  have rel: "rb_rel (ss_send X) sentX" using XY by (simp add: link_def)
  note a = append_Ok [OF rel app]
  have data: "data_of (sentX @ p) f" using a by (simp add: data_of_def f)
  have l: "link X' Y (sentX @ p)" "link Y X' sentY"
    using XY YX a nf by (auto simp: link_def X' exp_of_def acked_of_def)
  moreover have "fr_ack f = rc_expected (ss_receive X')"
    "fr_flags f = (if ss_remoteFIN X' then FlagFINAck else 0)" by (simp_all add: f X')
  with carries_state [OF l(2) this] data have "from_peer X' (sentX @ p) sentY f"
    by (simp add: from_peer_def)
  moreover have "frame_valid f" "wire_ok f"
    using a by (auto simp: frame_valid_def wire_ok_def f)
  ultimately show ?thesis
    using data nf a by (auto simp: positional_def data_of_end f X' exp_of_def)
qed

lemma emit_FIN:
  assumes XY: "link X Y sentX" and YX: "link Y X sentY" and d: "state_FIN (Some X) = Ok (f, X')"
  shows "link X' Y sentX \<and> link Y X' sentY \<and> from_peer X' sentX sentY f \<and> positional f \<and>
    unat (fr_seq f) = length sentX \<and> frame_end f = length sentX \<and> frame_valid f \<and> wire_ok f \<and>
    exp_of X' = exp_of X \<and> ss_remoteFIN X' = ss_remoteFIN X \<and> ss_localFIN X'"
proof -
  have X': "X' = X\<lparr>ss_localFIN := True\<rparr>" and f: "f = control_frame X' FrameFIN (rb_next (ss_send X'))"
    using d by (auto simp: state_FIN_def deref_def Let_def)
  have "link X' Y sentX" "link Y X' sentY"
    using XY YX by (auto simp: link_def X' exp_of_def acked_of_def)
  moreover from this have "from_peer X' sentX sentY f"
    using carries_state [of Y X' sentY f] rb_next_sent [of X' Y sentX]
    by (simp add: from_peer_def f X')
  ultimately show ?thesis
    using rb_next_sent [OF XY]
    by (auto simp: f X' positional_def frame_end_def frame_valid_def wire_ok_def exp_of_def MaxPayload_def)
qed

lemma emit_Ack:
  assumes YX: "link Y X sentY" and "AckFrame (Some X) = Ok f"
  shows "from_peer X sentX sentY f \<and> \<not> positional f \<and> frame_valid f \<and> wire_ok f"
proof -
  have f: "f = control_frame X FrameAck 0"
    using assms(2) by (simp add: AckFrame_def deref_def)
  with carries_state [OF YX, of f] show ?thesis
    by (simp add: from_peer_def positional_def frame_valid_def wire_ok_def MaxPayload_def)
qed

lemma data_chain_covered:
  "data_chain sent a fs z \<Longrightarrow> a \<le> e \<Longrightarrow> covered e fs \<and> reach e fs = max e z"
proof (induction fs arbitrary: a e)
  case Nil
  then show ?case by simp
next
  case (Cons f fs)
  let ?n = "length (fr_payload f)"
  from Cons.prems have f: "data_of sent f" "unat (fr_seq f) = a" "data_chain sent (a + ?n) fs z" by simp_all
  have "a + ?n \<le> max e (frame_end f)" using f by (simp add: data_of_end)
  from Cons.IH [OF f(3) this] f Cons.prems data_chain_le [OF f(3)] show ?case
    by (auto simp: data_of_end positional_def data_of_def)
qed

lemma data_chain_map:
  assumes "\<And>f. fr_type (g f) = fr_type f" "\<And>f. fr_seq (g f) = fr_seq f"
    "\<And>f. fr_payload (g f) = fr_payload f" "\<And>f. fr_wire (g f) = fr_wire f"
  shows "data_chain sent a (map g fs) z \<longleftrightarrow> data_chain sent a fs z"
  by (induction fs arbitrary: a) (simp_all add: assms data_of_def wire_ok_def)

lemma data_chain_data: "data_chain sent a fs z \<Longrightarrow> f \<in> set fs \<Longrightarrow> data_of sent f \<and> wire_ok f"
  by (induction fs arbitrary: a) auto

text \<open>What \<open>ReplayFrames\<close> sends on a fresh transport closes every gap between what the peer has and
  what was ever written.\<close>

lemma emit_replay:
  assumes XY: "link X Y sentX" and YX: "link Y X sentY"
  shows "(\<forall>f\<in>set (ReplayFrames (Some X)). from_peer X sentX sentY f \<and> frame_valid f \<and> wire_ok f) \<and>
    covered (exp_of Y) (ReplayFrames (Some X)) \<and>
    reach (exp_of Y) (ReplayFrames (Some X)) = length sentX"
proof -
  define flags where "flags = (if ss_remoteFIN X then FlagFINAck else 0)"
  define g where "g f = f\<lparr>fr_ack := rc_expected (ss_receive X), fr_flags := flags\<rparr>" for f :: frame
  define ds where "ds = map g (snapshotLocked (ss_send X))"
  define fin where "fin = (if ss_localFIN X \<and> \<not> ss_localFINAck X
      then [\<lparr>fr_type = FrameFIN, fr_flags = flags, fr_seq = rb_next (ss_send X),
             fr_ack = rc_expected (ss_receive X), fr_payload = [], fr_wire = []\<rparr>] else [])"
  have rf: "ReplayFrames (Some X) = ds @ fin"
    by (simp add: ReplayFrames_def receiveState_def ds_def fin_def g_def flags_def)
  have rel: "rb_rel (ss_send X) sentX" and le: "acked_of X \<le> exp_of Y" "exp_of Y \<le> length sentX"
    using XY by (auto simp: link_def)
  have chain: "data_chain sentX (acked_of X) ds (length sentX)"
    unfolding ds_def acked_of_def using snapshot_chain [OF rel]
    by (subst data_chain_map) (simp_all add: g_def)
  from data_chain_covered [OF chain le(1)] le(2)
  have cov: "covered (exp_of Y) ds" "reach (exp_of Y) ds = length sentX" by auto
  have finf: "f \<in> set fin \<Longrightarrow> fr_type f = FrameFIN \<and> fr_payload f = [] \<and> ss_localFIN X \<and>
      unat (fr_seq f) = length sentX \<and> fr_wire f = [] \<and>
      fr_ack f = rc_expected (ss_receive X) \<and> fr_flags f = flags" for f
    using rb_next_sent [OF XY] by (auto simp: fin_def split: if_splits)
  have carried: "f \<in> set (ds @ fin) \<Longrightarrow> fr_ack f = rc_expected (ss_receive X) \<and> fr_flags f = flags" for f
    using finf by (auto simp: ds_def g_def)
  have "covered (length sentX) fin" "reach (length sentX) fin = length sentX"
    using rb_next_sent [OF XY] by (auto simp: fin_def positional_def frame_end_def)
  moreover have "from_peer X sentX sentY f" if "f \<in> set (ds @ fin)" for f
    using that carried [OF that] carries_state [OF YX, of f] data_chain_data [OF chain] finf
    by (auto simp: from_peer_def flags_def)
  moreover have "frame_valid f \<and> wire_ok f" if "f \<in> set (ds @ fin)" for f
  proof (cases "f \<in> set ds")
    case True
    with data_chain_data [OF chain] carried [OF that] show ?thesis
      by (auto simp: frame_valid_def data_of_def flags_def)
  next
    case False
    with that finf carried [OF that] show ?thesis
      by (auto simp: frame_valid_def wire_ok_def flags_def MaxPayload_def)
  qed
  ultimately show ?thesis using cov by (simp add: rf)
qed

text \<open>A new pair of streams starts linked.\<close>

lemma link_new:
  assumes "NewStreamState i n = Ok X" "NewStreamState j m = Ok Y"
  shows "link X Y []"
proof -
  have "rb_acked (NewReplayBuffer l) = 0" for l by (simp add: NewReplayBuffer_def)
  with assms rb_rel_new show ?thesis
    by (auto simp: NewStreamState_def link_def exp_of_def acked_of_def split: if_splits)
qed

end
