(* ===== verification/Resume_Endpoint.thy ===== *)
theory Resume_Endpoint
  imports Resume_State
begin

text \<open>
  \<open>internal/p2p/resume/endpoint.go\<close>: an application byte stream whose framed transport can be
  replaced. Every critical section of the code is one operation here; goroutines (the read loop,
  the activation of a new transport, the acknowledgement loop, a blocked writer) are program
  counters whose steps are those operations, composed in theory \<open>Resume_System\<close>.

  A transport is a number, \<^const>\<open>None\<close> is nil; a deadline is \<^const>\<open>None\<close> for Go's zero time and
  times are naturals. Channels of capacity one are flags. What an operation does outside the
  record (closing a transport, starting a goroutine) is its list of effects.
\<close>

section \<open>Errors, deadlines, blocking\<close>

datatype ep_error =
    NetErrClosed | DeadlineExceeded | ClosedPipe | EndOfFile | StateError resume_error | TransportError

text \<open>\<open>Block\<close>: the goroutine waits on a condition or channel and tries again.\<close>

datatype 'a attempt = Block | Done 'a

definition deadlineExpired :: "nat \<Rightarrow> nat option \<Rightarrow> bool" where
  "deadlineExpired now d = (case d of None \<Rightarrow> False | Some t \<Rightarrow> t \<le> now)"

section \<open>The inbound buffer\<close>

record stream_buffer =
  sb_buf :: "byte list"
  sb_limit :: nat
  sb_closed :: bool
  sb_err :: "ep_error option"
  sb_deadline :: "nat option"

definition newStreamBuffer :: "int \<Rightarrow> stream_buffer" where
  "newStreamBuffer limit =
     \<lparr>sb_buf = [], sb_limit = (if limit \<le> 0 then 524288 else nat limit), sb_closed = False,
      sb_err = None, sb_deadline = None\<rparr>"

definition sb_Write :: "stream_buffer \<Rightarrow> byte list \<Rightarrow> (ep_error option \<times> stream_buffer) attempt" where
  "sb_Write b p =
     (if p = [] then Done (None, b)
      else if \<not> sb_closed b \<and> length (sb_buf b) + length p > sb_limit b then Block
      else if sb_closed b then
        Done (Some (case sb_err b of Some e \<Rightarrow> e | None \<Rightarrow> ClosedPipe), b)
      else Done (None, b\<lparr>sb_buf := sb_buf b @ p\<rparr>))"

text \<open>\<open>Read\<close> into a slice of length \<open>n\<close>.\<close>

definition sb_Read ::
  "nat \<Rightarrow> stream_buffer \<Rightarrow> nat \<Rightarrow> ((byte list \<times> ep_error option) \<times> stream_buffer) attempt" where
  "sb_Read now b n =
     (if sb_buf b = [] \<and> \<not> sb_closed b then
        (if deadlineExpired now (sb_deadline b) then Done (([], Some DeadlineExceeded), b) else Block)
      else if sb_buf b \<noteq> [] then Done ((take n (sb_buf b), None), b\<lparr>sb_buf := drop n (sb_buf b)\<rparr>)
      else Done (([], Some (case sb_err b of Some e \<Rightarrow> e | None \<Rightarrow> EndOfFile)), b))"

definition sb_SetDeadline :: "stream_buffer \<Rightarrow> nat option \<Rightarrow> ep_error option \<times> stream_buffer" where
  "sb_SetDeadline b d =
     (if sb_closed b then (Some NetErrClosed, b) else (None, b\<lparr>sb_deadline := d\<rparr>))"

definition sb_CloseWithError :: "stream_buffer \<Rightarrow> ep_error option \<Rightarrow> stream_buffer" where
  "sb_CloseWithError b e = (if sb_closed b then b else b\<lparr>sb_closed := True, sb_err := e\<rparr>)"

section \<open>The endpoint\<close>

record endpoint =
  ep_state :: stream_state
  ep_inbound :: stream_buffer
  ep_transport :: "nat option"
  ep_generation :: u64
  ep_ready :: bool
  ep_closed :: bool
  ep_writeDeadline :: "nat option"
  ep_genDone :: "u64 \<rightharpoonup> bool"     \<comment> \<open>the done channel of a generation: is it closed?\<close>
  ep_genClosed :: "u64 \<rightharpoonup> bool"
  ep_losses :: "(u64 \<times> ep_error) list"
  ep_progress :: bool
  ep_acks :: bool
  ep_done :: bool

datatype ep_effect = CloseTransport nat | StartReadLoop nat u64 | StartActivate nat u64 | SendRST nat frame

definition NewEndpoint :: "stream_state option \<Rightarrow> resume_error + endpoint" where
  "NewEndpoint s =
     (case s of
        None \<Rightarrow> Err ErrBinding
      | Some s \<Rightarrow>
        if \<not> identity_Valid (ss_identity s) then Err ErrBinding
        else Ok \<lparr>ep_state = s, ep_inbound = newStreamBuffer 524288, ep_transport = None,
                 ep_generation = 0, ep_ready = False, ep_closed = False, ep_writeDeadline = None,
                 ep_genDone = Map.empty, ep_genClosed = Map.empty, ep_losses = [],
                 ep_progress = False, ep_acks = False, ep_done = False\<rparr>)"

text \<open>\<open>GenerationDone\<close>: is the returned channel closed? Unknown generations read as closed.\<close>

definition GenerationDone :: "endpoint \<Rightarrow> u64 \<Rightarrow> bool" where
  "GenerationDone e g =
     (if g = 0 then True else (case ep_genDone e g of Some c \<Rightarrow> c | None \<Rightarrow> True))"

definition genClosed :: "endpoint \<Rightarrow> u64 \<Rightarrow> bool" where
  "genClosed e g = (ep_genClosed e g = Some True)"

definition closeGenerationLocked :: "endpoint \<Rightarrow> u64 \<Rightarrow> endpoint" where
  "closeGenerationLocked e g =
     (if g = 0 \<or> genClosed e g then e
      else e\<lparr>ep_genDone := (ep_genDone e)(g \<mapsto> True), ep_genClosed := (ep_genClosed e)(g \<mapsto> True)\<rparr>)"

definition notifyProgress :: "endpoint \<Rightarrow> endpoint" where
  "notifyProgress e = e\<lparr>ep_progress := True\<rparr>"

definition queueAck :: "endpoint \<Rightarrow> endpoint" where
  "queueAck e = e\<lparr>ep_acks := True\<rparr>"

definition reportLoss :: "endpoint \<Rightarrow> u64 \<Rightarrow> ep_error \<Rightarrow> endpoint" where
  "reportLoss e g err =
     (if length (ep_losses e) < 8 then e\<lparr>ep_losses := ep_losses e @ [(g, err)]\<rparr> else e)"

definition SetWriteDeadline :: "endpoint \<Rightarrow> nat option \<Rightarrow> ep_error option \<times> endpoint" where
  "SetWriteDeadline e d =
     (if ep_closed e then (Some NetErrClosed, e)
      else (None, notifyProgress (e\<lparr>ep_writeDeadline := d\<rparr>)))"

definition SetReadDeadline :: "endpoint \<Rightarrow> nat option \<Rightarrow> ep_error option \<times> endpoint" where
  "SetReadDeadline e d =
     (case sb_SetDeadline (ep_inbound e) d of (err, b) \<Rightarrow> (err, e\<lparr>ep_inbound := b\<rparr>))"

definition SetDeadline :: "endpoint \<Rightarrow> nat option \<Rightarrow> ep_error option \<times> endpoint" where
  "SetDeadline e d =
     (case SetReadDeadline e d of
        (Some err, e') \<Rightarrow> (Some err, e')
      | (None, e') \<Rightarrow> SetWriteDeadline e' d)"

section \<open>Binding a transport\<close>

text \<open>Old done-channels are dropped when they are closed and more than eight generations old; the
  comparison wraps as the code's does.\<close>

definition prune_generations :: "endpoint \<Rightarrow> u64 \<Rightarrow> endpoint" where
  "prune_generations e generation =
     (let old = (\<lambda>g. ep_genDone e g \<noteq> None \<and> g + 8 < generation \<and> genClosed e g) in
      e\<lparr>ep_genDone := (\<lambda>g. if old g then None else ep_genDone e g),
        ep_genClosed := (\<lambda>g. if old g then None else ep_genClosed e g)\<rparr>)"

definition ep_bind ::
  "endpoint \<Rightarrow> nat option \<Rightarrow> u64 \<Rightarrow> bool \<Rightarrow> ep_error option \<times> endpoint \<times> ep_effect list" where
  "ep_bind e transport generation retry =
     (case transport of
        None \<Rightarrow> (Some (StateError ErrBinding), e, [])
      | Some t \<Rightarrow>
        if generation = 0 then (Some (StateError ErrBinding), e, [])
        else if ep_closed e then (Some NetErrClosed, e, [CloseTransport t])
        else if (if retry then generation \<noteq> ep_generation e \<or> ep_transport e \<noteq> None
                 else generation \<le> ep_generation e)
        then (Some (StateError ErrBinding), e, [CloseTransport t])
        else
          let e1 = (if ep_transport e \<noteq> None \<and> ep_generation e \<noteq> 0
                    then closeGenerationLocked e (ep_generation e) else e);
              e2 = e1\<lparr>ep_transport := Some t, ep_generation := generation, ep_ready := False,
                      ep_genDone := (ep_genDone e1)(generation \<mapsto> False),
                      ep_genClosed := (ep_genClosed e1)(generation \<mapsto> False)\<rparr>
          in (None, prune_generations e2 generation,
              (case ep_transport e of
                 Some old \<Rightarrow> if old \<noteq> t then [CloseTransport old] else []
               | None \<Rightarrow> []) @
              [StartReadLoop t generation, StartActivate t generation]))"

definition Bind :: "endpoint \<Rightarrow> nat option \<Rightarrow> u64 \<Rightarrow> ep_error option \<times> endpoint \<times> ep_effect list" where
  "Bind e t g = ep_bind e t g False"

definition RetryBind :: "endpoint \<Rightarrow> nat option \<Rightarrow> u64 \<Rightarrow> ep_error option \<times> endpoint \<times> ep_effect list" where
  "RetryBind e t g = ep_bind e t g True"

text \<open>The check every sender makes under both locks before it writes.\<close>

definition is_current :: "endpoint \<Rightarrow> nat \<Rightarrow> u64 \<Rightarrow> bool" where
  "is_current e t g \<longleftrightarrow> \<not> ep_closed e \<and> ep_transport e = Some t \<and> ep_generation e = g"

text \<open>\<open>activateTransport\<close>: take the replay snapshot, or give up when the transport is no longer
  current; publish ready after the last frame, under the same check.\<close>

definition activate_frames :: "endpoint \<Rightarrow> nat \<Rightarrow> u64 \<Rightarrow> frame list option" where
  "activate_frames e t g = (if is_current e t g then Some (ReplayFrames (Some (ep_state e))) else None)"

definition activate_ready :: "endpoint \<Rightarrow> nat \<Rightarrow> u64 \<Rightarrow> endpoint" where
  "activate_ready e t g = (if is_current e t g then e\<lparr>ep_ready := True\<rparr> else e)"

section \<open>Losing the transport, failing, closing\<close>

definition loseTransport ::
  "endpoint \<Rightarrow> nat option \<Rightarrow> u64 \<Rightarrow> ep_error \<Rightarrow> endpoint \<times> ep_effect list" where
  "loseTransport e transport g err =
     (case transport of
        None \<Rightarrow> (e, [])
      | Some t \<Rightarrow>
        if ep_closed e \<or> ep_transport e \<noteq> Some t \<or> ep_generation e \<noteq> g then (e, [])
        else (reportLoss (closeGenerationLocked (e\<lparr>ep_transport := None, ep_ready := False\<rparr>) g) g err,
              [CloseTransport t]))"

definition close_effects :: "nat option \<Rightarrow> ep_effect list" where
  "close_effects t = (case t of None \<Rightarrow> [] | Some t \<Rightarrow> [CloseTransport t])"

definition ep_fail :: "endpoint \<Rightarrow> ep_error option \<Rightarrow> endpoint \<times> ep_effect list" where
  "ep_fail e err0 =
     (let err = (case err0 of None \<Rightarrow> NetErrClosed | Some x \<Rightarrow> x) in
      if ep_closed e then (e, [])
      else
        let e1 = closeGenerationLocked
                   (e\<lparr>ep_closed := True, ep_transport := None, ep_ready := False\<rparr>) (ep_generation e)
        in (notifyProgress
              (e1\<lparr>ep_inbound := sb_CloseWithError (ep_inbound e1) (Some err), ep_done := True\<rparr>),
            close_effects (ep_transport e)))"

definition Abort :: "endpoint option \<Rightarrow> ep_error option \<Rightarrow> endpoint option \<times> ep_effect list" where
  "Abort e err =
     (case e of None \<Rightarrow> (None, []) | Some e \<Rightarrow> (case ep_fail e err of (e', fx) \<Rightarrow> (Some e', fx)))"

text \<open>\<open>Close\<close>; \<open>locked\<close> says whether \<open>writeMu.TryLock\<close> succeeded.\<close>

definition ep_Close :: "endpoint \<Rightarrow> bool \<Rightarrow> endpoint \<times> ep_effect list" where
  "ep_Close e locked =
     (if ep_closed e then (e, [])
      else
        let e1 = closeGenerationLocked
                   (e\<lparr>ep_closed := True, ep_transport := None, ep_ready := False\<rparr>) (ep_generation e);
            rst = (case (ep_transport e, state_RST (Some (ep_state e))) of
                     (Some t, Inr f) \<Rightarrow> if ep_ready e \<and> locked then [SendRST t f] else []
                   | _ \<Rightarrow> [])
        in ((notifyProgress e1)\<lparr>ep_inbound := sb_CloseWithError (ep_inbound e) (Some NetErrClosed),
                                 ep_done := True\<rparr>,
            rst @ close_effects (ep_transport e)))"

section \<open>Writing\<close>

definition checkWriteDeadline :: "nat \<Rightarrow> endpoint \<Rightarrow> ep_error option" where
  "checkWriteDeadline now e =
     (if ep_closed e then Some NetErrClosed
      else if deadlineExpired now (ep_writeDeadline e) then Some DeadlineExceeded
      else None)"

definition waitTransport :: "nat \<Rightarrow> endpoint \<Rightarrow> (ep_error + (nat \<times> u64)) attempt" where
  "waitTransport now e =
     (if ep_closed e then Done (Err NetErrClosed)
      else if deadlineExpired now (ep_writeDeadline e) then Done (Err DeadlineExceeded)
      else (case ep_transport e of
              Some t \<Rightarrow> if ep_ready e then Done (Ok (t, ep_generation e)) else Block
            | None \<Rightarrow> Block))"

definition waitProgress :: "nat \<Rightarrow> endpoint \<Rightarrow> (ep_error option \<times> endpoint) attempt" where
  "waitProgress now e =
     (if ep_closed e then Done (Some NetErrClosed, e)
      else if deadlineExpired now (ep_writeDeadline e) then Done (Some DeadlineExceeded, e)
      else if ep_progress e then Done (None, e\<lparr>ep_progress := False\<rparr>)
      else Block)"

text \<open>\<open>Write\<close> and \<open>CloseWrite\<close> as program counters. \<open>WLoop p w\<close>: \<open>w\<close> bytes of \<open>p\<close> are written;
  \<open>WRetain\<close>: the next chunk goes into the replay buffer; \<open>WProgress\<close>: it did not fit;
  \<open>WSend\<close>: a retained frame waits in \<open>sendBuffered\<close> for a transport; \<open>WLocked\<close>: it has one and
  takes the write lock; \<open>WDone\<close>: the call returns.\<close>

datatype write_pc =
    WIdle
  | WLoop "byte list" nat
  | WRetain "byte list" nat
  | WProgress "byte list" nat
  | WSend "byte list" nat nat frame
  | WLocked "byte list" nat nat frame nat u64
  | WDone nat "ep_error option"

definition chunk_end :: "byte list \<Rightarrow> nat \<Rightarrow> nat" where
  "chunk_end p w = min (w + MaxPayload) (length p)"

definition chunk :: "byte list \<Rightarrow> nat \<Rightarrow> byte list" where
  "chunk p w = take (chunk_end p w - w) (drop w p)"

text \<open>One step of \<open>Write\<close> that touches only the endpoint; \<^const>\<open>None\<close> means the goroutine waits, or
  has to act on the transport (\<open>WLocked\<close>).\<close>

fun write_step :: "nat \<Rightarrow> endpoint \<Rightarrow> write_pc \<Rightarrow> (endpoint \<times> write_pc) option" where
  "write_step now e (WLoop p w) =
     (if w < length p then
        (case checkWriteDeadline now e of
           Some err \<Rightarrow> Some (e, WDone w (Some err))
         | None \<Rightarrow> Some (e, WRetain p w))
      else Some (e, WDone w None))"
| "write_step now e (WRetain p w) =
     (case dataRetained (ep_state e) (chunk p w) of
        Inr (f, s') \<Rightarrow> Some (e\<lparr>ep_state := s'\<rparr>, WSend p w (chunk_end p w) f)
      | Inl ErrReplayLimit \<Rightarrow> Some (e, WProgress p w)
      | Inl err \<Rightarrow> Some (e, WDone w (Some (StateError err))))"
| "write_step now e (WProgress p w) =
     (case waitProgress now e of
        Block \<Rightarrow> None
      | Done (Some err, e') \<Rightarrow> Some (e', WDone w (Some err))
      | Done (None, e') \<Rightarrow> Some (e', WRetain p w))"
| "write_step now e (WSend p w end f) =
     (case waitTransport now e of
        Block \<Rightarrow> None
      | Done (Inl DeadlineExceeded) \<Rightarrow> Some (e, WDone end (Some DeadlineExceeded))
      | Done (Inl err) \<Rightarrow> Some (e, WDone w (Some err))
      | Done (Inr (t, g)) \<Rightarrow> Some (e, WLocked p w end f t g))"
| "write_step now e pc = None"

text \<open>\<open>sendBuffered\<close> under the write lock: the frame goes out only if the transport it waited for is
  still current and ready.\<close>

definition may_send :: "endpoint \<Rightarrow> nat \<Rightarrow> u64 \<Rightarrow> bool" where
  "may_send e t g \<longleftrightarrow> is_current e t g \<and> ep_ready e"

definition CloseWrite_begin :: "endpoint \<Rightarrow> endpoint \<times> (resume_error + frame)" where
  "CloseWrite_begin e =
     (case state_FIN (Some (ep_state e)) of
        Inl err \<Rightarrow> (e, Err err)
      | Inr (f, s') \<Rightarrow> (e\<lparr>ep_state := s'\<rparr>, Ok f))"

section \<open>Reading and acknowledging\<close>

text \<open>\<open>ackLoop\<close> takes the token, and with a transport present snapshots an ACK for it.\<close>

definition ack_take :: "endpoint \<Rightarrow> (endpoint \<times> (nat \<times> u64 \<times> frame) option) option" where
  "ack_take e =
     (if \<not> ep_acks e \<or> ep_done e then None
      else
        let e' = e\<lparr>ep_acks := False\<rparr> in
        if ep_closed e then Some (e', None)
        else (case ep_transport e of
                Some t \<Rightarrow>
                  if ep_generation e = 0 then Some (e', None)
                  else (case AckFrame (Some (ep_state e)) of
                          Inl err \<Rightarrow> Some (fst (ep_fail e' (Some (StateError err))), None)
                        | Inr f \<Rightarrow> Some (e', Some (t, ep_generation e, f)))
              | None \<Rightarrow> Some (e', None)))"

text \<open>One frame of \<open>readLoop\<close>, up to the write into the inbound buffer: the bytes still to be handed
  over, and whether the loop goes on.\<close>

definition read_frame :: "endpoint \<Rightarrow> frame \<Rightarrow> endpoint \<times> byte list \<times> bool \<times> ep_effect list" where
  "read_frame e f =
     (case handleBorrowed (ep_state e) f of
        ((_, _, Some err), s') \<Rightarrow>
          (case ep_fail (e\<lparr>ep_state := s'\<rparr>) (Some (StateError err)) of (e', fx) \<Rightarrow> (e', [], False, fx))
      | ((fresh, _, None), s') \<Rightarrow>
          let e1 = notifyProgress (e\<lparr>ep_state := s'\<rparr>) in
          if fr_type f = FrameData then (queueAck e1, fresh, True, [])
          else if fr_type f = FrameFIN then
            ((queueAck e1)\<lparr>ep_inbound := sb_CloseWithError (ep_inbound e1) None\<rparr>, [], True, [])
          else if fr_type f = FrameRST then
            (case ep_fail e1 (Some NetErrClosed) of (e', fx) \<Rightarrow> (e', [], False, fx))
          else (e1, [], True, []))"

definition ep_Read ::
  "nat \<Rightarrow> endpoint \<Rightarrow> nat \<Rightarrow> ((byte list \<times> ep_error option) \<times> endpoint) attempt" where
  "ep_Read now e n =
     (case sb_Read now (ep_inbound e) n of
        Block \<Rightarrow> Block
      | Done (res, b) \<Rightarrow> Done (res, e\<lparr>ep_inbound := b\<rparr>))"

section \<open>The inbound buffer is a bounded queue\<close>

lemma sb_Write_appends:
  assumes "sb_Write b p = Done (None, b')" "length (sb_buf b) \<le> sb_limit b"
  shows "sb_buf b' = sb_buf b @ p \<and> length (sb_buf b') \<le> sb_limit b' \<and> sb_limit b' = sb_limit b \<and>
    sb_closed b' = sb_closed b \<and> sb_err b' = sb_err b"
  using assms by (auto simp: sb_Write_def split: if_splits)

lemma sb_Read_prefix:
  assumes "sb_Read now b n = Done ((bs, e), b')"
  shows "sb_buf b = bs @ sb_buf b' \<and> sb_limit b' = sb_limit b \<and> sb_closed b' = sb_closed b \<and>
    (e \<noteq> None \<longrightarrow> sb_buf b = [])"
  using assms by (auto simp: sb_Read_def split: if_splits)

section \<open>Invariant of an endpoint\<close>

text \<open>A ready endpoint has a transport, a closed one has none; the done-channel of a generation is
  open exactly while that generation owns the transport; the inbound buffer keeps its bound.\<close>

definition ep_inv :: "endpoint \<Rightarrow> bool" where
  "ep_inv e \<longleftrightarrow>
     (ep_transport e = None \<longrightarrow> \<not> ep_ready e) \<and>
     (ep_closed e \<longrightarrow> ep_transport e = None \<and> sb_closed (ep_inbound e)) \<and>
     ep_genDone e = ep_genClosed e \<and>
     (\<forall>g. ep_genClosed e g = Some False \<longleftrightarrow> ep_transport e \<noteq> None \<and> g = ep_generation e) \<and>
     (ep_transport e \<noteq> None \<longrightarrow> ep_generation e \<noteq> 0) \<and>
     ep_done e = ep_closed e \<and> length (ep_losses e) \<le> 8 \<and>
     length (sb_buf (ep_inbound e)) \<le> sb_limit (ep_inbound e)"

lemma ep_inv_new: "NewEndpoint s = Ok e \<Longrightarrow> ep_inv e"
  by (auto simp: NewEndpoint_def ep_inv_def newStreamBuffer_def split: option.splits if_splits)

text \<open>Closing a generation never closes its channel twice, which would be a run-time panic.\<close>

lemma closeGeneration_no_double_close:
  "ep_inv e \<Longrightarrow> g \<noteq> 0 \<Longrightarrow> \<not> genClosed e g \<Longrightarrow> ep_genDone e g \<noteq> Some True"
  by (auto simp: ep_inv_def genClosed_def)

lemma sb_CloseWithError_simps [simp]:
  "sb_closed (sb_CloseWithError b e)" "sb_buf (sb_CloseWithError b e) = sb_buf b"
  "sb_limit (sb_CloseWithError b e) = sb_limit b"
  by (simp_all add: sb_CloseWithError_def)

lemma closeGeneration_simps [simp]:
  "ep_state (closeGenerationLocked e g) = ep_state e"
  "ep_inbound (closeGenerationLocked e g) = ep_inbound e"
  "ep_transport (closeGenerationLocked e g) = ep_transport e"
  "ep_generation (closeGenerationLocked e g) = ep_generation e"
  "ep_ready (closeGenerationLocked e g) = ep_ready e"
  "ep_closed (closeGenerationLocked e g) = ep_closed e"
  "ep_writeDeadline (closeGenerationLocked e g) = ep_writeDeadline e"
  "ep_losses (closeGenerationLocked e g) = ep_losses e"
  "ep_progress (closeGenerationLocked e g) = ep_progress e"
  "ep_acks (closeGenerationLocked e g) = ep_acks e"
  "ep_done (closeGenerationLocked e g) = ep_done e"
  by (simp_all add: closeGenerationLocked_def)

lemma closeGeneration_maps:
  assumes "ep_genDone e = ep_genClosed e" "g \<noteq> 0"
  shows "ep_genDone (closeGenerationLocked e g) = (ep_genDone e)(g \<mapsto> True) \<and>
    ep_genClosed (closeGenerationLocked e g) = (ep_genDone e)(g \<mapsto> True)"
  using assms by (auto simp: closeGenerationLocked_def genClosed_def fun_upd_idem)

lemma reportLoss_simps [simp]:
  "ep_state (reportLoss e g err) = ep_state e" "ep_inbound (reportLoss e g err) = ep_inbound e"
  "ep_transport (reportLoss e g err) = ep_transport e"
  "ep_generation (reportLoss e g err) = ep_generation e" "ep_ready (reportLoss e g err) = ep_ready e"
  "ep_closed (reportLoss e g err) = ep_closed e" "ep_genDone (reportLoss e g err) = ep_genDone e"
  "ep_genClosed (reportLoss e g err) = ep_genClosed e" "ep_done (reportLoss e g err) = ep_done e"
  "ep_acks (reportLoss e g err) = ep_acks e"
  "length (ep_losses e) \<le> 8 \<Longrightarrow> length (ep_losses (reportLoss e g err)) \<le> 8"
  by (simp_all add: reportLoss_def)

lemma bind_closes_old:
  assumes "ep_inv e"
  defines "e1 \<equiv> (if ep_transport e \<noteq> None \<and> ep_generation e \<noteq> 0
                    then closeGenerationLocked e (ep_generation e) else e)"
  shows "ep_genDone e1 = ep_genClosed e1" "ep_genClosed e1 h \<noteq> Some False"
proof -
  have i: "ep_genDone e = ep_genClosed e"
    "ep_genClosed e h = Some False \<longleftrightarrow> ep_transport e \<noteq> None \<and> h = ep_generation e"
    "ep_transport e \<noteq> None \<Longrightarrow> ep_generation e \<noteq> 0"
    using assms(1) unfolding ep_inv_def by blast+
  show "ep_genDone e1 = ep_genClosed e1" "ep_genClosed e1 h \<noteq> Some False"
    using i closeGeneration_maps [OF i(1), of "ep_generation e"]
    by (cases "ep_transport e"; simp add: e1_def)+
qed

lemma bind_inv:
  assumes "ep_inv e" "ep_bind e tr g retry = (err, e', fx)"
  shows "ep_inv e'"
proof (cases "err = None")
  case False
  with assms show ?thesis by (auto simp: ep_bind_def Let_def split: option.splits if_splits)
next
  case True
  with assms(2) obtain t where t: "tr = Some t" "g \<noteq> 0" "\<not> ep_closed e"
    and ok: "\<not> (if retry then g \<noteq> ep_generation e \<or> ep_transport e \<noteq> None else g \<le> ep_generation e)"
    by (auto simp: ep_bind_def Let_def split: option.splits if_splits)
  define e1 where "e1 = (if ep_transport e \<noteq> None \<and> ep_generation e \<noteq> 0
                    then closeGenerationLocked e (ep_generation e) else e)"
  define e2 where "e2 = e1\<lparr>ep_transport := Some t, ep_generation := g, ep_ready := False,
                      ep_genDone := (ep_genDone e1)(g \<mapsto> False),
                      ep_genClosed := (ep_genClosed e1)(g \<mapsto> False)\<rparr>"
  have e': "e' = prune_generations e2 g"
    using assms(2) True t ok by (auto simp: ep_bind_def Let_def e1_def e2_def split: if_splits)
  have maps: "ep_genDone e1 = ep_genClosed e1" "\<And>h. ep_genClosed e1 h \<noteq> Some False"
    using bind_closes_old [OF assms(1)] by (simp_all add: e1_def)
  define old where "old h \<longleftrightarrow> ep_genDone e2 h \<noteq> None \<and> h + 8 < g \<and> genClosed e2 h" for h
  have "ep_genDone e' = (\<lambda>h. if old h then None else ep_genDone e2 h)"
    "ep_genClosed e' = (\<lambda>h. if old h then None else ep_genClosed e2 h)"
    by (simp_all add: e' prune_generations_def Let_def old_def)
  moreover have "ep_genDone e2 = ep_genClosed e2" "ep_genClosed e2 = (ep_genClosed e1)(g \<mapsto> False)"
    by (simp_all add: e2_def maps(1))
  moreover have "\<not> old g" by (simp add: old_def genClosed_def e2_def)
  ultimately have m: "ep_genDone e' = ep_genClosed e'"
    "\<And>h. ep_genClosed e' h = Some False \<longleftrightarrow> h = g"
    using maps(2) by auto
  have "ep_transport e' = Some t" "ep_generation e' = g" "\<not> ep_closed e'"
    "ep_done e' = ep_done e" "ep_losses e' = ep_losses e" "ep_inbound e' = ep_inbound e"
    using t(3) by (simp_all add: e' prune_generations_def Let_def e2_def e1_def)
  moreover have "\<not> ep_done e" "length (ep_losses e) \<le> 8"
    "length (sb_buf (ep_inbound e)) \<le> sb_limit (ep_inbound e)"
    using assms(1) t(3) by (simp_all add: ep_inv_def)
  ultimately show ?thesis using m t(2) by (simp add: ep_inv_def)
qed

lemma lose_inv:
  assumes "ep_inv e" "loseTransport e tr g err = (e', fx)"
  shows "ep_inv e'"
proof (cases "fx = []")
  case True
  with assms show ?thesis by (auto simp: loseTransport_def split: option.splits if_splits)
next
  case False
  with assms obtain t where t: "tr = Some t" "\<not> ep_closed e" "ep_transport e = Some t" "ep_generation e = g"
    and e': "e' = reportLoss (closeGenerationLocked (e\<lparr>ep_transport := None, ep_ready := False\<rparr>) g) g err"
    by (auto simp: loseTransport_def split: option.splits if_splits)
  have i: "ep_genDone e = ep_genClosed e" "\<And>h. ep_genClosed e h = Some False \<longleftrightarrow> h = g" "g \<noteq> 0"
    "\<not> ep_done e" "length (ep_losses e) \<le> 8"
    "length (sb_buf (ep_inbound e)) \<le> sb_limit (ep_inbound e)"
    using assms(1) t unfolding ep_inv_def by simp_all
  have "ep_genDone e' = (ep_genDone e)(g \<mapsto> True)" "ep_genClosed e' = (ep_genDone e)(g \<mapsto> True)"
    using closeGeneration_maps [of "e\<lparr>ep_transport := None, ep_ready := False\<rparr>" g] i(1,3)
    by (simp_all add: e')
  moreover have "ep_transport e' = None" "\<not> ep_ready e'" "\<not> ep_closed e'" "\<not> ep_done e'"
    "length (ep_losses e') \<le> 8" "ep_inbound e' = ep_inbound e"
    using i t by (simp_all add: e')
  ultimately show ?thesis using i by (simp add: ep_inv_def)
qed

lemma close_generation_on_close:
  assumes "ep_inv e"
  defines "e1 \<equiv> closeGenerationLocked
      (e\<lparr>ep_closed := True, ep_transport := None, ep_ready := False\<rparr>) (ep_generation e)"
  shows "ep_genDone e1 = ep_genClosed e1" "ep_genClosed e1 g \<noteq> Some False"
proof -
  have i: "ep_genDone e = ep_genClosed e"
    "ep_genClosed e g = Some False \<longleftrightarrow> ep_transport e \<noteq> None \<and> g = ep_generation e"
    "ep_transport e \<noteq> None \<Longrightarrow> ep_generation e \<noteq> 0"
    using assms(1) unfolding ep_inv_def by blast+
  let ?c = "e\<lparr>ep_closed := True, ep_transport := None, ep_ready := False\<rparr>"
  have "ep_genDone e1 = ep_genClosed e1 \<and> ep_genClosed e1 g \<noteq> Some False"
  proof (cases "ep_generation e = 0")
    case True
    then have "e1 = ?c" unfolding e1_def closeGenerationLocked_def by simp
    with True i show ?thesis by auto
  next
    case False
    from i(1) have "ep_genDone ?c = ep_genClosed ?c" by simp
    from closeGeneration_maps [OF this False] have
      "ep_genDone e1 = (ep_genDone e)(ep_generation e \<mapsto> True)"
      "ep_genClosed e1 = (ep_genDone e)(ep_generation e \<mapsto> True)"
      by (simp_all add: e1_def)
    with i(1,2) show ?thesis by simp
  qed
  then show "ep_genDone e1 = ep_genClosed e1" "ep_genClosed e1 g \<noteq> Some False" by blast+
qed

text \<open>A closed endpoint: what \<open>Close\<close> and \<open>fail\<close> establish.\<close>

lemma closed_inv:
  assumes "ep_inv e"
  defines "e1 \<equiv> closeGenerationLocked
      (e\<lparr>ep_closed := True, ep_transport := None, ep_ready := False\<rparr>) (ep_generation e)"
  assumes "ep_transport e' = None" "\<not> ep_ready e'" "ep_closed e'" "ep_done e'"
    and "ep_genDone e' = ep_genDone e1" "ep_genClosed e' = ep_genClosed e1"
    and "ep_losses e' = ep_losses e" "ep_inbound e' = sb_CloseWithError (ep_inbound e) err"
  shows "ep_inv e'"
proof -
  have "length (ep_losses e) \<le> 8" "length (sb_buf (ep_inbound e)) \<le> sb_limit (ep_inbound e)"
    using assms(1) unfolding ep_inv_def by simp_all
  then show ?thesis
    using close_generation_on_close [OF assms(1)] assms(3-) unfolding ep_inv_def e1_def by simp
qed

lemma fail_inv:
  assumes "ep_inv e" "ep_fail e err = (e', fx)"
  shows "ep_inv e'" "ep_closed e'"
proof -
  show "ep_closed e'" using assms(2) by (auto simp: ep_fail_def Let_def notifyProgress_def split: if_splits)
  show "ep_inv e'"
  proof (cases "ep_closed e")
    case True
    with assms show ?thesis by (simp add: ep_fail_def Let_def)
  next
    case False
    show ?thesis
      by (rule closed_inv [OF assms(1)])
         (use assms(2) False in \<open>auto simp: ep_fail_def Let_def notifyProgress_def\<close>)
  qed
qed

lemma Close_inv:
  assumes "ep_inv e" "ep_Close e locked = (e', fx)"
  shows "ep_inv e'" "ep_closed e'"
proof -
  show "ep_closed e'" using assms(2) by (auto simp: ep_Close_def Let_def notifyProgress_def split: if_splits)
  show "ep_inv e'"
  proof (cases "ep_closed e")
    case True
    with assms show ?thesis by (simp add: ep_Close_def Let_def)
  next
    case False
    show ?thesis
      by (rule closed_inv [OF assms(1)])
         (use assms(2) False in \<open>auto simp: ep_Close_def Let_def notifyProgress_def\<close>)
  qed
qed

text \<open>Operations that only touch the stream state or the one-slot tokens.\<close>

lemma ep_inv_state [simp]: "ep_inv (e\<lparr>ep_state := s\<rparr>) = ep_inv e"
  and ep_inv_progress [simp]: "ep_inv (e\<lparr>ep_progress := b\<rparr>) = ep_inv e"
  and ep_inv_acks [simp]: "ep_inv (e\<lparr>ep_acks := b\<rparr>) = ep_inv e"
  and ep_inv_deadline [simp]: "ep_inv (e\<lparr>ep_writeDeadline := d\<rparr>) = ep_inv e"
  and ep_inv_notify [simp]: "ep_inv (notifyProgress e) = ep_inv e"
  and ep_inv_queue [simp]: "ep_inv (queueAck e) = ep_inv e"
  by (simp_all add: ep_inv_def notifyProgress_def queueAck_def)

lemma activate_inv: "ep_inv e \<Longrightarrow> ep_inv (activate_ready e t g)"
  by (auto simp: ep_inv_def activate_ready_def is_current_def)

lemma read_frame_inv:
  assumes "ep_inv e" "read_frame e f = (e', fresh, go_on, fx)"
  shows "ep_inv e'"
proof -
  obtain fr ack er s' where h: "handleBorrowed (ep_state e) f = ((fr, ack, er), s')"
    by (metis prod_cases3 surj_pair)
  have inv: "ep_inv (e\<lparr>ep_state := s'\<rparr>)" using assms(1) by simp
  show ?thesis
  proof (cases er)
    case (Some x)
    with h assms(2) obtain fx' where "ep_fail (e\<lparr>ep_state := s'\<rparr>) (Some (StateError x)) = (e', fx')"
      by (auto simp: read_frame_def split: prod.splits)
    with inv show ?thesis by (rule fail_inv)
  next
    case None
    let ?e = "notifyProgress (e\<lparr>ep_state := s'\<rparr>)"
    have inv1: "ep_inv ?e" using inv by simp
    have eof: "ep_inv ((queueAck ?e)\<lparr>ep_inbound := sb_CloseWithError (ep_inbound ?e) None\<rparr>)"
      using assms(1) unfolding ep_inv_def notifyProgress_def queueAck_def by simp
    consider "fr_type f = FrameRST" | "fr_type f = FrameFIN" | "fr_type f \<noteq> FrameRST \<and> fr_type f \<noteq> FrameFIN"
      by blast
    then show ?thesis
    proof cases
      case 1
      with None h assms(2) obtain fx' where "ep_fail ?e (Some NetErrClosed) = (e', fx')"
        by (auto simp: read_frame_def Let_def split: prod.splits)
      with inv1 show ?thesis by (rule fail_inv)
    next
      case 2
      with None h assms(2) eof show ?thesis by (auto simp: read_frame_def Let_def)
    next
      case 3
      with None h assms(2) inv1 show ?thesis by (auto simp: read_frame_def Let_def split: if_splits)
    qed
  qed
qed

section \<open>Ownership by generation\<close>

lemma bind_generation:
  assumes "ep_bind e tr g retry = (err, e', fx)"
  shows "(err \<noteq> None \<longrightarrow> e' = e \<and> (tr \<noteq> None \<and> g \<noteq> 0 \<longrightarrow> fx = [CloseTransport (the tr)])) \<and>
    (err = None \<longrightarrow> ep_generation e' = g \<and> ep_transport e' = tr \<and> \<not> ep_ready e' \<and> ep_state e' = ep_state e \<and>
       (if retry then g = ep_generation e \<and> ep_transport e = None else ep_generation e < g))"
  using assms
  by (cases tr; cases retry)
     (auto simp: ep_bind_def prune_generations_def Let_def not_le simp del: word_neq_0_conv split: if_splits)

lemma lose_current_only:
  assumes "loseTransport e (Some t) g err = (e', fx)"
  shows "(is_current e t g \<longrightarrow> ep_transport e' = None \<and> \<not> ep_ready e' \<and> fx = [CloseTransport t]) \<and>
    (\<not> is_current e t g \<longrightarrow> e' = e \<and> fx = []) \<and>
    ep_state e' = ep_state e \<and> ep_generation e' = ep_generation e \<and> ep_inbound e' = ep_inbound e \<and>
    ep_closed e' = ep_closed e"
  using assms by (auto simp: loseTransport_def is_current_def split: if_splits)

lemma fail_simps:
  assumes "ep_fail e err = (e', fx)"
  shows "ep_state e' = ep_state e \<and> ep_generation e' = ep_generation e \<and> ep_closed e' \<and>
    sb_buf (ep_inbound e') = sb_buf (ep_inbound e)"
  using assms by (auto simp: ep_fail_def Let_def notifyProgress_def split: if_splits)

section \<open>All operations together\<close>

inductive ep_step :: "endpoint \<Rightarrow> endpoint \<Rightarrow> bool" where
  bind: "ep_bind e tr g retry = (err, e', fx) \<Longrightarrow> ep_step e e'"
| ready: "ep_step e (activate_ready e t g)"
| lose: "loseTransport e tr g err = (e', fx) \<Longrightarrow> ep_step e e'"
| fails: "ep_fail e err = (e', fx) \<Longrightarrow> ep_step e e'"
| closes: "ep_Close e locked = (e', fx) \<Longrightarrow> ep_step e e'"
| wdeadline: "SetWriteDeadline e d = (err, e') \<Longrightarrow> ep_step e e'"
| rdeadline: "SetReadDeadline e d = (err, e') \<Longrightarrow> ep_step e e'"
| wstep: "write_step now e pc = Some (e', pc') \<Longrightarrow> ep_step e e'"
| closewrite: "CloseWrite_begin e = (e', res) \<Longrightarrow> ep_step e e'"
| ack: "ack_take e = Some (e', out) \<Longrightarrow> ep_step e e'"
| frame: "read_frame e f = (e', fresh, go_on, fx) \<Longrightarrow> ep_step e e'"
| deliver: "sb_Write (ep_inbound e) p = Done (err, b) \<Longrightarrow> ep_step e (e\<lparr>ep_inbound := b\<rparr>)"
| app_read: "ep_Read now e n = Done (res, e') \<Longrightarrow> ep_step e e'"

inductive_cases ep_stepE: "ep_step e e'"

lemma write_step_keeps:
  assumes "write_step now e pc = Some (e', pc')"
  shows "\<exists>s b. e' = e\<lparr>ep_state := s, ep_progress := b\<rparr>"
proof -
  have same: "\<exists>s b. e = e\<lparr>ep_state := s, ep_progress := b\<rparr>" by (metis endpoint.surjective endpoint.update_convs(1,11))
  have st: "\<exists>s' b. e\<lparr>ep_state := s\<rparr> = e\<lparr>ep_state := s', ep_progress := b\<rparr>" for s
    by (rule exI [of _ s], rule exI [of _ "ep_progress e"]) simp
  have pr: "\<exists>s' b. e\<lparr>ep_progress := x\<rparr> = e\<lparr>ep_state := s', ep_progress := b\<rparr>" for x
    by (rule exI [of _ "ep_state e"], rule exI [of _ x]) simp
  show ?thesis
    using assms same st pr
    by (cases pc) (auto simp: waitProgress_def split: if_splits option.splits attempt.splits sum.splits
        resume_error.splits ep_error.splits prod.splits)
qed

lemma ack_take_inv: "ep_inv e \<Longrightarrow> ack_take e = Some (e', out) \<Longrightarrow> ep_inv e'"
  by (auto simp: ack_take_def Let_def AckFrame_def deref_def split: if_splits option.splits)

lemma ep_step_inv:
  assumes "ep_step e e'" "ep_inv e"
  shows "ep_inv e'"
  using assms
proof (induction rule: ep_step.induct)
  case (wstep now e pc e' pc')
  with write_step_keeps [OF wstep(1)] show ?case by auto
next
  case (deliver e p err b)
  then have "ep_inv e" and d: "sb_Write (ep_inbound e) p = Done (err, b)" by simp_all
  moreover from this sb_Write_appends [of "ep_inbound e" p b] have
    "length (sb_buf b) \<le> sb_limit b" "sb_closed b = sb_closed (ep_inbound e)"
    by (auto simp: ep_inv_def sb_Write_def split: if_splits)
  ultimately show ?case by (simp add: ep_inv_def)
next
  case (app_read now e n res e')
  then obtain bs er b where rd: "sb_Read now (ep_inbound e) n = Done ((bs, er), b)"
    and e': "e' = e\<lparr>ep_inbound := b\<rparr>"
    by (auto simp: ep_Read_def split: attempt.splits)
  from sb_Read_prefix [OF rd] app_read(2) show ?case
    by (simp add: e' ep_inv_def)
next
  case (rdeadline e d err e')
  then show ?case
    by (auto simp: SetReadDeadline_def sb_SetDeadline_def ep_inv_def split: if_splits)
qed (auto simp: SetWriteDeadline_def CloseWrite_begin_def state_FIN_def deref_def Let_def
    intro: bind_inv activate_inv lose_inv read_frame_inv ack_take_inv fail_inv Close_inv
    split: if_splits)

text \<open>The generation never goes back and a closed endpoint stays closed.\<close>

lemma ep_step_monotone:
  assumes "ep_step e e'"
  shows "ep_generation e \<le> ep_generation e' \<and> (ep_closed e \<longrightarrow> ep_closed e')"
  using assms
proof (induction rule: ep_step.induct)
  case (bind e tr g retry err e' fx)
  then show ?case
    using bind_generation [OF bind]
    by (auto simp: ep_bind_def prune_generations_def Let_def split: if_splits option.splits)
next
  case (lose e tr g err e' fx)
  then show ?case by (auto simp: loseTransport_def split: option.splits if_splits)
next
  case (wstep now e pc e' pc')
  with write_step_keeps [OF wstep] show ?case by auto
next
  case (frame e f e' fresh go_on fx)
  then show ?case
    using fail_simps
    by (fastforce simp: read_frame_def Let_def queueAck_def notifyProgress_def
        split: prod.splits option.splits if_splits)
next
  case (ack e e' out)
  then show ?case
    by (auto simp: ack_take_def Let_def AckFrame_def deref_def split: if_splits option.splits)
qed (auto simp: activate_ready_def SetWriteDeadline_def SetReadDeadline_def CloseWrite_begin_def
    state_FIN_def deref_def Let_def ep_Read_def ep_Close_def notifyProgress_def
    dest: fail_simps split: if_splits prod.splits attempt.splits)

inductive ep_steps :: "endpoint \<Rightarrow> endpoint \<Rightarrow> bool" where
  refl: "ep_steps e e"
| more: "ep_steps e e1 \<Longrightarrow> ep_step e1 e2 \<Longrightarrow> ep_steps e e2"

lemma ep_steps_inv: "ep_steps e e' \<Longrightarrow> ep_inv e \<Longrightarrow> ep_inv e'"
  by (induction rule: ep_steps.induct) (auto intro: ep_step_inv)

lemma ep_steps_monotone:
  "ep_steps e e' \<Longrightarrow> ep_generation e \<le> ep_generation e' \<and> (ep_closed e \<longrightarrow> ep_closed e')"
  by (induction rule: ep_steps.induct) (auto dest: ep_step_monotone)

end
