(* ===== verification/Resume_System.thy ===== *)
theory Resume_System
  imports Resume_Endpoint
begin

text \<open>
  Two endpoints of one logical stream and the transports between them: the goroutines of
  \<open>internal/p2p/resume/endpoint.go\<close> (writer, transport activation, acknowledgement loop, one read
  loop per transport, application reader) as interleaved atomic steps. Transports lose the frames
  in flight when they break; several transports can be alive at once, because a rebind does not
  wait for the read loop of the transport it replaces.
\<close>

section \<open>Nodes and channels\<close>

type_synonym side = bool

text \<open>\<open>nd_act\<close>: the activation that holds the write lock, with the replay frames it still has to
  write; \<open>nd_spawn\<close>: activations that wait for the lock; \<open>nd_ack\<close>: the ACK frame the
  acknowledgement loop has built; \<open>nd_readers\<close>: the read loop of each transport, with the
  accepted bytes it has not yet handed to the inbound buffer. \<open>nd_sent\<close>, \<open>nd_accepted\<close> and
  \<open>nd_app\<close> record what was written, accepted and read by the application so far.\<close>

record node =
  nd_ep :: endpoint
  nd_pc :: write_pc
  nd_act :: "(nat \<times> u64 \<times> frame list) option"
  nd_spawn :: "nat \<rightharpoonup> u64"
  nd_ack :: "(nat \<times> u64 \<times> frame) option"
  nd_readers :: "nat \<rightharpoonup> (u64 \<times> byte list)"
  nd_used :: "nat set"
  nd_sent :: "byte list"
  nd_accepted :: "byte list"
  nd_app :: "byte list"

record sys =
  sy_node :: "side \<Rightarrow> node"
  sy_chan :: "side \<Rightarrow> nat \<Rightarrow> frame list"   \<comment> \<open>in flight from a side, per transport\<close>
  sy_broken :: "nat set"
  sy_now :: nat

definition new_node :: "endpoint \<Rightarrow> node" where
  "new_node e = \<lparr>nd_ep = e, nd_pc = WIdle, nd_act = None, nd_spawn = Map.empty, nd_ack = None,
     nd_readers = Map.empty, nd_used = {}, nd_sent = [], nd_accepted = [], nd_app = []\<rparr>"

definition new_sys :: "endpoint \<Rightarrow> endpoint \<Rightarrow> sys" where
  "new_sys a b = \<lparr>sy_node = (\<lambda>x. new_node (if x then a else b)), sy_chan = (\<lambda>_ _. []),
     sy_broken = {}, sy_now = 0\<rparr>"

text \<open>The frame that \<open>sendBuffered\<close> is responsible for.\<close>

fun pc_frame :: "write_pc \<Rightarrow> frame list" where
  "pc_frame (WSend p w end f) = [f]"
| "pc_frame (WLocked p w end f t g) = [f]"
| "pc_frame _ = []"

text \<open>Writing on a broken transport reaches nobody.\<close>

definition push :: "sys \<Rightarrow> side \<Rightarrow> nat \<Rightarrow> frame \<Rightarrow> sys" where
  "push s x t f =
     (if t \<in> sy_broken s then s
      else s\<lparr>sy_chan := (sy_chan s)(x := (sy_chan s x)(t := sy_chan s x t @ [f]))\<rparr>)"

definition set_node :: "sys \<Rightarrow> side \<Rightarrow> node \<Rightarrow> sys" where
  "set_node s x n = s\<lparr>sy_node := (sy_node s)(x := n)\<rparr>"

text \<open>Effects of an endpoint operation on the outside: an RST is written, then transports close.\<close>

fun closed_by :: "ep_effect list \<Rightarrow> nat set" where
  "closed_by (CloseTransport t # fx) = insert t (closed_by fx)"
| "closed_by (_ # fx) = closed_by fx"
| "closed_by [] = {}"

lemma closed_by_eq: "closed_by fx = {t. CloseTransport t \<in> set fx}"
  by (induction fx rule: closed_by.induct) auto

fun apply_rst :: "sys \<Rightarrow> side \<Rightarrow> ep_effect list \<Rightarrow> sys" where
  "apply_rst s x (SendRST t f # fx) = apply_rst (push s x t f) x fx"
| "apply_rst s x (_ # fx) = apply_rst s x fx"
| "apply_rst s x [] = s"

definition apply_fx :: "sys \<Rightarrow> side \<Rightarrow> ep_effect list \<Rightarrow> sys" where
  "apply_fx s x fx = (apply_rst s x fx)\<lparr>sy_broken := sy_broken s \<union> closed_by fx\<rparr>"

text \<open>A failed write loses the transport; the frame may or may not have got through.\<close>

definition fail_write :: "sys \<Rightarrow> side \<Rightarrow> node \<Rightarrow> nat \<Rightarrow> u64 \<Rightarrow> frame \<Rightarrow> bool \<Rightarrow> sys" where
  "fail_write s x n t g f sent =
     (case loseTransport (nd_ep n) (Some t) g TransportError of
        (e', fx) \<Rightarrow>
          apply_fx (set_node (if sent then push s x t f else s) x (n\<lparr>nd_ep := e'\<rparr>)) x
            (CloseTransport t # fx))"

section \<open>Steps\<close>

text \<open>
  \<open>timely\<close> excludes one step: a writer giving up because its deadline passed while a chunk is
  retained but not yet sent. \<open>ordered\<close> restricts one step: a frame is handled only when no read
  loop of that side still holds accepted bytes. The code guarantees neither; the theorems say what
  depends on them.
\<close>

definition retained :: "write_pc \<Rightarrow> write_pc \<Rightarrow> byte list" where
  "retained pc pc' = (case (pc, pc') of (WRetain p w, WSend _ _ _ _) \<Rightarrow> chunk p w | _ \<Rightarrow> [])"

definition gives_up :: "write_pc \<Rightarrow> write_pc \<Rightarrow> bool" where
  "gives_up pc pc' = (case (pc, pc') of
     (WSend _ _ _ _, WDone _ (Some DeadlineExceeded)) \<Rightarrow> True | _ \<Rightarrow> False)"

definition nothing_held :: "node \<Rightarrow> bool" where
  "nothing_held n \<longleftrightarrow> (\<forall>t g b. nd_readers n t = Some (g, b) \<longrightarrow> b = [])"

inductive sys_step :: "bool \<Rightarrow> bool \<Rightarrow> sys \<Rightarrow> sys \<Rightarrow> bool" for timely ordered where
  write_call:
    "n = sy_node s x \<Longrightarrow> nd_pc n = WIdle \<Longrightarrow>
     sys_step timely ordered s (set_node s x (n\<lparr>nd_pc := WLoop p 0\<rparr>))"
| write_local:
    "n = sy_node s x \<Longrightarrow> write_step (sy_now s) (nd_ep n) (nd_pc n) = Some (e', pc') \<Longrightarrow>
     timely \<longrightarrow> \<not> gives_up (nd_pc n) pc' \<Longrightarrow>
     sys_step timely ordered s
       (set_node s x (n\<lparr>nd_ep := e', nd_pc := pc', nd_sent := nd_sent n @ retained (nd_pc n) pc'\<rparr>))"
| close_write:
    "n = sy_node s x \<Longrightarrow> nd_pc n = WIdle \<Longrightarrow> CloseWrite_begin (nd_ep n) = (e', Inr f) \<Longrightarrow>
     sys_step timely ordered s (set_node s x (n\<lparr>nd_ep := e', nd_pc := WSend [] 0 0 f\<rparr>))"
| send_stale:
    "n = sy_node s x \<Longrightarrow> nd_pc n = WLocked p w end f t g \<Longrightarrow> nd_act n = None \<Longrightarrow>
     \<not> may_send (nd_ep n) t g \<Longrightarrow>
     sys_step timely ordered s (set_node s x (n\<lparr>nd_pc := WSend p w end f\<rparr>))"
| send_ok:
    "n = sy_node s x \<Longrightarrow> nd_pc n = WLocked p w end f t g \<Longrightarrow> nd_act n = None \<Longrightarrow>
     may_send (nd_ep n) t g \<Longrightarrow>
     sys_step timely ordered s (set_node (push s x t f) x (n\<lparr>nd_pc := WLoop p end\<rparr>))"
| send_fail:
    "n = sy_node s x \<Longrightarrow> nd_pc n = WLocked p w end f t g \<Longrightarrow> nd_act n = None \<Longrightarrow>
     may_send (nd_ep n) t g \<Longrightarrow>
     sys_step timely ordered s (fail_write s x (n\<lparr>nd_pc := WSend p w end f\<rparr>) t g f sent)"
| write_return:
    "n = sy_node s x \<Longrightarrow> nd_pc n = WDone w err \<Longrightarrow>
     sys_step timely ordered s (set_node s x (n\<lparr>nd_pc := WIdle\<rparr>))"
| bind:
    "n = sy_node s x \<Longrightarrow> nd_act n = None \<Longrightarrow> t \<notin> nd_used n \<Longrightarrow>
     ep_bind (nd_ep n) (Some t) g retry = (None, e', fx) \<Longrightarrow>
     sys_step timely ordered s
       (apply_fx (set_node s x (n\<lparr>nd_ep := e', nd_spawn := (nd_spawn n)(t \<mapsto> g),
          nd_readers := (nd_readers n)(t \<mapsto> (g, [])), nd_used := insert t (nd_used n)\<rparr>)) x fx)"
| bind_refused:
    "n = sy_node s x \<Longrightarrow> nd_act n = None \<Longrightarrow> t \<notin> nd_used n \<Longrightarrow>
     ep_bind (nd_ep n) (Some t) g retry = (Some err, e', fx) \<Longrightarrow>
     sys_step timely ordered s
       (apply_fx (set_node s x (n\<lparr>nd_ep := e', nd_used := insert t (nd_used n)\<rparr>)) x fx)"
| activate_begin:
    "n = sy_node s x \<Longrightarrow> nd_act n = None \<Longrightarrow> nd_spawn n t = Some g \<Longrightarrow>
     sys_step timely ordered s
       (set_node s x (n\<lparr>nd_spawn := (nd_spawn n)(t := None),
          nd_act := map_option (\<lambda>fs. (t, g, fs)) (activate_frames (nd_ep n) t g)\<rparr>))"
| activate_send:
    "n = sy_node s x \<Longrightarrow> nd_act n = Some (t, g, f # fs) \<Longrightarrow>
     sys_step timely ordered s (set_node (push s x t f) x (n\<lparr>nd_act := Some (t, g, fs)\<rparr>))"
| activate_fail:
    "n = sy_node s x \<Longrightarrow> nd_act n = Some (t, g, f # fs) \<Longrightarrow>
     sys_step timely ordered s (fail_write s x (n\<lparr>nd_act := None\<rparr>) t g f sent)"
| activate_end:
    "n = sy_node s x \<Longrightarrow> nd_act n = Some (t, g, []) \<Longrightarrow>
     sys_step timely ordered s
       (set_node s x (n\<lparr>nd_ep := activate_ready (nd_ep n) t g, nd_act := None\<rparr>))"
| ack_begin:
    "n = sy_node s x \<Longrightarrow> nd_ack n = None \<Longrightarrow> ack_take (nd_ep n) = Some (e', out) \<Longrightarrow>
     sys_step timely ordered s (set_node s x (n\<lparr>nd_ep := e', nd_ack := out\<rparr>))"
| ack_stale:
    "n = sy_node s x \<Longrightarrow> nd_ack n = Some (t, g, f) \<Longrightarrow> nd_act n = None \<Longrightarrow>
     \<not> is_current (nd_ep n) t g \<Longrightarrow>
     sys_step timely ordered s (set_node s x (n\<lparr>nd_ack := None\<rparr>))"
| ack_send:
    "n = sy_node s x \<Longrightarrow> nd_ack n = Some (t, g, f) \<Longrightarrow> nd_act n = None \<Longrightarrow>
     is_current (nd_ep n) t g \<Longrightarrow>
     sys_step timely ordered s (set_node (push s x t f) x (n\<lparr>nd_ack := None\<rparr>))"
| ack_fail:
    "n = sy_node s x \<Longrightarrow> nd_ack n = Some (t, g, f) \<Longrightarrow> nd_act n = None \<Longrightarrow>
     is_current (nd_ep n) t g \<Longrightarrow>
     sys_step timely ordered s (fail_write s x (n\<lparr>nd_ack := None\<rparr>) t g f sent)"
| deliver:
    "n = sy_node s y \<Longrightarrow> sy_chan s (\<not> y) t = f # fs \<Longrightarrow> nd_readers n t = Some (g, []) \<Longrightarrow>
     ordered \<longrightarrow> nothing_held n \<Longrightarrow>
     read_frame (nd_ep n) f = (e', fresh, go_on, fx) \<Longrightarrow>
     sys_step timely ordered s
       (apply_fx (set_node (s\<lparr>sy_chan := (sy_chan s)(\<not> y := (sy_chan s (\<not> y))(t := fs))\<rparr>) y
          (n\<lparr>nd_ep := e', nd_readers := (nd_readers n)(t := if go_on then Some (g, fresh) else None),
             nd_accepted := nd_accepted n @ fresh\<rparr>)) y fx)"
| hand_over:
    "n = sy_node s y \<Longrightarrow> nd_readers n t = Some (g, b) \<Longrightarrow> b \<noteq> [] \<Longrightarrow>
     sb_Write (ep_inbound (nd_ep n)) b = Done (err, ib) \<Longrightarrow>
     sys_step timely ordered s
       (set_node s y (n\<lparr>nd_ep := (nd_ep n)\<lparr>ep_inbound := ib\<rparr>,
          nd_readers := (nd_readers n)(t := if err = None then Some (g, []) else None)\<rparr>))"
| read_error:
    "n = sy_node s y \<Longrightarrow> nd_readers n t = Some (g, []) \<Longrightarrow> t \<in> sy_broken s \<Longrightarrow>
     loseTransport (nd_ep n) (Some t) g TransportError = (e', fx) \<Longrightarrow>
     sys_step timely ordered s
       (apply_fx (set_node s y (n\<lparr>nd_ep := e', nd_readers := (nd_readers n)(t := None)\<rparr>)) y fx)"
| breaks:
    "sys_step timely ordered s (s\<lparr>sy_broken := insert t (sy_broken s)\<rparr>)"
| drops:
    "t \<in> sy_broken s \<Longrightarrow>
     sys_step timely ordered s
       (s\<lparr>sy_chan := (sy_chan s)(x := (sy_chan s x)(t := take k (sy_chan s x t)))\<rparr>)"
| app_read:
    "n = sy_node s y \<Longrightarrow> ep_Read (sy_now s) (nd_ep n) k = Done ((bs, err), e') \<Longrightarrow>
     sys_step timely ordered s (set_node s y (n\<lparr>nd_ep := e', nd_app := nd_app n @ bs\<rparr>))"
| app_abort:
    "n = sy_node s y \<Longrightarrow> ep_fail (nd_ep n) err = (e', fx) \<Longrightarrow>
     sys_step timely ordered s (apply_fx (set_node s y (n\<lparr>nd_ep := e'\<rparr>)) y fx)"
| app_close:
    "n = sy_node s y \<Longrightarrow> ep_Close (nd_ep n) (nd_act n = None \<and> lk) = (e', fx) \<Longrightarrow>
     sys_step timely ordered s (apply_fx (set_node s y (n\<lparr>nd_ep := e'\<rparr>)) y fx)"
| write_deadline:
    "n = sy_node s y \<Longrightarrow> SetWriteDeadline (nd_ep n) d = (err, e') \<Longrightarrow>
     sys_step timely ordered s (set_node s y (n\<lparr>nd_ep := e'\<rparr>))"
| read_deadline:
    "n = sy_node s y \<Longrightarrow> SetReadDeadline (nd_ep n) d = (err, e') \<Longrightarrow>
     sys_step timely ordered s (set_node s y (n\<lparr>nd_ep := e'\<rparr>))"
| tick:
    "sys_step timely ordered s (s\<lparr>sy_now := Suc (sy_now s)\<rparr>)"

inductive sys_reach :: "bool \<Rightarrow> bool \<Rightarrow> sys \<Rightarrow> bool" for timely ordered where
  init: "NewStreamState i n = Ok a \<Longrightarrow> NewStreamState i m = Ok b \<Longrightarrow>
     NewEndpoint (Some a) = Ok ea \<Longrightarrow> NewEndpoint (Some b) = Ok eb \<Longrightarrow>
     sys_reach timely ordered (new_sys ea eb)"
| step: "sys_reach timely ordered s \<Longrightarrow> sys_step timely ordered s s' \<Longrightarrow> sys_reach timely ordered s'"

section \<open>One direction\<close>

text \<open>What holds of the frames that \<open>X\<close> sends to \<open>Y\<close>. Every frame in flight is genuine and starts no
  later than the frames before it reach; while the write lock is held by an activation, or the
  transport is ready, what is in flight or about to be sent reaches everything ever written.\<close>

definition act_inv ::
  "stream_state \<Rightarrow> stream_state \<Rightarrow> byte list \<Rightarrow> byte list \<Rightarrow> (nat \<Rightarrow> frame list) \<Rightarrow> nat set \<Rightarrow> frame list \<Rightarrow>
   (nat \<times> u64 \<times> frame list) option \<Rightarrow> nat option \<Rightarrow> bool \<Rightarrow> (nat \<rightharpoonup> u64) \<Rightarrow> bool" where
  "act_inv X Y sX sY ch br pend act tr rdy spw \<longleftrightarrow>
     (\<forall>t g fs. act = Some (t, g, fs) \<longrightarrow>
        (\<forall>f\<in>set fs. from_peer X sX sY f) \<and> \<not> rdy \<and> spw t = None \<and>
        (t \<notin> br \<longrightarrow> tr = Some t \<and> covered (exp_of Y) (ch t @ fs @ pend) \<and>
           reach (exp_of Y) (ch t @ fs @ pend) = length sX)) \<and>
     (rdy \<longrightarrow> (\<exists>t. tr = Some t \<and> spw t = None \<and>
        (t \<notin> br \<longrightarrow> covered (exp_of Y) (ch t @ pend) \<and> reach (exp_of Y) (ch t @ pend) = length sX)))"

definition flight_inv ::
  "stream_state \<Rightarrow> stream_state \<Rightarrow> byte list \<Rightarrow> byte list \<Rightarrow> (nat \<Rightarrow> frame list) \<Rightarrow> frame list \<Rightarrow>
   (nat \<times> u64 \<times> frame) option \<Rightarrow> bool" where
  "flight_inv X Y sX sY ch pend ack \<longleftrightarrow>
     link X Y sX \<and>
     (\<forall>t. (\<forall>f\<in>set (ch t). from_peer X sX sY f) \<and> covered (exp_of Y) (ch t)) \<and>
     (\<forall>f\<in>set pend. from_peer X sX sY f) \<and>
     (\<forall>t g f. ack = Some (t, g, f) \<longrightarrow> from_peer X sX sY f \<and> \<not> positional f)"

lemma reach_nonpos: "\<not> positional f \<Longrightarrow> reach e [f] = e"
  by (simp add: frame_end_def)

lemma from_peer_seq: "from_peer X sX sY f \<Longrightarrow> positional f \<Longrightarrow> unat (fr_seq f) \<le> length sX"
  using data_of_bound [of sX f] by (auto simp: from_peer_def positional_def frame_types)

text \<open>The peer's counter moves on, as \<open>handle_from_peer\<close> describes.\<close>

lemma flight_receive:
  assumes F: "flight_inv X Y sX sY ch pend ack" and head: "ch t = f # fs"
    and Y': "link X Y' sX" "exp_of Y' = max (exp_of Y) (frame_end f)"
  shows "flight_inv X Y' sX sY (ch(t := fs)) pend ack"
proof -
  have "covered (exp_of Y') (ch u)" for u
    using F Y'(2) by (auto simp: flight_inv_def intro: covered_mono)
  moreover have "covered (exp_of Y') fs"
    using F head Y'(2) unfolding flight_inv_def by (metis covered.simps(2))
  moreover have "\<forall>g\<in>set fs. from_peer X sX sY g"
    using F head unfolding flight_inv_def by (metis list.set_intros(2))
  ultimately show ?thesis using F Y'(1) by (simp add: flight_inv_def)
qed

lemma reach_full:
  assumes "\<forall>f\<in>set fs. from_peer X sX sY f" "e' \<le> length sX" "e \<le> e'" "reach e fs = length sX"
  shows "reach e' fs = length sX"
  using from_peer_reach [OF assms(1,2)] reach_mono [OF assms(3), of fs] assms(4) by simp

lemma act_receive:
  assumes A: "act_inv X Y sX sY ch br pend act tr rdy spw" and F: "flight_inv X Y sX sY ch pend ack"
    and head: "ch t = f # fs"
    and Y': "link X Y' sX" "exp_of Y' = max (exp_of Y) (frame_end f)"
  shows "act_inv X Y' sX sY (ch(t := fs)) br pend act tr rdy spw"
proof -
  have le: "exp_of Y' \<le> length sX" using Y'(1) by (simp add: link_def)
  have genuine: "\<forall>g\<in>set (ch u). from_peer X sX sY g" "\<forall>g\<in>set pend. from_peer X sX sY g" for u
    using F by (auto simp: flight_inv_def)
  have shift: "covered (exp_of Y') ((ch(t := fs)) u @ rest) \<and>
      reach (exp_of Y') ((ch(t := fs)) u @ rest) = length sX"
    if "covered (exp_of Y) (ch u @ rest)" "reach (exp_of Y) (ch u @ rest) = length sX"
      "\<forall>g\<in>set rest. from_peer X sX sY g" for u rest
  proof (cases "u = t")
    case True
    with that head Y'(2) show ?thesis by simp
  next
    case False
    have "exp_of Y \<le> exp_of Y'" using Y'(2) by simp
    moreover have "\<forall>g\<in>set (ch u @ rest). from_peer X sX sY g" using genuine that(3) by auto
    ultimately show ?thesis
      using False that covered_mono reach_full [OF _ le] by (metis fun_upd_other)
  qed
  show ?thesis
    unfolding act_inv_def
  proof (intro conjI allI impI)
    fix u g gs assume act: "act = Some (u, g, gs)"
    with A show "\<forall>f\<in>set gs. from_peer X sX sY f" "\<not> rdy" "spw u = None"
      by (auto simp: act_inv_def)
    assume "u \<notin> br"
    with A act have "tr = Some u" "covered (exp_of Y) (ch u @ gs @ pend)"
      "reach (exp_of Y) (ch u @ gs @ pend) = length sX" "\<forall>f\<in>set (gs @ pend). from_peer X sX sY f"
      using genuine(2) by (auto simp: act_inv_def)
    with shift [of u "gs @ pend"] show "tr = Some u" "covered (exp_of Y') ((ch(t := fs)) u @ gs @ pend)"
      "reach (exp_of Y') ((ch(t := fs)) u @ gs @ pend) = length sX" by auto
  next
    assume rdy
    with A obtain u where u: "tr = Some u" "spw u = None"
      "u \<notin> br \<longrightarrow> covered (exp_of Y) (ch u @ pend) \<and> reach (exp_of Y) (ch u @ pend) = length sX"
      unfolding act_inv_def by blast
    with shift [of u pend] genuine(2) show "\<exists>t'. tr = Some t' \<and> spw t' = None \<and>
        (t' \<notin> br \<longrightarrow> covered (exp_of Y') ((ch(t := fs)) t' @ pend) \<and>
          reach (exp_of Y') ((ch(t := fs)) t' @ pend) = length sX)" by blast
  qed
qed

text \<open>The sender's own state moves on (an acknowledgement, a received frame): only growth.\<close>

lemma flight_sender:
  assumes F: "flight_inv X Y sX sY ch pend ack" and X': "link X' Y sX" "exp_of X \<le> exp_of X'"
    "ss_remoteFIN X \<longrightarrow> ss_remoteFIN X'" "ss_localFIN X \<longrightarrow> ss_localFIN X'"
  shows "flight_inv X' Y sX sY ch pend ack"
proof -
  have "from_peer X sX sY f \<Longrightarrow> from_peer X' sX sY f" for f
    using from_peer_mono X'(2-4) by blast
  with F X'(1) show ?thesis unfolding flight_inv_def by blast
qed

lemma act_sender:
  assumes A: "act_inv X Y sX sY ch br pend act tr rdy spw" and X': "exp_of X \<le> exp_of X'"
    "ss_remoteFIN X \<longrightarrow> ss_remoteFIN X'" "ss_localFIN X \<longrightarrow> ss_localFIN X'"
  shows "act_inv X' Y sX sY ch br pend act tr rdy spw"
proof -
  have "from_peer X sX sY f \<Longrightarrow> from_peer X' sX sY f" for f
    using from_peer_mono X' by blast
  with A show ?thesis unfolding act_inv_def by blast
qed

text \<open>New bytes are retained: the frame becomes the pending one.\<close>

lemma flight_retain:
  assumes F: "flight_inv X Y sX sY ch [] ack" and YX: "link Y X sY"
    and d: "dataRetained X p = Ok (f, X')"
  shows "flight_inv X' Y (sX @ p) sY ch [f] ack"
proof -
  from F have XY: "link X Y sX" by (simp add: flight_inv_def)
  note e = emit_data [OF XY YX d]
  have "from_peer X' (sX @ p) sY g" if "from_peer X sX sY g" for g
    using from_peer_mono [OF from_peer_more [OF that]] e by auto
  with F e show ?thesis unfolding flight_inv_def by auto
qed

lemma act_retain:
  assumes A: "act_inv X Y sX sY ch br [] act tr rdy spw" and F: "flight_inv X Y sX sY ch [] ack"
    and YX: "link Y X sY" and d: "dataRetained X p = Ok (f, X')"
  shows "act_inv X' Y (sX @ p) sY ch br [f] act tr rdy spw"
proof -
  from F have XY: "link X Y sX" by (simp add: flight_inv_def)
  note e = emit_data [OF XY YX d]
  have grow: "from_peer X' (sX @ p) sY g" if "from_peer X sX sY g" for g
    using from_peer_mono [OF from_peer_more [OF that]] e by auto
  have ext: "covered (exp_of Y) (gs @ [f]) \<and> reach (exp_of Y) (gs @ [f]) = length (sX @ p)"
    if "covered (exp_of Y) gs" "reach (exp_of Y) gs = length sX" for gs
    using that e by auto
  show ?thesis
    unfolding act_inv_def
  proof (intro conjI allI impI)
    fix u g gs assume act: "act = Some (u, g, gs)"
    with A grow show "\<forall>f\<in>set gs. from_peer X' (sX @ p) sY f" "\<not> rdy" "spw u = None"
      by (auto simp: act_inv_def)
    assume "u \<notin> br"
    with A act have "tr = Some u" "covered (exp_of Y) (ch u @ gs)" "reach (exp_of Y) (ch u @ gs) = length sX"
      by (auto simp: act_inv_def)
    with ext [of "ch u @ gs"] show "tr = Some u" "covered (exp_of Y) (ch u @ gs @ [f])"
      "reach (exp_of Y) (ch u @ gs @ [f]) = length (sX @ p)" by auto
  next
    assume rdy
    with A ext show "\<exists>t. tr = Some t \<and> spw t = None \<and>
        (t \<notin> br \<longrightarrow> covered (exp_of Y) (ch t @ [f]) \<and> reach (exp_of Y) (ch t @ [f]) = length (sX @ p))"
      by (auto simp: act_inv_def)
  qed
qed

text \<open>The other direction only sees more bytes to acknowledge.\<close>

lemma flight_retain_other:
  assumes F: "flight_inv Y X sY sX ch pend ack" and X': "link Y X' sY" "exp_of X' = exp_of X"
    and XY: "link X Y sX" and nf: "\<not> ss_localFIN X"
  shows "flight_inv Y X' sY (sX @ p) ch pend ack"
  using F X' from_peer_more_other [OF _ XY nf, of sY _ p]
  unfolding flight_inv_def by (metis (no_types, lifting))

lemma act_retain_other:
  assumes A: "act_inv Y X sY sX ch br pend act tr rdy spw" and X': "exp_of X' = exp_of X"
    and XY: "link X Y sX" and nf: "\<not> ss_localFIN X"
  shows "act_inv Y X' sY (sX @ p) ch br pend act tr rdy spw"
  using A from_peer_more_other [OF _ XY nf, of sY _ p]
  unfolding act_inv_def X' by blast

lemma flight_FIN:
  assumes F: "flight_inv X Y sX sY ch [] ack" and YX: "link Y X sY"
    and d: "state_FIN (Some X) = Ok (f, X')"
  shows "flight_inv X' Y sX sY ch [f] ack"
proof -
  from F have XY: "link X Y sX" by (simp add: flight_inv_def)
  note e = emit_FIN [OF XY YX d]
  have "from_peer X' sX sY g" if "from_peer X sX sY g" for g
    using from_peer_mono [OF that] e by auto
  with F e show ?thesis unfolding flight_inv_def by auto
qed

lemma act_FIN:
  assumes A: "act_inv X Y sX sY ch br [] act tr rdy spw" and XY: "link X Y sX" and YX: "link Y X sY"
    and d: "state_FIN (Some X) = Ok (f, X')"
  shows "act_inv X' Y sX sY ch br [f] act tr rdy spw"
proof -
  note e = emit_FIN [OF XY YX d]
  have grow: "from_peer X' sX sY g" if "from_peer X sX sY g" for g
    using from_peer_mono [OF that] e by auto
  have ext: "covered (exp_of Y) (gs @ [f]) \<and> reach (exp_of Y) (gs @ [f]) = length sX"
    if "covered (exp_of Y) gs" "reach (exp_of Y) gs = length sX" for gs
    using that e by auto
  show ?thesis
    unfolding act_inv_def
  proof (intro conjI allI impI)
    fix u g gs assume act: "act = Some (u, g, gs)"
    with A grow show "\<forall>f\<in>set gs. from_peer X' sX sY f" "\<not> rdy" "spw u = None"
      by (auto simp: act_inv_def)
    assume "u \<notin> br"
    with A act have "tr = Some u" "covered (exp_of Y) (ch u @ gs)" "reach (exp_of Y) (ch u @ gs) = length sX"
      by (auto simp: act_inv_def)
    with ext [of "ch u @ gs"] show "tr = Some u" "covered (exp_of Y) (ch u @ gs @ [f])"
      "reach (exp_of Y) (ch u @ gs @ [f]) = length sX" by auto
  next
    assume rdy
    with A ext show "\<exists>t. tr = Some t \<and> spw t = None \<and>
        (t \<notin> br \<longrightarrow> covered (exp_of Y) (ch t @ [f]) \<and> reach (exp_of Y) (ch t @ [f]) = length sX)"
      by (auto simp: act_inv_def)
  qed
qed

section \<open>Both directions\<close>

text \<open>\<open>dir\<close>: everything that holds of the direction from node \<open>n\<close> to node \<open>m\<close>.\<close>

definition dir :: "node \<Rightarrow> node \<Rightarrow> (nat \<Rightarrow> frame list) \<Rightarrow> nat set \<Rightarrow> bool" where
  "dir n m ch br \<longleftrightarrow>
     flight_inv (ep_state (nd_ep n)) (ep_state (nd_ep m)) (nd_sent n) (nd_sent m) ch
       (pc_frame (nd_pc n)) (nd_ack n) \<and>
     act_inv (ep_state (nd_ep n)) (ep_state (nd_ep m)) (nd_sent n) (nd_sent m) ch br
       (pc_frame (nd_pc n)) (nd_act n) (ep_transport (nd_ep n)) (ep_ready (nd_ep n)) (nd_spawn n) \<and>
     nd_accepted m = take (exp_of (ep_state (nd_ep m))) (nd_sent n)"

definition sys_inv :: "sys \<Rightarrow> bool" where
  "sys_inv s \<longleftrightarrow>
     (\<forall>x. ep_inv (nd_ep (sy_node s x)) \<and>
          dir (sy_node s x) (sy_node s (\<not> x)) (sy_chan s x) (sy_broken s))"

lemma dirD:
  assumes "dir n m ch br"
  shows "link (ep_state (nd_ep n)) (ep_state (nd_ep m)) (nd_sent n)"
    and "f \<in> set (ch t) \<Longrightarrow> from_peer (ep_state (nd_ep n)) (nd_sent n) (nd_sent m) f"
    and "f \<in> set (pc_frame (nd_pc n)) \<Longrightarrow> from_peer (ep_state (nd_ep n)) (nd_sent n) (nd_sent m) f"
    and "nd_act n = Some (t, g, fs) \<Longrightarrow> f \<in> set fs \<Longrightarrow>
      from_peer (ep_state (nd_ep n)) (nd_sent n) (nd_sent m) f"
    and "covered (exp_of (ep_state (nd_ep m))) (ch t)"
  using assms by (auto simp: dir_def flight_inv_def act_inv_def)

lemma act_inv_mono:
  assumes A: "act_inv X Y sX sY ch br pend act tr rdy spw" and br: "br \<subseteq> br'"
    and act: "act' = act \<or> act' = None"
    and tr: "tr' = tr \<and> (rdy' \<longrightarrow> rdy) \<or> \<not> rdy' \<and> (\<forall>t. tr = Some t \<longrightarrow> t \<in> br')"
  shows "act_inv X Y sX sY ch br' pend act' tr' rdy' spw"
  unfolding act_inv_def
proof (intro conjI allI impI)
  fix t g fs assume "act' = Some (t, g, fs)"
  with act have a: "act = Some (t, g, fs)" by auto
  with A have i: "\<forall>f\<in>set fs. from_peer X sX sY f" "\<not> rdy" "spw t = None"
    "t \<notin> br \<Longrightarrow> tr = Some t \<and> covered (exp_of Y) (ch t @ fs @ pend) \<and>
        reach (exp_of Y) (ch t @ fs @ pend) = length sX"
    unfolding act_inv_def by blast+
  then show "\<forall>f\<in>set fs. from_peer X sX sY f" "spw t = None" "\<not> rdy'" using tr by blast+
  assume nb: "t \<notin> br'"
  with br have "t \<notin> br" by blast
  from i(4) [OF this] tr nb show "tr' = Some t" "covered (exp_of Y) (ch t @ fs @ pend)"
    "reach (exp_of Y) (ch t @ fs @ pend) = length sX" by blast+
next
  assume r: rdy'
  with tr have t: "tr' = tr" "rdy" by blast+
  with A obtain t where "tr = Some t" "spw t = None"
    "t \<notin> br \<Longrightarrow> covered (exp_of Y) (ch t @ pend) \<and> reach (exp_of Y) (ch t @ pend) = length sX"
    unfolding act_inv_def by blast
  with t br show "\<exists>t. tr' = Some t \<and> spw t = None \<and>
      (t \<notin> br' \<longrightarrow> covered (exp_of Y) (ch t @ pend) \<and> reach (exp_of Y) (ch t @ pend) = length sX)"
    by blast
qed

text \<open>A step of the sender that touches neither its stream nor its channel.\<close>

lemma dir_quiet:
  assumes D: "dir n m ch br" and br: "br \<subseteq> br'"
    and st: "ep_state (nd_ep n') = ep_state (nd_ep n)" "nd_sent n' = nd_sent n"
      "pc_frame (nd_pc n') = pc_frame (nd_pc n)" "nd_spawn n' = nd_spawn n"
    and ack: "nd_ack n' = nd_ack n \<or> nd_ack n' = None"
    and act: "nd_act n' = nd_act n \<or> nd_act n' = None"
    and tr: "ep_transport (nd_ep n') = ep_transport (nd_ep n) \<and> (ep_ready (nd_ep n') \<longrightarrow> ep_ready (nd_ep n)) \<or>
      \<not> ep_ready (nd_ep n') \<and> (\<forall>t. ep_transport (nd_ep n) = Some t \<longrightarrow> t \<in> br')"
  shows "dir n' m ch br'"
proof -
  have "flight_inv (ep_state (nd_ep n')) (ep_state (nd_ep m)) (nd_sent n') (nd_sent m) ch
       (pc_frame (nd_pc n')) (nd_ack n')"
    using D ack st unfolding dir_def flight_inv_def by auto
  moreover have "act_inv (ep_state (nd_ep n')) (ep_state (nd_ep m)) (nd_sent n') (nd_sent m) ch br'
       (pc_frame (nd_pc n')) (nd_act n') (ep_transport (nd_ep n')) (ep_ready (nd_ep n')) (nd_spawn n')"
    unfolding st by (rule act_inv_mono [OF _ br act tr]) (use D in \<open>simp add: dir_def\<close>)
  ultimately show ?thesis using D st by (simp add: dir_def)
qed

text \<open>A step of the receiver that keeps its stream.\<close>

lemma dir_receiver_quiet:
  assumes D: "dir n m ch br" and br: "br \<subseteq> br'"
    and "ep_state (nd_ep m') = ep_state (nd_ep m)" "nd_sent m' = nd_sent m"
      "nd_accepted m' = nd_accepted m"
  shows "dir n m' ch br'"
  using D br assms(3-5) unfolding dir_def act_inv_def by (simp only:) blast

text \<open>A frame goes onto a live transport: an acknowledgement or reset, or the next frame due.\<close>

lemma dir_push_control:
  assumes D: "dir n m ch br"
    and f: "from_peer (ep_state (nd_ep n)) (nd_sent n) (nd_sent m) f" "\<not> positional f"
  shows "dir n m (ch(t := ch t @ [f])) br"
proof -
  have [simp]: "frame_end f = 0" using f(2) by (simp add: frame_end_def)
  have "covered e (ch u @ [f] @ rest) \<longleftrightarrow> covered e (ch u @ rest)" for e u rest
    using f(2) by simp
  with D f show ?thesis
    unfolding dir_def flight_inv_def act_inv_def by (auto 0 4)
qed

lemma dir_drop_pending:
  assumes D: "dir n m ch br" and nr: "\<not> ep_ready (nd_ep n)"
    and act: "\<And>t g fs. nd_act n = Some (t, g, fs) \<Longrightarrow> t \<in> br"
    and st: "ep_state (nd_ep n') = ep_state (nd_ep n)" "nd_sent n' = nd_sent n"
      "nd_spawn n' = nd_spawn n" "nd_ack n' = nd_ack n" "nd_act n' = nd_act n"
      "ep_transport (nd_ep n') = ep_transport (nd_ep n)" "\<not> ep_ready (nd_ep n')"
      "pc_frame (nd_pc n') = []"
  shows "dir n' m ch br"
  using D nr act st unfolding dir_def flight_inv_def act_inv_def by (auto 0 4)

text \<open>The next frame due leaves: what is left to send stays the same.\<close>

lemma act_inv_current:
  assumes "act_inv X Y sX sY ch br pend act tr rdy spw" "act = None" "rdy" "tr = Some t" "t \<notin> br"
  shows "covered (exp_of Y) (ch t @ pend) \<and> reach (exp_of Y) (ch t @ pend) = length sX"
  using assms by (auto simp: act_inv_def)

lemma dir_send_pending:
  assumes D: "dir n m ch br" and pend: "pc_frame (nd_pc n) = [f]" and act: "nd_act n = None"
    and cur: "ep_ready (nd_ep n)" "ep_transport (nd_ep n) = Some t" "t \<notin> br"
    and n': "n' = n\<lparr>nd_pc := pc\<rparr>" "pc_frame pc = [] \<or> pc_frame pc = [f]"
  shows "dir n' m (ch(t := ch t @ [f])) br"
proof -
  let ?X = "ep_state (nd_ep n)" and ?Y = "ep_state (nd_ep m)"
  from D have F: "flight_inv ?X ?Y (nd_sent n) (nd_sent m) ch [f] (nd_ack n)"
    and A: "act_inv ?X ?Y (nd_sent n) (nd_sent m) ch br [f] (nd_act n) (Some t) True (nd_spawn n)"
    using pend cur by (simp_all add: dir_def)
  from act_inv_current [OF A act TrueI HOL.refl cur(3)] have
    now: "covered (exp_of ?Y) (ch t @ [f])" "reach (exp_of ?Y) (ch t @ [f]) = length (nd_sent n)"
    by blast+
  have fp: "from_peer ?X (nd_sent n) (nd_sent m) f" using F by (simp add: flight_inv_def)
  have again: "covered (length (nd_sent n)) [f] \<and> reach (length (nd_sent n)) [f] = length (nd_sent n)"
    using from_peer_end [OF fp] from_peer_seq [OF fp] by auto
  have "covered (exp_of ?Y) ((ch t @ [f]) @ pc_frame pc) \<and>
      reach (exp_of ?Y) ((ch t @ [f]) @ pc_frame pc) = length (nd_sent n)"
  proof (cases "pc_frame pc = []")
    case True
    with now show ?thesis by simp
  next
    case False
    with n'(2) have pc: "pc_frame pc = [f]" by blast
    show ?thesis
      unfolding pc covered_append [of _ "ch t @ [f]"] reach_append [of _ "ch t @ [f]"] now(2)
      using now(1) again by blast
  qed
  moreover have "nd_spawn n t = None" using A by (simp add: act_inv_def)
  ultimately have "act_inv ?X ?Y (nd_sent n) (nd_sent m) (ch(t := ch t @ [f])) br (pc_frame pc)
      (nd_act n) (Some t) True (nd_spawn n)"
    using act by (simp add: act_inv_def)
  moreover have "flight_inv ?X ?Y (nd_sent n) (nd_sent m) (ch(t := ch t @ [f])) (pc_frame pc) (nd_ack n)"
    using F now(1) fp n'(2) by (auto simp: flight_inv_def)
  ultimately show ?thesis using D cur n'(1) by (simp add: dir_def)
qed

lemma dir_bind:
  assumes D: "dir n m ch br" and br: "br \<subseteq> br'" and act: "nd_act n = None"
    and st: "ep_state (nd_ep n') = ep_state (nd_ep n)" "nd_sent n' = nd_sent n"
      "nd_pc n' = nd_pc n" "nd_ack n' = nd_ack n" "nd_act n' = None" "\<not> ep_ready (nd_ep n')"
  shows "dir n' m ch br'"
  using D act st unfolding dir_def act_inv_def by simp

lemma dir_activate:
  assumes D: "dir n m ch br" and R: "link (ep_state (nd_ep m)) (ep_state (nd_ep n)) (nd_sent m)"
    and act: "nd_act n = None" and sp: "nd_spawn n t = Some g"
    and n': "n' = n\<lparr>nd_spawn := (nd_spawn n)(t := None),
          nd_act := map_option (\<lambda>fs. (t, g, fs)) (activate_frames (nd_ep n) t g)\<rparr>"
  shows "dir n' m ch br"
proof -
  let ?X = "ep_state (nd_ep n)" and ?Y = "ep_state (nd_ep m)"
  let ?pend = "pc_frame (nd_pc n)"
  let ?act = "nd_act n'"
  note link = dirD(1) [OF D]
  note rp = emit_replay [OF link R]
  from D have A: "act_inv ?X ?Y (nd_sent n) (nd_sent m) ch br ?pend None
      (ep_transport (nd_ep n)) (ep_ready (nd_ep n)) (nd_spawn n)" by (simp add: dir_def act)
  have le: "exp_of ?Y \<le> length (nd_sent n)" using link by (simp add: link_def)
  let ?fs = "ReplayFrames (Some ?X)"
  have pendfp: "\<forall>f\<in>set ?pend. from_peer ?X (nd_sent n) (nd_sent m) f"
    using dirD(3) [OF D] by blast
  have genuine: "\<forall>f\<in>set (ch t @ ?fs). from_peer ?X (nd_sent n) (nd_sent m) f"
    using dirD(2) [OF D] rp by auto
  have c0: "covered (exp_of ?Y) (ch t)" using dirD(5) [OF D] .
  have up: "exp_of ?Y \<le> reach (exp_of ?Y) (ch t)" by (rule reach_ge)
  have c1: "covered (exp_of ?Y) (ch t @ ?fs)"
    using c0 covered_mono [OF _ up] rp by simp
  have r1: "reach (exp_of ?Y) (ch t @ ?fs) = length (nd_sent n)"
    using reach_mono [OF up, of ?fs] rp from_peer_reach [OF genuine le] by simp
  have "covered (length (nd_sent n)) ?pend \<and> reach (length (nd_sent n)) ?pend = length (nd_sent n)"
  proof (cases ?pend)
    case Nil
    then show ?thesis by simp
  next
    case (Cons f fs)
    then have [simp]: "?pend = [f]" by (cases "nd_pc n") auto
    with pendfp have fp: "from_peer ?X (nd_sent n) (nd_sent m) f" by simp
    from from_peer_end [OF fp] from_peer_seq [OF fp] show ?thesis by auto
  qed
  then have all: "covered (exp_of ?Y) ((ch t @ ?fs) @ ?pend) \<and>
      reach (exp_of ?Y) ((ch t @ ?fs) @ ?pend) = length (nd_sent n)"
    unfolding covered_append [of _ "ch t @ ?fs"] reach_append [of _ "ch t @ ?fs"] r1 using c1 by blast
  have "act_inv ?X ?Y (nd_sent n) (nd_sent m) ch br ?pend ?act
      (ep_transport (nd_ep n)) (ep_ready (nd_ep n)) (nd_spawn n')"
  proof (cases "is_current (nd_ep n) t g")
    case True
    then have tr: "ep_transport (nd_ep n) = Some t" by (simp add: is_current_def)
    have "\<not> ep_ready (nd_ep n)"
      using A sp tr by (auto simp: act_inv_def)
    with True tr all rp show ?thesis by (simp add: act_inv_def n' activate_frames_def)
  next
    case False
    with A show ?thesis by (auto simp: act_inv_def n' activate_frames_def)
  qed
  moreover have "flight_inv ?X ?Y (nd_sent n) (nd_sent m) ch ?pend (nd_ack n)"
    using D by (simp add: dir_def)
  ultimately show ?thesis using D by (simp add: dir_def n')
qed

lemma dir_activate_send:
  assumes D: "dir n m ch br" and act: "nd_act n = Some (t, g, f # fs)" and nb: "t \<notin> br"
  shows "dir (n\<lparr>nd_act := Some (t, g, fs)\<rparr>) m (ch(t := ch t @ [f])) br"
  using D act nb unfolding dir_def flight_inv_def act_inv_def by simp

lemma dir_activate_broken:
  assumes D: "dir n m ch br" and act: "nd_act n = Some (t, g, f # fs)" and nb: "t \<in> br"
  shows "dir (n\<lparr>nd_act := Some (t, g, fs)\<rparr>) m ch br"
  using D act nb unfolding dir_def flight_inv_def act_inv_def by simp

lemma dir_activate_end:
  assumes D: "dir n m ch br" and act: "nd_act n = Some (t, g, [])"
  shows "dir (n\<lparr>nd_ep := activate_ready (nd_ep n) t g, nd_act := None\<rparr>) m ch br"
proof (cases "is_current (nd_ep n) t g")
  case True
  with D act show ?thesis
    unfolding dir_def flight_inv_def act_inv_def by (auto simp: activate_ready_def is_current_def)
next
  case False
  with D act show ?thesis
    unfolding dir_def flight_inv_def act_inv_def by (auto simp: activate_ready_def)
qed

text \<open>Frames lost on a broken transport.\<close>

lemma covered_take: "covered e fs \<Longrightarrow> covered e (take k fs)"
  by (metis append_take_drop_id covered_append)

lemma dir_lost:
  assumes D: "dir n m ch br" and b: "t \<in> br"
  shows "dir n m (ch(t := take k (ch t))) br"
proof -
  have "flight_inv (ep_state (nd_ep n)) (ep_state (nd_ep m)) (nd_sent n) (nd_sent m)
     (ch(t := take k (ch t))) (pc_frame (nd_pc n)) (nd_ack n)"
    using D covered_take unfolding dir_def flight_inv_def by (auto dest: in_set_takeD)
  with D b show ?thesis unfolding dir_def act_inv_def by auto
qed

section \<open>The stream moves\<close>

lemma dir_retain:
  assumes D: "dir n m ch br" and R: "link (ep_state (nd_ep m)) (ep_state (nd_ep n)) (nd_sent m)"
    and pend: "pc_frame (nd_pc n) = []" and d: "dataRetained (ep_state (nd_ep n)) p = Ok (f, X')"
    and n': "n' = n\<lparr>nd_ep := (nd_ep n)\<lparr>ep_state := X'\<rparr>, nd_pc := pc, nd_sent := nd_sent n @ p\<rparr>"
      "pc_frame pc = [f]"
  shows "dir n' m ch br"
proof -
  from D have F: "flight_inv (ep_state (nd_ep n)) (ep_state (nd_ep m)) (nd_sent n) (nd_sent m) ch []
       (nd_ack n)"
    and A: "act_inv (ep_state (nd_ep n)) (ep_state (nd_ep m)) (nd_sent n) (nd_sent m) ch br []
       (nd_act n) (ep_transport (nd_ep n)) (ep_ready (nd_ep n)) (nd_spawn n)"
    by (simp_all add: dir_def pend)
  have "exp_of (ep_state (nd_ep m)) \<le> length (nd_sent n)" using dirD(1) [OF D] by (simp add: link_def)
  with D flight_retain [OF F R d] act_retain [OF A F R d] show ?thesis
    by (simp add: dir_def n')
qed

lemma dir_retain_other:
  assumes D: "dir m n ch br" and N: "dir n m ch' br" and d: "dataRetained (ep_state (nd_ep n)) p = Ok (f, X')"
    and n': "n' = n\<lparr>nd_ep := (nd_ep n)\<lparr>ep_state := X'\<rparr>, nd_pc := pc, nd_sent := nd_sent n @ p\<rparr>"
  shows "dir m n' ch br"
proof -
  let ?X = "ep_state (nd_ep n)" and ?Y = "ep_state (nd_ep m)"
  note YX = dirD(1) [OF D] and XY = dirD(1) [OF N]
  note e = emit_data [OF XY YX d]
  from D have F: "flight_inv ?Y ?X (nd_sent m) (nd_sent n) ch (pc_frame (nd_pc m)) (nd_ack m)"
    and A: "act_inv ?Y ?X (nd_sent m) (nd_sent n) ch br (pc_frame (nd_pc m))
       (nd_act m) (ep_transport (nd_ep m)) (ep_ready (nd_ep m)) (nd_spawn m)"
    by (simp_all add: dir_def)
  have e': "link ?Y X' (nd_sent m)" "exp_of X' = exp_of ?X" "\<not> ss_localFIN ?X" using e by blast+
  from D flight_retain_other [OF F e'(1,2) XY e'(3)] act_retain_other [OF A e'(2) XY e'(3)] e'(2)
  show ?thesis by (simp add: dir_def n')
qed

lemma dir_FIN:
  assumes D: "dir n m ch br" and R: "link (ep_state (nd_ep m)) (ep_state (nd_ep n)) (nd_sent m)"
    and pend: "pc_frame (nd_pc n) = []" and d: "state_FIN (Some (ep_state (nd_ep n))) = Ok (f, X')"
    and n': "n' = n\<lparr>nd_ep := (nd_ep n)\<lparr>ep_state := X'\<rparr>, nd_pc := pc\<rparr>" "pc_frame pc = [f]"
  shows "dir n' m ch br"
proof -
  from D have F: "flight_inv (ep_state (nd_ep n)) (ep_state (nd_ep m)) (nd_sent n) (nd_sent m) ch []
       (nd_ack n)"
    and A: "act_inv (ep_state (nd_ep n)) (ep_state (nd_ep m)) (nd_sent n) (nd_sent m) ch br []
       (nd_act n) (ep_transport (nd_ep n)) (ep_ready (nd_ep n)) (nd_spawn n)"
    by (simp_all add: dir_def pend)
  with D flight_FIN [OF F R d] act_FIN [OF A dirD(1) [OF D] R d] show ?thesis
    by (simp add: dir_def n')
qed

lemma dir_FIN_other:
  assumes D: "dir m n ch br" and N: "link (ep_state (nd_ep n)) (ep_state (nd_ep m)) (nd_sent n)"
    and d: "state_FIN (Some (ep_state (nd_ep n))) = Ok (f, X')"
    and n': "n' = n\<lparr>nd_ep := (nd_ep n)\<lparr>ep_state := X'\<rparr>, nd_pc := pc\<rparr>"
  shows "dir m n' ch br"
proof -
  note e = emit_FIN [OF N dirD(1) [OF D] d]
  then have "link (ep_state (nd_ep m)) X' (nd_sent m)" "exp_of X' = exp_of (ep_state (nd_ep n))" by blast+
  with D show ?thesis
    unfolding dir_def flight_inv_def act_inv_def n' by (simp del: covered_append reach_append)
qed

text \<open>A genuine frame is read without error, and its fresh bytes are the next ones.\<close>

lemma receive_frame_control:
  "receive_frame s f = ((fresh, ack, e), s') \<Longrightarrow> fr_type f \<noteq> FrameData \<Longrightarrow> fresh = []"
  by (auto simp: receive_frame_def Let_def split: if_splits)

lemma handle_control:
  "handleBorrowed s f = ((fresh, ack, e), s') \<Longrightarrow> fr_type f \<noteq> FrameData \<Longrightarrow> fresh = []"
  by (auto simp: handleBorrowed_def Let_def dest: receive_frame_control split: if_splits sum.splits)

lemma fail_transport:
  assumes "ep_fail e err = (e', fx)" "ep_inv e"
  shows "ep_transport e' = None \<and> \<not> ep_ready e' \<and> (\<forall>t. ep_transport e = Some t \<longrightarrow> t \<in> closed_by fx)"
  using assms by (auto simp: ep_fail_def Let_def notifyProgress_def closed_by_eq close_effects_def
      ep_inv_def split: if_splits)

definition no_rst :: "ep_effect list \<Rightarrow> bool" where
  "no_rst fx \<longleftrightarrow> (\<forall>t f. SendRST t f \<notin> set fx)"

lemma fail_no_rst: "ep_fail e err = (e', fx) \<Longrightarrow> no_rst fx"
  by (auto simp: ep_fail_def Let_def no_rst_def close_effects_def split: if_splits option.splits)

lemma read_frame_genuine:
  assumes XY: "link X (ep_state e) sX" and YX: "link (ep_state e) X sY" and f: "from_peer X sX sY f"
    and ord: "positional f \<Longrightarrow> unat (fr_seq f) \<le> exp_of (ep_state e)" and inv: "ep_inv e"
    and rd: "read_frame e f = (e', fresh, go_on, fx)"
  shows "link X (ep_state e') sX \<and> link (ep_state e') X sY \<and>
    exp_of (ep_state e') = max (exp_of (ep_state e)) (frame_end f) \<and>
    take (exp_of (ep_state e)) sX @ fresh = take (exp_of (ep_state e')) sX \<and>
    ss_localFIN (ep_state e') = ss_localFIN (ep_state e) \<and>
    (ss_remoteFIN (ep_state e) \<longrightarrow> ss_remoteFIN (ep_state e')) \<and> no_rst fx \<and>
    (ep_transport e' = ep_transport e \<and> ep_ready e' = ep_ready e \<or>
     \<not> ep_ready e' \<and> (\<forall>t. ep_transport e = Some t \<longrightarrow> t \<in> closed_by fx))"
proof -
  from handle_from_peer [OF XY YX f ord] obtain fr ack Y' where
    h: "handleBorrowed (ep_state e) f = ((fr, ack, None), Y')" and
    Y': "link X Y' sX" "link Y' X sY" "exp_of Y' = max (exp_of (ep_state e)) (frame_end f)"
      "take (exp_of (ep_state e)) sX @ fr = take (exp_of Y') sX"
      "ss_localFIN Y' = ss_localFIN (ep_state e)" "ss_remoteFIN (ep_state e) \<longrightarrow> ss_remoteFIN Y'"
    by blast
  have nil: "fr_type f \<noteq> FrameData \<Longrightarrow> fr = []" using h handle_control by blast
  let ?e = "notifyProgress (e\<lparr>ep_state := Y'\<rparr>)"
  have inv': "ep_inv ?e" using inv by simp
  consider "fr_type f = FrameRST" | "fr_type f \<noteq> FrameRST" by blast
  then show ?thesis
  proof cases
    case 1
    with rd h nil have fl: "ep_fail ?e (Some NetErrClosed) = (e', fx)" and [simp]: "fresh = []" "fr = []"
      by (auto simp: read_frame_def Let_def split: prod.splits)
    from fail_simps [OF fl] fail_transport [OF fl inv'] fail_no_rst [OF fl] Y' show ?thesis
      by (simp add: notifyProgress_def)
  next
    case 2
    have "fx = [] \<and> ep_state e' = Y' \<and> ep_transport e' = ep_transport e \<and> ep_ready e' = ep_ready e \<and> fresh = fr"
      using rd h 2 nil
      by (auto simp: read_frame_def Let_def notifyProgress_def queueAck_def split: if_splits)
    with Y' show ?thesis by (simp add: no_rst_def)
  qed
qed

lemma dir_deliver:
  assumes D: "dir n m ch br" and R: "dir m n ch2 br" and head: "ch t = f # fs" and inv: "ep_inv (nd_ep m)"
    and rd: "read_frame (nd_ep m) f = (e', fresh, go_on, fx)"
    and m': "m' = m\<lparr>nd_ep := e', nd_readers := rs, nd_accepted := nd_accepted m @ fresh\<rparr>"
    and br': "br' = br \<union> closed_by fx"
  shows "dir n m' (ch(t := fs)) br'" "dir m' n ch2 br'" "no_rst fx"
proof -
  let ?X = "ep_state (nd_ep n)" and ?Y = "ep_state (nd_ep m)"
  note XY = dirD(1) [OF D] and YX = dirD(1) [OF R]
  have fp: "from_peer ?X (nd_sent n) (nd_sent m) f" using dirD(2) [OF D, of f t] head by simp
  have ord: "positional f \<Longrightarrow> unat (fr_seq f) \<le> exp_of ?Y" using dirD(5) [OF D, of t] head by simp
  from read_frame_genuine [OF XY YX fp ord inv rd] have
    Y': "link ?X (ep_state e') (nd_sent n)" "link (ep_state e') ?X (nd_sent m)"
      "exp_of (ep_state e') = max (exp_of ?Y) (frame_end f)"
      "take (exp_of ?Y) (nd_sent n) @ fresh = take (exp_of (ep_state e')) (nd_sent n)"
      "ss_localFIN (ep_state e') = ss_localFIN ?Y" "ss_remoteFIN ?Y \<longrightarrow> ss_remoteFIN (ep_state e')"
    and nr: "no_rst fx"
    and tr: "ep_transport e' = ep_transport (nd_ep m) \<and> ep_ready e' = ep_ready (nd_ep m) \<or>
     \<not> ep_ready e' \<and> (\<forall>t. ep_transport (nd_ep m) = Some t \<longrightarrow> t \<in> closed_by fx)"
    by blast+
  show "no_rst fx" by (rule nr)
  from D have F: "flight_inv ?X ?Y (nd_sent n) (nd_sent m) ch (pc_frame (nd_pc n)) (nd_ack n)"
    and A: "act_inv ?X ?Y (nd_sent n) (nd_sent m) ch br (pc_frame (nd_pc n)) (nd_act n)
      (ep_transport (nd_ep n)) (ep_ready (nd_ep n)) (nd_spawn n)"
    and acc: "nd_accepted m = take (exp_of ?Y) (nd_sent n)"
    by (simp_all add: dir_def)
  from act_inv_mono [OF act_receive [OF A F head Y'(1,3)], of br' "nd_act n" "ep_transport (nd_ep n)"
      "ep_ready (nd_ep n)"] flight_receive [OF F head Y'(1,3)] acc Y'(4) br'
  show "dir n m' (ch(t := fs)) br'" by (simp add: dir_def m')
  from R have F2: "flight_inv ?Y ?X (nd_sent m) (nd_sent n) ch2 (pc_frame (nd_pc m)) (nd_ack m)"
    and A2: "act_inv ?Y ?X (nd_sent m) (nd_sent n) ch2 br (pc_frame (nd_pc m)) (nd_act m)
      (ep_transport (nd_ep m)) (ep_ready (nd_ep m)) (nd_spawn m)"
    and acc2: "nd_accepted n = take (exp_of ?X) (nd_sent m)"
    by (simp_all add: dir_def)
  have le: "exp_of ?Y \<le> exp_of (ep_state e')" and lf: "ss_localFIN ?Y \<longrightarrow> ss_localFIN (ep_state e')"
    using Y'(3,5) by simp_all
  note A3 = act_sender [OF A2 le Y'(6) lf]
  have "act_inv (ep_state e') ?X (nd_sent m) (nd_sent n) ch2 br' (pc_frame (nd_pc m)) (nd_act m)
      (ep_transport e') (ep_ready e') (nd_spawn m)"
    by (rule act_inv_mono [OF A3]) (use tr br' in auto)
  with flight_sender [OF F2 Y'(2) le Y'(6) lf] acc2 show "dir m' n ch2 br'"
    by (simp add: dir_def m')
qed

section \<open>Every step keeps both directions\<close>

lemma push_simps [simp]:
  "sy_node (push s x t f) = sy_node s" "sy_broken (push s x t f) = sy_broken s"
  "sy_now (push s x t f) = sy_now s"
  "sy_chan (push s x t f) (\<not> x) = sy_chan s (\<not> x)"
  "sy_chan (push s x t f) x =
     (if t \<in> sy_broken s then sy_chan s x else (sy_chan s x)(t := sy_chan s x t @ [f]))"
  by (simp_all add: push_def)

lemma set_node_simps [simp]:
  "sy_node (set_node s x n) = (sy_node s)(x := n)" "sy_broken (set_node s x n) = sy_broken s"
  "sy_chan (set_node s x n) = sy_chan s" "sy_now (set_node s x n) = sy_now s"
  by (simp_all add: set_node_def)

lemma apply_rst_simps [simp]:
  "sy_node (apply_rst s x fx) = sy_node s" "sy_broken (apply_rst s x fx) = sy_broken s"
  "sy_chan (apply_rst s x fx) (\<not> x) = sy_chan s (\<not> x)" "sy_now (apply_rst s x fx) = sy_now s"
  by (induction s x fx rule: apply_rst.induct) auto

lemma apply_rst_none: "no_rst fx \<Longrightarrow> apply_rst s x fx = s"
  by (induction s x fx rule: apply_rst.induct) (auto simp: no_rst_def)

lemma apply_fx_simps [simp]:
  "sy_node (apply_fx s x fx) = sy_node s" "sy_now (apply_fx s x fx) = sy_now s"
  "sy_broken (apply_fx s x fx) = sy_broken s \<union> closed_by fx"
  "sy_chan (apply_fx s x fx) (\<not> x) = sy_chan s (\<not> x)"
  "no_rst fx \<Longrightarrow> sy_chan (apply_fx s x fx) = sy_chan s"
  by (simp_all add: apply_fx_def apply_rst_none)

lemma not_self [simp]: "((\<not> x) = x) = False" "(x = (\<not> x)) = False"
  by auto

text \<open>The invariant of a changed system, from the two directions of the node that moved.\<close>

lemma sys_invI:
  assumes "ep_inv (nd_ep (sy_node s x))" "ep_inv (nd_ep (sy_node s (\<not> x)))"
    and "dir (sy_node s x) (sy_node s (\<not> x)) (sy_chan s x) (sy_broken s)"
    and "dir (sy_node s (\<not> x)) (sy_node s x) (sy_chan s (\<not> x)) (sy_broken s)"
  shows "sys_inv s"
  unfolding sys_inv_def
proof
  fix y
  have "y = x \<or> y = (\<not> x)" by auto
  then show "ep_inv (nd_ep (sy_node s y)) \<and>
      dir (sy_node s y) (sy_node s (\<not> y)) (sy_chan s y) (sy_broken s)"
    using assms by auto
qed

lemma sys_invD:
  assumes "sys_inv s"
  shows "ep_inv (nd_ep (sy_node s x))" "ep_inv (nd_ep (sy_node s (\<not> x)))"
    "dir (sy_node s x) (sy_node s (\<not> x)) (sy_chan s x) (sy_broken s)"
    "dir (sy_node s (\<not> x)) (sy_node s x) (sy_chan s (\<not> x)) (sy_broken s)"
proof -
  have both: "ep_inv (nd_ep (sy_node s y)) \<and>
      dir (sy_node s y) (sy_node s (\<not> y)) (sy_chan s y) (sy_broken s)" for y
    using assms unfolding sys_inv_def by blast
  show "ep_inv (nd_ep (sy_node s x))" "ep_inv (nd_ep (sy_node s (\<not> x)))"
    "dir (sy_node s x) (sy_node s (\<not> x)) (sy_chan s x) (sy_broken s)"
    "dir (sy_node s (\<not> x)) (sy_node s x) (sy_chan s (\<not> x)) (sy_broken s)"
    using both [of x] both [of "\<not> x"] by simp_all
qed

text \<open>A step of one node that leaves the bytes alone.\<close>

lemma quiet_step:
  assumes I: "sys_inv s" and s': "sy_node s' = (sy_node s)(x := n')" "sy_chan s' = sy_chan s"
      "sy_broken s \<subseteq> sy_broken s'"
    and inv: "ep_inv (nd_ep n')"
    and st: "ep_state (nd_ep n') = ep_state (nd_ep (sy_node s x))"
      "nd_sent n' = nd_sent (sy_node s x)" "nd_accepted n' = nd_accepted (sy_node s x)"
      "pc_frame (nd_pc n') = pc_frame (nd_pc (sy_node s x))" "nd_spawn n' = nd_spawn (sy_node s x)"
    and ack: "nd_ack n' = nd_ack (sy_node s x) \<or> nd_ack n' = None"
    and act: "nd_act n' = nd_act (sy_node s x) \<or> nd_act n' = None"
    and tr: "ep_transport (nd_ep n') = ep_transport (nd_ep (sy_node s x)) \<and>
        (ep_ready (nd_ep n') \<longrightarrow> ep_ready (nd_ep (sy_node s x))) \<or>
      \<not> ep_ready (nd_ep n') \<and> (\<forall>t. ep_transport (nd_ep (sy_node s x)) = Some t \<longrightarrow> t \<in> sy_broken s')"
  shows "sys_inv s'"
proof (rule sys_invI [of _ x])
  note i = sys_invD [OF I, of x]
  show "ep_inv (nd_ep (sy_node s' x))" "ep_inv (nd_ep (sy_node s' (\<not> x)))"
    using inv i(2) s'(1) by simp_all
  show "dir (sy_node s' x) (sy_node s' (\<not> x)) (sy_chan s' x) (sy_broken s')"
    using dir_quiet [OF i(3) s'(3) st(1,2,4,5) ack act tr] by (simp add: s'(1,2))
  show "dir (sy_node s' (\<not> x)) (sy_node s' x) (sy_chan s' (\<not> x)) (sy_broken s')"
    using dir_receiver_quiet [OF i(4) s'(3) st(1-3)] by (simp add: s'(1,2))
qed

lemma push_control_step:
  assumes I: "sys_inv s"
    and f: "from_peer (ep_state (nd_ep (sy_node s x))) (nd_sent (sy_node s x)) (nd_sent (sy_node s (\<not> x))) f"
      "\<not> positional f"
  shows "sys_inv (push s x t f)"
proof (rule sys_invI [of _ x])
  note i = sys_invD [OF I, of x]
  show "ep_inv (nd_ep (sy_node (push s x t f) x))" "ep_inv (nd_ep (sy_node (push s x t f) (\<not> x)))"
    using i by simp_all
  show "dir (sy_node (push s x t f) x) (sy_node (push s x t f) (\<not> x)) (sy_chan (push s x t f) x)
      (sy_broken (push s x t f))"
    using i(3) dir_push_control [OF i(3) f] by simp
  show "dir (sy_node (push s x t f) (\<not> x)) (sy_node (push s x t f) x) (sy_chan (push s x t f) (\<not> x))
      (sy_broken (push s x t f))"
    using i(4) by simp
qed

lemma write_step_cases:
  assumes w: "write_step now e pc = Some (e', pc')" and inv: "ep_inv e"
  obtains (keeps) "ep_state e' = ep_state e" "ep_transport e' = ep_transport e" "ep_ready e' = ep_ready e"
      "pc_frame pc' = pc_frame pc" "retained pc pc' = []"
  | (retains) p w f X' where "pc = WRetain p w" "dataRetained (ep_state e) (chunk p w) = Ok (f, X')"
      "e' = e\<lparr>ep_state := X'\<rparr>" "pc_frame pc' = [f]" "retained pc pc' = chunk p w"
  | (late) "gives_up pc pc'"
  | (closed) "e' = e" "pc_frame pc' = []" "ep_transport e = None" "\<not> ep_ready e" "retained pc pc' = []"
proof (cases pc)
  case (WLoop p v)
  then show ?thesis using w that(1) by (auto simp: retained_def split: if_splits option.splits)
next
  case (WRetain p v)
  show ?thesis
  proof (cases "dataRetained (ep_state e) (chunk p v)")
    case (Inl err)
    with w WRetain that(1) show ?thesis by (cases err) (auto simp: retained_def)
  next
    case (Inr r)
    then obtain f X' where r: "dataRetained (ep_state e) (chunk p v) = Ok (f, X')"
      by (cases r) auto
    with w WRetain have "e' = e\<lparr>ep_state := X'\<rparr>" "pc' = WSend p v (chunk_end p v) f" by auto
    with r WRetain that(2) show ?thesis by (simp add: retained_def)
  qed
next
  case (WProgress p v)
  then show ?thesis using w that(1)
    by (auto simp: retained_def waitProgress_def split: if_splits option.splits attempt.splits)
next
  case (WSend p v w' f)
  consider "waitTransport now e = Block" | err where "waitTransport now e = Done (Err err)"
    | t g where "waitTransport now e = Done (Ok (t, g))"
    by (metis attempt.exhaust sum.exhaust prod.exhaust)
  then show ?thesis
  proof cases
    case 1
    with w WSend show ?thesis by simp
  next
    case 2
    then consider "err = DeadlineExceeded" | "err = NetErrClosed" "ep_closed e"
      by (auto simp: waitTransport_def split: if_splits option.splits)
    then show ?thesis
    proof cases
      case 1
      with 2 w WSend have "gives_up pc pc'" by (auto simp: gives_up_def)
      then show ?thesis by (rule that(3))
    next
      case closed: 2
      with inv have "ep_transport e = None" "\<not> ep_ready e" by (simp_all add: ep_inv_def)
      with closed 2 w WSend that(4) show ?thesis by (auto simp: retained_def)
    qed
  next
    case 3
    with w WSend that(1) show ?thesis by (auto simp: retained_def)
  qed
qed (use w in auto)

lemma write_local_step:
  assumes I: "sys_inv s" and n: "n = sy_node s x"
    and w: "write_step (sy_now s) (nd_ep n) (nd_pc n) = Some (e', pc')"
    and timely: "\<not> gives_up (nd_pc n) pc'"
  shows "sys_inv (set_node s x
    (n\<lparr>nd_ep := e', nd_pc := pc', nd_sent := nd_sent n @ retained (nd_pc n) pc'\<rparr>))"
    (is "sys_inv (set_node s x ?n)")
proof -
  note i = sys_invD [OF I, of x, folded n]
  have inv: "ep_inv e'" using ep_step_inv [OF ep_step.wstep [OF w] i(1)] .
  from w i(1) show ?thesis
  proof (cases rule: write_step_cases)
    case keeps
    with n inv show ?thesis by (intro quiet_step [OF I, of _ x ?n]) simp_all
  next
    case (retains p v f X')
    have pend: "pc_frame (nd_pc n) = []" by (simp add: retains(1))
    have n': "?n = n\<lparr>nd_ep := (nd_ep n)\<lparr>ep_state := X'\<rparr>, nd_pc := pc', nd_sent := nd_sent n @ chunk p v\<rparr>"
      unfolding retains(5) retains(3) by simp
    show ?thesis
      by (rule sys_invI [of _ x])
         (use inv i(2) dir_retain [OF i(3) dirD(1) [OF i(4)] pend retains(2) n' retains(4)]
           dir_retain_other [OF i(4,3) retains(2) n'] in simp_all)
  next
    case late
    with timely show ?thesis by blast
  next
    case closed
    have "dir ?n (sy_node s (\<not> x)) (sy_chan s x) (sy_broken s)"
    proof (rule dir_drop_pending [OF i(3)])
      fix t g fs assume "nd_act n = Some (t, g, fs)"
      with i(3) closed(3) show "t \<in> sy_broken s" by (auto simp: dir_def act_inv_def)
    qed (simp_all add: closed)
    moreover have "dir (sy_node s (\<not> x)) ?n (sy_chan s (\<not> x)) (sy_broken s)"
      by (rule dir_receiver_quiet [OF i(4)]) (simp_all add: closed)
    ultimately show ?thesis by (intro sys_invI [of _ x]) (use inv i(2) in simp_all)
  qed
qed

lemma lose_transport:
  assumes "loseTransport e (Some t) g err = (e', fx)"
  shows "ep_state e' = ep_state e \<and> no_rst fx \<and>
    (ep_transport e' = ep_transport e \<and> ep_ready e' = ep_ready e \<or>
     \<not> ep_ready e' \<and> (\<forall>u. ep_transport e = Some u \<longrightarrow> u \<in> closed_by fx))"
  using assms by (auto simp: loseTransport_def no_rst_def closed_by_eq split: if_splits)

lemma lose_step:
  assumes I: "sys_inv s" and n: "n = sy_node s x"
    and l: "loseTransport (nd_ep n) (Some t) g err = (e', fx)"
    and n': "ep_state (nd_ep n') = ep_state e'" "ep_transport (nd_ep n') = ep_transport e'"
      "ep_ready (nd_ep n') = ep_ready e'" "ep_inv (nd_ep n')"
      "nd_sent n' = nd_sent n" "nd_accepted n' = nd_accepted n"
      "pc_frame (nd_pc n') = pc_frame (nd_pc n)" "nd_spawn n' = nd_spawn n"
      "nd_ack n' = nd_ack n \<or> nd_ack n' = None" "nd_act n' = nd_act n \<or> nd_act n' = None"
    and gx: "no_rst gx" "closed_by fx \<subseteq> closed_by gx"
  shows "sys_inv (apply_fx (set_node s x n') x gx)"
  by (rule quiet_step [OF I, of _ x n'])
     (use n n' gx lose_transport [OF l] in \<open>auto\<close>)

lemma fail_write_step:
  assumes I: "sys_inv (if sent then push s x t f else s)" and n: "n = sy_node s x"
    and n': "nd_ep n' = nd_ep n" "nd_sent n' = nd_sent n" "nd_accepted n' = nd_accepted n"
      "pc_frame (nd_pc n') = pc_frame (nd_pc n)" "nd_spawn n' = nd_spawn n"
      "nd_ack n' = nd_ack n \<or> nd_ack n' = None" "nd_act n' = nd_act n \<or> nd_act n' = None"
  shows "sys_inv (fail_write s x n' t g f sent)"
proof -
  obtain e' fx where l: "loseTransport (nd_ep n') (Some t) g TransportError = (e', fx)"
    by (metis surj_pair)
  have n2: "n = sy_node (if sent then push s x t f else s) x" using n by simp
  have inv: "ep_inv e'" using lose_inv [OF _ l] sys_invD(1) [OF I, of x] n2 n'(1) by simp
  have fx: "no_rst (CloseTransport t # fx)" "closed_by fx \<subseteq> closed_by (CloseTransport t # fx)"
    using lose_transport [OF l] by (auto simp: no_rst_def closed_by_eq)
  show ?thesis
    unfolding fail_write_def l prod.case
    by (rule lose_step [OF I n2 l [unfolded n'(1)] _ _ _ _ _ _ _ _ _ _ fx])
       (use n' inv in simp_all)
qed

lemma send_ok_step:
  assumes I: "sys_inv s" and n: "n = sy_node s x" and pc: "nd_pc n = WLocked p w end f t g"
    and act: "nd_act n = None" and may: "may_send (nd_ep n) t g"
    and pc': "pc_frame pc' = [] \<or> pc_frame pc' = [f]"
  shows "sys_inv (set_node (push s x t f) x (n\<lparr>nd_pc := pc'\<rparr>))"
proof -
  note i = sys_invD [OF I, of x, folded n]
  have cur: "ep_ready (nd_ep n)" "ep_transport (nd_ep n) = Some t"
    using may by (simp_all add: may_send_def is_current_def)
  have pend: "pc_frame (nd_pc n) = [f]" by (simp add: pc)
  have "dir (n\<lparr>nd_pc := pc'\<rparr>) (sy_node s (\<not> x)) (sy_chan (push s x t f) x) (sy_broken s)"
  proof (cases "t \<in> sy_broken s")
    case False
    with dir_send_pending [OF i(3) pend act cur False HOL.refl pc'] show ?thesis by simp
  next
    case True
    with i(3) cur act pend pc' show ?thesis
      unfolding dir_def flight_inv_def act_inv_def by auto
  qed
  moreover have "dir (sy_node s (\<not> x)) (n\<lparr>nd_pc := pc'\<rparr>) (sy_chan s (\<not> x)) (sy_broken s)"
    by (rule dir_receiver_quiet [OF i(4)]) simp_all
  ultimately show ?thesis by (intro sys_invI [of _ x]) (use i in simp_all)
qed

lemma ack_frame_genuine:
  assumes I: "sys_inv s" and ack: "nd_ack (sy_node s x) = Some (t, g, f)"
  shows "from_peer (ep_state (nd_ep (sy_node s x))) (nd_sent (sy_node s x)) (nd_sent (sy_node s (\<not> x))) f"
    "\<not> positional f"
  using sys_invD(3) [OF I, of x] ack by (auto simp: dir_def flight_inv_def)

lemma ack_begin_step:
  assumes I: "sys_inv s" and n: "n = sy_node s x" and a: "ack_take (nd_ep n) = Some (e', out)"
  shows "sys_inv (set_node s x (n\<lparr>nd_ep := e', nd_ack := out\<rparr>))" (is "sys_inv (set_node s x ?n)")
proof -
  note i = sys_invD [OF I, of x, folded n]
  have e': "e' = (nd_ep n)\<lparr>ep_acks := False\<rparr>"
    and out: "\<And>t g f. out = Some (t, g, f) \<Longrightarrow> AckFrame (Some (ep_state (nd_ep n))) = Ok f"
    using a by (auto simp: ack_take_def Let_def AckFrame_def deref_def split: if_splits option.splits)
  have fp: "from_peer (ep_state (nd_ep n)) (nd_sent n) (nd_sent (sy_node s (\<not> x))) f \<and> \<not> positional f"
    if "out = Some (t, g, f)" for t g f
    using emit_Ack [OF dirD(1) [OF i(4)] out [OF that]] by blast
  have "dir ?n (sy_node s (\<not> x)) (sy_chan s x) (sy_broken s)"
    using i(3) fp unfolding dir_def flight_inv_def by (simp add: e')
  moreover have "dir (sy_node s (\<not> x)) ?n (sy_chan s (\<not> x)) (sy_broken s)"
    by (rule dir_receiver_quiet [OF i(4)]) (simp_all add: e')
  ultimately show ?thesis by (intro sys_invI [of _ x]) (use i in \<open>simp_all add: e'\<close>)
qed

lemma close_write_step:
  assumes I: "sys_inv s" and n: "n = sy_node s x" and pc: "nd_pc n = WIdle"
    and c: "CloseWrite_begin (nd_ep n) = (e', Inr f)"
  shows "sys_inv (set_node s x (n\<lparr>nd_ep := e', nd_pc := WSend [] 0 0 f\<rparr>))" (is "sys_inv (set_node s x ?n)")
proof -
  note i = sys_invD [OF I, of x, folded n]
  from c obtain X' where f: "state_FIN (Some (ep_state (nd_ep n))) = Ok (f, X')"
    and e': "e' = (nd_ep n)\<lparr>ep_state := X'\<rparr>"
    by (auto simp: CloseWrite_begin_def split: sum.splits prod.splits)
  have n': "?n = n\<lparr>nd_ep := (nd_ep n)\<lparr>ep_state := X'\<rparr>, nd_pc := WSend [] 0 0 f\<rparr>" by (simp add: e')
  have pend: "pc_frame (nd_pc n) = []" by (simp add: pc)
  have one: "pc_frame (WSend [] 0 0 f) = [f]" by simp
  show ?thesis
    by (rule sys_invI [of _ x])
       (use i dir_FIN [OF i(3) dirD(1) [OF i(4)] pend f n' one]
          dir_FIN_other [OF i(4) dirD(1) [OF i(3)] f n'] in \<open>simp_all add: e'\<close>)
qed

lemma bind_effects:
  assumes "ep_bind e (Some t) g retry = (err, e', fx)"
  shows "no_rst fx \<and> ep_state e' = ep_state e \<and> (err = None \<longrightarrow> \<not> ep_ready e') \<and> (err \<noteq> None \<longrightarrow> e' = e)"
  using assms by (auto simp: ep_bind_def prune_generations_def Let_def no_rst_def split: if_splits option.splits)

lemma bind_step:
  assumes I: "sys_inv s" and n: "n = sy_node s x" and act: "nd_act n = None"
    and b: "ep_bind (nd_ep n) (Some t) g retry = (None, e', fx)"
    and n': "n' = n\<lparr>nd_ep := e', nd_spawn := sp, nd_readers := rd, nd_used := us\<rparr>"
  shows "sys_inv (apply_fx (set_node s x n') x fx)"
proof -
  note i = sys_invD [OF I, of x, folded n]
  note fx = bind_effects [OF b]
  have "dir n' (sy_node s (\<not> x)) (sy_chan s x) (sy_broken s \<union> closed_by fx)"
    by (rule dir_bind [OF i(3) _ act]) (use fx act in \<open>simp_all add: n'\<close>)
  moreover have "dir (sy_node s (\<not> x)) n' (sy_chan s (\<not> x)) (sy_broken s \<union> closed_by fx)"
    by (rule dir_receiver_quiet [OF i(4)]) (use fx in \<open>simp_all add: n'\<close>)
  ultimately show ?thesis
    by (intro sys_invI [of _ x]) (use i fx bind_inv [OF i(1) b] in \<open>simp_all add: n'\<close>)
qed

lemma activate_begin_step:
  assumes I: "sys_inv s" and n: "n = sy_node s x" and act: "nd_act n = None" and sp: "nd_spawn n t = Some g"
  shows "sys_inv (set_node s x (n\<lparr>nd_spawn := (nd_spawn n)(t := None),
          nd_act := map_option (\<lambda>fs. (t, g, fs)) (activate_frames (nd_ep n) t g)\<rparr>))"
proof -
  note i = sys_invD [OF I, of x, folded n]
  show ?thesis
    by (rule sys_invI [of _ x])
       (use i dir_activate [OF i(3) dirD(1) [OF i(4)] act sp HOL.refl] dir_receiver_quiet [OF i(4)] in simp_all)
qed

lemma activate_send_step:
  assumes I: "sys_inv s" and n: "n = sy_node s x" and act: "nd_act n = Some (t, g, f # fs)"
  shows "sys_inv (set_node (push s x t f) x (n\<lparr>nd_act := Some (t, g, fs)\<rparr>))"
proof -
  note i = sys_invD [OF I, of x, folded n]
  show ?thesis
    by (rule sys_invI [of _ x])
       (use i dir_activate_send [OF i(3) act] dir_activate_broken [OF i(3) act]
          dir_receiver_quiet [OF i(4)] in simp_all)
qed

lemma activate_end_step:
  assumes I: "sys_inv s" and n: "n = sy_node s x" and act: "nd_act n = Some (t, g, [])"
  shows "sys_inv (set_node s x (n\<lparr>nd_ep := activate_ready (nd_ep n) t g, nd_act := None\<rparr>))"
proof -
  note i = sys_invD [OF I, of x, folded n]
  have "ep_state (activate_ready (nd_ep n) t g) = ep_state (nd_ep n)" by (simp add: activate_ready_def)
  then show ?thesis
    by (intro sys_invI [of _ x])
       (use i dir_activate_end [OF i(3) act] dir_receiver_quiet [OF i(4)] activate_inv [OF i(1)] in simp_all)
qed

lemma deliver_step:
  assumes I: "sys_inv s" and n: "n = sy_node s y" and head: "sy_chan s (\<not> y) t = f # fs"
    and rd: "read_frame (nd_ep n) f = (e', fresh, go_on, fx)"
    and n': "n' = n\<lparr>nd_ep := e', nd_readers := rs, nd_accepted := nd_accepted n @ fresh\<rparr>"
  shows "sys_inv (apply_fx (set_node
    (s\<lparr>sy_chan := (sy_chan s)(\<not> y := (sy_chan s (\<not> y))(t := fs))\<rparr>) y n') y fx)"
proof -
  note i = sys_invD [OF I, of y, folded n]
  note d = dir_deliver [OF i(4,3) head i(1) rd n' HOL.refl]
  show ?thesis
    by (rule sys_invI [of _ y])
       (use d(1,2) i(2) read_frame_inv [OF i(1) rd] in \<open>simp_all add: d(3) n'\<close>)
qed

lemma apply_fx_rst:
  "apply_fx s x (SendRST t f # fx) = apply_fx (push s x t f) x fx"
  by (simp add: apply_fx_def closed_by_eq)

lemma set_node_push: "push (set_node s x n) x t f = set_node (push s x t f) x n"
  by (simp add: push_def set_node_def)

lemma emit_RST:
  assumes YX: "link Y X sentY" and "state_RST (Some X) = Ok f"
  shows "from_peer X sentX sentY f \<and> \<not> positional f"
proof -
  have f: "f = control_frame X FrameRST (rb_next (ss_send X))"
    using assms(2) by (simp add: state_RST_def deref_def)
  with carries_state [OF YX, of f] show ?thesis
    by (simp add: from_peer_def positional_def)
qed

lemma close_effects_simps [simp]:
  "no_rst (close_effects t)" "closed_by (close_effects t) = set_option t"
  by (cases t; simp add: close_effects_def no_rst_def closed_by_eq)+

lemma close_step:
  assumes I: "sys_inv s" and n: "n = sy_node s y" and c: "ep_Close (nd_ep n) locked = (e', fx)"
  shows "sys_inv (apply_fx (set_node s y (n\<lparr>nd_ep := e'\<rparr>)) y fx)"
proof (cases "ep_closed (nd_ep n)")
  case True
  with c have "e' = nd_ep n" "fx = []" by (simp_all add: ep_Close_def)
  with n I show ?thesis
    by (intro quiet_step [OF I, of _ y n]) (auto simp: no_rst_def sys_inv_def)
next
  case False
  note i = sys_invD [OF I, of y, folded n]
  define rst where "rst = (case (ep_transport (nd_ep n), state_RST (Some (ep_state (nd_ep n)))) of
                     (Some t, Inr f) \<Rightarrow> if ep_ready (nd_ep n) \<and> locked then [SendRST t f] else []
                   | _ \<Rightarrow> [])"
  from c False have fx: "fx = rst @ close_effects (ep_transport (nd_ep n))"
    and e': "ep_state e' = ep_state (nd_ep n)" "\<not> ep_ready e'"
    by (auto simp: ep_Close_def Let_def rst_def notifyProgress_def)
  have inv: "ep_inv e'" using Close_inv [OF i(1) c] by simp
  have quiet: "sys_inv (apply_fx (set_node r y (n\<lparr>nd_ep := e'\<rparr>)) y (close_effects (ep_transport (nd_ep n))))"
    if R: "sys_inv r" and r: "sy_node r = sy_node s" "sy_broken r = sy_broken s" for r
    by (rule quiet_step [OF R, of _ y "n\<lparr>nd_ep := e'\<rparr>"]) (use e' inv n in \<open>simp_all add: r\<close>)
  show ?thesis
  proof (cases "rst = []")
    case True
    with fx quiet [OF I] show ?thesis by simp
  next
    case False
    then obtain t f where rst: "rst = [SendRST t f]" "state_RST (Some (ep_state (nd_ep n))) = Ok f"
      by (auto simp: rst_def split: option.splits sum.splits if_splits)
    from emit_RST [OF dirD(1) [OF i(4)] rst(2)] n have
      "sys_inv (push s y t f)" by (intro push_control_step [OF I]) simp_all
    from quiet [OF this] show ?thesis
      by (simp add: fx rst(1) apply_fx_rst set_node_push)
  qed
qed

lemma sb_Write_inv:
  assumes "ep_inv e" "sb_Write (ep_inbound e) p = Done (err, b)"
  shows "ep_inv (e\<lparr>ep_inbound := b\<rparr>)"
  by (rule ep_step_inv [OF ep_step.deliver [OF assms(2)] assms(1)])

lemma ep_Read_keeps:
  assumes "ep_Read now e k = Done (res, e')"
  shows "\<exists>b. e' = e\<lparr>ep_inbound := b\<rparr>"
  using assms by (auto simp: ep_Read_def split: attempt.splits)

text \<open>A deadline change, an application read, a hand-over: only fields beside the stream change.\<close>

lemma local_step:
  assumes I: "sys_inv s" and n: "n = sy_node s x" and inv: "ep_inv e'"
    and e': "ep_state e' = ep_state (nd_ep n)" "ep_transport e' = ep_transport (nd_ep n)"
      "ep_ready e' = ep_ready (nd_ep n)"
    and n': "nd_ep n' = e'" "nd_sent n' = nd_sent n" "nd_accepted n' = nd_accepted n"
      "pc_frame (nd_pc n') = pc_frame (nd_pc n)" "nd_spawn n' = nd_spawn n"
      "nd_ack n' = nd_ack n \<or> nd_ack n' = None" "nd_act n' = nd_act n"
  shows "sys_inv (set_node s x n')"
  by (rule quiet_step [OF I, of _ x n']) (use n inv e' n' in simp_all)

lemma fail_step:
  assumes I: "sys_inv s" and n: "n = sy_node s x" and f: "ep_fail (nd_ep n) err = (e', fx)"
  shows "sys_inv (apply_fx (set_node s x (n\<lparr>nd_ep := e'\<rparr>)) x fx)"
proof -
  note i = sys_invD [OF I, of x, folded n]
  note no = fail_no_rst [OF f] and tr = fail_transport [OF f i(1)] and inv = fail_inv(1) [OF i(1) f]
  have "ep_state e' = ep_state (nd_ep n)" using fail_simps [OF f] by simp
  then show ?thesis
    by (intro quiet_step [OF I, of _ x "n\<lparr>nd_ep := e'\<rparr>"]) (use n no tr inv in auto)
qed

lemma drop_activation:
  assumes "sys_inv (set_node s x n)"
  shows "sys_inv (set_node s x (n\<lparr>nd_act := None\<rparr>))"
  by (rule quiet_step [OF assms, of _ x "n\<lparr>nd_act := None\<rparr>"]) (use sys_invD(1) [OF assms, of x] in simp_all)

lemma fail_write_set:
  assumes S: "sys_inv (set_node s x m)" and P: "sys_inv (set_node (push s x t f) x m)"
  shows "sys_inv (fail_write s x m t g f sent)"
proof -
  have "sys_inv (fail_write (set_node s x m) x m t g f sent)"
    by (rule fail_write_step [of _ _ _ _ _ m]) (use P S in \<open>simp_all add: set_node_push\<close>)
  moreover have "fail_write (set_node s x m) x m t g f sent = fail_write s x m t g f sent"
    by (auto simp: fail_write_def set_node_def push_def split: prod.split)
  ultimately show ?thesis by simp
qed

theorem sys_step_inv:
  assumes "sys_step True ordered s s'" "sys_inv s"
  shows "sys_inv s'"
  using assms
proof (induction rule: sys_step.induct)
  case (write_call n s x p)
  from sys_invD(1) [OF write_call(3)] write_call show ?case
    by (intro local_step [OF write_call(3,1)]) auto
next
  case (write_local n s x e' pc')
  then show ?case using write_local_step by blast
next
  case (close_write n s x e' f)
  then show ?case using close_write_step by blast
next
  case (send_stale n s x p w "end" f t g)
  from sys_invD(1) [OF send_stale(5)] send_stale show ?case
    by (intro local_step [OF send_stale(5,1)]) auto
next
  case (send_ok n s x p w "end" f t g)
  show ?case by (rule send_ok_step [OF send_ok(5,1-4)]) simp
next
  case (send_fail n s x p w "end" f t g sent)
  let ?m = "n\<lparr>nd_pc := WSend p w end f\<rparr>"
  have P: "sys_inv (set_node (push s x t f) x ?m)"
    by (rule send_ok_step [OF send_fail(5,1-4)]) simp
  have S: "sys_inv (set_node s x ?m)"
    by (rule local_step [OF send_fail(5,1)]) (use sys_invD(1) [OF send_fail(5)] send_fail in auto)
  show ?case by (rule fail_write_set [OF S P])
next
  case (write_return n s x w err)
  from sys_invD(1) [OF write_return(3)] write_return show ?case
    by (intro local_step [OF write_return(3,1)]) auto
next
  case (bind n s x t g retry e' fx)
  then show ?case using bind_step [OF bind(5,1,2,4)] by blast
next
  case (bind_refused n s x t g retry err e' fx)
  then show ?case
    by (intro quiet_step [OF bind_refused(5), of _ x "n\<lparr>nd_ep := e', nd_used := insert t (nd_used n)\<rparr>"])
       (use bind_effects [OF bind_refused(4)] sys_invD(1) [OF bind_refused(5)] in auto)
next
  case (activate_begin n s x t g)
  then show ?case using activate_begin_step by blast
next
  case (activate_send n s x t g f fs)
  then show ?case using activate_send_step by blast
next
  case (activate_fail n s x t g f fs sent)
  let ?m = "n\<lparr>nd_act := None\<rparr>"
  have "sys_inv (set_node (push s x t f) x (n\<lparr>nd_act := Some (t, g, fs)\<rparr>))"
    by (rule activate_send_step [OF activate_fail(3,1,2)])
  from drop_activation [OF this] have P: "sys_inv (set_node (push s x t f) x ?m)" by simp
  have S: "sys_inv (set_node s x ?m)"
    using drop_activation [of s x n] activate_fail(1,3) by (simp add: set_node_def)
  show ?case
    using fail_write_set [OF S P] by simp
next
  case (activate_end n s x t g)
  then show ?case using activate_end_step by blast
next
  case (ack_begin n s x e' out)
  then show ?case using ack_begin_step by blast
next
  case (ack_stale n s x t g f)
  from sys_invD(1) [OF ack_stale(5)] ack_stale show ?case
    by (intro local_step [OF ack_stale(5,1)]) auto
next
  case (ack_send n s x t g f)
  have "sys_inv (push s x t f)"
    using ack_frame_genuine [OF ack_send(5), of x t g f] ack_send(1,2)
    by (intro push_control_step [OF ack_send(5)]) simp_all
  from sys_invD(1) [OF this, of x] local_step [OF this, of n x "nd_ep n" "n\<lparr>nd_ack := None\<rparr>"] ack_send(1)
  show ?case by simp
next
  case (ack_fail n s x t g f sent)
  let ?m = "n\<lparr>nd_ack := None\<rparr>"
  have "sys_inv (push s x t f)"
    using ack_frame_genuine [OF ack_fail(5), of x t g f] ack_fail(1,2)
    by (intro push_control_step [OF ack_fail(5)]) simp_all
  from sys_invD(1) [OF this, of x] local_step [OF this, of n x "nd_ep n" ?m] ack_fail(1)
  have P: "sys_inv (set_node (push s x t f) x ?m)" by simp
  from sys_invD(1) [OF ack_fail(5), of x] local_step [OF ack_fail(5), of n x "nd_ep n" ?m] ack_fail(1)
  have S: "sys_inv (set_node s x ?m)" by simp
  show ?case
    using fail_write_set [OF S P] by simp
next
  case (deliver n s y t f fs g e' fresh go_on fx)
  then show ?case using deliver_step [OF deliver(6,1,2,5) HOL.refl] by simp
next
  case (hand_over n s y t g b err ib)
  from sb_Write_inv [OF sys_invD(1) [OF hand_over(5), of y, folded hand_over(1)] hand_over(4)] show ?case
    by (intro local_step [OF hand_over(5,1)]) auto
next
  case (read_error n s y t g e' fx)
  have "ep_inv e'" using lose_inv [OF _ read_error(4)] sys_invD(1) [OF read_error(5), of y] read_error(1) by simp
  then show ?case
    by (intro lose_step [OF read_error(5,1,4)]) (use lose_transport [OF read_error(4)] in auto)
next
  case (breaks s t)
  have "sys_inv (s\<lparr>sy_broken := insert t (sy_broken s)\<rparr>)" if "sys_inv s" for s t
    by (rule quiet_step [OF that, of _ x "sy_node s x" for x]) (use sys_invD(1) [OF that] in auto)
  then show ?case using breaks by blast
next
  case (drops t s x k)
  note i = sys_invD [OF drops(2), of x]
  show ?case
    by (rule sys_invI [of _ x]) (use i dir_lost [OF i(3) drops(1)] in auto)
next
  case (app_read n s y k bs err e')
  from app_read(2) have "ep_inv e'"
    using ep_step_inv [OF ep_step.app_read] sys_invD(1) [OF app_read(3), of y] app_read(1) by blast
  then show ?case
    using ep_Read_keeps [OF app_read(2)] by (intro local_step [OF app_read(3,1)]) auto
next
  case (app_abort n s y err e' fx)
  then show ?case using fail_step by blast
next
  case (app_close n s y lk e' fx)
  then show ?case using close_step by blast
next
  case (write_deadline n s y d err e')
  have "ep_inv e'"
    using ep_step_inv [OF ep_step.wdeadline [OF write_deadline(2)]] sys_invD(1) [OF write_deadline(3)] write_deadline(1)
    by blast
  then show ?case
    by (intro local_step [OF write_deadline(3,1)])
       (use write_deadline(2) in \<open>auto simp: SetWriteDeadline_def notifyProgress_def split: if_splits\<close>)
next
  case (read_deadline n s y d err e')
  have "ep_inv e'"
    using ep_step_inv [OF ep_step.rdeadline [OF read_deadline(2)]] sys_invD(1) [OF read_deadline(3)] read_deadline(1)
    by blast
  then show ?case
    by (intro local_step [OF read_deadline(3,1)])
       (use read_deadline(2) in \<open>auto simp: SetReadDeadline_def split: prod.splits\<close>)
next
  case (tick s)
  have "sys_inv (s\<lparr>sy_now := Suc (sy_now s)\<rparr>)" if "sys_inv s" for s
    using that by (simp add: sys_inv_def)
  then show ?case using tick by blast
qed

lemma dir_new:
  assumes "NewStreamState i j = Ok a" "NewStreamState i k = Ok b"
    and "NewEndpoint (Some a) = Ok ea" "NewEndpoint (Some b) = Ok eb"
  shows "dir (new_node ea) (new_node eb) (\<lambda>_. []) {}"
proof -
  have e: "ep_state ea = a" "ep_state eb = b" "\<not> ep_ready ea"
    using assms(3,4) by (auto simp: NewEndpoint_def split: if_splits)
  have "exp_of b = 0" using assms(2) by (auto simp: NewStreamState_def exp_of_def split: if_splits)
  with link_new [OF assms(1,2)] e show ?thesis
    by (simp add: dir_def flight_inv_def act_inv_def new_node_def)
qed

lemma sys_reach_inv: "sys_reach True ordered s \<Longrightarrow> sys_inv s"
proof (induction rule: sys_reach.induct)
  case (init i n a m b ea eb)
  show ?case
    by (rule sys_invI [of _ True])
       (use dir_new [OF init(1,2,3,4)] dir_new [OF init(2,1,4,3)] ep_inv_new [OF init(3)]
          ep_inv_new [OF init(4)] in \<open>simp_all add: new_sys_def new_node_def\<close>)
next
  case (step s s')
  then show ?case using sys_step_inv by blast
qed

section \<open>What the application reads\<close>

text \<open>\<open>order_inv\<close>: with one frame handled at a time, the application has read, in order, what was
  accepted, up to what is buffered or still held by the one read loop that handled the last frame.\<close>

definition held :: "(nat \<rightharpoonup> u64 \<times> byte list) \<Rightarrow> byte list \<Rightarrow> bool" where
  "held rd b \<longleftrightarrow> (\<exists>t. \<forall>u g c. rd u = Some (g, c) \<longrightarrow> c = (if u = t then b else [])) \<and>
     (b \<noteq> [] \<longrightarrow> (\<exists>t g. rd t = Some (g, b)))"

definition read_inv :: "node \<Rightarrow> bool" where
  "read_inv n \<longleftrightarrow>
     dom (nd_readers n) \<subseteq> nd_used n \<and> prefix (nd_app n @ sb_buf (ep_inbound (nd_ep n))) (nd_accepted n) \<and>
     (sb_closed (ep_inbound (nd_ep n)) \<or>
      (\<exists>b. held (nd_readers n) b \<and> nd_app n @ sb_buf (ep_inbound (nd_ep n)) @ b = nd_accepted n))"

lemma held_nil: "nothing_held n \<Longrightarrow> held (nd_readers n) []"
  unfolding held_def nothing_held_def by (metis (full_types))

lemma held_nilD: "nothing_held n \<Longrightarrow> held (nd_readers n) b \<Longrightarrow> b = []"
  unfolding held_def nothing_held_def by blast

lemma held_update: "nothing_held n \<Longrightarrow> held ((nd_readers n)(t \<mapsto> (g, b))) b"
  unfolding held_def nothing_held_def by (auto intro!: exI [of _ t])

lemma held_the: "held rd b \<Longrightarrow> rd t = Some (g, c) \<Longrightarrow> c \<noteq> [] \<Longrightarrow> c = b"
  unfolding held_def by metis

lemma held_rest:
  assumes "held rd b" "rd t = Some (g, b)" "b \<noteq> []" "x = None \<or> x = Some (g, [])"
  shows "held (rd(t := x)) []"
proof -
  from assms(1) obtain v where v: "\<forall>u h c. rd u = Some (h, c) \<longrightarrow> c = (if u = v then b else [])"
    unfolding held_def by blast
  with assms(2,3) have "v = t" by metis
  with v assms(4) show ?thesis unfolding held_def by (auto split: if_splits; metis)
qed

lemma held_new: "held rd b \<Longrightarrow> rd t = None \<Longrightarrow> held (rd(t \<mapsto> (g, []))) b"
  unfolding held_def
  by (smt (verit) fun_upd_apply option.inject option.distinct(1) prod.inject)

lemma held_drop: "held rd b \<Longrightarrow> rd t = Some (g, []) \<Longrightarrow> held (rd(t := None)) b"
  unfolding held_def
  by (smt (verit) fun_upd_apply option.inject option.distinct(1) prod.inject)

lemma read_inv_same:
  assumes "read_inv n" "nd_readers n' = nd_readers n" "nd_used n \<subseteq> nd_used n'" "nd_app n' = nd_app n"
    "nd_accepted n' = nd_accepted n" "sb_buf (ep_inbound (nd_ep n')) = sb_buf (ep_inbound (nd_ep n))"
    "sb_closed (ep_inbound (nd_ep n)) \<longrightarrow> sb_closed (ep_inbound (nd_ep n'))"
  shows "read_inv n'"
  using assms(1,3,7) unfolding read_inv_def assms(2,4-6) by blast

lemma read_inv_closed:
  assumes "read_inv n" "dom (nd_readers n') \<subseteq> nd_used n'" "nd_app n' = nd_app n"
    "prefix (nd_accepted n) (nd_accepted n')" "sb_buf (ep_inbound (nd_ep n')) = sb_buf (ep_inbound (nd_ep n))"
    "sb_closed (ep_inbound (nd_ep n'))"
  shows "read_inv n'"
  using assms prefix_order.order_trans unfolding read_inv_def by fastforce

lemma read_frame_inbound:
  assumes "read_frame e f = (e', fresh, go_on, fx)"
  shows "sb_buf (ep_inbound e') = sb_buf (ep_inbound e) \<and>
    (sb_closed (ep_inbound e) \<longrightarrow> sb_closed (ep_inbound e')) \<and>
    (\<not> sb_closed (ep_inbound e') \<longrightarrow> go_on \<or> ep_closed e) \<and> (\<not> go_on \<longrightarrow> fresh = [])"
  using assms
  by (auto simp: read_frame_def ep_fail_def Let_def notifyProgress_def queueAck_def split: prod.splits option.splits if_splits)

lemma read_inv_deliver:
  assumes I: "read_inv n" and r: "nd_readers n t = Some (g, [])" and none: "nothing_held n"
    and rd: "read_frame (nd_ep n) f = (e', fresh, go_on, fx)" and inv: "ep_inv (nd_ep n)"
    and n': "n' = n\<lparr>nd_ep := e', nd_readers := (nd_readers n)(t := if go_on then Some (g, fresh) else None),
             nd_accepted := nd_accepted n @ fresh\<rparr>"
  shows "read_inv n'"
proof -
  note f = read_frame_inbound [OF rd]
  have d: "dom (nd_readers n') \<subseteq> nd_used n'" using I r by (auto simp: read_inv_def n' split: if_splits)
  show ?thesis
  proof (cases "sb_closed (ep_inbound e')")
    case True
    with f show ?thesis by (intro read_inv_closed [OF I d]) (simp_all add: n')
  next
    case False
    with f inv have go: go_on by (auto simp: ep_inv_def)
    have "\<not> sb_closed (ep_inbound (nd_ep n))" using f False by blast
    with I obtain b where "held (nd_readers n) b"
      "nd_app n @ sb_buf (ep_inbound (nd_ep n)) @ b = nd_accepted n"
      unfolding read_inv_def by blast
    with held_nilD [OF none] have eq: "nd_app n @ sb_buf (ep_inbound (nd_ep n)) = nd_accepted n"
      by (metis append_Nil2)
    have "held (nd_readers n') fresh" using held_update [OF none] go by (simp add: n')
    with go eq f d show ?thesis by (auto simp: read_inv_def n')
  qed
qed

lemma read_inv_hand_over:
  assumes I: "read_inv n" and r: "nd_readers n t = Some (g, b)" and b: "b \<noteq> []"
    and w: "sb_Write (ep_inbound (nd_ep n)) b = Done (err, ib)" and inv: "ep_inv (nd_ep n)"
    and n': "n' = n\<lparr>nd_ep := (nd_ep n)\<lparr>ep_inbound := ib\<rparr>,
          nd_readers := (nd_readers n)(t := if err = None then Some (g, []) else None)\<rparr>"
  shows "read_inv n'"
proof -
  have d: "dom (nd_readers n') \<subseteq> nd_used n'" using I r by (auto simp: read_inv_def n' split: if_splits)
  show ?thesis
  proof (cases "sb_closed (ep_inbound (nd_ep n))")
    case True
    with w b have "ib = ep_inbound (nd_ep n)" by (auto simp: sb_Write_def)
    with True show ?thesis by (intro read_inv_closed [OF I d]) (simp_all add: n')
  next
    case False
    with w b have e: "err = None" "sb_buf ib = sb_buf (ep_inbound (nd_ep n)) @ b"
      by (auto simp: sb_Write_def split: if_splits)
    from I False obtain c where c: "held (nd_readers n) c"
      "nd_app n @ sb_buf (ep_inbound (nd_ep n)) @ c = nd_accepted n"
      unfolding read_inv_def by blast
    have "b = c" using held_the [OF c(1) r b] .
    with c r b have "held (nd_readers n') []" "nd_app n' @ sb_buf (ep_inbound (nd_ep n')) @ [] = nd_accepted n'"
      using held_rest [of "nd_readers n" b t g "Some (g, [])"] e by (simp_all add: n')
    with d show ?thesis unfolding read_inv_def by (metis append_Nil2 prefix_order.order_refl)
  qed
qed

lemma read_inv_bind:
  assumes I: "read_inv n" and t: "t \<notin> nd_used n"
    and b: "ep_bind (nd_ep n) (Some t) g retry = (err, e', fx)"
    and n': "n' = n\<lparr>nd_ep := e', nd_spawn := sp,
          nd_readers := (nd_readers n)(t \<mapsto> (g, [])), nd_used := insert t (nd_used n)\<rparr>"
  shows "read_inv n'"
proof -
  have "ep_inbound e' = ep_inbound (nd_ep n)"
    using b by (auto simp: ep_bind_def prune_generations_def Let_def split: if_splits option.splits)
  moreover have "nd_readers n t = None" using I t unfolding read_inv_def by blast
  ultimately show ?thesis using I held_new [of "nd_readers n"] unfolding read_inv_def n' by auto
qed

lemma read_inv_read_error:
  assumes I: "read_inv n" and r: "nd_readers n t = Some (g, [])" and e': "ep_inbound e' = ep_inbound (nd_ep n)"
    and n': "n' = n\<lparr>nd_ep := e', nd_readers := (nd_readers n)(t := None)\<rparr>"
  shows "read_inv n'"
  using I held_drop [of "nd_readers n" _ t g] r e' unfolding read_inv_def n' by auto

lemma read_inv_app:
  assumes I: "read_inv n" and r: "ep_Read now (nd_ep n) k = Done ((bs, err), e')"
    and n': "n' = n\<lparr>nd_ep := e', nd_app := nd_app n @ bs\<rparr>"
  shows "read_inv n'"
proof -
  from r obtain b where b: "sb_Read now (ep_inbound (nd_ep n)) k = Done ((bs, err), b)"
    "e' = (nd_ep n)\<lparr>ep_inbound := b\<rparr>"
    by (auto simp: ep_Read_def split: attempt.splits)
  from I sb_Read_prefix [OF b(1)] b(2) show ?thesis unfolding read_inv_def n' by simp
qed

lemma fail_inbound:
  assumes "ep_fail e err = (e', fx)"
  shows "sb_buf (ep_inbound e') = sb_buf (ep_inbound e)" "sb_closed (ep_inbound e) \<longrightarrow> sb_closed (ep_inbound e')"
  using assms by (auto simp: ep_fail_def Let_def notifyProgress_def split: if_splits)

lemma Close_inbound:
  assumes "ep_Close e lk = (e', fx)"
  shows "sb_buf (ep_inbound e') = sb_buf (ep_inbound e)" "sb_closed (ep_inbound e) \<longrightarrow> sb_closed (ep_inbound e')"
  using assms by (auto simp: ep_Close_def Let_def notifyProgress_def split: if_splits)

lemma fail_write_read_inv:
  assumes "\<forall>y. read_inv (sy_node s y)" "n = sy_node s x" "ep_inbound (nd_ep m) = ep_inbound (nd_ep n)"
    "nd_readers m = nd_readers n" "nd_used m = nd_used n" "nd_app m = nd_app n" "nd_accepted m = nd_accepted n"
  shows "read_inv (sy_node (fail_write s x m t g f sent) y)"
proof -
  obtain e' fx where l: "loseTransport (nd_ep m) (Some t) g TransportError = (e', fx)"
    by (metis surj_pair)
  have "read_inv (m\<lparr>nd_ep := e'\<rparr>)"
  proof (rule read_inv_same)
    show "read_inv n" using assms(1,2) by simp
  qed (use lose_current_only [OF l] assms(3-7) in simp_all)
  then show ?thesis using assms(1) by (auto simp: fail_write_def l)
qed

lemma read_inv_node:
  assumes "\<forall>y. read_inv (sy_node s y)" "n = sy_node s x" "sy_node s' = (sy_node s)(x := n')"
    and "nd_readers n' = nd_readers n" "nd_used n \<subseteq> nd_used n'" "nd_app n' = nd_app n"
    "nd_accepted n' = nd_accepted n" "sb_buf (ep_inbound (nd_ep n')) = sb_buf (ep_inbound (nd_ep n))"
    "sb_closed (ep_inbound (nd_ep n)) \<longrightarrow> sb_closed (ep_inbound (nd_ep n'))"
  shows "read_inv (sy_node s' z)"
  using assms(1-3) read_inv_same [of n n', OF _ assms(4-9)] by simp

lemma moved:
  "sy_node (set_node s x n) = (sy_node s)(x := n)"
  "sy_node (set_node (push s x t f) x n) = (sy_node s)(x := n)"
  "sy_node (apply_fx (set_node s x n) x fx) = (sy_node s)(x := n)"
  by simp_all

theorem read_inv_step:
  assumes "sys_step timely True s s'" "\<forall>x. ep_inv (nd_ep (sy_node s x))" "\<forall>x. read_inv (sy_node s x)"
  shows "read_inv (sy_node s' z)"
  using assms
proof (induction rule: sys_step.induct)
  case (write_call n s x p)
  show ?case by (rule read_inv_node [OF write_call(4,1) moved(1)]) simp_all
next
  case (write_local n s x e' pc')
  from write_step_keeps [OF write_local(2)] have "ep_inbound e' = ep_inbound (nd_ep n)" by auto
  then show ?case by (intro read_inv_node [OF write_local(5,1) moved(1)]) simp_all
next
  case (close_write n s x e' f)
  then have "ep_inbound e' = ep_inbound (nd_ep n)" by (auto simp: CloseWrite_begin_def split: sum.splits)
  then show ?case by (intro read_inv_node [OF close_write(5,1) moved(1)]) simp_all
next
  case (send_stale n s x p w "end" f t g)
  show ?case by (rule read_inv_node [OF send_stale(6,1) moved(1)]) simp_all
next
  case (send_ok n s x p w "end" f t g)
  show ?case by (rule read_inv_node [OF send_ok(6,1) moved(2)]) simp_all
next
  case (send_fail n s x p w "end" f t g sent)
  show ?case by (rule fail_write_read_inv [OF send_fail(6,1)]) simp_all
next
  case (write_return n s x w err)
  show ?case by (rule read_inv_node [OF write_return(4,1) moved(1)]) simp_all
next
  case (bind n s x t g retry e' fx)
  with read_inv_bind [OF _ bind(3,4) HOL.refl] show ?case by simp
next
  case (bind_refused n s x t g retry err e' fx)
  show ?case
    by (rule read_inv_node [OF bind_refused(6,1) moved(3)]) (use bind_effects [OF bind_refused(4)] in auto)
next
  case (activate_begin n s x t g)
  show ?case by (rule read_inv_node [OF activate_begin(5,1) moved(1)]) simp_all
next
  case (activate_send n s x t g f fs)
  show ?case by (rule read_inv_node [OF activate_send(4,1) moved(2)]) simp_all
next
  case (activate_fail n s x t g f fs sent)
  show ?case by (rule fail_write_read_inv [OF activate_fail(4,1)]) simp_all
next
  case (activate_end n s x t g)
  show ?case by (rule read_inv_node [OF activate_end(4,1) moved(1)]) (simp_all add: activate_ready_def)
next
  case (ack_begin n s x e' out)
  then have "ep_inbound e' = ep_inbound (nd_ep n)"
    by (auto simp: ack_take_def Let_def AckFrame_def deref_def split: if_splits option.splits)
  then show ?case by (intro read_inv_node [OF ack_begin(5,1) moved(1)]) simp_all
next
  case (ack_stale n s x t g f)
  show ?case by (rule read_inv_node [OF ack_stale(6,1) moved(1)]) simp_all
next
  case (ack_send n s x t g f)
  show ?case by (rule read_inv_node [OF ack_send(6,1) moved(2)]) simp_all
next
  case (ack_fail n s x t g f sent)
  show ?case by (rule fail_write_read_inv [OF ack_fail(6,1)]) simp_all
next
  case (deliver n s y t f fs g e' fresh go_on fx)
  with read_inv_deliver [OF _ deliver(3) _ deliver(5) _ HOL.refl] show ?case by simp
next
  case (hand_over n s y t g b err ib)
  with read_inv_hand_over [OF _ hand_over(2-4) _ HOL.refl] show ?case by simp
next
  case (read_error n s y t g e' fx)
  with read_inv_read_error [OF _ read_error(2) _ HOL.refl, of e'] lose_current_only [OF read_error(4)]
  show ?case by simp
next
  case (app_read n s y k bs err e')
  with read_inv_app [OF _ app_read(2) HOL.refl] show ?case by simp
next
  case (app_abort n s y err e' fx)
  show ?case by (rule read_inv_node [OF app_abort(4,1) moved(3)]) (use fail_inbound [OF app_abort(2)] in simp_all)
next
  case (app_close n s y lk e' fx)
  show ?case by (rule read_inv_node [OF app_close(4,1) moved(3)]) (use Close_inbound [OF app_close(2)] in simp_all)
next
  case (write_deadline n s y d err e')
  then have "ep_inbound e' = ep_inbound (nd_ep n)"
    by (auto simp: SetWriteDeadline_def notifyProgress_def split: if_splits)
  then show ?case by (intro read_inv_node [OF write_deadline(4,1) moved(1)]) simp_all
next
  case (read_deadline n s y d err e')
  then have "sb_buf (ep_inbound e') = sb_buf (ep_inbound (nd_ep n))"
    "sb_closed (ep_inbound e') = sb_closed (ep_inbound (nd_ep n))"
    by (auto simp: SetReadDeadline_def sb_SetDeadline_def split: if_splits)
  then show ?case by (intro read_inv_node [OF read_deadline(4,1) moved(1)]) simp_all
qed simp_all

lemma sys_reach_read_inv:
  assumes "sys_reach True True s"
  shows "read_inv (sy_node s x)"
  using assms
proof (induction arbitrary: x rule: sys_reach.induct)
  case (init i n a m b ea eb)
  then show ?case
    by (auto simp: new_sys_def new_node_def read_inv_def held_def NewEndpoint_def newStreamBuffer_def
        split: if_splits)
next
  case (step s s')
  then show ?case using read_inv_step [OF step(2)] sys_reach_inv [OF step(1)]
    by (auto simp: sys_inv_def)
qed

section \<open>Consequences\<close>

text \<open>What the peer accepted is what was written so far, cut where the peer's counter stands.\<close>

lemma reach_accepted:
  assumes "sys_reach True ordered s"
  shows "prefix (nd_accepted (sy_node s y)) (nd_sent (sy_node s (\<not> y)))"
proof -
  have "dir (sy_node s (\<not> y)) (sy_node s y) (sy_chan s (\<not> y)) (sy_broken s)"
    by (rule sys_invD(4) [OF sys_reach_inv [OF assms]])
  then have "nd_accepted (sy_node s y) =
      take (exp_of (ep_state (nd_ep (sy_node s y)))) (nd_sent (sy_node s (\<not> y)))"
    by (simp add: dir_def)
  then show ?thesis by (simp add: take_is_prefix)
qed

text \<open>No frame on any transport, old or new, is ever rejected.\<close>

lemma reach_no_error:
  assumes "sys_reach True ordered s" "sy_chan s (\<not> y) t = f # fs"
  shows "\<exists>fresh ack s'. handleBorrowed (ep_state (nd_ep (sy_node s y))) f = ((fresh, ack, None), s')"
proof -
  note i = sys_invD [OF sys_reach_inv [OF assms(1)], of y]
  note fp = dirD(2) [OF i(4), of f t]
  show ?thesis
    using handle_from_peer [OF dirD(1) [OF i(4)] dirD(1) [OF i(3)] fp] dirD(5) [OF i(4), of t] assms(2)
    by fastforce
qed

text \<open>A live, ready transport carries everything that is missing: when it has run dry and no write is
  pending, the peer has every byte.\<close>

lemma reach_drained:
  assumes "sys_reach True ordered s" and n: "n = sy_node s x"
    and ready: "ep_ready (nd_ep n)" "ep_transport (nd_ep n) = Some t" "t \<notin> sy_broken s"
    and idle: "pc_frame (nd_pc n) = []" "sy_chan s x t = []"
  shows "nd_accepted (sy_node s (\<not> x)) = nd_sent n"
proof -
  have D: "dir n (sy_node s (\<not> x)) (sy_chan s x) (sy_broken s)"
    using sys_invD(3) [OF sys_reach_inv [OF assms(1)]] n by simp
  then have "exp_of (ep_state (nd_ep (sy_node s (\<not> x)))) = length (nd_sent n)"
    using ready idle by (auto simp: dir_def act_inv_def)
  with D show ?thesis by (simp add: dir_def)
qed

text \<open>With one frame handled at a time, the application reads exactly what was written, in order.\<close>

lemma reach_app_prefix:
  assumes "sys_reach True True s"
  shows "prefix (nd_app (sy_node s y)) (nd_sent (sy_node s (\<not> y)))"
proof -
  have "prefix (nd_app (sy_node s y)) (nd_accepted (sy_node s y))"
    using sys_reach_read_inv [OF assms, of y] by (auto simp: read_inv_def dest: append_prefixD)
  with reach_accepted [OF assms] show ?thesis by (metis prefix_order.order_trans)
qed

end
