(* ===== verification/Resume_Runs.thy ===== *)
theory Resume_Runs
  imports Resume_System
begin

text \<open>
  Schedules of the two-endpoint system as data: \<open>act\<close> performs one named step, and every step it
  performs is one of \<^const>\<open>sys_step\<close>. Concrete runs evaluate in the kernel; they show that the
  hypotheses of the system theorems hold of real executions, and reach the states in which
  \<open>internal/p2p/resume/endpoint.go\<close> loses or reorders bytes.
\<close>

section \<open>Schedules\<close>

datatype action =
    Write side "byte list" | Local side | SendIt side | Return side
  | BindT side nat u64 | ActBegin side nat | ActSend side | ActEnd side
  | Deliver side nat | HandOver side nat | AppRead side nat | Deadline side "nat option" | Tick
  | Breaks nat | Drops side nat nat | ReadError side nat

definition holding :: "node \<Rightarrow> bool" where
  "holding n \<longleftrightarrow>
     (\<exists>u\<in>nd_used n. case nd_readers n u of Some (_, b) \<Rightarrow> b \<noteq> [] | None \<Rightarrow> False)"

fun act :: "bool \<Rightarrow> bool \<Rightarrow> sys \<Rightarrow> action \<Rightarrow> sys option" where
  "act tm od s (Write x p) =
     (let n = sy_node s x in
      if nd_pc n = WIdle then Some (set_node s x (n\<lparr>nd_pc := WLoop p 0\<rparr>)) else None)"
| "act tm od s (Local x) =
     (let n = sy_node s x in
      case write_step (sy_now s) (nd_ep n) (nd_pc n) of
        None \<Rightarrow> None
      | Some (e', pc') \<Rightarrow>
          if tm \<and> gives_up (nd_pc n) pc' then None
          else Some (set_node s x
            (n\<lparr>nd_ep := e', nd_pc := pc', nd_sent := nd_sent n @ retained (nd_pc n) pc'\<rparr>)))"
| "act tm od s (SendIt x) =
     (let n = sy_node s x in
      case nd_pc n of
        WLocked p w end f t g \<Rightarrow>
          if nd_act n = None \<and> may_send (nd_ep n) t g
          then Some (set_node (push s x t f) x (n\<lparr>nd_pc := WLoop p end\<rparr>)) else None
      | _ \<Rightarrow> None)"
| "act tm od s (Return x) =
     (let n = sy_node s x in
      case nd_pc n of WDone w err \<Rightarrow> Some (set_node s x (n\<lparr>nd_pc := WIdle\<rparr>)) | _ \<Rightarrow> None)"
| "act tm od s (BindT x t g) =
     (let n = sy_node s x in
      if nd_act n = None \<and> t \<notin> nd_used n then
        (case ep_bind (nd_ep n) (Some t) g False of
           (None, e', fx) \<Rightarrow>
             Some (apply_fx (set_node s x (n\<lparr>nd_ep := e', nd_spawn := (nd_spawn n)(t \<mapsto> g),
               nd_readers := (nd_readers n)(t \<mapsto> (g, [])), nd_used := insert t (nd_used n)\<rparr>)) x fx)
         | _ \<Rightarrow> None)
      else None)"
| "act tm od s (ActBegin x t) =
     (let n = sy_node s x in
      case nd_spawn n t of
        Some g \<Rightarrow>
          if nd_act n = None then
            Some (set_node s x (n\<lparr>nd_spawn := (nd_spawn n)(t := None),
              nd_act := map_option (\<lambda>fs. (t, g, fs)) (activate_frames (nd_ep n) t g)\<rparr>))
          else None
      | None \<Rightarrow> None)"
| "act tm od s (ActSend x) =
     (let n = sy_node s x in
      case nd_act n of
        Some (t, g, f # fs) \<Rightarrow> Some (set_node (push s x t f) x (n\<lparr>nd_act := Some (t, g, fs)\<rparr>))
      | _ \<Rightarrow> None)"
| "act tm od s (ActEnd x) =
     (let n = sy_node s x in
      case nd_act n of
        Some (t, g, []) \<Rightarrow>
          Some (set_node s x (n\<lparr>nd_ep := activate_ready (nd_ep n) t g, nd_act := None\<rparr>))
      | _ \<Rightarrow> None)"
| "act tm od s (Deliver y t) =
     (let n = sy_node s y in
      case sy_chan s (\<not> y) t of
        f # fs \<Rightarrow>
          (case nd_readers n t of
             Some (g, []) \<Rightarrow>
               if od \<and> holding n then None
               else (case read_frame (nd_ep n) f of (e', fresh, go_on, fx) \<Rightarrow>
                 Some (apply_fx (set_node
                   (s\<lparr>sy_chan := (sy_chan s)(\<not> y := (sy_chan s (\<not> y))(t := fs))\<rparr>) y
                   (n\<lparr>nd_ep := e', nd_readers := (nd_readers n)(t := if go_on then Some (g, fresh) else None),
                      nd_accepted := nd_accepted n @ fresh\<rparr>)) y fx))
           | _ \<Rightarrow> None)
      | [] \<Rightarrow> None)"
| "act tm od s (HandOver y t) =
     (let n = sy_node s y in
      case nd_readers n t of
        Some (g, b) \<Rightarrow>
          if b = [] then None
          else (case sb_Write (ep_inbound (nd_ep n)) b of
            Block \<Rightarrow> None
          | Done (err, ib) \<Rightarrow>
              Some (set_node s y (n\<lparr>nd_ep := (nd_ep n)\<lparr>ep_inbound := ib\<rparr>,
                nd_readers := (nd_readers n)(t := if err = None then Some (g, []) else None)\<rparr>)))
      | None \<Rightarrow> None)"
| "act tm od s (AppRead y k) =
     (let n = sy_node s y in
      case ep_Read (sy_now s) (nd_ep n) k of
        Block \<Rightarrow> None
      | Done ((bs, err), e') \<Rightarrow> Some (set_node s y (n\<lparr>nd_ep := e', nd_app := nd_app n @ bs\<rparr>)))"
| "act tm od s (Deadline x d) =
     (let n = sy_node s x in
      Some (set_node s x (n\<lparr>nd_ep := snd (SetWriteDeadline (nd_ep n) d)\<rparr>)))"
| "act tm od s (Breaks t) = Some (s\<lparr>sy_broken := insert t (sy_broken s)\<rparr>)"
| "act tm od s (Drops x t k) =
     (if t \<in> sy_broken s
      then Some (s\<lparr>sy_chan := (sy_chan s)(x := (sy_chan s x)(t := take k (sy_chan s x t)))\<rparr>)
      else None)"
| "act tm od s (ReadError y t) =
     (let n = sy_node s y in
      case nd_readers n t of
        Some (g, []) \<Rightarrow>
          if t \<in> sy_broken s then
            (case loseTransport (nd_ep n) (Some t) g TransportError of (e', fx) \<Rightarrow>
               Some (apply_fx (set_node s y (n\<lparr>nd_ep := e', nd_readers := (nd_readers n)(t := None)\<rparr>)) y fx))
          else None
      | _ \<Rightarrow> None)"
| "act tm od s Tick = Some (s\<lparr>sy_now := Suc (sy_now s)\<rparr>)"

text \<open>Read loops exist only for transports that were bound.\<close>

definition readers_used :: "sys \<Rightarrow> bool" where
  "readers_used s \<longleftrightarrow> (\<forall>x. dom (nd_readers (sy_node s x)) \<subseteq> nd_used (sy_node s x))"

lemma act_sys_step:
  assumes "act tm od s a = Some s'" "readers_used s"
  shows "sys_step tm od s s'"
proof (cases a)
  case (Write x p)
  with assms show ?thesis by (auto simp: Let_def intro: write_call split: if_splits)
next
  case (Local x)
  with assms show ?thesis
    by (auto simp: Let_def intro!: write_local split: if_splits option.splits)
next
  case (SendIt x)
  with assms show ?thesis
    by (auto simp: Let_def intro!: send_ok split: if_splits write_pc.splits)
next
  case (Return x)
  with assms show ?thesis by (auto simp: Let_def intro: write_return split: write_pc.splits)
next
  case (BindT x t g)
  with assms show ?thesis
    by (auto simp: Let_def intro!: bind split: if_splits option.splits prod.splits)
next
  case (ActBegin x t)
  with assms show ?thesis
    by (auto simp: Let_def intro!: activate_begin split: if_splits option.splits)
next
  case (ActSend x)
  with assms show ?thesis
    by (auto simp: Let_def intro!: activate_send split: option.splits list.splits)
next
  case (ActEnd x)
  with assms show ?thesis
    by (auto simp: Let_def intro!: activate_end split: option.splits list.splits)
next
  case (Deliver y t)
  then obtain f fs g where d: "sy_chan s (\<not> y) t = f # fs" "nd_readers (sy_node s y) t = Some (g, [])"
    "od \<longrightarrow> \<not> holding (sy_node s y)"
    using assms(1) by (auto simp: Let_def split: list.splits option.splits if_splits)
  have held: "od \<longrightarrow> nothing_held (sy_node s y)"
  proof (intro impI)
    assume od
    with d(3) have "\<And>u g b. u \<in> nd_used (sy_node s y) \<Longrightarrow> nd_readers (sy_node s y) u = Some (g, b) \<Longrightarrow> b = []"
      unfolding holding_def by fastforce
    moreover have "\<And>u g b. nd_readers (sy_node s y) u = Some (g, b) \<Longrightarrow> u \<in> nd_used (sy_node s y)"
      using assms(2) unfolding readers_used_def by blast
    ultimately show "nothing_held (sy_node s y)" unfolding nothing_held_def by blast
  qed
  obtain e' fresh go_on fx where r: "read_frame (nd_ep (sy_node s y)) f = (e', fresh, go_on, fx)"
    by (metis prod_cases4)
  from assms(1) Deliver d r have s': "s' = apply_fx (set_node
         (s\<lparr>sy_chan := (sy_chan s)(\<not> y := (sy_chan s (\<not> y))(t := fs))\<rparr>) y
         ((sy_node s y)\<lparr>nd_ep := e', nd_readers := (nd_readers (sy_node s y))(t := if go_on then Some (g, fresh) else None),
            nd_accepted := nd_accepted (sy_node s y) @ fresh\<rparr>)) y fx"
    by (simp add: Let_def split: if_splits)
  show ?thesis unfolding s' by (rule deliver [OF HOL.refl d(1,2) held r])
next
  case (HandOver y t)
  with assms show ?thesis
    by (auto simp: Let_def intro!: hand_over split: if_splits option.splits attempt.splits)
next
  case (AppRead y k)
  with assms show ?thesis
    by (auto simp: Let_def intro!: app_read split: attempt.splits)
next
  case (Deadline x d)
  with assms show ?thesis
    by (auto simp: Let_def intro!: write_deadline [OF HOL.refl prod.collapse [symmetric]])
next
  case (Breaks t)
  with assms show ?thesis by (auto intro: breaks)
next
  case (Drops x t k)
  with assms show ?thesis by (auto intro: drops split: if_splits)
next
  case (ReadError y t)
  with assms show ?thesis
    by (auto simp: Let_def intro!: read_error split: if_splits option.splits list.splits prod.splits)
next
  case Tick
  with assms show ?thesis by (auto intro: tick)
qed

lemma act_readers_used:
  assumes "act tm od s a = Some s'" "readers_used s"
  shows "readers_used s'"
  using assms
  by (cases a; auto simp: Let_def readers_used_def split: if_splits option.splits list.splits
      write_pc.splits prod.splits attempt.splits; blast)

fun run :: "bool \<Rightarrow> bool \<Rightarrow> sys \<Rightarrow> action list \<Rightarrow> sys option" where
  "run tm od s [] = Some s"
| "run tm od s (a # as) = (case act tm od s a of None \<Rightarrow> None | Some s' \<Rightarrow> run tm od s' as)"

lemma run_reach:
  "run tm od s as = Some s' \<Longrightarrow> sys_reach tm od s \<Longrightarrow> readers_used s \<Longrightarrow> sys_reach tm od s'"
proof (induction as arbitrary: s)
  case Nil
  then show ?case by simp
next
  case (Cons a as)
  then obtain s1 where s1: "act tm od s a = Some s1" "run tm od s1 as = Some s'"
    by (auto split: option.splits)
  show ?case
    by (rule Cons.IH [OF s1(2) sys_reach.step [OF Cons.prems(2) act_sys_step [OF s1(1) Cons.prems(3)]]
        act_readers_used [OF s1(1) Cons.prems(3)]])
qed

text \<open>A pair of endpoints of one stream, built by the code's constructors.\<close>

definition demo_identity :: identity where
  "demo_identity = \<lparr>id_ID = 1 # replicate 15 0, id_Token = replicate 31 0 @ [7]\<rparr>"

definition demo_end :: "endpoint option" where
  "demo_end =
     (case NewStreamState demo_identity 65536 of
        Inl e \<Rightarrow> None
      | Inr s \<Rightarrow> (case NewEndpoint (Some s) of Inl e \<Rightarrow> None | Inr e \<Rightarrow> Some e))"

definition demo_start :: sys where
  "demo_start = new_sys (the demo_end) (the demo_end)"

lemma demo_valid: "identity_Valid demo_identity"
  by code_simp

lemma demo_reach: "sys_reach tm od demo_start" "readers_used demo_start"
proof -
  obtain a e where a: "NewStreamState demo_identity 65536 = Ok a" "NewEndpoint (Some a) = Ok e"
    "demo_end = Some e"
    using demo_valid by (simp add: demo_end_def NewStreamState_def NewEndpoint_def)
  show "sys_reach tm od demo_start"
    unfolding demo_start_def a(3) option.sel by (rule sys_reach.init [OF a(1) a(1) a(2) a(2)])
  show "readers_used demo_start"
    by (simp add: readers_used_def demo_start_def new_sys_def new_node_def)
qed


lemma demo_end_eq: "demo_end = Some
   \<lparr>ep_state = \<lparr>ss_identity = demo_identity, ss_send = NewReplayBuffer 65536,
                ss_receive = \<lparr>rc_expected = 0\<rparr>, ss_localFIN = False, ss_localFINAck = False,
                ss_remoteFIN = False\<rparr>,
    ep_inbound = newStreamBuffer 524288, ep_transport = None, ep_generation = 0, ep_ready = False,
    ep_closed = False, ep_writeDeadline = None, ep_genDone = Map.empty, ep_genClosed = Map.empty,
    ep_losses = [], ep_progress = False, ep_acks = False, ep_done = False\<rparr>"
  using demo_valid by (simp add: demo_end_def NewStreamState_def NewEndpoint_def)

text \<open>Everything a run unfolds; the encoded frames stay symbolic, nothing inspects them.\<close>

lemmas run_eval = demo_start_def demo_end_eq new_sys_def new_node_def NewReplayBuffer_def
  newStreamBuffer_def ep_bind_def closeGenerationLocked_def prune_generations_def Let_def
  activate_ready_def activate_frames_def is_current_def ReplayFrames_def receiveState_def
  snapshotLocked_def SetWriteDeadline_def notifyProgress_def queueAck_def checkWriteDeadline_def
  waitTransport_def waitProgress_def dataRetained_def appendRetainedLocked_def chunk_def
  chunk_end_def MaxPayload_def deadlineExpired_def gives_up_def retained_def may_send_def
  genClosed_def apply_fx_def push_def read_frame_def handleBorrowed_def receive_frame_def
  unknown_flags_def acceptBorrowedLocked_def ep_fail_def close_effects_def sb_CloseWithError_def
  FrameData_def FrameFIN_def FrameAck_def FrameRST_def FlagFINAck_def ackLocked_def set_node_def
  sb_Write_def sb_Read_def ep_Read_def holding_def loseTransport_def reportLoss_def

text \<open>A state reached by a run, with what is true of it.\<close>

lemma run_witness:
  assumes "case run tm od demo_start as of None \<Rightarrow> False | Some s \<Rightarrow> P s"
  obtains s where "sys_reach tm od s" "P s"
proof (cases "run tm od demo_start as")
  case None
  with assms(1) show ?thesis by simp
next
  case (Some s)
  with assms(1) have "P s" by simp
  with run_reach [OF Some demo_reach] that show ?thesis by blast
qed

definition resumed_run :: "action list" where
  "resumed_run =
     [BindT True 1 1, BindT False 1 1, ActBegin True 1, ActEnd True,
      Write True [10, 11], Local True, Local True, Local True, SendIt True,
      Breaks 1, Drops True 1 0, ReadError True 1,
      BindT True 2 2, BindT False 2 2, ActBegin True 2, ActSend True, ActEnd True]"

definition lost_chunk_run :: "action list" where
  "lost_chunk_run =
     [BindT True 1 1, BindT False 1 1, ActBegin True 1, ActEnd True, Deadline True (Some 1),
      Write True [10], Local True, Local True, Tick, Local True, Return True, Deadline True None,
      Write True [20], Local True, Local True, Local True, SendIt True]"

definition overtaken_run :: "action list" where
  "overtaken_run =
     [BindT True 1 1, BindT False 1 1, ActBegin True 1, ActEnd True,
      Write True [10], Local True, Local True, Local True, SendIt True, Deliver False 1,
      Local True, Return True,
      BindT True 2 2, BindT False 2 2, ActBegin True 2, ActSend True, ActEnd True, Deliver False 2,
      Write True [20], Local True, Local True, Local True, SendIt True, Deliver False 2,
      HandOver False 2, HandOver False 1, AppRead False 8]"

lemma rebind_order [simp]: "\<not> (2 :: u64) \<le> 1"
  by (simp add: word_le_nat_alt)


lemma resumed_in_flight:
  "case run True True demo_start resumed_run of
     None \<Rightarrow> False
   | Some s \<Rightarrow> (case sy_chan s True 2 of [] \<Rightarrow> False | f # fs \<Rightarrow> fr_payload f = [10, 11])"
  by (simp add: run_eval resumed_run_def)


lemma lost_chunk_state:
  "case run False True demo_start lost_chunk_run of
     None \<Rightarrow> False
   | Some s \<Rightarrow> nd_sent (sy_node s True) = [10, 20] \<and>
       (case sy_chan s True 1 of
          [f] \<Rightarrow> snd (snd (fst (handleBorrowed (ep_state (nd_ep (sy_node s False))) f))) = Some ErrSequenceGap
        | _ \<Rightarrow> False)"
  by (simp add: run_eval lost_chunk_run_def)

lemma overtaken_state:
  "case run True False demo_start overtaken_run of
     None \<Rightarrow> False
   | Some s \<Rightarrow> nd_app (sy_node s False) = [20, 10] \<and> nd_sent (sy_node s True) = [10, 20]"
  by (simp add: run_eval overtaken_run_def)

section \<open>Correctness of the resumable stream\<close>

text \<open>C1. As long as no writer abandons a retained chunk (\<open>timely\<close>), every frame of every reachable
  state, on a current or a superseded transport, after any number of losses and rebinds, is accepted
  by the peer without error: \<open>ErrFrame\<close>, \<open>ErrSequenceGap\<close> never arise between two correct ends.\<close>

theorem frames_never_rejected:
  assumes "sys_reach True ordered s" "sy_chan s (\<not> y) t = f # fs"
  shows "\<exists>fresh ack s'. handleBorrowed (ep_state (nd_ep (sy_node s y))) f = ((fresh, ack, None), s')"
  using reach_no_error [OF assms] .

theorem frames_never_rejected_witness:
  "\<exists>s f fs fresh ack s'. sys_reach True True s \<and> sy_chan s True 2 = f # fs \<and> fr_payload f = [10, 11] \<and>
     handleBorrowed (ep_state (nd_ep (sy_node s False))) f = ((fresh, ack, None), s')"
proof -
  obtain s where s: "sys_reach True True s"
    "case sy_chan s True 2 of [] \<Rightarrow> False | f # fs \<Rightarrow> fr_payload f = [10, 11]"
    using run_witness [OF resumed_in_flight] by blast
  then obtain f fs where f: "sy_chan s True 2 = f # fs" "fr_payload f = [10, 11]"
    by (auto split: list.splits)
  with frames_never_rejected [of True s False 2 f fs] s(1) show ?thesis by auto
qed







text \<open>C5. Without \<open>timely\<close> C1 fails: \<open>Write\<close> reports a chunk as written when the deadline passes
  after it was retained, on a transport that stays up; the next \<open>Write\<close> then sends its own chunk
  first, and the peer rejects it with \<open>ErrSequenceGap\<close>, which ends the stream.\<close>

theorem late_writer_breaks_stream:
  "\<exists>s f. sys_reach False True s \<and> sy_chan s True 1 = [f] \<and> nd_sent (sy_node s True) = [10, 20] \<and>
     snd (snd (fst (handleBorrowed (ep_state (nd_ep (sy_node s False))) f))) = Some ErrSequenceGap"
proof -
  obtain s where "sys_reach False True s" "nd_sent (sy_node s True) = [10, 20] \<and>
       (case sy_chan s True 1 of
          [f] \<Rightarrow> snd (snd (fst (handleBorrowed (ep_state (nd_ep (sy_node s False))) f))) = Some ErrSequenceGap
        | _ \<Rightarrow> False)"
    by (rule run_witness [OF lost_chunk_state])
  then show ?thesis by (auto split: list.splits)
qed

text \<open>Without \<open>ordered\<close> C4 fails: the read loop of a superseded transport, stopped between
  accepting bytes and handing them to the inbound buffer, is overtaken by the read loop of the new
  transport, and the application reads the bytes in the wrong order.\<close>

theorem superseded_loop_reorders:
  "\<exists>s. sys_reach True False s \<and> nd_app (sy_node s False) = [20, 10] \<and>
     nd_sent (sy_node s True) = [10, 20]"
  using run_witness [OF overtaken_state] by blast

end
