(* ===== verification/Resume_Registry.thy ===== *)
theory Resume_Registry
  imports Resume_Endpoint
begin

text \<open>
  \<open>agent/exit/resume_registry.go\<close> and the resumable part of \<open>agent/exit/handler.go\<close>: the exit
  node keeps the target connection of a stream while its transport is being replaced. Sessions are
  shared by pointer, so they live in a store; an address without a session is Go's nil. Timers are
  armed callbacks that fire once; the goroutine that waits for the end of a generation is an entry
  of the list of watchers.
\<close>

section \<open>State\<close>

datatype reg_error =
    RegBinding | RegFault rebind_fault | RegState resume_error | RegEndpoint ep_error
  | SessionExists | SessionNotFound | SessionCapacity | SessionClosed

record target_session =
  ts_identity :: identity
  ts_target :: "nat option"
  ts_generation :: u64
  ts_local :: binding
  ts_detachedAt :: "nat option"      \<comment> \<open>\<open>None\<close>: the zero time\<close>
  ts_timer :: "nat option"
  ts_closed :: bool
  ts_state :: "nat option"           \<comment> \<open>the stream state inside the endpoint at that address\<close>
  ts_endpoint :: "nat option"
  ts_cancel :: bool
  ts_remoteTarget :: string
  ts_onDone :: "nat option"
  ts_finished :: bool                \<comment> \<open>\<open>finishOnce\<close> has run\<close>

record registry =
  rg_sessions :: "(byte list \<times> nat) list"
  rg_grace :: int
  rg_max :: int

datatype reg_effect =
    CloseTarget nat | EndpointEffects nat "ep_effect list" | CancelContext nat | CallOnDone nat

record world =
  w_reg :: "registry option"
  w_store :: "nat \<rightharpoonup> target_session"
  w_eps :: "nat \<rightharpoonup> endpoint"
  w_timers :: "nat \<rightharpoonup> (nat \<times> byte list \<times> u64)"    \<comment> \<open>due time and arguments of \<open>expire\<close>\<close>
  w_watch :: "(nat \<times> nat \<times> u64) list"
  w_now :: nat
  w_next :: nat
  w_log :: "reg_effect list"

definition defaultResumeGrace :: int where "defaultResumeGrace = 15"
definition defaultResumeMaxSessions :: int where "defaultResumeMaxSessions = 256"

definition newResumeRegistry :: "int \<Rightarrow> int \<Rightarrow> registry" where
  "newResumeRegistry grace maxSessions =
     \<lparr>rg_sessions = [], rg_grace = (if grace \<le> 0 then defaultResumeGrace else grace),
      rg_max = (if maxSessions \<le> 0 then defaultResumeMaxSessions else maxSessions)\<rparr>"

definition new_world :: "registry \<Rightarrow> world" where
  "new_world r = \<lparr>w_reg = Some r, w_store = Map.empty, w_eps = Map.empty, w_timers = Map.empty,
     w_watch = [], w_now = 0, w_next = 0, w_log = []\<rparr>"

abbreviation set_session :: "world \<Rightarrow> nat \<Rightarrow> target_session \<Rightarrow> world" where
  "set_session w a s \<equiv> w\<lparr>w_store := (w_store w)(a \<mapsto> s)\<rparr>"

definition log_effects :: "world \<Rightarrow> reg_effect list \<Rightarrow> world" where
  "log_effects w fx = w\<lparr>w_log := w_log w @ fx\<rparr>"

text \<open>\<open>timer.Stop()\<close>: a timer that has not fired never will.\<close>

definition stop_timer :: "world \<Rightarrow> nat option \<Rightarrow> world" where
  "stop_timer w t = (case t of None \<Rightarrow> w | Some k \<Rightarrow> w\<lparr>w_timers := (w_timers w)(k := None)\<rparr>)"

section \<open>Registration\<close>

definition register :: "world \<Rightarrow> binding \<Rightarrow> nat option \<Rightarrow> reg_error + (nat \<times> world)" where
  "register w local target =
     (case (w_reg w, target) of
        (Some r, Some c) \<Rightarrow>
          if bd_Type local \<noteq> BindAck \<or> \<not> identity_Valid (bd_Identity local) \<or> bd_Generation local = 0
          then Err RegBinding
          else if map_of (rg_sessions r) (id_ID (bd_Identity local)) \<noteq> None then Err SessionExists
          else if int (length (rg_sessions r)) \<ge> rg_max r then Err SessionCapacity
          else
            let a = w_next w;
                s = \<lparr>ts_identity = bd_Identity local, ts_target = Some c,
                     ts_generation = bd_Generation local, ts_local = local, ts_detachedAt = None,
                     ts_timer = None, ts_closed = False, ts_state = None, ts_endpoint = None,
                     ts_cancel = False, ts_remoteTarget = [], ts_onDone = None, ts_finished = False\<rparr>
            in Ok (a, w\<lparr>w_reg := Some (r\<lparr>rg_sessions := (id_ID (bd_Identity local), a) # rg_sessions r\<rparr>),
                        w_store := (w_store w)(a \<mapsto> s), w_next := Suc a\<rparr>)
      | _ \<Rightarrow> Err RegBinding)"

definition registerLogical ::
  "world \<Rightarrow> binding \<Rightarrow> nat option \<Rightarrow> string \<Rightarrow> int \<Rightarrow> nat option \<Rightarrow> reg_error + (nat \<times> world)" where
  "registerLogical w local target remoteTarget replayLimit onDone =
     (if bd_SendOffset local \<noteq> 0 \<or> bd_ReceiveOffset local \<noteq> 0 then Err RegBinding
      else
        let limit = (if replayLimit \<le> 0 then DefaultReplayLimit else replayLimit) in
        case NewStreamState (bd_Identity local) limit of
          Inl e \<Rightarrow> Err (RegState e)
        | Inr st \<Rightarrow>
          (case NewEndpoint (Some st) of
             Inl e \<Rightarrow> Err (RegState e)
           | Inr ep \<Rightarrow>
             (case register w local target of
                Inl e \<Rightarrow> Err e
              | Inr (a, w') \<Rightarrow>
                (case w_store w' a of
                   None \<Rightarrow> Err RegBinding
                 | Some s \<Rightarrow>
                   Ok (a, set_session (w'\<lparr>w_eps := (w_eps w')(a \<mapsto> ep)\<rparr>) a
                     (s\<lparr>ts_state := Some a, ts_endpoint := Some a, ts_cancel := True,
                        ts_remoteTarget := remoteTarget, ts_onDone := onDone\<rparr>))))))"

definition get_session :: "world \<Rightarrow> byte list \<Rightarrow> nat option" where
  "get_session w ident = (case w_reg w of None \<Rightarrow> None | Some r \<Rightarrow> map_of (rg_sessions r) ident)"

section \<open>Rebinding and detaching\<close>

text \<open>The binding that \<open>rebind\<close> validates against: the last published one, or the live offsets.\<close>

definition current_binding :: "world \<Rightarrow> target_session \<Rightarrow> binding" where
  "current_binding w s =
     (let latest = (case ts_state s of
                      None \<Rightarrow> ts_local s
                    | Some e \<Rightarrow>
                      (case state_Binding (map_option ep_state (w_eps w e)) BindAck (ts_generation s) of
                         Inl _ \<Rightarrow> ts_local s
                       | Inr b \<Rightarrow> b))
      in latest\<lparr>bd_Generation := ts_generation s\<rparr>)"

definition rebind :: "world \<Rightarrow> binding \<Rightarrow> (reg_error + (nat \<times> bool)) \<times> world" where
  "rebind w peer =
     (if w_reg w = None \<or> bd_Type peer \<noteq> BindOpen \<or> \<not> identity_Valid (bd_Identity peer) \<or>
         bd_Generation peer = 0
      then (Err RegBinding, w)
      else case get_session w (id_ID (bd_Identity peer)) of
        None \<Rightarrow> (Err SessionNotFound, w)
      | Some a \<Rightarrow>
        (case w_store w a of
           None \<Rightarrow> (Err SessionNotFound, w)
         | Some s \<Rightarrow>
           if ts_closed s then (Err SessionClosed, w)
           else
             let current = current_binding w s;
                 retry = (bd_Generation peer = ts_generation s);
                 verdict = (if retry then
                              (if ts_detachedAt s = None then Some RegBinding
                               else map_option RegFault (ValidateRebindRetryRequest current peer))
                            else map_option RegFault (ValidateRebindRequest current peer))
             in case verdict of
                  Some e \<Rightarrow> (Err e, w)
                | None \<Rightarrow>
                  let s1 = (if retry then s
                            else s\<lparr>ts_generation := bd_Generation peer,
                                   ts_local := current\<lparr>bd_Generation := bd_Generation peer\<rparr>\<rparr>)
                  in (Ok (a, retry),
                      set_session (stop_timer w (ts_timer s)) a
                        (s1\<lparr>ts_detachedAt := None, ts_timer := None\<rparr>))))"

definition detach :: "world \<Rightarrow> nat \<Rightarrow> binding \<Rightarrow> reg_error option \<times> world" where
  "detach w a local =
     (case w_store w a of
        None \<Rightarrow> (Some RegBinding, w)
      | Some s \<Rightarrow>
        if bd_Type local \<noteq> BindAck \<or> \<not> identity_Valid (bd_Identity local) then (Some RegBinding, w)
        else if ts_closed s then (Some SessionClosed, w)
        else if id_ID (bd_Identity local) \<noteq> id_ID (ts_identity s) \<or>
                \<not> VerifyToken (ts_identity s) (id_Token (bd_Identity local)) \<or>
                bd_Generation local \<noteq> ts_generation s
        then (Some RegBinding, w)
        else if bd_SendOffset local < bd_SendOffset (ts_local s) \<or>
                bd_ReceiveOffset local < bd_ReceiveOffset (ts_local s)
        then (Some RegBinding, w)
        else
          let k = w_next w;
              grace = (case w_reg w of
                         Some r \<Rightarrow> if rg_grace r > 0 then rg_grace r else defaultResumeGrace
                       | None \<Rightarrow> defaultResumeGrace);
              w1 = stop_timer w (ts_timer s)
          in (None, set_session
                (w1\<lparr>w_timers := (w_timers w1)(k \<mapsto> (w_now w + nat grace, id_ID (ts_identity s), ts_generation s)),
                    w_next := Suc k\<rparr>) a
                (s\<lparr>ts_local := local, ts_detachedAt := Some (w_now w), ts_timer := Some k\<rparr>)))"

section \<open>Transports of a session\<close>

definition bindTransportMode ::
  "world \<Rightarrow> nat \<Rightarrow> nat option \<Rightarrow> u64 \<Rightarrow> bool \<Rightarrow> reg_error option \<times> world" where
  "bindTransportMode w a transport generation retry =
     (case (w_store w a, transport) of
        (Some s, Some t) \<Rightarrow>
          if generation = 0 then (Some RegBinding, w)
          else
            (case (ts_endpoint s, ts_state s) of
               (Some e, Some st) \<Rightarrow>
                 if ts_closed s \<or> generation \<noteq> ts_generation s then (Some SessionClosed, w)
                 else
                   (case w_eps w e of
                      None \<Rightarrow> (Some RegBinding, w)
                    | Some ep \<Rightarrow>
                      (case ep_bind ep (Some t) generation retry of
                         (err, ep', fx) \<Rightarrow>
                           let w1 = log_effects (w\<lparr>w_eps := (w_eps w)(e \<mapsto> ep')\<rparr>) [EndpointEffects e fx]
                           in case err of
                                Some x \<Rightarrow> (Some (RegEndpoint x), w1)
                              | None \<Rightarrow> (None, w1\<lparr>w_watch := (a, st, generation) # w_watch w1\<rparr>)))
             | _ \<Rightarrow> (Some SessionClosed, w))
      | _ \<Rightarrow> (Some RegBinding, w))"

definition bindTransport :: "world \<Rightarrow> nat \<Rightarrow> nat option \<Rightarrow> u64 \<Rightarrow> reg_error option \<times> world" where
  "bindTransport w a t g = bindTransportMode w a t g False"

definition retryTransport :: "world \<Rightarrow> nat \<Rightarrow> nat option \<Rightarrow> u64 \<Rightarrow> reg_error option \<times> world" where
  "retryTransport w a t g = bindTransportMode w a t g True"

text \<open>\<open>detachWhenGenerationEnds\<close>, once the generation's channel is closed.\<close>

definition detachWhenGenerationEnds :: "world \<Rightarrow> nat \<Rightarrow> nat \<Rightarrow> u64 \<Rightarrow> world" where
  "detachWhenGenerationEnds w a st generation =
     (if w_store w a = None \<or> generation = 0 then w
      else case state_Binding (map_option ep_state (w_eps w st)) BindAck generation of
             Inl _ \<Rightarrow> w
           | Inr local \<Rightarrow> snd (detach w a local))"

definition localBinding :: "world \<Rightarrow> nat \<Rightarrow> reg_error + binding" where
  "localBinding w a =
     (case w_store w a of
        None \<Rightarrow> Err SessionNotFound
      | Some s \<Rightarrow>
        (case ts_state s of
           Some st \<Rightarrow>
             if ts_closed s then Err SessionClosed
             else (case state_Binding (map_option ep_state (w_eps w st)) BindAck (ts_generation s) of
                     Inl e \<Rightarrow> Err (RegState e) | Inr b \<Rightarrow> Ok b)
         | None \<Rightarrow> Err SessionClosed))"

section \<open>Ending a session\<close>

definition finish :: "world \<Rightarrow> nat \<Rightarrow> world" where
  "finish w a =
     (case w_store w a of
        None \<Rightarrow> w
      | Some s \<Rightarrow>
        if ts_finished s then w
        else log_effects (set_session w a (s\<lparr>ts_onDone := None, ts_finished := True\<rparr>))
               (case ts_onDone s of None \<Rightarrow> [] | Some d \<Rightarrow> [CallOnDone d]))"

text \<open>Outside the locks: close the endpoint, the target, the context.\<close>

definition release :: "world \<Rightarrow> nat \<Rightarrow> nat option \<Rightarrow> nat option \<Rightarrow> bool \<Rightarrow> world" where
  "release w a target endpoint cancel =
     (let w1 = (case endpoint of
                  None \<Rightarrow> w
                | Some e \<Rightarrow>
                  (case w_eps w e of
                     None \<Rightarrow> w
                   | Some ep \<Rightarrow> (case ep_Close ep True of
                       (ep', fx) \<Rightarrow> log_effects (w\<lparr>w_eps := (w_eps w)(e \<mapsto> ep')\<rparr>) [EndpointEffects e fx])))
      in log_effects w1 ((case target of None \<Rightarrow> [] | Some c \<Rightarrow> [CloseTarget c]) @
                         (if cancel then [CancelContext a] else [])))"

definition closeTarget :: "world \<Rightarrow> nat \<Rightarrow> world" where
  "closeTarget w a =
     (case w_store w a of
        None \<Rightarrow> w
      | Some s \<Rightarrow>
        if ts_closed s then w
        else release
          (set_session (stop_timer w (ts_timer s)) a
             (s\<lparr>ts_closed := True, ts_target := None, ts_endpoint := None, ts_cancel := False,
                ts_timer := None\<rparr>))
          a (ts_target s) (ts_endpoint s) (ts_cancel s))"

definition delete_id :: "world \<Rightarrow> byte list \<Rightarrow> world" where
  "delete_id w ident =
     (case w_reg w of
        None \<Rightarrow> w
      | Some r \<Rightarrow>
        w\<lparr>w_reg := Some (r\<lparr>rg_sessions := filter (\<lambda>(i, _). i \<noteq> ident) (rg_sessions r)\<rparr>)\<rparr>)"

text \<open>\<open>expire\<close> has two critical sections: it marks the session closed under both locks, and deletes
  the map entry later, when it is still its own.\<close>

definition expire_mark :: "world \<Rightarrow> byte list \<Rightarrow> u64 \<Rightarrow> (nat \<times> target_session) option \<times> world" where
  "expire_mark w ident generation =
     (case get_session w ident of
        None \<Rightarrow> (None, w)
      | Some a \<Rightarrow>
        (case w_store w a of
           None \<Rightarrow> (None, w)
         | Some s \<Rightarrow>
           if ts_closed s \<or> ts_generation s \<noteq> generation \<or> ts_detachedAt s = None then (None, w)
           else (Some (a, s), set_session w a
             (s\<lparr>ts_closed := True, ts_target := None, ts_endpoint := None, ts_cancel := False,
                ts_timer := None\<rparr>))))"

definition expire_delete :: "world \<Rightarrow> byte list \<Rightarrow> nat \<Rightarrow> world" where
  "expire_delete w ident a = (if get_session w ident = Some a then delete_id w ident else w)"

definition expire :: "world \<Rightarrow> byte list \<Rightarrow> u64 \<Rightarrow> world" where
  "expire w ident generation =
     (case expire_mark w ident generation of
        (None, w1) \<Rightarrow> w1
      | (Some (a, s), w1) \<Rightarrow>
          finish (expire_delete (release w1 a (ts_target s) (ts_endpoint s) (ts_cancel s)) ident a) a)"

definition remove_session :: "world \<Rightarrow> byte list \<Rightarrow> world" where
  "remove_session w ident =
     (case get_session w ident of
        None \<Rightarrow> w
      | Some a \<Rightarrow> finish (closeTarget (delete_id w ident) a) a)"

definition closeAll :: "world \<Rightarrow> world" where
  "closeAll w =
     (case w_reg w of
        None \<Rightarrow> w
      | Some r \<Rightarrow> foldl (\<lambda>w' (_, a). finish (closeTarget w' a) a)
                    (w\<lparr>w_reg := Some (r\<lparr>rg_sessions := []\<rparr>)\<rparr>) (rg_sessions r))"


text \<open>\<open>startLogicalBridge\<close>: when copying between endpoint and target has ended.\<close>

definition bridge_ended :: "world \<Rightarrow> nat \<Rightarrow> world" where
  "bridge_ended w a =
     (case w_store w a of
        None \<Rightarrow> w
      | Some s \<Rightarrow>
        finish (if w_reg w = None then closeTarget w a else remove_session w (id_ID (ts_identity s))) a)"

definition targetConn :: "world \<Rightarrow> nat \<Rightarrow> reg_error + nat" where
  "targetConn w a =
     (case w_store w a of
        None \<Rightarrow> Err SessionNotFound
      | Some s \<Rightarrow> (case ts_target s of
                     Some c \<Rightarrow> if ts_closed s then Err SessionClosed else Ok c
                   | None \<Rightarrow> Err SessionClosed))"

definition currentGeneration :: "world \<Rightarrow> nat \<Rightarrow> u64" where
  "currentGeneration w a = (case w_store w a of None \<Rightarrow> 0 | Some s \<Rightarrow> ts_generation s)"

definition remoteAddress :: "world \<Rightarrow> nat \<Rightarrow> string" where
  "remoteAddress w a = (case w_store w a of None \<Rightarrow> [] | Some s \<Rightarrow> ts_remoteTarget s)"

section \<open>The request handlers\<close>

text \<open>\<open>handleTCPResumeOpen\<close> after the target was dialled; \<open>sent\<close> says whether the response could be
  written. The result is the session whose generation the handler then waits for.\<close>

definition handleTCPResumeOpen ::
  "world \<Rightarrow> tcp_resume_binding option \<Rightarrow> nat \<Rightarrow> string \<Rightarrow> int \<Rightarrow> nat option \<Rightarrow> nat \<Rightarrow> bool \<Rightarrow>
   (reg_error + nat) \<times> world" where
  "handleTCPResumeOpen w req target remoteTarget replayLimit onDone stream sent =
     (case RequestBindingFromProtocol req of
        Inl _ \<Rightarrow> (Err RegBinding, log_effects w [CloseTarget target])
      | Inr peer \<Rightarrow>
        if bd_Generation peer \<noteq> 1 \<or> bd_SendOffset peer \<noteq> 0 \<or> bd_ReceiveOffset peer \<noteq> 0
        then (Err RegBinding, log_effects w [CloseTarget target])
        else
          (case registerLogical w \<lparr>bd_Type = BindAck, bd_Identity = bd_Identity peer, bd_Generation = 1,
                  bd_SendOffset = 0, bd_ReceiveOffset = 0\<rparr> (Some target) remoteTarget replayLimit onDone of
             Inl e \<Rightarrow> (Err e, log_effects w
               ((case onDone of None \<Rightarrow> [] | Some d \<Rightarrow> [CallOnDone d]) @ [CloseTarget target]))
           | Inr (a, w1) \<Rightarrow>
             (let ident = id_ID (bd_Identity peer) in
              case localBinding w1 a of
                Inl e \<Rightarrow> (Err e, remove_session w1 ident)
              | Inr local \<Rightarrow>
                (case BindingToProtocol local TCPResumeModeOpen of
                   Inl e \<Rightarrow> (Err (RegState e), remove_session w1 ident)
                 | Inr _ \<Rightarrow>
                   if \<not> sent then (Err (RegEndpoint TransportError), remove_session w1 ident)
                   else (case bindTransport w1 a (Some stream) (bd_Generation local) of
                           (Some e, w2) \<Rightarrow> (Err e, remove_session w2 ident)
                         | (None, w2) \<Rightarrow> (Ok a, w2))))))"

text \<open>\<open>handleTCPResumeRebind\<close>: on any failure after the commit, the deferred \<open>detach\<close> re-arms
  recovery.\<close>

definition handleTCPResumeRebind ::
  "world \<Rightarrow> tcp_resume_binding option \<Rightarrow> nat \<Rightarrow> bool \<Rightarrow> (reg_error + nat) \<times> world" where
  "handleTCPResumeRebind w req stream sent =
     (case (RequestBindingFromProtocol req, req) of
        (Inr peer, Some m) \<Rightarrow>
          if tr_Mode m \<noteq> TCPResumeModeRebind then (Err RegBinding, w)
          else
            (case rebind w peer of
               (Inl e, w1) \<Rightarrow> (Err e, w1)
             | (Inr (a, retry), w1) \<Rightarrow>
               (case localBinding w1 a of
                  Inl e \<Rightarrow> (Err e, w1)
                | Inr local \<Rightarrow>
                  (case BindingToProtocol local TCPResumeModeRebind of
                     Inl e \<Rightarrow> (Err (RegState e), snd (detach w1 a local))
                   | Inr _ \<Rightarrow>
                     if \<not> sent then (Err (RegEndpoint TransportError), snd (detach w1 a local))
                     else
                       (case (if retry then retryTransport w1 a (Some stream) (bd_Generation local)
                              else bindTransport w1 a (Some stream) (bd_Generation local)) of
                          (Some e, w2) \<Rightarrow> (Err e, snd (detach w2 a local))
                        | (None, w2) \<Rightarrow> (Ok a, w2)))))
      | _ \<Rightarrow> (Err RegBinding, w))"

section \<open>Invariant\<close>

text \<open>A session: closed means nothing is held any more; open, it is detached exactly while its timer
  is set, and that timer, if it still has to fire, names this session and this generation; its
  endpoint is its own and is never bound to a generation the registry has not committed.\<close>

definition session_ok :: "world \<Rightarrow> nat \<Rightarrow> target_session \<Rightarrow> bool" where
  "session_ok w a s \<longleftrightarrow>
     a < w_next w \<and> identity_Valid (ts_identity s) \<and> ts_generation s \<noteq> 0 \<and>
     (if ts_closed s then ts_target s = None \<and> ts_endpoint s = None \<and> \<not> ts_cancel s
      else ts_target s \<noteq> None \<and> (ts_detachedAt s = None \<longleftrightarrow> ts_timer s = None)) \<and>
     (ts_finished s \<longrightarrow> ts_onDone s = None) \<and>
     (\<forall>k. ts_timer s = Some k \<longrightarrow> k < w_next w \<and>
        (\<forall>t i g. w_timers w k = Some (t, i, g) \<longrightarrow> i = id_ID (ts_identity s) \<and> g = ts_generation s)) \<and>
     (\<forall>e. ts_state s = Some e \<or> ts_endpoint s = Some e \<longrightarrow> e = a \<and>
        (\<exists>ep. w_eps w a = Some ep \<and> ep_inv ep \<and> ep_generation ep \<le> ts_generation s \<and>
           ss_identity (ep_state ep) = ts_identity s))"

definition table_ok :: "world \<Rightarrow> bool" where
  "table_ok w \<longleftrightarrow>
     (\<forall>r. w_reg w = Some r \<longrightarrow>
        distinct (map fst (rg_sessions r)) \<and> distinct (map snd (rg_sessions r)) \<and>
        int (length (rg_sessions r)) \<le> rg_max r \<and>
        (\<forall>(i, a)\<in>set (rg_sessions r). \<exists>s. w_store w a = Some s \<and> id_ID (ts_identity s) = i))"

definition reg_inv :: "world \<Rightarrow> bool" where
  "reg_inv w \<longleftrightarrow> table_ok w \<and> (\<forall>a s. w_store w a = Some s \<longrightarrow> session_ok w a s) \<and>
     (\<forall>k. w_timers w k \<noteq> None \<longrightarrow> k < w_next w)"

lemma reg_inv_new: "reg_inv (new_world (newResumeRegistry grace m))"
  by (simp add: reg_inv_def table_ok_def new_world_def newResumeRegistry_def defaultResumeMaxSessions_def)

text \<open>What other sessions need of a change: addresses only grow, no timer is armed under an old key.\<close>

definition grows :: "world \<Rightarrow> world \<Rightarrow> bool" where
  "grows w w' \<longleftrightarrow> w_next w \<le> w_next w' \<and>
     (\<forall>k v. k < w_next w \<longrightarrow> w_timers w' k = Some v \<longrightarrow> w_timers w k = Some v)"

lemma session_ok_grows:
  assumes "session_ok w a s" "grows w w'" "w_eps w' a = w_eps w a"
  shows "session_ok w' a s"
  using assms unfolding session_ok_def grows_def by (auto split: if_splits) 

lemma table_okD:
  assumes "table_ok w" "w_reg w = Some r"
  shows "distinct (map fst (rg_sessions r))" "distinct (map snd (rg_sessions r))"
    "int (length (rg_sessions r)) \<le> rg_max r"
    "(i, a) \<in> set (rg_sessions r) \<Longrightarrow> \<exists>s. w_store w a = Some s \<and> id_ID (ts_identity s) = i"
  using assms unfolding table_ok_def by blast+

lemma reg_inv_update:
  assumes I: "reg_inv w" and s: "w_store w a = Some s" and g: "grows w w'"
    and same: "w_reg w' = w_reg w" "w_store w' = (w_store w)(a \<mapsto> s')"
      "\<And>b. b \<noteq> a \<Longrightarrow> w_eps w' b = w_eps w b" "ts_identity s' = ts_identity s"
    and ok: "session_ok w' a s'" and tm: "\<And>k. w_timers w' k \<noteq> None \<Longrightarrow> k < w_next w'"
  shows "reg_inv w'"
proof -
  have "session_ok w' b u" if "w_store w' b = Some u" for b u
  proof (cases "b = a")
    case True
    with ok that same(2) show ?thesis by simp
  next
    case False
    with that same(2) I have "session_ok w b u" by (simp add: reg_inv_def)
    then show ?thesis by (rule session_ok_grows [OF _ g]) (simp add: same(3) False)
  qed
  moreover have "table_ok w'"
    unfolding table_ok_def
  proof (intro allI impI conjI)
    fix r assume "w_reg w' = Some r"
    with same(1) have r: "w_reg w = Some r" by simp
    from I have "table_ok w" by (simp add: reg_inv_def)
    note t = table_okD [OF this r]
    show "distinct (map fst (rg_sessions r))" "distinct (map snd (rg_sessions r))"
      "int (length (rg_sessions r)) \<le> rg_max r" by (rule t)+
    show "\<forall>(i, b)\<in>set (rg_sessions r). \<exists>u. w_store w' b = Some u \<and> id_ID (ts_identity u) = i"
      using t(4) s same(2,4) by fastforce
  qed
  ultimately show ?thesis using tm by (simp add: reg_inv_def)
qed

lemma grows_refl [simp]: "grows w w"
  by (simp add: grows_def)

lemma reg_invD:
  assumes "reg_inv w" "w_store w a = Some s"
  shows "session_ok w a s" "ts_state s = Some e \<Longrightarrow> e = a" "ts_endpoint s = Some e \<Longrightarrow> e = a"
    "a < w_next w"
  using assms by (auto simp: reg_inv_def session_ok_def)

lemma reg_inv_timers: "reg_inv w \<Longrightarrow> w_timers w k = Some v \<Longrightarrow> k < w_next w"
  by (cases v) (auto simp: reg_inv_def)


lemma stop_timer_simps [simp]:
  "w_reg (stop_timer w t) = w_reg w" "w_store (stop_timer w t) = w_store w"
  "w_eps (stop_timer w t) = w_eps w" "w_next (stop_timer w t) = w_next w"
  "w_now (stop_timer w t) = w_now w" "w_watch (stop_timer w t) = w_watch w"
  "w_log (stop_timer w t) = w_log w"
  by (simp_all add: stop_timer_def split: option.split)

lemma stop_timer_timers: "w_timers (stop_timer w t) k = Some v \<Longrightarrow> w_timers w k = Some v"
  by (auto simp: stop_timer_def split: option.splits if_splits)

lemma log_simps [simp]:
  "w_reg (log_effects w fx) = w_reg w" "w_store (log_effects w fx) = w_store w"
  "w_eps (log_effects w fx) = w_eps w" "w_next (log_effects w fx) = w_next w"
  "w_now (log_effects w fx) = w_now w" "w_watch (log_effects w fx) = w_watch w"
  "w_timers (log_effects w fx) = w_timers w" "w_log (log_effects w fx) = w_log w @ fx"
  by (simp_all add: log_effects_def)

text \<open>The invariant does not look at the clock, the watchers or the log.\<close>

lemma session_ok_cong:
  "w_next w' = w_next w \<Longrightarrow> w_timers w' = w_timers w \<Longrightarrow> w_eps w' = w_eps w \<Longrightarrow>
   session_ok w' a s = session_ok w a s"
  by (simp add: session_ok_def)

lemma reg_inv_cong:
  assumes "w_reg w' = w_reg w" "w_store w' = w_store w" "w_eps w' = w_eps w" "w_next w' = w_next w"
    "w_timers w' = w_timers w"
  shows "reg_inv w' = reg_inv w"
  using assms session_ok_cong [of w' w] by (simp add: reg_inv_def table_ok_def)

lemma reg_inv_log [simp]: "reg_inv (log_effects w fx) = reg_inv w"
  by (rule reg_inv_cong) simp_all

section \<open>Every operation keeps the invariant\<close>

lemma register_inv:
  assumes I: "reg_inv w" and r: "register w local target = Ok (a, w')"
  shows "reg_inv w' \<and> a = w_next w \<and> w_next w' = Suc a \<and> w_eps w' = w_eps w \<and> w_timers w' = w_timers w \<and>
    (\<exists>s. w_store w' a = Some s \<and> ts_state s = None \<and> ts_endpoint s = None \<and> \<not> ts_closed s \<and>
      ts_timer s = None \<and> ts_detachedAt s = None \<and> ts_target s = target \<and> ts_target s \<noteq> None \<and>
      ts_identity s = bd_Identity local \<and> ts_generation s = bd_Generation local \<and> ts_generation s \<noteq> 0 \<and>
      identity_Valid (ts_identity s) \<and> \<not> ts_finished s)"
proof -
  from r obtain rr c where rr: "w_reg w = Some rr" "target = Some c"
    and g: "identity_Valid (bd_Identity local)" "bd_Generation local \<noteq> 0"
      "map_of (rg_sessions rr) (id_ID (bd_Identity local)) = None" "int (length (rg_sessions rr)) < rg_max rr"
    by (auto simp: register_def split: option.splits if_splits)
  define s where "s = \<lparr>ts_identity = bd_Identity local, ts_target = Some c,
                     ts_generation = bd_Generation local, ts_local = local, ts_detachedAt = None,
                     ts_timer = None, ts_closed = False, ts_state = None, ts_endpoint = None,
                     ts_cancel = False, ts_remoteTarget = [], ts_onDone = None, ts_finished = False\<rparr>"
  have a: "a = w_next w" and w': "w' = w\<lparr>w_reg := Some (rr\<lparr>rg_sessions := (id_ID (bd_Identity local), a) # rg_sessions rr\<rparr>),
                        w_store := (w_store w)(a \<mapsto> s), w_next := Suc a\<rparr>"
    using r rr g by (auto simp: register_def s_def Let_def split: if_splits)
  have fresh: "w_store w a = None"
    using I reg_invD(4) [OF I, of a] by (cases "w_store w a") (auto simp: a)
  then have notin: "a \<notin> snd ` set (rg_sessions rr)"
    using I rr(1) unfolding reg_inv_def table_ok_def by fastforce
  have "table_ok w'"
    using I rr(1) g fresh notin unfolding table_ok_def reg_inv_def
    by (auto simp: w' s_def map_of_eq_None_iff)
  moreover have "session_ok w' a s" using g by (simp add: session_ok_def s_def w')
  moreover have "session_ok w' b u" if "w_store w b = Some u" for b u
  proof (rule session_ok_grows)
    show "session_ok w b u" using I that by (simp add: reg_inv_def)
  qed (simp_all add: w' grows_def a)
  moreover have "k < w_next w'" if "w_timers w' k \<noteq> None" for k
    using I that unfolding reg_inv_def by (auto simp: w' a less_Suc_eq)
  ultimately have "reg_inv w'" by (auto simp: reg_inv_def w')
  then show ?thesis using g rr(2) by (simp add: a w' s_def)
qed

lemma NewStreamState_identity: "NewStreamState i n = Ok st \<Longrightarrow> ss_identity st = i"
  by (auto simp: NewStreamState_def split: if_splits)

lemma NewEndpoint_generation: "NewEndpoint (Some st) = Ok ep \<Longrightarrow> ep_generation ep = 0 \<and> ep_state ep = st"
  by (auto simp: NewEndpoint_def split: if_splits)

lemma registerLogical_inv:
  assumes I: "reg_inv w" and r: "registerLogical w local target rt limit od = Ok (a, w')"
  shows "reg_inv w'"
proof -
  from r obtain l st ep w1 s where st: "NewEndpoint (Some st) = Ok ep" "register w local target = Ok (a, w1)"
      "NewStreamState (bd_Identity local) l = Ok st"
    and s: "w_store w1 a = Some s"
    and w': "w' = set_session (w1\<lparr>w_eps := (w_eps w1)(a \<mapsto> ep)\<rparr>) a
                     (s\<lparr>ts_state := Some a, ts_endpoint := Some a, ts_cancel := True,
                        ts_remoteTarget := rt, ts_onDone := od\<rparr>)"
    by (auto simp: registerLogical_def Let_def split: if_splits sum.splits prod.splits option.splits)
  note ri = register_inv [OF I st(2)]
  then have I1: "reg_inv w1" and n: "w_next w1 = Suc a" by blast+
  show ?thesis
  proof (rule reg_inv_update [OF I1 s])
    show "session_ok w' a (s\<lparr>ts_state := Some a, ts_endpoint := Some a, ts_cancel := True,
                        ts_remoteTarget := rt, ts_onDone := od\<rparr>)"
      using ri s ep_inv_new [OF st(1)] NewEndpoint_generation [OF st(1)] n NewStreamState_identity [OF st(3)]
      by (auto simp: session_ok_def w')
    show "k < w_next w'" if "w_timers w' k \<noteq> None" for k
      using I1 that by (simp add: w' reg_inv_def)
  qed (simp_all add: w' grows_def)
qed

text \<open>The shape of an accepted \<open>rebind\<close>.\<close>

lemma rebind_cases:
  assumes "rebind w peer = (res, w')"
  obtains (refused) e where "res = Err e" "w' = w"
  | (accepted) a s retry s1 where "res = Ok (a, retry)" "w_reg w \<noteq> None" "bd_Type peer = BindOpen"
      "identity_Valid (bd_Identity peer)" "bd_Generation peer \<noteq> 0"
      "get_session w (id_ID (bd_Identity peer)) = Some a" "w_store w a = Some s" "\<not> ts_closed s"
      "retry = (bd_Generation peer = ts_generation s)"
      "if retry then ts_detachedAt s \<noteq> None \<and> ValidateRebindRetryRequest (current_binding w s) peer = None
       else ValidateRebindRequest (current_binding w s) peer = None"
      "s1 = (if retry then s
             else s\<lparr>ts_generation := bd_Generation peer,
                    ts_local := (current_binding w s)\<lparr>bd_Generation := bd_Generation peer\<rparr>\<rparr>)"
      "w' = set_session (stop_timer w (ts_timer s)) a (s1\<lparr>ts_detachedAt := None, ts_timer := None\<rparr>)"
proof (cases res)
  case (Inl e)
  with assms refused show ?thesis
    by (auto simp: rebind_def Let_def split: if_splits option.splits)
next
  case (Inr r)
  obtain a retry where r: "r = (a, retry)" by (cases r)
  from assms Inr r obtain s where s: "w_reg w \<noteq> None" "bd_Type peer = BindOpen"
      "identity_Valid (bd_Identity peer)" "bd_Generation peer \<noteq> 0"
      "get_session w (id_ID (bd_Identity peer)) = Some a" "w_store w a = Some s" "\<not> ts_closed s"
    by (auto simp: rebind_def Let_def split: if_splits option.splits)
  show ?thesis
  proof (cases "bd_Generation peer = ts_generation s")
    case True
    with assms Inr r s have "retry" "ts_detachedAt s \<noteq> None"
      "ValidateRebindRetryRequest (current_binding w s) peer = None"
      "w' = set_session (stop_timer w (ts_timer s)) a (s\<lparr>ts_detachedAt := None, ts_timer := None\<rparr>)"
      by (auto simp: rebind_def Let_def split: if_splits option.splits)
    with True Inr r s show ?thesis by (intro accepted [of a retry s]) auto
  next
    case False
    with assms Inr r s have "\<not> retry" "ValidateRebindRequest (current_binding w s) peer = None"
      "w' = set_session (stop_timer w (ts_timer s)) a
         (s\<lparr>ts_generation := bd_Generation peer,
            ts_local := (current_binding w s)\<lparr>bd_Generation := bd_Generation peer\<rparr>,
            ts_detachedAt := None, ts_timer := None\<rparr>)"
      by (auto simp: rebind_def Let_def split: if_splits option.splits)
    with False Inr r s show ?thesis by (intro accepted [of a retry s]) auto
  qed
qed

lemma current_generation [simp]: "bd_Generation (current_binding w s) = ts_generation s"
  by (simp add: current_binding_def Let_def)

lemma rebind_request_increases:
  assumes "ValidateRebindRequest current peer = None"
  shows "bd_Generation current < bd_Generation peer"
proof -
  have "bd_Generation current \<noteq> max_u64 \<and> bd_Generation peer = bd_Generation current + 1"
    using assms unfolding ValidateRebindRequest_def ValidateRebind_def
    by (metis option.distinct(1))
  then have "unat (bd_Generation peer) = Suc (unat (bd_Generation current))"
    unfolding generation_next_iff .
  then show ?thesis unfolding word_less_nat_alt by simp
qed

lemma grows_stop [simp]: "grows w (stop_timer w t\<lparr>w_store := f\<rparr>)"
  by (auto simp: grows_def dest: stop_timer_timers)

lemma rebind_inv:
  assumes I: "reg_inv w" and r: "rebind w peer = (res, w')"
  shows "reg_inv w'"
  using r
proof (cases rule: rebind_cases)
  case refused
  with I show ?thesis by simp
next
  case (accepted a s retry s1)
  have tg: "ts_generation s \<le> ts_generation s1" "ts_generation s1 \<noteq> 0" "ts_identity s1 = ts_identity s"
    "ts_closed s1 = ts_closed s" "ts_target s1 = ts_target s" "ts_finished s1 = ts_finished s"
    "ts_onDone s1 = ts_onDone s" "ts_state s1 = ts_state s" "ts_endpoint s1 = ts_endpoint s"
    using accepted(5,9,10,11) rebind_request_increases [of "current_binding w s" peer] reg_invD(1) [OF I accepted(7)]
    by (auto simp: session_ok_def split: if_splits)
  show ?thesis
  proof (rule reg_inv_update [OF I accepted(7)])
    show "session_ok w' a (s1\<lparr>ts_detachedAt := None, ts_timer := None\<rparr>)"
      using reg_invD(1) [OF I accepted(7)] accepted(8) tg
      by (auto simp: session_ok_def accepted(12) intro: order_trans)
    show "k < w_next w'" if "w_timers w' k \<noteq> None" for k
      using I that stop_timer_timers [of w "ts_timer s" k] by (auto simp: accepted(12) reg_inv_def)
    show "w_store w' = (w_store w)(a \<mapsto> s1\<lparr>ts_detachedAt := None, ts_timer := None\<rparr>)"
      by (simp add: accepted(12))
  qed (simp_all add: accepted(12) tg)
qed

definition grace_of :: "world \<Rightarrow> int" where
  "grace_of w = (case w_reg w of
                   Some r \<Rightarrow> if rg_grace r > 0 then rg_grace r else defaultResumeGrace
                 | None \<Rightarrow> defaultResumeGrace)"

lemma detach_cases:
  assumes "detach w a local = (err, w')"
  obtains (refused) "err \<noteq> None" "w' = w"
  | (accepted) s k where "err = None" "w_store w a = Some s" "\<not> ts_closed s" "k = w_next w"
      "bd_Generation local = ts_generation s" "id_ID (bd_Identity local) = id_ID (ts_identity s)"
      "VerifyToken (ts_identity s) (id_Token (bd_Identity local))"
      "bd_SendOffset (ts_local s) \<le> bd_SendOffset local"
      "bd_ReceiveOffset (ts_local s) \<le> bd_ReceiveOffset local"
      "w' = set_session (stop_timer w (ts_timer s)\<lparr>w_timers := (w_timers (stop_timer w (ts_timer s)))
                (k \<mapsto> (w_now w + nat (grace_of w), id_ID (ts_identity s), ts_generation s)), w_next := Suc k\<rparr>) a
                (s\<lparr>ts_local := local, ts_detachedAt := Some (w_now w), ts_timer := Some k\<rparr>)"
proof (cases err)
  case None
  with assms obtain s where s: "w_store w a = Some s" by (auto simp: detach_def split: option.splits)
  with assms None have c: "\<not> ts_closed s" "bd_Generation local = ts_generation s"
    "id_ID (bd_Identity local) = id_ID (ts_identity s)"
    "VerifyToken (ts_identity s) (id_Token (bd_Identity local))"
    "\<not> bd_SendOffset local < bd_SendOffset (ts_local s)"
    "\<not> bd_ReceiveOffset local < bd_ReceiveOffset (ts_local s)"
    by (simp_all add: detach_def split: if_splits)
  with assms None s show ?thesis
    by (intro accepted [OF None s c(1) HOL.refl c(2-4)])
       (simp_all add: detach_def Let_def grace_of_def not_less split: if_splits)
next
  case (Some e)
  with assms show ?thesis
    by (intro refused) (simp_all add: detach_def Let_def split: if_splits option.splits)
qed

lemma detach_inv:
  assumes I: "reg_inv w" and d: "detach w a local = (err, w')"
  shows "reg_inv w'"
  using d
proof (cases rule: detach_cases)
  case refused
  with I show ?thesis by simp
next
  case (accepted s k)
  let ?w = "stop_timer w (ts_timer s)"
  have st: "\<And>j v. w_timers ?w j = Some v \<Longrightarrow> w_timers w j = Some v" by (rule stop_timer_timers)
  show ?thesis
  proof (rule reg_inv_update [OF I accepted(2)])
    show "session_ok w' a (s\<lparr>ts_local := local, ts_detachedAt := Some (w_now w), ts_timer := Some k\<rparr>)"
      using reg_invD(1) [OF I accepted(2)] accepted(3) by (auto simp: session_ok_def accepted(4,10))
    show "j < w_next w'" if "w_timers w' j \<noteq> None" for j
      using I that st [of j] by (fastforce simp: accepted(4,10) reg_inv_def split: if_splits)
    show "grows w w'" using st by (auto simp: grows_def accepted(4,10))
    show "w_store w' = (w_store w)(a \<mapsto> s\<lparr>ts_local := local, ts_detachedAt := Some (w_now w), ts_timer := Some k\<rparr>)"
      by (simp add: accepted(10))
  qed (simp_all add: accepted(10))
qed

text \<open>An endpoint moves, its generation staying within what the session has committed.\<close>

lemma endpoint_inv:
  assumes I: "reg_inv w" and e: "w_eps w a = Some ep" and i: "ep_inv ep \<Longrightarrow> ep_inv ep'"
    and ident: "ss_identity (ep_state ep') = ss_identity (ep_state ep)"
    and g: "\<And>s. w_store w a = Some s \<Longrightarrow> ep_generation ep' \<le> ts_generation s \<or> ep_generation ep' \<le> ep_generation ep"
  shows "reg_inv (w\<lparr>w_eps := (w_eps w)(a \<mapsto> ep')\<rparr>)"
proof -
  let ?w = "w\<lparr>w_eps := (w_eps w)(a \<mapsto> ep')\<rparr>"
  have "session_ok ?w b s" if s: "w_store w b = Some s" for b s
  proof (cases "b = a")
    case True
    have "session_ok w a s" using I s True by (simp add: reg_inv_def)
    moreover have "ep_generation ep \<le> ts_generation s \<Longrightarrow> ep_generation ep' \<le> ts_generation s"
      using g s True by (meson order_trans)
    ultimately show ?thesis using e i ident True by (auto simp: session_ok_def)
  next
    case False
    have "session_ok w b s" using I s by (simp add: reg_inv_def)
    then show ?thesis by (rule session_ok_grows) (simp_all add: False grows_def)
  qed
  with I show ?thesis by (simp add: reg_inv_def table_ok_def)
qed

lemma bindTransportMode_inv:
  assumes I: "reg_inv w" and b: "bindTransportMode w a t g retry = (err, w')"
  shows "reg_inv w'"
proof (cases "w' = w")
  case True
  with I show ?thesis by simp
next
  case False
  then obtain s tr where s: "w_store w a = Some s" "t = Some tr"
    using b by (auto simp: bindTransportMode_def split: option.splits)
  with b False obtain e st where e: "ts_endpoint s = Some e" "ts_state s = Some st" "g = ts_generation s"
    by (auto simp: bindTransportMode_def split: option.splits if_splits)
  with b s False obtain ep where ep: "w_eps w e = Some ep"
    by (auto simp: bindTransportMode_def split: option.splits if_splits)
  obtain err' ep' fx where bd: "ep_bind ep (Some tr) g retry = (err', ep', fx)" by (metis prod_cases3)
  have w': "reg_inv w' = reg_inv (w\<lparr>w_eps := (w_eps w)(e \<mapsto> ep')\<rparr>)"
    by (rule reg_inv_cong)
       (use b False s e ep bd in \<open>auto simp: bindTransportMode_def Let_def split: if_splits option.splits\<close>)
  have ea: "e = a" using reg_invD(3) [OF I s(1) e(1)] .
  have "ep_inv ep" "ep_generation ep \<le> ts_generation s"
    using reg_invD(1) [OF I s(1)] e(1) ep ea by (auto simp: session_ok_def)
  moreover from this have "ep_inv ep'" using bind_inv [OF _ bd] by blast
  moreover have "ep_generation ep' \<le> ts_generation s"
    using bind_generation [OF bd] e(3) calculation(2) by (cases err') auto
  moreover have "ep_state ep' = ep_state ep"
    using bind_generation [OF bd] by (cases err') auto
  ultimately show ?thesis
    unfolding w' using endpoint_inv [OF I, of e ep ep'] ep s(1) ea by simp
qed

lemma finish_inv: "reg_inv w \<Longrightarrow> reg_inv (finish w a)"
proof -
  assume I: "reg_inv w"
  show ?thesis
  proof (cases "w_store w a")
    case None
    with I show ?thesis by (simp add: finish_def)
  next
    case (Some s)
    have "reg_inv (set_session w a (s\<lparr>ts_onDone := None, ts_finished := True\<rparr>))"
      by (rule reg_inv_update [OF I Some, of _ "s\<lparr>ts_onDone := None, ts_finished := True\<rparr>"])
         (use reg_invD(1) [OF I Some] reg_inv_timers [OF I] in \<open>auto simp: session_ok_def grows_def split: if_splits\<close>)
    with I Some show ?thesis by (simp add: finish_def)
  qed
qed

lemma release_inv:
  assumes I: "reg_inv w" and e: "\<And>x. e = Some x \<Longrightarrow> \<exists>ep. w_eps w x = Some ep \<and> ep_inv ep"
  shows "reg_inv (release w a c e b)"
proof (cases e)
  case None
  with I show ?thesis by (simp add: release_def)
next
  case (Some x)
  with e obtain ep where ep: "w_eps w x = Some ep" "ep_inv ep" by blast
  obtain ep' fx where cl: "ep_Close ep True = (ep', fx)" by (metis surj_pair)
  have "ep_generation ep' = ep_generation ep" "ep_state ep' = ep_state ep"
    using cl by (auto simp: ep_Close_def Let_def notifyProgress_def split: if_splits)
  with endpoint_inv [OF I ep(1) Close_inv(1) [OF _ cl]] Some ep cl show ?thesis
    by (simp add: release_def Let_def)
qed

lemma release_simps [simp]:
  "w_reg (release w a c e b) = w_reg w" "w_store (release w a c e b) = w_store w"
  "w_next (release w a c e b) = w_next w" "w_timers (release w a c e b) = w_timers w"
  by (simp_all add: release_def Let_def split: option.split prod.split)

text \<open>Marking an open session closed, with or without stopping its timer.\<close>

abbreviation shut :: "target_session \<Rightarrow> target_session" where
  "shut s \<equiv> s\<lparr>ts_closed := True, ts_target := None, ts_endpoint := None, ts_cancel := False,
              ts_timer := None\<rparr>"

lemma shut_inv:
  assumes I: "reg_inv w" and s: "w_store w a = Some s"
  shows "reg_inv (set_session (stop_timer w t) a (shut s))"
proof (rule reg_inv_update [OF I s])
  show "session_ok (set_session (stop_timer w t) a (shut s)) a (shut s)"
    using reg_invD(1) [OF I s] by (auto simp: session_ok_def split: if_splits)
  fix k assume "w_timers (set_session (stop_timer w t) a (shut s)) k \<noteq> None"
  then obtain v where "w_timers (stop_timer w t) k = Some v" by auto
  from stop_timer_timers [OF this] I show "k < w_next (set_session (stop_timer w t) a (shut s))"
    by (cases v) (auto simp: reg_inv_def)
qed simp_all

lemma endpoint_of:
  assumes "reg_inv w" "w_store w a = Some s" "ts_endpoint s = Some e"
  shows "\<exists>ep. w_eps w e = Some ep \<and> ep_inv ep"
  using reg_invD(1) [OF assms(1,2)] assms(3) by (auto simp: session_ok_def)

lemma closeTarget_inv: "reg_inv w \<Longrightarrow> reg_inv (closeTarget w a)"
proof -
  assume I: "reg_inv w"
  show ?thesis
  proof (cases "w_store w a")
    case None
    with I show ?thesis by (simp add: closeTarget_def)
  next
    case (Some s)
    have "reg_inv (release (set_session (stop_timer w (ts_timer s)) a (shut s)) a
        (ts_target s) (ts_endpoint s) (ts_cancel s))"
      by (rule release_inv [OF shut_inv [OF I Some]])
         (use endpoint_of [OF I Some] in auto)
    with I Some show ?thesis by (simp add: closeTarget_def)
  qed
qed

lemma filter_table_inv:
  assumes I: "reg_inv w" and r: "w_reg w = Some r"
  shows "reg_inv (w\<lparr>w_reg := Some (r\<lparr>rg_sessions := filter P (rg_sessions r)\<rparr>)\<rparr>)" (is "reg_inv ?w")
proof -
  have "table_ok w" using I by (simp add: reg_inv_def)
  note t = table_okD [OF this r]
  have "length (filter P (rg_sessions r)) \<le> length (rg_sessions r)" by simp
  with t(3) have "int (length (filter P (rg_sessions r))) \<le> rg_max r" by linarith
  moreover have "\<forall>(i, a)\<in>set (filter P (rg_sessions r)). \<exists>s. w_store w a = Some s \<and> id_ID (ts_identity s) = i"
    using t(4) by auto
  moreover have "distinct (map fst (filter P (rg_sessions r)))" "distinct (map snd (filter P (rg_sessions r)))"
    using t(1,2) by (simp_all add: distinct_map_filter)
  ultimately have "table_ok ?w" by (simp add: table_ok_def)
  moreover have "session_ok ?w a s = session_ok w a s" for a s by (rule session_ok_cong) simp_all
  ultimately show ?thesis using I by (simp add: reg_inv_def)
qed

lemma delete_id_inv: "reg_inv w \<Longrightarrow> reg_inv (delete_id w ident)"
  using filter_table_inv by (auto simp: delete_id_def split: option.split)

lemma remove_inv: "reg_inv w \<Longrightarrow> reg_inv (remove_session w ident)"
  by (auto simp: remove_session_def intro: finish_inv closeTarget_inv delete_id_inv split: option.split)

lemma expire_inv:
  assumes I: "reg_inv w"
  shows "reg_inv (expire w ident g)"
proof (cases "fst (expire_mark w ident g)")
  case None
  then have "snd (expire_mark w ident g) = w"
    by (auto simp: expire_mark_def split: option.splits if_splits)
  with None I show ?thesis by (auto simp: expire_def split: prod.split)
next
  case (Some r)
  then obtain a s where m: "expire_mark w ident g = (Some (a, s), set_session w a (shut s))"
    and s: "w_store w a = Some s"
    by (auto simp: expire_mark_def split: option.splits if_splits)
  have "reg_inv (set_session w a (shut s))"
    using shut_inv [OF I s, of None] by (simp add: stop_timer_def)
  from release_inv [OF this, of "ts_endpoint s" a "ts_target s" "ts_cancel s"] endpoint_of [OF I s]
  have "reg_inv (release (set_session w a (shut s)) a (ts_target s) (ts_endpoint s) (ts_cancel s))"
    by auto
  then show ?thesis
    by (auto simp: expire_def m expire_delete_def intro: finish_inv delete_id_inv)
qed

lemma closeAll_inv: "reg_inv w \<Longrightarrow> reg_inv (closeAll w)"
proof -
  assume I: "reg_inv w"
  have fold: "reg_inv v \<Longrightarrow> reg_inv (foldl (\<lambda>w' (_, a). finish (closeTarget w' a) a) v xs)"
    for v and xs :: "(byte list \<times> nat) list"
    by (induction xs arbitrary: v) (auto intro: finish_inv closeTarget_inv)
  show ?thesis
  proof (cases "w_reg w")
    case None
    with I show ?thesis by (simp add: closeAll_def)
  next
    case (Some r)
    from filter_table_inv [OF I Some, of "\<lambda>_. False"] have
      "reg_inv (w\<lparr>w_reg := Some (r\<lparr>rg_sessions := []\<rparr>)\<rparr>)" by simp
    from fold [OF this] Some show ?thesis by (simp add: closeAll_def)
  qed
qed

lemma bridge_inv: "reg_inv w \<Longrightarrow> reg_inv (bridge_ended w a)"
  by (auto simp: bridge_ended_def intro: finish_inv closeTarget_inv remove_inv split: option.split)

lemma watcher_inv: "reg_inv w \<Longrightarrow> reg_inv (detachWhenGenerationEnds w a st g)"
  unfolding detachWhenGenerationEnds_def
  by (auto split: sum.split) (metis detach_inv surjective_pairing)

lemma bind_either_inv:
  assumes "reg_inv w"
  shows "reg_inv (snd (bindTransport w a t g))" "reg_inv (snd (retryTransport w a t g))"
  using bindTransportMode_inv [OF assms] unfolding bindTransport_def retryTransport_def
  by (metis surjective_pairing)+

lemma open_inv:
  assumes I: "reg_inv w" and h: "handleTCPResumeOpen w req target rt limit od stream sent = (res, w')"
  shows "reg_inv w'"
proof (cases "\<exists>fx. w' = log_effects w fx")
  case True
  with I show ?thesis by auto
next
  case False
  with h obtain peer where p: "RequestBindingFromProtocol req = Ok peer"
    by (auto simp: handleTCPResumeOpen_def split: sum.splits)
  define own where "own = \<lparr>bd_Type = BindAck, bd_Identity = bd_Identity peer, bd_Generation = 1,
                  bd_SendOffset = 0, bd_ReceiveOffset = 0\<rparr>"
  from h False p obtain a w1 where r: "registerLogical w own (Some target) rt limit od = Ok (a, w1)"
    by (auto simp: handleTCPResumeOpen_def own_def split: sum.splits if_splits)
  note I1 = registerLogical_inv [OF I r]
  have bd: "reg_inv w2" if "bindTransport w1 a t g = (e, w2)" for t g e w2
    using that bind_either_inv(1) [OF I1, of a t g] by simp
  obtain res' where tail: "(res', w') = (case localBinding w1 a of
      Inl e \<Rightarrow> (Err e, remove_session w1 (id_ID (bd_Identity peer)))
    | Inr local \<Rightarrow>
      (case BindingToProtocol local TCPResumeModeOpen of
         Inl e \<Rightarrow> (Err (RegState e), remove_session w1 (id_ID (bd_Identity peer)))
       | Inr _ \<Rightarrow>
         if \<not> sent then (Err (RegEndpoint TransportError), remove_session w1 (id_ID (bd_Identity peer)))
         else (case bindTransport w1 a (Some stream) (bd_Generation local) of
                 (Some e, w2) \<Rightarrow> (Err e, remove_session w2 (id_ID (bd_Identity peer)))
               | (None, w2) \<Rightarrow> (Ok a, w2))))"
    using h False p r unfolding own_def
    by (auto simp: handleTCPResumeOpen_def Let_def split: if_splits)
  then show ?thesis
    using remove_inv [OF I1] by (auto dest: bd intro: remove_inv split: sum.splits if_splits prod.splits option.splits)
qed

lemma rebind_handler_inv:
  assumes I: "reg_inv w" and h: "handleTCPResumeRebind w req stream sent = (res, w')"
  shows "reg_inv w'"
proof (cases "w' = w")
  case True
  with I show ?thesis by simp
next
  case False
  with h obtain peer m where p: "RequestBindingFromProtocol req = Ok peer" "req = Some m"
    by (auto simp: handleTCPResumeRebind_def split: sum.splits option.splits)
  obtain r w1 where rb: "rebind w peer = (r, w1)" by (metis surj_pair)
  note I1 = rebind_inv [OF I rb]
  have d: "reg_inv (snd (detach v a b))" if "reg_inv v" for v a b
    using detach_inv [OF that] by (metis surjective_pairing)
  show ?thesis
  proof (cases r)
    case (Inl e)
    with h False p rb I1 show ?thesis by (auto simp: handleTCPResumeRebind_def split: if_splits)
  next
    case (Inr ar)
    then obtain a retry where ar: "r = Ok (a, retry)" by (cases ar) auto
    have bd: "reg_inv w2" if "bindTransport w1 a t g = (e, w2) \<or> retryTransport w1 a t g = (e, w2)" for t g e w2
      using that bind_either_inv [OF I1, of a t g] by auto
    have "(res, w') = (case localBinding w1 a of
        Inl e \<Rightarrow> (Err e, w1)
      | Inr local \<Rightarrow>
        (case BindingToProtocol local TCPResumeModeRebind of
           Inl e \<Rightarrow> (Err (RegState e), snd (detach w1 a local))
         | Inr _ \<Rightarrow>
           if \<not> sent then (Err (RegEndpoint TransportError), snd (detach w1 a local))
           else
             (case (if retry then retryTransport w1 a (Some stream) (bd_Generation local)
                    else bindTransport w1 a (Some stream) (bd_Generation local)) of
                (Some e, w2) \<Rightarrow> (Err e, snd (detach w2 a local))
              | (None, w2) \<Rightarrow> (Ok a, w2))))"
      using h False p rb ar by (auto simp: handleTCPResumeRebind_def split: if_splits)
    then show ?thesis
      using d I1
      by (cases retry) (auto intro!: d dest: bd [OF disjI1] bd [OF disjI2]
          split: sum.splits if_splits prod.splits option.splits)
  qed
qed

section \<open>Runs of an exit node\<close>

lemma receive_identity: "receive_frame s f = (r, s') \<Longrightarrow> ss_identity s' = ss_identity s"
  by (auto simp: receive_frame_def Let_def split: if_splits prod.splits option.splits)

lemma handle_identity: "handleBorrowed s f = (r, s') \<Longrightarrow> ss_identity s' = ss_identity s"
  by (auto simp: handleBorrowed_def Let_def dest: receive_identity split: if_splits sum.splits)

lemma read_frame_identity:
  assumes "read_frame e f = (e', fresh, go_on, fx)"
  shows "ss_identity (ep_state e') = ss_identity (ep_state e)"
proof -
  obtain fr ack er s' where h: "handleBorrowed (ep_state e) f = ((fr, ack, er), s')"
    by (metis prod_cases3 surj_pair)
  have i: "ss_identity s' = ss_identity (ep_state e)" by (rule handle_identity [OF h])
  have "ep_state e' = s'"
  proof (cases er)
    case (Some x)
    with h assms obtain fx' where "ep_fail (e\<lparr>ep_state := s'\<rparr>) (Some (StateError x)) = (e', fx')"
      by (auto simp: read_frame_def split: prod.splits)
    from fail_simps [OF this] show ?thesis by simp
  next
    case None
    show ?thesis
    proof (cases "fr_type f = FrameRST")
      case True
      with None h assms obtain fx' where
        "ep_fail (notifyProgress (e\<lparr>ep_state := s'\<rparr>)) (Some NetErrClosed) = (e', fx')"
        by (auto simp: read_frame_def Let_def split: prod.splits)
      from fail_simps [OF this] show ?thesis by (simp add: notifyProgress_def)
    next
      case False
      with None h assms show ?thesis
        by (auto simp: read_frame_def Let_def notifyProgress_def queueAck_def split: if_splits)
    qed
  qed
  with i show ?thesis by simp
qed

lemma data_identity: "dataRetained s p = Ok (f, s') \<Longrightarrow> ss_identity s' = ss_identity s"
  by (auto simp: dataRetained_def split: if_splits sum.splits prod.splits)

lemma write_step_identity:
  assumes "write_step now e pc = Some (e', pc')"
  shows "ss_identity (ep_state e') = ss_identity (ep_state e)"
proof (cases pc)
  case (WRetain p w)
  show ?thesis
  proof (cases "dataRetained (ep_state e) (chunk p w)")
    case (Inl err)
    with assms WRetain show ?thesis by (cases err) auto
  next
    case (Inr r)
    with assms WRetain show ?thesis by (cases r) (auto dest: data_identity)
  qed
qed (use assms in \<open>auto simp: waitProgress_def waitTransport_def split: if_splits option.splits\<close>)

lemma ep_step_identity: "ep_step e e' \<Longrightarrow> ss_identity (ep_state e') = ss_identity (ep_state e)"
proof (induction rule: ep_step.induct)
  case (bind e tr g retry err e' fx)
  then show ?case using bind_generation [OF bind] by (cases err) auto
next
  case (lose e tr g err e' fx)
  then show ?case by (auto simp: loseTransport_def split: option.splits if_splits)
next
  case (fails e err e' fx)
  then show ?case using fail_simps by metis
next
  case (closes e locked e' fx)
  then show ?case by (auto simp: ep_Close_def Let_def notifyProgress_def split: if_splits)
next
  case (wstep now e pc e' pc')
  then show ?case by (rule write_step_identity)
next
  case (ack e e' out)
  then show ?case
    by (auto simp: ack_take_def Let_def AckFrame_def deref_def split: if_splits option.splits)
next
  case (frame e f e' fresh go_on fx)
  then show ?case by (rule read_frame_identity)
next
  case (app_read now e n res e')
  then show ?case by (auto simp: ep_Read_def split: attempt.splits)
qed (auto simp: activate_ready_def SetWriteDeadline_def SetReadDeadline_def CloseWrite_begin_def
    state_FIN_def deref_def Let_def notifyProgress_def split: if_splits prod.splits)

text \<open>Requests, transports that end, timers that fire, streams that end, and everything an endpoint
  does by itself between two bindings.\<close>

inductive reg_step :: "world \<Rightarrow> world \<Rightarrow> bool" where
  opened: "handleTCPResumeOpen w req target rt limit od stream sent = (res, w') \<Longrightarrow> reg_step w w'"
| rebound: "handleTCPResumeRebind w req stream sent = (res, w') \<Longrightarrow> reg_step w w'"
| generation_ended: "(a, st, g) \<in> set (w_watch w) \<Longrightarrow> w_eps w st = Some ep \<Longrightarrow> GenerationDone ep g \<Longrightarrow>
     reg_step w (detachWhenGenerationEnds (w\<lparr>w_watch := remove1 (a, st, g) (w_watch w)\<rparr>) a st g)"
| watcher_cancelled: "(a, st, g) \<in> set (w_watch w) \<Longrightarrow>
     reg_step w (w\<lparr>w_watch := remove1 (a, st, g) (w_watch w)\<rparr>)"
| timer_fires: "w_timers w k = Some (t, ident, g) \<Longrightarrow> t \<le> w_now w \<Longrightarrow>
     reg_step w (expire (w\<lparr>w_timers := (w_timers w)(k := None)\<rparr>) ident g)"
| stream_ended: "reg_step w (bridge_ended w a)"
| shutdown: "reg_step w (closeAll w)"
| endpoint_moves: "w_eps w a = Some ep \<Longrightarrow> ep_step ep ep' \<Longrightarrow> ep_generation ep' = ep_generation ep \<Longrightarrow>
     reg_step w (w\<lparr>w_eps := (w_eps w)(a \<mapsto> ep')\<rparr>)"
| time_passes: "reg_step w (w\<lparr>w_now := Suc (w_now w)\<rparr>)"

inductive reg_reach :: "int \<Rightarrow> int \<Rightarrow> world \<Rightarrow> bool" for grace m where
  start: "reg_reach grace m (new_world (newResumeRegistry grace m))"
| more: "reg_reach grace m w \<Longrightarrow> reg_step w w' \<Longrightarrow> reg_reach grace m w'"

lemma timer_off_inv: "reg_inv w \<Longrightarrow> reg_inv (w\<lparr>w_timers := (w_timers w)(k := None)\<rparr>)"
proof -
  assume I: "reg_inv w"
  let ?w = "w\<lparr>w_timers := (w_timers w)(k := None)\<rparr>"
  have "session_ok ?w a s" if "w_store w a = Some s" for a s
  proof (rule session_ok_grows)
    show "session_ok w a s" using I that by (simp add: reg_inv_def)
  qed (auto simp: grows_def)
  with I show ?thesis by (auto simp: reg_inv_def table_ok_def)
qed

lemma reg_step_inv:
  assumes "reg_step w w'" "reg_inv w"
  shows "reg_inv w'"
  using assms
proof (induction rule: reg_step.induct)
  case (opened w req target rt limit od stream sent res w')
  then show ?case using open_inv by blast
next
  case (rebound w req stream sent res w')
  then show ?case using rebind_handler_inv by blast
next
  case (generation_ended a st g w ep)
  have "reg_inv (w\<lparr>w_watch := remove1 (a, st, g) (w_watch w)\<rparr>)"
    using generation_ended(4) by (subst reg_inv_cong [of _ w]) simp_all
  then show ?case by (rule watcher_inv)
next
  case (watcher_cancelled a st g w)
  then show ?case by (subst reg_inv_cong [of _ w]) simp_all
next
  case (timer_fires w k t ident g)
  then show ?case using expire_inv timer_off_inv by blast
next
  case (stream_ended w a)
  then show ?case by (rule bridge_inv)
next
  case (shutdown w)
  then show ?case by (rule closeAll_inv)
next
  case (endpoint_moves w a ep ep')
  then show ?case
    by (intro endpoint_inv [OF endpoint_moves(4,1)])
       (auto intro: ep_step_inv dest: ep_step_identity)
next
  case (time_passes w)
  then show ?case by (subst reg_inv_cong [of _ w]) simp_all
qed

lemma reg_reach_inv: "reg_reach grace m w \<Longrightarrow> reg_inv w"
  by (induction rule: reg_reach.induct) (auto intro: reg_inv_new reg_step_inv)

text \<open>The limits are fixed when the registry is made.\<close>

definition limits :: "world \<Rightarrow> (int \<times> int) option" where
  "limits w = map_option (\<lambda>r. (rg_max r, rg_grace r)) (w_reg w)"

lemma limits_basic [simp]:
  "limits (w\<lparr>w_store := f\<rparr>) = limits w" "limits (w\<lparr>w_eps := e\<rparr>) = limits w"
  "limits (w\<lparr>w_timers := t\<rparr>) = limits w" "limits (w\<lparr>w_watch := ws\<rparr>) = limits w"
  "limits (w\<lparr>w_now := n\<rparr>) = limits w" "limits (w\<lparr>w_next := n\<rparr>) = limits w"
  "limits (log_effects w fx) = limits w" "limits (stop_timer w tm) = limits w"
  "limits (release w a c ep b) = limits w"
  by (simp_all add: limits_def)

lemma limits_close [simp]:
  "limits (finish w a) = limits w" "limits (closeTarget w a) = limits w"
  "limits (delete_id w ident) = limits w"
  by (simp_all add: finish_def closeTarget_def delete_id_def split: option.split)
     (simp add: limits_def)

lemma limits_end [simp]:
  "limits (remove_session w ident) = limits w" "limits (bridge_ended w a) = limits w"
  by (simp_all add: remove_session_def bridge_ended_def split: option.split)

lemma limits_expire [simp]: "limits (expire w ident g) = limits w"
  by (auto simp: expire_def expire_mark_def expire_delete_def split: option.splits prod.splits if_splits)

lemma limits_closeAll [simp]: "limits (closeAll w) = limits w"
proof -
  have "limits (foldl (\<lambda>w' (_, a). finish (closeTarget w' a) a) v xs) = limits v"
    for v and xs :: "(byte list \<times> nat) list"
    by (induction xs arbitrary: v) auto
  moreover have "w_reg w = Some r \<Longrightarrow> limits (w\<lparr>w_reg := Some (r\<lparr>rg_sessions := []\<rparr>)\<rparr>) = limits w" for r
    by (simp add: limits_def)
  ultimately show ?thesis by (simp add: closeAll_def split: option.split)
qed

lemma limits_rebind: "rebind w peer = (res, w') \<Longrightarrow> limits w' = limits w"
  by (erule rebind_cases) simp_all

lemma limits_detach [simp]: "limits (snd (detach w a b)) = limits w"
proof -
  obtain err w' where d: "detach w a b = (err, w')" by (metis surj_pair)
  then have "limits w' = limits w" by (cases rule: detach_cases) simp_all
  with d show ?thesis by simp
qed

lemma limits_bind:
  "bindTransport w a t g = (err, w') \<Longrightarrow> limits w' = limits w"
  "retryTransport w a t g = (err, w') \<Longrightarrow> limits w' = limits w"
  by (auto simp: bindTransport_def retryTransport_def bindTransportMode_def Let_def
      split: option.splits if_splits prod.splits)

lemma limits_register: "registerLogical w b t r l d = Ok (a, w') \<Longrightarrow> limits w' = limits w"
  by (auto simp: registerLogical_def register_def Let_def limits_def
      split: option.splits if_splits prod.splits sum.splits)

lemma limits_open: "handleTCPResumeOpen w req target rt limit od stream sent = (res, w') \<Longrightarrow> limits w' = limits w"
  unfolding handleTCPResumeOpen_def Let_def
  by (auto dest!: limits_register limits_bind split: sum.splits if_splits prod.splits option.splits)

lemma limits_rebind_handler: "handleTCPResumeRebind w req stream sent = (res, w') \<Longrightarrow> limits w' = limits w"
  unfolding handleTCPResumeRebind_def
  by (auto dest!: limits_rebind dest: limits_bind split: sum.splits if_splits prod.splits option.splits)

lemma reg_step_limits: "reg_step w w' \<Longrightarrow> limits w' = limits w"
  by (induction rule: reg_step.induct)
     (auto simp: detachWhenGenerationEnds_def dest: limits_open limits_rebind_handler split: sum.split)

lemma reg_reach_limits:
  "reg_reach grace m w \<Longrightarrow> limits w = Some (if m \<le> 0 then 256 else m, if grace \<le> 0 then 15 else grace)"
proof (induction rule: reg_reach.induct)
  case start
  then show ?case
    by (simp add: new_world_def newResumeRegistry_def limits_def defaultResumeMaxSessions_def defaultResumeGrace_def)
next
  case (more w w')
  with reg_step_limits show ?case by simp
qed

section \<open>Rebinding in detail\<close>

lemma current_identity:
  assumes I: "reg_inv w" and s: "w_store w a = Some s" and l: "ts_state s \<noteq> None"
  shows "bd_Identity (current_binding w s) = ts_identity s" "bd_Type (current_binding w s) = BindAck"
proof -
  from l obtain e where e: "ts_state s = Some e" by blast
  from reg_invD(1) [OF I s] e obtain ep where ep: "w_eps w e = Some ep" "ss_identity (ep_state ep) = ts_identity s"
    "ts_generation s \<noteq> 0" by (auto simp: session_ok_def)
  with e show "bd_Identity (current_binding w s) = ts_identity s" "bd_Type (current_binding w s) = BindAck"
    by (simp_all add: current_binding_def Let_def state_Binding_def deref_def)
qed

text \<open>After any accepted rebind no expiry can touch the session until it is detached again.\<close>

lemma expire_attached:
  assumes "get_session w ident = Some a" "w_store w a = Some s"
    "ts_detachedAt s = None \<or> ts_generation s \<noteq> g"
  shows "expire w ident g = w"
  using assms by (auto simp: expire_def expire_mark_def)

lemma rebind_accepted:
  assumes "rebind w peer = (Ok (a, retry), w')"
  obtains s' where "w_store w' a = Some s'" "ts_detachedAt s' = None" "ts_timer s' = None"
    "ts_generation s' = bd_Generation peer" "\<not> ts_closed s'" "get_session w' (id_ID (bd_Identity peer)) = Some a"
    "w_eps w' = w_eps w"
    "\<exists>s. w_store w a = Some s \<and> \<not> ts_closed s \<and> ts_endpoint s' = ts_endpoint s \<and> ts_state s' = ts_state s \<and>
       ts_identity s' = ts_identity s \<and> retry = (bd_Generation peer = ts_generation s) \<and>
       ts_generation s \<le> ts_generation s' \<and> (\<not> retry \<longrightarrow> ts_generation s < ts_generation s')"
  using assms
proof (cases rule: rebind_cases)
  case (accepted a' s retry' s1)
  have lt: "\<not> retry \<Longrightarrow> ts_generation s < bd_Generation peer"
    using accepted(1,9,10) rebind_request_increases [of "current_binding w s" peer] by auto
  show ?thesis
    by (rule that [of "s1\<lparr>ts_detachedAt := None, ts_timer := None\<rparr>"])
       (use accepted lt in \<open>auto simp: get_session_def split: if_splits\<close>)
qed simp

lemma localBinding_ok:
  assumes I: "reg_inv w" and s: "w_store w a = Some s" "\<not> ts_closed s" "ts_state s = Some e"
  obtains b where "localBinding w a = Ok b" "bd_Generation b = ts_generation s"
    "bd_Identity b = ts_identity s" "\<exists>m. BindingToProtocol b TCPResumeModeRebind = Ok m"
proof -
  from reg_invD(1) [OF I s(1)] s(3) obtain ep where ep: "w_eps w e = Some ep"
    "ss_identity (ep_state ep) = ts_identity s" "ts_generation s \<noteq> 0" "identity_Valid (ts_identity s)"
    by (auto simp: session_ok_def)
  with s have "localBinding w a = Ok \<lparr>bd_Type = BindAck, bd_Identity = ts_identity s,
      bd_Generation = ts_generation s, bd_SendOffset = rb_next (ss_send (ep_state ep)),
      bd_ReceiveOffset = currentReceiveOffset (ep_state ep)\<rparr>" (is "_ = Ok ?b")
    by (simp add: localBinding_def state_Binding_def deref_def)
  moreover have "\<exists>m. BindingToProtocol ?b TCPResumeModeRebind = Ok m"
    using ep by (simp add: BindingToProtocol_def)
  ultimately show ?thesis by (intro that [of ?b]) auto
qed

text \<open>Once a response to an advancing rebind could not be written, the endpoint still has the old
  generation, and \<open>RetryBind\<close> refuses every retry.\<close>

definition stuck :: "world \<Rightarrow> byte list \<Rightarrow> u64 \<Rightarrow> bool" where
  "stuck w ident g \<longleftrightarrow>
     (\<exists>a s. get_session w ident = Some a \<and> w_store w a = Some s \<and> ts_generation s = g \<and>
        (\<forall>e ep. ts_endpoint s = Some e \<longrightarrow> w_eps w e = Some ep \<longrightarrow> ep_generation ep < g))"

lemma stuck_refuses:
  assumes st: "stuck w (id_ID (bd_Identity peer)) (bd_Generation peer)"
    and req: "RequestBindingFromProtocol req = Ok peer"
  shows "\<exists>e. fst (handleTCPResumeRebind w req t sent) = Err e"
proof (cases "rebind w peer")
  case (Pair res w1)
  show ?thesis
  proof (cases res)
    case (Inl e)
    with Pair req show ?thesis
      by (auto simp: handleTCPResumeRebind_def split: option.split)
  next
    case (Inr r)
    obtain a retry where r: "res = Ok (a, retry)" using Inr by (cases r) auto
    with Pair have rb: "rebind w peer = (Ok (a, retry), w1)" by simp
    from rebind_accepted [OF rb] obtain s' s where
      s': "w_store w1 a = Some s'" "get_session w1 (id_ID (bd_Identity peer)) = Some a"
      "ts_generation s' = bd_Generation peer" "w_eps w1 = w_eps w"
      and s: "w_store w a = Some s" "ts_endpoint s' = ts_endpoint s"
        "retry = (bd_Generation peer = ts_generation s)" by metis
    have "get_session w (id_ID (bd_Identity peer)) = Some a"
      using rb by (cases rule: rebind_cases) auto
    with st s have retry: retry and low: "\<And>e ep. ts_endpoint s = Some e \<Longrightarrow> w_eps w e = Some ep \<Longrightarrow>
        ep_generation ep < bd_Generation peer"
      by (auto simp: stuck_def)
    have neq: "\<And>e ep. ts_endpoint s = Some e \<Longrightarrow> w_eps w e = Some ep \<Longrightarrow> ep_generation ep \<noteq> bd_Generation peer"
      using low by fastforce
    have "fst (retryTransport w1 a (Some t) g) \<noteq> None" if "g = bd_Generation peer" for g
      using neq s s' that
      by (auto simp: retryTransport_def bindTransportMode_def ep_bind_def Let_def
          split: option.splits if_splits prod.splits) blast+
    moreover have "bd_Generation local = bd_Generation peer" if "localBinding w1 a = Ok local" for local
      using that s' by (auto simp: localBinding_def state_Binding_def deref_def split: option.splits if_splits sum.splits)
    ultimately show ?thesis
      using rb req retry
      by (auto simp: handleTCPResumeRebind_def split: option.splits sum.splits prod.splits)
  qed
qed

lemma detach_keeps:
  assumes "w_store w a = Some s"
  shows "w_reg (snd (detach w a b)) = w_reg w \<and> w_eps (snd (detach w a b)) = w_eps w \<and>
    (\<exists>s'. w_store (snd (detach w a b)) a = Some s' \<and> ts_generation s' = ts_generation s \<and>
       ts_endpoint s' = ts_endpoint s)"
proof -
  obtain err w' where d: "detach w a b = (err, w')" by (metis surj_pair)
  then have "snd (detach w a b) = w'" by simp
  with d assms show ?thesis by (cases rule: detach_cases) simp_all
qed

lemma unsent_response_stuck:
  assumes I: "reg_inv w" and rb: "rebind w peer = (Ok (a, False), wc)"
    and req: "RequestBindingFromProtocol req = Ok peer"
    and h: "handleTCPResumeRebind w req t False = (res, w1)" and mode: "tr_Mode (the req) = TCPResumeModeRebind"
  shows "stuck w1 (id_ID (bd_Identity peer)) (bd_Generation peer)"
proof -
  from rebind_accepted [OF rb] obtain s' s where
    s': "w_store wc a = Some s'" "get_session wc (id_ID (bd_Identity peer)) = Some a"
      "ts_generation s' = bd_Generation peer" "w_eps wc = w_eps w"
    and s: "w_store w a = Some s" "ts_endpoint s' = ts_endpoint s" "ts_generation s < ts_generation s'"
    by metis
  have low: "ep_generation ep < bd_Generation peer" if "ts_endpoint s = Some e" "w_eps w e = Some ep" for e ep
    using reg_invD(1) [OF I s(1)] that s(3) s'(3) by (auto simp: session_ok_def)
  obtain m where "req = Some m"
    using req by (cases req) (auto simp: RequestBindingFromProtocol_def binding_from_protocol_def split: sum.splits)
  with h rb req mode have "w1 = wc \<or> (\<exists>b. w1 = snd (detach wc a b))"
    by (auto simp: handleTCPResumeRebind_def split: sum.splits)
  then show ?thesis
  proof
    assume "w1 = wc"
    with s s' low show ?thesis by (auto simp: stuck_def)
  next
    assume "\<exists>b. w1 = snd (detach wc a b)"
    then obtain b where b: "w1 = snd (detach wc a b)" by blast
    from detach_keeps [OF s'(1), of b] s s' low show ?thesis
      by (auto simp: stuck_def get_session_def b)
  qed
qed

lemma rebind_attaches_lemma:
  assumes I: "reg_inv w" and rb: "rebind w peer = (Ok (a, False), wc)"
    and req: "RequestBindingFromProtocol (Some m) = Ok peer" "tr_Mode m = TCPResumeModeRebind"
    and ep: "w_store w a = Some s" "ts_endpoint s = Some e" "ts_state s = Some e" "w_eps w e = Some ep" "\<not> ep_closed ep"
  shows "\<exists>w' s' ep'. handleTCPResumeRebind w (Some m) t True = (Ok a, w') \<and> w_store w' a = Some s' \<and>
    ts_detachedAt s' = None \<and> ts_generation s' = bd_Generation peer \<and> w_eps w' e = Some ep' \<and>
    ep_transport ep' = Some t \<and> ep_generation ep' = bd_Generation peer"
proof -
  from rebind_accepted [OF rb] obtain s' where
    s': "w_store wc a = Some s'" "ts_detachedAt s' = None" "ts_generation s' = bd_Generation peer"
      "\<not> ts_closed s'" "w_eps wc = w_eps w" "ts_endpoint s' = Some e" "ts_state s' = Some e"
    and lt: "ts_generation s < bd_Generation peer"
    using ep by (metis option.inject)
  have Ic: "reg_inv wc" by (rule rebind_inv [OF I rb])
  obtain b where b: "localBinding wc a = Ok b" "bd_Generation b = bd_Generation peer"
    "\<exists>mm. BindingToProtocol b TCPResumeModeRebind = Ok mm"
    using localBinding_ok [OF Ic s'(1,4,7)] s'(3) by metis
  then obtain mm where mm: "BindingToProtocol b TCPResumeModeRebind = Ok mm" by blast
  have low: "ep_generation ep < bd_Generation peer" "bd_Generation peer \<noteq> 0"
    using reg_invD(1) [OF I ep(1)] ep(2-4) lt by (auto simp: session_ok_def)
  obtain err ep' fx where bd: "ep_bind ep (Some t) (bd_Generation peer) False = (err, ep', fx)"
    by (metis prod_cases3)
  with ep(5) low have ok: "err = None" by (auto simp: ep_bind_def Let_def not_le [symmetric] split: if_splits option.splits)
  from bind_generation [OF bd] ok have ep': "ep_transport ep' = Some t" "ep_generation ep' = bd_Generation peer" by auto
  have "bindTransport wc a (Some t) (bd_Generation b) =
      (None, (log_effects (wc\<lparr>w_eps := (w_eps wc)(e \<mapsto> ep')\<rparr>) [EndpointEffects e fx])
        \<lparr>w_watch := (a, e, bd_Generation peer) # w_watch wc\<rparr>)"
    using s' b(2) low bd ok ep(4) by (simp add: bindTransport_def bindTransportMode_def Let_def)
  with rb req b mm s' ep' show ?thesis
    by (simp add: handleTCPResumeRebind_def)
qed

section \<open>Properties\<close>

lemma rebind_identified:
  assumes I: "reg_inv w" and s: "w_store w a = Some s" "ts_state s \<noteq> None"
    and sized: "identity_sized (ts_identity s)" "identity_sized (bd_Identity peer)"
  defines "cur \<equiv> current_binding w s"
  shows "ValidateRebindRequest cur peer = None \<longleftrightarrow> bd_Type peer = BindOpen \<and> rebind_safe cur peer"
    and "ValidateRebindRetryRequest cur peer = None \<longleftrightarrow> bd_Type peer = BindOpen \<and>
      bd_Generation peer = ts_generation s \<and> ts_generation s \<noteq> 0 \<and>
      rebind_safe (cur\<lparr>bd_Generation := ts_generation s - 1\<rparr>) peer"
proof -
  note c = current_identity [OF I s]
  have sz: "identity_sized (bd_Identity cur)" using c sized by (simp add: cur_def)
  show "ValidateRebindRequest cur peer = None \<longleftrightarrow> bd_Type peer = BindOpen \<and> rebind_safe cur peer"
    using ValidateRebind_safe [OF sz sized(2)] c by (simp add: ValidateRebindRequest_def cur_def)
  show "ValidateRebindRetryRequest cur peer = None \<longleftrightarrow> bd_Type peer = BindOpen \<and>
      bd_Generation peer = ts_generation s \<and> ts_generation s \<noteq> 0 \<and>
      rebind_safe (cur\<lparr>bd_Generation := ts_generation s - 1\<rparr>) peer"
    using ValidateRebindRetryRequest_safe [OF sz sized(2)] c by (auto simp: cur_def)
qed

text \<open>A concrete stream at an exit: opened on transport 5, the transport lost, recovery armed.\<close>

definition demo_id :: identity where
  "demo_id = \<lparr>id_ID = 1 # replicate 15 0, id_Token = replicate 31 0 @ [7]\<rparr>"

definition demo_open :: tcp_resume_binding where
  "demo_open = \<lparr>tr_Mode = TCPResumeModeOpen, tr_StreamID = id_ID demo_id, tr_Token = id_Token demo_id,
     tr_Generation = 1, tr_SendOffset = 0, tr_ReceiveOffset = 0\<rparr>"

definition demo_rebind :: tcp_resume_binding where
  "demo_rebind = demo_open\<lparr>tr_Mode := TCPResumeModeRebind, tr_Generation := 2\<rparr>"

definition demo_peer :: "u64 \<Rightarrow> binding" where
  "demo_peer g = \<lparr>bd_Type = BindOpen, bd_Identity = demo_id, bd_Generation = g,
     bd_SendOffset = 0, bd_ReceiveOffset = 0\<rparr>"

definition demo_world :: world where
  "demo_world = snd (handleTCPResumeOpen (new_world (newResumeRegistry 0 0)) (Some demo_open) 9 ''t'' 0 None 5 True)"

lemma demo_id_valid: "identity_Valid demo_id" "identity_sized demo_id"
  by code_simp+

lemma demo_requests:
  "RequestBindingFromProtocol (Some demo_open) = Ok (demo_peer 1)"
  "RequestBindingFromProtocol (Some demo_rebind) = Ok (demo_peer 2)"
  using demo_id_valid
  by (simp_all add: RequestBindingFromProtocol_def binding_from_protocol_def IdentityFromProtocol_def
      demo_open_def demo_rebind_def demo_peer_def Let_def identity_sized_def TCPResumeModeRebind_def)

lemma registry_demo_reach: "reg_reach 0 0 demo_world"
  unfolding demo_world_def
  by (rule reg_reach.more [OF reg_reach.start opened [OF prod.collapse [symmetric]]])

lemmas reg_eval = handleTCPResumeOpen_def demo_requests demo_peer_def registerLogical_def register_def
  new_world_def newResumeRegistry_def defaultResumeMaxSessions_def defaultResumeGrace_def Let_def
  NewStreamState_def NewEndpoint_def localBinding_def state_Binding_def deref_def
  BindingToProtocol_def bindTransport_def bindTransportMode_def ep_bind_def prune_generations_def
  log_effects_def

lemma demo_session:
  "\<exists>s ep. w_store demo_world 0 = Some s \<and> get_session demo_world (id_ID demo_id) = Some 0 \<and>
    ts_identity s = demo_id \<and> ts_state s = Some 0 \<and> ts_endpoint s = Some 0 \<and> ts_generation s = 1 \<and>
    \<not> ts_closed s \<and> w_eps demo_world 0 = Some ep \<and> \<not> ep_closed ep \<and>
    bd_SendOffset (current_binding demo_world s) = 0 \<and> bd_ReceiveOffset (current_binding demo_world s) = 0"
  using demo_id_valid
  by (simp add: demo_world_def reg_eval get_session_def current_binding_def NewReplayBuffer_def
      currentReceiveOffset_def)

lemma demo_rebinds: "\<exists>w'. rebind demo_world (demo_peer 2) = (Ok (0, False), w')"
proof -
  obtain s where s: "w_store demo_world 0 = Some s" "get_session demo_world (id_ID demo_id) = Some 0"
    "ts_identity s = demo_id" "ts_state s = Some 0" "ts_generation s = 1" "\<not> ts_closed s"
    "bd_SendOffset (current_binding demo_world s) = 0" "bd_ReceiveOffset (current_binding demo_world s) = 0"
    using demo_session by blast
  have I: "reg_inv demo_world" by (rule reg_reach_inv [OF registry_demo_reach])
  have "bd_Identity (current_binding demo_world s) = demo_id"
    using current_identity(1) [OF I s(1)] s(3,4) by simp
  then have "rebind_safe (current_binding demo_world s) (demo_peer 2)"
    using s demo_id_valid by (simp add: rebind_safe_def demo_peer_def)
  then have "ValidateRebindRequest (current_binding demo_world s) (demo_peer 2) = None"
    using rebind_identified(1) [OF I s(1)] s(3,4) demo_id_valid by (simp add: demo_peer_def)
  moreover have "w_reg demo_world \<noteq> None"
    using reg_reach_limits [OF registry_demo_reach] by (auto simp: limits_def)
  ultimately show ?thesis
    using s demo_id_valid by (simp add: rebind_def demo_peer_def Let_def)
qed



text \<open>C7. Which rebinds an exit accepts: for an open session, exactly those that name its identity and
  token, carry offsets consistent with what both sides sent and received, and either move to the
  next generation, or repeat the current one while the session is detached.\<close>

theorem rebind_accepts_iff:
  assumes "reg_reach grace m w" and peer: "bd_Type peer = BindOpen" "identity_sized (bd_Identity peer)"
      "identity_Valid (bd_Identity peer)" "bd_Generation peer \<noteq> 0"
    and s: "get_session w (id_ID (bd_Identity peer)) = Some a" "w_store w a = Some s" "\<not> ts_closed s"
      "ts_state s \<noteq> None" "identity_sized (ts_identity s)"
  shows "(\<exists>retry w'. rebind w peer = (Ok (a, retry), w')) \<longleftrightarrow>
    (if bd_Generation peer = ts_generation s
     then ts_detachedAt s \<noteq> None \<and>
       rebind_safe ((current_binding w s)\<lparr>bd_Generation := ts_generation s - 1\<rparr>) peer
     else rebind_safe (current_binding w s) peer)"
proof -
  have I: "reg_inv w" by (rule reg_reach_inv [OF assms(1)])
  note v = rebind_identified [OF I s(2,4,5) peer(2)]
  have r: "w_reg w \<noteq> None" using reg_reach_limits [OF assms(1)] by (auto simp: limits_def)
  show ?thesis
  proof (cases "bd_Generation peer = ts_generation s")
    case True
    have "(\<exists>retry w'. rebind w peer = (Ok (a, retry), w')) \<longleftrightarrow>
        ts_detachedAt s \<noteq> None \<and> ValidateRebindRetryRequest (current_binding w s) peer = None"
      using peer s r True
      by (cases "ValidateRebindRetryRequest (current_binding w s) peer") (auto simp: rebind_def Let_def)
    then show ?thesis using v(2) peer True by auto
  next
    case False
    have "(\<exists>retry w'. rebind w peer = (Ok (a, retry), w')) \<longleftrightarrow>
        ValidateRebindRequest (current_binding w s) peer = None"
      using peer s r False
      by (cases "ValidateRebindRequest (current_binding w s) peer") (auto simp: rebind_def Let_def)
    then show ?thesis using v(1) peer False by auto
  qed
qed

theorem rebind_accepts_iff_witness:
  "\<exists>retry w'. rebind demo_world (demo_peer 2) = (Ok (0, retry), w')"
proof -
  obtain s where s: "w_store demo_world 0 = Some s" "get_session demo_world (id_ID demo_id) = Some 0"
    "ts_identity s = demo_id" "ts_state s = Some 0" "ts_generation s = 1" "\<not> ts_closed s"
    "bd_SendOffset (current_binding demo_world s) = 0" "bd_ReceiveOffset (current_binding demo_world s) = 0"
    using demo_session by blast
  have "bd_Identity (current_binding demo_world s) = demo_id"
    using current_identity(1) [OF reg_reach_inv [OF registry_demo_reach] s(1)] s(3,4) by simp
  then have "rebind_safe (current_binding demo_world s) (demo_peer 2)"
    using s demo_id_valid by (simp add: rebind_safe_def demo_peer_def)
  with rebind_accepts_iff [OF registry_demo_reach, of "demo_peer 2" 0 s] s demo_id_valid show ?thesis
    by (simp add: demo_peer_def)
qed

text \<open>An accepted rebind disarms recovery: the session is attached under the accepted generation, and
  no expiry callback, of any generation and however late, changes anything until it is detached
  again. A refused rebind leaves the whole exit unchanged.\<close>

theorem rebind_disarms_expiry:
  "case rebind w peer of
     (Inl e, w') \<Rightarrow> w' = w
   | (Inr (a, retry), w') \<Rightarrow>
       currentGeneration w' a = bd_Generation peer \<and>
       (\<forall>g. expire w' (id_ID (bd_Identity peer)) g = w')"
proof (cases "rebind w peer")
  case (Pair res w')
  show ?thesis
  proof (cases res)
    case (Inl e)
    from Pair have "rebind w peer = (res, w')" .
    then have "w' = w" by (cases rule: rebind_cases) (use Inl in auto)
    with Pair Inl show ?thesis by simp
  next
    case (Inr r)
    obtain a retry where r: "res = Ok (a, retry)" using Inr by (cases r) auto
    with Pair have rb: "rebind w peer = (Ok (a, retry), w')" by simp
    from rebind_accepted [OF rb] obtain s' where s': "w_store w' a = Some s'" "ts_detachedAt s' = None"
      "ts_generation s' = bd_Generation peer" "get_session w' (id_ID (bd_Identity peer)) = Some a" by metis
    with rb show ?thesis using expire_attached [OF s'(4,1)] by (simp add: currentGeneration_def)
  qed
qed

text \<open>A rebind to the next generation whose response can be written ends with the new transport in
  place: registry and endpoint agree on the generation and the session is attached.\<close>

theorem rebind_attaches:
  assumes "reg_reach grace m w" "rebind w peer = (Ok (a, False), wc)"
    "RequestBindingFromProtocol (Some msg) = Ok peer" "tr_Mode msg = TCPResumeModeRebind"
    "w_store w a = Some s" "ts_endpoint s = Some e" "ts_state s = Some e" "w_eps w e = Some ep" "\<not> ep_closed ep"
  shows "\<exists>w' s' ep'. handleTCPResumeRebind w (Some msg) t True = (Ok a, w') \<and> w_store w' a = Some s' \<and>
    ts_detachedAt s' = None \<and> ts_generation s' = bd_Generation peer \<and> w_eps w' e = Some ep' \<and>
    ep_transport ep' = Some t \<and> ep_generation ep' = bd_Generation peer"
  by (rule rebind_attaches_lemma [OF reg_reach_inv [OF assms(1)] assms(2-9)])

theorem rebind_attaches_witness:
  "\<exists>w'. handleTCPResumeRebind demo_world (Some demo_rebind) 6 True = (Ok 0, w')"
proof -
  obtain s ep w' where s: "w_store demo_world 0 = Some s" "ts_state s = Some 0" "ts_endpoint s = Some 0"
    "w_eps demo_world 0 = Some ep" "\<not> ep_closed ep" and r: "rebind demo_world (demo_peer 2) = (Ok (0, False), w')"
    using demo_session demo_rebinds by blast
  have "tr_Mode demo_rebind = TCPResumeModeRebind" by (simp add: demo_rebind_def)
  from rebind_attaches [OF registry_demo_reach r demo_requests(2) this s(1,3,2,4,5)] show ?thesis by blast
qed

text \<open>A rebind whose response could not be written cannot be retried: the registry accepts the same
  generation again, but the endpoint was never bound to it and its \<open>RetryBind\<close> refuses, so every
  retry of the same request fails.\<close>

theorem unsent_response_not_retryable:
  assumes "reg_reach grace m w" "rebind w peer = (Ok (a, False), wc)"
    "RequestBindingFromProtocol req = Ok peer" "tr_Mode (the req) = TCPResumeModeRebind"
    "handleTCPResumeRebind w req t False = (res, w1)"
  shows "\<exists>e. fst (handleTCPResumeRebind w1 req t' sent) = Err e"
  by (rule stuck_refuses [OF unsent_response_stuck [OF reg_reach_inv [OF assms(1)] assms(2,3,5,4)] assms(3)])

theorem unsent_response_not_retryable_witness:
  "\<exists>e. fst (handleTCPResumeRebind (snd (handleTCPResumeRebind demo_world (Some demo_rebind) 6 False))
     (Some demo_rebind) 7 True) = Err e"
proof -
  obtain w' where r: "rebind demo_world (demo_peer 2) = (Ok (0, False), w')"
    using demo_rebinds by blast
  have m: "tr_Mode (the (Some demo_rebind)) = TCPResumeModeRebind" by (simp add: demo_rebind_def)
  show ?thesis
    by (rule unsent_response_not_retryable [OF registry_demo_reach r demo_requests(2) m prod.collapse [symmetric]])
qed

end
