(* ===== verification/Wire_Codec.thy ===== *)
theory Wire_Codec
  imports Prelude
begin

text \<open>
  \<open>internal/protocol/codec.go\<close> and \<open>udp_frame.go\<close>: the header that opens every multiplexed stream,
  the length-prefixed JSON control frames and the length-prefixed datagrams of UDP-over-stream.
  Go strings are byte lists. \<open>encoding/json\<close> is a parameter: what the code relies on is that
  \<open>Unmarshal\<close> undoes \<open>Marshal\<close> on the values it sends.
\<close>

section \<open>Errors and single writes\<close>

datatype codec_error =
    StringTooLong | InvalidMagic u16 | UnsupportedVersion byte | PayloadTooLarge nat
  | MarshalFailed | UnmarshalFailed | CodecIO io_error

text \<open>All writers of this package send one buffer and turn a short count into \<open>io.ErrShortWrite\<close>.\<close>

definition write_once :: "'w writer \<Rightarrow> 'w \<Rightarrow> byte list \<Rightarrow> 'w \<times> codec_error option" where
  "write_once wr w buf =
     (case wr w buf of
        (w', n, Some e) \<Rightarrow> (w', Some (CodecIO e))
      | (w', n, None) \<Rightarrow> (w', if n < length buf then Some (CodecIO ShortWrite) else None))"

section \<open>The stream header\<close>

definition MaxStringLen :: nat where "MaxStringLen = 255"
definition MagicHeader :: u16 where "MagicHeader = 0x5250"
definition CurrentVersion :: byte where "CurrentVersion = 3"

record stream_header =
  sh_Magic :: u16
  sh_Version :: byte
  sh_Type :: byte
  sh_RequestID :: "byte list"
  sh_ClientDeviceID :: "byte list"
  sh_ExitDeviceID :: "byte list"

definition short_string :: "byte list \<Rightarrow> byte list" where
  "short_string s = word_of_nat (length s) # s"

definition header_defaults :: "stream_header \<Rightarrow> stream_header" where
  "header_defaults h =
     (let h1 = (if sh_Magic h = 0 then h\<lparr>sh_Magic := MagicHeader\<rparr> else h)
      in if sh_Version h1 = 0 then h1\<lparr>sh_Version := CurrentVersion\<rparr> else h1)"

definition header_bytes :: "stream_header \<Rightarrow> byte list" where
  "header_bytes h =
     put_u16 (sh_Magic h) @ [sh_Version h, sh_Type h] @ short_string (sh_RequestID h) @
     short_string (sh_ClientDeviceID h) @ short_string (sh_ExitDeviceID h)"

text \<open>The caller's header is filled in place, also when the strings turn out too long.\<close>

definition WriteStreamHeader ::
  "'w writer \<Rightarrow> 'w \<Rightarrow> stream_header \<Rightarrow> stream_header \<times> 'w \<times> codec_error option" where
  "WriteStreamHeader wr w h =
     (let h' = header_defaults h in
      if length (sh_RequestID h') > MaxStringLen \<or> length (sh_ClientDeviceID h') > MaxStringLen \<or>
         length (sh_ExitDeviceID h') > MaxStringLen
      then (h', w, Some StringTooLong)
      else (h', write_once wr w (header_bytes h')))"

definition readString :: "byte list \<Rightarrow> codec_error + (byte list \<times> byte list)" where
  "readString r =
     (case read_full 1 r of
        Inl e \<Rightarrow> Err (CodecIO e)
      | Inr (lenBuf, r') \<Rightarrow>
        let strLen = unat (hd lenBuf) in
        if strLen = 0 then Ok ([], r')
        else (case read_full strLen r' of Inl e \<Rightarrow> Err (CodecIO e) | Inr res \<Rightarrow> Ok res))"

definition ReadStreamHeader :: "byte list \<Rightarrow> codec_error + (stream_header \<times> byte list)" where
  "ReadStreamHeader r =
     (case read_full 4 r of
        Inl e \<Rightarrow> Err (CodecIO e)
      | Inr (fixedBuf, r1) \<Rightarrow>
        let magic = get_u16 (take 2 fixedBuf); version = fixedBuf ! 2; frameType = fixedBuf ! 3 in
        if magic \<noteq> MagicHeader then Err (InvalidMagic magic)
        else if version \<noteq> CurrentVersion then Err (UnsupportedVersion version)
        else
          (case readString r1 of
             Inl e \<Rightarrow> Err e
           | Inr (reqID, r2) \<Rightarrow>
             (case readString r2 of
                Inl e \<Rightarrow> Err e
              | Inr (clientID, r3) \<Rightarrow>
                (case readString r3 of
                   Inl e \<Rightarrow> Err e
                 | Inr (exitID, r4) \<Rightarrow>
                   Ok (\<lparr>sh_Magic = magic, sh_Version = version, sh_Type = frameType,
                        sh_RequestID = reqID, sh_ClientDeviceID = clientID,
                        sh_ExitDeviceID = exitID\<rparr>, r4)))))"

definition header_wf :: "stream_header \<Rightarrow> bool" where
  "header_wf h \<longleftrightarrow> sh_Magic h = MagicHeader \<and> sh_Version h = CurrentVersion \<and>
     length (sh_RequestID h) \<le> MaxStringLen \<and> length (sh_ClientDeviceID h) \<le> MaxStringLen \<and>
     length (sh_ExitDeviceID h) \<le> MaxStringLen"

lemma readString_short [simp]:
  assumes "length s \<le> MaxStringLen"
  shows "readString (short_string s @ rest) = Ok (s, rest)"
proof -
  have "unat (word_of_nat (length s) :: byte) = length s"
    using assms by (simp add: unat_byte_of_nat MaxStringLen_def)
  then show ?thesis
    by (simp add: readString_def short_string_def read_full_def Let_def)
qed

lemma ReadStreamHeader_bytes:
  assumes "header_wf h"
  shows "ReadStreamHeader (header_bytes h @ rest) = Ok (h, rest)"
proof -
  let ?fixed = "put_u16 (sh_Magic h) @ [sh_Version h, sh_Type h]"
  let ?strs = "short_string (sh_RequestID h) @ short_string (sh_ClientDeviceID h) @
     short_string (sh_ExitDeviceID h) @ rest"
  have "read_full 4 (?fixed @ ?strs) = Ok (?fixed, ?strs)"
    by (rule read_full_append) simp
  moreover have "header_bytes h @ rest = ?fixed @ ?strs" by (simp add: header_bytes_def)
  moreover have "?fixed ! 2 = sh_Version h" "?fixed ! 3 = sh_Type h"
    by (simp_all add: nth_append)
  ultimately show ?thesis
    using assms by (simp add: ReadStreamHeader_def header_wf_def Let_def del: append.simps)
qed

interpretation headers: framed_codec header_bytes ReadStreamHeader header_wf
  by unfold_locales (rule ReadStreamHeader_bytes)

text \<open>What a decoded header guarantees: it is well-formed, and the bytes consumed are its encoding.\<close>

lemma readString_OkD:
  assumes "readString r = Ok (s, rest)"
  shows "r = short_string s @ rest \<and> length s \<le> MaxStringLen"
proof -
  from assms obtain l r' where r: "read_full 1 r = Ok (l, r')"
    by (auto simp: readString_def split: sum.splits)
  then have l: "r = l @ r'" "length l = 1" by (simp_all add: read_full_Ok)
  then obtain b where b: "l = [b]" by (cases l) auto
  have "unat b < 256" using unsigned_less [of b] by simp
  moreover have "unat b = length s \<and> r' = s @ rest"
  proof (cases "unat b = 0")
    case True
    with assms r b show ?thesis by (auto simp: readString_def Let_def)
  next
    case False
    with assms r b have "read_full (unat b) r' = Ok (s, rest)"
      by (auto simp: readString_def Let_def split: sum.splits)
    then show ?thesis by (simp add: read_full_Ok)
  qed
  moreover have "b = word_of_nat (unat b)" by simp
  ultimately show ?thesis
    using l b by (auto simp: short_string_def MaxStringLen_def simp del: word_unat_eq_iff) 
qed

lemma ReadStreamHeader_OkD:
  assumes "ReadStreamHeader r = Ok (h, rest)"
  shows "header_wf h \<and> r = header_bytes h @ rest"
proof -
  from assms obtain fixed r1 where f: "read_full 4 r = Ok (fixed, r1)"
    by (auto simp: ReadStreamHeader_def split: sum.splits)
  then have r: "r = fixed @ r1" "length fixed = 4" by (simp_all add: read_full_Ok)
  from assms f obtain a r2 b r3 c where
    s: "readString r1 = Ok (a, r2)" "readString r2 = Ok (b, r3)" "readString r3 = Ok (c, rest)"
    and h: "h = \<lparr>sh_Magic = get_u16 (take 2 fixed), sh_Version = fixed ! 2, sh_Type = fixed ! 3,
              sh_RequestID = a, sh_ClientDeviceID = b, sh_ExitDeviceID = c\<rparr>"
    and ok: "get_u16 (take 2 fixed) = MagicHeader" "fixed ! 2 = CurrentVersion"
    by (auto simp: ReadStreamHeader_def Let_def split: if_splits sum.splits)
  note s' = readString_OkD [OF s(1)] readString_OkD [OF s(2)] readString_OkD [OF s(3)]
  have "fixed = take 2 fixed @ drop 2 fixed" by simp
  also have "drop 2 fixed = [fixed ! 2, fixed ! 3]"
    using r(2) by (simp add: nth_Cons_drop numeral_2_eq_2 numeral_3_eq_3)
  finally have "fixed = put_u16 (get_u16 (take 2 fixed)) @ [fixed ! 2, fixed ! 3]"
    using r(2) by simp
  with r(1) s' ok show ?thesis
    by (simp add: h header_wf_def header_bytes_def)
qed

section \<open>Length-prefixed frames\<close>

definition MaxJSONPayloadLen :: nat where "MaxJSONPayloadLen = 1048576"
definition MaxUDPDatagramPayload :: nat where "MaxUDPDatagramPayload = 65507"

definition prefixed :: "byte list \<Rightarrow> byte list" where
  "prefixed data = put_u32 (word_of_nat (length data)) @ data"

definition read_prefixed :: "nat \<Rightarrow> byte list \<Rightarrow> codec_error + (byte list \<times> byte list)" where
  "read_prefixed limit r =
     (case read_full 4 r of
        Inl e \<Rightarrow> Err (CodecIO e)
      | Inr (lenBuf, r1) \<Rightarrow>
        let n = unat (get_u32 lenBuf) in
        if n > limit then Err (PayloadTooLarge n)
        else (case read_full n r1 of Inl e \<Rightarrow> Err (CodecIO e) | Inr res \<Rightarrow> Ok res))"

definition WriteJSON ::
  "('v \<Rightarrow> byte list option) \<Rightarrow> 'w writer \<Rightarrow> 'w \<Rightarrow> 'v \<Rightarrow> 'w \<times> codec_error option" where
  "WriteJSON marshal wr w val =
     (case marshal val of
        None \<Rightarrow> (w, Some MarshalFailed)
      | Some data \<Rightarrow>
        if length data > MaxJSONPayloadLen then (w, Some (PayloadTooLarge (length data)))
        else write_once wr w (prefixed data))"

definition ReadJSON ::
  "(byte list \<Rightarrow> 'v option) \<Rightarrow> byte list \<Rightarrow> codec_error + ('v \<times> byte list)" where
  "ReadJSON unmarshal r =
     (case read_prefixed MaxJSONPayloadLen r of
        Inl e \<Rightarrow> Err e
      | Inr (data, rest) \<Rightarrow>
        (case unmarshal data of None \<Rightarrow> Err UnmarshalFailed | Some v \<Rightarrow> Ok (v, rest)))"

definition WriteUDPDatagram :: "'w writer \<Rightarrow> 'w \<Rightarrow> byte list \<Rightarrow> 'w \<times> codec_error option" where
  "WriteUDPDatagram wr w payload =
     (if length payload > MaxUDPDatagramPayload then (w, Some (PayloadTooLarge (length payload)))
      else (case wr w (prefixed payload) of
              (w', n, Some e) \<Rightarrow> (w', Some (CodecIO e))
            | (w', n, None) \<Rightarrow>
                (w', if n \<noteq> length (prefixed payload) then Some (CodecIO ShortWrite) else None)))"

definition ReadUDPDatagram :: "byte list \<Rightarrow> codec_error + (byte list \<times> byte list)" where
  "ReadUDPDatagram = read_prefixed MaxUDPDatagramPayload"

lemma read_prefixed_append:
  assumes "length data \<le> limit" "limit < 4294967296"
  shows "read_prefixed limit (prefixed data @ rest) = Ok (data, rest)"
proof -
  have "unat (word_of_nat (length data) :: u32) = length data"
    using assms by (simp add: unat_of_nat take_bit_eq_mod)
  moreover have "read_full 4 (put_u32 (word_of_nat (length data)) @ data @ rest) =
      Ok (put_u32 (word_of_nat (length data)), data @ rest)"
    by (rule read_full_append) simp
  ultimately show ?thesis
    using assms by (simp add: read_prefixed_def prefixed_def Let_def)
qed

lemma read_prefixed_OkD:
  assumes "read_prefixed limit r = Ok (data, rest)"
  shows "r = prefixed data @ rest \<and> length data \<le> limit"
proof -
  from assms obtain l r1 where l: "read_full 4 r = Ok (l, r1)"
    by (auto simp: read_prefixed_def split: sum.splits)
  then have r: "r = l @ r1" "length l = 4" by (simp_all add: read_full_Ok)
  with assms l have d: "r1 = data @ rest" "length data = unat (get_u32 l)" "length data \<le> limit"
    by (auto simp: read_prefixed_def Let_def read_full_Ok split: if_splits sum.splits)
  then have "word_of_nat (length data) = get_u32 l" by simp
  with r d show ?thesis by (simp add: prefixed_def)
qed

interpretation datagrams: framed_codec prefixed ReadUDPDatagram "\<lambda>p. length p \<le> MaxUDPDatagramPayload"
  by unfold_locales (simp add: ReadUDPDatagram_def read_prefixed_append MaxUDPDatagramPayload_def)

text \<open>A writer that takes everything it is given.\<close>

definition sink :: "byte list writer" where
  "sink w p = (w @ p, length p, None)"

lemma write_once_sink [simp]: "write_once sink w p = (w @ p, None)"
  by (simp add: write_once_def sink_def)

section \<open>Properties\<close>

text \<open>C17. Stream headers round-trip: what \<open>WriteStreamHeader\<close> sends for a header with the protocol's
  magic and version (given or defaulted), followed by anything, is read back as that header and
  leaves exactly what followed; and every header that is read was written by these bytes.\<close>

theorem stream_header_roundtrip:
  assumes "sh_Magic h = 0 \<or> sh_Magic h = MagicHeader" "sh_Version h = 0 \<or> sh_Version h = CurrentVersion"
    and "WriteStreamHeader sink w h = (h', w', None)"
  shows "\<exists>bs. w' = w @ bs \<and> ReadStreamHeader (bs @ rest) = Ok (h', rest) \<and>
    (\<forall>r g s. ReadStreamHeader r = Ok (g, s) \<longrightarrow> r = header_bytes g @ s \<and> header_wf g)"
proof -
  from assms(3) have h': "h' = header_defaults h" and w': "w' = w @ header_bytes h'"
    and short: "length (sh_RequestID h') \<le> MaxStringLen" "length (sh_ClientDeviceID h') \<le> MaxStringLen"
      "length (sh_ExitDeviceID h') \<le> MaxStringLen"
    by (auto simp: WriteStreamHeader_def Let_def split: if_splits)
  have "header_wf h'"
    using assms(1,2) short by (auto simp: header_wf_def h' header_defaults_def Let_def split: if_splits)
  then show ?thesis using w' headers.dec_enc ReadStreamHeader_OkD by blast
qed

theorem stream_header_roundtrip_witness:
  "\<exists>bs. fst (snd (WriteStreamHeader sink [] \<lparr>sh_Magic = 0, sh_Version = 0, sh_Type = 8, sh_RequestID = [114],
       sh_ClientDeviceID = [], sh_ExitDeviceID = [101]\<rparr>)) = [] @ bs \<and>
     ReadStreamHeader (bs @ [9]) = Ok (\<lparr>sh_Magic = MagicHeader, sh_Version = CurrentVersion, sh_Type = 8,
       sh_RequestID = [114], sh_ClientDeviceID = [], sh_ExitDeviceID = [101]\<rparr>, [9])"
  using stream_header_roundtrip [of "\<lparr>sh_Magic = 0, sh_Version = 0, sh_Type = 8, sh_RequestID = [114],
       sh_ClientDeviceID = [], sh_ExitDeviceID = [101]\<rparr>" "[]" _ _ "[9]"]
  by (simp add: WriteStreamHeader_def header_defaults_def Let_def MaxStringLen_def)

text \<open>JSON control frames round-trip through any stream when the JSON library decodes what it
  encoded, and a frame is refused exactly when its payload exceeds one megabyte.\<close>

theorem json_roundtrip:
  assumes "marshal v = Some data" "unmarshal data = Some v"
  shows "if length data \<le> MaxJSONPayloadLen
    then \<exists>bs. WriteJSON marshal sink w v = (w @ bs, None) \<and> ReadJSON unmarshal (bs @ rest) = Ok (v, rest)
    else WriteJSON marshal sink w v = (w, Some (PayloadTooLarge (length data))) \<and>
      (length data < 4294967296 \<longrightarrow>
         ReadJSON unmarshal (prefixed data @ rest) = Err (PayloadTooLarge (length data)))"
proof (cases "length data \<le> MaxJSONPayloadLen")
  case True
  with assms read_prefixed_append [OF True, of rest] show ?thesis
    by (simp add: WriteJSON_def ReadJSON_def MaxJSONPayloadLen_def)
next
  case False
  have "read_prefixed MaxJSONPayloadLen (prefixed data @ rest) = Err (PayloadTooLarge (length data))"
    if "length data < 4294967296"
  proof -
    have "unat (word_of_nat (length data) :: u32) = length data"
      using that by (simp add: unat_of_nat take_bit_eq_mod)
    moreover have "read_full 4 (put_u32 (word_of_nat (length data)) @ data @ rest) =
        Ok (put_u32 (word_of_nat (length data)), data @ rest)"
      by (rule read_full_append) simp
    ultimately show ?thesis
      using False by (simp add: read_prefixed_def prefixed_def Let_def)
  qed
  with False assms show ?thesis by (simp add: WriteJSON_def ReadJSON_def)
qed

theorem json_roundtrip_witness:
  "\<exists>bs. WriteJSON (\<lambda>b. Some (if b then [116] else [102])) sink [] True = ([] @ bs, None) \<and>
     ReadJSON (\<lambda>d. if d = [116] then Some True else if d = [102] then Some False else None) (bs @ [5]) =
       Ok (True, [5])"
  using json_roundtrip [of "\<lambda>b. Some (if b then [116] else [102])" True "[116]"
      "\<lambda>d. if d = [116] then Some True else if d = [102] then Some False else None" "[]" "[5]"]
  by (simp add: MaxJSONPayloadLen_def)

text \<open>Datagrams over a stream keep their boundaries: a stream that holds the frames of any list of
  datagrams, followed by anything, decodes to those datagrams only, whatever their contents.\<close>

theorem udp_stream_unambiguous:
  assumes "\<forall>p\<in>set ps. length p \<le> MaxUDPDatagramPayload" "\<forall>q\<in>set qs. length q \<le> MaxUDPDatagramPayload"
    and "length ps = length qs" "concat (map prefixed ps) @ r = concat (map prefixed qs) @ s"
  shows "ps = qs \<and> r = s \<and> (\<forall>p\<in>set ps. ReadUDPDatagram (prefixed p @ r) = Ok (p, r))"
  using datagrams.stream_unambiguous [OF assms] datagrams.dec_enc assms(1) by blast

theorem udp_stream_unambiguous_witness:
  "ReadUDPDatagram (prefixed [1, 2] @ [7]) = Ok ([1, 2], [7])"
  using udp_stream_unambiguous [of "[[1, 2], []]" "[[1, 2], []]" "[7]" "[7]"]
  by (simp add: MaxUDPDatagramPayload_def)

end
