(* ===== verification/Udp_Fragment.thy ===== *)
theory Udp_Fragment
  imports Wire_Codec
begin

text \<open>
  \<open>internal/protocol/udp_native.go\<close> and \<open>internal/p2p/punch/fragment.go\<close>: datagrams cut into
  fragments that fit a path, the validation of a received fragment, and the bounded table in which
  a peer reassembles them. Times are milliseconds; Go iterates the table in no particular order,
  here it is the order of a list, about which nothing is assumed.
\<close>

unbundle bit_operations_syntax

section \<open>Fragments\<close>

definition UDPFragmentPayload :: nat where "UDPFragmentPayload = 1100"
definition UDPFragmentHeaderSize :: nat where "UDPFragmentHeaderSize = 8"
definition MaxUDPFragments :: nat where "MaxUDPFragments = 64"

datatype fragment_error = ErrUDPFragment | ErrShortBuffer | FragmentPanic

record udp_fragment =
  uf_PacketID :: u32
  uf_Total :: u16
  uf_Index :: byte
  uf_Count :: byte
  uf_Payload :: "byte list"

definition fragment_count :: "nat \<Rightarrow> nat" where
  "fragment_count n = max 1 ((n + UDPFragmentPayload - 1) div UDPFragmentPayload)"

definition fragment_part :: "byte list \<Rightarrow> nat \<Rightarrow> byte list" where
  "fragment_part payload i =
     (let start = min (i * UDPFragmentPayload) (length payload);
          stop = min ((i + 1) * UDPFragmentPayload) (length payload)
      in take (stop - start) (drop start payload))"

definition fragment_frame :: "u32 \<Rightarrow> byte list \<Rightarrow> nat \<Rightarrow> byte list" where
  "fragment_frame packetID payload i =
     put_u32 packetID @ put_u16 (word_of_nat (length payload)) @
     [word_of_nat i, word_of_nat (fragment_count (length payload))] @ fragment_part payload i"

text \<open>The callback receives the frames one by one until it fails.\<close>

fun send_all :: "('s \<Rightarrow> byte list \<Rightarrow> 's \<times> 'e option) \<Rightarrow> 's \<Rightarrow> byte list list \<Rightarrow> 's \<times> 'e option" where
  "send_all send s [] = (s, None)"
| "send_all send s (f # fs) =
     (case send s f of (s', Some e) \<Rightarrow> (s', Some e) | (s', None) \<Rightarrow> send_all send s' fs)"

definition FragmentUDP ::
  "u32 \<Rightarrow> byte list \<Rightarrow> ('s \<Rightarrow> byte list \<Rightarrow> 's \<times> 'e option) \<Rightarrow> 's \<Rightarrow> 's \<times> (fragment_error + 'e) option" where
  "FragmentUDP packetID payload send s =
     (if length payload > MaxUDPDatagramPayload then (s, Some (Inl ErrUDPFragment))
      else (case send_all send s (map (fragment_frame packetID payload)
                                      [0..<fragment_count (length payload)]) of
              (s', e) \<Rightarrow> (s', map_option Inr e)))"

text \<open>
  The sender of \<open>internal/p2p/punch/fragment.go\<close> reuses one frame buffer: each round overwrites
  the header and the start of the body and sends a prefix of the buffer. \<open>overlay\<close> is Go's
  \<open>copy(data[at:], part)\<close>, which stops at the end of \<open>data\<close>.
\<close>

definition overlay :: "byte list \<Rightarrow> nat \<Rightarrow> byte list \<Rightarrow> byte list" where
  "overlay data at part = take (length data) (take at data @ part @ drop (at + length part) data)"

definition fill_frame :: "u32 \<Rightarrow> byte list \<Rightarrow> nat \<Rightarrow> byte list \<Rightarrow> byte list" where
  "fill_frame packetID payload i frame =
     (let start = min (i * UDPFragmentPayload) (length payload);
          stop = min ((i + 1) * UDPFragmentPayload) (length payload);
          frame1 = overlay frame 0 (put_u32 packetID);
          frame2 = overlay frame1 4 (put_u16 (word_of_nat (length payload)));
          frame3 = frame2[6 := word_of_nat i, 7 := word_of_nat (fragment_count (length payload))]
      in overlay frame3 UDPFragmentHeaderSize (take (stop - start) (drop start payload)))"

fun punch_rounds ::
  "u32 \<Rightarrow> byte list \<Rightarrow> ('s \<Rightarrow> byte list \<Rightarrow> 's \<times> 'e option) \<Rightarrow> nat list \<Rightarrow> byte list \<Rightarrow> 's \<Rightarrow> 's \<times> 'e option" where
  "punch_rounds packetID payload send [] frame s = (s, None)"
| "punch_rounds packetID payload send (i # is) frame s =
     (let frame' = fill_frame packetID payload i frame;
          start = min (i * UDPFragmentPayload) (length payload);
          stop = min ((i + 1) * UDPFragmentPayload) (length payload)
      in case send s (take (UDPFragmentHeaderSize + stop - start) frame') of
           (s', Some e) \<Rightarrow> (s', Some e)
         | (s', None) \<Rightarrow> punch_rounds packetID payload send is frame' s')"

definition punch_FragmentUDP ::
  "u32 \<Rightarrow> byte list \<Rightarrow> ('s \<Rightarrow> byte list \<Rightarrow> 's \<times> 'e option) \<Rightarrow> 's \<Rightarrow> 's \<times> (fragment_error + 'e) option" where
  "punch_FragmentUDP packetID payload send s =
     (if length payload > MaxUDPDatagramPayload then (s, Some (Inl ErrUDPFragment))
      else (case punch_rounds packetID payload send [0..<fragment_count (length payload)]
                   (replicate (UDPFragmentHeaderSize + UDPFragmentPayload) 0) s of
              (s', e) \<Rightarrow> (s', map_option Inr e)))"

definition DecodeUDPFragment :: "byte list \<Rightarrow> fragment_error + udp_fragment" where
  "DecodeUDPFragment frame =
     (if length frame < UDPFragmentHeaderSize then Err ErrUDPFragment
      else
        let f = \<lparr>uf_PacketID = get_u32 (take 4 frame), uf_Total = get_u16 (take 2 (drop 4 frame)),
                 uf_Index = frame ! 6, uf_Count = frame ! 7, uf_Payload = drop 8 frame\<rparr>;
            total = unat (uf_Total f)
        in if total > MaxUDPDatagramPayload then Err ErrUDPFragment
           else if uf_Count f = 0 \<or> unat (uf_Count f) \<noteq> fragment_count total \<or>
                   unat (uf_Count f) > MaxUDPFragments \<or> uf_Index f \<ge> uf_Count f
           then Err ErrUDPFragment
           else if int (length (uf_Payload f)) \<noteq>
                   min (int UDPFragmentPayload) (int total - int (unat (uf_Index f)) * int UDPFragmentPayload)
           then Err ErrUDPFragment
           else Ok f)"

section \<open>Reassembly\<close>

record pending_packet =
  pp_total :: u16
  pp_count :: byte
  pp_seen :: u64
  pp_received :: int
  pp_data :: "byte list"
  pp_created :: nat

type_synonym reassembler = "(u32 \<times> pending_packet) list"

definition maxReassemblyPackets :: nat where "maxReassemblyPackets = 32"
definition fragmentExpiry :: nat where "fragmentExpiry = 200"

definition NewReassembler :: reassembler where "NewReassembler = []"

definition drop_id :: "u32 \<Rightarrow> reassembler \<Rightarrow> reassembler" where
  "drop_id i r = filter (\<lambda>(j, _). j \<noteq> i) r"

definition set_id :: "u32 \<Rightarrow> pending_packet \<Rightarrow> reassembler \<Rightarrow> reassembler" where
  "set_id i p r = (i, p) # drop_id i r"

definition reapLocked :: "nat \<Rightarrow> reassembler \<Rightarrow> reassembler" where
  "reapLocked now r = filter (\<lambda>(_, p). \<not> pp_created p + fragmentExpiry \<le> now) r"

text \<open>\<open>dropOldestLocked\<close>: the first of the entries with the earliest time.\<close>

fun oldest :: "(u32 \<times> nat) option \<Rightarrow> reassembler \<Rightarrow> (u32 \<times> nat) option" where
  "oldest best [] = best"
| "oldest best ((i, p) # r) =
     oldest (case best of None \<Rightarrow> Some (i, pp_created p)
             | Some (j, t) \<Rightarrow> if pp_created p < t then Some (i, pp_created p) else best) r"

definition dropOldestLocked :: "reassembler \<Rightarrow> reassembler" where
  "dropOldestLocked r = (case oldest None r of None \<Rightarrow> r | Some (i, _) \<Rightarrow> drop_id i r)"

datatype feed_result = FeedError fragment_error | NeedMore | Complete "byte list"

text \<open>The entry a fragment belongs to, made when there is none, and the table with it in place.\<close>

definition pending_entry :: "nat \<Rightarrow> reassembler \<Rightarrow> udp_fragment \<Rightarrow> pending_packet \<times> reassembler" where
  "pending_entry now r f =
     (case map_of r (uf_PacketID f) of
        Some p \<Rightarrow> (p, r)
      | None \<Rightarrow>
        (let p = \<lparr>pp_total = uf_Total f, pp_count = uf_Count f, pp_seen = 0, pp_received = 0,
                  pp_data = replicate (unat (uf_Total f)) 0, pp_created = now\<rparr>
         in (p, set_id (uf_PacketID f) p
                  (if length r \<ge> maxReassemblyPackets then dropOldestLocked r else r))))"

text \<open>\<^const>\<open>None\<close> is the panic of the slice expression.\<close>

definition absorb :: "udp_fragment \<Rightarrow> pending_packet \<Rightarrow> pending_packet option" where
  "absorb f p =
     (let mask = push_bit (unat (uf_Index f)) 1; at = unat (uf_Index f) * UDPFragmentPayload
      in if pp_seen p AND mask = 0
         then (if length (pp_data p) < at then None
               else Some (p\<lparr>pp_data := overlay (pp_data p) at (uf_Payload f),
                            pp_seen := pp_seen p OR mask, pp_received := pp_received p + 1\<rparr>))
         else Some p)"

definition Feed :: "nat \<Rightarrow> reassembler \<Rightarrow> byte list \<Rightarrow> nat \<Rightarrow> feed_result \<times> reassembler" where
  "Feed now r frame dst_len =
     (case DecodeUDPFragment frame of
        Inl e \<Rightarrow> (FeedError e, r)
      | Inr f \<Rightarrow>
        if uf_Count f = 1 then
          (if dst_len < length (uf_Payload f) then (FeedError ErrShortBuffer, r)
           else (Complete (uf_Payload f), r))
        else
          (case pending_entry now (reapLocked now r) f of
             (p, r2) \<Rightarrow>
               if pp_total p \<noteq> uf_Total f \<or> pp_count p \<noteq> uf_Count f
               then (NeedMore, drop_id (uf_PacketID f) r2)
               else (case absorb f p of
                       None \<Rightarrow> (FeedError FragmentPanic, r2)
                     | Some p1 \<Rightarrow>
                       if pp_received p1 \<noteq> int (unat (pp_count p1))
                       then (NeedMore, set_id (uf_PacketID f) p1 r2)
                       else if dst_len < length (pp_data p1)
                       then (FeedError ErrShortBuffer, drop_id (uf_PacketID f) r2)
                       else (Complete (pp_data p1), drop_id (uf_PacketID f) r2))))"

definition Reassembler_Close :: "reassembler \<Rightarrow> reassembler" where "Reassembler_Close r = []"

section \<open>Fragments of a payload\<close>

lemma fragment_count_bounds:
  "1 \<le> fragment_count n"
  "n \<le> fragment_count n * UDPFragmentPayload"
  "n \<le> MaxUDPDatagramPayload \<Longrightarrow> fragment_count n \<le> 60"
  "i < fragment_count n \<Longrightarrow> i * UDPFragmentPayload \<le> n"
proof -
  show "1 \<le> fragment_count n" by (simp add: fragment_count_def)
  show "n \<le> fragment_count n * UDPFragmentPayload"
    unfolding fragment_count_def UDPFragmentPayload_def by linarith
  show "n \<le> MaxUDPDatagramPayload \<Longrightarrow> fragment_count n \<le> 60"
    unfolding fragment_count_def UDPFragmentPayload_def MaxUDPDatagramPayload_def by linarith
  show "i < fragment_count n \<Longrightarrow> i * UDPFragmentPayload \<le> n"
    unfolding fragment_count_def UDPFragmentPayload_def by linarith
qed

lemma fragment_part_take:
  "fragment_part payload i = take UDPFragmentPayload (drop (i * UDPFragmentPayload) payload)"
proof (cases "i * UDPFragmentPayload \<le> length payload")
  case True
  have "take (min ((i + 1) * UDPFragmentPayload) (length payload) - i * UDPFragmentPayload)
      (drop (i * UDPFragmentPayload) payload) =
      take UDPFragmentPayload (drop (i * UDPFragmentPayload) payload)"
    by (rule take_equalityI) (auto simp: min_def)
  with True show ?thesis by (simp add: fragment_part_def Let_def)
next
  case False
  then show ?thesis by (simp add: fragment_part_def Let_def)
qed


lemma length_fragment_part [simp]:
  "length (fragment_part payload i) = min UDPFragmentPayload (length payload - i * UDPFragmentPayload)"
  by (simp add: fragment_part_take)

lemma nth_fragment_part:
  "j < length (fragment_part payload i) \<Longrightarrow>
    fragment_part payload i ! j = payload ! (i * UDPFragmentPayload + j)"
  by (auto simp: fragment_part_take)

lemma concat_fragment_parts: "concat (map (fragment_part payload) [0..<n]) = take (n * UDPFragmentPayload) payload"
proof (induction n)
  case 0
  then show ?case by simp
next
  case (Suc n)
  then show ?case by (simp add: fragment_part_take add.commute [of UDPFragmentPayload] take_add)
qed

definition is_fragment :: "u32 \<Rightarrow> byte list \<Rightarrow> nat \<Rightarrow> udp_fragment \<Rightarrow> bool" where
  "is_fragment packetID payload i f \<longleftrightarrow>
     uf_PacketID f = packetID \<and> uf_Total f = word_of_nat (length payload) \<and>
     uf_Index f = word_of_nat i \<and> uf_Count f = word_of_nat (fragment_count (length payload)) \<and>
     uf_Payload f = fragment_part payload i"

lemma decode_fragment_frame:
  assumes len: "length payload \<le> MaxUDPDatagramPayload" and i: "i < fragment_count (length payload)"
  shows "\<exists>f. DecodeUDPFragment (fragment_frame packetID payload i) = Ok f \<and> is_fragment packetID payload i f"
proof -
  let ?n = "length payload" and ?c = "fragment_count (length payload)"
  have c: "?c \<le> 60" "1 \<le> ?c" using fragment_count_bounds len by blast+
  have il: "i * UDPFragmentPayload \<le> ?n" using fragment_count_bounds(4) i .
  have u16: "unat (word_of_nat ?n :: u16) = ?n" using len by (simp add: MaxUDPDatagramPayload_def)
  have uc: "unat (word_of_nat ?c :: byte) = ?c" using c by simp
  have ui: "unat (word_of_nat i :: byte) = i" using c i by simp
  have lt: "(word_of_nat i :: byte) < word_of_nat ?c" using i by (simp only: word_less_nat_alt uc ui)
  have nz: "(word_of_nat ?c :: byte) \<noteq> 0" using lt word_gt_0 by force
  have m: "int (min UDPFragmentPayload (?n - i * UDPFragmentPayload)) =
      min (int UDPFragmentPayload) (int ?n - int i * int UDPFragmentPayload)"
    using il by (simp add: of_nat_min of_nat_diff)
  show ?thesis
    using len c lt nz u16 uc ui m
    by (simp add: DecodeUDPFragment_def fragment_frame_def UDPFragmentHeaderSize_def Let_def
        is_fragment_def nth_append MaxUDPFragments_def)
qed

section \<open>A pending packet is part of a payload\<close>

text \<open>The bitmap and the counter both hold the set \<open>S\<close> of fragments seen, and the buffer agrees
  with the payload wherever a fragment of \<open>S\<close> was written.\<close>

definition part_of :: "byte list \<Rightarrow> nat set \<Rightarrow> pending_packet \<Rightarrow> bool" where
  "part_of payload S p \<longleftrightarrow>
     S \<subseteq> {..<fragment_count (length payload)} \<and>
     pp_total p = word_of_nat (length payload) \<and>
     pp_count p = word_of_nat (fragment_count (length payload)) \<and>
     (\<forall>i<64. bit (pp_seen p) i \<longleftrightarrow> i \<in> S) \<and>
     pp_received p = int (card S) \<and>
     length (pp_data p) = length payload \<and>
     (\<forall>k<length payload. k div UDPFragmentPayload \<in> S \<longrightarrow> pp_data p ! k = payload ! k)"

lemma length_overlay [simp]: "length (overlay data at part) = length data"
  by (simp add: overlay_def)

lemma nth_overlay:
  "k < length data \<Longrightarrow> at + length part \<le> length data \<Longrightarrow>
    overlay data at part ! k = (if at \<le> k \<and> k < at + length part then part ! (k - at) else data ! k)"
  by (auto simp: overlay_def nth_append)

lemma absorb_part_of:
  assumes len: "length payload \<le> MaxUDPDatagramPayload" and i: "i < fragment_count (length payload)"
    and f: "is_fragment packetID payload i f" and p: "part_of payload S p"
  shows "\<exists>p1. absorb f p = Some p1 \<and> part_of payload (insert i S) p1 \<and> pp_created p1 = pp_created p"
proof -
  let ?n = "length payload"
  have c: "fragment_count ?n \<le> 60" using fragment_count_bounds len by blast
  have il: "i * UDPFragmentPayload \<le> ?n" using fragment_count_bounds(4) i .
  have ui: "unat (uf_Index f) = i" using f c i by (simp add: is_fragment_def)
  have mask: "pp_seen p AND push_bit i 1 = 0 \<longleftrightarrow> i \<notin> S"
  proof -
    have "bit (pp_seen p) i \<longleftrightarrow> i \<in> S" using p c i by (simp add: part_of_def)
    then show ?thesis by (simp only: bit_iff_and_push_bit_not_eq_0) blast
  qed
  have fin: "finite S" using p finite_subset unfolding part_of_def by blast
  show ?thesis
  proof (cases "i \<in> S")
    case True
    then show ?thesis using p mask by (simp add: absorb_def ui Let_def insert_absorb)
  next
    case False
    let ?at = "i * UDPFragmentPayload"
    let ?p1 = "p\<lparr>pp_data := overlay (pp_data p) ?at (uf_Payload f),
                pp_seen := pp_seen p OR push_bit i 1, pp_received := pp_received p + 1\<rparr>"
    have pl: "uf_Payload f = fragment_part payload i" using f by (simp add: is_fragment_def)
    have at: "?at + length (uf_Payload f) \<le> ?n" using il by (simp add: pl)
    have data: "overlay (pp_data p) ?at (uf_Payload f) ! k = payload ! k"
      if k: "k < ?n" "k div UDPFragmentPayload \<in> insert i S" for k
    proof (cases "k div UDPFragmentPayload = i")
      case True
      then have b: "?at \<le> k" "k < ?at + UDPFragmentPayload"
        by (auto simp: UDPFragmentPayload_def)
      with k(1) have kl: "k < ?at + length (uf_Payload f)" by (simp add: pl)
      with b have "k - ?at < length (fragment_part payload i)" unfolding pl by linarith
      from nth_fragment_part [OF this] b have "uf_Payload f ! (k - ?at) = payload ! k" by (simp add: pl)
      with b k(1) kl at p show ?thesis by (simp add: nth_overlay part_of_def)
    next
      case False
      then have "\<not> (?at \<le> k \<and> k < ?at + length (uf_Payload f))"
        by (auto simp: pl UDPFragmentPayload_def)
      with False k at p show ?thesis by (auto simp: nth_overlay part_of_def)
    qed
    have seen: "bit (pp_seen p OR push_bit i 1) j \<longleftrightarrow> j \<in> insert i S" if "j < 64" for j
      using that p by (auto simp: bit_or_iff bit_exp_iff part_of_def)
    have "part_of payload (insert i S) ?p1"
      using p i fin False data seen by (simp add: part_of_def)
    then show ?thesis using False mask il p by (simp add: absorb_def ui Let_def part_of_def)
  qed
qed

lemma part_of_new:
  assumes "length payload \<le> MaxUDPDatagramPayload" "is_fragment packetID payload i f"
  shows "part_of payload {} \<lparr>pp_total = uf_Total f, pp_count = uf_Count f, pp_seen = 0,
           pp_received = 0, pp_data = replicate (unat (uf_Total f)) 0, pp_created = now\<rparr>"
  using assms by (simp add: part_of_def is_fragment_def MaxUDPDatagramPayload_def)

lemma part_of_complete:
  assumes len: "length payload \<le> MaxUDPDatagramPayload" and p: "part_of payload S p"
  shows "pp_received p = int (unat (pp_count p)) \<longleftrightarrow> S = {..<fragment_count (length payload)}"
    and "pp_received p = int (unat (pp_count p)) \<Longrightarrow> pp_data p = payload"
proof -
  let ?c = "fragment_count (length payload)"
  have c: "?c \<le> 60" using fragment_count_bounds len by blast
  have eq: "pp_received p = int (unat (pp_count p)) \<longleftrightarrow> card S = ?c"
    using p c by (simp add: part_of_def)
  have sub: "S \<subseteq> {..<?c}" using p by (simp add: part_of_def)
  show iff: "pp_received p = int (unat (pp_count p)) \<longleftrightarrow> S = {..<?c}"
    unfolding eq using card_subset_eq [OF _ sub] by auto
  assume "pp_received p = int (unat (pp_count p))"
  with iff have S: "S = {..<?c}" by blast
  have "k div UDPFragmentPayload \<in> S" if "k < length payload" for k
    using that fragment_count_bounds(2) [of "length payload"] unfolding S
    by (simp add: div_less_iff_less_mult UDPFragmentPayload_def)
  with p show "pp_data p = payload" by (intro nth_equalityI) (auto simp: part_of_def)
qed

section \<open>The table\<close>

definition table_wf :: "reassembler \<Rightarrow> bool" where
  "table_wf r \<longleftrightarrow> distinct (map fst r)"

lemma table_filter: "table_wf r \<Longrightarrow> table_wf (filter P r)"
  by (simp add: table_wf_def distinct_map_filter)

lemma map_of_filter:
  "table_wf r \<Longrightarrow> map_of (filter P r) i =
     (case map_of r i of Some p \<Rightarrow> if P (i, p) then Some p else None | None \<Rightarrow> None)"
proof (induction r)
  case Nil
  then show ?case by simp
next
  case (Cons a r)
  obtain j p where [simp]: "a = (j, p)" by (cases a)
  from Cons.prems have wf: "table_wf r" and j: "map_of r j = None"
    by (auto simp: table_wf_def map_of_eq_None_iff)
  from Cons.IH [OF wf] j show ?case by (auto split: option.splits)
qed

lemma map_of_drop_id: "table_wf r \<Longrightarrow> map_of (drop_id i r) j = (if j = i then None else map_of r j)"
  by (auto simp: drop_id_def map_of_filter split: option.splits)

lemma map_of_set_id: "table_wf r \<Longrightarrow> map_of (set_id i p r) j = (if j = i then Some p else map_of r j)"
  by (simp add: set_id_def map_of_drop_id)

lemma map_of_reap:
  "table_wf r \<Longrightarrow> map_of (reapLocked now r) j =
     (case map_of r j of
        Some p \<Rightarrow> if pp_created p + fragmentExpiry \<le> now then None else Some p
      | None \<Rightarrow> None)"
  by (auto simp: reapLocked_def map_of_filter split: option.splits)

lemma table_drop_id: "table_wf r \<Longrightarrow> table_wf (drop_id i r)"
  by (simp add: drop_id_def table_filter)

lemma table_set_id: "table_wf r \<Longrightarrow> table_wf (set_id i p r)"
  by (auto simp: table_wf_def set_id_def drop_id_def distinct_map_filter)

lemma table_reap: "table_wf r \<Longrightarrow> table_wf (reapLocked now r)"
  by (simp add: reapLocked_def table_filter)

lemma dropOldest_cases: "dropOldestLocked r = r \<or> (\<exists>i. dropOldestLocked r = drop_id i r)"
  by (auto simp: dropOldestLocked_def split: option.splits)

lemma table_dropOldest: "table_wf r \<Longrightarrow> table_wf (dropOldestLocked r)"
  using dropOldest_cases [of r] table_drop_id by auto

lemma oldest_some: "oldest (Some b) r \<noteq> None"
  by (induction r arbitrary: b) (auto split: if_splits)

lemma oldest_mem: "oldest b r = Some (i, t) \<Longrightarrow> b = Some (i, t) \<or> i \<in> fst ` set r"
proof (induction r arbitrary: b)
  case Nil
  then show ?case by simp
next
  case (Cons a r)
  obtain j p where a: "a = (j, p)" by (cases a)
  from Cons.prems have "oldest (case b of None \<Rightarrow> Some (j, pp_created p)
      | Some (k, u) \<Rightarrow> if pp_created p < u then Some (j, pp_created p) else b) r = Some (i, t)"
    by (simp add: a)
  from Cons.IH [OF this] show ?case
    by (auto simp: a split: option.splits if_splits)
qed

lemma length_drop_id: "i \<in> fst ` set r \<Longrightarrow> length (drop_id i r) < length r"
  by (auto simp: drop_id_def intro!: length_filter_less)

lemma length_dropOldest: "r \<noteq> [] \<Longrightarrow> length (dropOldestLocked r) < length r"
proof (cases r)
  case (Cons a r')
  obtain j p where a: "a = (j, p)" by (cases a)
  have "oldest None r \<noteq> None" using oldest_some by (simp add: Cons a)
  then obtain i t where it: "oldest None r = Some (i, t)" by auto
  from oldest_mem [OF this] have "i \<in> fst ` set r" by simp
  with it show ?thesis by (simp add: dropOldestLocked_def length_drop_id)
qed simp

text \<open>Taking or making an entry keeps every other entry, or evicts one.\<close>

lemma pending_entry_table:
  assumes "table_wf r" "pending_entry now r f = (p, r')"
  shows "table_wf r'" "map_of r' (uf_PacketID f) = Some p"
    "length r \<le> maxReassemblyPackets \<Longrightarrow> length r' \<le> maxReassemblyPackets"
proof -
  let ?new = "\<lparr>pp_total = uf_Total f, pp_count = uf_Count f, pp_seen = 0, pp_received = 0,
                pp_data = replicate (unat (uf_Total f)) 0, pp_created = now\<rparr>"
  let ?r = "if length r \<ge> maxReassemblyPackets then dropOldestLocked r else r"
  consider (old) "map_of r (uf_PacketID f) = Some p" "r' = r"
    | (new) "map_of r (uf_PacketID f) = None" "p = ?new" "r' = set_id (uf_PacketID f) ?new ?r"
    using assms(2) by (auto simp: pending_entry_def Let_def split: option.splits)
  note cs = this
  have wf: "table_wf ?r" using assms(1) table_dropOldest by simp
  show "table_wf r'" using cs by cases (use assms(1) wf table_set_id in auto)
  show "map_of r' (uf_PacketID f) = Some p" using cs by cases (simp_all add: map_of_set_id wf)
  assume l: "length r \<le> maxReassemblyPackets"
  from cs show "length r' \<le> maxReassemblyPackets"
  proof cases
    case new
    have "length ?r < maxReassemblyPackets"
      using length_dropOldest [of r] l by (cases "r = []") (auto simp: maxReassemblyPackets_def)
    moreover have "length (drop_id (uf_PacketID f) ?r) \<le> length ?r"
      by (simp only: drop_id_def length_filter_le)
    ultimately show ?thesis by (simp add: new(3) set_id_def)
  qed (use l in simp)
qed

text \<open>What feeding does to the entry of one packet: a frame of another packet, or one that is
  refused, leaves it alone, or removes it by expiry or eviction.\<close>

definition frame_id :: "byte list \<Rightarrow> u32 option" where
  "frame_id frame =
     (case DecodeUDPFragment frame of
        Inl _ \<Rightarrow> None | Inr f \<Rightarrow> if uf_Count f = 1 then None else Some (uf_PacketID f))"

lemma pending_entry_other:
  assumes "table_wf r" "pending_entry now r f = (p, r')" "i \<noteq> uf_PacketID f"
  shows "map_of r' i = None \<or> map_of r' i = map_of r i"
    "length r < maxReassemblyPackets \<or> map_of r (uf_PacketID f) \<noteq> None \<Longrightarrow> map_of r' i = map_of r i"
proof -
  have "map_of (dropOldestLocked r) i = None \<or> map_of (dropOldestLocked r) i = map_of r i"
    using dropOldest_cases [of r] assms(1) map_of_drop_id by auto
  then show "map_of r' i = None \<or> map_of r' i = map_of r i"
    using assms table_dropOldest [OF assms(1)]
    by (auto simp: pending_entry_def Let_def map_of_set_id split: option.splits if_splits)
  show "length r < maxReassemblyPackets \<or> map_of r (uf_PacketID f) \<noteq> None \<Longrightarrow> map_of r' i = map_of r i"
    using assms
    by (auto simp: pending_entry_def Let_def map_of_set_id split: option.splits if_splits)
qed

lemma Feed_multi:
  assumes "DecodeUDPFragment frame = Ok f" "uf_Count f \<noteq> 1"
    and "pending_entry now (reapLocked now r) f = (p, r2)" and "Feed now r frame dst_len = (res, r')"
  shows "r' = r2 \<or> r' = drop_id (uf_PacketID f) r2 \<or> (\<exists>p1. absorb f p = Some p1 \<and> r' = set_id (uf_PacketID f) p1 r2)"
  using assms by (auto simp: Feed_def split: option.splits if_splits)

lemma Feed_single:
  assumes "frame_id frame = None" "Feed now r frame dst_len = (res, r')"
  shows "r' = r"
  using assms by (auto simp: Feed_def frame_id_def split: sum.splits if_splits)

lemma Feed_table:
  assumes wf: "table_wf r" and feed: "Feed now r frame dst_len = (res, r')"
  shows "table_wf r'" "length r \<le> maxReassemblyPackets \<Longrightarrow> length r' \<le> maxReassemblyPackets"
proof -
  consider (single) "r' = r"
    | (multi) f p r2 where "DecodeUDPFragment frame = Ok f" "uf_Count f \<noteq> 1"
        "pending_entry now (reapLocked now r) f = (p, r2)"
  proof (cases "frame_id frame")
    case None
    from single [OF Feed_single [OF this feed]] show ?thesis .
  next
    case (Some i)
    obtain p r2 where "pending_entry now (reapLocked now r) (projr (DecodeUDPFragment frame)) = (p, r2)"
      by fastforce
    with Some show ?thesis by (intro multi) (auto simp: frame_id_def split: sum.splits if_splits)
  qed
  note cs = this
  have lr: "length (reapLocked now r) \<le> length r" by (simp add: reapLocked_def)
  from cs show "table_wf r'"
  proof cases
    case multi
    from pending_entry_table(1) [OF table_reap [OF wf] multi(3)] Feed_multi [OF multi feed]
    show ?thesis using table_drop_id table_set_id by auto
  qed (use wf in simp)
  assume l: "length r \<le> maxReassemblyPackets"
  from cs show "length r' \<le> maxReassemblyPackets"
  proof cases
    case multi
    have l2: "length r2 \<le> maxReassemblyPackets"
      using pending_entry_table(3) [OF table_reap [OF wf] multi(3)] l lr by simp
    have "map_of r2 (uf_PacketID f) = Some p"
      using pending_entry_table(2) [OF table_reap [OF wf] multi(3)] .
    then have "uf_PacketID f \<in> fst ` set r2" by (metis domI dom_map_of_conv_image_fst)
    from length_drop_id [OF this] l2 Feed_multi [OF multi feed]
    show ?thesis by (auto simp: set_id_def)
  qed (use l in simp)
qed

lemma Feed_other:
  assumes wf: "table_wf r" and feed: "Feed now r frame dst_len = (res, r')"
    and ne: "frame_id frame \<noteq> Some i"
  shows "map_of r' i = None \<or> map_of r' i = map_of r i"
proof (cases "frame_id frame")
  case None
  from Feed_single [OF this feed] show ?thesis by simp
next
  case (Some j)
  then obtain f where f: "DecodeUDPFragment frame = Ok f" "uf_Count f \<noteq> 1" "uf_PacketID f = j"
    by (auto simp: frame_id_def split: sum.splits if_splits)
  obtain p r2 where e: "pending_entry now (reapLocked now r) f = (p, r2)" by fastforce
  have ij: "i \<noteq> uf_PacketID f" using ne Some f(3) by simp
  have wf2: "table_wf r2" using pending_entry_table(1) [OF table_reap [OF wf] e] .
  have "map_of r2 i = None \<or> map_of r2 i = map_of (reapLocked now r) i"
    by (rule pending_entry_other(1) [OF table_reap [OF wf] e ij])
  moreover have "map_of (reapLocked now r) i = None \<or> map_of (reapLocked now r) i = map_of r i"
    by (auto simp: map_of_reap [OF wf] split: option.splits)
  moreover have "map_of r' i = map_of r2 i"
    using Feed_multi [OF f(1,2) e feed] ij wf2 by (auto simp: map_of_drop_id map_of_set_id)
  ultimately show ?thesis by auto
qed

lemma Feed_own:
  assumes wf: "table_wf r" and len: "length payload \<le> MaxUDPDatagramPayload"
    and i: "i < fragment_count (length payload)" and multi: "fragment_count (length payload) \<noteq> 1"
    and entry: "(map_of (reapLocked now r) packetID = None \<and> S = {}) \<or>
      (\<exists>p. map_of (reapLocked now r) packetID = Some p \<and> part_of payload S p)"
    and feed: "Feed now r (fragment_frame packetID payload i) dst_len = (res, r')"
  shows "if insert i S = {..<fragment_count (length payload)}
    then res = (if dst_len < length payload then FeedError ErrShortBuffer else Complete payload) \<and>
         map_of r' packetID = None
    else res = NeedMore \<and> (\<exists>p1. map_of r' packetID = Some p1 \<and> part_of payload (insert i S) p1 \<and>
         pp_created p1 = (case map_of (reapLocked now r) packetID of None \<Rightarrow> now | Some p \<Rightarrow> pp_created p))"
proof -
  let ?c = "fragment_count (length payload)"
  have c: "?c \<le> 60" using fragment_count_bounds len by blast
  obtain f where f: "DecodeUDPFragment (fragment_frame packetID payload i) = Ok f"
    and isf: "is_fragment packetID payload i f" using decode_fragment_frame [OF len i] by blast
  have "unat (uf_Count f) = ?c" using isf c by (simp add: is_fragment_def)
  then have ne1: "uf_Count f \<noteq> 1" using multi by auto
  have idf: "uf_PacketID f = packetID" using isf by (simp add: is_fragment_def)
  obtain p r2 where e: "pending_entry now (reapLocked now r) f = (p, r2)" by fastforce
  note wf2 = pending_entry_table(1) [OF table_reap [OF wf] e]
  have p: "part_of payload S p \<and>
      pp_created p = (case map_of (reapLocked now r) packetID of None \<Rightarrow> now | Some p \<Rightarrow> pp_created p)"
    using entry e part_of_new [OF len isf]
    by (auto simp: pending_entry_def idf Let_def)
  then have same: "pp_total p = uf_Total f" "pp_count p = uf_Count f"
    using isf by (simp_all add: part_of_def is_fragment_def)
  obtain p1 where p1: "absorb f p = Some p1" "part_of payload (insert i S) p1" "pp_created p1 = pp_created p"
    using absorb_part_of [OF len i isf] p by blast
  have ld: "length (pp_data p1) = length payload" using p1(2) by (simp add: part_of_def)
  note full = part_of_complete [OF len p1(2)]
  have eq: "(res, r') = (if pp_received p1 \<noteq> int (unat (pp_count p1)) then (NeedMore, set_id packetID p1 r2)
      else if dst_len < length payload then (FeedError ErrShortBuffer, drop_id packetID r2)
      else (Complete (pp_data p1), drop_id packetID r2))"
    using feed by (auto simp: Feed_def f ne1 e same p1(1) idf ld split: if_splits)
  show ?thesis
  proof (cases "insert i S = {..<?c}")
    case True
    then have "pp_received p1 = int (unat (pp_count p1))" using full(1) by simp
    moreover from full(2) [OF this] have "pp_data p1 = payload" .
    ultimately show ?thesis using eq True by (simp add: map_of_drop_id [OF wf2] split: if_splits)
  next
    case False
    then have "pp_received p1 \<noteq> int (unat (pp_count p1))" using full(1) by simp
    then show ?thesis using eq False p1 p by (simp add: map_of_set_id [OF wf2])
  qed
qed

section \<open>Histories\<close>

text \<open>A history is a list of calls: the time, the frame and the room in the caller's buffer.\<close>

fun feed_all :: "reassembler \<Rightarrow> (nat \<times> byte list \<times> nat) list \<Rightarrow> feed_result list \<times> reassembler" where
  "feed_all r [] = ([], r)"
| "feed_all r ((now, frame, dst_len) # es) =
     (case Feed now r frame dst_len of
        (res, r') \<Rightarrow> (case feed_all r' es of (rs, r'') \<Rightarrow> (res # rs, r'')))"

lemma feed_all_append:
  "feed_all r (xs @ ys) =
     (let (rs, r1) = feed_all r xs; (ss, r2) = feed_all r1 ys in (rs @ ss, r2))"
  by (induction r xs rule: feed_all.induct) (auto split: prod.splits)

lemma feed_all_snoc:
  "feed_all r (es @ [(now, frame, dst_len)]) =
     (case Feed now (snd (feed_all r es)) frame dst_len of
        (res, r') \<Rightarrow> (fst (feed_all r es) @ [res], r'))"
  by (cases "feed_all r es") (simp add: feed_all_append split: prod.split)

lemma length_feed_all [simp]: "length (fst (feed_all r es)) = length es"
  by (induction r es rule: feed_all.induct) (auto split: prod.splits)

definition packet_frame :: "u32 \<Rightarrow> byte list \<Rightarrow> byte list \<Rightarrow> bool" where
  "packet_frame packetID payload frame \<longleftrightarrow>
     (\<exists>i<fragment_count (length payload). frame = fragment_frame packetID payload i)"

definition decoded_id :: "byte list \<Rightarrow> u32 option" where
  "decoded_id frame = (case DecodeUDPFragment frame of Inl _ \<Rightarrow> None | Inr f \<Rightarrow> Some (uf_PacketID f))"

lemma frame_id_decoded: "frame_id frame = Some i \<Longrightarrow> decoded_id frame = Some i"
  by (auto simp: frame_id_def decoded_id_def split: sum.splits if_splits)

lemma packet_frame_single:
  assumes len: "length payload \<le> MaxUDPDatagramPayload" and one: "fragment_count (length payload) = 1"
    and fr: "packet_frame packetID payload frame"
  shows "Feed now r frame dst_len =
    (if dst_len < length payload then FeedError ErrShortBuffer else Complete payload, r)"
proof -
  have "length payload \<le> UDPFragmentPayload" using fragment_count_bounds(2) [of "length payload"] one by simp
  then have all: "fragment_part payload 0 = payload" by (simp add: fragment_part_take)
  from fr one have "frame = fragment_frame packetID payload 0" by (auto simp: packet_frame_def)
  moreover obtain f where "DecodeUDPFragment (fragment_frame packetID payload 0) = Ok f"
    "is_fragment packetID payload 0 f" using decode_fragment_frame [OF len] one by force
  ultimately show ?thesis using one all by (simp add: Feed_def is_fragment_def)
qed

definition packet_inv :: "u32 \<Rightarrow> byte list \<Rightarrow> reassembler \<Rightarrow> bool" where
  "packet_inv packetID payload r \<longleftrightarrow>
     table_wf r \<and> (\<forall>p. map_of r packetID = Some p \<longrightarrow> (\<exists>S. part_of payload S p))"

lemma packet_inv_step:
  assumes inv: "packet_inv packetID payload r" and len: "length payload \<le> MaxUDPDatagramPayload"
    and fr: "decoded_id frame = Some packetID \<longrightarrow> packet_frame packetID payload frame"
    and feed: "Feed now r frame dst_len = (res, r')"
  shows "packet_inv packetID payload r' \<and>
    (decoded_id frame = Some packetID \<longrightarrow> res \<in> {NeedMore, Complete payload, FeedError ErrShortBuffer})"
proof -
  let ?c = "fragment_count (length payload)"
  have wf: "table_wf r" and wf': "table_wf r'"
    using inv Feed_table(1) [OF _ feed] by (auto simp: packet_inv_def)
  show ?thesis
  proof (cases "decoded_id frame = Some packetID")
    case False
    then have "frame_id frame \<noteq> Some packetID" using frame_id_decoded by auto
    from Feed_other [OF wf feed this] False inv wf' show ?thesis by (auto simp: packet_inv_def)
  next
    case True
    with fr obtain i where i: "i < ?c" "frame = fragment_frame packetID payload i"
      by (auto simp: packet_frame_def)
    show ?thesis
    proof (cases "?c = 1")
      case one: True
      from packet_frame_single [OF len one] fr True feed inv show ?thesis by (auto split: if_splits)
    next
      case multi: False
      have "\<exists>S. (map_of (reapLocked now r) packetID = None \<and> S = {}) \<or>
          (\<exists>p. map_of (reapLocked now r) packetID = Some p \<and> part_of payload S p)"
        using inv unfolding packet_inv_def map_of_reap [OF wf] by (auto split: option.splits)
      then obtain S where S: "(map_of (reapLocked now r) packetID = None \<and> S = {}) \<or>
          (\<exists>p. map_of (reapLocked now r) packetID = Some p \<and> part_of payload S p)" by blast
      from Feed_own [OF wf len i(1) multi S feed [unfolded i(2)]] wf' show ?thesis
        by (auto simp: packet_inv_def split: if_splits)
    qed
  qed
qed

lemma packet_inv_history:
  assumes "packet_inv packetID payload r" "length payload \<le> MaxUDPDatagramPayload"
    and "\<forall>(now, frame, dst_len)\<in>set es.
      decoded_id frame = Some packetID \<longrightarrow> packet_frame packetID payload frame"
    and "k < length es" "decoded_id (fst (snd (es ! k))) = Some packetID"
  shows "fst (feed_all r es) ! k \<in> {NeedMore, Complete payload, FeedError ErrShortBuffer}"
  using assms
proof (induction es arbitrary: r k)
  case Nil
  then show ?case by simp
next
  case (Cons e es)
  obtain now frame dst_len where e: "e = (now, frame, dst_len)" by (cases e)
  obtain res r' where feed: "Feed now r frame dst_len = (res, r')" by fastforce
  have fr: "decoded_id frame = Some packetID \<longrightarrow> packet_frame packetID payload frame"
    using Cons.prems(3) by (simp add: e)
  note st = packet_inv_step [OF Cons.prems(1,2) fr feed]
  show ?case
  proof (cases k)
    case 0
    with Cons.prems(5) st show ?thesis by (auto simp: e feed split: prod.splits)
  next
    case (Suc k')
    from st have "packet_inv packetID payload r'" by blast
    from Cons.IH [OF this Cons.prems(2), of k'] Cons.prems(3-) Suc show ?thesis
      by (auto simp: e feed split: prod.splits)
  qed
qed

section \<open>Completion\<close>

definition fed :: "u32 \<Rightarrow> byte list \<Rightarrow> byte list list \<Rightarrow> nat set" where
  "fed packetID payload frames =
     set (filter (\<lambda>i. fragment_frame packetID payload i \<in> set frames) [0..<fragment_count (length payload)])"

lemma fragment_frame_inject:
  assumes "length payload \<le> MaxUDPDatagramPayload" "i < fragment_count (length payload)"
    "j < fragment_count (length payload)" "fragment_frame packetID payload i = fragment_frame packetID payload j"
  shows "i = j"
proof -
  have c: "fragment_count (length payload) \<le> 60" using fragment_count_bounds assms(1) by blast
  obtain f g where f: "DecodeUDPFragment (fragment_frame packetID payload i) = Ok f" "is_fragment packetID payload i f"
    and g: "DecodeUDPFragment (fragment_frame packetID payload j) = Ok g" "is_fragment packetID payload j g"
    using decode_fragment_frame assms by meson
  from f g assms(4) have "(word_of_nat i :: byte) = word_of_nat j" by (auto simp: is_fragment_def)
  then have "unat (word_of_nat i :: byte) = unat (word_of_nat j :: byte)" by simp
  with c assms show ?thesis by simp
qed

lemma fed_own:
  assumes "length payload \<le> MaxUDPDatagramPayload" "i < fragment_count (length payload)"
  shows "fed packetID payload (frames @ [fragment_frame packetID payload i]) = insert i (fed packetID payload frames)"
  using assms fragment_frame_inject [OF assms(1) _ assms(2)] by (auto simp: fed_def)

lemma decoded_packet_frame:
  assumes "length payload \<le> MaxUDPDatagramPayload" "packet_frame packetID payload frame"
  shows "decoded_id frame = Some packetID"
proof -
  from assms(2) obtain i where i: "i < fragment_count (length payload)"
    "frame = fragment_frame packetID payload i" by (auto simp: packet_frame_def)
  from decode_fragment_frame [OF assms(1) i(1), of packetID] i(2)
  show ?thesis by (auto simp: decoded_id_def is_fragment_def)
qed

lemma fed_other:
  assumes "length payload \<le> MaxUDPDatagramPayload" "decoded_id frame \<noteq> Some packetID"
  shows "fed packetID payload (frames @ [frame]) = fed packetID payload frames"
  using assms decoded_packet_frame [OF assms(1), of packetID frame]
  by (auto simp: fed_def packet_frame_def)

definition ids :: "reassembler \<Rightarrow> u32 set" where
  "ids r = fst ` set r"

definition progress :: "u32 \<Rightarrow> byte list \<Rightarrow> nat \<Rightarrow> u32 set \<Rightarrow> nat set \<Rightarrow> reassembler \<Rightarrow> bool" where
  "progress packetID payload t0 J S r \<longleftrightarrow>
     table_wf r \<and> ids r \<subseteq> J \<and>
     ((map_of r packetID = None \<and> S = {}) \<or>
      (\<exists>p. map_of r packetID = Some p \<and> part_of payload S p \<and> t0 \<le> pp_created p))"

lemma keys_drop_id: "ids (drop_id i r) \<subseteq> ids r"
  by (auto simp: drop_id_def ids_def)

lemma keys_set_id: "ids (set_id i p r) \<subseteq> insert i (ids r)"
  by (auto simp: set_id_def drop_id_def ids_def)

lemma keys_reap: "ids (reapLocked now r) \<subseteq> ids r"
  by (auto simp: reapLocked_def ids_def)

lemma keys_dropOldest: "ids (dropOldestLocked r) \<subseteq> ids r"
  using dropOldest_cases [of r] keys_drop_id by (elim disjE exE) simp_all

lemma keys_pending:
  assumes "pending_entry now r f = (p, r')"
  shows "ids r' \<subseteq> insert (uf_PacketID f) (ids r)"
proof -
  have "r' = r \<or> (\<exists>q. r' = set_id (uf_PacketID f) q r) \<or> (\<exists>q. r' = set_id (uf_PacketID f) q (dropOldestLocked r))"
    using assms by (auto simp: pending_entry_def Let_def split: option.splits if_splits)
  then show ?thesis
    using keys_set_id [of "uf_PacketID f" _ r] keys_set_id [of "uf_PacketID f" _ "dropOldestLocked r"]
      keys_dropOldest [of r] by blast
qed

lemma keys_Feed:
  assumes "Feed now r frame dst_len = (res, r')"
  shows "ids r' \<subseteq> ids r \<union> set_option (decoded_id frame)"
proof (cases "frame_id frame")
  case None
  from Feed_single [OF this assms] show ?thesis by simp
next
  case (Some j)
  then obtain f where f: "DecodeUDPFragment frame = Ok f" "uf_Count f \<noteq> 1" "uf_PacketID f = j"
    by (auto simp: frame_id_def split: sum.splits if_splits)
  obtain p r2 where e: "pending_entry now (reapLocked now r) f = (p, r2)" by fastforce
  have d: "set_option (decoded_id frame) = {j}" using frame_id_decoded Some by simp
  have "ids r2 \<subseteq> insert j (ids r)"
    using keys_pending [OF e] keys_reap [of now r] f(3) by blast
  then have "ids (drop_id j r2) \<subseteq> insert j (ids r)" "ids (set_id j q r2) \<subseteq> insert j (ids r)" for q
    using keys_drop_id [of j r2] keys_set_id [of j q r2] by blast+
  with \<open>ids r2 \<subseteq> insert j (ids r)\<close> Feed_multi [OF f(1,2) e assms] show ?thesis
    unfolding d f(3) by (elim disjE exE conjE) simp_all
qed

lemma table_room:
  assumes "table_wf r" "ids r \<subseteq> J" "finite J" "card J \<le> maxReassemblyPackets" "j \<in> J"
    and "map_of r j = None"
  shows "length r < maxReassemblyPackets"
proof -
  from assms(2,6) have "fst ` set r \<subseteq> J - {j}" by (auto simp: map_of_eq_None_iff ids_def)
  then have "card (fst ` set r) \<le> card (J - {j})" using assms(3) by (simp add: card_mono)
  moreover have "card (J - {j}) < card J" using assms(3,5) by (intro psubset_card_mono) auto
  moreover have "card (fst ` set r) = length r"
    using assms(1) distinct_card [of "map fst r"] by (simp add: table_wf_def)
  ultimately show ?thesis using assms(4) by simp
qed

lemma table_wf_filter_none: "map_of r j = None \<Longrightarrow> map_of (filter P r) j = None"
  by (induction r) (auto split: if_splits)

text \<open>A frame of any packet, fed less than \<^const>\<open>fragmentExpiry\<close> after \<open>t0\<close> into a table that
  never sees more identities than it has room for, keeps what is known of the packet.\<close>

lemma progress_other:
  assumes pr: "progress packetID payload t0 J S r" and J: "finite J" "card J \<le> maxReassemblyPackets"
    and idJ: "set_option (decoded_id frame) \<subseteq> J" and now: "now < t0 + fragmentExpiry"
    and ne: "decoded_id frame \<noteq> Some packetID" and feed: "Feed now r frame dst_len = (res, r')"
  shows "progress packetID payload t0 J S r'"
proof -
  have wf: "table_wf r" and sub: "ids r \<subseteq> J" using pr by (simp_all add: progress_def)
  have sub': "ids r' \<subseteq> J" using keys_Feed [OF feed] sub idJ by blast
  have fne: "frame_id frame \<noteq> Some packetID" using ne frame_id_decoded by blast
  have same: "map_of r' packetID = map_of r packetID" if some: "map_of r packetID \<noteq> None"
  proof (cases "frame_id frame")
    case None
    from Feed_single [OF this feed] show ?thesis by simp
  next
    case (Some j)
    then obtain f where f: "DecodeUDPFragment frame = Ok f" "uf_Count f \<noteq> 1" "uf_PacketID f = j"
      by (auto simp: frame_id_def split: sum.splits if_splits)
    obtain p r2 where e: "pending_entry now (reapLocked now r) f = (p, r2)" by fastforce
    have jJ: "j \<in> J" using frame_id_decoded [OF Some] idJ by simp
    have pj: "packetID \<noteq> uf_PacketID f" using fne Some f(3) by simp
    have reap: "map_of (reapLocked now r) packetID = map_of r packetID"
      using pr some now by (auto simp: progress_def map_of_reap [OF wf])
    have room: "length (reapLocked now r) < maxReassemblyPackets \<or>
        map_of (reapLocked now r) (uf_PacketID f) \<noteq> None"
      using table_room [OF table_reap [OF wf] _ J jJ] keys_reap [of now r] sub f(3) by blast
    have "map_of r2 packetID = map_of (reapLocked now r) packetID"
      by (rule pending_entry_other(2) [OF table_reap [OF wf] e pj room])
    with reap have "map_of r2 packetID = map_of r packetID" by simp
    moreover have wf2: "table_wf r2" using pending_entry_table(1) [OF table_reap [OF wf] e] .
    ultimately show ?thesis
      using Feed_multi [OF f(1,2) e feed] pj by (auto simp: map_of_drop_id map_of_set_id)
  qed
  have "map_of r' packetID = map_of r packetID"
  proof (cases "map_of r packetID")
    case None
    with Feed_other [OF wf feed fne] show ?thesis by auto
  next
    case (Some p)
    with same show ?thesis by simp
  qed
  with pr sub' Feed_table(1) [OF wf feed] show ?thesis by (simp add: progress_def)
qed

lemma progress_own:
  assumes pr: "progress packetID payload t0 J S r" and pJ: "packetID \<in> J"
    and len: "length payload \<le> MaxUDPDatagramPayload" and i: "i < fragment_count (length payload)"
    and multi: "fragment_count (length payload) \<noteq> 1"
    and now: "t0 \<le> now" "now < t0 + fragmentExpiry"
    and feed: "Feed now r (fragment_frame packetID payload i) dst_len = (res, r')"
  shows "if insert i S = {..<fragment_count (length payload)}
    then res = (if dst_len < length payload then FeedError ErrShortBuffer else Complete payload)
    else res = NeedMore \<and> progress packetID payload t0 J (insert i S) r'"
proof -
  have wf: "table_wf r" using pr by (simp add: progress_def)
  have entry: "(map_of (reapLocked now r) packetID = None \<and> S = {}) \<or>
      (\<exists>p. map_of (reapLocked now r) packetID = Some p \<and> part_of payload S p)"
    using pr now by (auto simp: progress_def map_of_reap)
  have created: "t0 \<le> (case map_of (reapLocked now r) packetID of None \<Rightarrow> now | Some p \<Rightarrow> pp_created p)"
    using pr now by (auto simp: progress_def map_of_reap)
  have "packet_frame packetID payload (fragment_frame packetID payload i)" using i by (auto simp: packet_frame_def)
  from decoded_packet_frame [OF len this] keys_Feed [OF feed] pr pJ
  have sub: "ids r' \<subseteq> J" by (auto simp: progress_def)
  from Feed_own [OF wf len i multi entry feed] created sub Feed_table(1) [OF wf feed]
  show ?thesis by (auto simp: progress_def split: if_splits)
qed

definition timely_history ::
  "u32 \<Rightarrow> byte list \<Rightarrow> nat \<Rightarrow> u32 set \<Rightarrow> (nat \<times> byte list \<times> nat) list \<Rightarrow> bool" where
  "timely_history packetID payload t0 J es \<longleftrightarrow>
     (\<forall>(now, frame, dst_len)\<in>set es.
        t0 \<le> now \<and> now < t0 + fragmentExpiry \<and> set_option (decoded_id frame) \<subseteq> J \<and>
        (decoded_id frame = Some packetID \<longrightarrow> packet_frame packetID payload frame))"

lemma timely_progress:
  assumes "table_wf r" "map_of r packetID = None" "ids r \<subseteq> J" "packetID \<in> J"
    and J: "finite J" "card J \<le> maxReassemblyPackets"
    and len: "length payload \<le> MaxUDPDatagramPayload" "fragment_count (length payload) \<noteq> 1"
    and "timely_history packetID payload t0 J es"
    and "fed packetID payload (map (fst \<circ> snd) es) \<noteq> {..<fragment_count (length payload)}"
  shows "progress packetID payload t0 J (fed packetID payload (map (fst \<circ> snd) es)) (snd (feed_all r es))"
  using assms(9,10)
proof (induction es rule: rev_induct)
  case Nil
  from assms(1-3) show ?case by (simp add: progress_def fed_def)
next
  case (snoc e es)
  obtain now frame dst_len where e: "e = (now, frame, dst_len)" by (cases e)
  let ?fr = "map (fst \<circ> snd) es" and ?c = "fragment_count (length payload)"
  have mono: "fed packetID payload ?fr \<subseteq> fed packetID payload (?fr @ [frame])" by (auto simp: fed_def)
  have le: "fed packetID payload (?fr @ [frame]) \<subseteq> {..<?c}" by (auto simp: fed_def)
  have ne: "fed packetID payload (?fr @ [frame]) \<noteq> {..<?c}" using snoc.prems(2) by (simp add: e comp_def)
  have "fed packetID payload ?fr \<noteq> {..<?c}" using mono le ne by blast
  moreover have "timely_history packetID payload t0 J es"
    using snoc.prems(1) by (simp add: timely_history_def)
  ultimately have pr: "progress packetID payload t0 J (fed packetID payload ?fr) (snd (feed_all r es))"
    by (rule snoc.IH [rotated])
  obtain res r' where feed: "Feed now (snd (feed_all r es)) frame dst_len = (res, r')" by fastforce
  have fin: "snd (feed_all r (es @ [e])) = r'"
    using feed by (simp add: feed_all_snoc e)
  have now: "t0 \<le> now" "now < t0 + fragmentExpiry" and sub: "set_option (decoded_id frame) \<subseteq> J"
    and fr: "decoded_id frame = Some packetID \<longrightarrow> packet_frame packetID payload frame"
    using snoc.prems(1) by (auto simp: timely_history_def e)
  have "progress packetID payload t0 J (fed packetID payload (?fr @ [frame])) r'"
  proof (cases "decoded_id frame = Some packetID")
    case False
    then show ?thesis using progress_other [OF pr J sub now(2) False feed] by (simp add: fed_other len)
  next
    case True
    with fr obtain i where i: "i < ?c" "frame = fragment_frame packetID payload i"
      by (auto simp: packet_frame_def)
    have "fed packetID payload (?fr @ [frame]) = insert i (fed packetID payload ?fr)"
      unfolding i(2) by (rule fed_own [OF len(1) i(1)])
    with progress_own [OF pr assms(4) len(1) i(1) len(2) now feed [unfolded i(2)]] ne
    show ?thesis by simp
  qed
  with fin show ?case by (simp add: e comp_def)
qed

section \<open>The buffer-reusing sender\<close>

lemma take_overlay_split:
  "at + length part \<le> length data \<Longrightarrow>
    take (at + length part) (overlay data at part) = take at data @ part"
  by (simp add: overlay_def)

lemma overlay_fits:
  "at + length part \<le> length data \<Longrightarrow> overlay data at part = take at data @ part @ drop (at + length part) data"
  by (simp add: overlay_def)

lemma split_header: "8 \<le> length frame \<Longrightarrow>
    \<exists>a b c d e f g h body. frame = a # b # c # d # e # f # g # h # body"
  by (cases frame rule: list.exhaust; (simp, fail)?)
    (auto simp: numeral_eq_Suc Suc_le_length_iff)

lemma list_of_4: "length xs = 4 \<Longrightarrow> \<exists>p q r s. xs = [p, q, r, s]"
  by (auto simp: numeral_eq_Suc length_Suc_conv)

lemma list_of_2: "length xs = 2 \<Longrightarrow> \<exists>p q. xs = [p, q]"
  by (auto simp: numeral_eq_Suc length_Suc_conv)

lemma fill_frame_correct:
  assumes len: "length payload \<le> MaxUDPDatagramPayload" and i: "i < fragment_count (length payload)"
    and frame: "length frame = UDPFragmentHeaderSize + UDPFragmentPayload"
  shows "take (UDPFragmentHeaderSize + min ((i + 1) * UDPFragmentPayload) (length payload) -
           min (i * UDPFragmentPayload) (length payload)) (fill_frame packetID payload i frame) =
         fragment_frame packetID payload i"
    and "length (fill_frame packetID payload i frame) = UDPFragmentHeaderSize + UDPFragmentPayload"
proof -
  obtain a b c d e f g h body where fr: "frame = a # b # c # d # e # f # g # h # body"
    using split_header [of frame] frame by (auto simp: UDPFragmentHeaderSize_def)
  obtain p q r s where id: "put_u32 packetID = [p, q, r, s]"
    using list_of_4 [OF length_put(2)] by blast
  obtain t u where tot: "put_u16 (word_of_nat (length payload)) = [t, u]"
    using list_of_2 [OF length_put(1)] by blast
  let ?part = "fragment_part payload i"
  let ?hd = "[p, q, r, s, t, u, word_of_nat i, word_of_nat (fragment_count (length payload))]"
  have body: "length body = UDPFragmentPayload" using frame fr by (simp add: UDPFragmentHeaderSize_def)
  have part: "take (min ((i + 1) * UDPFragmentPayload) (length payload) - min (i * UDPFragmentPayload) (length payload))
      (drop (min (i * UDPFragmentPayload) (length payload)) payload) = ?part"
    by (simp add: fragment_part_def Let_def)
  have lp: "length ?part \<le> UDPFragmentPayload" by simp
  have fill: "fill_frame packetID payload i frame = ?hd @ ?part @ drop (length ?part) body"
    using lp body part
    by (simp add: fill_frame_def Let_def overlay_fits fr id tot UDPFragmentHeaderSize_def numeral_eq_Suc
        del: length_fragment_part)
  have n: "UDPFragmentHeaderSize + min ((i + 1) * UDPFragmentPayload) (length payload) -
           min (i * UDPFragmentPayload) (length payload) = length ?hd + length ?part"
    using fragment_count_bounds(4) [OF i] unfolding length_fragment_part
    by (simp add: UDPFragmentHeaderSize_def min_def) linarith
  show "take (UDPFragmentHeaderSize + min ((i + 1) * UDPFragmentPayload) (length payload) -
           min (i * UDPFragmentPayload) (length payload)) (fill_frame packetID payload i frame) =
         fragment_frame packetID payload i"
    unfolding n fill by (simp add: fragment_frame_def id tot del: length_fragment_part)
  show "length (fill_frame packetID payload i frame) = UDPFragmentHeaderSize + UDPFragmentPayload"
    unfolding fill using lp body by (simp add: UDPFragmentHeaderSize_def del: length_fragment_part)
qed

lemma punch_rounds_send_all:
  assumes "length payload \<le> MaxUDPDatagramPayload"
    and "length frame = UDPFragmentHeaderSize + UDPFragmentPayload"
    and "\<forall>i\<in>set is. i < fragment_count (length payload)"
  shows "punch_rounds packetID payload send is frame s = send_all send s (map (fragment_frame packetID payload) is)"
  using assms(2,3)
proof (induction "is" arbitrary: frame s)
  case Nil
  then show ?case by simp
next
  case (Cons i "is")
  from Cons.prems fill_frame_correct [OF assms(1) _ Cons.prems(1), of i]
  show ?case by (simp add: Let_def Cons.IH split: prod.split option.split)
qed

text \<open>C18. The two senders of the program, the allocating one of the relay and the buffer-reusing one
  of the direct path, emit the same frames, for any payload, callback and callback failure.\<close>

theorem punch_fragments_same:
  "punch_FragmentUDP packetID payload send s = FragmentUDP packetID payload send s"
proof (cases "length payload > MaxUDPDatagramPayload")
  case False
  then have "punch_rounds packetID payload send [0..<fragment_count (length payload)]
      (replicate (UDPFragmentHeaderSize + UDPFragmentPayload) 0) s =
      send_all send s (map (fragment_frame packetID payload) [0..<fragment_count (length payload)])"
    by (intro punch_rounds_send_all) simp_all
  with False show ?thesis by (simp add: punch_FragmentUDP_def FragmentUDP_def)
qed (simp add: punch_FragmentUDP_def FragmentUDP_def)

section \<open>Properties\<close>

lemma decoded_fragment_index:
  assumes "DecodeUDPFragment frame = Ok f"
  shows "unat (uf_Index f) * UDPFragmentPayload \<le> unat (uf_Total f)"
proof -
  have "unat (uf_Index f) < fragment_count (unat (uf_Total f))"
    using assms by (auto simp: DecodeUDPFragment_def Let_def word_less_nat_alt not_le split: if_splits)
  from fragment_count_bounds(4) [OF this] show ?thesis .
qed

definition table_ok :: "reassembler \<Rightarrow> bool" where
  "table_ok r \<longleftrightarrow> table_wf r \<and> length r \<le> maxReassemblyPackets \<and>
     (\<forall>(i, p)\<in>set r. length (pp_data p) = unat (pp_total p) \<and> unat (pp_total p) \<le> MaxUDPDatagramPayload)"

lemma table_ok_entry: "table_ok r \<Longrightarrow> map_of r i = Some p \<Longrightarrow>
    length (pp_data p) = unat (pp_total p) \<and> unat (pp_total p) \<le> MaxUDPDatagramPayload"
  using map_of_SomeD by (fastforce simp: table_ok_def)

lemma table_okI:
  "table_wf r \<Longrightarrow> length r \<le> maxReassemblyPackets \<Longrightarrow>
    (\<And>i p. map_of r i = Some p \<Longrightarrow>
      length (pp_data p) = unat (pp_total p) \<and> unat (pp_total p) \<le> MaxUDPDatagramPayload) \<Longrightarrow> table_ok r"
  by (auto simp: table_ok_def table_wf_def)

lemma absorb_total: "absorb f p = Some p1 \<Longrightarrow> length (pp_data p1) = length (pp_data p) \<and> pp_total p1 = pp_total p"
  by (auto simp: absorb_def Let_def split: if_splits)

lemma pending_entry_ok:
  assumes "table_ok r" "DecodeUDPFragment frame = Ok f" "pending_entry now r f = (p, r')"
  shows "length (pp_data p) = unat (pp_total p) \<and> unat (pp_total p) \<le> MaxUDPDatagramPayload"
proof (cases "map_of r (uf_PacketID f)")
  case None
  have "unat (uf_Total f) \<le> MaxUDPDatagramPayload"
    using assms(2) by (auto simp: DecodeUDPFragment_def Let_def split: if_splits)
  with None assms(3) show ?thesis by (auto simp: pending_entry_def Let_def)
next
  case (Some q)
  with assms table_ok_entry [OF assms(1) Some] show ?thesis by (simp add: pending_entry_def)
qed

lemma reap_ok: "table_ok r \<Longrightarrow> table_ok (reapLocked now r)"
  by (auto simp: table_ok_def table_reap) (auto simp: reapLocked_def intro: le_trans [OF length_filter_le])

lemma Feed_ok:
  assumes ok: "table_ok r" and feed: "Feed now r frame dst_len = (res, r')"
  shows "table_ok r' \<and> res \<noteq> FeedError FragmentPanic"
proof -
  have wf: "table_wf r" and l: "length r \<le> maxReassemblyPackets" using ok by (simp_all add: table_ok_def)
  show ?thesis
  proof (cases "frame_id frame")
    case None
    with Feed_single [OF None feed] ok feed show ?thesis
      by (auto simp: Feed_def frame_id_def DecodeUDPFragment_def Let_def split: sum.splits if_splits)
  next
    case (Some j)
    then obtain f where f: "DecodeUDPFragment frame = Ok f" "uf_Count f \<noteq> 1" "uf_PacketID f = j"
      by (auto simp: frame_id_def split: sum.splits if_splits)
    obtain p r2 where e: "pending_entry now (reapLocked now r) f = (p, r2)" by fastforce
    note wf2 = pending_entry_table(1) [OF table_reap [OF wf] e]
    have pok: "length (pp_data p) = unat (pp_total p)" "unat (pp_total p) \<le> MaxUDPDatagramPayload"
      using pending_entry_ok [OF reap_ok [OF ok] f(1) e] by simp_all
    have other: "length (pp_data q) = unat (pp_total q) \<and> unat (pp_total q) \<le> MaxUDPDatagramPayload"
      if q: "map_of r' i = Some q" "i \<noteq> j" for i q
    proof -
      have "frame_id frame \<noteq> Some i" using Some q by simp
      from Feed_other [OF wf feed this] q have "map_of r i = Some q" by auto
      from table_ok_entry [OF ok this] show ?thesis .
    qed
    have own: "length (pp_data q) = unat (pp_total q) \<and> unat (pp_total q) \<le> MaxUDPDatagramPayload"
      if q: "map_of r' j = Some q" for q
    proof -
      have "q = p \<or> absorb f p = Some q"
        using Feed_multi [OF f(1,2) e feed] q f(3) pending_entry_table(2) [OF table_reap [OF wf] e]
        by (auto simp: map_of_drop_id [OF wf2] map_of_set_id [OF wf2])
      with pok absorb_total show ?thesis by auto
    qed
    have "table_ok r'"
      using Feed_table [OF wf feed] l other own by (intro table_okI) blast+
    moreover have "absorb f p \<noteq> None" if "pp_total p = uf_Total f"
      using that pok(1) decoded_fragment_index [OF f(1)] by (auto simp: absorb_def Let_def)
    then have "res \<noteq> FeedError FragmentPanic"
      using feed f e by (auto simp: Feed_def split: if_splits option.splits)
    ultimately show ?thesis by simp
  qed
qed

lemma feed_all_ok:
  "table_ok r \<Longrightarrow> table_ok (snd (feed_all r es)) \<and> FeedError FragmentPanic \<notin> set (fst (feed_all r es))"
proof (induction r es rule: feed_all.induct)
  case (2 r now frame dst_len es)
  obtain res r' where feed: "Feed now r frame dst_len = (res, r')" by fastforce
  from Feed_ok [OF 2(2) feed] 2(1) [OF feed [symmetric]] feed
  show ?case by (auto split: prod.splits)
qed simp

text \<open>C19. Whatever bytes a peer sends, at any times and with any receive buffers, feeding never
  panics, the table never holds more than \<^const>\<open>maxReassemblyPackets\<close> packets, and every buffer
  in it is at most one maximal datagram.\<close>

theorem reassembly_bounded:
  "FeedError FragmentPanic \<notin> set (fst (feed_all NewReassembler es)) \<and>
   length (snd (feed_all NewReassembler es)) \<le> maxReassemblyPackets \<and>
   list_all (\<lambda>(i, p). length (pp_data p) \<le> MaxUDPDatagramPayload) (snd (feed_all NewReassembler es))"
proof -
  have "table_ok NewReassembler" by (simp add: table_ok_def table_wf_def NewReassembler_def)
  from feed_all_ok [OF this, of es] show ?thesis by (auto simp: table_ok_def list_all_iff)
qed

text \<open>C20. Reassembly is sound: if every frame that decodes to a packet identity is a fragment of one
  payload, then, with any order, duplication, loss, timing and any frames of other packets in
  between, a call fed such a frame asks for more, completes with exactly that payload, or reports
  that the caller's buffer is too short.\<close>

theorem reassembly_sound:
  assumes "length payload \<le> MaxUDPDatagramPayload"
    and "\<forall>(now, frame, dst_len)\<in>set es.
      decoded_id frame = Some packetID \<longrightarrow> packet_frame packetID payload frame"
    and "k < length es" and "decoded_id (fst (snd (es ! k))) = Some packetID"
  shows "fst (feed_all NewReassembler es) ! k \<in> {NeedMore, Complete payload, FeedError ErrShortBuffer}"
proof -
  have "packet_inv packetID payload NewReassembler" by (simp add: packet_inv_def table_wf_def NewReassembler_def)
  from packet_inv_history [OF this assms] show ?thesis .
qed

text \<open>C21. Reassembly is complete: while no more packets are in flight than the table holds and nothing
  is older than the expiry, the frame that brings the last missing fragment returns the payload,
  whatever the order, however often fragments were repeated, and whatever other packets did.\<close>

theorem reassembly_completes:
  assumes "length payload \<le> MaxUDPDatagramPayload" "fragment_count (length payload) \<noteq> 1"
    and "finite J" "card J \<le> maxReassemblyPackets" "packetID \<in> J"
    and "timely_history packetID payload since J (es @ [(now, fragment_frame packetID payload i, dst_len)])"
    and "fed packetID payload (map (fst \<circ> snd) es) \<noteq> {..<fragment_count (length payload)}"
    and "insert i (fed packetID payload (map (fst \<circ> snd) es)) = {..<fragment_count (length payload)}"
    and "length payload \<le> dst_len"
  shows "last (fst (feed_all NewReassembler (es @ [(now, fragment_frame packetID payload i, dst_len)]))) =
    Complete payload"
proof -
  have new: "table_wf NewReassembler" "map_of NewReassembler packetID = None" "ids NewReassembler \<subseteq> J"
    by (simp_all add: table_wf_def NewReassembler_def ids_def)
  have hist: "timely_history packetID payload since J es" and now: "since \<le> now" "now < since + fragmentExpiry"
    using assms(6) by (auto simp: timely_history_def)
  note pr = timely_progress [OF new assms(5,3,4,1,2) hist assms(7)]
  have i: "i < fragment_count (length payload)" using assms(8) by blast
  obtain res r' where feed: "Feed now (snd (feed_all NewReassembler es)) (fragment_frame packetID payload i) dst_len
      = (res, r')" by fastforce
  from progress_own [OF pr assms(5,1) i assms(2) now feed] assms(8,9)
  have "res = Complete payload" by simp
  with feed show ?thesis by (simp add: feed_all_snoc)
qed

section \<open>Witnesses\<close>

definition demo_payload :: "byte list" where "demo_payload = replicate 1500 7"

lemma demo_payload_facts:
  "length demo_payload \<le> MaxUDPDatagramPayload" "fragment_count (length demo_payload) = 2"
  by (simp_all add: demo_payload_def MaxUDPDatagramPayload_def fragment_count_def UDPFragmentPayload_def)

lemma demo_length: "length demo_payload = 1500"
  by (simp only: demo_payload_def length_replicate)

lemma demo_frames: "i < 2 \<Longrightarrow> packet_frame 9 demo_payload (fragment_frame 9 demo_payload i)"
  "i < 2 \<Longrightarrow> decoded_id (fragment_frame 9 demo_payload i) = Some 9"
  using decoded_packet_frame [OF demo_payload_facts(1)]
  by (auto simp: packet_frame_def demo_payload_facts)

lemma reassembly_sound_witness:
  "fst (feed_all NewReassembler [(5, fragment_frame 9 demo_payload 1, 2000)]) ! 0
     \<in> {NeedMore, Complete demo_payload, FeedError ErrShortBuffer}"
  by (rule reassembly_sound [of demo_payload "[(5, fragment_frame 9 demo_payload 1, 2000)]" 9 0])
    (simp_all add: demo_frames demo_payload_facts)

lemma demo_fed: "fed 9 demo_payload [fragment_frame 9 demo_payload 1] = {1}"
  using fed_own [OF demo_payload_facts(1), of 1 9 "[]"] by (simp add: demo_payload_facts fed_def)

lemma reassembly_completes_witness:
  "last (fst (feed_all NewReassembler
      ([(5, fragment_frame 9 demo_payload 1, 2000)] @ [(150, fragment_frame 9 demo_payload 0, 2000)]))) =
    Complete demo_payload"
proof -
  let ?es = "[(5::nat, fragment_frame 9 demo_payload 1, 2000::nat)]"
  let ?e = "(150::nat, fragment_frame 9 demo_payload 0, 2000::nat)"
  have fd: "fed 9 demo_payload (map (fst \<circ> snd) ?es) = {1}"
    by (simp only: list.map comp_apply fst_conv snd_conv demo_fed)
  have c: "{..<fragment_count (length demo_payload)} = {0, 1}"
    unfolding demo_payload_facts by auto
  have ne: "fed 9 demo_payload (map (fst \<circ> snd) ?es) \<noteq> {..<fragment_count (length demo_payload)}"
    and all: "insert 0 (fed 9 demo_payload (map (fst \<circ> snd) ?es)) = {..<fragment_count (length demo_payload)}"
    unfolding fd c by simp_all
  have hist: "timely_history 9 demo_payload 5 {9} (?es @ [?e])"
    by (simp add: timely_history_def fragmentExpiry_def demo_frames)
  have J: "finite {9 :: u32}" "card {9 :: u32} \<le> maxReassemblyPackets" "(9 :: u32) \<in> {9}"
    by (simp_all add: maxReassemblyPackets_def)
  have m: "fragment_count (length demo_payload) \<noteq> 1" by (simp add: demo_payload_facts)
  have d: "length demo_payload \<le> (2000::nat)" unfolding demo_length by simp
  show ?thesis
    by (rule reassembly_completes [OF demo_payload_facts(1) m J hist ne all d])
qed

end
