(* ===== verification/Go_Strings.thy ===== *)
theory Go_Strings
  imports Prelude "HOL-Library.Char_ord"
begin

text \<open>
  The functions of Go's \<open>strings\<close>, \<open>strconv\<close>, \<open>slices\<close> and \<open>path\<close> packages that the policy
  code calls. A Go string is a list of bytes, here a list of \<^typ>\<open>char\<close>; case mapping and white
  space are those of ASCII, which is what host names, identifiers and list entries use.
\<close>

definition code :: "char \<Rightarrow> nat" where "code c = of_char c"

definition is_digit :: "char \<Rightarrow> bool" where "is_digit c \<longleftrightarrow> 48 \<le> code c \<and> code c \<le> 57"
definition is_lower :: "char \<Rightarrow> bool" where "is_lower c \<longleftrightarrow> 97 \<le> code c \<and> code c \<le> 122"
definition is_upper :: "char \<Rightarrow> bool" where "is_upper c \<longleftrightarrow> 65 \<le> code c \<and> code c \<le> 90"
definition is_space :: "char \<Rightarrow> bool" where "is_space c \<longleftrightarrow> code c = 32 \<or> (9 \<le> code c \<and> code c \<le> 13)"

definition lower_char :: "char \<Rightarrow> char" where
  "lower_char c = (if is_upper c then char_of (code c + 32) else c)"

definition ToLower :: "string \<Rightarrow> string" where "ToLower s = map lower_char s"
definition EqualFold :: "string \<Rightarrow> string \<Rightarrow> bool" where "EqualFold s t \<longleftrightarrow> ToLower s = ToLower t"

definition TrimRightSpace :: "string \<Rightarrow> string" where
  "TrimRightSpace s = rev (dropWhile is_space (rev s))"
definition TrimSpace :: "string \<Rightarrow> string" where
  "TrimSpace s = TrimRightSpace (dropWhile is_space s)"

definition HasPrefix :: "string \<Rightarrow> string \<Rightarrow> bool" where "HasPrefix s p \<longleftrightarrow> prefix p s"
definition HasSuffix :: "string \<Rightarrow> string \<Rightarrow> bool" where "HasSuffix s p \<longleftrightarrow> suffix p s"
definition TrimPrefix :: "string \<Rightarrow> string \<Rightarrow> string" where
  "TrimPrefix s p = (if prefix p s then drop (length p) s else s)"
definition TrimSuffix :: "string \<Rightarrow> string \<Rightarrow> string" where
  "TrimSuffix s p = (if suffix p s then take (length s - length p) s else s)"

definition ContainsAny :: "string \<Rightarrow> string \<Rightarrow> bool" where
  "ContainsAny s cs \<longleftrightarrow> list_ex (\<lambda>c. c \<in> set cs) s"

text \<open>\<open>strings.Trim(s, cutset)\<close>.\<close>

definition Trim :: "string \<Rightarrow> string \<Rightarrow> string" where
  "Trim s cs = rev (dropWhile (\<lambda>c. c \<in> set cs) (rev (dropWhile (\<lambda>c. c \<in> set cs) s)))"

text \<open>\<open>strings.Cut\<close> and \<open>strings.SplitN(s, sep, 2)\<close> at a byte, and \<open>strings.Split\<close>.\<close>

definition cut_at :: "char \<Rightarrow> string \<Rightarrow> (string \<times> string) option" where
  "cut_at c s =
     (case dropWhile (\<lambda>x. x \<noteq> c) s of [] \<Rightarrow> None | _ # rest \<Rightarrow> Some (takeWhile (\<lambda>x. x \<noteq> c) s, rest))"

fun split_on :: "char \<Rightarrow> string \<Rightarrow> string list" where
  "split_on c [] = [[]]"
| "split_on c (x # xs) =
     (if x = c then [] # split_on c xs
      else (case split_on c xs of [] \<Rightarrow> [[x]] | w # ws \<Rightarrow> (x # w) # ws))"

fun digits_val :: "nat \<Rightarrow> string \<Rightarrow> nat option" where
  "digits_val acc [] = Some acc"
| "digits_val acc (c # cs) = (if is_digit c then digits_val (acc * 10 + (code c - 48)) cs else None)"

text \<open>\<open>strconv.ParseUint(s, 10, 16)\<close>, whose value on overflow is the maximum and on bad syntax 0, and
  \<open>strconv.Atoi\<close> on strings without a sign.\<close>

definition ParseUint16 :: "string \<Rightarrow> u16" where
  "ParseUint16 s =
     (if s = [] then 0
      else (case digits_val 0 s of None \<Rightarrow> 0 | Some n \<Rightarrow> if n > 65535 then 65535 else word_of_nat n))"

definition Atoi_digits :: "string \<Rightarrow> nat option" where
  "Atoi_digits s = (if s = [] then None else digits_val 0 s)"

fun nat_digits :: "nat \<Rightarrow> nat \<Rightarrow> string" where
  "nat_digits 0 n = []"
| "nat_digits (Suc k) n = (if n < 10 then [char_of (48 + n)] else nat_digits k (n div 10) @ [char_of (48 + n mod 10)])"

definition Itoa :: "nat \<Rightarrow> string" where "Itoa n = nat_digits (Suc n) n"

section \<open>Laws\<close>

lemma code_less [simp]: "code c < 256"
  by (simp add: code_def)

lemma code_inject: "code c = code d \<longleftrightarrow> c = d"
  by (simp add: code_def)

lemma code_char_of: "n < 256 \<Longrightarrow> code (char_of n) = n"
  by (simp add: code_def)

lemma lower_lower_char [simp]: "lower_char (lower_char c) = lower_char c"
  by (auto simp: lower_char_def is_upper_def code_char_of)

lemma ToLower_simps [simp]:
  "ToLower [] = []" "ToLower (c # s) = lower_char c # ToLower s" "ToLower (s @ t) = ToLower s @ ToLower t"
  "length (ToLower s) = length s"
  by (simp_all add: ToLower_def)

lemma ToLower_idem [simp]: "ToLower (ToLower s) = ToLower s"
  by (induction s) auto

lemma EqualFold_refl [simp]: "EqualFold s s"
  by (simp add: EqualFold_def)

lemma TrimSuffix_append [simp]: "TrimSuffix (s @ p) p = s"
  by (auto simp: TrimSuffix_def suffix_def)

lemma TrimPrefix_append [simp]: "TrimPrefix (p @ s) p = s"
  by (simp add: TrimPrefix_def)

lemma cut_at_None: "cut_at c s = None \<longleftrightarrow> c \<notin> set s"
proof -
  have "dropWhile (\<lambda>x. x \<noteq> c) s = [] \<longleftrightarrow> c \<notin> set s" by (auto simp: dropWhile_eq_Nil_conv)
  then show ?thesis
    by (auto simp: cut_at_def simp del: dropWhile_eq_Nil_conv split: list.split)
qed

lemma cut_at_Some: "cut_at c s = Some (a, b) \<Longrightarrow> s = a @ c # b \<and> c \<notin> set a"
proof -
  assume "cut_at c s = Some (a, b)"
  then obtain d where d: "dropWhile (\<lambda>x. x \<noteq> c) s = d # b" and a: "a = takeWhile (\<lambda>x. x \<noteq> c) s"
    by (auto simp: cut_at_def split: list.splits)
  have "d = c" using hd_dropWhile [of "\<lambda>x. x \<noteq> c" s] d by auto
  moreover have "s = a @ d # b" using takeWhile_dropWhile_id [of "\<lambda>x. x \<noteq> c" s] d a by metis
  moreover have "c \<notin> set a" using set_takeWhileD unfolding a by fastforce
  ultimately show ?thesis by simp
qed

lemma cut_at_append: "c \<notin> set a \<Longrightarrow> cut_at c (a @ c # b) = Some (a, b)"
  by (induction a) (auto simp: cut_at_def split: list.splits)

lemma split_on_ne [simp]: "split_on c s \<noteq> []"
  by (induction s) (auto split: list.split)

lemma split_on_no_sep: "w \<in> set (split_on c s) \<Longrightarrow> c \<notin> set w"
  by (induction s arbitrary: w) (auto split: list.splits if_splits)

text \<open>Suffixes at label boundaries.\<close>

lemma suffix_dot: "suffix (d # t) s \<longleftrightarrow> (\<exists>r. s = r @ d # t)"
  by (auto simp: suffix_def)

end
