(* ===== verification/Go_Netip.thy ===== *)
theory Go_Netip
  imports Go_Strings
begin

text \<open>
  Go's \<open>net/netip\<close> and \<open>net\<close> address types: parsing of textual addresses, prefixes and CIDR
  blocks, the 4-byte, 16-byte and mapped forms, and containment. An address keeps the width it was
  written in, since the program's comparisons depend on it.
\<close>

section \<open>\<open>netip.Addr\<close>\<close>

text \<open>The zero value is an invalid address; the bytes are 4 or 16, most significant first.\<close>

datatype addr = InvalidAddr | Addr4 "byte list" | Addr6 "byte list" (zone: string)

fun BitLen :: "addr \<Rightarrow> nat" where
  "BitLen InvalidAddr = 0" | "BitLen (Addr4 _) = 32" | "BitLen (Addr6 _ _) = 128"

fun Zone :: "addr \<Rightarrow> string" where
  "Zone (Addr6 _ z) = z" | "Zone _ = []"

fun addr_bytes :: "addr \<Rightarrow> byte list" where
  "addr_bytes InvalidAddr = []" | "addr_bytes (Addr4 bs) = bs" | "addr_bytes (Addr6 bs _) = bs"

definition mapped_prefix :: "byte list" where
  "mapped_prefix = replicate 10 0 @ [255, 255]"

fun Is4In6 :: "addr \<Rightarrow> bool" where
  "Is4In6 (Addr6 bs _) = (take 12 bs = mapped_prefix)" | "Is4In6 _ = False"

fun Unmap :: "addr \<Rightarrow> addr" where
  "Unmap (Addr6 bs z) = (if take 12 bs = mapped_prefix then Addr4 (drop 12 bs) else Addr6 bs z)"
| "Unmap a = a"

fun WithoutZone :: "addr \<Rightarrow> addr" where
  "WithoutZone (Addr6 bs z) = Addr6 bs []" | "WithoutZone a = a"

fun As16 :: "addr \<Rightarrow> byte list" where
  "As16 (Addr4 bs) = mapped_prefix @ bs" | "As16 (Addr6 bs _) = bs" | "As16 InvalidAddr = replicate 16 0"

fun addr_wf :: "addr \<Rightarrow> bool" where
  "addr_wf InvalidAddr = False" | "addr_wf (Addr4 bs) = (length bs = 4)" | "addr_wf (Addr6 bs z) = (length bs = 16)"

section \<open>Parsing\<close>

text \<open>Four decimal fields of one to three digits without leading zeros, each at most 255.\<close>

definition v4_field :: "string \<Rightarrow> byte option" where
  "v4_field s =
     (if s = [] \<or> (length s > 1 \<and> hd s = CHR ''0'') then None
      else (case digits_val 0 s of None \<Rightarrow> None | Some n \<Rightarrow> if n > 255 then None else Some (word_of_nat n)))"

fun all_fields :: "(string \<Rightarrow> 'a option) \<Rightarrow> string list \<Rightarrow> 'a list option" where
  "all_fields f [] = Some []"
| "all_fields f (s # ss) =
     (case f s of None \<Rightarrow> None
      | Some b \<Rightarrow> (case all_fields f ss of None \<Rightarrow> None | Some bs \<Rightarrow> Some (b # bs)))"

definition parse_v4 :: "string \<Rightarrow> byte list option" where
  "parse_v4 s =
     (let fields = split_on CHR ''.'' s in
      if length fields \<noteq> 4 then None else all_fields v4_field fields)"

definition hex_val :: "char \<Rightarrow> nat option" where
  "hex_val c =
     (if is_digit c then Some (code c - 48)
      else if 97 \<le> code c \<and> code c \<le> 102 then Some (code c - 87)
      else if 65 \<le> code c \<and> code c \<le> 70 then Some (code c - 55) else None)"

text \<open>The hexadecimal digits at the start of a string: their value, number and the rest.\<close>

fun hex_run :: "nat \<Rightarrow> nat \<Rightarrow> string \<Rightarrow> nat \<times> nat \<times> string" where
  "hex_run acc n [] = (acc, n, [])"
| "hex_run acc n (c # cs) =
     (case hex_val c of None \<Rightarrow> (acc, n, c # cs) | Some v \<Rightarrow> hex_run (acc * 16 + v) (Suc n) cs)"

text \<open>
  The field loop of \<open>parseIPv6\<close>: \<open>k\<close> fields may still follow, \<open>ip\<close> holds the bytes so far and
  \<open>ellipsis\<close> the position of \<open>::\<close>. The result is the bytes and that position.
\<close>

fun v6_fields :: "nat \<Rightarrow> byte list \<Rightarrow> nat option \<Rightarrow> string \<Rightarrow> (byte list \<times> nat option) option" where
  "v6_fields 0 ip ellipsis s = (if s = [] then Some (ip, ellipsis) else None)"
| "v6_fields (Suc k) ip ellipsis s =
     (case hex_run 0 0 s of
        (acc, n, rest) \<Rightarrow>
          if n = 0 \<or> n > 4 then None
          else if rest \<noteq> [] \<and> hd rest = CHR ''.'' then
            (if ellipsis = None \<and> length ip \<noteq> 12 then None
             else if length ip + 4 > 16 then None
             else (case parse_v4 s of None \<Rightarrow> None | Some bs \<Rightarrow> Some (ip @ bs, ellipsis)))
          else
            let ip' = ip @ [word_of_nat (acc div 256), word_of_nat acc] in
            (case rest of
               [] \<Rightarrow> Some (ip', ellipsis)
             | c # s1 \<Rightarrow>
               if c \<noteq> CHR '':'' \<or> s1 = [] then None
               else if hd s1 = CHR '':'' then
                 (if ellipsis \<noteq> None then None
                  else if tl s1 = [] then Some (ip', Some (length ip'))
                  else v6_fields k ip' (Some (length ip')) (tl s1))
               else v6_fields k ip' ellipsis s1))"

definition expand_v6 :: "byte list \<Rightarrow> nat option \<Rightarrow> byte list option" where
  "expand_v6 ip ellipsis =
     (if length ip < 16 then
        (case ellipsis of None \<Rightarrow> None
         | Some e \<Rightarrow> Some (take e ip @ replicate (16 - length ip) 0 @ drop e ip))
      else if ellipsis \<noteq> None then None else Some ip)"

definition parse_v6 :: "string \<Rightarrow> byte list option" where
  "parse_v6 s =
     (let (e0, body) = (if prefix [CHR '':'', CHR '':''] s then (Some 0, drop 2 s) else (None, s)) in
      if e0 \<noteq> None \<and> body = [] then Some (replicate 16 0)
      else (case v6_fields 8 [] e0 body of None \<Rightarrow> None | Some (ip, e) \<Rightarrow> expand_v6 ip e))"

definition parse_v6_zone :: "string \<Rightarrow> addr option" where
  "parse_v6_zone s =
     (case cut_at CHR ''%'' s of
        None \<Rightarrow> map_option (\<lambda>ip. Addr6 ip []) (parse_v6 s)
      | Some (a, z) \<Rightarrow> if z = [] then None else map_option (\<lambda>ip. Addr6 ip z) (parse_v6 a))"

text \<open>The first of \<open>.\<close>, \<open>:\<close> and \<open>%\<close> decides the family.\<close>

definition ParseAddr :: "string \<Rightarrow> addr option" where
  "ParseAddr s =
     (case dropWhile (\<lambda>c. c \<notin> {CHR ''.'', CHR '':'', CHR ''%''}) s of
        [] \<Rightarrow> None
      | c # _ \<Rightarrow> if c = CHR ''.'' then map_option Addr4 (parse_v4 s)
                 else if c = CHR '':'' then parse_v6_zone s else None)"

section \<open>\<open>netip.Prefix\<close>\<close>

record ip_prefix =
  px_addr :: addr
  px_bits :: nat

text \<open>The leading \<open>n\<close> bits of an address, as a number.\<close>

definition lead_bits :: "nat \<Rightarrow> byte list \<Rightarrow> nat" where
  "lead_bits n bs = be_val bs div 2 ^ (8 * length bs - n)"

definition mask_bytes :: "nat \<Rightarrow> byte list \<Rightarrow> byte list" where
  "mask_bytes n bs = be_bytes (length bs) (lead_bits n bs * 2 ^ (8 * length bs - n))"

fun mask_addr :: "nat \<Rightarrow> addr \<Rightarrow> addr" where
  "mask_addr n (Addr4 bs) = Addr4 (mask_bytes n bs)"
| "mask_addr n (Addr6 bs z) = Addr6 (mask_bytes n bs) []"
| "mask_addr n InvalidAddr = InvalidAddr"

definition Masked :: "ip_prefix \<Rightarrow> ip_prefix" where
  "Masked p = p\<lparr>px_addr := mask_addr (px_bits p) (px_addr p)\<rparr>"

text \<open>\<open>ParsePrefix\<close>: the last \<open>/\<close> separates the bits, which are plain decimal without leading zero;
  zones are refused.\<close>

definition prefix_bits :: "string \<Rightarrow> nat option" where
  "prefix_bits s =
     (if s = [] \<or> (length s > 1 \<and> (hd s < CHR ''1'' \<or> hd s > CHR ''9'')) then None else digits_val 0 s)"

definition ParsePrefix :: "string \<Rightarrow> ip_prefix option" where
  "ParsePrefix s =
     (case cut_at CHR ''/'' (rev s) of
        None \<Rightarrow> None
      | Some (rbits, raddr) \<Rightarrow>
        (case ParseAddr (rev raddr) of
           None \<Rightarrow> None
         | Some a \<Rightarrow>
           if Zone a \<noteq> [] then None
           else (case prefix_bits (rev rbits) of
                   None \<Rightarrow> None
                 | Some n \<Rightarrow> if n > BitLen a then None else Some \<lparr>px_addr = a, px_bits = n\<rparr>)))"

text \<open>Containment compares only within one family and never holds for an address with a zone.\<close>

definition prefix_Contains :: "ip_prefix \<Rightarrow> addr \<Rightarrow> bool" where
  "prefix_Contains p a \<longleftrightarrow>
     a \<noteq> InvalidAddr \<and> px_addr p \<noteq> InvalidAddr \<and> Zone a = [] \<and> BitLen (px_addr p) = BitLen a \<and>
     lead_bits (px_bits p) (addr_bytes (px_addr p)) = lead_bits (px_bits p) (addr_bytes a)"

section \<open>\<open>net.IP\<close> and \<open>net.IPNet\<close>\<close>

text \<open>A \<open>net.IP\<close> is a byte slice of any length; nil is the empty one.\<close>

type_synonym net_ip = "byte list"

definition To4 :: "net_ip \<Rightarrow> net_ip" where
  "To4 ip = (if length ip = 4 then ip
             else if length ip = 16 \<and> take 12 ip = mapped_prefix then drop 12 ip else [])"

definition To16 :: "net_ip \<Rightarrow> net_ip" where
  "To16 ip = (if length ip = 4 then mapped_prefix @ ip else if length ip = 16 then ip else [])"

definition ParseIP :: "string \<Rightarrow> net_ip" where
  "ParseIP s =
     (case ParseAddr s of Some a \<Rightarrow> if Zone a \<noteq> [] then [] else As16 a | None \<Rightarrow> [])"

record ip_net =
  net_IP :: net_ip
  net_Mask :: "byte list"

unbundle bit_operations_syntax

fun mask_run :: "nat \<Rightarrow> nat \<Rightarrow> byte list" where
  "mask_run 0 n = []"
| "mask_run (Suc l) n = (if n \<ge> 8 then 255 # mask_run l (n - 8) else NOT (drop_bit n 255) # mask_run l 0)"

definition CIDRMask :: "nat \<Rightarrow> nat \<Rightarrow> byte list" where
  "CIDRMask ones bits = mask_run (bits div 8) ones"

definition and_bytes :: "byte list \<Rightarrow> byte list \<Rightarrow> byte list" where
  "and_bytes xs ys = map2 (\<lambda>x y. x AND y) xs ys"

text \<open>\<open>IP.Mask\<close>.\<close>

definition ip_Mask :: "net_ip \<Rightarrow> byte list \<Rightarrow> net_ip" where
  "ip_Mask ip msk =
     (let msk1 = (if length msk = 16 \<and> length ip = 4 \<and> take 12 msk = replicate 12 255
                   then drop 12 msk else msk);
          ip1 = (if length msk1 = 4 \<and> length ip = 16 \<and> take 12 ip = mapped_prefix
                 then drop 12 ip else ip)
      in if length ip1 \<noteq> length msk1 then [] else and_bytes ip1 msk1)"

text \<open>\<open>dtoi\<close> of package \<open>net\<close>, on the whole string.\<close>

definition dtoi :: "string \<Rightarrow> nat option" where
  "dtoi s = (if s = [] then None
             else (case digits_val 0 s of None \<Rightarrow> None | Some n \<Rightarrow> if n \<ge> 0xFFFFFF then None else Some n))"

definition ParseCIDR :: "string \<Rightarrow> ip_net option" where
  "ParseCIDR s =
     (case cut_at CHR ''/'' s of
        None \<Rightarrow> None
      | Some (a, m) \<Rightarrow>
        (case ParseAddr a of
           None \<Rightarrow> None
         | Some ad \<Rightarrow>
           if Zone ad \<noteq> [] then None
           else (case dtoi m of
                   None \<Rightarrow> None
                 | Some n \<Rightarrow>
                   if n > BitLen ad then None
                   else let msk = CIDRMask n (BitLen ad)
                        in Some \<lparr>net_IP = ip_Mask (As16 ad) msk, net_Mask = msk\<rparr>)))"

definition networkNumberAndMask :: "ip_net \<Rightarrow> net_ip \<times> byte list" where
  "networkNumberAndMask n =
     (let ip4 = To4 (net_IP n); ip = (if ip4 = [] then net_IP n else ip4); m = net_Mask n in
      if ip4 = [] \<and> length ip \<noteq> 16 then ([], [])
      else if length m = 4 then (if length ip \<noteq> 4 then ([], []) else (ip, m))
      else if length m = 16 then (ip, if length ip = 4 then drop 12 m else m)
      else ([], []))"

definition net_Contains :: "ip_net \<Rightarrow> net_ip \<Rightarrow> bool" where
  "net_Contains n ip =
     (let (nn, m) = networkNumberAndMask n;
          x = (if To4 ip = [] then ip else To4 ip)
      in length x = length nn \<and> and_bytes nn m = and_bytes x m)"

text \<open>\<open>bytes.Compare\<close> is the lexicographic order, on slices of one length the numeric one.\<close>

fun bytes_le :: "byte list \<Rightarrow> byte list \<Rightarrow> bool" where
  "bytes_le [] ys = True"
| "bytes_le (x # xs) [] = False"
| "bytes_le (x # xs) (y # ys) = (x < y \<or> (x = y \<and> bytes_le xs ys))"

lemma be_val_Cons: "be_val (b # bs) = unat b * 256 ^ length bs + be_val bs"
proof (induction bs rule: rev_induct)
  case Nil
  then show ?case by (simp add: be_val_def)
next
  case (snoc x bs)
  have "be_val (b # bs @ [x]) = be_val (b # bs) * 256 + unat x"
    using be_val_snoc [of "b # bs" x] by simp
  with snoc show ?case by (simp add: algebra_simps)
qed

lemma bytes_le_iff: "length xs = length ys \<Longrightarrow> bytes_le xs ys \<longleftrightarrow> be_val xs \<le> be_val ys"
proof (induction xs ys rule: list_induct2)
  case Nil
  then show ?case by simp
next
  case (Cons x xs y ys)
  have b: "be_val xs < 256 ^ length xs" "be_val ys < 256 ^ length xs"
    using be_val_bound [of xs] be_val_bound [of ys] Cons.hyps by simp_all
  let ?B = "256 ^ length xs :: nat"
  have "unat x * ?B + be_val xs \<le> unat y * ?B + be_val ys \<longleftrightarrow> x < y \<or> (x = y \<and> be_val xs \<le> be_val ys)"
  proof (cases "x = y")
    case False
    then consider "unat x < unat y" | "unat y < unat x" by (meson linorder_neqE_nat unat_arith_simps(3))
    then show ?thesis
    proof cases
      case 1
      then have "(unat x + 1) * ?B \<le> unat y * ?B" by (intro mult_right_mono) simp_all
      with b 1 show ?thesis by (simp add: word_less_nat_alt)
    next
      case 2
      then have "(unat y + 1) * ?B \<le> unat x * ?B" by (intro mult_right_mono) simp_all
      with b 2 False show ?thesis by (simp add: word_less_nat_alt)
    qed
  qed simp
  with Cons show ?case by (simp add: be_val_Cons)
qed

section \<open>Evaluation\<close>

text \<open>Addresses that are written out in the program and in examples are parsed by the simplifier.\<close>

named_theorems ip_eval

lemmas [ip_eval] =
  v6_fields.simps(2) [of "pred_numeral k" for k, unfolded numeral_eq_Suc [symmetric]]
  replicate.simps(2) [of "pred_numeral k" for k, unfolded numeral_eq_Suc [symmetric]]
  mask_run.simps(2) [of "pred_numeral k" for k, unfolded numeral_eq_Suc [symmetric]]

lemmas [ip_eval] = ParseAddr_def cut_at_def parse_v4_def v4_field_def is_digit_def code_def
  parse_v6_zone_def parse_v6_def expand_v6_def hex_val_def Let_def

lemmas cidr_eval = ip_eval ParseCIDR_def dtoi_def ip_Mask_def and_bytes_def CIDRMask_def mapped_prefix_def
  ParseIP_def To4_def To16_def

end
