(* ===== verification/Glob.thy ===== *)
theory Glob
  imports Go_Strings
begin

text \<open>
  \<open>matchGlob\<close> of \<open>internal/acl/checker.go\<close>: the iterative host glob with one remembered star, its
  termination, and its agreement with a recursive reference definition.
\<close>

section \<open>The matcher\<close>

abbreviation star :: char where "star \<equiv> CHR ''*''"
abbreviation any_char :: char where "any_char \<equiv> CHR ''?''"

text \<open>The distance from the remembered star is the distance from the start of its run. It holds after
  the first star and each restart, so the run only grows; before that the pattern only advances.\<close>

definition aligned :: "nat \<Rightarrow> nat \<Rightarrow> (nat \<times> nat) option \<Rightarrow> bool" where
  "aligned p ss at =
     (case at of None \<Rightarrow> True | Some (st, m) \<Rightarrow> st < p \<and> ss + st + 1 = m + p)"

definition run_left :: "nat \<Rightarrow> (nat \<times> nat) option \<Rightarrow> nat" where
  "run_left n at = (case at of None \<Rightarrow> n + 1 | Some (st, m) \<Rightarrow> n - m)"

lemma aligned_simps [simp]:
  "aligned p ss None" "aligned p ss (Some (st, m)) \<longleftrightarrow> st < p \<and> ss + st + 1 = m + p"
  "run_left n None = n + 1" "run_left n (Some (st, m)) = n - m"
  by (simp_all add: aligned_def run_left_def)

text \<open>
  \<open>p\<close> and \<open>ss\<close> index the pattern and the string; \<open>at\<close> holds the last star and the position its
  run was last extended to, Go's \<open>star\<close> and \<open>match\<close> with \<^const>\<open>None\<close> for \<open>star = -1\<close>.
\<close>

function glob_loop :: "string \<Rightarrow> string \<Rightarrow> nat \<Rightarrow> nat \<Rightarrow> (nat \<times> nat) option \<Rightarrow> bool" where
  "glob_loop pattern s p ss at =
     (if ss < length s then
        (if p < length pattern \<and> (pattern ! p = any_char \<or> pattern ! p = s ! ss)
         then glob_loop pattern s (p + 1) (ss + 1) at
         else if p < length pattern \<and> pattern ! p = star
         then glob_loop pattern s (p + 1) ss (Some (p, ss))
         else (case at of
                 Some (st, m) \<Rightarrow> glob_loop pattern s (st + 1) (m + 1) (Some (st, m + 1))
               | None \<Rightarrow> False))
      else list_all (\<lambda>c. c = star) (drop p pattern))"
  by pat_completeness auto

termination
  by (relation "measures [\<lambda>(pattern, s, p, ss, at).
                            if aligned p ss at then run_left (length s) at else length s + 2,
                          \<lambda>(pattern, s, p, ss, at). length pattern - p]")
    (auto simp: aligned_def run_left_def split: option.splits)

declare glob_loop.simps [simp del]

lemma glob_steps:
  "ss < length s \<Longrightarrow> p < length pattern \<Longrightarrow> pattern ! p = any_char \<or> pattern ! p = s ! ss \<Longrightarrow>
    glob_loop pattern s p ss at = glob_loop pattern s (p + 1) (ss + 1) at"
  "ss < length s \<Longrightarrow> p < length pattern \<Longrightarrow> pattern ! p = star \<Longrightarrow> s ! ss \<noteq> star \<Longrightarrow>
    glob_loop pattern s p ss at = glob_loop pattern s (p + 1) ss (Some (p, ss))"
  "ss < length s \<Longrightarrow> length pattern \<le> p \<or> pattern ! p \<notin> {any_char, star, s ! ss} \<Longrightarrow>
    glob_loop pattern s p ss (Some (st, m)) = glob_loop pattern s (st + 1) (m + 1) (Some (st, m + 1))"
  "ss < length s \<Longrightarrow> length pattern \<le> p \<or> pattern ! p \<notin> {any_char, star, s ! ss} \<Longrightarrow>
    \<not> glob_loop pattern s p ss None"
  "length s \<le> ss \<Longrightarrow> glob_loop pattern s p ss at = list_all (\<lambda>c. c = star) (drop p pattern)"
  by (subst glob_loop.simps; auto)+

definition matchGlob :: "string \<Rightarrow> string \<Rightarrow> bool" where
  "matchGlob pattern s = glob_loop pattern s 0 0 None"

section \<open>The reference\<close>

fun glob :: "string \<Rightarrow> string \<Rightarrow> bool" where
  "glob [] s = (s = [])"
| "glob (c # p) s =
     (if c = star then glob p s \<or> (case s of [] \<Rightarrow> False | _ # t \<Rightarrow> glob (c # p) t)
      else (case s of [] \<Rightarrow> False | d # t \<Rightarrow> (c = any_char \<or> c = d) \<and> glob p t))"

lemma glob_star: "glob (star # p) s \<longleftrightarrow> (\<exists>k\<le>length s. glob p (drop k s))"
proof (induction s)
  case Nil
  then show ?case by simp
next
  case (Cons d t)
  have "(\<exists>k\<le>Suc (length t). glob p (drop k (d # t))) \<longleftrightarrow>
      glob p (d # t) \<or> (\<exists>k\<le>length t. glob p (drop k t))"
    by (metis Suc_le_mono drop0 drop_Suc_Cons not0_implies_Suc zero_le)
  with Cons show ?case by simp
qed

lemma glob_all_stars: "glob p [] \<longleftrightarrow> list_all (\<lambda>c. c = star) p"
  by (induction p) auto

lemma glob_segment:
  "star \<notin> set seg \<Longrightarrow> glob (seg @ p) s \<Longrightarrow> length seg \<le> length s \<and> glob p (drop (length seg) s)"
  by (induction seg arbitrary: s) (auto split: list.splits)

section \<open>Agreement\<close>

text \<open>What the remembered star still offers: its run may end further right.\<close>

definition retry :: "string \<Rightarrow> string \<Rightarrow> (nat \<times> nat) option \<Rightarrow> bool" where
  "retry pattern s at =
     (case at of None \<Rightarrow> False
      | Some (st, m) \<Rightarrow> \<exists>k\<le>length s. m < k \<and> glob (drop (st + 1) pattern) (drop k s))"

definition good_at :: "string \<Rightarrow> nat \<Rightarrow> nat \<Rightarrow> (nat \<times> nat) option \<Rightarrow> bool" where
  "good_at pattern p ss at \<longleftrightarrow>
     aligned p ss at \<and>
     (case at of None \<Rightarrow> True
      | Some (st, m) \<Rightarrow> star \<notin> set (take (p - st - 1) (drop (st + 1) pattern)))"

lemma good_at_split:
  assumes "good_at pattern p ss (Some (st, m))" "p \<le> length pattern"
  shows "drop (st + 1) pattern = take (p - st - 1) (drop (st + 1) pattern) @ drop p pattern"
    "length (take (p - st - 1) (drop (st + 1) pattern)) = ss - m" "m \<le> ss"
proof -
  from assms have a: "st < p" "ss + st + 1 = m + p" by (simp_all add: good_at_def)
  then have d: "drop (p - st - 1) (drop (st + 1) pattern) = drop p pattern" by (simp add: add.commute)
  show "drop (st + 1) pattern = take (p - st - 1) (drop (st + 1) pattern) @ drop p pattern"
    using append_take_drop_id [of "p - st - 1" "drop (st + 1) pattern"] unfolding d by simp
  show "length (take (p - st - 1) (drop (st + 1) pattern)) = ss - m" "m \<le> ss"
    using a assms(2) by simp_all
qed

lemma retry_later:
  assumes good: "good_at pattern p ss at" "p \<le> length pattern" and r: "retry pattern s at"
  shows "\<exists>j\<le>length s. ss < j \<and> glob (drop p pattern) (drop j s)"
proof -
  from r obtain st m where b: "at = Some (st, m)" by (auto simp: retry_def split: option.splits)
  note sp = good_at_split [OF good(1) [unfolded b] good(2)]
  let ?seg = "take (p - st - 1) (drop (st + 1) pattern)"
  from r b sp(1) obtain k where k: "k \<le> length s" "m < k" "glob (?seg @ drop p pattern) (drop k s)"
    by (auto simp: retry_def)
  have "star \<notin> set ?seg" using good(1) b by (simp add: good_at_def)
  from glob_segment [OF this k(3)] have "ss - m \<le> length s - k"
    "glob (drop p pattern) (drop (k + (ss - m)) s)" unfolding sp(2) by (simp_all add: add.commute)
  moreover have "ss < k + (ss - m)" using k(2) sp(3) by linarith
  moreover have "k + (ss - m) \<le> length s" using k(1) calculation(1) by linarith
  ultimately show ?thesis by blast
qed

lemma glob_loop_correct:
  assumes "star \<notin> set s" "p \<le> length pattern" "ss \<le> length s" "good_at pattern p ss at"
  shows "glob_loop pattern s p ss at \<longleftrightarrow> glob (drop p pattern) (drop ss s) \<or> retry pattern s at"
  using assms
proof (induction pattern s p ss at rule: glob_loop.induct)
  case (1 pattern s p ss at)
  note prems = "1.prems" and later = retry_later [OF "1.prems"(4) "1.prems"(2)]
  show ?case
  proof (cases "ss < length s")
    case False
    then have "drop ss s = []" "\<not> retry pattern s at" using later prems by force+
    then show ?thesis using False by (simp add: glob_loop.simps [of pattern s p ss at] glob_all_stars)
  next
    case ss: True
    show ?thesis
    proof (cases "p < length pattern \<and> (pattern ! p = any_char \<or> pattern ! p = s ! ss)")
      case True
      have ns: "pattern ! p \<noteq> star" using True prems(1) ss nth_mem by force
      have "good_at pattern (p + 1) (ss + 1) at"
      proof (cases at)
        case None
        then show ?thesis by (simp add: good_at_def)
      next
        case (Some b)
        obtain st m where b: "b = (st, m)" by (cases b)
        have a: "st < p" "ss + st + 1 = m + p" "star \<notin> set (take (p - st - 1) (drop (st + 1) pattern))"
          using prems(4) by (simp_all add: Some b good_at_def)
        have "take (p - st) (drop (st + 1) pattern) = take (p - st - 1) (drop (st + 1) pattern) @ [pattern ! p]"
        proof -
          have e: "p - st = Suc (p - st - 1)" and l: "p - st - 1 < length (drop (st + 1) pattern)"
            using a(1) True by auto
          show ?thesis using take_Suc_conv_app_nth [OF l] a(1) True unfolding e [symmetric] by simp
        qed
        then show ?thesis using a ns by (simp add: Some b good_at_def)
      qed
      with "1.IH"(1) ss True prems
      have "glob_loop pattern s (p + 1) (ss + 1) at \<longleftrightarrow>
          glob (drop (p + 1) pattern) (drop (ss + 1) s) \<or> retry pattern s at" by simp
      moreover have "glob (drop p pattern) (drop ss s) \<longleftrightarrow> glob (drop (p + 1) pattern) (drop (ss + 1) s)"
        using True ss ns by (simp add: nth_Cons_drop [of p pattern] nth_Cons_drop [of ss s])
      ultimately show ?thesis using ss True by (simp add: glob_loop.simps [of pattern s p ss at])
    next
      case nomatch: False
      show ?thesis
      proof (cases "p < length pattern \<and> pattern ! p = star")
        case True
        have dp: "drop p pattern = star # drop (p + 1) pattern" using True nth_Cons_drop [of p pattern] by simp
        have "good_at pattern (p + 1) ss (Some (p, ss))" by (simp add: good_at_def)
        with "1.IH"(2) ss True nomatch prems
        have ih: "glob_loop pattern s (p + 1) ss (Some (p, ss)) \<longleftrightarrow>
            glob (drop (p + 1) pattern) (drop ss s) \<or> retry pattern s (Some (p, ss))" by simp
        have now: "glob (drop p pattern) (drop ss s) \<longleftrightarrow>
            glob (drop (p + 1) pattern) (drop ss s) \<or> retry pattern s (Some (p, ss))"
        proof -
          have "glob (drop p pattern) (drop ss s) \<longleftrightarrow>
              (\<exists>k\<le>length s - ss. glob (drop (p + 1) pattern) (drop (k + ss) s))"
            unfolding dp glob_star by simp
          also have "\<dots> \<longleftrightarrow> (\<exists>j\<le>length s. ss \<le> j \<and> glob (drop (p + 1) pattern) (drop j s))"
          proof
            assume "\<exists>k\<le>length s - ss. glob (drop (p + 1) pattern) (drop (k + ss) s)"
            then obtain k where "k \<le> length s - ss" "glob (drop (p + 1) pattern) (drop (k + ss) s)" by blast
            then show "\<exists>j\<le>length s. ss \<le> j \<and> glob (drop (p + 1) pattern) (drop j s)"
              using ss by (intro exI [of _ "k + ss"]) auto
          next
            assume "\<exists>j\<le>length s. ss \<le> j \<and> glob (drop (p + 1) pattern) (drop j s)"
            then obtain j where "j \<le> length s" "ss \<le> j" "glob (drop (p + 1) pattern) (drop j s)" by blast
            then show "\<exists>k\<le>length s - ss. glob (drop (p + 1) pattern) (drop (k + ss) s)"
              by (intro exI [of _ "j - ss"]) auto
          qed
          finally show ?thesis using ss by (auto simp: retry_def le_less)
        qed
        have "glob (drop p pattern) (drop ss s)" if "retry pattern s at"
        proof -
          from later [OF that] obtain j where j: "j \<le> length s" "ss < j" "glob (star # drop (p + 1) pattern) (drop j s)"
            unfolding dp by blast
          then obtain k where "k \<le> length s - j" "glob (drop (p + 1) pattern) (drop (k + j) s)"
            unfolding glob_star by auto
          with j(1,2) have "k + j \<le> length s" "ss < k + j" by linarith+
          with \<open>glob (drop (p + 1) pattern) (drop (k + j) s)\<close> show ?thesis
            unfolding now by (auto simp: retry_def)
        qed
        then show ?thesis using ih now ss True nomatch by (auto simp: glob_loop.simps [of pattern s p ss at])
      next
        case nostar: False
        have fail: "\<not> glob (drop p pattern) (drop ss s)"
        proof (cases "p < length pattern")
          case True
          then show ?thesis using nomatch nostar ss
            by (auto simp: nth_Cons_drop [of p pattern] nth_Cons_drop [of ss s])
        qed (use ss in simp)
        show ?thesis
        proof (cases at)
          case None
          then show ?thesis using fail ss nomatch nostar
            by (auto simp: glob_loop.simps [of pattern s p ss None] retry_def)
        next
          case (Some b)
          obtain st m where b: "b = (st, m)" by (cases b)
          have a: "st < p" "m \<le> ss" using prems(4) by (auto simp: Some b good_at_def)
          have "good_at pattern (st + 1) (m + 1) (Some (st, m + 1))" by (simp add: good_at_def)
          moreover have "st + 1 \<le> length pattern" "m + 1 \<le> length s" using a ss prems(2) by linarith+
          ultimately have ih: "glob_loop pattern s (st + 1) (m + 1) (Some (st, m + 1)) \<longleftrightarrow>
              glob (drop (st + 1) pattern) (drop (m + 1) s) \<or> retry pattern s (Some (st, m + 1))"
            using "1.IH"(3) [OF ss nomatch nostar Some [unfolded b]] prems(1) by simp
          have "retry pattern s (Some (st, m)) \<longleftrightarrow>
              glob (drop (st + 1) pattern) (drop (m + 1) s) \<or> retry pattern s (Some (st, m + 1))"
            using \<open>m + 1 \<le> length s\<close> by (auto simp: retry_def Suc_le_eq le_eq_less_or_eq) (metis Suc_lessI)
          with ih show ?thesis using fail ss nomatch nostar
            by (auto simp: glob_loop.simps [of pattern s p ss "Some (st, m)"] Some b)
        qed
      qed
    qed
  qed
qed

text \<open>C25. On every string without a star the iterative matcher agrees with the reference
  glob, for every pattern: backtracking to the last star only loses nothing.\<close>

theorem matchGlob_correct:
  assumes "star \<notin> set s"
  shows "matchGlob pattern s = glob pattern s"
  using glob_loop_correct [OF assms, of 0 pattern 0 None] by (simp add: matchGlob_def good_at_def retry_def)

lemma matchGlob_correct_witness:
  "matchGlob ''*.ex?mple.*'' ''api.example.org'' = glob ''*.ex?mple.*'' ''api.example.org''"
  by (rule matchGlob_correct) simp

text \<open>A star in the host is taken for the pattern's star: the rule \<open>*.evil.org\<close> does not cover
  the host \<open>*x.evil.org\<close>, which the reference matches.\<close>

theorem matchGlob_star_host:
  "\<not> matchGlob ''*.evil.org'' ''*x.evil.org'' \<and> glob ''*.evil.org'' ''*x.evil.org''"
  by (simp add: matchGlob_def glob_steps)

end
