(* ===== verification/Acl.thy ===== *)
theory Acl
  imports Go_Netip Glob
begin

text \<open>
  \<open>internal/acl/checker.go\<close>: policies, their compilation and the checks before and after name
  resolution. Error texts are constructors; \<open>encoding/json\<close> and \<open>crypto/sha256\<close>, which only make
  the fingerprint, are parameters.
\<close>

section \<open>Policies\<close>

definition ActionAllow :: string where "ActionAllow = ''ALLOW''"
definition ActionDeny :: string where "ActionDeny = ''DENY''"
definition TargetAny :: string where "TargetAny = ''ANY''"
definition TargetCIDR :: string where "TargetCIDR = ''CIDR''"
definition TargetDomain :: string where "TargetDomain = ''DOMAIN''"
definition TargetDomainSuffix :: string where "TargetDomainSuffix = ''DOMAIN_SUFFIX''"
definition TargetGlob :: string where "TargetGlob = ''GLOB''"
definition AccessModeAllow :: string where "AccessModeAllow = ''allow''"
definition AccessModeDeny :: string where "AccessModeDeny = ''deny''"

record acl_rule =
  ru_Priority :: int
  ru_Action :: string
  ru_Protocol :: string
  ru_TargetType :: string
  ru_TargetValue :: string
  ru_PortStart :: u16
  ru_PortEnd :: u16
  ru_ipNet :: "ip_net option"

record policy =
  po_ID :: string
  po_Name :: string
  po_Fingerprint :: string
  po_AllowInternet :: bool
  po_AllowPrivateNetwork :: bool
  po_AllowLoopback :: bool
  po_Rules :: "acl_rule list"
  po_AccessMode :: string
  po_AccessHosts :: "string list"
  po_AccessCIDRs :: "string list"

datatype acl_error =
  InvalidAction nat string | InvalidProtocol nat string | InvalidPortRange nat
  | EmptyDomain nat | InvalidTargetType nat string | InvalidRuleCIDR string
  | InvalidAccessMode string | InvalidAccessHost string | EmptyAccessCIDR
  | InvalidAccessRange string | InvalidAccessCIDR string

datatype denial =
  DangerousSubnet | DenyListedIP | PrivateNotAllowed | InternetNotAllowed
  | RuleDeniesIP | CatchAllDenies | NotInAllowList | InDenyList
  | RuleDeniesDomain | RuleDeniesSuffix | RuleDeniesGlob

definition mustParseCIDR :: "string \<Rightarrow> ip_net" where
  "mustParseCIDR s = the (ParseCIDR s)"

definition dangerousSubnets :: "ip_net list" where
  "dangerousSubnets =
     map mustParseCIDR [''127.0.0.0/8'', ''169.254.0.0/16'', ''224.0.0.0/4'', ''::1/128'', ''fe80::/10'']"

definition privateSubnets :: "ip_net list" where
  "privateSubnets = map mustParseCIDR [''10.0.0.0/8'', ''172.16.0.0/12'', ''192.168.0.0/16'', ''fc00::/7'']"

record ip_range =
  ir_from :: net_ip
  ir_to :: net_ip

record checker =
  ck_policy :: policy
  ck_accessMode :: string
  ck_accessHosts :: "(string \<Rightarrow> bool) list"
  ck_accessCIDRs :: "ip_net list"
  ck_accessRngs :: "ip_range list"

section \<open>Compilation\<close>

definition parseIPNet :: "string \<Rightarrow> ip_net option" where
  "parseIPNet s0 =
     (let s = TrimSpace s0 in
      case ParseCIDR s of
        Some n \<Rightarrow> Some n
      | None \<Rightarrow>
        let ip = ParseIP s in
        if ip = [] then None
        else if To4 ip \<noteq> [] then ParseCIDR (s @ ''/32'')
        else ParseCIDR (s @ ''/128''))"

definition parseIPRange :: "string \<Rightarrow> ip_range option" where
  "parseIPRange s =
     (case cut_at CHR ''-'' s of
        None \<Rightarrow> None
      | Some (a, b) \<Rightarrow>
        let from = ParseIP (TrimSpace a); to = ParseIP (TrimSpace b) in
        if from = [] \<or> to = [] then None
        else if To16 from = [] \<or> To16 to = [] \<or> \<not> bytes_le (To16 from) (To16 to) then None
        else Some \<lparr>ir_from = To16 from, ir_to = To16 to\<rparr>)"

definition range_contains :: "ip_range \<Rightarrow> net_ip \<Rightarrow> bool" where
  "range_contains r ip0 =
     (let ip = To16 ip0 in if ip = [] then False else bytes_le (ir_from r) ip \<and> bytes_le ip (ir_to r))"

definition compileHostMatcher :: "string \<Rightarrow> (string \<Rightarrow> bool) option" where
  "compileHostMatcher pattern0 =
     (let pattern = ToLower (TrimSpace pattern0) in
      if pattern = [] then None
      else if ContainsAny pattern ''*?'' then Some (\<lambda>host. matchGlob pattern host)
      else if HasPrefix pattern ''.''
      then Some (\<lambda>host. host = TrimPrefix pattern ''.'' \<or> HasSuffix host pattern)
      else Some (\<lambda>host. host = pattern))"

text \<open>The loop over the rules, with the index for the error.\<close>

definition compile_rule :: "nat \<Rightarrow> acl_rule \<Rightarrow> acl_error + acl_rule" where
  "compile_rule i r =
     (if ru_Action r \<noteq> ActionAllow \<and> ru_Action r \<noteq> ActionDeny then Err (InvalidAction i (ru_Action r))
      else
        let r = r\<lparr>ru_Protocol := ToLower (TrimSpace (ru_Protocol r))\<rparr> in
        if ru_Protocol r \<noteq> '''' \<and> ru_Protocol r \<noteq> ''tcp'' \<and> ru_Protocol r \<noteq> ''udp''
        then Err (InvalidProtocol i (ru_Protocol r))
        else if ru_PortEnd r \<noteq> 0 \<and> (ru_PortStart r = 0 \<or> ru_PortEnd r < ru_PortStart r)
        then Err (InvalidPortRange i)
        else if ru_TargetType r \<notin> {TargetAny, TargetCIDR, TargetDomain, TargetDomainSuffix, TargetGlob}
        then Err (InvalidTargetType i (ru_TargetType r))
        else if ru_TargetType r \<in> {TargetDomain, TargetDomainSuffix, TargetGlob} \<and>
                TrimSpace (ru_TargetValue r) = ''''
        then Err (EmptyDomain i)
        else if ru_TargetType r = TargetCIDR
        then (case parseIPNet (ru_TargetValue r) of
                None \<Rightarrow> Err (InvalidRuleCIDR (ru_TargetValue r))
              | Some n \<Rightarrow> Ok (r\<lparr>ru_ipNet := Some n\<rparr>))
        else Ok r)"

fun compile_rules :: "nat \<Rightarrow> acl_rule list \<Rightarrow> acl_error + acl_rule list" where
  "compile_rules i [] = Ok []"
| "compile_rules i (r # rs) =
     (case compile_rule i r of
        Inl e \<Rightarrow> Err e
      | Inr r' \<Rightarrow> (case compile_rules (Suc i) rs of Inl e \<Rightarrow> Err e | Inr rs' \<Rightarrow> Ok (r' # rs')))"

fun compile_hosts :: "string list \<Rightarrow> acl_error + (string \<Rightarrow> bool) list" where
  "compile_hosts [] = Ok []"
| "compile_hosts (h # hs) =
     (case compileHostMatcher h of
        None \<Rightarrow> Err (InvalidAccessHost h)
      | Some f \<Rightarrow> (case compile_hosts hs of Inl e \<Rightarrow> Err e | Inr fs \<Rightarrow> Ok (f # fs)))"

fun compile_cidrs :: "string list \<Rightarrow> acl_error + (ip_net list \<times> ip_range list)" where
  "compile_cidrs [] = Ok ([], [])"
| "compile_cidrs (s0 # ss) =
     (let s = TrimSpace s0 in
      if s = '''' then Err EmptyAccessCIDR
      else if CHR ''-'' \<in> set s
      then (case parseIPRange s of
              None \<Rightarrow> Err (InvalidAccessRange s)
            | Some r \<Rightarrow> (case compile_cidrs ss of Inl e \<Rightarrow> Err e | Inr (ns, rs) \<Rightarrow> Ok (ns, r # rs)))
      else (case parseIPNet s of
              None \<Rightarrow> Err (InvalidAccessCIDR s)
            | Some n \<Rightarrow> (case compile_cidrs ss of Inl e \<Rightarrow> Err e | Inr (ns, rs) \<Rightarrow> Ok (n # ns, rs))))"

definition clear_nets :: "acl_rule list \<Rightarrow> acl_rule list" where
  "clear_nets rs = map (\<lambda>r. r\<lparr>ru_ipNet := None\<rparr>) rs"

text \<open>\<open>hex.EncodeToString\<close>.\<close>

definition hex_digit :: "nat \<Rightarrow> char" where
  "hex_digit n = (if n < 10 then char_of (48 + n) else char_of (87 + n))"
definition hex_encode :: "byte list \<Rightarrow> string" where
  "hex_encode bs = concat (map (\<lambda>b. [hex_digit (unat b div 16), hex_digit (unat b mod 16)]) bs)"

text \<open>
  A Go struct passed by value shares the arrays of its slices with the caller. The result is the
  digest and the array of rules as the call leaves it: the loop that resets the compiled networks
  before marshalling writes to the caller's rules.
\<close>

definition policyFingerprint ::
  "(policy \<Rightarrow> byte list option) \<Rightarrow> (byte list \<Rightarrow> byte list) \<Rightarrow> policy \<Rightarrow> string \<times> acl_rule list" where
  "policyFingerprint marshal sha p =
     (let rules = clear_nets (po_Rules p) in
      (case marshal (p\<lparr>po_Fingerprint := '''', po_Rules := rules\<rparr>) of
         None \<Rightarrow> ''''
       | Some data \<Rightarrow> hex_encode (take 16 (sha data)),
       rules))"

text \<open>\<open>sort.SliceStable\<close> by descending priority.\<close>

definition by_priority :: "acl_rule list \<Rightarrow> acl_rule list" where
  "by_priority rs = sort_key (\<lambda>r. - ru_Priority r) rs"

definition NewChecker ::
  "(policy \<Rightarrow> byte list option) \<Rightarrow> (byte list \<Rightarrow> byte list) \<Rightarrow> policy \<Rightarrow> acl_error + checker" where
  "NewChecker marshal sha p0 =
     (case compile_rules 0 (po_Rules p0) of
        Inl e \<Rightarrow> Err e
      | Inr rules \<Rightarrow>
        let p1 = p0\<lparr>po_Rules := by_priority rules\<rparr>;
            (fp, rules') = policyFingerprint marshal sha p1;
            p = p1\<lparr>po_Fingerprint := fp, po_Rules := rules'\<rparr>;
            mode = ToLower (TrimSpace (po_AccessMode p))
        in if mode \<notin> {AccessModeAllow, AccessModeDeny, ''''}
           then Err (InvalidAccessMode (po_AccessMode p))
           else (case compile_hosts (po_AccessHosts p) of
                   Inl e \<Rightarrow> Err e
                 | Inr hosts \<Rightarrow>
                   (case compile_cidrs (po_AccessCIDRs p) of
                      Inl e \<Rightarrow> Err e
                    | Inr (nets, rngs) \<Rightarrow>
                      Ok \<lparr>ck_policy = p, ck_accessMode = mode, ck_accessHosts = hosts,
                          ck_accessCIDRs = nets, ck_accessRngs = rngs\<rparr>)))"

definition Checker_Policy :: "checker \<Rightarrow> policy" where
  "Checker_Policy c = (ck_policy c)\<lparr>po_Rules := clear_nets (po_Rules (ck_policy c))\<rparr>"

section \<open>Checks\<close>

definition matchProtocol :: "acl_rule \<Rightarrow> string \<Rightarrow> bool" where
  "matchProtocol r proto = (if ru_Protocol r = '''' then True else EqualFold (ru_Protocol r) proto)"

definition matchPort :: "acl_rule \<Rightarrow> u16 \<Rightarrow> bool" where
  "matchPort r port =
     (if ru_PortStart r = 0 \<and> ru_PortEnd r = 0 then True
      else if ru_PortEnd r = 0 then port = ru_PortStart r
      else ru_PortStart r \<le> port \<and> port \<le> ru_PortEnd r)"

definition matchAccessIP :: "checker \<Rightarrow> net_ip \<Rightarrow> bool" where
  "matchAccessIP c ip =
     (list_ex (\<lambda>n. net_Contains n ip) (ck_accessCIDRs c) \<or>
      list_ex (\<lambda>r. range_contains r ip) (ck_accessRngs c))"

definition matchAccessHost :: "checker \<Rightarrow> string \<Rightarrow> bool" where
  "matchAccessHost c host =
     (let ip = ParseIP host in
      if ip \<noteq> [] then matchAccessIP c ip
      else list_ex (\<lambda>m. m (ToLower host)) (ck_accessHosts c))"

definition accessCheckHost :: "checker \<Rightarrow> string \<Rightarrow> denial option" where
  "accessCheckHost c host =
     (if ck_accessMode c = '''' then None
      else
        let matched = matchAccessHost c host in
        if ck_accessMode c = AccessModeAllow then (if \<not> matched then Some NotInAllowList else None)
        else if ck_accessMode c = AccessModeDeny then (if matched then Some InDenyList else None)
        else None)"

definition accessCheckIP :: "checker \<Rightarrow> net_ip \<Rightarrow> denial option" where
  "accessCheckIP c ip =
     (if ck_accessMode c \<noteq> AccessModeDeny then None
      else if matchAccessIP c ip then Some DenyListedIP else None)"

text \<open>The body of the rule loop: \<^const>\<open>None\<close> goes on to the next rule, \<open>Some None\<close> allows.\<close>

definition deny_or_allow :: "acl_rule \<Rightarrow> denial \<Rightarrow> denial option" where
  "deny_or_allow r d = (if ru_Action r = ActionDeny then Some d else None)"

definition ip_verdict :: "net_ip \<Rightarrow> u16 \<Rightarrow> string \<Rightarrow> acl_rule \<Rightarrow> denial option option" where
  "ip_verdict ip port proto r =
     (if \<not> matchProtocol r proto \<or> \<not> matchPort r port then None
      else if ru_TargetType r = TargetCIDR \<and>
              (case ru_ipNet r of None \<Rightarrow> False | Some n \<Rightarrow> net_Contains n ip)
      then Some (deny_or_allow r RuleDeniesIP)
      else if ru_TargetType r = TargetAny then Some (deny_or_allow r CatchAllDenies)
      else None)"

definition CheckIPProtocol :: "checker \<Rightarrow> net_ip \<Rightarrow> u16 \<Rightarrow> string \<Rightarrow> denial option" where
  "CheckIPProtocol c ip port proto =
     (if \<not> po_AllowLoopback (ck_policy c) \<and> list_ex (\<lambda>n. net_Contains n ip) dangerousSubnets
      then Some DangerousSubnet
      else case accessCheckIP c ip of
        Some d \<Rightarrow> Some d
      | None \<Rightarrow>
        let isPrivate = list_ex (\<lambda>n. net_Contains n ip) privateSubnets in
        if isPrivate \<and> \<not> po_AllowPrivateNetwork (ck_policy c) then Some PrivateNotAllowed
        else if \<not> isPrivate \<and> \<not> po_AllowInternet (ck_policy c) then Some InternetNotAllowed
        else first_match (ip_verdict ip port proto) (po_Rules (ck_policy c)) None)"

definition CheckIP :: "checker \<Rightarrow> net_ip \<Rightarrow> u16 \<Rightarrow> denial option" where
  "CheckIP c ip port = CheckIPProtocol c ip port ''tcp''"

definition domain_verdict :: "string \<Rightarrow> u16 \<Rightarrow> string \<Rightarrow> acl_rule \<Rightarrow> denial option option" where
  "domain_verdict domainLower port proto r =
     (if \<not> matchProtocol r proto \<or> \<not> matchPort r port then None
      else if ru_TargetType r = TargetDomain \<and> ToLower (ru_TargetValue r) = domainLower
      then Some (deny_or_allow r RuleDeniesDomain)
      else
        let suf0 = ToLower (ru_TargetValue r); suf = (if \<not> HasPrefix suf0 ''.'' then ''.'' @ suf0 else suf0) in
        if ru_TargetType r = TargetDomainSuffix \<and>
           (HasSuffix domainLower suf \<or> domainLower = TrimPrefix suf ''.'')
        then Some (deny_or_allow r RuleDeniesSuffix)
        else if ru_TargetType r = TargetGlob \<and> matchGlob (ToLower (ru_TargetValue r)) domainLower
        then Some (deny_or_allow r RuleDeniesGlob)
        else None)"

definition CheckHostProtocol :: "checker \<Rightarrow> string \<Rightarrow> u16 \<Rightarrow> string \<Rightarrow> denial option" where
  "CheckHostProtocol c host port proto =
     (case accessCheckHost c host of
        Some d \<Rightarrow> Some d
      | None \<Rightarrow>
        let ip = ParseIP host in
        if ip \<noteq> [] then CheckIPProtocol c ip port proto
        else first_match (domain_verdict (ToLower host) port proto) (po_Rules (ck_policy c)) None)"

definition CheckHost :: "checker \<Rightarrow> string \<Rightarrow> u16 \<Rightarrow> denial option" where
  "CheckHost c host port = CheckHostProtocol c host port ''tcp''"

end
