(* ===== verification/Acl_Policy.thy ===== *)
theory Acl_Policy
  imports Acl
begin

text \<open>
  What a compiled access policy decides, in terms of the policy as it was written: the decisive
  rule, the blocked networks, the access-list gate, and where the code falls short of its comments.
\<close>

section \<open>The decisive rule\<close>

text \<open>Among the rules that apply, the first of the greatest priority.\<close>

definition decisive :: "(acl_rule \<Rightarrow> bool) \<Rightarrow> acl_rule list \<Rightarrow> acl_rule option" where
  "decisive P rs =
     (let app = filter P rs in
      if app = [] then None
      else Some (hd (filter (\<lambda>r. ru_Priority r = Max (ru_Priority ` set app)) app)))"

lemma first_match_filter:
  "first_match (\<lambda>r. if P r then Some (g r) else None) rs d =
     (case filter P rs of [] \<Rightarrow> d | r # _ \<Rightarrow> g r)"
  by (induction rs) auto

lemma hd_sort_key:
  fixes k :: "'a \<Rightarrow> int"
  assumes "ys \<noteq> []"
  shows "hd (sort_key k ys) = hd (filter (\<lambda>x. k x = Min (k ` set ys)) ys)"
proof -
  obtain h zs where z: "sort_key k ys = h # zs" by (metis assms length_0_conv length_sort neq_Nil_conv)
  have s: "sorted (map k (h # zs))" using sorted_sort_key [of k ys] by (simp add: z)
  have st: "set ys = set (h # zs)" using set_sort [of k ys] z by metis
  have m: "Min (k ` set ys) = k h" unfolding st using s by (intro Min_eqI) auto
  have "filter (\<lambda>x. k x = k h) ys = filter (\<lambda>x. k x = k h) (h # zs)"
    using sort_key_stable [of k "k h" ys] z by simp
  then show ?thesis by (simp add: z m)
qed

lemma sort_key_map: "sort_key k (map f xs) = map f (sort_key (\<lambda>x. k (f x)) xs)"
proof (induction xs)
  case (Cons x xs)
  have "insort_key k (f x) (map f ys) = map f (insort_key (\<lambda>x. k (f x)) x ys)" for ys
    by (induction ys) auto
  with Cons show ?case by simp
qed simp

lemma decisive_first:
  "first_match (\<lambda>r. if P r then Some (g r) else None) (by_priority rs) d =
     (case decisive P rs of None \<Rightarrow> d | Some r \<Rightarrow> g r)"
proof -
  let ?app = "filter P rs"
  have fs: "filter P (by_priority rs) = sort_key (\<lambda>r. - ru_Priority r) ?app"
    by (simp add: by_priority_def filter_sort)
  show ?thesis
  proof (cases "?app = []")
    case True
    then show ?thesis using fs by (simp add: first_match_filter decisive_def)
  next
    case False
    have ne: "sort_key (\<lambda>r. - ru_Priority r) ?app \<noteq> []" using False by (metis length_0_conv length_sort)
    have mx: "Min ((\<lambda>r. - ru_Priority r) ` set ?app) = - Max (ru_Priority ` set ?app)"
    proof -
      have "Max (ru_Priority ` set ?app) \<in> ru_Priority ` set ?app" using False by (intro Max_in) (simp_all del: set_filter)
      then obtain r where r: "r \<in> set ?app" "ru_Priority r = Max (ru_Priority ` set ?app)" by auto
      show ?thesis
      proof (rule Min_eqI)
        show "- Max (ru_Priority ` set ?app) \<in> (\<lambda>r. - ru_Priority r) ` set ?app"
          using r by (intro image_eqI [of _ _ r]) auto
        fix y assume "y \<in> (\<lambda>r. - ru_Priority r) ` set ?app"
        then obtain x where "x \<in> set ?app" "y = - ru_Priority x" by auto
        then show "- Max (ru_Priority ` set ?app) \<le> y" by (simp del: set_filter)
      qed simp
    qed
    have "hd (filter P (by_priority rs)) =
        hd (filter (\<lambda>r. - ru_Priority r = Min ((\<lambda>r. - ru_Priority r) ` set ?app)) ?app)"
      unfolding fs by (rule hd_sort_key [OF False])
    then have "hd (filter P (by_priority rs)) =
        hd (filter (\<lambda>r. ru_Priority r = Max (ru_Priority ` set ?app)) ?app)"
      unfolding mx by simp
    moreover obtain h t where "sort_key (\<lambda>r. - ru_Priority r) ?app = h # t"
      using ne by (cases "sort_key (\<lambda>r. - ru_Priority r) ?app") auto
    ultimately show ?thesis using False fs
      by (simp add: first_match_filter decisive_def Let_def del: set_filter filter_filter)
  qed
qed

section \<open>Compiled and written rules\<close>

definition normal :: "acl_rule \<Rightarrow> acl_rule" where
  "normal r = r\<lparr>ru_Protocol := ToLower (TrimSpace (ru_Protocol r)), ru_ipNet := None\<rparr>"

lemma compile_rule_normal: "compile_rule i r = Ok r' \<Longrightarrow> r'\<lparr>ru_ipNet := None\<rparr> = normal r"
  by (auto simp: compile_rule_def normal_def Let_def split: if_splits option.splits)

lemma compile_rules_normal: "compile_rules i rs = Ok rs' \<Longrightarrow> clear_nets rs' = map normal rs"
  by (induction rs arbitrary: i rs')
    (auto simp: clear_nets_def compile_rule_normal split: sum.splits)

lemma clear_by_priority: "clear_nets (by_priority rs) = by_priority (clear_nets rs)"
  by (simp add: by_priority_def clear_nets_def sort_key_map)

lemma NewChecker_OkD:
  assumes "NewChecker marshal sha p = Ok c"
  shows "po_Rules (ck_policy c) = by_priority (map normal (po_Rules p))"
    "po_AllowLoopback (ck_policy c) = po_AllowLoopback p"
    "po_AllowInternet (ck_policy c) = po_AllowInternet p"
    "po_AllowPrivateNetwork (ck_policy c) = po_AllowPrivateNetwork p"
    "ck_accessMode c = ToLower (TrimSpace (po_AccessMode p))"
    "ck_accessMode c \<in> {AccessModeAllow, AccessModeDeny, ''''}"
    "compile_hosts (po_AccessHosts p) = Ok (ck_accessHosts c)"
    "compile_cidrs (po_AccessCIDRs p) = Ok (ck_accessCIDRs c, ck_accessRngs c)"
proof -
  from assms obtain rules where r: "compile_rules 0 (po_Rules p) = Ok rules"
    by (auto simp: NewChecker_def split: sum.splits)
  from r have n: "clear_nets rules = map normal (po_Rules p)" by (rule compile_rules_normal)
  from assms r show "po_Rules (ck_policy c) = by_priority (map normal (po_Rules p))"
    by (auto simp: NewChecker_def policyFingerprint_def Let_def clear_by_priority n
        split: sum.splits if_splits prod.splits)
  from assms r show "po_AllowLoopback (ck_policy c) = po_AllowLoopback p"
    "po_AllowInternet (ck_policy c) = po_AllowInternet p"
    "po_AllowPrivateNetwork (ck_policy c) = po_AllowPrivateNetwork p"
    "ck_accessMode c = ToLower (TrimSpace (po_AccessMode p))"
    "ck_accessMode c \<in> {AccessModeAllow, AccessModeDeny, ''''}"
    "compile_hosts (po_AccessHosts p) = Ok (ck_accessHosts c)"
    "compile_cidrs (po_AccessCIDRs p) = Ok (ck_accessCIDRs c, ck_accessRngs c)"
    by (auto simp: NewChecker_def policyFingerprint_def Let_def split: sum.splits if_splits prod.splits)
qed

text \<open>The access list as written.\<close>

definition cidr_entry_covers :: "string \<Rightarrow> net_ip \<Rightarrow> bool" where
  "cidr_entry_covers s0 ip =
     (let s = TrimSpace s0 in
      if CHR ''-'' \<in> set s then (case parseIPRange s of None \<Rightarrow> False | Some r \<Rightarrow> range_contains r ip)
      else (case parseIPNet s of None \<Rightarrow> False | Some n \<Rightarrow> net_Contains n ip))"

definition host_entry_covers :: "string \<Rightarrow> string \<Rightarrow> bool" where
  "host_entry_covers s host =
     (case compileHostMatcher s of None \<Rightarrow> False | Some m \<Rightarrow> m (ToLower host))"

definition listed :: "policy \<Rightarrow> net_ip \<Rightarrow> bool" where
  "listed p ip \<longleftrightarrow> (\<exists>s\<in>set (po_AccessCIDRs p). cidr_entry_covers s ip)"

definition listed_host :: "policy \<Rightarrow> string \<Rightarrow> bool" where
  "listed_host p host \<longleftrightarrow>
     (if ParseIP host \<noteq> [] then listed p (ParseIP host)
      else (\<exists>s\<in>set (po_AccessHosts p). host_entry_covers s host))"

lemma compile_cidrs_covers:
  "compile_cidrs ss = Ok (ns, rs) \<Longrightarrow>
    (\<exists>s\<in>set ss. cidr_entry_covers s ip) \<longleftrightarrow>
      list_ex (\<lambda>n. net_Contains n ip) ns \<or> list_ex (\<lambda>r. range_contains r ip) rs"
proof (induction ss arbitrary: ns rs)
  case Nil
  then show ?case by simp
next
  case (Cons s0 ss)
  let ?s = "TrimSpace s0"
  from Cons.prems obtain ns' rs' where rest: "compile_cidrs ss = Ok (ns', rs')"
    by (auto simp: Let_def split: if_splits option.splits sum.splits)
  have head: "cidr_entry_covers s0 ip \<or> list_ex (\<lambda>n. net_Contains n ip) ns' \<or> list_ex (\<lambda>r. range_contains r ip) rs'
      \<longleftrightarrow> list_ex (\<lambda>n. net_Contains n ip) ns \<or> list_ex (\<lambda>r. range_contains r ip) rs"
    using Cons.prems rest
    by (cases "CHR ''-'' \<in> set ?s")
      (auto simp: cidr_entry_covers_def Let_def split: if_splits option.splits)
  show ?case using head Cons.IH [OF rest] by auto
qed

lemma compile_hosts_covers:
  "compile_hosts hs = Ok fs \<Longrightarrow>
    (\<exists>s\<in>set hs. host_entry_covers s host) \<longleftrightarrow> list_ex (\<lambda>m. m (ToLower host)) fs"
  by (induction hs arbitrary: fs) (auto simp: host_entry_covers_def split: option.splits sum.splits)

lemma listed_matches:
  assumes "NewChecker marshal sha p = Ok c"
  shows "matchAccessIP c ip = listed p ip" "matchAccessHost c host = listed_host p host"
proof -
  note ok = NewChecker_OkD [OF assms]
  show ip: "matchAccessIP c ip = listed p ip" for ip
    by (simp add: matchAccessIP_def listed_def compile_cidrs_covers [OF ok(8)])
  show "matchAccessHost c host = listed_host p host"
    by (simp add: matchAccessHost_def listed_host_def Let_def ip compile_hosts_covers [OF ok(7)])
qed

section \<open>The fixed networks\<close>

definition canonical_ip :: "net_ip \<Rightarrow> net_ip" where
  "canonical_ip ip = (if To4 ip = [] then ip else To4 ip)"

definition dangerous :: "net_ip \<Rightarrow> bool" where
  "dangerous ip \<longleftrightarrow>
     (let x = canonical_ip ip in
      (length x = 4 \<and> (x ! 0 = 127 \<or> (x ! 0 = 169 \<and> x ! 1 = 254) \<or> (224 \<le> x ! 0 \<and> x ! 0 < 240))) \<or>
      (length x = 16 \<and> (x = replicate 15 0 @ [1] \<or> (x ! 0 = 254 \<and> 128 \<le> x ! 1 \<and> x ! 1 < 192))))"

definition private_net :: "net_ip \<Rightarrow> bool" where
  "private_net ip \<longleftrightarrow>
     (let x = canonical_ip ip in
      (length x = 4 \<and> (x ! 0 = 10 \<or> (x ! 0 = 172 \<and> 16 \<le> x ! 1 \<and> x ! 1 < 32) \<or> (x ! 0 = 192 \<and> x ! 1 = 168))) \<or>
      (length x = 16 \<and> (x ! 0 = 252 \<or> x ! 0 = 253)))"

lemma unat_and_high:
  fixes a :: byte
  assumes "n < 8"
  shows "unat (a AND NOT (mask n)) = unat a div 2 ^ n * 2 ^ n"
proof -
  have "a AND NOT (mask n) = push_bit n (drop_bit n a)"
    by (rule bit_eqI) (auto simp: bit_and_iff bit_not_iff bit_mask_iff bit_push_bit_iff bit_drop_bit_eq)
  moreover have "unat a div 2 ^ n * 2 ^ n \<le> unat a" by (metis div_times_less_eq_dividend)
  then have "unat a div 2 ^ n * 2 ^ n < 256" using unat_u8_lt [of a] by linarith
  moreover have "unat (push_bit n (drop_bit n a)) = take_bit 8 (push_bit n (drop_bit n (take_bit 8 (unat a))))"
    by (simp only: unsigned_push_bit_eq unsigned_drop_bit_eq) simp
  moreover have "take_bit 8 (unat a) = unat a" by (simp add: take_bit_eq_mod)
  ultimately show ?thesis by (simp add: push_bit_eq_mult [of _ "_ :: nat"] drop_bit_eq_div [of _ "_ :: nat"] take_bit_eq_mod)
qed

lemma byte_masks:
  fixes a :: byte
  shows "a AND 240 = 224 \<longleftrightarrow> 224 \<le> a \<and> a < 240" "a AND 240 = 16 \<longleftrightarrow> 16 \<le> a \<and> a < 32"
    "a AND 192 = 128 \<longleftrightarrow> 128 \<le> a \<and> a < 192" "a AND 254 = 252 \<longleftrightarrow> a = 252 \<or> a = 253"
    "a AND 255 = a"
proof -
  have m: "(240 :: byte) = NOT (mask 4)" "(192 :: byte) = NOT (mask 6)" "(254 :: byte) = NOT (mask 1)"
    "(255 :: byte) = - 1" by (simp_all add: mask_numeral)
  have u: "unat (a AND 240) = unat a div 16 * 16" "unat (a AND 192) = unat a div 64 * 64"
    "unat (a AND 254) = unat a div 2 * 2"
    unfolding m using unat_and_high [of 4 a] unat_and_high [of 6 a] unat_and_high [of 1 a] by simp_all
  show "a AND 240 = 224 \<longleftrightarrow> 224 \<le> a \<and> a < 240" "a AND 240 = 16 \<longleftrightarrow> 16 \<le> a \<and> a < 32"
    "a AND 192 = 128 \<longleftrightarrow> 128 \<le> a \<and> a < 192" "a AND 254 = 252 \<longleftrightarrow> a = 252 \<or> a = 253"
    unfolding word_unat_eq_iff u word_le_nat_alt word_less_nat_alt by (simp; linarith)+
  show "a AND 255 = a" unfolding m by simp
qed
lemma list_of_16_bytes: "length xs = 16 \<Longrightarrow>
    \<exists>a b c d e f g h i j k l m n p q. xs = [a, b, c, d, e, f, g, h, i, j, k, l, m, n, p, q]"
  by (auto simp: numeral_eq_Suc length_Suc_conv)

lemma net_Contains_canonical:
  "net_Contains n ip =
     (let (nn, m) = networkNumberAndMask n; x = canonical_ip ip
      in length x = length nn \<and> and_bytes nn m = and_bytes x m)"
  by (simp add: net_Contains_def canonical_ip_def)

lemma list_of_4_bytes: "length xs = 4 \<Longrightarrow> \<exists>a b c d. xs = [a, b, c, d]"
  by (auto simp: numeral_eq_Suc length_Suc_conv)

lemma dangerous_subnets: "list_ex (\<lambda>n. net_Contains n ip) dangerousSubnets \<longleftrightarrow> dangerous ip"
proof -
  have nets: "dangerousSubnets =
     [\<lparr>net_IP = [127, 0, 0, 0], net_Mask = [255, 0, 0, 0]\<rparr>,
      \<lparr>net_IP = [169, 254, 0, 0], net_Mask = [255, 255, 0, 0]\<rparr>,
      \<lparr>net_IP = [224, 0, 0, 0], net_Mask = [240, 0, 0, 0]\<rparr>,
      \<lparr>net_IP = [0, 0, 0, 0, 0, 0, 0, 0, 0, 0, 0, 0, 0, 0, 0, 1],
       net_Mask = [255, 255, 255, 255, 255, 255, 255, 255, 255, 255, 255, 255, 255, 255, 255, 255]\<rparr>,
      \<lparr>net_IP = [254, 128, 0, 0, 0, 0, 0, 0, 0, 0, 0, 0, 0, 0, 0, 0],
       net_Mask = [255, 192, 0, 0, 0, 0, 0, 0, 0, 0, 0, 0, 0, 0, 0, 0]\<rparr>]"
    by (simp add: dangerousSubnets_def mustParseCIDR_def cidr_eval)
  consider (v4) a b c d where "canonical_ip ip = [a, b, c, d]"
    | (v6) "length (canonical_ip ip) = 16" | (other) "length (canonical_ip ip) \<notin> {4, 16}"
    using list_of_4_bytes by blast
  then show ?thesis
  proof cases
    case v4
    then show ?thesis
      by (simp add: nets net_Contains_canonical networkNumberAndMask_def To4_def and_bytes_def
          mapped_prefix_def dangerous_def byte_masks)
  next
    case v6
    from list_of_16_bytes [OF v6] obtain a b c d e f g h i j k l m n p q where
      "canonical_ip ip = [a, b, c, d, e, f, g, h, i, j, k, l, m, n, p, q]" by blast
    then show ?thesis
      by (auto simp: nets net_Contains_canonical networkNumberAndMask_def To4_def and_bytes_def
          mapped_prefix_def dangerous_def byte_masks ip_eval)
  next
    case other
    then show ?thesis
      by (simp add: nets net_Contains_canonical networkNumberAndMask_def To4_def
          mapped_prefix_def dangerous_def)
  qed
qed

lemma private_subnets: "list_ex (\<lambda>n. net_Contains n ip) privateSubnets \<longleftrightarrow> private_net ip"
proof -
  have nets: "privateSubnets =
     [\<lparr>net_IP = [10, 0, 0, 0], net_Mask = [255, 0, 0, 0]\<rparr>,
      \<lparr>net_IP = [172, 16, 0, 0], net_Mask = [255, 240, 0, 0]\<rparr>,
      \<lparr>net_IP = [192, 168, 0, 0], net_Mask = [255, 255, 0, 0]\<rparr>,
      \<lparr>net_IP = [252, 0, 0, 0, 0, 0, 0, 0, 0, 0, 0, 0, 0, 0, 0, 0],
       net_Mask = [254, 0, 0, 0, 0, 0, 0, 0, 0, 0, 0, 0, 0, 0, 0, 0]\<rparr>]"
    by (simp add: privateSubnets_def mustParseCIDR_def cidr_eval)
  consider (v4) a b c d where "canonical_ip ip = [a, b, c, d]"
    | (v6) "length (canonical_ip ip) = 16" | (other) "length (canonical_ip ip) \<notin> {4, 16}"
    using list_of_4_bytes by blast
  then show ?thesis
  proof cases
    case v4
    then show ?thesis
      by (simp add: nets net_Contains_canonical networkNumberAndMask_def To4_def and_bytes_def
          mapped_prefix_def private_net_def byte_masks)
  next
    case v6
    from list_of_16_bytes [OF v6] obtain a b c d e f g h i j k l m n p q where
      "canonical_ip ip = [a, b, c, d, e, f, g, h, i, j, k, l, m, n, p, q]" by blast
    then show ?thesis
      by (auto simp: nets net_Contains_canonical networkNumberAndMask_def To4_def and_bytes_def
          mapped_prefix_def private_net_def byte_masks)
  next
    case other
    then show ?thesis
      by (simp add: nets net_Contains_canonical networkNumberAndMask_def To4_def
          mapped_prefix_def private_net_def)
  qed
qed

section \<open>Decisions\<close>

lemma first_match_skip:
  "(\<And>r. r \<in> set rs \<Longrightarrow> \<not> Q r \<Longrightarrow> f r = None) \<Longrightarrow> first_match f (filter Q rs) d = first_match f rs d"
  by (induction rs) (auto split: option.split)

lemma decisive_map: "decisive P (map normal rs) = map_option normal (decisive (\<lambda>r. P (normal r)) rs)"
proof -
  have pr: "ru_Priority (normal r) = ru_Priority r" for r by (simp add: normal_def)
  have fm: "filter Q (map normal xs) = map normal (filter (\<lambda>r. Q (normal r)) xs)" for Q xs
    by (induction xs) auto
  have im: "ru_Priority ` set (map normal xs) = ru_Priority ` set xs" for xs
    by (simp add: image_image pr)
  let ?app = "filter (\<lambda>r. P (normal r)) rs"
  have ne: "filter (\<lambda>r. ru_Priority r = Max (ru_Priority ` set ?app)) ?app \<noteq> []" if "?app \<noteq> []"
  proof -
    have "Max (ru_Priority ` set ?app) \<in> ru_Priority ` set ?app"
      using that by (intro Max_in) (simp_all del: set_filter)
    then show ?thesis by (auto simp: filter_empty_conv)
  qed
  show ?thesis
    using ne by (simp add: decisive_def Let_def fm im pr hd_map del: set_map set_filter filter_filter)
qed

definition catch_all :: "u16 \<Rightarrow> string \<Rightarrow> acl_rule \<Rightarrow> bool" where
  "catch_all port proto r \<longleftrightarrow> ru_TargetType r = TargetAny \<and> matchProtocol (normal r) proto \<and> matchPort r port"

definition under_domain :: "string \<Rightarrow> string \<Rightarrow> bool" where
  "under_domain base host \<longleftrightarrow> host = base \<or> (\<exists>r. host = r @ ''.'' @ base)"

definition domain_rule :: "string \<Rightarrow> u16 \<Rightarrow> string \<Rightarrow> acl_rule \<Rightarrow> bool" where
  "domain_rule host port proto r \<longleftrightarrow>
     matchProtocol (normal r) proto \<and> matchPort r port \<and>
     ((ru_TargetType r = TargetDomain \<and> ToLower (ru_TargetValue r) = host) \<or>
      (ru_TargetType r = TargetDomainSuffix \<and> under_domain (TrimPrefix (ToLower (ru_TargetValue r)) ''.'') host) \<or>
      (ru_TargetType r = TargetGlob \<and> matchGlob (ToLower (ru_TargetValue r)) host))"

lemma target_types:
  "TargetAny \<noteq> TargetCIDR" "TargetAny \<noteq> TargetDomain" "TargetAny \<noteq> TargetDomainSuffix" "TargetAny \<noteq> TargetGlob"
  "TargetDomain \<noteq> TargetDomainSuffix" "TargetDomain \<noteq> TargetGlob" "TargetDomainSuffix \<noteq> TargetGlob"
  "AccessModeAllow \<noteq> AccessModeDeny" "AccessModeAllow \<noteq> ''''" "AccessModeDeny \<noteq> ''''"
  by (simp_all add: TargetAny_def TargetCIDR_def TargetDomain_def TargetDomainSuffix_def TargetGlob_def
      AccessModeAllow_def AccessModeDeny_def)

lemma normal_simps [simp]:
  "ru_TargetType (normal r) = ru_TargetType r" "ru_TargetValue (normal r) = ru_TargetValue r"
  "ru_Action (normal r) = ru_Action r" "ru_ipNet (normal r) = None" "matchPort (normal r) port = matchPort r port"
  by (simp_all add: normal_def matchPort_def)

lemma ip_verdict_normal:
  "ip_verdict ip port proto (normal r) =
     (if catch_all port proto r then Some (deny_or_allow r CatchAllDenies) else None)"
  by (auto simp: ip_verdict_def catch_all_def deny_or_allow_def)

lemma suffix_rule:
  assumes "suf = (if \<not> HasPrefix s ''.'' then ''.'' @ s else s)"
  shows "HasSuffix host suf \<or> host = TrimPrefix suf ''.'' \<longleftrightarrow> under_domain (TrimPrefix s ''.'') host"
  using assms
  by (auto simp: under_domain_def HasSuffix_def HasPrefix_def TrimPrefix_def suffix_def prefix_def)

lemma domain_verdict_normal:
  "\<exists>d. domain_verdict host port proto (normal r) =
     (if domain_rule host port proto r then Some (deny_or_allow r d) else None)"
proof (cases "matchProtocol (normal r) proto \<and> matchPort r port")
  case False
  then show ?thesis by (auto simp: domain_verdict_def domain_rule_def)
next
  case True
  let ?s = "ToLower (ru_TargetValue r)"
  note sr = suffix_rule [OF HOL.refl, of host ?s]
  consider (d) "ru_TargetType r = TargetDomain" | (s) "ru_TargetType r = TargetDomainSuffix"
    | (g) "ru_TargetType r = TargetGlob"
    | (o) "ru_TargetType r \<notin> {TargetDomain, TargetDomainSuffix, TargetGlob}" by blast
  then show ?thesis
  proof cases
    case d
    then show ?thesis using True target_types
      by (intro exI [of _ RuleDeniesDomain]) (simp add: domain_verdict_def domain_rule_def deny_or_allow_def Let_def)
  next
    case s
    then show ?thesis using True target_types sr
      by (intro exI [of _ RuleDeniesSuffix]) (simp add: domain_verdict_def domain_rule_def deny_or_allow_def Let_def)
  next
    case g
    then show ?thesis using True target_types
      by (intro exI [of _ RuleDeniesGlob]) (simp add: domain_verdict_def domain_rule_def deny_or_allow_def Let_def)
  next
    case o
    then show ?thesis using True
      by (auto simp: domain_verdict_def domain_rule_def Let_def)
  qed
qed

lemma ip_rules_decision:
  assumes "NewChecker marshal sha p = Ok c"
  shows "first_match (ip_verdict ip port proto) (po_Rules (ck_policy c)) None =
    (case decisive (catch_all port proto) (po_Rules p) of
       None \<Rightarrow> None | Some r \<Rightarrow> deny_or_allow r CatchAllDenies)"
proof -
  let ?P = "\<lambda>r. ru_TargetType r = TargetAny \<and> matchProtocol r proto \<and> matchPort r port"
  let ?f = "\<lambda>r. if ?P r then Some (deny_or_allow r CatchAllDenies) else None"
  have fm: "first_match f rs d = first_match g rs d" if "\<forall>r\<in>set rs. f r = g r" for f g :: "'x \<Rightarrow> 'y option" and rs d
    using that by (induction rs) (auto split: option.split)
  have "first_match (ip_verdict ip port proto) (po_Rules (ck_policy c)) None =
      first_match ?f (by_priority (map normal (po_Rules p))) None"
    unfolding NewChecker_OkD(1) [OF assms]
    by (rule fm) (auto simp: by_priority_def ip_verdict_normal catch_all_def deny_or_allow_def)
  also have "\<dots> = (case decisive ?P (map normal (po_Rules p)) of None \<Rightarrow> None | Some r \<Rightarrow> deny_or_allow r CatchAllDenies)"
    by (rule decisive_first)
  finally show ?thesis
    by (simp add: decisive_map catch_all_def [abs_def] deny_or_allow_def split: option.split)
qed

lemma domain_rules_decision:
  assumes "NewChecker marshal sha p = Ok c"
  shows "first_match (domain_verdict host port proto) (po_Rules (ck_policy c)) None = None \<longleftrightarrow>
    (case decisive (domain_rule host port proto) (po_Rules p) of
       None \<Rightarrow> True | Some r \<Rightarrow> ru_Action r \<noteq> ActionDeny)"
proof -
  let ?P = "\<lambda>r. domain_verdict host port proto r \<noteq> None"
  let ?f = "\<lambda>r. if ?P r then Some (the (domain_verdict host port proto r)) else None"
  have "?f = domain_verdict host port proto" by (rule ext) auto
  with decisive_first [of ?P "\<lambda>r. the (domain_verdict host port proto r)" "map normal (po_Rules p)" None]
  have "first_match (domain_verdict host port proto) (po_Rules (ck_policy c)) None =
      (case decisive ?P (map normal (po_Rules p)) of None \<Rightarrow> None | Some r \<Rightarrow> the (domain_verdict host port proto r))"
    unfolding NewChecker_OkD(1) [OF assms] by simp
  moreover have "domain_verdict host port proto (normal r) \<noteq> None \<longleftrightarrow> domain_rule host port proto r" for r
    using domain_verdict_normal [of host port proto r] by (auto split: if_splits)
  moreover have dec: "domain_rule host port proto r" if "decisive (domain_rule host port proto) rs = Some r" for rs r
  proof -
    let ?app = "filter (domain_rule host port proto) rs"
    have ne: "?app \<noteq> []" and r: "r = hd (filter (\<lambda>r. ru_Priority r = Max (ru_Priority ` set ?app)) ?app)"
      using that by (auto simp: decisive_def Let_def split: if_splits)
    have "Max (ru_Priority ` set ?app) \<in> ru_Priority ` set ?app"
      using ne by (intro Max_in) (simp_all del: set_filter)
    then have "filter (\<lambda>r. ru_Priority r = Max (ru_Priority ` set ?app)) ?app \<noteq> []"
      by (auto simp: filter_empty_conv)
    then have "r \<in> set ?app" unfolding r by (metis filter_is_subset hd_in_set subsetD)
    then show ?thesis by simp
  qed
  moreover have "the (domain_verdict host port proto (normal r)) = None \<longleftrightarrow> ru_Action r \<noteq> ActionDeny"
    if "domain_rule host port proto r" for r
    using domain_verdict_normal [of host port proto r] that by (auto simp: deny_or_allow_def)
  ultimately show ?thesis
    by (auto simp: decisive_map split: option.splits)
qed

section \<open>Properties\<close>

definition access_mode :: "policy \<Rightarrow> string" where
  "access_mode p = ToLower (TrimSpace (po_AccessMode p))"

text \<open>C22. The complete decision on an address, for every policy that compiles and in terms of the
  policy as written: loopback and link-local networks first, then the deny list, the two network
  flags, and then the decisive rule, the first of the greatest priority among those that apply. Only
  catch-all rules apply: rules on networks play no part.\<close>

theorem acl_ip_decision:
  assumes "NewChecker marshal sha p = Ok c"
  shows "CheckIPProtocol c ip port proto =
    (if \<not> po_AllowLoopback p \<and> dangerous ip then Some DangerousSubnet
     else if access_mode p = AccessModeDeny \<and> listed p ip then Some DenyListedIP
     else if private_net ip \<and> \<not> po_AllowPrivateNetwork p then Some PrivateNotAllowed
     else if \<not> private_net ip \<and> \<not> po_AllowInternet p then Some InternetNotAllowed
     else (case decisive (catch_all port proto) (po_Rules p) of
             None \<Rightarrow> None | Some r \<Rightarrow> deny_or_allow r CatchAllDenies))"
proof -
  note ok = NewChecker_OkD [OF assms]
  show ?thesis
    unfolding CheckIPProtocol_def ok(2-4) dangerous_subnets private_subnets ip_rules_decision [OF assms]
      accessCheckIP_def listed_matches(1) [OF assms] ok(5) access_mode_def
    by (simp add: Let_def)
qed

text \<open>C23. The complete decision on a host name: the access list gates it, and then it passes unless the
  decisive domain rule denies it. Exact names, label-aligned suffixes and globs are compared without
  regard to case.\<close>

theorem acl_host_decision:
  assumes "NewChecker marshal sha p = Ok c" and "ParseIP host = []"
  shows "CheckHostProtocol c host port proto = None \<longleftrightarrow>
    (access_mode p = AccessModeAllow \<longrightarrow> listed_host p host) \<and>
    (access_mode p = AccessModeDeny \<longrightarrow> \<not> listed_host p host) \<and>
    (case decisive (domain_rule (ToLower host) port proto) (po_Rules p) of
       None \<Rightarrow> True | Some r \<Rightarrow> ru_Action r \<noteq> ActionDeny)"
proof -
  note ok = NewChecker_OkD [OF assms(1)]
  have gate: "accessCheckHost c host = None \<longleftrightarrow>
      (access_mode p = AccessModeAllow \<longrightarrow> listed_host p host) \<and>
      (access_mode p = AccessModeDeny \<longrightarrow> \<not> listed_host p host)"
    using target_types ok(6) unfolding accessCheckHost_def listed_matches(2) [OF assms(1)] ok(5) access_mode_def
    by (auto simp: Let_def)
  show ?thesis
    using gate assms(2) domain_rules_decision [OF assms(1), of "ToLower host" port proto]
    by (auto simp: CheckHostProtocol_def Let_def split: option.splits)
qed

text \<open>The access list is enforced at both stages. With a deny list a listed name or literal address is
  refused before resolution and a listed address after it, whatever rules and flags say; with an
  allow list everything that is not listed is refused before resolution.\<close>

theorem access_list_enforced:
  assumes "NewChecker marshal sha p = Ok c"
  shows "(access_mode p = AccessModeDeny \<longrightarrow>
       (listed_host p host \<longrightarrow> CheckHostProtocol c host port proto = Some InDenyList) \<and>
       (listed p ip \<longrightarrow> CheckIPProtocol c ip port proto \<noteq> None)) \<and>
    (access_mode p = AccessModeAllow \<and> \<not> listed_host p host \<longrightarrow>
       CheckHostProtocol c host port proto = Some NotInAllowList)"
proof -
  note ok = NewChecker_OkD [OF assms]
  have "access_mode p = AccessModeDeny \<Longrightarrow> listed p ip \<Longrightarrow> CheckIPProtocol c ip port proto \<noteq> None"
    using target_types ok(6)
    by (auto simp: CheckIPProtocol_def accessCheckIP_def listed_matches(1) [OF assms] ok(5) access_mode_def)
  then show ?thesis
    using target_types
    by (auto simp: CheckHostProtocol_def accessCheckHost_def listed_matches(2) [OF assms] ok(5) access_mode_def Let_def)
qed

text \<open>C24. Rules on networks never have any effect: removing all of them from a policy changes no
  decision. The fingerprint resets the compiled networks of the rules the checker keeps.\<close>

theorem cidr_rules_dead:
  assumes "NewChecker marshal sha p = Ok c"
    and "NewChecker marshal sha (p\<lparr>po_Rules := filter (\<lambda>r. ru_TargetType r \<noteq> TargetCIDR) (po_Rules p)\<rparr>) = Ok c'"
  shows "CheckIPProtocol c ip port proto = CheckIPProtocol c' ip port proto \<and>
    CheckHostProtocol c host port proto = CheckHostProtocol c' host port proto"
proof -
  let ?Q = "\<lambda>r. ru_TargetType r \<noteq> TargetCIDR"
  note ok = NewChecker_OkD [OF assms(1)] and ok' = NewChecker_OkD [OF assms(2)]
  have rules: "po_Rules (ck_policy c') = filter ?Q (po_Rules (ck_policy c))"
    by (simp add: ok(1) ok'(1) by_priority_def filter_sort filter_map o_def)
  have cidr: "ip_verdict ip port proto r = None" "domain_verdict h port proto r = None"
    if "r \<in> set (po_Rules (ck_policy c))" "\<not> ?Q r" for r h ip
    using that target_types by (auto simp: ok(1) by_priority_def ip_verdict_def domain_verdict_def Let_def
        TargetDomain_def TargetDomainSuffix_def TargetGlob_def TargetCIDR_def)
  have same: "first_match (ip_verdict ip port proto) (po_Rules (ck_policy c')) None =
      first_match (ip_verdict ip port proto) (po_Rules (ck_policy c)) None" for ip
    unfolding rules by (rule first_match_skip) (use cidr in blast)
  have same_host: "first_match (domain_verdict h port proto) (po_Rules (ck_policy c')) None =
      first_match (domain_verdict h port proto) (po_Rules (ck_policy c)) None" for h
    unfolding rules by (rule first_match_skip) (use cidr in blast)
  have listed: "listed (p\<lparr>po_Rules := xs\<rparr>) ip = listed p ip" "listed_host (p\<lparr>po_Rules := xs\<rparr>) host = listed_host p host"
    for xs ip by (simp_all add: listed_def listed_host_def)
  have acc: "matchAccessIP c' = matchAccessIP c" "matchAccessHost c' host = matchAccessHost c host"
    by (simp_all add: fun_eq_iff listed_matches [OF assms(1)] listed_matches [OF assms(2)] listed)
  have mode: "ck_accessMode c' = ck_accessMode c" by (simp add: ok(5) ok'(5))
  have flags: "po_AllowLoopback (ck_policy c') = po_AllowLoopback (ck_policy c)"
    "po_AllowInternet (ck_policy c') = po_AllowInternet (ck_policy c)"
    "po_AllowPrivateNetwork (ck_policy c') = po_AllowPrivateNetwork (ck_policy c)"
    by (simp_all add: ok(2-4) ok'(2-4))
  have ip: "CheckIPProtocol c ip port proto = CheckIPProtocol c' ip port proto" for ip
    by (simp add: CheckIPProtocol_def accessCheckIP_def acc mode same flags Let_def)
  moreover have "CheckHostProtocol c host port proto = CheckHostProtocol c' host port proto"
    by (simp add: CheckHostProtocol_def accessCheckHost_def acc mode same_host ip Let_def)
  ultimately show ?thesis ..
qed

text \<open>An access entry that is a single IPv4 address in IPv6-mapped notation covers neither itself nor the
  IPv4 address: it is compiled to the IPv6 network of 32 leading zero bits, so it covers the IPv6
  loopback address instead.\<close>

theorem mapped_entry_dead:
  "parseIPNet ''::ffff:203.0.113.7'' =
     Some \<lparr>net_IP = replicate 16 0, net_Mask = [255, 255, 255, 255] @ replicate 12 0\<rparr> \<and>
   \<not> cidr_entry_covers ''::ffff:203.0.113.7'' (ParseIP ''::ffff:203.0.113.7'') \<and>
   \<not> cidr_entry_covers ''::ffff:203.0.113.7'' (ParseIP ''203.0.113.7'') \<and>
   cidr_entry_covers ''::ffff:203.0.113.7'' (ParseIP ''::1'') \<and>
   cidr_entry_covers ''203.0.113.7'' (ParseIP ''::ffff:203.0.113.7'')"
proof -
  note ev = cidr_eval TrimSpace_def TrimRightSpace_def is_space_def code_def parseIPNet_def
    cidr_entry_covers_def net_Contains_def networkNumberAndMask_def
  have n: "parseIPNet ''::ffff:203.0.113.7'' =
     Some \<lparr>net_IP = replicate 16 0, net_Mask = [255, 255, 255, 255] @ replicate 12 0\<rparr>"
    by (simp add: ev)
  have m: "parseIPNet ''203.0.113.7'' = Some \<lparr>net_IP = [203, 0, 113, 7], net_Mask = [255, 255, 255, 255]\<rparr>"
    by (simp add: ev)
  have ts: "TrimSpace ''::ffff:203.0.113.7'' = ''::ffff:203.0.113.7''" "TrimSpace ''203.0.113.7'' = ''203.0.113.7''"
    by (simp_all add: TrimSpace_def TrimRightSpace_def is_space_def code_def)
  have ip: "ParseIP ''203.0.113.7'' = mapped_prefix @ [203, 0, 113, 7]"
    "ParseIP ''::ffff:203.0.113.7'' = mapped_prefix @ [203, 0, 113, 7]"
    "ParseIP ''::1'' = replicate 15 0 @ [1]"
    by (simp_all add: ev)
  show ?thesis
    by (simp add: cidr_entry_covers_def ts n m ip)
      (simp add: net_Contains_def networkNumberAndMask_def To4_def mapped_prefix_def and_bytes_def ip_eval)
qed

section \<open>Witnesses\<close>

definition demo_policy :: policy where
  "demo_policy = \<lparr>po_ID = ''p'', po_Name = ''demo'', po_Fingerprint = '''', po_AllowInternet = True,
     po_AllowPrivateNetwork = False, po_AllowLoopback = False,
     po_Rules =
       [\<lparr>ru_Priority = 30, ru_Action = ActionDeny, ru_Protocol = '''', ru_TargetType = TargetCIDR,
         ru_TargetValue = ''203.0.113.0/24'', ru_PortStart = 0, ru_PortEnd = 0, ru_ipNet = None\<rparr>,
        \<lparr>ru_Priority = 10, ru_Action = ActionDeny, ru_Protocol = ''udp'', ru_TargetType = TargetAny,
         ru_TargetValue = '''', ru_PortStart = 53, ru_PortEnd = 0, ru_ipNet = None\<rparr>,
        \<lparr>ru_Priority = 20, ru_Action = ActionDeny, ru_Protocol = '''', ru_TargetType = TargetDomainSuffix,
         ru_TargetValue = ''evil.org'', ru_PortStart = 0, ru_PortEnd = 0, ru_ipNet = None\<rparr>],
     po_AccessMode = ''Deny'', po_AccessHosts = [''*.bad.example''],
     po_AccessCIDRs = [''198.51.100.0-198.51.100.9'']\<rparr>"

abbreviation demo_new :: "policy \<Rightarrow> acl_error + checker" where
  "demo_new \<equiv> NewChecker (\<lambda>_. None) (\<lambda>b. b)"

lemma char_of_iff: "char_of n = c \<longleftrightarrow> n mod 256 = code c"
  by (simp add: code_def char_of_eq_iff take_bit_eq_mod)

lemmas acl_eval = char_of_iff TrimSpace_def TrimRightSpace_def is_space_def is_upper_def lower_char_def

lemma demo_compiles:
  "\<exists>rs. compile_rules i (po_Rules demo_policy) = Ok rs"
  "\<exists>rs. compile_rules i (filter (\<lambda>r. ru_TargetType r \<noteq> TargetCIDR) (po_Rules demo_policy)) = Ok rs"
  "\<exists>hs. compile_hosts (po_AccessHosts demo_policy) = Ok hs"
  "\<exists>ns. compile_cidrs (po_AccessCIDRs demo_policy) = Ok ns"
  by (simp_all add: demo_policy_def compile_rule_def ActionAllow_def ActionDeny_def TargetAny_def TargetCIDR_def
      TargetDomain_def TargetDomainSuffix_def TargetGlob_def acl_eval parseIPNet_def cidr_eval
      compileHostMatcher_def ContainsAny_def parseIPRange_def)

lemma NewChecker_exists:
  assumes "compile_rules 0 (po_Rules p) = Ok rs" "compile_hosts (po_AccessHosts p) = Ok hs"
    "compile_cidrs (po_AccessCIDRs p) = Ok ns" "access_mode p \<in> {AccessModeAllow, AccessModeDeny, ''''}"
  shows "\<exists>c. NewChecker marshal sha p = Ok c"
  using assms by (cases ns) (simp add: NewChecker_def policyFingerprint_def Let_def access_mode_def)

lemma demo_mode: "access_mode demo_policy = AccessModeDeny"
  by (simp add: access_mode_def demo_policy_def AccessModeDeny_def acl_eval code_def)

lemma demo_checkers:
  "\<exists>c. demo_new demo_policy = Ok c"
  "\<exists>c. demo_new (demo_policy\<lparr>po_Rules := filter (\<lambda>r. ru_TargetType r \<noteq> TargetCIDR) (po_Rules demo_policy)\<rparr>) = Ok c"
proof -
  obtain rs rs' hs ns where e: "compile_rules 0 (po_Rules demo_policy) = Ok rs"
    "compile_rules 0 (filter (\<lambda>r. ru_TargetType r \<noteq> TargetCIDR) (po_Rules demo_policy)) = Ok rs'"
    "compile_hosts (po_AccessHosts demo_policy) = Ok hs" "compile_cidrs (po_AccessCIDRs demo_policy) = Ok ns"
    using demo_compiles by meson
  show "\<exists>c. demo_new demo_policy = Ok c"
    by (rule NewChecker_exists [OF e(1,3,4)]) (simp add: demo_mode)
  show "\<exists>c. demo_new (demo_policy\<lparr>po_Rules := filter (\<lambda>r. ru_TargetType r \<noteq> TargetCIDR) (po_Rules demo_policy)\<rparr>) = Ok c"
    using e(2-4) demo_mode by (intro NewChecker_exists [of _ rs' hs ns]) (simp_all add: access_mode_def)
qed

lemma demo_listed: "\<not> listed demo_policy [203, 0, 113, 7]"
  by (simp add: listed_def demo_policy_def cidr_entry_covers_def acl_eval parseIPRange_def cidr_eval
      range_contains_def)

lemma demo_listed_host: "listed_host demo_policy ''x.BAD.example''" "\<not> listed_host demo_policy ''www.Evil.org''"
proof -
  have ips: "ParseIP ''x.BAD.example'' = []" "ParseIP ''www.Evil.org'' = []"
    by (simp_all add: cidr_eval)
  have ts: "TrimSpace ''*.bad.example'' = ''*.bad.example''" by (simp add: acl_eval code_def)
  have lo: "ToLower ''*.bad.example'' = ''*.bad.example''" "ToLower ''x.BAD.example'' = ''x.bad.example''"
    "ToLower ''www.Evil.org'' = ''www.evil.org''"
    by (simp_all add: acl_eval code_def)
  have g: "matchGlob ''*.bad.example'' ''x.bad.example''" "\<not> matchGlob ''*.bad.example'' ''www.evil.org''"
    by (simp_all add: matchGlob_def glob_steps)
  show "listed_host demo_policy ''x.BAD.example''" "\<not> listed_host demo_policy ''www.Evil.org''"
    using g by (simp_all add: listed_host_def ips demo_policy_def host_entry_covers_def compileHostMatcher_def
        Let_def ContainsAny_def ts lo del: ToLower_simps)
qed

lemma acl_ip_decision_witness:
  "\<exists>c. demo_new demo_policy = Ok c \<and> CheckIPProtocol c [203, 0, 113, 7] 443 ''tcp'' = None"
proof -
  obtain c where c: "demo_new demo_policy = Ok c" using demo_checkers by blast
  have "decisive (catch_all 443 ''tcp'') (po_Rules demo_policy) = None"
    by (simp add: decisive_def demo_policy_def catch_all_def TargetAny_def TargetCIDR_def TargetDomainSuffix_def
        matchProtocol_def EqualFold_def normal_def acl_eval code_def)
  with acl_ip_decision [OF c, of "[203, 0, 113, 7]" 443 "''tcp''"] c demo_listed show ?thesis
    by (simp add: dangerous_def private_net_def canonical_ip_def To4_def)
      (simp add: demo_policy_def)
qed

lemma acl_host_decision_witness:
  "\<exists>c. demo_new demo_policy = Ok c \<and> CheckHostProtocol c ''www.Evil.org'' 80 ''tcp'' \<noteq> None"
proof -
  obtain c where c: "demo_new demo_policy = Ok c" using demo_checkers by blast
  have ip: "ParseIP ''www.Evil.org'' = []" by (simp add: cidr_eval)
  have lo: "ToLower ''www.Evil.org'' = ''www.evil.org''" by (simp add: acl_eval code_def)
  have u: "under_domain ''evil.org'' ''www.evil.org''"
    unfolding under_domain_def by (intro disjI2 exI [of _ "''www''"]) simp
  have "\<exists>r. decisive (domain_rule ''www.evil.org'' 80 ''tcp'') (po_Rules demo_policy) = Some r \<and>
      ru_Action r = ActionDeny"
    using u by (simp add: decisive_def demo_policy_def domain_rule_def TargetAny_def TargetCIDR_def
        TargetDomain_def TargetGlob_def TargetDomainSuffix_def matchProtocol_def matchPort_def EqualFold_def normal_def
        acl_eval code_def TrimPrefix_def ActionDeny_def)
  with acl_host_decision [OF c ip, of 80 "''tcp''"] c lo show ?thesis by auto
qed

lemma access_list_enforced_witness:
  "\<exists>c. demo_new demo_policy = Ok c \<and> CheckHostProtocol c ''x.BAD.example'' 80 ''tcp'' = Some InDenyList"
proof -
  obtain c where c: "demo_new demo_policy = Ok c" using demo_checkers by blast
  from access_list_enforced [OF c] demo_mode demo_listed_host c show ?thesis by auto
qed

lemma cidr_rules_dead_witness:
  "\<exists>c c'. demo_new demo_policy = Ok c \<and>
     demo_new (demo_policy\<lparr>po_Rules := filter (\<lambda>r. ru_TargetType r \<noteq> TargetCIDR) (po_Rules demo_policy)\<rparr>) = Ok c' \<and>
     CheckIPProtocol c [203, 0, 113, 7] 443 ''tcp'' = CheckIPProtocol c' [203, 0, 113, 7] 443 ''tcp''"
proof -
  obtain c c' where c: "demo_new demo_policy = Ok c"
    "demo_new (demo_policy\<lparr>po_Rules := filter (\<lambda>r. ru_TargetType r \<noteq> TargetCIDR) (po_Rules demo_policy)\<rparr>) = Ok c'"
    using demo_checkers by blast
  from cidr_rules_dead [OF c] c show ?thesis by blast
qed

end
