(* ===== verification/Go_Path.thy ===== *)
theory Go_Path
  imports Go_Netip
begin

text \<open>
  Go's \<open>path.Match\<close> and \<open>path.Base\<close>, and the canonical text of an address. \<open>Match\<close> is modelled by
  its documentation: a pattern is parsed to a list of items or is malformed, and an item list
  matches a name declaratively.
\<close>

section \<open>\<open>path.Match\<close>\<close>

datatype path_item = Lit char | AnyOne | AnyRun | CharClass bool "(char \<times> char) list"

text \<open>
  The parser reads one byte at a time. Its states are the top level, after a backslash, and the
  places inside a bracket expression: before the low end of a range (first or later), after it,
  and before the high end, each possibly after a backslash.
\<close>

datatype parse_state =
    Top | Escaped | ClassStart | ClassLow bool "(char \<times> char) list"
  | ClassLowEsc bool "(char \<times> char) list" | ClassAfter bool "(char \<times> char) list" char
  | ClassHigh bool "(char \<times> char) list" char | ClassHighEsc bool "(char \<times> char) list" char

abbreviation backslash :: char where "backslash \<equiv> CHR 0x5C"

fun parse_pattern :: "parse_state \<Rightarrow> string \<Rightarrow> path_item list option" where
  "parse_pattern Top [] = Some []"
| "parse_pattern st [] = None"
| "parse_pattern st (c # cs) =
     (case st of
        Top \<Rightarrow>
          if c = CHR ''*'' then map_option (Cons AnyRun) (parse_pattern Top cs)
          else if c = CHR ''?'' then map_option (Cons AnyOne) (parse_pattern Top cs)
          else if c = CHR ''['' then parse_pattern ClassStart cs
          else if c = backslash then parse_pattern Escaped cs
          else map_option (Cons (Lit c)) (parse_pattern Top cs)
      | Escaped \<Rightarrow> map_option (Cons (Lit c)) (parse_pattern Top cs)
      | ClassStart \<Rightarrow>
          if c = CHR ''^'' then parse_pattern (ClassLow True []) cs
          else if c \<in> {CHR ''-'', CHR '']''} then None
          else if c = backslash then parse_pattern (ClassLowEsc False []) cs
          else parse_pattern (ClassAfter False [] c) cs
      | ClassLow neg rs \<Rightarrow>
          if c = CHR '']'' \<and> rs \<noteq> [] then map_option (Cons (CharClass neg rs)) (parse_pattern Top cs)
          else if c \<in> {CHR ''-'', CHR '']''} then None
          else if c = backslash then parse_pattern (ClassLowEsc neg rs) cs
          else parse_pattern (ClassAfter neg rs c) cs
      | ClassLowEsc neg rs \<Rightarrow> parse_pattern (ClassAfter neg rs c) cs
      | ClassAfter neg rs lo \<Rightarrow>
          if c = CHR ''-'' then parse_pattern (ClassHigh neg rs lo) cs
          else if c = CHR '']''
          then map_option (Cons (CharClass neg ((lo, lo) # rs))) (parse_pattern Top cs)
          else if c = backslash then parse_pattern (ClassLowEsc neg ((lo, lo) # rs)) cs
          else parse_pattern (ClassAfter neg ((lo, lo) # rs) c) cs
      | ClassHigh neg rs lo \<Rightarrow>
          if c \<in> {CHR ''-'', CHR '']''} then None
          else if c = backslash then parse_pattern (ClassHighEsc neg rs lo) cs
          else parse_pattern (ClassLow neg ((lo, c) # rs)) cs
      | ClassHighEsc neg rs lo \<Rightarrow> parse_pattern (ClassLow neg ((lo, c) # rs)) cs)"

definition in_class :: "bool \<Rightarrow> (char \<times> char) list \<Rightarrow> char \<Rightarrow> bool" where
  "in_class neg rs c \<longleftrightarrow> list_ex (\<lambda>(lo, hi). lo \<le> c \<and> c \<le> hi) rs \<noteq> neg"

fun match_items :: "path_item list \<Rightarrow> string \<Rightarrow> bool" where
  "match_items [] s = (s = [])"
| "match_items (AnyRun # p) s =
     (match_items p s \<or> (case s of [] \<Rightarrow> False | c # t \<Rightarrow> c \<noteq> CHR ''/'' \<and> match_items (AnyRun # p) t))"
| "match_items (AnyOne # p) s = (case s of [] \<Rightarrow> False | c # t \<Rightarrow> c \<noteq> CHR ''/'' \<and> match_items p t)"
| "match_items (Lit d # p) s = (case s of [] \<Rightarrow> False | c # t \<Rightarrow> c = d \<and> match_items p t)"
| "match_items (CharClass neg rs # p) s =
     (case s of [] \<Rightarrow> False | c # t \<Rightarrow> in_class neg rs c \<and> match_items p t)"

text \<open>\<^const>\<open>None\<close> is \<open>ErrBadPattern\<close>.\<close>

definition path_Match :: "string \<Rightarrow> string \<Rightarrow> bool option" where
  "path_Match pattern name = map_option (\<lambda>items. match_items items name) (parse_pattern Top pattern)"

definition path_matches :: "string \<Rightarrow> string \<Rightarrow> bool" where
  "path_matches pattern name = (path_Match pattern name = Some True)"

definition path_Base :: "string \<Rightarrow> string" where
  "path_Base p =
     (if p = [] then ''.''
      else
        let q = rev (dropWhile (\<lambda>c. c = CHR ''/'') (rev p));
            b = rev (takeWhile (\<lambda>c. c \<noteq> CHR ''/'') (rev q))
        in if b = [] then ''/'' else b)"

section \<open>The text of an address\<close>

definition dotted :: "byte list \<Rightarrow> string" where
  "dotted bs = (case bs of [] \<Rightarrow> []
     | b # r \<Rightarrow> Itoa (unat b) @ concat (map (\<lambda>x. ''.'' @ Itoa (unat x)) r))"

fun groups16 :: "byte list \<Rightarrow> nat list" where
  "groups16 (a # b # r) = (unat a * 256 + unat b) # groups16 r"
| "groups16 _ = []"

definition hex_char :: "nat \<Rightarrow> char" where
  "hex_char n = (if n < 10 then char_of (48 + n) else char_of (87 + n))"

fun hex_digits :: "nat \<Rightarrow> nat \<Rightarrow> string" where
  "hex_digits 0 n = []"
| "hex_digits (Suc k) n = (if n < 16 then [hex_char n] else hex_digits k (n div 16) @ [hex_char (n mod 16)])"

text \<open>The first longest run of at least two zero groups, as its start and end.\<close>

definition zero_run_at :: "nat list \<Rightarrow> nat \<Rightarrow> nat" where
  "zero_run_at gs i = length (takeWhile (\<lambda>g. g = 0) (drop i gs))"

definition zero_run :: "nat list \<Rightarrow> (nat \<times> nat) option" where
  "zero_run gs =
     fold (\<lambda>i best. let l = zero_run_at gs i in
             if l \<ge> 2 \<and> (case best of None \<Rightarrow> True | Some (s, e) \<Rightarrow> l > e - s) then Some (i, i + l) else best)
       [0..<length gs] None"

definition colon_join :: "nat list \<Rightarrow> string" where
  "colon_join gs = (case gs of [] \<Rightarrow> [] | g # r \<Rightarrow> hex_digits 4 g @ concat (map (\<lambda>x. '':'' @ hex_digits 4 x) r))"

fun addr_String :: "addr \<Rightarrow> string" where
  "addr_String InvalidAddr = ''invalid IP''"
| "addr_String (Addr4 bs) = dotted bs"
| "addr_String (Addr6 bs z) =
     (if take 12 bs = mapped_prefix then ''::ffff:'' @ dotted (drop 12 bs)
      else (let gs = groups16 bs in
            case zero_run gs of
              None \<Rightarrow> colon_join gs
            | Some (s, e) \<Rightarrow> colon_join (take s gs) @ ''::'' @ colon_join (drop e gs))) @
     (if z = [] then [] else CHR ''%'' # z)"

definition prefix_String :: "ip_prefix \<Rightarrow> string" where
  "prefix_String p = addr_String (px_addr p) @ ''/'' @ Itoa (px_bits p)"

section \<open>Address classes\<close>

text \<open>As in the library, an IPv4-mapped address is classified as the IPv4 address.\<close>

fun IsPrivate :: "addr \<Rightarrow> bool" where
  "IsPrivate (Addr4 bs) = (bs ! 0 = 10 \<or> (bs ! 0 = 172 \<and> 16 \<le> bs ! 1 \<and> bs ! 1 < 32) \<or> (bs ! 0 = 192 \<and> bs ! 1 = 168))"
| "IsPrivate (Addr6 bs z) =
     (if take 12 bs = mapped_prefix
      then bs ! 12 = 10 \<or> (bs ! 12 = 172 \<and> 16 \<le> bs ! 13 \<and> bs ! 13 < 32) \<or> (bs ! 12 = 192 \<and> bs ! 13 = 168)
      else bs ! 0 = 252 \<or> bs ! 0 = 253)"
| "IsPrivate InvalidAddr = False"

fun IsLoopback :: "addr \<Rightarrow> bool" where
  "IsLoopback (Addr4 bs) = (bs ! 0 = 127)"
| "IsLoopback (Addr6 bs z) = (if take 12 bs = mapped_prefix then bs ! 12 = 127 else be_val bs = 1)"
| "IsLoopback InvalidAddr = False"

fun IsUnspecified :: "addr \<Rightarrow> bool" where
  "IsUnspecified (Addr4 bs) = (be_val bs = 0)"
| "IsUnspecified (Addr6 bs z) = (be_val bs = 0 \<and> z = [])"
| "IsUnspecified InvalidAddr = False"

fun IsMulticast :: "addr \<Rightarrow> bool" where
  "IsMulticast (Addr4 bs) = (224 \<le> bs ! 0 \<and> bs ! 0 < 240)"
| "IsMulticast (Addr6 bs z) =
     (if take 12 bs = mapped_prefix then 224 \<le> bs ! 12 \<and> bs ! 12 < 240 else bs ! 0 = 255)"
| "IsMulticast InvalidAddr = False"

fun IsLinkLocalUnicast :: "addr \<Rightarrow> bool" where
  "IsLinkLocalUnicast (Addr4 bs) = (bs ! 0 = 169 \<and> bs ! 1 = 254)"
| "IsLinkLocalUnicast (Addr6 bs z) =
     (if take 12 bs = mapped_prefix then bs ! 12 = 169 \<and> bs ! 13 = 254
      else bs ! 0 = 254 \<and> 128 \<le> bs ! 1 \<and> bs ! 1 < 192)"
| "IsLinkLocalUnicast InvalidAddr = False"

fun IsLinkLocalMulticast :: "addr \<Rightarrow> bool" where
  "IsLinkLocalMulticast (Addr4 bs) = (bs ! 0 = 224 \<and> bs ! 1 = 0 \<and> bs ! 2 = 0)"
| "IsLinkLocalMulticast (Addr6 bs z) =
     (if take 12 bs = mapped_prefix then bs ! 12 = 224 \<and> bs ! 13 = 0 \<and> bs ! 14 = 0
      else bs ! 0 = 255 \<and> unat (bs ! 1) mod 16 = 2)"
| "IsLinkLocalMulticast InvalidAddr = False"

definition IsGlobalUnicast :: "addr \<Rightarrow> bool" where
  "IsGlobalUnicast a0 \<longleftrightarrow>
     (let a = Unmap a0 in
      a \<noteq> InvalidAddr \<and> 
      (case a of Addr4 bs \<Rightarrow> be_val bs \<noteq> 0 \<and> be_val bs \<noteq> 0xFFFFFFFF | _ \<Rightarrow> True) \<and>
      \<not> IsUnspecified a \<and> \<not> IsLoopback a \<and> \<not> IsMulticast a \<and> \<not> IsLinkLocalUnicast a)"

end
