(* ===== verification/Exit_Group.thy ===== *)
theory Exit_Group
  imports Go_Strings
begin

text \<open>
  \<open>internal/exitgroup/group.go\<close>: ordered groups of exit devices, their validation together with the
  references to them, and the candidates a reference stands for. Go's maps of seen keys are lists.
\<close>

definition Prefix :: string where "Prefix = ''group:''"

record group =
  gr_ID :: string
  gr_Name :: string
  gr_Members :: "string list"

datatype group_error =
  TooManyGroups | BadGroupID string | BadGroupName string | DuplicateGroup string
  | BadMemberCount string | BadMember string string | UnknownGroup string

definition IsID :: "string \<Rightarrow> bool" where "IsID i \<longleftrightarrow> HasPrefix i Prefix"

text \<open>Lists are values in the model, so a clone is the list itself.\<close>

definition Clone :: "group list \<Rightarrow> group list" where
  "Clone groups = map (\<lambda>g. g\<lparr>gr_Members := gr_Members g\<rparr>) groups"

definition forbidden :: string where
  "forbidden = [CHR '' '', CHR ''/'', CHR 0x5C, CHR 0x09, CHR 0x0D, CHR 0x0A, CHR 0x00]"

text \<open>\<open>len([]rune(name))\<close> of well-formed UTF-8: the bytes that do not continue a rune.\<close>

definition rune_count :: "string \<Rightarrow> nat" where
  "rune_count s = length (filter (\<lambda>c. code c < 128 \<or> 192 \<le> code c) s)"

definition bad_member :: "string list \<Rightarrow> string \<Rightarrow> bool" where
  "bad_member seen i \<longleftrightarrow>
     i = [] \<or> TrimSpace i \<noteq> i \<or> length i > 128 \<or> ContainsAny i forbidden \<or> IsID i \<or>
     HasPrefix i ''local:'' \<or> i \<in> set seen"

fun check_members :: "string \<Rightarrow> string list \<Rightarrow> string list \<Rightarrow> group_error option" where
  "check_members name seen [] = None"
| "check_members name seen (i # is) =
     (if bad_member seen i then Some (BadMember name i) else check_members name (i # seen) is)"

definition check_group :: "string list \<Rightarrow> string list \<Rightarrow> group \<Rightarrow> group_error option" where
  "check_group ids names g =
     (let i = gr_ID g; name = TrimSpace (gr_Name g) in
      if \<not> IsID i \<or> length i \<le> length Prefix \<or> length i > 128 \<or> ContainsAny i forbidden
      then Some (BadGroupID i)
      else if name = [] \<or> name \<noteq> gr_Name g \<or> rune_count name > 64 \<or>
              ContainsAny name [CHR 0x0D, CHR 0x0A, CHR 0x00]
      then Some (BadGroupName (gr_Name g))
      else if i \<in> set ids \<or> ToLower name \<in> set names then Some (DuplicateGroup name)
      else if length (gr_Members g) = 0 \<or> length (gr_Members g) > 128 then Some (BadMemberCount name)
      else check_members name [] (gr_Members g))"

fun check_groups :: "string list \<Rightarrow> string list \<Rightarrow> group list \<Rightarrow> group_error + string list" where
  "check_groups ids names [] = Ok ids"
| "check_groups ids names (g # gs) =
     (case check_group ids names g of
        Some e \<Rightarrow> Err e
      | None \<Rightarrow> check_groups (gr_ID g # ids) (ToLower (TrimSpace (gr_Name g)) # names) gs)"

fun check_references :: "string list \<Rightarrow> string list \<Rightarrow> group_error option" where
  "check_references ids [] = None"
| "check_references ids (i # is) =
     (if IsID i \<and> i \<notin> set ids then Some (UnknownGroup i) else check_references ids is)"

definition Validate :: "group list \<Rightarrow> string list \<Rightarrow> group_error option" where
  "Validate groups references =
     (if length groups > 128 then Some TooManyGroups
      else (case check_groups [] [] groups of
              Inl e \<Rightarrow> Some e
            | Inr ids \<Rightarrow> check_references ids references))"

text \<open>\<^const>\<open>None\<close> for \<open>usable\<close> is Go's nil function.\<close>

definition usable_by :: "(string \<Rightarrow> bool) option \<Rightarrow> string \<Rightarrow> bool" where
  "usable_by usable m = (case usable of None \<Rightarrow> True | Some u \<Rightarrow> u m)"

definition Candidates :: "group list \<Rightarrow> string \<Rightarrow> (string \<Rightarrow> bool) option \<Rightarrow> string list" where
  "Candidates groups i usable =
     first_match (\<lambda>g. if gr_ID g = i then Some (filter (usable_by usable) (gr_Members g)) else None) groups []"

section \<open>What validation establishes\<close>

lemma good_member:
  "\<not> bad_member seen i \<Longrightarrow> i \<noteq> [] \<and> \<not> IsID i \<and> \<not> HasPrefix i ''local:'' \<and> i \<notin> set seen"
  unfolding bad_member_def by blast

lemma check_members_ok:
  "check_members name seen is = None \<Longrightarrow>
    distinct is \<and> set is \<inter> set seen = {} \<and> (\<forall>i\<in>set is. i \<noteq> [] \<and> \<not> IsID i \<and> \<not> HasPrefix i ''local:'')"
proof (induction name seen "is" rule: check_members.induct)
  case (2 name seen i "is")
  then have "\<not> bad_member seen i" by (auto split: if_splits)
  with 2 good_member [OF this] show ?case by auto
qed simp

lemma check_group_ok:
  "check_group ids names g = None \<Longrightarrow>
    gr_ID g \<notin> set ids \<and> IsID (gr_ID g) \<and> gr_Members g \<noteq> [] \<and> length (gr_Members g) \<le> 128 \<and>
    check_members (TrimSpace (gr_Name g)) [] (gr_Members g) = None"
  by (simp add: check_group_def Let_def split: if_splits)

lemma check_groups_ok:
  "check_groups ids names gs = Ok ids' \<Longrightarrow>
    set ids' = set ids \<union> gr_ID ` set gs \<and> distinct (map gr_ID gs) \<and> gr_ID ` set gs \<inter> set ids = {} \<and>
    (\<forall>g\<in>set gs. \<exists>is ns. check_group is ns g = None)"
proof (induction ids names gs arbitrary: ids' rule: check_groups.induct)
  case (2 ids names g gs)
  then have g: "check_group ids names g = None"
    and rest: "check_groups (gr_ID g # ids) (ToLower (TrimSpace (gr_Name g)) # names) gs = Ok ids'"
    by (auto split: option.splits)
  from check_group_ok [OF g] "2.IH" [OF g rest] g show ?case by auto
qed simp

lemma check_references_ok: "check_references ids is = None \<Longrightarrow> i \<in> set is \<Longrightarrow> IsID i \<Longrightarrow> i \<in> set ids"
  by (induction ids "is" rule: check_references.induct) (auto split: if_splits)

lemma Validate_ok:
  assumes "Validate groups references = None"
  shows "distinct (map gr_ID groups)" "i \<in> set references \<Longrightarrow> IsID i \<Longrightarrow> i \<in> gr_ID ` set groups"
    "g \<in> set groups \<Longrightarrow> gr_Members g \<noteq> [] \<and> length (gr_Members g) \<le> 128 \<and> distinct (gr_Members g) \<and>
       (\<forall>m\<in>set (gr_Members g). m \<noteq> [] \<and> \<not> IsID m \<and> \<not> HasPrefix m ''local:'')"
proof -
  from assms obtain ids where ids: "check_groups [] [] groups = Ok ids" "check_references ids references = None"
    by (auto simp: Validate_def split: if_splits sum.splits)
  note ok = check_groups_ok [OF ids(1)]
  show "distinct (map gr_ID groups)" using ok by blast
  show "i \<in> set references \<Longrightarrow> IsID i \<Longrightarrow> i \<in> gr_ID ` set groups"
    using check_references_ok [OF ids(2)] ok by simp
  show "g \<in> set groups \<Longrightarrow> gr_Members g \<noteq> [] \<and> length (gr_Members g) \<le> 128 \<and> distinct (gr_Members g) \<and>
       (\<forall>m\<in>set (gr_Members g). m \<noteq> [] \<and> \<not> IsID m \<and> \<not> HasPrefix m ''local:'')"
    using ok check_group_ok check_members_ok by meson
qed

lemma Candidates_member:
  assumes "distinct (map gr_ID groups)" "g \<in> set groups"
  shows "Candidates groups (gr_ID g) usable =
    filter (usable_by usable) (gr_Members g)"
  using assms
  by (induction groups) (auto simp: Candidates_def)

text \<open>In a configuration that validates, a reference to a group stands for exactly the usable members
  of the one group with that identity, in their order: single devices, no groups and no local exits,
  each once, and at least one when nothing is unusable.\<close>

theorem group_reference_resolves:
  assumes "Validate groups references = None" "i \<in> set references" "IsID i"
  shows "\<exists>g\<in>set groups. gr_ID g = i \<and> (\<forall>h\<in>set groups. gr_ID h = i \<longrightarrow> h = g) \<and>
    Candidates groups i usable = filter (usable_by usable) (gr_Members g) \<and>
    Candidates groups i None \<noteq> [] \<and> distinct (Candidates groups i usable) \<and>
    (\<forall>m\<in>set (Candidates groups i usable). \<not> IsID m \<and> \<not> HasPrefix m ''local:'')"
proof -
  note ok = Validate_ok [OF assms(1)]
  from ok(2) [OF assms(2,3)] obtain g where g: "g \<in> set groups" "gr_ID g = i" by auto
  have uniq: "h = g" if "h \<in> set groups" "gr_ID h = i" for h
    using that g ok(1) by (metis distinct_map inj_onD)
  have c: "Candidates groups i u = filter (usable_by u) (gr_Members g)" for u
    using Candidates_member [OF ok(1) g(1)] g(2) by simp
  note m = ok(3) [OF g(1)]
  have "Candidates groups i None \<noteq> []" using m by (simp add: c usable_by_def)
  moreover have "distinct (Candidates groups i usable)" using m by (simp add: c)
  moreover have "\<forall>m\<in>set (Candidates groups i usable). \<not> IsID m \<and> \<not> HasPrefix m ''local:''"
    using m by (simp add: c)
  moreover have "\<forall>h\<in>set groups. gr_ID h = i \<longrightarrow> h = g" using uniq by blast
  ultimately show ?thesis using g c by blast
qed

lemma group_reference_resolves_witness:
  "\<exists>g\<in>set [\<lparr>gr_ID = ''group:eu'', gr_Name = ''EU'', gr_Members = [''b'', ''a'']\<rparr>].
     gr_ID g = ''group:eu'' \<and>
     Candidates [\<lparr>gr_ID = ''group:eu'', gr_Name = ''EU'', gr_Members = [''b'', ''a'']\<rparr>] ''group:eu''
       (Some (\<lambda>m. m = ''a'')) = filter (\<lambda>m. m = ''a'') (gr_Members g)"
proof -
  let ?gs = "[\<lparr>gr_ID = ''group:eu'', gr_Name = ''EU'', gr_Members = [''b'', ''a'']\<rparr>]"
  have "Validate ?gs [''group:eu''] = None"
    by (simp add: Validate_def check_group_def bad_member_def IsID_def HasPrefix_def Prefix_def ContainsAny_def forbidden_def Let_def
        TrimSpace_def TrimRightSpace_def is_space_def code_def rune_count_def)
  from group_reference_resolves [OF this, of "''group:eu''" "Some (\<lambda>m. m = ''a'')"]
  show ?thesis by (auto simp: IsID_def HasPrefix_def Prefix_def usable_by_def [abs_def])
qed

end
