(* ===== verification/Routing_Rules.thy ===== *)
theory Routing_Rules
  imports Go_Path Exit_Group
begin

text \<open>
  \<open>agent/routing/rule.go\<close>, \<open>compound.go\<close> and \<open>dns_rules.go\<close>: routing rules, their compiled form,
  how a flow matches a rule, and the validation of a rule's conditions. Policy constants are the
  strings of the source; lists are values, so cloning is the identity.
\<close>

section \<open>Data\<close>

definition ActionProxy :: string where "ActionProxy = ''PROXY''"
definition ActionDirect :: string where "ActionDirect = ''DIRECT''"
definition ActionReject :: string where "ActionReject = ''REJECT''"
definition ModeRule :: string where "ModeRule = ''rule''"
definition ModeGlobalProxy :: string where "ModeGlobalProxy = ''global_proxy''"
definition ModeDirect :: string where "ModeDirect = ''direct''"
definition DNSModeProxy :: string where "DNSModeProxy = ''proxy''"
definition DNSModeLocal :: string where "DNSModeLocal = ''local''"
definition DNSActionLocal :: string where "DNSActionLocal = ''LOCAL''"
definition DNSActionRemote :: string where "DNSActionRemote = ''REMOTE''"

record dns_rule =
  dr_Name :: string
  dr_Enabled :: bool
  dr_Domains :: "string list"
  dr_Action :: string
  dr_ExitID :: string
  dr_Resolver :: string

record rule =
  rl_Entries :: "string list"
  rl_SourceCIDRs :: "string list"
  rl_Name :: string
  rl_Enabled :: bool
  rl_Action :: string
  rl_ExitID :: string
  rl_DatagramRequired :: bool
  rl_HandleDirect :: bool
  rl_Processes :: "string list"
  rl_Targets :: "string list"
  rl_Ports :: "string list"
  rl_Protocols :: "string list"

record flow =
  fl_Entry :: string
  fl_SourceIP :: string
  fl_SourcePort :: u16
  fl_InboundInterface :: string
  fl_Process :: string
  fl_ProcessAliases :: "string list"
  fl_Host :: string
  fl_IP :: string
  fl_Port :: u16
  fl_Protocol :: string

record port_range =
  pr_start :: u16
  pr_end :: u16

record compound_rule =
  cr_sources :: "ip_prefix list"
  cr_networks :: "ip_prefix list"
  cr_hosts :: "string list"
  cr_addressGlobs :: "string list"
  cr_ports :: "port_range list"

section \<open>Compilation\<close>

definition targetPrefix :: "string \<Rightarrow> ip_prefix option" where
  "targetPrefix value =
     (case ParsePrefix value of
        Some p \<Rightarrow>
          let p' = (if Is4In6 (px_addr p) \<and> px_bits p \<ge> 96
                    then \<lparr>px_addr = Unmap (px_addr p), px_bits = px_bits p - 96\<rparr> else p)
          in Some (Masked p')
      | None \<Rightarrow>
        (case ParseAddr value of
           Some a \<Rightarrow> if Zone a = [] then Some \<lparr>px_addr = Unmap a, px_bits = BitLen (Unmap a)\<rparr> else None
         | None \<Rightarrow> None))"

definition parsePortRange :: "string \<Rightarrow> port_range" where
  "parsePortRange s =
     (case cut_at CHR ''-'' s of
        Some (a, b) \<Rightarrow> \<lparr>pr_start = ParseUint16 a, pr_end = ParseUint16 b\<rparr>
      | None \<Rightarrow> \<lparr>pr_start = ParseUint16 s, pr_end = 0\<rparr>)"

definition compile_source :: "string \<Rightarrow> ip_prefix list" where
  "compile_source raw = (case ParsePrefix raw of Some p \<Rightarrow> [Masked p] | None \<Rightarrow> [])"

definition compileCompound :: "rule \<Rightarrow> compound_rule" where
  "compileCompound r =
     \<lparr>cr_sources = concat (map compile_source (rl_SourceCIDRs r)),
      cr_networks = concat (map (\<lambda>t. case targetPrefix t of Some p \<Rightarrow> [p] | None \<Rightarrow> []) (rl_Targets r)),
      cr_hosts = map (\<lambda>t. ToLower (TrimSuffix t ''.'')) (filter (\<lambda>t. targetPrefix t = None) (rl_Targets r)),
      cr_addressGlobs =
        map ToLower (filter (\<lambda>t. targetPrefix t = None \<and> ContainsAny t ''*?['') (rl_Targets r)),
      cr_ports =
        map (\<lambda>p. if p = ''*'' then \<lparr>pr_start = 1, pr_end = 65535\<rparr> else parsePortRange p) (rl_Ports r)\<rparr>"

section \<open>Matching\<close>

definition to_slash :: "string \<Rightarrow> string" where
  "to_slash s = map (\<lambda>c. if c = backslash then CHR ''/'' else c) s"

definition matchProcess :: "string \<Rightarrow> string \<Rightarrow> bool" where
  "matchProcess pattern process =
     (if pattern = ''*'' then True
      else if process = [] then False
      else
        let pat = ToLower (to_slash pattern); proc = ToLower (to_slash process);
            proc' = (if CHR ''/'' \<in> set pat then proc else path_Base proc)
        in path_matches pat proc')"

definition matchDomainSuffix :: "string \<Rightarrow> string \<Rightarrow> bool" where
  "matchDomainSuffix host suf =
     (let h = ToLower host; s = TrimPrefix (ToLower suf) ''.'' in h = s \<or> HasSuffix h (''.'' @ s))"

definition normal_entry :: "string \<Rightarrow> string" where
  "normal_entry e =
     (if e = ''socks5-udp'' then ''socks5'' else if e = ''browser_chrome'' then ''browser''
      else if e = ''transparent'' then ''divert'' else e)"

definition addr_of :: "string \<Rightarrow> addr" where
  "addr_of s = (case ParseAddr s of Some a \<Rightarrow> a | None \<Rightarrow> InvalidAddr)"

definition entry_matches :: "rule \<Rightarrow> flow \<Rightarrow> bool" where
  "entry_matches r f \<longleftrightarrow> rl_Entries r = [] \<or> normal_entry (fl_Entry f) \<in> set (rl_Entries r)"

definition source_matches :: "compound_rule \<Rightarrow> flow \<Rightarrow> bool" where
  "source_matches c f \<longleftrightarrow>
     cr_sources c = [] \<or>
     (case ParseAddr (fl_SourceIP f) of
        None \<Rightarrow> False
      | Some a \<Rightarrow> list_ex (\<lambda>p. prefix_Contains p (Unmap a)) (cr_sources c))"

definition process_matches :: "rule \<Rightarrow> flow \<Rightarrow> bool" where
  "process_matches r f \<longleftrightarrow>
     rl_Processes r = [] \<or>
     list_ex (\<lambda>p. matchProcess p (fl_Process f) \<or> list_ex (matchProcess p) (fl_ProcessAliases f)) (rl_Processes r)"

definition protocol_matches :: "rule \<Rightarrow> flow \<Rightarrow> bool" where
  "protocol_matches r f \<longleftrightarrow>
     rl_Protocols r = [] \<or> list_ex (\<lambda>p. p = ''*'' \<or> EqualFold p (fl_Protocol f)) (rl_Protocols r)"

definition port_matches :: "compound_rule \<Rightarrow> flow \<Rightarrow> bool" where
  "port_matches c f \<longleftrightarrow>
     cr_ports c = [] \<or>
     list_ex (\<lambda>p. pr_start p \<le> fl_Port f \<and> fl_Port f \<le> max (pr_start p) (pr_end p)) (cr_ports c)"

definition flow_addr :: "flow \<Rightarrow> addr" where
  "flow_addr f = (if addr_of (fl_IP f) \<noteq> InvalidAddr then addr_of (fl_IP f) else addr_of (fl_Host f))"

definition address_matches :: "compound_rule \<Rightarrow> addr \<Rightarrow> bool" where
  "address_matches c a0 =
     (if a0 = InvalidAddr then False
      else
        let a = WithoutZone (Unmap a0) in
        list_ex (\<lambda>p. prefix_Contains p a) (cr_networks c) \<or>
        list_ex (\<lambda>g. path_matches g (addr_String a)) (cr_addressGlobs c))"

definition host_pattern_matches :: "string \<Rightarrow> string \<Rightarrow> bool" where
  "host_pattern_matches pattern host =
     (if pattern = ''*'' then True
      else if host = [] then False
      else if HasPrefix pattern ''*.'' \<and> path_matches (drop 2 pattern) host then True
      else if HasPrefix pattern ''.'' \<and> matchDomainSuffix host pattern then True
      else path_matches pattern host)"

definition flow_host :: "flow \<Rightarrow> string" where
  "flow_host f =
     (let host = ToLower (TrimSuffix (fl_Host f) ''.'') in
      if ParseAddr host \<noteq> None then [] else host)"

definition rule_matches :: "compound_rule \<Rightarrow> rule \<Rightarrow> flow \<Rightarrow> bool" where
  "rule_matches c r f =
     (if \<not> entry_matches r f then False
      else if \<not> source_matches c f then False
      else if \<not> process_matches r f then False
      else if \<not> protocol_matches r f then False
      else if \<not> port_matches c f then False
      else if rl_Targets r = [] then True
      else if address_matches c (flow_addr f) then True
      else list_ex (\<lambda>p. host_pattern_matches p (flow_host f)) (cr_hosts c))"

section \<open>DNS rules\<close>

definition matchDNSRuleDomain :: "string \<Rightarrow> string \<Rightarrow> bool" where
  "matchDNSRuleDomain host pattern =
     (let p = ToLower (TrimSuffix pattern ''.'') in
      if HasPrefix p ''*.''
      then host = drop 2 p \<or> HasSuffix host (''.'' @ drop 2 p)
      else host = p)"

definition label_char :: "char \<Rightarrow> bool" where
  "label_char c \<longleftrightarrow> is_lower c \<or> is_upper c \<or> is_digit c \<or> c = CHR ''-''"

definition valid_label :: "string \<Rightarrow> bool" where
  "valid_label l \<longleftrightarrow>
     l \<noteq> [] \<and> length l \<le> 63 \<and> hd l \<noteq> CHR ''-'' \<and> last l \<noteq> CHR ''-'' \<and> list_all label_char l"

definition validDNSDirectDomain :: "string \<Rightarrow> bool" where
  "validDNSDirectDomain domain =
     (if domain = [] \<or> length domain > 253 \<or> TrimSpace domain \<noteq> domain then False
      else
        let d = TrimSuffix domain ''.'' in
        if ParseAddr d \<noteq> None then False
        else list_all valid_label (split_on CHR ''.'' d))"

definition validDNSRuleDomain :: "string \<Rightarrow> bool" where
  "validDNSRuleDomain pattern =
     validDNSDirectDomain (if HasPrefix pattern ''*.'' then drop 2 pattern else pattern)"

definition DNSRuleExitIDs :: "dns_rule list \<Rightarrow> string list" where
  "DNSRuleExitIDs rules =
     map dr_ExitID (filter (\<lambda>r. dr_Action r = DNSActionRemote \<and> dr_ExitID r \<noteq> []) rules)"

section \<open>Validation of a rule\<close>

datatype compound_error =
  BadEntry string | BadSource string | BadProcess string | BadTarget string | BadPort string | BadProtocol string

definition first_error :: "('a \<Rightarrow> 'e option) \<Rightarrow> 'a list \<Rightarrow> 'e option" where
  "first_error f xs = first_match (\<lambda>x. map_option Some (f x)) xs None"

definition or_else :: "'e option \<Rightarrow> 'e option \<Rightarrow> 'e option" where
  "or_else a b = (case a of Some e \<Rightarrow> Some e | None \<Rightarrow> b)"

definition check_entry :: "string \<Rightarrow> compound_error option" where
  "check_entry e =
     (if e \<notin> {''gateway'', ''socks5'', ''http'', ''divert'', ''browser'', ''vpn''} then Some (BadEntry e) else None)"

definition check_source :: "string \<Rightarrow> compound_error option" where
  "check_source raw = (if ParsePrefix raw = None then Some (BadSource raw) else None)"

definition check_process :: "string \<Rightarrow> compound_error option" where
  "check_process p =
     (if TrimSpace p \<noteq> p \<or> p = [] \<or> ContainsAny p [CHR 0x00, CHR 0x0D, CHR 0x0A] then Some (BadProcess p)
      else if path_Match (to_slash p) [] = None then Some (BadProcess p) else None)"

definition check_target :: "string \<Rightarrow> compound_error option" where
  "check_target p =
     (if targetPrefix p \<noteq> None then None
      else if p = [] \<or>
              ContainsAny p [CHR '' '', CHR ''/'', backslash, CHR 0x09, CHR 0x0D, CHR 0x0A, CHR '','', CHR '';'', CHR 0x00] \<or>
              Trim p ''.'' = []
      then Some (BadTarget p)
      else if path_Match p [] = None then Some (BadTarget p)
      else if CHR '':'' \<in> set p \<and>
              (\<not> ContainsAny p ''*?['' \<or> \<not> list_all (\<lambda>c. c \<in> set ''0123456789abcdefABCDEF:.*?[]^-'') p)
      then Some (BadTarget p)
      else if list_all (\<lambda>c. is_digit c \<or> c = CHR ''.'') p then Some (BadTarget p)
      else None)"

fun check_port_parts :: "string \<Rightarrow> nat \<Rightarrow> string list \<Rightarrow> compound_error option" where
  "check_port_parts p previous [] = None"
| "check_port_parts p previous (part # parts) =
     (if \<not> list_all is_digit part then Some (BadPort p)
      else (case Atoi_digits part of
              None \<Rightarrow> Some (BadPort p)
            | Some n \<Rightarrow>
              if n < 1 \<or> n > 65535 \<or> n < previous then Some (BadPort p)
              else check_port_parts p n parts))"

definition check_port :: "string \<Rightarrow> compound_error option" where
  "check_port p =
     (if p = ''*'' then None
      else
        let parts = split_on CHR ''-'' p in
        if length parts > 2 then Some (BadPort p) else check_port_parts p 0 parts)"

definition check_protocol :: "string \<Rightarrow> compound_error option" where
  "check_protocol p =
     (if p \<noteq> ''*'' \<and> \<not> EqualFold p ''tcp'' \<and> \<not> EqualFold p ''udp'' then Some (BadProtocol p) else None)"

definition validateCompound :: "rule \<Rightarrow> compound_error option" where
  "validateCompound r =
     or_else (first_error check_entry (rl_Entries r))
       (or_else (first_error check_source (rl_SourceCIDRs r))
         (or_else (first_error check_process (rl_Processes r))
           (or_else (first_error check_target (rl_Targets r))
             (or_else (first_error check_port (rl_Ports r))
               (first_error check_protocol (rl_Protocols r))))))"

section \<open>A compiled rule and the rule as written\<close>

lemma first_error_None: "first_error f xs = None \<longleftrightarrow> (\<forall>x\<in>set xs. f x = None)"
  by (induction xs) (auto simp: first_error_def split: option.splits)

lemma or_else_None [simp]: "or_else a b = None \<longleftrightarrow> a = None \<and> b = None"
  by (simp add: or_else_def split: option.split)

lemma validateCompound_None:
  "validateCompound r = None \<longleftrightarrow>
     (\<forall>x\<in>set (rl_Entries r). check_entry x = None) \<and> (\<forall>x\<in>set (rl_SourceCIDRs r). check_source x = None) \<and>
     (\<forall>x\<in>set (rl_Processes r). check_process x = None) \<and> (\<forall>x\<in>set (rl_Targets r). check_target x = None) \<and>
     (\<forall>x\<in>set (rl_Ports r). check_port x = None) \<and> (\<forall>x\<in>set (rl_Protocols r). check_protocol x = None)"
  by (simp add: validateCompound_def first_error_None)

text \<open>A port entry as the interval of port numbers it names.\<close>

definition port_interval :: "string \<Rightarrow> (nat \<times> nat) option" where
  "port_interval p =
     (if p = ''*'' then Some (1, 65535)
      else (case map Atoi_digits (split_on CHR ''-'' p) of
              [Some a] \<Rightarrow> Some (a, a) | [Some a, Some b] \<Rightarrow> Some (a, b) | _ \<Rightarrow> None))"

lemma split_on_single: "split_on c s = [x] \<Longrightarrow> s = x \<and> c \<notin> set x"
  by (induction s arbitrary: x) (auto split: if_splits list.splits)

lemma split_on_pair: "split_on c s = [x, y] \<Longrightarrow> cut_at c s = Some (x, y)"
proof -
  have "split_on c s = x # ys \<Longrightarrow> ys \<noteq> [] \<Longrightarrow> \<exists>t. s = x @ c # t \<and> c \<notin> set x \<and> split_on c t = ys" for x ys
    by (induction s arbitrary: x) (auto split: if_splits list.splits)
  moreover assume "split_on c s = [x, y]"
  ultimately obtain t where "s = x @ c # t" "c \<notin> set x" "split_on c t = [y]" by blast
  with split_on_single [of c t y] show ?thesis by (simp add: cut_at_append)
qed

lemma ParseUint16_digits: "Atoi_digits s = Some n \<Longrightarrow> n \<le> 65535 \<Longrightarrow> unat (ParseUint16 s) = n"
  by (auto simp: Atoi_digits_def ParseUint16_def split: if_splits)

lemma check_port_single: "check_port_parts p k [x] = None \<Longrightarrow> \<exists>a. Atoi_digits x = Some a \<and> 1 \<le> a \<and> a \<le> 65535"
  by (auto split: if_splits option.splits)

lemma check_port_pair:
  "check_port_parts p k [x, y] = None \<Longrightarrow>
    \<exists>a b. Atoi_digits x = Some a \<and> Atoi_digits y = Some b \<and> 1 \<le> a \<and> a \<le> b \<and> b \<le> 65535"
  by (auto split: if_splits option.splits)

lemma unat_port_le: "unat (port :: u16) \<le> 65535"
  using unsigned_less [of port, where ?'a = nat] by simp

lemma port_entry_exact:
  fixes port :: u16
  assumes ok: "check_port p = None"
  shows "\<exists>a b. port_interval p = Some (a, b) \<and> 1 \<le> a \<and> a \<le> b \<and> b \<le> 65535 \<and>
    (let r = (if p = ''*'' then \<lparr>pr_start = 1, pr_end = 65535\<rparr> else parsePortRange p) in
     pr_start r \<le> port \<and> port \<le> max (pr_start r) (pr_end r) \<longleftrightarrow> a \<le> unat port \<and> unat port \<le> b)"
proof (cases "p = ''*''")
  case True
  with unat_port_le [of port] show ?thesis by (simp add: port_interval_def word_le_nat_alt max_def)
next
  case False
  let ?parts = "split_on CHR ''-'' p"
  have l: "length ?parts \<le> 2" and c: "check_port_parts p 0 ?parts = None"
    using ok False by (simp_all add: check_port_def Let_def split: if_splits)
  consider (one) x where "?parts = [x]" | (two) x y where "?parts = [x, y]"
    using l split_on_ne [of "CHR ''-''" p] by (cases ?parts; cases "tl ?parts") auto
  then show ?thesis
  proof cases
    case one
    then obtain a where a: "Atoi_digits x = Some a" "1 \<le> a" "a \<le> 65535" using c check_port_single by metis
    from split_on_single [OF one] have "p = x" "cut_at CHR ''-'' p = None" by (auto simp: cut_at_None)
    with a one False ParseUint16_digits [OF a(1,3)] show ?thesis
      by (intro exI [of _ a] exI [of _ a])
        (auto simp: port_interval_def parsePortRange_def word_le_nat_alt max_def)
  next
    case two
    then obtain a b where ab: "Atoi_digits x = Some a" "Atoi_digits y = Some b" "1 \<le> a" "a \<le> b" "b \<le> 65535"
      using c check_port_pair by metis
    have "unat (ParseUint16 x) = a" "unat (ParseUint16 y) = b" using ab ParseUint16_digits by simp_all
    with ab two False split_on_pair [OF two] show ?thesis
      by (intro exI [of _ a] exI [of _ b])
        (auto simp: port_interval_def parsePortRange_def word_le_nat_alt max_def)
  qed
qed

text \<open>What a rule covers, read off the rule as it was written.\<close>

definition source_covers :: "string \<Rightarrow> flow \<Rightarrow> bool" where
  "source_covers s f \<longleftrightarrow>
     (case (ParsePrefix s, ParseAddr (fl_SourceIP f)) of
        (Some p, Some a) \<Rightarrow> prefix_Contains (Masked p) (Unmap a) | _ \<Rightarrow> False)"

definition target_covers :: "string \<Rightarrow> flow \<Rightarrow> bool" where
  "target_covers t f \<longleftrightarrow>
     (let a = flow_addr f; a' = WithoutZone (Unmap a) in
      case targetPrefix t of
        Some p \<Rightarrow> a \<noteq> InvalidAddr \<and> prefix_Contains p a'
      | None \<Rightarrow>
        (ContainsAny t ''*?['' \<and> a \<noteq> InvalidAddr \<and> path_matches (ToLower t) (addr_String a')) \<or>
        host_pattern_matches (ToLower (TrimSuffix t ''.'')) (flow_host f))"

definition port_covers :: "string \<Rightarrow> flow \<Rightarrow> bool" where
  "port_covers p f \<longleftrightarrow>
     (case port_interval p of Some (a, b) \<Rightarrow> a \<le> unat (fl_Port f) \<and> unat (fl_Port f) \<le> b | None \<Rightarrow> False)"

definition any_of :: "'a list \<Rightarrow> ('a \<Rightarrow> bool) \<Rightarrow> bool" where
  "any_of xs P \<longleftrightarrow> xs = [] \<or> list_ex P xs"

definition rule_covers :: "rule \<Rightarrow> flow \<Rightarrow> bool" where
  "rule_covers r f \<longleftrightarrow>
     any_of (rl_Entries r) (\<lambda>e. e = normal_entry (fl_Entry f)) \<and>
     any_of (rl_SourceCIDRs r) (\<lambda>s. source_covers s f) \<and>
     any_of (rl_Processes r) (\<lambda>p. list_ex (matchProcess p) (fl_Process f # fl_ProcessAliases f)) \<and>
     any_of (rl_Protocols r) (\<lambda>p. p = ''*'' \<or> EqualFold p (fl_Protocol f)) \<and>
     any_of (rl_Ports r) (\<lambda>p. port_covers p f) \<and>
     any_of (rl_Targets r) (\<lambda>t. target_covers t f)"

lemma list_ex_cons: "list_ex P (x # xs) \<longleftrightarrow> P x \<or> list_ex P xs"
  by simp

lemma list_ex_concat: "list_ex P (concat xss) \<longleftrightarrow> list_ex (list_ex P) xss"
  by (induction xss) auto

lemma list_ex_map: "list_ex P (map f xs) \<longleftrightarrow> list_ex (\<lambda>x. P (f x)) xs"
  by (induction xs) auto

lemma list_ex_filter: "list_ex P (filter Q xs) \<longleftrightarrow> list_ex (\<lambda>x. Q x \<and> P x) xs"
  by (induction xs) auto

lemma source_condition:
  assumes "\<forall>s\<in>set (rl_SourceCIDRs r). check_source s = None"
  shows "source_matches (compileCompound r) f \<longleftrightarrow> any_of (rl_SourceCIDRs r) (\<lambda>s. source_covers s f)"
proof -
  have "compile_source s \<noteq> []" if "s \<in> set (rl_SourceCIDRs r)" for s
    using assms that by (auto simp: check_source_def compile_source_def split: if_splits)
  then have emp: "cr_sources (compileCompound r) = [] \<longleftrightarrow> rl_SourceCIDRs r = []"
    by (cases "rl_SourceCIDRs r") (auto simp: compileCompound_def)
  have ex: "list_ex (\<lambda>p. prefix_Contains p (Unmap a)) (concat (map compile_source ss)) \<longleftrightarrow>
      list_ex (\<lambda>s. source_covers s f) ss" if "ParseAddr (fl_SourceIP f) = Some a" for a ss
    using that by (induction ss) (auto simp: compile_source_def source_covers_def split: option.splits)
  have none: "\<not> list_ex (\<lambda>s. source_covers s f) ss" if "ParseAddr (fl_SourceIP f) = None" for ss
    using that by (induction ss) (auto simp: source_covers_def split: option.splits)
  show ?thesis
  proof (cases "ParseAddr (fl_SourceIP f)")
    case None
    then show ?thesis by (simp add: source_matches_def emp any_of_def none)
  next
    case (Some a)
    then show ?thesis
      by (simp add: source_matches_def emp any_of_def ex [OF Some, symmetric]) (simp add: compileCompound_def)
  qed
qed

lemma target_condition:
  assumes "rl_Targets r \<noteq> []"
  shows "address_matches (compileCompound r) (flow_addr f) \<or>
      list_ex (\<lambda>p. host_pattern_matches p (flow_host f)) (cr_hosts (compileCompound r)) \<longleftrightarrow>
    any_of (rl_Targets r) (\<lambda>t. target_covers t f)"
proof -
  let ?a = "flow_addr f" and ?b = "WithoutZone (Unmap (flow_addr f))"
  have nets: "list_ex P (concat (map (\<lambda>t. case targetPrefix t of Some p \<Rightarrow> [p] | None \<Rightarrow> []) ts)) \<longleftrightarrow>
      list_ex (\<lambda>t. case targetPrefix t of Some p \<Rightarrow> P p | None \<Rightarrow> False) ts" for P ts
    by (induction ts) (auto split: option.split)
  have pw: "target_covers t f \<longleftrightarrow>
      ?a \<noteq> InvalidAddr \<and> (case targetPrefix t of Some p \<Rightarrow> prefix_Contains p ?b | None \<Rightarrow> False) \<or>
      ?a \<noteq> InvalidAddr \<and> (targetPrefix t = None \<and> ContainsAny t ''*?['') \<and> path_matches (ToLower t) (addr_String ?b) \<or>
      targetPrefix t = None \<and> host_pattern_matches (ToLower (TrimSuffix t ''.'')) (flow_host f)" for t
    by (auto simp: target_covers_def Let_def split: option.splits)
  have "list_ex (\<lambda>t. target_covers t f) ts \<longleftrightarrow>
      ?a \<noteq> InvalidAddr \<and> list_ex (\<lambda>t. case targetPrefix t of Some p \<Rightarrow> prefix_Contains p ?b | None \<Rightarrow> False) ts \<or>
      ?a \<noteq> InvalidAddr \<and>
        list_ex (\<lambda>t. (targetPrefix t = None \<and> ContainsAny t ''*?['') \<and> path_matches (ToLower t) (addr_String ?b)) ts \<or>
      list_ex (\<lambda>t. targetPrefix t = None \<and> host_pattern_matches (ToLower (TrimSuffix t ''.'')) (flow_host f)) ts" for ts
    by (induction ts) (simp, simp only: list_ex_cons pw, blast)
  then show ?thesis using assms
    by (auto simp: any_of_def address_matches_def compileCompound_def nets list_ex_map list_ex_filter Let_def)
qed

lemma port_condition:
  assumes "\<forall>p\<in>set (rl_Ports r). check_port p = None"
  shows "port_matches (compileCompound r) f \<longleftrightarrow> any_of (rl_Ports r) (\<lambda>p. port_covers p f)"
proof -
  have "list_ex (\<lambda>p. pr_start p \<le> fl_Port f \<and> fl_Port f \<le> max (pr_start p) (pr_end p))
      (map (\<lambda>p. if p = ''*'' then \<lparr>pr_start = 1, pr_end = 65535\<rparr> else parsePortRange p) ps) \<longleftrightarrow>
    list_ex (\<lambda>p. port_covers p f) ps" if "\<forall>p\<in>set ps. check_port p = None" for ps
    using that
  proof (induction ps)
    case (Cons p ps)
    then have "check_port p = None" by simp
    from port_entry_exact [OF this, of "fl_Port f"] Cons show ?case
      by (auto simp: port_covers_def Let_def)
  qed simp
  from this [OF assms] show ?thesis by (simp add: port_matches_def compileCompound_def any_of_def)
qed

lemma compiled_rule_covers:
  assumes "validateCompound r = None"
  shows "rule_matches (compileCompound r) r f = rule_covers r f"
proof -
  note ok = assms [unfolded validateCompound_None]
  have e: "entry_matches r f \<longleftrightarrow> any_of (rl_Entries r) (\<lambda>e. e = normal_entry (fl_Entry f))"
    by (auto simp: entry_matches_def any_of_def list_ex_iff)
  have p: "process_matches r f \<longleftrightarrow>
      any_of (rl_Processes r) (\<lambda>p. list_ex (matchProcess p) (fl_Process f # fl_ProcessAliases f))"
    by (simp add: process_matches_def any_of_def)
  have pr: "protocol_matches r f \<longleftrightarrow> any_of (rl_Protocols r) (\<lambda>p. p = ''*'' \<or> EqualFold p (fl_Protocol f))"
    by (simp add: protocol_matches_def any_of_def)
  have s: "source_matches (compileCompound r) f \<longleftrightarrow> any_of (rl_SourceCIDRs r) (\<lambda>s. source_covers s f)"
    using ok by (intro source_condition) blast
  have po: "port_matches (compileCompound r) f \<longleftrightarrow> any_of (rl_Ports r) (\<lambda>p. port_covers p f)"
    using ok by (intro port_condition) blast
  show ?thesis
  proof (cases "rl_Targets r = []")
    case True
    then show ?thesis by (auto simp: rule_matches_def rule_covers_def e p pr s po any_of_def [of "[]"])
  next
    case False
    from target_condition [OF False, of f] False show ?thesis
      by (auto simp: rule_matches_def rule_covers_def e p pr s po)
  qed
qed

text \<open>C26. For a rule that validates, matching the compiled rule against a flow is the same as the conditions
  of the rule as it was written: every condition that is present must be met by one of its entries,
  ports as intervals of numbers, so no malformed entry turns a condition into a catch-all.\<close>

theorem compiled_rule_correct:
  assumes "validateCompound r = None"
  shows "rule_matches (compileCompound r) r f = rule_covers r f"
  using assms by (rule compiled_rule_covers)

lemma compiled_rule_correct_witness:
  "let r = \<lparr>rl_Entries = [''socks5''], rl_SourceCIDRs = [''10.0.0.0/8''], rl_Name = ''r'', rl_Enabled = True,
            rl_Action = ''PROXY'', rl_ExitID = '''', rl_DatagramRequired = False, rl_HandleDirect = False,
            rl_Processes = [], rl_Targets = [''*.example.org'', ''192.0.2.0/24''], rl_Ports = [''80-443''],
            rl_Protocols = [''TCP'']\<rparr>
   in validateCompound r = None \<and> (\<forall>f. rule_matches (compileCompound r) r f = rule_covers r f)"
proof -
  let ?r = "\<lparr>rl_Entries = [''socks5''], rl_SourceCIDRs = [''10.0.0.0/8''], rl_Name = ''r'', rl_Enabled = True,
            rl_Action = ''PROXY'', rl_ExitID = '''', rl_DatagramRequired = False, rl_HandleDirect = False,
            rl_Processes = [], rl_Targets = [''*.example.org'', ''192.0.2.0/24''], rl_Ports = [''80-443''],
            rl_Protocols = [''TCP'']\<rparr>"
  have "check_target ''*.example.org'' = None" "check_target ''192.0.2.0/24'' = None"
    by (simp_all add: check_target_def targetPrefix_def ParsePrefix_def ip_eval ContainsAny_def Trim_def
        path_Match_def prefix_bits_def)
  moreover have "check_source ''10.0.0.0/8'' = None"
    by (simp add: check_source_def ParsePrefix_def ip_eval prefix_bits_def)
  moreover have "check_port ''80-443'' = None"
    by (simp add: check_port_def Atoi_digits_def is_digit_def code_def)
  moreover have "check_entry ''socks5'' = None" "check_protocol ''TCP'' = None"
    by (simp_all add: check_entry_def check_protocol_def EqualFold_def lower_char_def is_upper_def code_def
        char_of_eq_iff take_bit_eq_mod)
  ultimately have ok: "validateCompound ?r = None" by (simp add: validateCompound_None)
  from compiled_rule_correct [OF ok] ok show ?thesis by (simp add: Let_def)
qed

end
