(* ===== verification/Routing_Config.thy ===== *)
theory Routing_Config
  imports Routing_Rules
begin

text \<open>
  The configuration of the routing engine and its validation: \<open>agent/routing/custom_exit.go\<close>,
  \<open>dns_upstream.go\<close>, \<open>validate.go\<close> and the URL check of \<open>subscription.go\<close>. Every error of the
  code is a constructor that keeps the index of the offending entry. \<open>net/url.Parse\<close> is the parameter
  \<open>url_parse\<close>; the accessors of the parsed URL are modelled.
\<close>

section \<open>Library functions on addresses and numbers\<close>

fun last_index :: "char \<Rightarrow> string \<Rightarrow> nat option" where
  "last_index c [] = None"
| "last_index c (x # xs) =
     (case last_index c xs of Some i \<Rightarrow> Some (Suc i) | None \<Rightarrow> if x = c then Some 0 else None)"

fun first_index :: "char \<Rightarrow> string \<Rightarrow> nat option" where
  "first_index c [] = None"
| "first_index c (x # xs) = (if x = c then Some 0 else map_option Suc (first_index c xs))"

text \<open>\<open>net.SplitHostPort\<close>.\<close>

definition split_bracketed :: "string \<Rightarrow> nat \<Rightarrow> (string \<times> nat \<times> nat) option" where
  "split_bracketed s i =
     (case first_index CHR '']'' s of
        None \<Rightarrow> None
      | Some e \<Rightarrow> if e + 1 = i then Some (take (e - 1) (drop 1 s), 1, e + 1) else None)"

definition SplitHostPort :: "string \<Rightarrow> (string \<times> string) option" where
  "SplitHostPort s =
     (case last_index CHR '':'' s of
        None \<Rightarrow> None
      | Some i \<Rightarrow>
        (case (if HasPrefix s ''['' then split_bracketed s i
               else if CHR '':'' \<in> set (take i s) then None else Some (take i s, 0, 0)) of
           None \<Rightarrow> None
         | Some (host, j, k) \<Rightarrow>
           if CHR ''['' \<in> set (drop j s) \<or> CHR '']'' \<in> set (drop k s) then None
           else Some (host, drop (i + 1) s)))"

text \<open>\<open>strconv.Atoi\<close>, with 64-bit \<open>int\<close>.\<close>

definition Atoi :: "string \<Rightarrow> int option" where
  "Atoi s =
     (let neg = HasPrefix s ''-''; body = (if neg \<or> HasPrefix s ''+'' then drop 1 s else s) in
      case Atoi_digits body of
        None \<Rightarrow> None
      | Some n \<Rightarrow>
        let v = (if neg then - int n else int n) in
        if - (2 ^ 63) \<le> v \<and> v < 2 ^ 63 then Some v else None)"

text \<open>A parsed URL, with \<open>Hostname\<close> and \<open>Port\<close> computed from its host.\<close>

record url =
  ur_Scheme :: string
  ur_Host :: string
  ur_User :: bool
  ur_Path :: string
  ur_RawQuery :: string
  ur_Fragment :: string
  ur_Opaque :: string

definition url_split :: "string \<Rightarrow> string \<times> string" where
  "url_split hp =
     (let (host, port) =
        (case last_index CHR '':'' hp of
           Some i \<Rightarrow> if list_all is_digit (drop (i + 1) hp) then (take i hp, drop (i + 1) hp) else (hp, [])
         | None \<Rightarrow> (hp, []))
      in (if HasPrefix host ''['' \<and> HasSuffix host '']'' then butlast (tl host) else host, port))"

definition Hostname :: "url \<Rightarrow> string" where "Hostname u = fst (url_split (ur_Host u))"
definition url_Port :: "url \<Rightarrow> string" where "url_Port u = snd (url_split (ur_Host u))"

section \<open>Custom exits\<close>

record custom_exit =
  ce_ID :: string
  ce_Name :: string
  ce_Enabled :: bool
  ce_Protocol :: string
  ce_Address :: string
  ce_Username :: string
  ce_Password :: string
  ce_HasPassword :: bool

datatype exit_error =
  BadExitID nat | DuplicateExit string | BadExitName nat | BadExitProtocol nat string
  | BadExitAddress nat | BadExitPort nat | LongCredentials nat
  | SharedNotLocal | MissingExit string string | DisabledExit string string

definition IsCustomExitID :: "string \<Rightarrow> bool" where "IsCustomExitID i \<longleftrightarrow> HasPrefix i ''local:''"

definition blank_or_slash :: string where
  "blank_or_slash = [CHR '' '', CHR 0x09, CHR 0x0D, CHR 0x0A, CHR ''/'', backslash]"

definition check_exit :: "string list \<Rightarrow> nat \<Rightarrow> custom_exit \<Rightarrow> exit_error option" where
  "check_exit seen i x =
     (if \<not> IsCustomExitID (ce_ID x) \<or> length (ce_ID x) \<le> length ''local:'' \<or> length (ce_ID x) > 128 \<or>
         ContainsAny (ce_ID x) blank_or_slash
      then Some (BadExitID i)
      else if ce_ID x \<in> set seen then Some (DuplicateExit (ce_ID x))
      else if TrimSpace (ce_Name x) = [] \<or> length (ce_Name x) > 128 then Some (BadExitName i)
      else if ce_Protocol x \<notin> {''socks5'', ''http'', ''https''} then Some (BadExitProtocol i (ce_Protocol x))
      else (case SplitHostPort (ce_Address x) of
              None \<Rightarrow> Some (BadExitAddress i)
            | Some (host, port) \<Rightarrow>
              if host = [] then Some (BadExitAddress i)
              else (case Atoi port of
                      None \<Rightarrow> Some (BadExitPort i)
                    | Some p \<Rightarrow>
                      if p < 1 \<or> p > 65535 then Some (BadExitPort i)
                      else if length (ce_Username x) > 255 \<or> length (ce_Password x) > 255
                      then Some (LongCredentials i)
                      else None)))"

fun check_exits :: "string list \<Rightarrow> nat \<Rightarrow> custom_exit list \<Rightarrow> exit_error option" where
  "check_exits seen i [] = None"
| "check_exits seen i (x # xs) =
     (case check_exit seen i x of Some e \<Rightarrow> Some e | None \<Rightarrow> check_exits (ce_ID x # seen) (i + 1) xs)"

definition ValidateCustomExits :: "custom_exit list \<Rightarrow> exit_error option" where
  "ValidateCustomExits exits = check_exits [] 0 exits"

definition CloneCustomExits :: "custom_exit list \<Rightarrow> custom_exit list" where
  "CloneCustomExits items = items"

definition FindCustomExit :: "custom_exit list \<Rightarrow> string \<Rightarrow> custom_exit option" where
  "FindCustomExit items i = find (\<lambda>x. ce_ID x = i) items"

text \<open>The map \<open>used\<close> as an association list in the order of insertion, a later source replacing an
  earlier one. Go ranges over it in an unspecified order, so with several bad references it is
  unspecified which of them is reported.\<close>

fun put_used :: "string \<Rightarrow> string \<Rightarrow> (string \<times> string) list \<Rightarrow> (string \<times> string) list" where
  "put_used i src [] = [(i, src)]"
| "put_used i src ((j, t) # rest) = (if i = j then (i, src) # rest else (j, t) # put_used i src rest)"

fun used_rules :: "nat \<Rightarrow> rule list \<Rightarrow> (string \<times> string) list \<Rightarrow> (string \<times> string) list" where
  "used_rules i [] used = used"
| "used_rules i (r # rs) used =
     used_rules (i + 1) rs
       (if rl_Action r = ActionProxy \<and> IsCustomExitID (rl_ExitID r)
        then put_used (rl_ExitID r) (''routing.rules['' @ Itoa i @ '']'') used else used)"

definition used_dns :: "string list \<Rightarrow> (string \<times> string) list \<Rightarrow> (string \<times> string) list" where
  "used_dns ids used =
     fold (\<lambda>i u. if IsCustomExitID i then put_used i ''routing.dns_exit_id'' u else u) ids used"

definition check_used :: "custom_exit list \<Rightarrow> string \<times> string \<Rightarrow> exit_error option" where
  "check_used items p =
     (case FindCustomExit items (fst p) of
        None \<Rightarrow> Some (MissingExit (snd p) (fst p))
      | Some x \<Rightarrow> if ce_Enabled x then None else Some (DisabledExit (snd p) (fst p)))"

definition ValidateCustomReferences ::
  "custom_exit list \<Rightarrow> string \<Rightarrow> string \<Rightarrow> rule list \<Rightarrow> string list \<Rightarrow> exit_error option" where
  "ValidateCustomReferences items defaultID sharedID rules dnsExitIDs =
     (let used = (if IsCustomExitID defaultID then [(defaultID, ''proxy.default_exit_id'')] else []);
          used = used_rules 0 rules used in
      if sharedID \<noteq> [] \<and> \<not> IsID sharedID \<and> \<not> IsCustomExitID sharedID then Some SharedNotLocal
      else
        let used = (if sharedID \<noteq> [] \<and> \<not> IsID sharedID
                    then put_used sharedID ''exit.upstream_exit_id'' used else used);
            used = used_dns dnsExitIDs used
        in first_error (check_used items) used)"

section \<open>Upstream resolvers and subscriptions\<close>

record dns_upstream =
  du_URL :: string
  du_BootstrapIP :: string

record subscription =
  sb_Name :: string
  sb_URL :: string
  sb_Enabled :: bool
  sb_Action :: string
  sb_ExitID :: string
  sb_FetchViaProxy :: bool

datatype upstream_error =
  TooManyUpstreams | BadUpstreamText nat | BadUpstreamURL nat | BareIPUpstream nat
  | BadUpstreamHost nat | BadUpstreamLabel nat | NonASCIIHost nat | BadBootstrap nat

fun indexed_error :: "(nat \<Rightarrow> 'a \<Rightarrow> 'e option) \<Rightarrow> nat \<Rightarrow> 'a list \<Rightarrow> 'e option" where
  "indexed_error f i [] = None"
| "indexed_error f i (x # xs) = or_else (f i x) (indexed_error f (i + 1) xs)"

definition check_label :: "nat \<Rightarrow> string \<Rightarrow> upstream_error option" where
  "check_label i l =
     (if length l = 0 \<or> length l > 63 \<or> hd l = CHR ''-'' \<or> last l = CHR ''-'' then Some (BadUpstreamLabel i)
      else if \<not> list_all label_char l then Some (NonASCIIHost i) else None)"

definition good_upstream_url :: "url \<Rightarrow> bool" where
  "good_upstream_url u \<longleftrightarrow>
     \<not> (ur_Scheme u \<noteq> ''https'' \<or> ur_Host u = [] \<or> Hostname u = [] \<or>
        (url_Port u \<noteq> [] \<and> url_Port u \<noteq> ''443'') \<or> ur_User u \<or> ur_RawQuery u \<noteq> [] \<or>
        ur_Fragment u \<noteq> [] \<or> ur_Opaque u \<noteq> [] \<or> ur_Path u = [])"

definition good_bootstrap :: "string \<Rightarrow> bool" where
  "good_bootstrap s =
     (case ParseAddr s of
        None \<Rightarrow> False
      | Some a \<Rightarrow>
        \<not> (a = InvalidAddr \<or> \<not> IsGlobalUnicast a \<or> IsLoopback a \<or> IsLinkLocalUnicast a \<or>
           IsUnspecified a \<or> IsMulticast a \<or> Is4In6 a \<or> TrimSpace s \<noteq> s))"

definition check_upstream :: "(string \<Rightarrow> url option) \<Rightarrow> nat \<Rightarrow> dns_upstream \<Rightarrow> upstream_error option" where
  "check_upstream url_parse i d =
     (if TrimSpace (du_URL d) \<noteq> du_URL d \<or> length (du_URL d) > 512 then Some (BadUpstreamText i)
      else (case url_parse (du_URL d) of
              None \<Rightarrow> Some (BadUpstreamURL i)
            | Some u \<Rightarrow>
              if \<not> good_upstream_url u then Some (BadUpstreamURL i)
              else
                let host = Hostname u in
                if ParseAddr host \<noteq> None then Some (BareIPUpstream i)
                else if length host > 253 \<or> CHR ''.'' \<notin> set host \<or> ContainsAny host blank_or_slash
                then Some (BadUpstreamHost i)
                else or_else (first_error (check_label i) (split_on CHR ''.'' host))
                       (if good_bootstrap (du_BootstrapIP d) then None else Some (BadBootstrap i))))"

definition ValidateDNSUpstreams :: "(string \<Rightarrow> url option) \<Rightarrow> dns_upstream list \<Rightarrow> upstream_error option" where
  "ValidateDNSUpstreams url_parse upstreams =
     (if length upstreams > 8 then Some TooManyUpstreams
      else indexed_error (check_upstream url_parse) 0 upstreams)"

datatype url_error = BadURLText | BadURL | BadURLPort | LocalHost | IPHost

definition subscriptionLimit :: nat where "subscriptionLimit = 32"
definition subscriptionMaxBytes :: nat where "subscriptionMaxBytes = 8388608"

definition validateSubscriptionURL :: "(string \<Rightarrow> url option) \<Rightarrow> string \<Rightarrow> url_error option" where
  "validateSubscriptionURL url_parse raw =
     (if length raw > 2048 \<or> TrimSpace raw \<noteq> raw then Some BadURLText
      else (case url_parse raw of
              None \<Rightarrow> Some BadURL
            | Some u \<Rightarrow>
              if ur_Scheme u \<noteq> ''https'' \<or> Hostname u = [] \<or> ur_User u \<or> ur_Fragment u \<noteq> [] then Some BadURL
              else if url_Port u \<noteq> [] \<and> url_Port u \<noteq> ''443'' then Some BadURLPort
              else
                let host = ToLower (TrimSuffix (Hostname u) ''.'') in
                if host = ''localhost'' \<or> HasSuffix host ''.localhost'' \<or> HasSuffix host ''.local'' \<or>
                   CHR ''.'' \<notin> set host
                then Some LocalHost
                else if ParseAddr host \<noteq> None then Some IPHost else None))"

definition check_subscription_exit :: "custom_exit list \<Rightarrow> nat \<Rightarrow> subscription \<Rightarrow> (nat \<times> string) option" where
  "check_subscription_exit exits i s =
     (if sb_Action s \<noteq> [] \<and> sb_Action s \<noteq> ActionProxy then None
      else if \<not> IsCustomExitID (sb_ExitID s) then None
      else (case FindCustomExit exits (sb_ExitID s) of
              None \<Rightarrow> Some (i, sb_ExitID s)
            | Some x \<Rightarrow> if \<not> ce_Enabled x then Some (i, sb_ExitID s) else None))"

definition ValidateSubscriptionExitReferences ::
  "custom_exit list \<Rightarrow> subscription list \<Rightarrow> (nat \<times> string) option" where
  "ValidateSubscriptionExitReferences exits ss = indexed_error (check_subscription_exit exits) 0 ss"

section \<open>The configuration\<close>

record config =
  cf_DeviceGroups :: "group list"
  cf_Subscriptions :: "subscription list"
  cf_Mode :: string
  cf_DNSMode :: string
  cf_AutoDetectDNS :: bool
  cf_DNSAssociationEnabled :: "bool option"
  cf_ProxyDNSEnabled :: bool
  cf_FakeIPEnabled :: bool
  cf_BlockDoHEndpoints :: bool
  cf_ForwardOtherDNS :: bool
  cf_DNSUpstreams :: "dns_upstream list"
  cf_DNSExitID :: string
  cf_DNSDirectDomains :: "string list"
  cf_DNSRules :: "dns_rule list"
  cf_DoHBlockedIPs :: "string list"
  cf_DefaultAction :: string
  cf_Rules :: "rule list"

definition default_rule :: rule where
  "default_rule =
     \<lparr>rl_Entries = [], rl_SourceCIDRs = [],
      rl_Name = map char_of [0xE6::nat, 0x9C, 0xAC, 0xE6, 0x9C, 0xBA, 0xE4, 0xB8, 0x8E, 0xE5, 0xB1, 0x80, 0xE5, 0x9F, 0x9F, 0xE7, 0xBD, 0x91],
      rl_Enabled = True, rl_Action = ActionDirect, rl_ExitID = [], rl_DatagramRequired = False,
      rl_HandleDirect = False, rl_Processes = [],
      rl_Targets = [''localhost'', ''10.0.0.0/8'', ''172.16.0.0/12'', ''192.168.0.0/16'', ''169.254.0.0/16'',
        ''127.0.0.0/8'', ''::1'', ''fc00::/7'', ''fe80::/10''],
      rl_Ports = [], rl_Protocols = []\<rparr>"

definition DefaultConfig :: config where
  "DefaultConfig =
     \<lparr>cf_DeviceGroups = [], cf_Subscriptions = [], cf_Mode = ModeGlobalProxy, cf_DNSMode = DNSModeProxy,
      cf_AutoDetectDNS = False, cf_DNSAssociationEnabled = None, cf_ProxyDNSEnabled = False,
      cf_FakeIPEnabled = False, cf_BlockDoHEndpoints = False, cf_ForwardOtherDNS = False, cf_DNSUpstreams = [],
      cf_DNSExitID = [], cf_DNSDirectDomains = [], cf_DNSRules = [], cf_DoHBlockedIPs = [],
      cf_DefaultAction = ActionProxy, cf_Rules = [default_rule]\<rparr>"

text \<open>\<open>CloneConfig\<close> copies every list of the configuration; on values it is the identity.\<close>

definition CloneConfig :: "config \<Rightarrow> config" where
  "CloneConfig c = c\<lparr>cf_DeviceGroups := Clone (cf_DeviceGroups c)\<rparr>"

datatype config_error =
  GroupFault group_error | BadMode string | BadDNSMode string | ProxyDNSNeedsManual | ProxyDNSWithFakeIP
  | AutoDetectWithFakeIP | FakeIPNeedsProxyDNS | BlockDoHNeedsFakeIP | ForwardNeedsFakeIP | BadDNSExitID
  | UpstreamFault upstream_error | TooManyDNSRules | BadDNSAction nat | BadResolver nat | ResolverNeedsDevice nat
  | BadDomainCount nat | BadDNSRuleExit nat | BadDNSDomain nat nat | TooManyDirectDomains | BadDirectDomain nat
  | TooManyBlockedIPs | BlockedIPText nat | BlockedIPNotPublic nat | BadBlockedIP nat | BlockedIPTooBroad nat
  | BadDefaultAction string | TooManySubscriptions | SubscriptionURL nat url_error | DuplicateURL nat
  | BadSubscriptionName nat | BadSubscriptionAction nat string | BadSubscriptionExit nat
  | BadRuleAction nat string | HandleDirectAction nat | HandleDirectDatagram nat | CompoundFault nat compound_error

definition validAction :: "string \<Rightarrow> bool" where
  "validAction a \<longleftrightarrow> a = ActionProxy \<or> a = ActionDirect \<or> a = ActionReject"

definition bad_exit_text :: "string \<Rightarrow> bool" where
  "bad_exit_text i \<longleftrightarrow> TrimSpace i \<noteq> i \<or> ContainsAny i blank_or_slash \<or> length i > 128"

definition references :: "config \<Rightarrow> string list" where
  "references c =
     cf_DNSExitID c # DNSRuleExitIDs (cf_DNSRules c) @ map rl_ExitID (cf_Rules c) @ map sb_ExitID (cf_Subscriptions c)"

definition check_modes :: "config \<Rightarrow> config_error option" where
  "check_modes c =
     (if cf_Mode c \<notin> {[], ModeRule, ModeGlobalProxy, ModeDirect} then Some (BadMode (cf_Mode c))
      else if cf_DNSMode c \<noteq> [] \<and> cf_DNSMode c \<noteq> DNSModeLocal \<and> cf_DNSMode c \<noteq> DNSModeProxy
      then Some (BadDNSMode (cf_DNSMode c))
      else if cf_ProxyDNSEnabled c \<and> (cf_DNSMode c = DNSModeLocal \<or> cf_AutoDetectDNS c) then Some ProxyDNSNeedsManual
      else if cf_ProxyDNSEnabled c \<and> cf_FakeIPEnabled c then Some ProxyDNSWithFakeIP
      else if cf_AutoDetectDNS c \<and> cf_FakeIPEnabled c then Some AutoDetectWithFakeIP
      else if cf_FakeIPEnabled c \<and> cf_DNSMode c = DNSModeLocal then Some FakeIPNeedsProxyDNS
      else if cf_BlockDoHEndpoints c \<and> \<not> cf_FakeIPEnabled c then Some BlockDoHNeedsFakeIP
      else if cf_ForwardOtherDNS c \<and> \<not> cf_FakeIPEnabled c then Some ForwardNeedsFakeIP
      else if cf_DNSExitID c \<noteq> [] \<and> bad_exit_text (cf_DNSExitID c) then Some BadDNSExitID
      else None)"

definition check_dns_rule :: "nat \<Rightarrow> dns_rule \<Rightarrow> config_error option" where
  "check_dns_rule i r =
     (if dr_Action r \<noteq> DNSActionLocal \<and> dr_Action r \<noteq> DNSActionRemote then Some (BadDNSAction i)
      else if dr_Resolver r \<noteq> [] \<and> dr_Resolver r \<noteq> ''encrypted'' \<and> dr_Resolver r \<noteq> ''exit_system''
      then Some (BadResolver i)
      else if dr_Resolver r = ''exit_system'' \<and> (dr_Action r \<noteq> DNSActionRemote \<or> HasPrefix (dr_ExitID r) ''local:'')
      then Some (ResolverNeedsDevice i)
      else if length (dr_Domains r) = 0 \<or> length (dr_Domains r) > 64 then Some (BadDomainCount i)
      else if dr_ExitID r \<noteq> [] \<and> (dr_Action r \<noteq> DNSActionRemote \<or> bad_exit_text (dr_ExitID r))
      then Some (BadDNSRuleExit i)
      else indexed_error (\<lambda>j d. if validDNSRuleDomain d then None else Some (BadDNSDomain i j)) 0 (dr_Domains r))"

definition check_blocked_ip :: "nat \<Rightarrow> string \<Rightarrow> config_error option" where
  "check_blocked_ip i value =
     (let raw = TrimSpace value;
          broad = (\<lambda>p. if (case px_addr p of Addr4 _ \<Rightarrow> px_bits p < 24 | Addr6 _ _ \<Rightarrow> px_bits p < 48 | _ \<Rightarrow> False)
                       then Some (BlockedIPTooBroad i) else None) in
      if raw = [] \<or> raw \<noteq> value then Some (BlockedIPText i)
      else (case ParseAddr raw of
              Some a \<Rightarrow>
                if Zone a \<noteq> [] \<or> \<not> IsGlobalUnicast a \<or> IsPrivate a then Some (BlockedIPNotPublic i)
                else broad \<lparr>px_addr = Unmap a, px_bits = BitLen (Unmap a)\<rparr>
            | None \<Rightarrow>
              (case ParsePrefix raw of
                 None \<Rightarrow> Some (BadBlockedIP i)
               | Some p \<Rightarrow>
                 if Zone (px_addr p) \<noteq> [] \<or> \<not> IsGlobalUnicast (px_addr p) \<or> IsPrivate (px_addr p)
                 then Some (BadBlockedIP i)
                 else broad (Masked p))))"

definition check_subscription :: "(string \<Rightarrow> url option) \<Rightarrow> string list \<Rightarrow> nat \<Rightarrow> subscription \<Rightarrow> config_error option" where
  "check_subscription url_parse seen i s =
     (case validateSubscriptionURL url_parse (sb_URL s) of
        Some e \<Rightarrow> Some (SubscriptionURL i e)
      | None \<Rightarrow>
        if sb_URL s \<in> set seen then Some (DuplicateURL i)
        else if length (sb_Name s) > 128 \<or> TrimSpace (sb_Name s) = [] then Some (BadSubscriptionName i)
        else if sb_Action s \<noteq> [] \<and> \<not> validAction (sb_Action s) then Some (BadSubscriptionAction i (sb_Action s))
        else if sb_ExitID s \<noteq> [] \<and> (sb_Action s \<noteq> [] \<and> sb_Action s \<noteq> ActionProxy \<or> bad_exit_text (sb_ExitID s))
        then Some (BadSubscriptionExit i) else None)"

fun check_subscriptions ::
  "(string \<Rightarrow> url option) \<Rightarrow> string list \<Rightarrow> nat \<Rightarrow> subscription list \<Rightarrow> config_error option" where
  "check_subscriptions url_parse seen i [] = None"
| "check_subscriptions url_parse seen i (s # ss) =
     or_else (check_subscription url_parse seen i s) (check_subscriptions url_parse (sb_URL s # seen) (i + 1) ss)"

definition check_rule :: "nat \<Rightarrow> rule \<Rightarrow> config_error option" where
  "check_rule i r =
     (if \<not> validAction (rl_Action r) then Some (BadRuleAction i (rl_Action r))
      else if rl_HandleDirect r \<and> rl_Action r \<noteq> ActionDirect then Some (HandleDirectAction i)
      else if rl_HandleDirect r \<and> rl_DatagramRequired r then Some (HandleDirectDatagram i)
      else map_option (CompoundFault i) (validateCompound r))"

definition ValidateConfig :: "(string \<Rightarrow> url option) \<Rightarrow> config \<Rightarrow> config_error option" where
  "ValidateConfig url_parse c =
     or_else (map_option GroupFault (Validate (cf_DeviceGroups c) (references c)))
    (or_else (check_modes c)
    (or_else (map_option UpstreamFault (ValidateDNSUpstreams url_parse (cf_DNSUpstreams c)))
    (or_else (if length (cf_DNSRules c) > 128 then Some TooManyDNSRules
              else indexed_error check_dns_rule 0 (cf_DNSRules c))
    (or_else (if length (cf_DNSDirectDomains c) > 64 then Some TooManyDirectDomains
              else indexed_error (\<lambda>i d. if validDNSDirectDomain d then None else Some (BadDirectDomain i)) 0
                     (cf_DNSDirectDomains c))
    (or_else (if length (cf_DoHBlockedIPs c) > 256 then Some TooManyBlockedIPs
              else indexed_error check_blocked_ip 0 (cf_DoHBlockedIPs c))
    (or_else (if cf_DefaultAction c \<noteq> [] \<and> \<not> validAction (cf_DefaultAction c)
              then Some (BadDefaultAction (cf_DefaultAction c)) else None)
    (or_else (if length (cf_Subscriptions c) > subscriptionLimit then Some TooManySubscriptions
              else check_subscriptions url_parse [] 0 (cf_Subscriptions c))
             (indexed_error check_rule 0 (cf_Rules c)))))))))"

end
