(* ===== verification/Routing_Subscription.thy ===== *)
theory Routing_Subscription
  imports Routing_Config
begin

text \<open>
  \<open>agent/routing/subscription.go\<close>, the lists themselves: which addresses may be contacted, how a
  downloaded list is parsed into selectors and exceptions, and the compiled matcher. The contents of
  HTTP responses and of the cache file are inputs.
\<close>

section \<open>Download destinations\<close>

definition MustParsePrefix :: "string \<Rightarrow> ip_prefix list" where
  "MustParsePrefix s = (case ParsePrefix s of Some p \<Rightarrow> [p] | None \<Rightarrow> [])"

definition subscriptionSpecialUse :: "ip_prefix list" where
  "subscriptionSpecialUse =
     concat (map MustParsePrefix
       [''100.64.0.0/10'', ''192.0.0.0/24'', ''192.0.2.0/24'', ''198.18.0.0/15'', ''198.51.100.0/24'',
        ''203.0.113.0/24'', ''2001:db8::/32''])"

definition validSubscriptionAddress :: "addr \<Rightarrow> bool" where
  "validSubscriptionAddress a0 =
     (let a = Unmap a0 in
      if a = InvalidAddr \<or> \<not> IsGlobalUnicast a \<or> IsPrivate a \<or> IsLoopback a \<or> IsLinkLocalUnicast a \<or>
         IsLinkLocalMulticast a \<or> IsUnspecified a
      then False
      else \<not> list_ex (\<lambda>p. prefix_Contains p a) subscriptionSpecialUse)"

datatype dial_error =
  NotTLSPort | IPURL | LookupFailed string | NoPublicAddress | DialFailed string | ProxyNetwork
  | ProxyURL url_error | NoProxyTunnel

text \<open>\<open>subscriptionDial\<close>: \<open>lookup\<close> is the resolver and \<open>dial\<close> the TCP dialer; the result carries the
  addresses that were dialled, in order.\<close>

fun dial_vetted ::
  "(addr \<Rightarrow> string + 'c) \<Rightarrow> addr list \<Rightarrow> string option \<Rightarrow> (dial_error + 'c) \<times> addr list" where
  "dial_vetted dial [] failed =
     ((case failed of Some e \<Rightarrow> Inl (DialFailed e) | None \<Rightarrow> Inl NoPublicAddress), [])"
| "dial_vetted dial (a # as) failed =
     (if \<not> validSubscriptionAddress a then dial_vetted dial as failed
      else (case dial a of
              Inr c \<Rightarrow> (Inr c, [a])
            | Inl e \<Rightarrow> let (r, tried) = dial_vetted dial as (Some e) in (r, a # tried)))"

definition subscriptionDial ::
  "(string \<Rightarrow> string + addr list) \<Rightarrow> (addr \<Rightarrow> string + 'c) \<Rightarrow> string \<Rightarrow> (dial_error + 'c) \<times> addr list" where
  "subscriptionDial lookup dial address =
     (case SplitHostPort address of
        None \<Rightarrow> (Inl NotTLSPort, [])
      | Some (host, port) \<Rightarrow>
        if port \<noteq> ''443'' then (Inl NotTLSPort, [])
        else if ParseAddr host \<noteq> None then (Inl IPURL, [])
        else (case lookup host of
                Inl e \<Rightarrow> (Inl (LookupFailed e), [])
              | Inr ips \<Rightarrow> dial_vetted dial ips None))"

definition JoinHostPort :: "string \<Rightarrow> string \<Rightarrow> string" where
  "JoinHostPort host port =
     (if CHR '':'' \<in> set host \<or> CHR ''%'' \<in> set host then ''['' @ host @ '']:'' @ port else host @ '':'' @ port)"

text \<open>The dial function of a download through the proxy; \<^const>\<open>None\<close> is a missing tunnel.\<close>

definition subscriptionProxyContextDial ::
  "(string \<Rightarrow> url option) \<Rightarrow> subscription \<Rightarrow> (string \<Rightarrow> string \<Rightarrow> nat \<Rightarrow> string + 'c) option \<Rightarrow> string \<Rightarrow> string \<Rightarrow>
     dial_error + 'c" where
  "subscriptionProxyContextDial url_parse sub dial network address =
     (if network \<noteq> ''tcp'' then Inl ProxyNetwork
      else (case SplitHostPort address of
              None \<Rightarrow> Inl NotTLSPort
            | Some (host, port) \<Rightarrow>
              if port \<noteq> ''443'' then Inl NotTLSPort
              else (case validateSubscriptionURL url_parse (''https://'' @ JoinHostPort host port @ ''/'') of
                      Some e \<Rightarrow> Inl (ProxyURL e)
                    | None \<Rightarrow>
                      (case dial of
                         None \<Rightarrow> Inl NoProxyTunnel
                       | Some d \<Rightarrow>
                         (case d (sb_ExitID sub) host 443 of Inl e \<Rightarrow> Inl (DialFailed e) | Inr c \<Rightarrow> Inr c)))))"

section \<open>Parsing a list\<close>

definition plain_url :: "url \<Rightarrow> bool" where
  "plain_url u \<longleftrightarrow>
     \<not> ((ur_Scheme u \<noteq> ''http'' \<and> ur_Scheme u \<noteq> ''https'') \<or> ur_User u \<or> ur_RawQuery u \<noteq> [] \<or>
        ur_Fragment u \<noteq> [] \<or> (ur_Path u \<noteq> [] \<and> ur_Path u \<noteq> ''/'') \<or> url_Port u \<noteq> [])"

text \<open>The host part of a line: the anchored, URL, wildcard and dotted forms.\<close>

definition selector_host :: "(string \<Rightarrow> url option) \<Rightarrow> string \<Rightarrow> string option" where
  "selector_host url_parse line =
     (if HasPrefix line ''||''
      then let l = TrimSuffix (TrimPrefix line ''||'') ''^'' in if ContainsAny l ''^/|'' then None else Some l
      else if HasPrefix line ''|'' \<or> HasPrefix line ''http://'' \<or> HasPrefix line ''https://''
      then (case url_parse (TrimPrefix line ''|'') of
              None \<Rightarrow> None
            | Some u \<Rightarrow> if plain_url u then Some (Hostname u) else None)
      else if HasPrefix line ''*.'' then Some (TrimPrefix line ''*.'')
      else if HasPrefix line ''.'' then Some (TrimPrefix line ''.'')
      else Some line)"

definition lower_label :: "string \<Rightarrow> bool" where
  "lower_label l \<longleftrightarrow>
     \<not> (length l < 1 \<or> length l > 63 \<or> hd l = CHR ''-'' \<or> last l = CHR ''-'') \<and>
     list_all (\<lambda>c. is_lower c \<or> is_digit c \<or> c = CHR ''-'') l"

definition host_selector :: "string \<Rightarrow> string option" where
  "host_selector line =
     (if ContainsAny line ''*/^|:@'' then None
      else
        let l = ToLower (TrimSuffix line ''.''); labels = split_on CHR ''.'' l in
        if length labels < 2 \<or> length l > 253 then None
        else if list_all lower_label labels then Some (''.'' @ l) else None)"

definition subscriptionTarget :: "(string \<Rightarrow> url option) \<Rightarrow> string \<Rightarrow> string option" where
  "subscriptionTarget url_parse line =
     (if line = [] \<or> ContainsAny line [CHR ''$'', CHR '' '', CHR 0x09, CHR 0x0D, CHR 0x0A, CHR ''?'', CHR ''['', CHR '']'']
      then None
      else (case selector_host url_parse line of
              None \<Rightarrow> None
            | Some l \<Rightarrow>
              (case ParsePrefix l of
                 Some p \<Rightarrow> if Zone (px_addr p) = [] then Some (prefix_String (Masked p)) else None
               | None \<Rightarrow>
                 (case ParseAddr l of
                    Some a \<Rightarrow> if Zone a = [] then Some (addr_String (Unmap a)) else host_selector l
                  | None \<Rightarrow> host_selector l))))"

text \<open>\<open>base64.StdEncoding\<close> and \<open>RawStdEncoding\<close> on text without line breaks, padded and unpadded.\<close>

definition b64_val :: "char \<Rightarrow> nat option" where
  "b64_val c =
     (if is_upper c then Some (code c - 65) else if is_lower c then Some (code c - 71)
      else if is_digit c then Some (code c + 4) else if c = CHR ''+'' then Some 62
      else if c = CHR ''/'' then Some 63 else None)"

fun b64_groups :: "bool \<Rightarrow> string \<Rightarrow> string option" where
  "b64_groups padded [] = Some []"
| "b64_groups padded [a] = None"
| "b64_groups padded [a, b] =
     (if padded then None
      else (case (b64_val a, b64_val b) of
              (Some x, Some y) \<Rightarrow> Some [char_of (x * 4 + y div 16)] | _ \<Rightarrow> None))"
| "b64_groups padded [a, b, c] =
     (if padded then None
      else (case (b64_val a, b64_val b, b64_val c) of
              (Some x, Some y, Some z) \<Rightarrow> Some [char_of (x * 4 + y div 16), char_of (y mod 16 * 16 + z div 4)]
            | _ \<Rightarrow> None))"
| "b64_groups padded (a # b # c # d # rest) =
     (if padded \<and> d = CHR ''='' \<and> rest = []
      then (case (b64_val a, b64_val b) of
              (Some x, Some y) \<Rightarrow>
                if c = CHR ''='' then Some [char_of (x * 4 + y div 16)]
                else (case b64_val c of
                        Some z \<Rightarrow> Some [char_of (x * 4 + y div 16), char_of (y mod 16 * 16 + z div 4)]
                      | None \<Rightarrow> None)
            | _ \<Rightarrow> None)
      else (case (b64_val a, b64_val b, b64_val c, b64_val d, b64_groups padded rest) of
              (Some x, Some y, Some z, Some w, Some more_chars) \<Rightarrow>
                Some (char_of (x * 4 + y div 16) # char_of (y mod 16 * 16 + z div 4) #
                      char_of (z mod 4 * 64 + w) # more_chars)
            | _ \<Rightarrow> None))"

definition b64_char :: "char \<Rightarrow> bool" where
  "b64_char c \<longleftrightarrow> is_lower c \<or> is_upper c \<or> is_digit c \<or> c = CHR ''+'' \<or> c = CHR ''/'' \<or> c = CHR ''=''"

definition list_text :: "string \<Rightarrow> string" where
  "list_text payload =
     (let raw = TrimSpace payload; compact = filter (\<lambda>c. \<not> is_space c) raw;
          lines = (\<lambda>d. case d of Some t \<Rightarrow> if CHR 0x0A \<in> set t then Some t else None | None \<Rightarrow> None) in
      if length compact > 32 \<and> list_all b64_char compact
      then (case lines (b64_groups True compact) of
              Some t \<Rightarrow> t
            | None \<Rightarrow> (case lines (b64_groups False compact) of Some t \<Rightarrow> t | None \<Rightarrow> raw))
      else raw)"

text \<open>\<open>bufio.ScanLines\<close> with a buffer of 1 MiB: a line that fills the buffer ends the scan with an error,
  after the lines before it. A final carriage return is dropped.\<close>

definition scan_lines :: "string \<Rightarrow> string list" where
  "scan_lines txt =
     (let ls = split_on CHR 0x0A txt in if last ls = [] then butlast ls else ls)"

definition scan_text :: "string \<Rightarrow> string" where
  "scan_text l = (if HasSuffix l [CHR 0x0D] then butlast l else l)"

definition skipped_line :: "string \<Rightarrow> bool" where
  "skipped_line l \<longleftrightarrow>
     l = [] \<or> HasPrefix l ''!'' \<or> HasPrefix l ''#'' \<or> HasPrefix l ''['' \<or> HasPrefix l ''//''"

datatype list_error = TooManySelectors | LineTooLong | NothingSupported

record parsed_list =
  pl_targets :: "string list"
  pl_exceptions :: "string list"
  pl_seen :: "string list"
  pl_ignored :: nat

definition maxSelectors :: nat where "maxSelectors = 100000"
definition maxLine :: nat where "maxLine = 1048576"

text \<open>One line of the list, as the body of the loop treats it. The flag says whether it added a selector.\<close>

definition parse_line :: "(string \<Rightarrow> url option) \<Rightarrow> string \<Rightarrow> parsed_list \<Rightarrow> bool \<times> parsed_list" where
  "parse_line url_parse raw p =
     (let line = TrimSpace (scan_text raw) in
      if skipped_line line then (False, p)
      else
        let except = HasPrefix line ''@@'' in
        case subscriptionTarget url_parse (if except then TrimPrefix line ''@@'' else line) of
          None \<Rightarrow> (False, p\<lparr>pl_ignored := pl_ignored p + 1\<rparr>)
        | Some target \<Rightarrow>
          let key = (if except then ''@@'' @ target else target) in
          if key \<in> set (pl_seen p) then (False, p)
          else
            let q = p\<lparr>pl_seen := key # pl_seen p\<rparr> in
            (True, if except then q\<lparr>pl_exceptions := pl_exceptions p @ [target]\<rparr>
                   else q\<lparr>pl_targets := pl_targets p @ [target]\<rparr>))"

fun parse_lines :: "(string \<Rightarrow> url option) \<Rightarrow> string list \<Rightarrow> parsed_list \<Rightarrow> list_error option \<times> parsed_list" where
  "parse_lines url_parse [] p = (None, p)"
| "parse_lines url_parse (l # ls) p =
     (if length l \<ge> maxLine then (Some LineTooLong, p)
      else
        let (added, q) = parse_line url_parse l p in
        if added \<and> length (pl_targets q) + length (pl_exceptions q) > maxSelectors
        then (Some TooManySelectors, q)
        else parse_lines url_parse ls q)"

definition parseSubscription ::
  "(string \<Rightarrow> url option) \<Rightarrow> string \<Rightarrow> (list_error \<times> nat) + (string list \<times> string list \<times> nat)" where
  "parseSubscription url_parse payload =
     (case parse_lines url_parse (scan_lines (list_text payload))
             \<lparr>pl_targets = [], pl_exceptions = [], pl_seen = [], pl_ignored = 0\<rparr> of
        (Some e, p) \<Rightarrow> Inl (e, pl_ignored p)
      | (None, p) \<Rightarrow>
        if pl_targets p = [] then Inl (NothingSupported, pl_ignored p)
        else Inr (pl_targets p, pl_exceptions p, pl_ignored p))"

section \<open>Fetching a list\<close>

text \<open>What the HTTP client returned: the status, the announced length (negative when unknown) and the
  body, or the client's error. A body that fails while it is read is \<^const>\<open>None\<close>.\<close>

record http_response =
  hr_StatusCode :: nat
  hr_ContentLength :: int
  hr_Body :: "string option"

datatype fetch_error =
  FetchURL url_error | FetchTransport string | FetchStatus nat | FetchTooLarge | FetchBody | FetchList list_error

definition CheckRedirect :: "(string \<Rightarrow> url option) \<Rightarrow> nat \<Rightarrow> string \<Rightarrow> url_error option option" where
  "CheckRedirect url_parse via target =
     (if via \<ge> 5 then Some None else map_option Some (validateSubscriptionURL url_parse target))"

definition fetch_result ::
  "(string \<Rightarrow> url option) \<Rightarrow> http_response \<Rightarrow> fetch_error + (string list \<times> string list \<times> nat)" where
  "fetch_result url_parse resp =
     (if hr_StatusCode resp \<noteq> 200 then Inl (FetchStatus (hr_StatusCode resp))
      else if hr_ContentLength resp > int subscriptionMaxBytes then Inl FetchTooLarge
      else (case hr_Body resp of
              None \<Rightarrow> Inl FetchBody
            | Some body \<Rightarrow>
              if length body > subscriptionMaxBytes then Inl FetchTooLarge
              else (case parseSubscription url_parse body of
                      Inl (e, n) \<Rightarrow> Inl (FetchList e) | Inr r \<Rightarrow> Inr r)))"

definition fetchSubscription ::
  "(string \<Rightarrow> url option) \<Rightarrow> (subscription \<Rightarrow> string + http_response) \<Rightarrow> subscription \<Rightarrow>
     fetch_error + (string list \<times> string list \<times> nat)" where
  "fetchSubscription url_parse client sub =
     (case validateSubscriptionURL url_parse (sb_URL sub) of
        Some e \<Rightarrow> Inl (FetchURL e)
      | None \<Rightarrow> (case client sub of Inl e \<Rightarrow> Inl (FetchTransport e) | Inr resp \<Rightarrow> fetch_result url_parse resp))"

section \<open>The compiled matcher\<close>

text \<open>The sets \<open>domains\<close> and \<open>ips\<close> are lists without an order that matters.\<close>

record sub_matcher =
  sm_domains :: "string list"
  sm_ips :: "addr list"
  sm_ranges :: "ip_prefix list"

definition add_selector :: "string \<Rightarrow> sub_matcher \<Rightarrow> sub_matcher" where
  "add_selector target m =
     (if HasPrefix target ''.'' then m\<lparr>sm_domains := TrimPrefix target ''.'' # sm_domains m\<rparr>
      else (case ParsePrefix target of
              Some p \<Rightarrow> m\<lparr>sm_ranges := sm_ranges m @ [Masked p]\<rparr>
            | None \<Rightarrow>
              (case ParseAddr target of
                 Some a \<Rightarrow> m\<lparr>sm_ips := Unmap a # sm_ips m\<rparr>
               | None \<Rightarrow> m)))"

definition compileSubscriptionMatcher :: "string list \<Rightarrow> sub_matcher" where
  "compileSubscriptionMatcher entries =
     fold add_selector entries \<lparr>sm_domains = [], sm_ips = [], sm_ranges = []\<rparr>"

text \<open>The walk over the suffixes of the host at its dots.\<close>

function domain_walk :: "string list \<Rightarrow> string \<Rightarrow> bool" where
  "domain_walk domains host =
     (if host = [] then False
      else if host \<in> set domains then True
      else (case cut_at CHR ''.'' host of None \<Rightarrow> False | Some (_, rest) \<Rightarrow> domain_walk domains rest))"
  by pat_completeness auto
termination
  by (relation "measure (\<lambda>(_, host). length host)") (auto dest: cut_at_Some)

definition sub_matches :: "sub_matcher \<Rightarrow> flow \<Rightarrow> bool" where
  "sub_matches m f =
     (if domain_walk (sm_domains m) (ToLower (TrimSuffix (fl_Host f) ''.'')) then True
      else (case ParseAddr (if fl_IP f = [] then fl_Host f else fl_IP f) of
              None \<Rightarrow> False
            | Some a \<Rightarrow>
              if Unmap a \<in> set (sm_ips m) then True
              else list_ex (\<lambda>p. prefix_Contains p (Unmap a)) (sm_ranges m)))"

declare domain_walk.simps [simp del]

section \<open>The matcher and the list it was compiled from\<close>

text \<open>What one selector covers: a domain and everything below it, a network or an address.\<close>

definition selector_covers :: "string \<Rightarrow> flow \<Rightarrow> bool" where
  "selector_covers e f =
     (let host = ToLower (TrimSuffix (fl_Host f) ''.'');
          address = map_option Unmap (ParseAddr (if fl_IP f = [] then fl_Host f else fl_IP f)) in
      if HasPrefix e ''.'' then e \<noteq> ''.'' \<and> (host = tl e \<or> HasSuffix host e)
      else (case address of
              None \<Rightarrow> False
            | Some a \<Rightarrow>
              (case ParsePrefix e of
                 Some p \<Rightarrow> prefix_Contains (Masked p) a
               | None \<Rightarrow> map_option Unmap (ParseAddr e) = Some a)))"

lemma domain_walk_iff:
  "domain_walk ds host \<longleftrightarrow> (\<exists>d\<in>set ds. d \<noteq> [] \<and> (host = d \<or> suffix (CHR ''.'' # d) host))"
proof (induction ds host rule: domain_walk.induct)
  case (1 ds host)
  show ?case
  proof (cases "host = [] \<or> host \<in> set ds")
    case True
    then show ?thesis by (auto simp: domain_walk.simps [of ds host])
  next
    case False
    show ?thesis
    proof (cases "cut_at CHR ''.'' host")
      case None
      then have "CHR ''.'' \<notin> set host" by (simp add: cut_at_None)
      then have "\<not> suffix (CHR ''.'' # d) host" for d by (auto simp: suffix_def)
      with False None show ?thesis by (auto simp: domain_walk.simps [of ds host])
    next
      case (Some ab)
      then obtain a b where ab: "cut_at CHR ''.'' host = Some (a, b)" by (cases ab) auto
      from cut_at_Some [OF ab] have h: "host = a @ CHR ''.'' # b" "CHR ''.'' \<notin> set a" by auto
      have suf: "suffix (CHR ''.'' # d) host \<longleftrightarrow> d = b \<or> suffix (CHR ''.'' # d) b" for d
        using h(2) unfolding h(1) by (induction a) (auto simp: suffix_Cons)
      have "domain_walk ds host \<longleftrightarrow> domain_walk ds b"
        using False ab by (simp add: domain_walk.simps [of ds host])
      also have "\<dots> \<longleftrightarrow> (\<exists>d\<in>set ds. d \<noteq> [] \<and> (b = d \<or> suffix (CHR ''.'' # d) b))"
        using 1 False ab by blast
      also have "\<dots> \<longleftrightarrow> (\<exists>d\<in>set ds. d \<noteq> [] \<and> (host = d \<or> suffix (CHR ''.'' # d) host))"
        using False suf by auto
      finally show ?thesis .
    qed
  qed
qed

lemma compile_domains:
  "set (sm_domains (fold add_selector es m)) =
     set (sm_domains m) \<union> {TrimPrefix e ''.'' |e. e \<in> set es \<and> HasPrefix e ''.''}"
  by (induction es arbitrary: m) (auto simp: add_selector_def split: option.splits)

lemma compile_ips:
  "set (sm_ips (fold add_selector es m)) =
     set (sm_ips m) \<union>
     {Unmap a |e a. e \<in> set es \<and> \<not> HasPrefix e ''.'' \<and> ParsePrefix e = None \<and> ParseAddr e = Some a}"
  by (induction es arbitrary: m) (auto simp: add_selector_def split: option.splits)

lemma compile_ranges:
  "set (sm_ranges (fold add_selector es m)) =
     set (sm_ranges m) \<union> {Masked p |e p. e \<in> set es \<and> \<not> HasPrefix e ''.'' \<and> ParsePrefix e = Some p}"
  by (induction es arbitrary: m) (auto simp: add_selector_def split: option.splits)

lemma sub_matcher_covers:
  "sub_matches (compileSubscriptionMatcher entries) f \<longleftrightarrow> (\<exists>e\<in>set entries. selector_covers e f)"
proof -
  let ?m = "compileSubscriptionMatcher entries" and ?host = "ToLower (TrimSuffix (fl_Host f) ''.'')"
  have dot: "HasPrefix e ''.'' \<longleftrightarrow> e = CHR ''.'' # TrimPrefix e ''.''" for e
    by (cases e) (auto simp: HasPrefix_def TrimPrefix_def)
  have d: "domain_walk (sm_domains ?m) ?host \<longleftrightarrow>
      (\<exists>e\<in>set entries. HasPrefix e ''.'' \<and> e \<noteq> ''.'' \<and> (?host = tl e \<or> HasSuffix ?host e))"
  proof -
    have "(TrimPrefix e ''.'' \<noteq> [] \<and> (?host = TrimPrefix e ''.'' \<or> suffix (CHR ''.'' # TrimPrefix e ''.'') ?host)) \<longleftrightarrow>
        (e \<noteq> ''.'' \<and> (?host = tl e \<or> HasSuffix ?host e))" if "HasPrefix e ''.''" for e
      using that by (cases e) (auto simp: HasPrefix_def TrimPrefix_def HasSuffix_def)
    then show ?thesis
      unfolding domain_walk_iff compileSubscriptionMatcher_def compile_domains by auto
  qed
  have a: "(case ParseAddr (if fl_IP f = [] then fl_Host f else fl_IP f) of None \<Rightarrow> False
      | Some a \<Rightarrow> if Unmap a \<in> set (sm_ips ?m) then True else list_ex (\<lambda>p. prefix_Contains p (Unmap a)) (sm_ranges ?m)) \<longleftrightarrow>
      (\<exists>e\<in>set entries. \<not> HasPrefix e ''.'' \<and> selector_covers e f)" (is "?lhs \<longleftrightarrow> _")
  proof (cases "ParseAddr (if fl_IP f = [] then fl_Host f else fl_IP f)")
    case None
    then show ?thesis by (simp add: selector_covers_def Let_def)
  next
    case (Some a)
    have ips: "Unmap a \<in> set (sm_ips ?m) \<longleftrightarrow>
        (\<exists>e\<in>set entries. \<not> HasPrefix e ''.'' \<and> ParsePrefix e = None \<and> map_option Unmap (ParseAddr e) = Some (Unmap a))"
      by (auto simp: compileSubscriptionMatcher_def compile_ips) (metis (no_types))
    have ranges: "list_ex (\<lambda>p. prefix_Contains p (Unmap a)) (sm_ranges ?m) \<longleftrightarrow>
        (\<exists>e\<in>set entries. \<not> HasPrefix e ''.'' \<and> (\<exists>p. ParsePrefix e = Some p \<and> prefix_Contains (Masked p) (Unmap a)))"
      by (auto simp: compileSubscriptionMatcher_def compile_ranges list_ex_iff)
    have one: "selector_covers e f \<longleftrightarrow>
        ParsePrefix e = None \<and> map_option Unmap (ParseAddr e) = Some (Unmap a) \<or>
        (\<exists>p. ParsePrefix e = Some p \<and> prefix_Contains (Masked p) (Unmap a))" if "\<not> HasPrefix e ''.''" for e
      using that Some by (simp add: selector_covers_def Let_def split: option.split)
    have "?lhs \<longleftrightarrow> Unmap a \<in> set (sm_ips ?m) \<or> list_ex (\<lambda>p. prefix_Contains p (Unmap a)) (sm_ranges ?m)"
      using Some by simp
    then show ?thesis unfolding ips ranges using one by blast
  qed
  have s: "HasPrefix e ''.'' \<Longrightarrow> selector_covers e f \<longleftrightarrow> e \<noteq> ''.'' \<and> (?host = tl e \<or> HasSuffix ?host e)" for e
    by (simp add: selector_covers_def Let_def)
  have "sub_matches ?m f \<longleftrightarrow>
      (\<exists>e\<in>set entries. HasPrefix e ''.'' \<and> selector_covers e f) \<or>
      (\<exists>e\<in>set entries. \<not> HasPrefix e ''.'' \<and> selector_covers e f)"
    unfolding sub_matches_def d a [symmetric] using s by auto
  then show ?thesis by blast
qed

text \<open>C27. The compiled subscription matcher, with its walk over the suffixes of the host and its address
  sets, accepts a flow exactly when some selector of the list covers it: a domain selector its apex and
  everything below it at a label boundary, never a bare suffix, and an address or network selector the
  canonical destination address.\<close>

theorem subscription_matcher_correct:
  "sub_matches (compileSubscriptionMatcher entries) f \<longleftrightarrow> (\<exists>e\<in>set entries. selector_covers e f)"
  by (rule sub_matcher_covers)

end
