(* ===== verification/Routing_Engine.thy ===== *)
theory Routing_Engine
  imports Routing_Subscription
begin

text \<open>
  \<open>agent/routing/engine.go\<close> and the engine part of \<open>subscription.go\<close>: snapshots of a validated
  configuration, decisions on flows and DNS names, and the life of the subscription workers. A context
  is a number; cancelling it adds it to the list of cancelled contexts. A worker runs between lock
  regions, so its pass over the subscriptions is a sequence of steps that interleave with reloads,
  dialer changes and the close of the engine.
\<close>

section \<open>State\<close>

record sub_status =
  st_Name :: string
  st_URL :: string
  st_Enabled :: bool
  st_Rules :: nat
  st_UpdatedAt :: "nat option"
  st_Error :: "fetch_error option"
  st_Skipped :: nat

record compiled_sub =
  cs_config :: subscription
  cs_included :: sub_matcher
  cs_excluded :: sub_matcher
  cs_status :: sub_status

record sub_cache =
  sc_URL :: string
  sc_Targets :: "string list"
  sc_Exceptions :: "string list"
  sc_Skipped :: nat
  sc_UpdatedAt :: "nat option"

record engine =
  en_config :: config
  en_compound :: "compound_rule list"
  en_subscriptions :: "compiled_sub list"
  en_cancel :: "nat option"
  en_dialer :: "nat option"
  en_closed :: bool

record decision =
  de_Action :: string
  de_ExitID :: string
  de_DatagramRequired :: bool
  de_HandleDirect :: bool
  de_Rule :: string
  de_Matched :: bool

text \<open>The code outside the repository: URL parsing, the cache directory and hash (one path per URL), JSON.\<close>

record platform =
  pf_url_parse :: "string \<Rightarrow> url option"
  pf_cache_path :: "string \<Rightarrow> string option"
  pf_unmarshal :: "string \<Rightarrow> sub_cache option"
  pf_marshal :: "sub_cache \<Rightarrow> string option"

type_synonym files = "string \<Rightarrow> string option"

section \<open>The cache of a subscription\<close>

definition empty_matcher :: sub_matcher where
  "empty_matcher = \<lparr>sm_domains = [], sm_ips = [], sm_ranges = []\<rparr>"

definition fresh_sub :: "subscription \<Rightarrow> compiled_sub" where
  "fresh_sub sub =
     \<lparr>cs_config = sub, cs_included = empty_matcher, cs_excluded = empty_matcher,
      cs_status = \<lparr>st_Name = sb_Name sub, st_URL = sb_URL sub, st_Enabled = sb_Enabled sub, st_Rules = 0,
        st_UpdatedAt = None, st_Error = None, st_Skipped = 0\<rparr>\<rparr>"

definition cachedSubscription :: "platform \<Rightarrow> files \<Rightarrow> subscription \<Rightarrow> compiled_sub" where
  "cachedSubscription pf fs sub =
     (let state = fresh_sub sub in
      case pf_cache_path pf (sb_URL sub) of
        None \<Rightarrow> state
      | Some file \<Rightarrow>
        (case fs file of
           None \<Rightarrow> state
         | Some data \<Rightarrow>
           if length data > subscriptionMaxBytes * 4 then state
           else (case pf_unmarshal pf data of
                   None \<Rightarrow> state
                 | Some c \<Rightarrow>
                   if sc_URL c \<noteq> sb_URL sub \<or> length (sc_Targets c) = 0 then state
                   else state\<lparr>cs_included := compileSubscriptionMatcher (sc_Targets c),
                              cs_excluded := compileSubscriptionMatcher (sc_Exceptions c),
                              cs_status := (cs_status state)\<lparr>st_Rules := length (sc_Targets c),
                                st_UpdatedAt := sc_UpdatedAt c, st_Skipped := sc_Skipped c\<rparr>\<rparr>)))"

text \<open>\<open>disk_ok\<close> says that every file operation succeeds, so that the rename replaces the file; otherwise
  the last good file remains.\<close>

definition storeSubscription ::
  "platform \<Rightarrow> bool \<Rightarrow> nat \<Rightarrow> string \<Rightarrow> string list \<Rightarrow> string list \<Rightarrow> nat \<Rightarrow> files \<Rightarrow> nat \<times> files" where
  "storeSubscription pf disk_ok now raw targets exceptions skipped fs =
     (now,
      case (pf_cache_path pf raw,
            pf_marshal pf \<lparr>sc_URL = raw, sc_Targets = targets, sc_Exceptions = exceptions, sc_Skipped = skipped,
              sc_UpdatedAt = Some now\<rparr>) of
        (Some path, Some body) \<Rightarrow> if disk_ok then fs(path \<mapsto> body) else fs
      | _ \<Rightarrow> fs)"

section \<open>Snapshots\<close>

definition with_defaults :: "config \<Rightarrow> config" where
  "with_defaults c =
     (let c = (if cf_Mode c = [] then c\<lparr>cf_Mode := ModeGlobalProxy\<rparr> else c);
          c = (if cf_DNSMode c = [] then c\<lparr>cf_DNSMode := DNSModeProxy\<rparr> else c)
      in if cf_DefaultAction c = [] then c\<lparr>cf_DefaultAction := ActionProxy\<rparr> else c)"

definition newEngineSnapshot :: "platform \<Rightarrow> files \<Rightarrow> config \<Rightarrow> config_error + engine" where
  "newEngineSnapshot pf fs cfg =
     (case ValidateConfig (pf_url_parse pf) cfg of
        Some e \<Rightarrow> Inl e
      | None \<Rightarrow>
        let cfg = CloneConfig (with_defaults cfg) in
        Inr \<lparr>en_config = cfg, en_compound = map compileCompound (cf_Rules cfg),
             en_subscriptions = map (cachedSubscription pf fs) (cf_Subscriptions cfg),
             en_cancel = None, en_dialer = None, en_closed = False\<rparr>)"

section \<open>Reading the policy\<close>

definition FakeIPEnabled :: "engine \<Rightarrow> bool" where
  "FakeIPEnabled e \<longleftrightarrow>
     cf_FakeIPEnabled (en_config e) \<and> (cf_DNSMode (en_config e) = [] \<or> cf_DNSMode (en_config e) = DNSModeProxy)"

definition DNSAssociationEnabled :: "engine \<Rightarrow> bool" where
  "DNSAssociationEnabled e =
     (case cf_DNSAssociationEnabled (en_config e) of None \<Rightarrow> True | Some b \<Rightarrow> b)"

definition ProxyDNSEnabled :: "engine \<Rightarrow> bool" where
  "ProxyDNSEnabled e \<longleftrightarrow> cf_ProxyDNSEnabled (en_config e) \<and> \<not> cf_FakeIPEnabled (en_config e)"

definition DoHBlockedIPs :: "engine \<Rightarrow> string list" where
  "DoHBlockedIPs e =
     (if \<not> cf_FakeIPEnabled (en_config e) \<or> \<not> cf_BlockDoHEndpoints (en_config e) then []
      else cf_DoHBlockedIPs (en_config e))"

definition DNSUpstreams :: "engine \<Rightarrow> dns_upstream list" where "DNSUpstreams e = cf_DNSUpstreams (en_config e)"
definition DNSDirectDomains :: "engine \<Rightarrow> string list" where "DNSDirectDomains e = cf_DNSDirectDomains (en_config e)"
definition DNSExitID :: "engine \<Rightarrow> string" where "DNSExitID e = cf_DNSExitID (en_config e)"
definition Engine_Config :: "engine \<Rightarrow> config" where "Engine_Config e = CloneConfig (en_config e)"

definition ForwardOtherDNS :: "engine \<Rightarrow> bool" where
  "ForwardOtherDNS e \<longleftrightarrow>
     cf_FakeIPEnabled (en_config e) \<and> cf_ForwardOtherDNS (en_config e) \<and> cf_DNSMode (en_config e) = DNSModeProxy"

definition BlockDoHEndpoints :: "engine \<Rightarrow> bool" where
  "BlockDoHEndpoints e \<longleftrightarrow>
     cf_FakeIPEnabled (en_config e) \<and> cf_BlockDoHEndpoints (en_config e) \<and> cf_DNSMode (en_config e) = DNSModeProxy"

definition dns_host :: "string \<Rightarrow> string" where
  "dns_host host = ToLower (TrimSuffix (TrimSpace host) ''.'')"

definition dns_rule_matches :: "string \<Rightarrow> dns_rule \<Rightarrow> bool" where
  "dns_rule_matches host r \<longleftrightarrow> dr_Enabled r \<and> list_ex (matchDNSRuleDomain host) (dr_Domains r)"

definition DNSRoute :: "engine \<Rightarrow> string \<Rightarrow> bool \<times> string" where
  "DNSRoute e host =
     (if \<not> cf_ProxyDNSEnabled (en_config e) \<or> length (cf_DNSRules (en_config e)) = 0 then (False, [])
      else first_match
             (\<lambda>r. if dns_rule_matches (dns_host host) r then Some (dr_Action r = DNSActionLocal, dr_ExitID r) else None)
             (cf_DNSRules (en_config e)) (True, []))"

definition DNSResolver :: "engine \<Rightarrow> string \<Rightarrow> string" where
  "DNSResolver e host =
     (if \<not> cf_ProxyDNSEnabled (en_config e) then ''encrypted''
      else first_match
             (\<lambda>r. if dns_rule_matches (dns_host host) r
                  then Some (if dr_Action r = DNSActionRemote \<and> dr_Resolver r = ''exit_system'' then ''exit_system''
                             else ''encrypted'')
                  else None)
             (cf_DNSRules (en_config e)) ''encrypted'')"

section \<open>Deciding a flow\<close>

definition rule_decision :: "nat \<Rightarrow> rule \<Rightarrow> decision" where
  "rule_decision i r =
     \<lparr>de_Action = rl_Action r, de_ExitID = rl_ExitID r, de_DatagramRequired = rl_DatagramRequired r,
      de_HandleDirect = rl_HandleDirect r,
      de_Rule = (let name = TrimSpace (rl_Name r) in if name = [] then ''rule #'' @ Itoa (i + 1) else name),
      de_Matched = True\<rparr>"

text \<open>The loop over the rules reads \<open>compound[i]\<close>: \<^const>\<open>None\<close> is Go's index panic.\<close>

fun decide_rules :: "compound_rule list \<Rightarrow> flow \<Rightarrow> nat \<Rightarrow> rule list \<Rightarrow> decision option option" where
  "decide_rules compound f i [] = Some None"
| "decide_rules compound f i (r # rs) =
     (if rl_Enabled r
      then if i < length compound
           then if rule_matches (compound ! i) r f then Some (Some (rule_decision i r))
                else decide_rules compound f (i + 1) rs
           else None
      else decide_rules compound f (i + 1) rs)"

definition subscription_label :: string where
  "subscription_label = map char_of [0xE8::nat, 0xAE, 0xA2, 0xE9, 0x98, 0x85, 0xEF, 0xBC, 0x9A]"

definition sub_decision :: "flow \<Rightarrow> compiled_sub \<Rightarrow> decision option" where
  "sub_decision f item =
     (if \<not> sb_Enabled (cs_config item) \<or> st_Rules (cs_status item) = 0 \<or> sub_matches (cs_excluded item) f \<or>
         \<not> sub_matches (cs_included item) f
      then None
      else
        Some \<lparr>de_Action = (if sb_Action (cs_config item) = [] then ActionProxy else sb_Action (cs_config item)),
              de_ExitID = sb_ExitID (cs_config item), de_DatagramRequired = False, de_HandleDirect = False,
              de_Rule = subscription_label @ sb_Name (cs_config item), de_Matched = True\<rparr>)"

definition unmatched :: "string \<Rightarrow> string \<Rightarrow> decision" where
  "unmatched action name =
     \<lparr>de_Action = action, de_ExitID = [], de_DatagramRequired = False, de_HandleDirect = False, de_Rule = name,
      de_Matched = False\<rparr>"

definition DecideFlow :: "engine \<Rightarrow> flow \<Rightarrow> decision option" where
  "DecideFlow e f =
     (if cf_Mode (en_config e) = ModeGlobalProxy then Some (unmatched ActionProxy ''global_proxy'')
      else if cf_Mode (en_config e) = ModeDirect then Some (unmatched ActionDirect ''direct'')
      else (case decide_rules (en_compound e) f 0 (cf_Rules (en_config e)) of
              None \<Rightarrow> None
            | Some (Some d) \<Rightarrow> Some d
            | Some None \<Rightarrow>
              Some (first_match (sub_decision f) (en_subscriptions e)
                     (unmatched (cf_DefaultAction (en_config e)) ''default''))))"

definition Decide :: "engine \<Rightarrow> string \<Rightarrow> u16 \<Rightarrow> decision option" where
  "Decide e host port =
     DecideFlow e \<lparr>fl_Entry = [], fl_SourceIP = [], fl_SourcePort = 0, fl_InboundInterface = [], fl_Process = [],
       fl_ProcessAliases = [], fl_Host = host, fl_IP = [], fl_Port = port, fl_Protocol = ''tcp''\<rparr>"

definition Engine_Match :: "engine \<Rightarrow> string \<Rightarrow> u16 \<Rightarrow> (string \<times> string) option" where
  "Engine_Match e host port = map_option (\<lambda>d. (de_Action d, de_ExitID d)) (Decide e host port)"

definition SubscriptionStatuses :: "engine \<Rightarrow> sub_status list" where
  "SubscriptionStatuses e = map cs_status (en_subscriptions e)"

section \<open>Subscription workers\<close>

text \<open>One pass of \<open>updateSubscriptions\<close>: the subscriptions it still has to look at, with their indices,
  and the result of the fetch that waits to be installed. A worker is the goroutine of one context.\<close>

type_synonym fetched = "fetch_error + (string list \<times> string list \<times> nat)"

record update_pass =
  up_retryOnly :: bool
  up_todo :: "(nat \<times> subscription) list"
  up_dialer :: "nat option"
  up_result :: "fetched option"

record worker =
  wk_ctx :: nat
  wk_pass :: "update_pass option"

record engine_sys =
  es_engine :: engine
  es_files :: files
  es_next :: nat
  es_cancelled :: "nat list"
  es_workers :: "worker list"

definition cancel_current :: "engine_sys \<Rightarrow> engine_sys" where
  "cancel_current s =
     (case en_cancel (es_engine s) of
        None \<Rightarrow> s
      | Some c \<Rightarrow> s\<lparr>es_cancelled := c # es_cancelled s, es_engine := (es_engine s)\<lparr>en_cancel := None\<rparr>\<rparr>)"

definition startSubscriptionUpdates :: "engine_sys \<Rightarrow> engine_sys" where
  "startSubscriptionUpdates s =
     (if en_closed (es_engine s) then s
      else
        let s = cancel_current s in
        if \<not> list_ex sb_Enabled (cf_Subscriptions (en_config (es_engine s))) then s
        else s\<lparr>es_engine := (es_engine s)\<lparr>en_cancel := Some (es_next s)\<rparr>, es_next := es_next s + 1,
               es_workers := es_workers s @ [\<lparr>wk_ctx = es_next s, wk_pass = None\<rparr>]\<rparr>)"

definition NewEngine :: "platform \<Rightarrow> files \<Rightarrow> config \<Rightarrow> config_error + engine_sys" where
  "NewEngine pf fs cfg =
     map_sum id
       (\<lambda>e. startSubscriptionUpdates
              \<lparr>es_engine = e, es_files = fs, es_next = 0, es_cancelled = [], es_workers = []\<rparr>)
       (newEngineSnapshot pf fs cfg)"

text \<open>The locked part of \<open>Reload\<close>, and the whole of it when nothing comes between.\<close>

definition reload_install :: "engine \<Rightarrow> engine_sys \<Rightarrow> engine_sys" where
  "reload_install compiled s =
     (let s = cancel_current s in
      s\<lparr>es_engine := (es_engine s)\<lparr>en_config := en_config compiled, en_compound := en_compound compiled,
          en_subscriptions := en_subscriptions compiled\<rparr>\<rparr>)"

definition Reload :: "platform \<Rightarrow> config \<Rightarrow> engine_sys \<Rightarrow> config_error option \<times> engine_sys" where
  "Reload pf cfg s =
     (case newEngineSnapshot pf (es_files s) cfg of
        Inl e \<Rightarrow> (Some e, s)
      | Inr compiled \<Rightarrow> (None, startSubscriptionUpdates (reload_install compiled s)))"

definition install_dialer :: "nat option \<Rightarrow> engine_sys \<Rightarrow> engine_sys" where
  "install_dialer dial s =
     (if en_closed (es_engine s) then s else s\<lparr>es_engine := (es_engine s)\<lparr>en_dialer := dial\<rparr>\<rparr>)"

definition SetSubscriptionProxyDialer :: "nat option \<Rightarrow> engine_sys \<Rightarrow> engine_sys" where
  "SetSubscriptionProxyDialer dial s =
     (if en_closed (es_engine s) then s else startSubscriptionUpdates (install_dialer dial s))"

definition Engine_Close :: "engine_sys \<Rightarrow> engine_sys" where
  "Engine_Close s = (let s = s\<lparr>es_engine := (es_engine s)\<lparr>en_closed := True\<rparr>\<rparr> in cancel_current s)"

text \<open>Start of a pass: the lists and the dialer are read under the lock.\<close>

definition begin_update :: "bool \<Rightarrow> engine \<Rightarrow> update_pass" where
  "begin_update retryOnly e =
     \<lparr>up_retryOnly = retryOnly, up_todo = zip [0..<length (cf_Subscriptions (en_config e))] (cf_Subscriptions (en_config e)),
      up_dialer = en_dialer e, up_result = None\<rparr>"

definition retryFailedSubscriptions :: "engine \<Rightarrow> update_pass option" where
  "retryFailedSubscriptions e =
     (if list_ex (\<lambda>i. sb_Enabled (cs_config i) \<and> st_Error (cs_status i) \<noteq> None) (en_subscriptions e)
      then Some (begin_update True e) else None)"

text \<open>The part of one iteration before the fetch: skip, stop, or fetch.\<close>

datatype work = Skip | Stop | Fetch subscription

definition next_work :: "engine \<Rightarrow> bool \<Rightarrow> update_pass \<Rightarrow> work" where
  "next_work e cancelled p =
     (case up_todo p of
        [] \<Rightarrow> Stop
      | (i, sub) # _ \<Rightarrow>
        if \<not> sb_Enabled sub then Skip
        else if up_retryOnly p \<and>
                \<not> (i < length (en_subscriptions e) \<and> st_Error (cs_status (en_subscriptions e ! i)) \<noteq> None)
        then Skip
        else if cancelled then Stop
        else Fetch sub)"

text \<open>The locked part at the end of an iteration. \<open>updated\<close> is what the store returned.\<close>

definition install_result :: "bool \<Rightarrow> nat \<Rightarrow> subscription \<Rightarrow> fetched \<Rightarrow> nat \<Rightarrow> engine \<Rightarrow> engine" where
  "install_result cancelled i sub r updated e =
     (if \<not> cancelled \<and> i < length (en_subscriptions e) \<and> cs_config (en_subscriptions e ! i) = sub
      then
        let current = en_subscriptions e ! i;
            current' =
              (case r of
                 Inl err \<Rightarrow> current\<lparr>cs_status := (cs_status current)\<lparr>st_Error := Some err\<rparr>\<rparr>
               | Inr (targets, exceptions, skipped) \<Rightarrow>
                 current\<lparr>cs_included := compileSubscriptionMatcher targets,
                         cs_excluded := compileSubscriptionMatcher exceptions,
                         cs_status := (cs_status current)\<lparr>st_Rules := length targets, st_Skipped := skipped,
                           st_UpdatedAt := Some updated, st_Error := None\<rparr>\<rparr>)
        in e\<lparr>en_subscriptions := (en_subscriptions e)[i := current']\<rparr>
      else e)"

definition set_pass :: "nat \<Rightarrow> update_pass option \<Rightarrow> engine_sys \<Rightarrow> engine_sys" where
  "set_pass k p s = s\<lparr>es_workers := (es_workers s)[k := (es_workers s ! k)\<lparr>wk_pass := p\<rparr>]\<rparr>"

definition is_cancelled :: "nat \<Rightarrow> engine_sys \<Rightarrow> bool" where
  "is_cancelled k s \<longleftrightarrow> wk_ctx (es_workers s ! k) \<in> set (es_cancelled s)"

text \<open>The two kinds of steps of a pass: up to and including the fetch with its store, and the install.\<close>

definition fetch_step ::
  "platform \<Rightarrow> (subscription \<Rightarrow> string + http_response) \<Rightarrow> bool \<Rightarrow> nat \<Rightarrow> nat \<Rightarrow> update_pass \<Rightarrow> engine_sys \<Rightarrow> engine_sys" where
  "fetch_step pf client disk_ok now k p s =
     (case next_work (es_engine s) (is_cancelled k s) p of
        Stop \<Rightarrow> set_pass k None s
      | Skip \<Rightarrow> set_pass k (Some (p\<lparr>up_todo := tl (up_todo p)\<rparr>)) s
      | Fetch sub \<Rightarrow>
        let r = fetchSubscription (pf_url_parse pf) client sub;
            fs = (case r of
                    Inl _ \<Rightarrow> es_files s
                  | Inr (t, x, n) \<Rightarrow> snd (storeSubscription pf disk_ok now (sb_URL sub) t x n (es_files s)))
        in set_pass k (Some (p\<lparr>up_result := Some r\<rparr>)) (s\<lparr>es_files := fs\<rparr>))"

definition install_step :: "nat \<Rightarrow> nat \<Rightarrow> update_pass \<Rightarrow> engine_sys \<Rightarrow> engine_sys" where
  "install_step now k p s =
     (case (up_todo p, up_result p) of
        ((i, sub) # rest, Some r) \<Rightarrow>
          set_pass k (Some (p\<lparr>up_todo := rest, up_result := None\<rparr>))
            (s\<lparr>es_engine := install_result (is_cancelled k s) i sub r now (es_engine s)\<rparr>)
      | _ \<Rightarrow> s)"

text \<open>Everything that can happen to an engine. A reload is split at its lock boundary, and an update of
  the workers may come at any time.\<close>

inductive engine_step :: "platform \<Rightarrow> engine_sys \<Rightarrow> engine_sys \<Rightarrow> bool" for pf where
  reload: "newEngineSnapshot pf (es_files s) cfg = Inr compiled \<Longrightarrow> engine_step pf s (reload_install compiled s)"
| start: "engine_step pf s (startSubscriptionUpdates s)"
| dialer: "engine_step pf s (install_dialer dial s)"
| close: "engine_step pf s (Engine_Close s)"
| begin_pass: "k < length (es_workers s) \<Longrightarrow> wk_pass (es_workers s ! k) = None \<Longrightarrow>
    p = Some (begin_update False (es_engine s)) \<or> p = retryFailedSubscriptions (es_engine s) \<Longrightarrow>
    engine_step pf s (set_pass k p s)"
| fetch: "k < length (es_workers s) \<Longrightarrow> wk_pass (es_workers s ! k) = Some p \<Longrightarrow> up_result p = None \<Longrightarrow>
    engine_step pf s (fetch_step pf client disk_ok now k p s)"
| install: "k < length (es_workers s) \<Longrightarrow> wk_pass (es_workers s ! k) = Some p \<Longrightarrow>
    engine_step pf s (install_step now k p s)"

inductive engine_run :: "platform \<Rightarrow> engine_sys \<Rightarrow> bool" for pf where
  new: "NewEngine pf fs cfg = Inr s \<Longrightarrow> engine_run pf s"
| step: "engine_run pf s \<Longrightarrow> engine_step pf s t \<Longrightarrow> engine_run pf t"

inductive_cases engine_stepE: "engine_step pf s t"

section \<open>Invariants\<close>

text \<open>A subscription of the engine serves either nothing or the list of one successful download.\<close>

definition sub_ok :: "compiled_sub \<Rightarrow> bool" where
  "sub_ok i \<longleftrightarrow>
     st_Rules (cs_status i) = 0 \<or>
     (\<exists>targets exceptions. cs_included i = compileSubscriptionMatcher targets \<and>
        cs_excluded i = compileSubscriptionMatcher exceptions \<and> st_Rules (cs_status i) = length targets)"

definition policy_ok :: "platform \<Rightarrow> engine \<Rightarrow> bool" where
  "policy_ok pf e \<longleftrightarrow>
     ValidateConfig (pf_url_parse pf) (en_config e) = None \<and> cf_Mode (en_config e) \<noteq> [] \<and>
     cf_DNSMode (en_config e) \<noteq> [] \<and> cf_DefaultAction (en_config e) \<noteq> [] \<and> en_compound e = map compileCompound (cf_Rules (en_config e)) \<and>
     map cs_config (en_subscriptions e) = cf_Subscriptions (en_config e) \<and> list_all sub_ok (en_subscriptions e)"

text \<open>At most one worker has a live context, it is the one the engine can cancel, and a closed engine has none.\<close>

definition contexts_ok :: "nat list \<Rightarrow> nat \<Rightarrow> nat list \<Rightarrow> nat option \<Rightarrow> bool \<Rightarrow> bool" where
  "contexts_ok ctxs fresh cancelled current closed \<longleftrightarrow>
     (\<forall>c\<in>set ctxs. c < fresh \<and> (c \<in> set cancelled \<or> current = Some c)) \<and> distinct ctxs \<and>
     (\<forall>c\<in>set cancelled. c < fresh) \<and> (\<forall>c. current = Some c \<longrightarrow> c < fresh \<and> c \<notin> set cancelled) \<and>
     (closed \<longrightarrow> current = None)"

definition workers_ok :: "engine_sys \<Rightarrow> bool" where
  "workers_ok s =
     contexts_ok (map wk_ctx (es_workers s)) (es_next s) (es_cancelled s) (en_cancel (es_engine s))
       (en_closed (es_engine s))"

lemma Clone_id [simp]: "Clone gs = gs"
  by (simp add: Clone_def)

lemma CloneConfig_id [simp]: "CloneConfig c = c"
  by (simp add: CloneConfig_def)

lemma mode_facts [simp]: "ModeGlobalProxy \<noteq> []" "ActionProxy \<noteq> []" "DNSModeProxy \<noteq> []" "DNSModeProxy \<noteq> DNSModeLocal"
  "validAction ActionProxy" "validAction ActionDirect"
  by (simp_all add: ModeGlobalProxy_def ActionProxy_def DNSModeProxy_def DNSModeLocal_def validAction_def)

lemma with_defaults_fields [simp]:
  "references (with_defaults c) = references c" "cf_DeviceGroups (with_defaults c) = cf_DeviceGroups c"
  "cf_DNSUpstreams (with_defaults c) = cf_DNSUpstreams c" "cf_DNSRules (with_defaults c) = cf_DNSRules c"
  "cf_DNSDirectDomains (with_defaults c) = cf_DNSDirectDomains c" "cf_DoHBlockedIPs (with_defaults c) = cf_DoHBlockedIPs c"
  "cf_Subscriptions (with_defaults c) = cf_Subscriptions c" "cf_Rules (with_defaults c) = cf_Rules c"
  "cf_Mode (with_defaults c) = (if cf_Mode c = [] then ModeGlobalProxy else cf_Mode c)"
  "cf_DNSMode (with_defaults c) = (if cf_DNSMode c = [] then DNSModeProxy else cf_DNSMode c)"
  "cf_DefaultAction (with_defaults c) = (if cf_DefaultAction c = [] then ActionProxy else cf_DefaultAction c)"
  by (simp_all add: with_defaults_def references_def Let_def)

lemma check_modes_defaults: "check_modes c = None \<Longrightarrow> check_modes (with_defaults c) = None"
  by (auto simp: check_modes_def with_defaults_def Let_def split: if_splits)

lemma ValidateConfig_defaults: "ValidateConfig u c = None \<Longrightarrow> ValidateConfig u (with_defaults c) = None"
  by (auto simp: ValidateConfig_def check_modes_defaults split: if_splits)

lemma cached_ok: "sub_ok (cachedSubscription pf fs sub)" "cs_config (cachedSubscription pf fs sub) = sub"
  by (auto simp: cachedSubscription_def sub_ok_def fresh_sub_def Let_def split: option.split)

lemma snapshot_ok: "newEngineSnapshot pf fs cfg = Inr e \<Longrightarrow> policy_ok pf e"
  by (auto simp: newEngineSnapshot_def policy_ok_def ValidateConfig_defaults Let_def list_all_iff cached_ok o_def
      split: option.splits if_splits)

lemma policy_ok_cong:
  "policy_ok pf e \<Longrightarrow> en_config e' = en_config e \<Longrightarrow> en_compound e' = en_compound e \<Longrightarrow>
    en_subscriptions e' = en_subscriptions e \<Longrightarrow> policy_ok pf e'"
  by (simp add: policy_ok_def)

lemma install_result_ok: "policy_ok pf e \<Longrightarrow> policy_ok pf (install_result c i sub r u e)"
proof -
  assume ok: "policy_ok pf e"
  show ?thesis
  proof (cases "\<not> c \<and> i < length (en_subscriptions e) \<and> cs_config (en_subscriptions e ! i) = sub")
    case False
    then show ?thesis using ok by (auto simp: install_result_def)
  next
    case True
    have "sub_ok (en_subscriptions e ! i)" using ok True by (simp add: policy_ok_def list_all_length)
    then have new: "sub_ok (case r of
                 Inl err \<Rightarrow> (en_subscriptions e ! i)\<lparr>cs_status := (cs_status (en_subscriptions e ! i))\<lparr>st_Error := Some err\<rparr>\<rparr>
               | Inr (targets, exceptions, skipped) \<Rightarrow>
                 (en_subscriptions e ! i)\<lparr>cs_included := compileSubscriptionMatcher targets,
                         cs_excluded := compileSubscriptionMatcher exceptions,
                         cs_status := (cs_status (en_subscriptions e ! i))\<lparr>st_Rules := length targets, st_Skipped := skipped,
                           st_UpdatedAt := Some u, st_Error := None\<rparr>\<rparr>)"
      by (auto simp: sub_ok_def split: sum.split)
    have conf: "map cs_config ((en_subscriptions e)[i := x]) = map cs_config (en_subscriptions e)"
      if "cs_config x = cs_config (en_subscriptions e ! i)" for x
      using that by (simp add: map_update) (metis list_update_id map_update)
    show ?thesis
      using ok True new
      by (auto simp: install_result_def policy_ok_def list_all_iff Let_def conf
          dest!: set_update_subset_insert [THEN subsetD] split: sum.splits)
  qed
qed

lemma cancel_current_facts [simp]:
  "en_config (es_engine (cancel_current s)) = en_config (es_engine s)"
  "en_compound (es_engine (cancel_current s)) = en_compound (es_engine s)"
  "en_subscriptions (es_engine (cancel_current s)) = en_subscriptions (es_engine s)"
  "en_closed (es_engine (cancel_current s)) = en_closed (es_engine s)"
  "en_cancel (es_engine (cancel_current s)) = None"
  "es_workers (cancel_current s) = es_workers s" "es_next (cancel_current s) = es_next s"
  "es_files (cancel_current s) = es_files s"
  by (simp_all add: cancel_current_def split: option.split)

lemma cancel_current_workers: "workers_ok s \<Longrightarrow> workers_ok (cancel_current s)"
  by (auto simp: cancel_current_def workers_ok_def contexts_ok_def split: option.split)

lemma contexts_ok_fresh:
  "contexts_ok ctxs n cancelled None False \<Longrightarrow> contexts_ok (ctxs @ [n]) (Suc n) cancelled (Some n) False"
  by (fastforce simp: contexts_ok_def)

lemma start_workers: "workers_ok s \<Longrightarrow> workers_ok (startSubscriptionUpdates s)"
  using cancel_current_workers [of s] contexts_ok_fresh
  by (cases "en_closed (es_engine s)") (simp_all add: startSubscriptionUpdates_def workers_ok_def Let_def)

lemma start_policy: "policy_ok pf (es_engine s) \<Longrightarrow> policy_ok pf (es_engine (startSubscriptionUpdates s))"
  by (auto simp: startSubscriptionUpdates_def Let_def elim!: policy_ok_cong)

lemma set_pass_facts [simp]:
  "es_engine (set_pass k p s) = es_engine s" "es_next (set_pass k p s) = es_next s"
  "es_cancelled (set_pass k p s) = es_cancelled s" "es_files (set_pass k p s) = es_files s"
  by (simp_all add: set_pass_def)

lemma set_pass_ctx:
  "k < length (es_workers s) \<Longrightarrow> map wk_ctx (es_workers (set_pass k p s)) = map wk_ctx (es_workers s)"
  by (simp add: set_pass_def map_update) (metis list_update_id map_update nth_map)

lemma set_pass_workers: "k < length (es_workers s) \<Longrightarrow> workers_ok (set_pass k p s) \<longleftrightarrow> workers_ok s"
  by (simp add: workers_ok_def set_pass_ctx)

lemma install_result_facts [simp]:
  "en_cancel (install_result c i sub r u e) = en_cancel e" "en_closed (install_result c i sub r u e) = en_closed e"
  "en_config (install_result c i sub r u e) = en_config e" "en_compound (install_result c i sub r u e) = en_compound e"
  by (simp_all add: install_result_def Let_def)

lemma fetch_step_facts:
  assumes "k < length (es_workers s)"
  shows "es_engine (fetch_step pf client ok now k p s) = es_engine s"
    "workers_ok (fetch_step pf client ok now k p s) \<longleftrightarrow> workers_ok s"
  using assms set_pass_workers
  by (auto simp: fetch_step_def workers_ok_def set_pass_ctx Let_def split: work.split)

lemma install_step_workers:
  "k < length (es_workers s) \<Longrightarrow> workers_ok (install_step now k p s) \<longleftrightarrow> workers_ok s"
  by (auto simp: install_step_def workers_ok_def set_pass_ctx split: list.split option.split prod.split)

lemma install_step_policy:
  "policy_ok pf (es_engine s) \<Longrightarrow> policy_ok pf (es_engine (install_step now k p s))"
  by (auto simp: install_step_def install_result_ok split: list.split option.split prod.split)

lemma reload_workers: "workers_ok s \<Longrightarrow> workers_ok (reload_install e s)"
  using cancel_current_workers [of s] by (simp add: reload_install_def workers_ok_def Let_def)

lemma reload_policy: "policy_ok pf e \<Longrightarrow> policy_ok pf (es_engine (reload_install e s))"
  by (simp add: reload_install_def policy_ok_def Let_def)

lemma close_workers: "workers_ok s \<Longrightarrow> workers_ok (Engine_Close s)"
  by (auto simp: Engine_Close_def cancel_current_def workers_ok_def contexts_ok_def Let_def split: option.split)

lemma close_policy: "policy_ok pf (es_engine s) \<Longrightarrow> policy_ok pf (es_engine (Engine_Close s))"
  by (auto simp: Engine_Close_def Let_def elim!: policy_ok_cong)

lemma step_ok:
  "engine_step pf s t \<Longrightarrow> policy_ok pf (es_engine s) \<Longrightarrow> workers_ok s \<Longrightarrow>
    policy_ok pf (es_engine t) \<and> workers_ok t"
proof (induction rule: engine_step.induct)
  case (reload s cfg compiled)
  then show ?case using snapshot_ok reload_policy reload_workers by blast
next
  case (dialer s dial)
  then show ?case by (auto simp: install_dialer_def workers_ok_def elim!: policy_ok_cong)
qed (simp_all add: start_policy start_workers close_policy close_workers set_pass_workers fetch_step_facts
      install_step_workers install_step_policy)

lemma run_ok: "engine_run pf s \<Longrightarrow> policy_ok pf (es_engine s) \<and> workers_ok s"
proof (induction rule: engine_run.induct)
  case (new fs cfg s)
  then obtain e where e: "newEngineSnapshot pf fs cfg = Inr e"
    and s: "s = startSubscriptionUpdates \<lparr>es_engine = e, es_files = fs, es_next = 0, es_cancelled = [], es_workers = []\<rparr>"
    by (cases "newEngineSnapshot pf fs cfg") (auto simp: NewEngine_def)
  have "en_cancel e = None" "\<not> en_closed e" using e by (auto simp: newEngineSnapshot_def Let_def split: option.splits)
  then show ?case unfolding s
    by (intro conjI start_policy start_workers) (simp_all add: snapshot_ok [OF e] workers_ok_def contexts_ok_def)
next
  case (step s t)
  then show ?case using step_ok by blast
qed

section \<open>What the configuration guarantees\<close>

lemma indexed_error_ok: "indexed_error f i xs = None \<Longrightarrow> x \<in> set xs \<Longrightarrow> \<exists>j. f j x = None"
  by (induction xs arbitrary: i) auto

lemma check_subscriptions_ok:
  "check_subscriptions u seen i ss = None \<Longrightarrow> s \<in> set ss \<Longrightarrow> \<exists>seen i. check_subscription u seen i s = None"
  by (induction u seen i ss rule: check_subscriptions.induct) auto

lemma ValidateConfig_parts:
  assumes "ValidateConfig u c = None"
  shows "Validate (cf_DeviceGroups c) (references c) = None" "check_modes c = None"
    "indexed_error check_dns_rule 0 (cf_DNSRules c) = None"
    "cf_DefaultAction c = [] \<or> validAction (cf_DefaultAction c)"
    "check_subscriptions u [] 0 (cf_Subscriptions c) = None" "indexed_error check_rule 0 (cf_Rules c) = None"
  using assms unfolding ValidateConfig_def by (simp_all split: if_splits)

lemma ValidateConfig_ok:
  assumes "ValidateConfig u c = None"
  shows "r \<in> set (cf_Rules c) \<Longrightarrow> \<exists>i. check_rule i r = None"
    "s \<in> set (cf_Subscriptions c) \<Longrightarrow> \<exists>seen i. check_subscription u seen i s = None"
    "d \<in> set (cf_DNSRules c) \<Longrightarrow> \<exists>i. check_dns_rule i d = None"
    "cf_Mode c \<in> {[], ModeRule, ModeGlobalProxy, ModeDirect}"
proof -
  note parts = ValidateConfig_parts [OF assms]
  show "r \<in> set (cf_Rules c) \<Longrightarrow> \<exists>i. check_rule i r = None" using indexed_error_ok parts(6) by metis
  show "s \<in> set (cf_Subscriptions c) \<Longrightarrow> \<exists>seen i. check_subscription u seen i s = None"
    using check_subscriptions_ok parts(5) by metis
  show "d \<in> set (cf_DNSRules c) \<Longrightarrow> \<exists>i. check_dns_rule i d = None" using indexed_error_ok parts(3) by metis
  show "cf_Mode c \<in> {[], ModeRule, ModeGlobalProxy, ModeDirect}"
    using parts(2) by (auto simp: check_modes_def split: if_splits)
qed

lemma check_rule_ok:
  "check_rule i r = None \<Longrightarrow> validAction (rl_Action r) \<and> (rl_HandleDirect r \<longrightarrow> rl_Action r = ActionDirect \<and>
    \<not> rl_DatagramRequired r) \<and> validateCompound r = None"
  by (auto simp: check_rule_def split: if_splits)

lemma check_subscription_action:
  "check_subscription u seen i s = None \<Longrightarrow> sb_Action s = [] \<or> validAction (sb_Action s)"
  by (auto simp: check_subscription_def split: if_splits option.splits)

lemma policy_dns_mode:
  "policy_ok pf e \<Longrightarrow> cf_DNSMode (en_config e) = DNSModeProxy \<or> cf_DNSMode (en_config e) = DNSModeLocal"
  using ValidateConfig_parts(2) [of "pf_url_parse pf" "en_config e"]
  by (auto simp: policy_ok_def check_modes_def split: if_splits)

section \<open>Decisions and the policy as written\<close>

text \<open>The reference: the first enabled rule that covers the flow, then the first enabled subscription with
  a list that includes and does not except it, then the default. \<open>ls\<close> gives each subscription its
  selectors and exceptions.\<close>

fun first_rule :: "flow \<Rightarrow> nat \<Rightarrow> rule list \<Rightarrow> decision option" where
  "first_rule f i [] = None"
| "first_rule f i (r # rs) =
     (if rl_Enabled r \<and> rule_covers r f then Some (rule_decision i r) else first_rule f (i + 1) rs)"

definition list_decision :: "flow \<Rightarrow> subscription \<times> string list \<times> string list \<Rightarrow> decision option" where
  "list_decision f item =
     (case item of
        (s, targets, exceptions) \<Rightarrow>
          if sb_Enabled s \<and> (\<exists>e\<in>set targets. selector_covers e f) \<and> \<not> (\<exists>e\<in>set exceptions. selector_covers e f)
          then Some \<lparr>de_Action = (if sb_Action s = [] then ActionProxy else sb_Action s), de_ExitID = sb_ExitID s,
                     de_DatagramRequired = False, de_HandleDirect = False,
                     de_Rule = subscription_label @ sb_Name s, de_Matched = True\<rparr>
          else None)"

definition policy_decision :: "config \<Rightarrow> (string list \<times> string list) list \<Rightarrow> flow \<Rightarrow> decision" where
  "policy_decision c ls f =
     (if cf_Mode c = ModeGlobalProxy then unmatched ActionProxy ''global_proxy''
      else if cf_Mode c = ModeDirect then unmatched ActionDirect ''direct''
      else (case first_rule f 0 (cf_Rules c) of
              Some d \<Rightarrow> d
            | None \<Rightarrow>
              first_match (list_decision f) (zip (cf_Subscriptions c) ls)
                (unmatched (cf_DefaultAction c) ''default'')))"

lemma decide_rules_correct:
  "\<forall>r\<in>set rs. validateCompound r = None \<Longrightarrow> length pre = i \<Longrightarrow>
    decide_rules (pre @ map compileCompound rs) f i rs = Some (first_rule f i rs)"
proof (induction rs arbitrary: pre i)
  case (Cons r rs)
  then have m: "rule_matches (compileCompound r) r f = rule_covers r f" by (simp add: compiled_rule_covers)
  have "decide_rules ((pre @ [compileCompound r]) @ map compileCompound rs) f (i + 1) rs = Some (first_rule f (i + 1) rs)"
    using Cons.prems by (intro Cons.IH) auto
  with Cons.prems m show ?case by (auto simp: nth_append)
qed simp

lemma sub_decision_correct:
  assumes "sub_ok i"
  shows "\<exists>l. \<forall>f. sub_decision f i = list_decision f (cs_config i, l)"
proof (cases "st_Rules (cs_status i) = 0")
  case True
  then show ?thesis by (intro exI [of _ "([], [])"]) (simp add: sub_decision_def list_decision_def)
next
  case False
  with assms obtain t x where "cs_included i = compileSubscriptionMatcher t"
    "cs_excluded i = compileSubscriptionMatcher x" by (auto simp: sub_ok_def)
  with False show ?thesis
    by (intro exI [of _ "(t, x)"]) (auto simp: sub_decision_def list_decision_def sub_matcher_covers)
qed

lemma sub_decisions_correct:
  "list_all sub_ok is \<Longrightarrow> \<exists>ls. length ls = length is \<and>
    (\<forall>f d. first_match (sub_decision f) is d = first_match (list_decision f) (zip (map cs_config is) ls) d)"
proof (induction "is")
  case (Cons i "is")
  then obtain ls where ls: "length ls = length is"
    "\<forall>f d. first_match (sub_decision f) is d = first_match (list_decision f) (zip (map cs_config is) ls) d" by auto
  obtain l where "\<forall>f. sub_decision f i = list_decision f (cs_config i, l)"
    using Cons.prems sub_decision_correct [of i] by auto
  with ls show ?case by (intro exI [of _ "l # ls"]) (simp split: option.split)
qed simp

lemma policy_ok_decision:
  assumes "policy_ok pf e"
  obtains ls where "length ls = length (cf_Subscriptions (en_config e))"
    "\<And>f. DecideFlow e f = Some (policy_decision (en_config e) ls f)"
proof -
  from assms obtain ls where ls: "length ls = length (en_subscriptions e)"
    "\<And>f d. first_match (sub_decision f) (en_subscriptions e) d =
       first_match (list_decision f) (zip (cf_Subscriptions (en_config e)) ls) d"
    using sub_decisions_correct [of "en_subscriptions e"] by (auto simp: policy_ok_def)
  have len: "length (en_subscriptions e) = length (cf_Subscriptions (en_config e))"
    using assms by (metis length_map policy_ok_def)
  have "decide_rules (en_compound e) f 0 (cf_Rules (en_config e)) = Some (first_rule f 0 (cf_Rules (en_config e)))" for f
  proof -
    have "\<forall>r\<in>set (cf_Rules (en_config e)). validateCompound r = None"
      using assms ValidateConfig_ok(1) check_rule_ok unfolding policy_ok_def by metis
    with decide_rules_correct [of "cf_Rules (en_config e)" "[]" 0 f] assms show ?thesis by (simp add: policy_ok_def)
  qed
  with ls(2) have "DecideFlow e f = Some (policy_decision (en_config e) ls f)" for f
    by (simp add: DecideFlow_def policy_decision_def split: option.split)
  with that ls(1) len show ?thesis by metis
qed

section \<open>Properties\<close>

definition demo_platform :: platform where
  "demo_platform =
     \<lparr>pf_url_parse = (\<lambda>_. Some \<lparr>ur_Scheme = ''https'', ur_Host = ''l.example'', ur_User = False, ur_Path = ''/'',
        ur_RawQuery = [], ur_Fragment = [], ur_Opaque = []\<rparr>),
      pf_cache_path = (\<lambda>_. None), pf_unmarshal = (\<lambda>_. None), pf_marshal = (\<lambda>_. None)\<rparr>"

definition demo_sub :: subscription where
  "demo_sub = \<lparr>sb_Name = ''l'', sb_URL = ''https://l.example/'', sb_Enabled = True, sb_Action = [], sb_ExitID = [],
     sb_FetchViaProxy = False\<rparr>"

definition demo_dns :: dns_rule where
  "demo_dns = \<lparr>dr_Name = ''d'', dr_Enabled = True, dr_Domains = [''corp''], dr_Action = ''REMOTE'', dr_ExitID = ''dev'',
     dr_Resolver = ''exit_system''\<rparr>"

definition demo_config :: config where
  "demo_config =
     \<lparr>cf_DeviceGroups = [], cf_Subscriptions = [demo_sub], cf_Mode = ''rule'', cf_DNSMode = [],
      cf_AutoDetectDNS = False, cf_DNSAssociationEnabled = None, cf_ProxyDNSEnabled = True,
      cf_FakeIPEnabled = False, cf_BlockDoHEndpoints = False, cf_ForwardOtherDNS = False, cf_DNSUpstreams = [],
      cf_DNSExitID = [], cf_DNSDirectDomains = [], cf_DNSRules = [demo_dns], cf_DoHBlockedIPs = [],
      cf_DefaultAction = [], cf_Rules = []\<rparr>"

lemma demo_url: "validateSubscriptionURL (pf_url_parse demo_platform) ''https://l.example/'' = None"
proof -
  have "ParseAddr ''l.example'' = None" by (simp add: ip_eval)
  then show ?thesis
    by (simp add: validateSubscriptionURL_def demo_platform_def Hostname_def url_Port_def url_split_def Let_def
        TrimSpace_def TrimRightSpace_def is_space_def code_def TrimSuffix_def suffix_def HasSuffix_def HasPrefix_def
        lower_char_def is_upper_def suffix_to_prefix)
qed

lemma demo_config_valid_mode:
  assumes "md = ModeRule \<or> md = ModeDirect"
  shows "ValidateConfig (pf_url_parse demo_platform) (demo_config\<lparr>cf_Mode := md\<rparr>) = None"
proof -
  have "ParseAddr ''corp'' = None" by (simp add: ip_eval)
  then have d: "validDNSRuleDomain ''corp''"
    by (simp add: validDNSRuleDomain_def validDNSDirectDomain_def HasPrefix_def TrimSuffix_def suffix_to_prefix
        TrimSpace_def TrimRightSpace_def is_space_def code_def valid_label_def label_char_def is_lower_def)
  have r: "check_dns_rule 0 demo_dns = None"
    using d by (simp add: check_dns_rule_def demo_dns_def DNSActionLocal_def DNSActionRemote_def HasPrefix_def or_else_def
        bad_exit_text_def TrimSpace_def TrimRightSpace_def is_space_def code_def ContainsAny_def blank_or_slash_def)
  have s: "check_subscription (pf_url_parse demo_platform) [] 0 demo_sub = None"
    using demo_url by (simp add: check_subscription_def demo_sub_def TrimSpace_def TrimRightSpace_def is_space_def code_def)
  have m: "check_modes (demo_config\<lparr>cf_Mode := md\<rparr>) = None"
    using assms by (auto simp: check_modes_def demo_config_def DNSModeLocal_def)
  have g: "Validate (cf_DeviceGroups demo_config) (references (demo_config\<lparr>cf_Mode := md\<rparr>)) = None"
    by (simp add: Validate_def demo_config_def references_def DNSRuleExitIDs_def demo_dns_def demo_sub_def IsID_def
        HasPrefix_def Prefix_def DNSActionRemote_def)
  show ?thesis
    using r s m g by (simp add: ValidateConfig_def, simp add: demo_config_def ValidateDNSUpstreams_def subscriptionLimit_def)
qed

lemma demo_config_valid: "ValidateConfig (pf_url_parse demo_platform) demo_config = None"
  using demo_config_valid_mode [of ModeRule] by (simp add: demo_config_def ModeRule_def)

definition demo_state :: engine_sys where
  "demo_state = projr (NewEngine demo_platform (\<lambda>_. None) demo_config)"

lemma demo_new: "NewEngine demo_platform (\<lambda>_. None) demo_config = Inr demo_state"
  by (simp add: demo_state_def NewEngine_def newEngineSnapshot_def demo_config_valid Let_def)

lemma start_facts [simp]:
  "en_config (es_engine (startSubscriptionUpdates s)) = en_config (es_engine s)"
  "en_compound (es_engine (startSubscriptionUpdates s)) = en_compound (es_engine s)"
  "en_subscriptions (es_engine (startSubscriptionUpdates s)) = en_subscriptions (es_engine s)"
  by (simp_all add: startSubscriptionUpdates_def Let_def)

lemma demo_fields:
  "en_config (es_engine demo_state) = with_defaults demo_config" "en_compound (es_engine demo_state) = []"
  "en_subscriptions (es_engine demo_state) = [fresh_sub demo_sub]"
  "\<forall>k<length (es_workers demo_state). wk_pass (es_workers demo_state ! k) = None"
proof -
  note unfold = demo_state_def NewEngine_def newEngineSnapshot_def demo_config_valid Let_def option.case map_sum.simps sum.sel id_def
  show "en_config (es_engine demo_state) = with_defaults demo_config" by (simp add: unfold)
  show "en_compound (es_engine demo_state) = []" by (simp add: unfold) (simp add: demo_config_def)
  show "en_subscriptions (es_engine demo_state) = [fresh_sub demo_sub]"
    by (simp add: unfold) (simp add: demo_config_def cachedSubscription_def demo_platform_def)
  show "\<forall>k<length (es_workers demo_state). wk_pass (es_workers demo_state ! k) = None"
    by (simp add: unfold startSubscriptionUpdates_def)
qed

lemma demo_run: "engine_run demo_platform demo_state"
  using demo_new by (rule engine_run.new)





lemma first_rule_member: "first_rule f i rs = Some d \<Longrightarrow> \<exists>r\<in>set rs. \<exists>j. d = rule_decision j r"
  by (induction rs arbitrary: i) (auto split: if_splits)

lemma first_match_member: "(\<exists>x\<in>set xs. g x = Some (first_match g xs d)) \<or> first_match g xs d = d"
  by (induction xs) (auto split: option.split)

definition decision_ok :: "config \<Rightarrow> decision \<Rightarrow> bool" where
  "decision_ok c d \<longleftrightarrow>
     validAction (de_Action d) \<and>
     (de_HandleDirect d \<longrightarrow> de_Action d = ActionDirect \<and> \<not> de_DatagramRequired d) \<and>
     (IsID (de_ExitID d) \<longrightarrow> (\<exists>g\<in>set (cf_DeviceGroups c). gr_ID g = de_ExitID d))"

lemma unmatched_ok: "validAction a \<Longrightarrow> decision_ok c (unmatched a n)"
  by (simp add: decision_ok_def unmatched_def IsID_def HasPrefix_def Prefix_def)

lemma policy_decision_ok:
  assumes "ValidateConfig u c = None" "cf_DefaultAction c \<noteq> []"
  shows "decision_ok c (policy_decision c ls f)"
proof -
  note parts = ValidateConfig_parts [OF assms(1)]
  have refs: "i \<in> set (references c) \<Longrightarrow> IsID i \<Longrightarrow> \<exists>g\<in>set (cf_DeviceGroups c). gr_ID g = i" for i
    using Validate_ok(2) [OF parts(1)] by blast
  have rule: "decision_ok c (rule_decision j r)" if "r \<in> set (cf_Rules c)" for j r
  proof -
    have "rl_ExitID r \<in> set (references c)" using that by (simp add: references_def)
    with refs check_rule_ok ValidateConfig_ok(1) [OF assms(1) that] show ?thesis
      by (auto simp: decision_ok_def rule_decision_def)
  qed
  have sub: "decision_ok c d" if "list_decision f (s, t, x) = Some d" "s \<in> set (cf_Subscriptions c)" for s t x d
  proof -
    have "sb_ExitID s \<in> set (references c)" using that(2) by (simp add: references_def)
    moreover have "sb_Action s = [] \<or> validAction (sb_Action s)"
      using ValidateConfig_ok(2) [OF assms(1) that(2)] check_subscription_action by metis
    ultimately show ?thesis using that(1) refs by (auto simp: decision_ok_def list_decision_def split: if_splits)
  qed
  let ?d = "first_match (list_decision f) (zip (cf_Subscriptions c) ls) (unmatched (cf_DefaultAction c) ''default'')"
  have rest: "decision_ok c ?d"
    using first_match_member [of "zip (cf_Subscriptions c) ls" "list_decision f" "unmatched (cf_DefaultAction c) ''default''"]
  proof
    assume "\<exists>x\<in>set (zip (cf_Subscriptions c) ls). list_decision f x = Some ?d"
    then show ?thesis using sub by (metis set_zip_leftD surj_pair)
  next
    assume "?d = unmatched (cf_DefaultAction c) ''default''"
    with parts(4) assms(2) unmatched_ok show ?thesis by simp
  qed
  show ?thesis
  proof (cases "first_rule f 0 (cf_Rules c)")
    case None
    with rest show ?thesis by (simp add: policy_decision_def unmatched_ok)
  next
    case (Some d)
    with first_rule_member [OF Some] rule show ?thesis by (auto simp: policy_decision_def unmatched_ok)
  qed
qed

text \<open>Every decision of a running engine is well formed: it exists for every flow, its action is one of
  the three, local egress is only asked for direct flows without datagrams, and an exit that names a group
  names a group of the configuration.\<close>

theorem engine_decides:
  assumes "engine_run pf s"
  shows "\<exists>d. DecideFlow (es_engine s) f = Some d \<and> decision_ok (en_config (es_engine s)) d"
proof -
  have ok: "policy_ok pf (es_engine s)" using run_ok [OF assms] by blast
  from ok obtain ls where "\<And>f. DecideFlow (es_engine s) f = Some (policy_decision (en_config (es_engine s)) ls f)"
    using policy_ok_decision by blast
  with ok policy_decision_ok show ?thesis by (metis policy_ok_def)
qed

lemma engine_decides_witness:
  "\<forall>f. \<exists>d. DecideFlow (es_engine demo_state) f = Some d \<and> decision_ok (en_config (es_engine demo_state)) d"
  by (intro allI engine_decides [OF demo_run])

text \<open>C30. The decision on a flow changes only when a validated reload is installed or when the worker of the
  engine's current context installs a successful download for the subscription it fetched: failed
  refreshes, cancelled workers and everything else leave the policy in force as it is.\<close>

theorem decisions_change_only_by:
  assumes "engine_run pf s" "engine_step pf s t" "DecideFlow (es_engine t) f \<noteq> DecideFlow (es_engine s) f"
  shows "(\<exists>cfg compiled. newEngineSnapshot pf (es_files s) cfg = Inr compiled \<and> t = reload_install compiled s) \<or>
    (\<exists>k p i sub rest lists now. k < length (es_workers s) \<and> wk_pass (es_workers s ! k) = Some p \<and>
       up_todo p = (i, sub) # rest \<and> up_result p = Some (Inr lists) \<and> t = install_step now k p s \<and>
       en_cancel (es_engine s) = Some (wk_ctx (es_workers s ! k)) \<and> i < length (cf_Subscriptions (en_config (es_engine s))) \<and>
       cf_Subscriptions (en_config (es_engine s)) ! i = sub)"
proof -
  have same: "DecideFlow e' f = DecideFlow e f"
    if "en_config e' = en_config e" "en_compound e' = en_compound e" "en_subscriptions e' = en_subscriptions e" for e e'
    using that by (simp only: DecideFlow_def)
  from assms(2) show ?thesis
  proof cases
    case (reload cfg compiled)
    then show ?thesis by blast
  next
    case start
    then have "DecideFlow (es_engine t) f = DecideFlow (es_engine s) f"
      by (intro same) (simp_all add: startSubscriptionUpdates_def Let_def)
    with assms(3) show ?thesis by simp
  next
    case (dialer dial)
    then have "DecideFlow (es_engine t) f = DecideFlow (es_engine s) f"
      by (intro same) (simp_all add: install_dialer_def)
    with assms(3) show ?thesis by simp
  next
    case close
    then have "DecideFlow (es_engine t) f = DecideFlow (es_engine s) f"
      by (intro same) (simp_all add: Engine_Close_def Let_def)
    with assms(3) show ?thesis by simp
  next
    case (begin_pass k p)
    with assms(3) show ?thesis by simp
  next
    case (fetch k p client disk_ok now)
    with assms(3) show ?thesis by (simp add: fetch_step_facts)
  next
    case (install k p now)
    obtain i sub rest r where p: "up_todo p = (i, sub) # rest" "up_result p = Some r"
      using install assms(3) by (auto simp: install_step_def split: list.splits option.splits)
    let ?e = "es_engine s" and ?c = "is_cancelled k s"
    have t: "es_engine t = install_result ?c i sub r now ?e" using install p by (simp add: install_step_def)
    have live: "\<not> ?c" "i < length (en_subscriptions ?e)" "cs_config (en_subscriptions ?e ! i) = sub"
      using assms(3) t by (auto simp: install_result_def split: if_splits)
    obtain ls where r: "r = Inr ls"
    proof (cases r)
      case (Inl err)
      let ?cur = "en_subscriptions ?e ! i"
      let ?new = "?cur\<lparr>cs_status := (cs_status ?cur)\<lparr>st_Error := Some err\<rparr>\<rparr>"
      have "sub_decision f ?new = sub_decision f ?cur" by (simp add: sub_decision_def)
      then have "map (sub_decision f) ((en_subscriptions ?e)[i := ?new]) = map (sub_decision f) (en_subscriptions ?e)"
        by (simp add: map_update) (metis list_update_id map_update)
      moreover have "first_match g xs d = first_match h ys d" if "map g xs = map h ys"
        for g h :: "compiled_sub \<Rightarrow> decision option" and xs ys d
        using that by (induction xs arbitrary: ys) (auto split: option.split)
      ultimately have eq: "first_match (sub_decision f) ((en_subscriptions ?e)[i := ?new]) d =
          first_match (sub_decision f) (en_subscriptions ?e) d" for d by blast
      have "es_engine t = ?e\<lparr>en_subscriptions := (en_subscriptions ?e)[i := ?new]\<rparr>"
        unfolding t using live Inl by (simp add: install_result_def Let_def)
      with eq have "DecideFlow (es_engine t) f = DecideFlow ?e f"
        by (simp add: DecideFlow_def split: option.split)
      with assms(3) show ?thesis by simp
    qed (use that in blast)
    have w: "workers_ok s" "policy_ok pf ?e" using run_ok [OF assms(1)] by auto
    have "wk_ctx (es_workers s ! k) \<in> set (map wk_ctx (es_workers s))" using install(2) by simp
    then have cur: "en_cancel ?e = Some (wk_ctx (es_workers s ! k))"
      using w(1) live(1) unfolding workers_ok_def contexts_ok_def is_cancelled_def by blast
    have "i < length (cf_Subscriptions (en_config ?e))" "cf_Subscriptions (en_config ?e) ! i = sub"
      using w(2) live unfolding policy_ok_def by (metis length_map, metis nth_map)
    with install p r cur show ?thesis by blast
  qed
qed

lemma decisions_change_only_by_witness:
  "\<exists>t. engine_step demo_platform demo_state t \<and>
     (\<exists>cfg compiled. newEngineSnapshot demo_platform (es_files demo_state) cfg = Inr compiled \<and>
        t = reload_install compiled demo_state)"
proof -
  let ?direct = "demo_config\<lparr>cf_Mode := ModeDirect\<rparr>" and ?s = demo_state and ?f = "\<lparr>fl_Entry = [], fl_SourceIP = [], fl_SourcePort = 0, fl_InboundInterface = [],
      fl_Process = [], fl_ProcessAliases = [], fl_Host = ''a.example'', fl_IP = [], fl_Port = 443, fl_Protocol = ''tcp''\<rparr>"
  obtain compiled where c: "newEngineSnapshot demo_platform (es_files ?s) ?direct = Inr compiled"
    by (simp add: newEngineSnapshot_def demo_config_valid_mode Let_def)
  let ?t = "reload_install compiled ?s"
  have step: "engine_step demo_platform ?s ?t" using c by (rule engine_step.reload)
  have "en_config compiled = with_defaults ?direct"
    using c by (auto simp: newEngineSnapshot_def Let_def split: option.splits)
  then have t: "DecideFlow (es_engine ?t) ?f = Some (unmatched ActionDirect ''direct'')"
    by (simp add: reload_install_def DecideFlow_def Let_def ModeDirect_def ModeGlobalProxy_def)
  have "DecideFlow (es_engine ?s) ?f = Some (unmatched ActionProxy ''default'')"
    by (simp add: demo_fields DecideFlow_def demo_config_def ModeDirect_def ModeGlobalProxy_def sub_decision_def fresh_sub_def)
  then have ne: "DecideFlow (es_engine ?t) ?f \<noteq> DecideFlow (es_engine ?s) ?f"
    using t by (simp add: unmatched_def ActionDirect_def ActionProxy_def)
  from decisions_change_only_by [OF demo_run step ne] demo_fields(4) show ?thesis using step by fastforce
qed

text \<open>A DNS name that is to be resolved by the system resolver of the exit is never routed to the local
  resolver or to a local custom proxy: the two lookups of the policy agree on the rule that matched.\<close>

theorem exit_system_consistent:
  assumes "engine_run pf s" "DNSResolver (es_engine s) host = ''exit_system''"
  shows "\<exists>exit. DNSRoute (es_engine s) host = (False, exit) \<and> \<not> IsCustomExitID exit \<and>
    (\<exists>r\<in>set (cf_DNSRules (en_config (es_engine s))).
       dns_rule_matches (dns_host host) r \<and> dr_Action r = DNSActionRemote \<and> dr_ExitID r = exit)"
proof -
  let ?c = "en_config (es_engine s)"
  have ok: "ValidateConfig (pf_url_parse pf) ?c = None" using run_ok [OF assms(1)] by (simp add: policy_ok_def)
  have valid: "dr_Resolver r = ''exit_system'' \<Longrightarrow> dr_Action r = DNSActionRemote \<and> \<not> IsCustomExitID (dr_ExitID r)"
    if "r \<in> set (cf_DNSRules ?c)" for r
    using ValidateConfig_ok(3) [OF ok that] by (auto simp: check_dns_rule_def IsCustomExitID_def split: if_splits)
  have enabled: "cf_ProxyDNSEnabled ?c" using assms(2) by (auto simp: DNSResolver_def split: if_splits)
  let ?res = "\<lambda>r. if dns_rule_matches (dns_host host) r
                  then Some (if dr_Action r = DNSActionRemote \<and> dr_Resolver r = ''exit_system'' then ''exit_system''
                             else ''encrypted'')
                  else None"
  let ?route = "\<lambda>r. if dns_rule_matches (dns_host host) r then Some (dr_Action r = DNSActionLocal, dr_ExitID r) else None"
  have "first_match ?res (cf_DNSRules ?c) ''encrypted'' = ''exit_system''"
    using assms(2) enabled by (simp add: DNSResolver_def)
  then obtain xs r ys where r: "cf_DNSRules ?c = xs @ r # ys" "\<forall>x\<in>set xs. ?res x = None" "?res r = Some ''exit_system''"
    using first_match_cases [of ?res "cf_DNSRules ?c" "''encrypted''"] by auto
  then have m: "dns_rule_matches (dns_host host) r" "dr_Action r = DNSActionRemote" "dr_Resolver r = ''exit_system''"
    by (auto split: if_splits)
  have "\<forall>x\<in>set xs. ?route x = None" using r(2) by (auto split: if_splits)
  from first_match_split [OF this, of r "(False, dr_ExitID r)" ys "(True, [])"] m r(1) enabled
  have "DNSRoute (es_engine s) host = (False, dr_ExitID r)"
    by (simp add: DNSRoute_def DNSActionRemote_def DNSActionLocal_def)
  moreover have "r \<in> set (cf_DNSRules ?c)" using r(1) by simp
  ultimately show ?thesis using m valid by blast
qed

lemma exit_system_consistent_witness:
  "\<exists>exit. DNSRoute (es_engine demo_state) ''Corp.'' = (False, exit) \<and> \<not> IsCustomExitID exit"
proof -
  have "DNSResolver (es_engine demo_state) ''Corp.'' = ''exit_system''"
    by (simp add: demo_fields DNSResolver_def with_defaults_def demo_config_def demo_dns_def dns_rule_matches_def dns_host_def
        matchDNSRuleDomain_def HasPrefix_def TrimSuffix_def suffix_to_prefix TrimSpace_def TrimRightSpace_def
        is_space_def code_def lower_char_def is_upper_def DNSActionRemote_def char_of_eq_iff take_bit_eq_mod)
  from exit_system_consistent [OF demo_run this] show ?thesis by blast
qed

end
