(* ===== verification/Routing_Dialer.thy ===== *)
theory Routing_Dialer
  imports Routing_Engine
begin

text \<open>
  \<open>agent/routing/dialer.go\<close>, \<open>dns_mode.go\<close> and \<open>selected_exit.go\<close>: how a connection request becomes a
  decision, and a decision becomes a call of the direct dialer, of an upstream proxy or of the relay
  tunnel. Those calls are the results of the model (\<open>dial_plan\<close>), so that what is dialled can be stated;
  the local resolver and the process lookup are parameters, and the names given to the resolver are
  recorded.
\<close>

section \<open>State and plans\<close>

record client_info =
  ci_DestinationIP :: string
  ci_InboundInterface :: string
  ci_Entry :: string
  ci_Source :: "addr \<times> u16"
  ci_Local :: "addr \<times> u16"
  ci_Process :: string
  ci_ProcessAliases :: "string list"

text \<open>The tunnel: whether it is a \<open>client.TunnelDialer\<close>, with its default exit, and whether it takes UDP options.\<close>

record tunnel =
  tn_default :: "string option"
  tn_options :: bool

record routing_dialer =
  rd_engine :: "engine option"
  rd_tunnel :: "tunnel option"
  rd_customExits :: "string \<Rightarrow> custom_exit option"

record upstream_config =
  uc_Mode :: string
  uc_Address :: string
  uc_Username :: string
  uc_Password :: string

record udp_options =
  uo_DatagramRequired :: bool
  uo_PreferStream :: bool

datatype dial_plan =
  DirectTo string
| ViaUpstream upstream_config string u16
| ViaTunnel string string u16
| ViaTunnelUDP string string u16 udp_options
| ViaTunnelPlainUDP string string u16

datatype routing_error =
  EmptyTarget | UnsupportedDNSMode string | LocalDNSFailed string | NoAddresses string | Cancelled
  | MissingCustomExit string | BlockedByRule | UnsupportedAction string | DatagramRequired
  | SubscriptionPort | NoTunnel | NoDispatcher

section \<open>Custom exits of the dialer\<close>

definition SetCustomExits :: "custom_exit list \<Rightarrow> routing_dialer \<Rightarrow> routing_dialer" where
  "SetCustomExits items d =
     d\<lparr>rd_customExits := fold (\<lambda>x m. m(ce_ID x \<mapsto> x)) items (\<lambda>_. None)\<rparr>"

definition lookupCustom :: "routing_dialer \<Rightarrow> string \<Rightarrow> routing_error + upstream_config" where
  "lookupCustom d i =
     (case rd_customExits d i of
        None \<Rightarrow> Inl (MissingCustomExit i)
      | Some x \<Rightarrow>
        if \<not> ce_Enabled x then Inl (MissingCustomExit i)
        else Inr \<lparr>uc_Mode = ce_Protocol x, uc_Address = ce_Address x, uc_Username = ce_Username x,
                  uc_Password = ce_Password x\<rparr>)"

definition CustomExitReady :: "routing_dialer \<Rightarrow> string \<Rightarrow> bool" where
  "CustomExitReady d i =
     (if \<not> IsCustomExitID i then False
      else (case rd_customExits d i of None \<Rightarrow> False | Some x \<Rightarrow> ce_Enabled x))"

section \<open>The target presented to an exit\<close>

definition firstResolvedIP :: "addr list \<Rightarrow> string" where
  "firstResolvedIP ips =
     first_match (\<lambda>a. case a of Addr4 _ \<Rightarrow> Some (addr_String (Unmap a)) | _ \<Rightarrow> None) ips
       (first_match (\<lambda>a. if a \<noteq> InvalidAddr then Some (addr_String (Unmap a)) else None) ips [])"

text \<open>\<open>cancelled\<close> is the state of the request's context after the lookup.\<close>

definition autoDNSResolution :: "bool \<Rightarrow> string \<Rightarrow> string + addr list \<Rightarrow> routing_error + string" where
  "autoDNSResolution cancelled host answer =
     (if cancelled then Inl Cancelled
      else (case answer of
              Inr ips \<Rightarrow> if firstResolvedIP ips \<noteq> [] then Inr (firstResolvedIP ips) else Inr host
            | Inl _ \<Rightarrow> Inr host))"

text \<open>The result together with the names given to the local resolver.\<close>

definition ResolveProxyTarget ::
  "(string \<Rightarrow> string + addr list) \<Rightarrow> bool \<Rightarrow> client_info \<Rightarrow> routing_dialer \<Rightarrow> string \<Rightarrow>
     (routing_error + string) \<times> string list" where
  "ResolveProxyTarget lookup cancelled info d host0 =
     (let host = TrimSpace host0 in
      if host = [] then (Inl EmptyTarget, [])
      else (case ParseAddr (Trim host ''[]'') of
              Some a \<Rightarrow> (Inr (addr_String (Unmap a)), [])
            | None \<Rightarrow>
              let (mode, auto) =
                (case rd_engine d of
                   Some e \<Rightarrow> (cf_DNSMode (Engine_Config e), cf_AutoDetectDNS (Engine_Config e))
                 | None \<Rightarrow> (DNSModeProxy, False)) in
              if mode = [] \<or> mode = DNSModeProxy then (Inr host, [])
              else if mode \<noteq> DNSModeLocal then (Inl (UnsupportedDNSMode mode), [])
              else if ci_Entry info = ''gateway'' \<and> ci_DestinationIP info \<noteq> [] then (Inr (ci_DestinationIP info), [])
              else if auto then (autoDNSResolution cancelled host (lookup host), [host])
              else (case lookup host of
                      Inl e \<Rightarrow> (Inl (LocalDNSFailed host), [host])
                    | Inr ips \<Rightarrow>
                      if firstResolvedIP ips \<noteq> [] then (Inr (firstResolvedIP ips), [host])
                      else (Inl (NoAddresses host), [host]))))"

section \<open>From a request to a decision\<close>

definition GetDefaultExitID :: "routing_dialer \<Rightarrow> string" where
  "GetDefaultExitID d =
     (case rd_tunnel d of None \<Rightarrow> [] | Some t \<Rightarrow> (case tn_default t of None \<Rightarrow> [] | Some i \<Rightarrow> i))"

definition SetDefaultExitID :: "string \<Rightarrow> routing_dialer \<Rightarrow> routing_dialer" where
  "SetDefaultExitID i d =
     (case rd_tunnel d of
        None \<Rightarrow> d
      | Some t \<Rightarrow>
        (case tn_default t of None \<Rightarrow> d | Some _ \<Rightarrow> d\<lparr>rd_tunnel := Some (t\<lparr>tn_default := Some i\<rparr>)\<rparr>))"

record metadata =
  md_ProcessID :: nat
  md_Process :: string
  md_Host :: string
  md_IP :: string
  md_Port :: u16
  md_DomainSource :: string
  md_Protocol :: string
  md_Entry :: string
  md_Action :: string
  md_Rule :: string
  md_ExitID :: string
  md_Source :: "addr \<times> u16"

definition flowDomainSource :: "string \<Rightarrow> string \<Rightarrow> string \<Rightarrow> string" where
  "flowDomainSource entry host ip =
     (if entry = ''gateway'' then (if host \<noteq> ip then ''dns'' else ''unknown'') else ''requested'')"

type_synonym process_lookup = "(string \<Rightarrow> addr \<times> u16 \<Rightarrow> addr \<times> u16 \<Rightarrow> (nat \<times> string) option) option"

definition begin_flow :: "process_lookup \<Rightarrow> client_info \<Rightarrow> string \<Rightarrow> u16 \<Rightarrow> string \<Rightarrow> nat \<times> flow" where
  "begin_flow lookup info host port protocol =
     (let known = fst (ci_Source info) \<noteq> InvalidAddr;
          f = \<lparr>fl_Entry = ci_Entry info,
               fl_SourceIP = (if known then addr_String (Unmap (fst (ci_Source info))) else []),
               fl_SourcePort = (if known then snd (ci_Source info) else 0),
               fl_InboundInterface = ci_InboundInterface info, fl_Process = ci_Process info,
               fl_ProcessAliases = ci_ProcessAliases info, fl_Host = host, fl_IP = ci_DestinationIP info,
               fl_Port = port, fl_Protocol = protocol\<rparr>;
          (pid, f) =
            (if fl_Entry f \<noteq> ''gateway'' \<and> fl_Process f = [] \<and> known \<and> fst (ci_Local info) \<noteq> InvalidAddr
             then (case lookup of
                     None \<Rightarrow> (0, f)
                   | Some l \<Rightarrow>
                     (case l protocol (ci_Source info) (ci_Local info) of
                        Some (i, p) \<Rightarrow> (i, f\<lparr>fl_Process := p\<rparr>) | None \<Rightarrow> (0, f)))
             else (0, f))
      in (pid, case ParseAddr host of Some a \<Rightarrow> f\<lparr>fl_IP := addr_String (Unmap a)\<rparr> | None \<Rightarrow> f))"

definition begin_exit :: "routing_dialer \<Rightarrow> string \<Rightarrow> decision \<Rightarrow> string" where
  "begin_exit d exitID de =
     (let exit = (if de_ExitID de \<noteq> [] then de_ExitID de else exitID) in
      if exit = [] then GetDefaultExitID d else exit)"

text \<open>\<open>begin\<close>: a dialer without an engine panics.\<close>

definition begin_dial ::
  "process_lookup \<Rightarrow> client_info \<Rightarrow> routing_dialer \<Rightarrow> string \<Rightarrow> string \<Rightarrow> u16 \<Rightarrow> string \<Rightarrow> (decision \<times> metadata) option" where
  "begin_dial lookup info d exitID host port protocol =
     (let (pid, f) = begin_flow lookup info host port protocol in
      case rd_engine d of
        None \<Rightarrow> None
      | Some e \<Rightarrow>
        (case DecideFlow e f of
           None \<Rightarrow> None
         | Some de \<Rightarrow>
           let exit = (if de_Action de = ActionProxy then begin_exit d exitID de else []);
               de' = (if de_Action de = ActionProxy then de\<lparr>de_ExitID := exit\<rparr> else de)
           in Some (de',
                \<lparr>md_ProcessID = pid, md_Process = fl_Process f, md_Host = host, md_IP = fl_IP f, md_Port = port,
                 md_DomainSource = flowDomainSource (ci_Entry info) host (fl_IP f), md_Protocol = protocol,
                 md_Entry = ci_Entry info, md_Action = de_Action de', md_Rule = de_Rule de', md_ExitID = exit,
                 md_Source = ci_Source info\<rparr>)))"

definition finishDial :: "decision \<Rightarrow> string" where
  "finishDial de = (if de_Action de = ActionReject then ''rejected'' else ''failed'')"

section \<open>From a decision to a plan\<close>

definition direct_target :: "client_info \<Rightarrow> string \<Rightarrow> string" where
  "direct_target info host =
     (if ci_Entry info = ''gateway'' \<and> ci_DestinationIP info \<noteq> [] then ci_DestinationIP info else host)"

definition plan_exit :: "string \<Rightarrow> decision \<Rightarrow> string" where
  "plan_exit exitNodeID de = (if de_ExitID de \<noteq> [] then de_ExitID de else exitNodeID)"

type_synonym resolver = "string \<Rightarrow> string + addr list"

definition dialTCP ::
  "resolver \<Rightarrow> bool \<Rightarrow> client_info \<Rightarrow> routing_dialer \<Rightarrow> string \<Rightarrow> string \<Rightarrow> u16 \<Rightarrow> decision \<Rightarrow>
     (routing_error + dial_plan) \<times> string list" where
  "dialTCP lookup cancelled info d exitNodeID host port de =
     (if de_Action de = ActionDirect
      then (Inr (DirectTo (JoinHostPort (direct_target info host) (Itoa (unat port)))), [])
      else if de_Action de = ActionReject then (Inl BlockedByRule, [])
      else if de_Action de = ActionProxy
      then
        (let eid = plan_exit exitNodeID de in
         case ResolveProxyTarget lookup cancelled info d host of
           (Inl e, asked) \<Rightarrow> (Inl e, asked)
         | (Inr target, asked) \<Rightarrow>
           if IsCustomExitID eid
           then (case lookupCustom d eid of
                   Inl e \<Rightarrow> (Inl e, asked) | Inr u \<Rightarrow> (Inr (ViaUpstream u target port), asked))
           else (Inr (ViaTunnel eid target port), asked))
      else (Inl (UnsupportedAction (de_Action de)), []))"

definition tunnel_udp :: "routing_dialer \<Rightarrow> string \<Rightarrow> string \<Rightarrow> u16 \<Rightarrow> udp_options \<Rightarrow> routing_error + dial_plan" where
  "tunnel_udp d eid target port opts =
     (if (case rd_tunnel d of Some t \<Rightarrow> tn_options t | None \<Rightarrow> False) then Inr (ViaTunnelUDP eid target port opts)
      else if uo_DatagramRequired opts then Inl DatagramRequired
      else Inr (ViaTunnelPlainUDP eid target port))"

definition dialUDP ::
  "resolver \<Rightarrow> bool \<Rightarrow> client_info \<Rightarrow> routing_dialer \<Rightarrow> string \<Rightarrow> string \<Rightarrow> u16 \<Rightarrow> decision \<Rightarrow> udp_options \<Rightarrow>
     (routing_error + dial_plan) \<times> string list" where
  "dialUDP lookup cancelled info d exitNodeID host port de opts =
     (if de_Action de = ActionDirect
      then (Inr (DirectTo (JoinHostPort (direct_target info host) (Itoa (unat port)))), [])
      else if de_Action de = ActionReject then (Inl BlockedByRule, [])
      else if de_Action de = ActionProxy
      then
        (let eid = plan_exit exitNodeID de in
         case ResolveProxyTarget lookup cancelled info d host of
           (Inl e, asked) \<Rightarrow> (Inl e, asked)
         | (Inr target, asked) \<Rightarrow>
           if IsCustomExitID eid
           then (case lookupCustom d eid of
                   Inl e \<Rightarrow> (Inl e, asked)
                 | Inr u \<Rightarrow>
                   if de_DatagramRequired de then (Inl DatagramRequired, asked)
                   else (Inr (ViaUpstream u target port), asked))
           else
             let opts = (if de_DatagramRequired de then \<lparr>uo_DatagramRequired = True, uo_PreferStream = False\<rparr> else opts)
             in (tunnel_udp d eid target port opts, asked))
      else (Inl (UnsupportedAction (de_Action de)), []))"

definition RoutingDialer_DialTCP ::
  "process_lookup \<Rightarrow> resolver \<Rightarrow> bool \<Rightarrow> client_info \<Rightarrow> routing_dialer \<Rightarrow> string \<Rightarrow> string \<Rightarrow> u16 \<Rightarrow>
     ((routing_error + dial_plan) \<times> string list) option" where
  "RoutingDialer_DialTCP plookup lookup cancelled info d exitNodeID host port =
     (case begin_dial plookup info d exitNodeID host port ''tcp'' of
        None \<Rightarrow> None
      | Some (de, _) \<Rightarrow> Some (dialTCP lookup cancelled info d exitNodeID host port de))"

definition DialBrowserNetworkTCP ::
  "process_lookup \<Rightarrow> resolver \<Rightarrow> bool \<Rightarrow> client_info \<Rightarrow> routing_dialer \<Rightarrow> string \<Rightarrow> u16 \<Rightarrow>
     ((routing_error + dial_plan) \<times> string list) option" where
  "DialBrowserNetworkTCP plookup lookup cancelled info d host port =
     RoutingDialer_DialTCP plookup lookup cancelled info d [] host port"

definition RoutingDialer_DialUDPWithOptions ::
  "process_lookup \<Rightarrow> resolver \<Rightarrow> bool \<Rightarrow> client_info \<Rightarrow> routing_dialer \<Rightarrow> string \<Rightarrow> string \<Rightarrow> u16 \<Rightarrow> udp_options \<Rightarrow>
     ((routing_error + dial_plan) \<times> string list) option" where
  "RoutingDialer_DialUDPWithOptions plookup lookup cancelled info d exitNodeID host port opts =
     (case begin_dial plookup info d exitNodeID host port ''udp'' of
        None \<Rightarrow> None
      | Some (de, _) \<Rightarrow> Some (dialUDP lookup cancelled info d exitNodeID host port de opts))"

definition RoutingDialer_DialUDP ::
  "process_lookup \<Rightarrow> resolver \<Rightarrow> bool \<Rightarrow> client_info \<Rightarrow> routing_dialer \<Rightarrow> string \<Rightarrow> string \<Rightarrow> u16 \<Rightarrow>
     ((routing_error + dial_plan) \<times> string list) option" where
  "RoutingDialer_DialUDP plookup lookup cancelled info d exitNodeID host port =
     RoutingDialer_DialUDPWithOptions plookup lookup cancelled info d exitNodeID host port
       \<lparr>uo_DatagramRequired = False, uo_PreferStream = False\<rparr>"

definition DialSubscriptionTCP :: "routing_dialer \<Rightarrow> string \<Rightarrow> string \<Rightarrow> u16 \<Rightarrow> routing_error + dial_plan" where
  "DialSubscriptionTCP d exitID hostname port =
     (if port \<noteq> 443 then Inl SubscriptionPort
      else
        let eid = (if exitID = [] then GetDefaultExitID d else exitID) in
        if IsCustomExitID eid
        then (case lookupCustom d eid of Inl e \<Rightarrow> Inl e | Inr u \<Rightarrow> Inr (ViaUpstream u hostname port))
        else if rd_tunnel d = None then Inl NoTunnel
        else Inr (ViaTunnel eid hostname port))"

section \<open>Flows that were classified before\<close>

definition Selected_DialTCP ::
  "resolver \<Rightarrow> bool \<Rightarrow> client_info \<Rightarrow> routing_dialer option \<Rightarrow> string \<Rightarrow> string \<Rightarrow> u16 \<Rightarrow>
     (routing_error + dial_plan) \<times> string list" where
  "Selected_DialTCP lookup cancelled info rd i host port =
     (case rd of
        None \<Rightarrow> (Inl NoDispatcher, [])
      | Some d \<Rightarrow>
        (case ResolveProxyTarget lookup cancelled info d host of
           (Inl e, asked) \<Rightarrow> (Inl e, asked)
         | (Inr target, asked) \<Rightarrow>
           if IsCustomExitID i
           then (case lookupCustom d i of
                   Inl e \<Rightarrow> (Inl e, asked) | Inr u \<Rightarrow> (Inr (ViaUpstream u target port), asked))
           else (Inr (ViaTunnel i target port), asked)))"

definition Selected_DialUDPWithOptions ::
  "resolver \<Rightarrow> bool \<Rightarrow> client_info \<Rightarrow> routing_dialer option \<Rightarrow> string \<Rightarrow> string \<Rightarrow> u16 \<Rightarrow> udp_options \<Rightarrow>
     (routing_error + dial_plan) \<times> string list" where
  "Selected_DialUDPWithOptions lookup cancelled info rd i host port opts =
     (case rd of
        None \<Rightarrow> (Inl NoDispatcher, [])
      | Some d \<Rightarrow>
        if uo_DatagramRequired opts \<and> IsCustomExitID i then (Inl DatagramRequired, [])
        else (case ResolveProxyTarget lookup cancelled info d host of
                (Inl e, asked) \<Rightarrow> (Inl e, asked)
              | (Inr target, asked) \<Rightarrow>
                if IsCustomExitID i
                then (case lookupCustom d i of
                        Inl e \<Rightarrow> (Inl e, asked) | Inr u \<Rightarrow> (Inr (ViaUpstream u target port), asked))
                else (tunnel_udp d i target port opts, asked)))"

section \<open>Custom exits resolve\<close>

lemma SetCustomExits_find:
  assumes "distinct (map ce_ID items)"
  shows "rd_customExits (SetCustomExits items d) i = FindCustomExit items i"
proof -
  have "fold (\<lambda>x m. m(ce_ID x \<mapsto> x)) items m i =
      (case FindCustomExit items i of Some x \<Rightarrow> Some x | None \<Rightarrow> m i)" for m
    using assms
  proof (induction items arbitrary: m)
    case (Cons x xs)
    have "FindCustomExit xs (ce_ID x) = None"
      using Cons.prems by (auto simp: FindCustomExit_def find_None_iff image_iff)
    with Cons show ?case by (auto simp: FindCustomExit_def split: option.split)
  qed (simp add: FindCustomExit_def)
  then show ?thesis by (simp add: SetCustomExits_def split: option.split)
qed

lemma check_exit_ID: "check_exit seen i x = None \<Longrightarrow> ce_ID x \<notin> set seen"
  by (auto simp: check_exit_def split: if_splits)

lemma check_exits_distinct:
  "check_exits seen i xs = None \<Longrightarrow> distinct (map ce_ID xs) \<and> ce_ID ` set xs \<inter> set seen = {}"
  by (induction seen i xs rule: check_exits.induct) (auto split: option.splits dest: check_exit_ID)

lemma put_used_keys: "fst ` set (put_used i src u) = insert i (fst ` set u)"
  by (induction i src u rule: put_used.induct) auto

lemma used_rules_keys:
  "fst ` set (used_rules i rs u) =
     fst ` set u \<union> {rl_ExitID r |r. r \<in> set rs \<and> rl_Action r = ActionProxy \<and> IsCustomExitID (rl_ExitID r)}"
  by (induction i rs u rule: used_rules.induct) (auto simp: put_used_keys)

lemma used_dns_keys: "fst ` set (used_dns ids u) = fst ` set u \<union> {i \<in> set ids. IsCustomExitID i}"
proof -
  have "fst ` set (fold (\<lambda>i u. if IsCustomExitID i then put_used i src u else u) ids u) =
      fst ` set u \<union> {i \<in> set ids. IsCustomExitID i}" for src
    by (induction ids arbitrary: u) (auto simp: put_used_keys)
  then show ?thesis by (simp add: used_dns_def)
qed

lemma check_used_ok:
  "check_used items (i, src) = None \<Longrightarrow> \<exists>x. FindCustomExit items i = Some x \<and> ce_Enabled x"
  by (auto simp: check_used_def split: option.splits if_splits)

lemma references_ok:
  assumes "ValidateCustomReferences items defaultID sharedID rules dnsIDs = None" "IsCustomExitID i"
    "i = defaultID \<or> (\<exists>r\<in>set rules. rl_Action r = ActionProxy \<and> rl_ExitID r = i) \<or> i \<in> set dnsIDs \<or>
     (i = sharedID \<and> \<not> IsID i)"
  shows "\<exists>x. FindCustomExit items i = Some x \<and> ce_Enabled x"
proof -
  let ?u0 = "if IsCustomExitID defaultID then [(defaultID, ''proxy.default_exit_id'')] else []"
  let ?u1 = "used_rules 0 rules ?u0"
  let ?u2 = "if sharedID \<noteq> [] \<and> \<not> IsID sharedID then put_used sharedID ''exit.upstream_exit_id'' ?u1 else ?u1"
  let ?u3 = "used_dns dnsIDs ?u2"
  have ok: "\<forall>p\<in>set ?u3. check_used items p = None"
    using assms(1) by (simp add: ValidateCustomReferences_def Let_def first_error_None split: if_splits)
  have ne: "i \<noteq> []" using assms(2) by (auto simp: IsCustomExitID_def HasPrefix_def)
  have "i \<in> fst ` set ?u3"
    using assms(2,3) ne unfolding used_dns_keys
    by (auto simp: put_used_keys used_rules_keys split: if_splits)
  then obtain src where "(i, src) \<in> set ?u3" by auto
  with ok check_used_ok show ?thesis by blast
qed

text \<open>Once the custom exits and the references to them validate, publishing them leaves no dangling
  reference: the default exit, every exit of a proxy rule, of a DNS rule and the shared upstream that is
  a custom exit is found by the dialer, enabled, with the address it was configured with.\<close>

theorem custom_references_resolve:
  assumes "ValidateCustomExits items = None"
    "ValidateCustomReferences items defaultID sharedID rules dnsIDs = None" "IsCustomExitID i"
    "i = defaultID \<or> (\<exists>r\<in>set rules. rl_Action r = ActionProxy \<and> rl_ExitID r = i) \<or> i \<in> set dnsIDs \<or>
     (i = sharedID \<and> \<not> IsID i)"
  shows "\<exists>x\<in>set items. ce_ID x = i \<and> ce_Enabled x \<and> CustomExitReady (SetCustomExits items d) i \<and>
    lookupCustom (SetCustomExits items d) i =
      Inr \<lparr>uc_Mode = ce_Protocol x, uc_Address = ce_Address x, uc_Username = ce_Username x, uc_Password = ce_Password x\<rparr>"
proof -
  have "distinct (map ce_ID items)"
    using assms(1) check_exits_distinct by (auto simp: ValidateCustomExits_def)
  note find = SetCustomExits_find [OF this, of d i]
  from references_ok [OF assms(2-4)] obtain x where x: "FindCustomExit items i = Some x" "ce_Enabled x" by blast
  have "x \<in> set items" "ce_ID x = i" using x(1) by (auto simp: FindCustomExit_def find_Some_iff)
  with x find assms(3) show ?thesis by (auto simp: CustomExitReady_def lookupCustom_def)
qed

lemma custom_references_resolve_witness:
  "let x = \<lparr>ce_ID = ''local:a'', ce_Name = ''A'', ce_Enabled = True, ce_Protocol = ''socks5'',
            ce_Address = ''[::1]:1080'', ce_Username = [], ce_Password = [], ce_HasPassword = False\<rparr>;
       d = \<lparr>rd_engine = None, rd_tunnel = None, rd_customExits = (\<lambda>_. None)\<rparr>
   in CustomExitReady (SetCustomExits [x] d) ''local:a''"
proof -
  let ?x = "\<lparr>ce_ID = ''local:a'', ce_Name = ''A'', ce_Enabled = True, ce_Protocol = ''socks5'',
            ce_Address = ''[::1]:1080'', ce_Username = [], ce_Password = [], ce_HasPassword = False\<rparr>"
  have "SplitHostPort ''[::1]:1080'' = Some (''::1'', ''1080'')"
    by (simp add: SplitHostPort_def split_bracketed_def HasPrefix_def)
  moreover have "Atoi ''1080'' = Some 1080"
    by (simp add: Atoi_def HasPrefix_def Atoi_digits_def is_digit_def code_def Let_def)
  ultimately have "ValidateCustomExits [?x] = None"
    by (simp add: ValidateCustomExits_def check_exit_def IsCustomExitID_def HasPrefix_def ContainsAny_def
        blank_or_slash_def TrimSpace_def TrimRightSpace_def is_space_def code_def)
  moreover have "ValidateCustomReferences [?x] ''local:a'' [] [] [] = None"
    by (simp add: ValidateCustomReferences_def IsCustomExitID_def HasPrefix_def Let_def used_dns_def first_error_def
        check_used_def FindCustomExit_def)
  moreover have "IsCustomExitID ''local:a''" by (simp add: IsCustomExitID_def HasPrefix_def)
  ultimately show ?thesis
    using custom_references_resolve [of "[?x]" "''local:a''" "[]" "[]" "[]" "''local:a''"
      "\<lparr>rd_engine = None, rd_tunnel = None, rd_customExits = (\<lambda>_. None)\<rparr>"] by (simp add: Let_def)
qed

section \<open>Where names are resolved\<close>

lemma firstResolvedIP_member:
  assumes "firstResolvedIP ips \<noteq> []"
  shows "\<exists>a\<in>set ips. a \<noteq> InvalidAddr \<and> firstResolvedIP ips = addr_String (Unmap a)"
proof -
  let ?v4 = "\<lambda>a. case a of Addr4 _ \<Rightarrow> Some (addr_String (Unmap a)) | _ \<Rightarrow> None"
  let ?any = "\<lambda>a. if a \<noteq> InvalidAddr then Some (addr_String (Unmap a)) else None"
  let ?good = "\<lambda>v. \<exists>a\<in>set ips. a \<noteq> InvalidAddr \<and> v = addr_String (Unmap a)"
  have v4: "a \<noteq> InvalidAddr \<and> v = addr_String (Unmap a)" if "?v4 a = Some v" for a v
    using that by (cases a) auto
  have any: "a \<noteq> InvalidAddr \<and> v = addr_String (Unmap a)" if "?any a = Some v" for a v
    using that by (simp split: if_splits)
  have "first_match ?any ips [] = [] \<or> ?good (first_match ?any ips [])"
    using first_match_member [of ips ?any "[]"] any by blast
  moreover have "firstResolvedIP ips = first_match ?any ips [] \<or> ?good (firstResolvedIP ips)"
    using first_match_member [of ips ?v4 "first_match ?any ips []"] v4 unfolding firstResolvedIP_def by blast
  ultimately show ?thesis using assms by presburger
qed

text \<open>Behind a running engine the DNS mode decides who sees a name. In proxy mode the local resolver is
  never asked and the name itself is presented to the exit; in local mode without automatic detection a
  name is never presented to the exit: the target is an address, or the request fails.\<close>

theorem proxy_target_policy:
  assumes "engine_run pf s" "rd_engine d = Some (es_engine s)" "TrimSpace host \<noteq> []"
    "ParseAddr (Trim (TrimSpace host) ''[]'') = None"
  shows "cf_DNSMode (en_config (es_engine s)) = DNSModeProxy \<and>
      ResolveProxyTarget lookup cancelled info d host = (Inr (TrimSpace host), []) \<or>
    cf_DNSMode (en_config (es_engine s)) = DNSModeLocal \<and>
      (\<not> cf_AutoDetectDNS (en_config (es_engine s)) \<longrightarrow>
       (\<forall>t. fst (ResolveProxyTarget lookup cancelled info d host) = Inr t \<longrightarrow>
          t = ci_DestinationIP info \<and> ci_Entry info = ''gateway'' \<or>
          (\<exists>ips a. lookup (TrimSpace host) = Inr ips \<and> a \<in> set ips \<and> a \<noteq> InvalidAddr \<and> t = addr_String (Unmap a))))"
proof -
  let ?c = "en_config (es_engine s)"
  let ?h = "TrimSpace host"
  have mode: "cf_DNSMode ?c = DNSModeProxy \<or> cf_DNSMode ?c = DNSModeLocal"
    using run_ok [OF assms(1)] policy_dns_mode by blast
  show ?thesis
  proof (cases "cf_DNSMode ?c = DNSModeProxy")
    case True
    then show ?thesis using assms(2-4) by (simp add: ResolveProxyTarget_def Let_def Engine_Config_def)
  next
    case False
    with mode have l: "cf_DNSMode ?c = DNSModeLocal" "cf_DNSMode ?c \<noteq> []" by (auto simp: DNSModeLocal_def)
    have "t = ci_DestinationIP info \<and> ci_Entry info = ''gateway'' \<or>
        (\<exists>ips a. lookup ?h = Inr ips \<and> a \<in> set ips \<and> a \<noteq> InvalidAddr \<and> t = addr_String (Unmap a))"
      if "\<not> cf_AutoDetectDNS ?c" "fst (ResolveProxyTarget lookup cancelled info d host) = Inr t" for t
    proof (cases "ci_Entry info = ''gateway'' \<and> ci_DestinationIP info \<noteq> []")
      case True
      with that assms(2-4) l False show ?thesis by (auto simp: ResolveProxyTarget_def Let_def Engine_Config_def)
    next
      case gw: False
      have "fst (ResolveProxyTarget lookup cancelled info d host) =
          (case lookup ?h of
             Inl e \<Rightarrow> Inl (LocalDNSFailed ?h)
           | Inr ips \<Rightarrow> if firstResolvedIP ips \<noteq> [] then Inr (firstResolvedIP ips) else Inl (NoAddresses ?h))"
        using gw that(1) assms(2-4) l False by (auto simp: ResolveProxyTarget_def Let_def Engine_Config_def split: sum.split)
      with that(2) obtain ips where ips: "lookup ?h = Inr ips" "firstResolvedIP ips \<noteq> []" "t = firstResolvedIP ips"
        by (auto split: sum.splits if_splits)
      with firstResolvedIP_member show ?thesis by blast
    qed
    with l show ?thesis by blast
  qed
qed

lemma proxy_target_policy_witness:
  "let d = \<lparr>rd_engine = Some (es_engine demo_state), rd_tunnel = None, rd_customExits = (\<lambda>_. None)\<rparr>
   in \<forall>lookup info. ResolveProxyTarget lookup False info d ''corp'' = (Inr ''corp'', [])"
proof -
  let ?d = "\<lparr>rd_engine = Some (es_engine demo_state), rd_tunnel = None, rd_customExits = (\<lambda>_. None)\<rparr>"
  have t: "TrimSpace ''corp'' = ''corp''" by (simp add: TrimSpace_def TrimRightSpace_def is_space_def code_def)
  have p: "ParseAddr (Trim (TrimSpace ''corp'') ''[]'') = None" by (simp add: t Trim_def ip_eval)
  have m: "cf_DNSMode (en_config (es_engine demo_state)) = DNSModeProxy"
    by (simp add: demo_fields) (simp add: demo_config_def)
  have "DNSModeProxy \<noteq> DNSModeLocal" by simp
  with proxy_target_policy [OF demo_run, of ?d "''corp''"] t p m show ?thesis by (simp add: Let_def)
qed

end
