(* ===== verification/Go_Int.thy ===== *)
theory Go_Int
  imports Complex_Main Prelude
begin

text \<open>
  Go's 64-bit integers as the congestion controllers use them. Quantities are mathematical integers; a product
  or a conversion that may leave its width is wrapped by \<open>i64\<close> or \<open>u64\<close> where the code computes it. Integer
  division truncates towards zero. Float constants are named by rationals: what an operation on \<open>float64\<close> values
  yields as an integer is a parameter of the definitions that use one.
\<close>

definition i64 :: "int \<Rightarrow> int" where "i64 x = (x + 2 ^ 63) mod 2 ^ 64 - 2 ^ 63"
definition u64 :: "int \<Rightarrow> int" where "u64 x = x mod 2 ^ 64"

definition tdiv :: "int \<Rightarrow> int \<Rightarrow> int" where
  "tdiv a b = (if (a < 0) = (b < 0) then \<bar>a\<bar> div \<bar>b\<bar> else - (\<bar>a\<bar> div \<bar>b\<bar>))"

definition tmod :: "int \<Rightarrow> int \<Rightarrow> int" where "tmod a b = a - b * tdiv a b"

text \<open>\<open>time.Second\<close> in nanoseconds.\<close>

definition Second :: int where "Second = 1000000000"

text \<open>The product of a gain and an integer, computed as \<open>ByteCount(gain * float64(x))\<close>.\<close>

type_synonym fmul = "rat \<Rightarrow> int \<Rightarrow> int"

lemma i64_id [simp]: "- (2 ^ 63) \<le> x \<Longrightarrow> x < 2 ^ 63 \<Longrightarrow> i64 x = x"
  by (simp add: i64_def)

lemma u64_id [simp]: "0 \<le> x \<Longrightarrow> x < 2 ^ 64 \<Longrightarrow> u64 x = x"
  by (simp add: u64_def)

lemma tdiv_nonneg [simp]: "0 \<le> a \<Longrightarrow> 0 < b \<Longrightarrow> tdiv a b = a div b"
  by (simp add: tdiv_def)

lemma tmod_nonneg [simp]: "0 \<le> a \<Longrightarrow> 0 < b \<Longrightarrow> tmod a b = a mod b"
  by (simp add: tmod_def minus_mult_div_eq_mod)

end
