(* ===== verification/Congestion_Pacer.thy ===== *)
theory Congestion_Pacer
  imports Go_Int
begin

text \<open>
  \<open>internal/congestion/common/pacer.go\<close>: the token bucket that spaces packets out, used by both congestion
  controllers. The bandwidth callback is evaluated by the caller and passed as \<open>bw\<close> (bytes per second); it is
  asked again only while nothing changes, so one value per call is enough. quic-go's constants are parameters, and
  so is the \<open>float64\<close> product of a bandwidth and an elapsed time.
\<close>

record quic_consts =
  qc_InitialPacketSize :: int
  qc_MinInitialPacketSize :: int
  qc_MinPacingDelay :: int
  qc_MaxPacketBufferSize :: int
  qc_MaxCongestionWindowPackets :: int

definition maxBurstPackets :: int where "maxBurstPackets = 10"
definition maxBurstPacingDelayMultiplier :: int where "maxBurstPacingDelayMultiplier = 4"

record pacer =
  pc_budgetAtLastSent :: int
  pc_maxDatagramSize :: int
  pc_lastSentTime :: int

definition NewPacer :: "quic_consts \<Rightarrow> pacer" where
  "NewPacer qc =
     \<lparr>pc_budgetAtLastSent = maxBurstPackets * qc_InitialPacketSize qc, pc_maxDatagramSize = qc_InitialPacketSize qc,
      pc_lastSentTime = 0\<rparr>"

definition maxBurstSize :: "quic_consts \<Rightarrow> int \<Rightarrow> pacer \<Rightarrow> int" where
  "maxBurstSize qc bw p =
     max (tdiv (i64 (maxBurstPacingDelayMultiplier * qc_MinPacingDelay qc * bw)) Second)
       (maxBurstPackets * pc_maxDatagramSize p)"

text \<open>\<open>fsec bw elapsed\<close> is the value of \<open>float64(bw) * elapsed.Seconds()\<close>.\<close>

type_synonym fsec = "int \<Rightarrow> int \<Rightarrow> rat"

definition trunc :: "rat \<Rightarrow> int" where "trunc q = (if q < 0 then \<lceil>q\<rceil> else \<lfloor>q\<rfloor>)"

definition Budget :: "quic_consts \<Rightarrow> fsec \<Rightarrow> int \<Rightarrow> int \<Rightarrow> pacer \<Rightarrow> int" where
  "Budget qc fsec bw now p =
     (if pc_lastSentTime p = 0 then maxBurstSize qc bw p
      else
        let maxBudget = maxBurstSize qc bw p in
        if pc_budgetAtLastSent p \<ge> maxBudget then maxBudget
        else
          let elapsed = now - pc_lastSentTime p in
          if elapsed \<le> 0 \<or> bw \<le> 0 then max 0 (pc_budgetAtLastSent p)
          else
            let remaining = maxBudget - pc_budgetAtLastSent p in
            if fsec bw elapsed \<ge> of_int remaining then maxBudget
            else min maxBudget (pc_budgetAtLastSent p + trunc (fsec bw elapsed)))"

definition SentPacket :: "quic_consts \<Rightarrow> fsec \<Rightarrow> int \<Rightarrow> int \<Rightarrow> int \<Rightarrow> pacer \<Rightarrow> pacer" where
  "SentPacket qc fsec bw sendTime bytes p =
     (let budget = Budget qc fsec bw sendTime p in
      (if bytes > budget then p\<lparr>pc_budgetAtLastSent := 0\<rparr> else p\<lparr>pc_budgetAtLastSent := budget - bytes\<rparr>)
        \<lparr>pc_lastSentTime := sendTime\<rparr>)"

text \<open>\<^const>\<open>None\<close> is a division by a bandwidth of zero.\<close>

definition TimeUntilSend :: "quic_consts \<Rightarrow> int \<Rightarrow> pacer \<Rightarrow> int option" where
  "TimeUntilSend qc bw p =
     (if pc_budgetAtLastSent p \<ge> pc_maxDatagramSize p then Some 0
      else
        let diff = u64 (1000000000 * u64 (pc_maxDatagramSize p - pc_budgetAtLastSent p)); b = u64 bw in
        if b = 0 then None
        else
          let d = (if diff mod b > 0 then diff div b + 1 else diff div b) in
          Some (pc_lastSentTime p + max (qc_MinPacingDelay qc) (i64 d)))"

definition pacer_SetMaxDatagramSize :: "int \<Rightarrow> pacer \<Rightarrow> pacer" where
  "pacer_SetMaxDatagramSize s p = p\<lparr>pc_maxDatagramSize := s\<rparr>"

section \<open>The bucket\<close>

definition pacer_ok :: "pacer \<Rightarrow> bool" where
  "pacer_ok p \<longleftrightarrow> 0 < pc_maxDatagramSize p \<and> pc_maxDatagramSize p \<le> 65535 \<and> 0 \<le> pc_budgetAtLastSent p"

lemma maxBurstSize_ge: "maxBurstPackets * pc_maxDatagramSize p \<le> maxBurstSize qc bw p"
  by (simp add: maxBurstSize_def)

lemma maxBurstSize_pos: "pacer_ok p \<Longrightarrow> 0 < maxBurstSize qc bw p"
  using maxBurstSize_ge [of p qc bw] by (simp add: pacer_ok_def maxBurstPackets_def)

lemma Budget_range:
  assumes "pacer_ok p" "\<And>e. 0 < e \<Longrightarrow> 0 < bw \<Longrightarrow> 0 \<le> fsec bw e"
  shows "0 \<le> Budget qc fsec bw now p \<and> Budget qc fsec bw now p \<le> maxBurstSize qc bw p"
proof -
  have "0 \<le> trunc (fsec bw (now - pc_lastSentTime p))" if "0 < now - pc_lastSentTime p" "0 < bw"
    using assms(2) [OF that] by (simp add: trunc_def)
  then show ?thesis
    using assms(1) maxBurstSize_pos [OF assms(1), of qc bw] by (auto simp: Budget_def Let_def pacer_ok_def)
qed

lemma SentPacket_ok:
  assumes "pacer_ok p"
  shows "pacer_ok (SentPacket qc fsec bw t bytes p)"
  using assms by (auto simp: pacer_ok_def SentPacket_def Let_def)

lemma SetMaxDatagramSize_ok: "pacer_ok p \<Longrightarrow> 0 < s \<Longrightarrow> s \<le> 65535 \<Longrightarrow> pacer_ok (pacer_SetMaxDatagramSize s p)"
  by (simp add: pacer_ok_def pacer_SetMaxDatagramSize_def)

lemma round_up_div:
  fixes a b :: int
  assumes "0 < b"
  shows "a \<le> (if a mod b > 0 then a div b + 1 else a div b) * b"
proof -
  have eq: "a = a div b * b + a mod b" and r: "0 \<le> a mod b" "a mod b < b" using assms by simp_all
  show ?thesis
  proof (cases "a mod b > 0")
    case True
    have "(a div b + 1) * b = a div b * b + b" by (simp add: algebra_simps)
    with True eq r(2) show ?thesis unfolding if_P [OF True] by linarith
  next
    case False
    with eq r(1) show ?thesis unfolding if_not_P [OF False] by linarith
  qed
qed

text \<open>After waiting as long as \<open>TimeUntilSend\<close> says, the budget covers a full datagram, up to the one byte that
  rounding may cost.\<close>

lemma pacer_wakeup:
  assumes p: "pacer_ok p" and bw: "0 < bw" "bw < 2 ^ 63" and last: "pc_lastSentTime p \<noteq> 0"
    and t: "TimeUntilSend qc bw p = Some t" "t \<noteq> 0 \<or> pc_budgetAtLastSent p < pc_maxDatagramSize p" "t \<le> now"
    and f: "\<bar>fsec bw (now - pc_lastSentTime p) - of_int (bw * (now - pc_lastSentTime p)) / 1000000000\<bar> < 1"
  shows "pc_maxDatagramSize p - 1 \<le> Budget qc fsec bw now p"
proof -
  let ?m = "pc_maxDatagramSize p - pc_budgetAtLastSent p" and ?e = "now - pc_lastSentTime p"
  let ?d = "1000000000 * ?m"
  have m: "0 < ?m" "?m \<le> 65535" using p t by (auto simp: pacer_ok_def TimeUntilSend_def split: if_splits)
  define d where "d = (if ?d mod bw > 0 then ?d div bw + 1 else ?d div bw)"
  have low: "?d \<le> d * bw" unfolding d_def by (rule round_up_div [OF bw(1)])
  have "?d div bw \<le> ?d div 1" using bw(1) m by (intro zdiv_mono2) auto
  then have d: "0 < d" "d \<le> 65536000000000"
  proof -
    show "0 < d" using low m(1) bw(1) by (metis mult_pos_pos not_le order_less_le_trans zero_less_mult_pos2 zero_less_numeral)
    show "d \<le> 65536000000000" using \<open>?d div bw \<le> ?d div 1\<close> m unfolding d_def by simp
  qed
  have "t = pc_lastSentTime p + max (qc_MinPacingDelay qc) d"
  proof -
    have "u64 ?m = ?m" "u64 ?d = ?d" "u64 bw = bw" using m bw by simp_all
    then show ?thesis using t(1) m bw d unfolding TimeUntilSend_def
      by (simp add: Let_def d_def [symmetric] del: right_diff_distrib_numeral)
  qed
  then have e: "d \<le> ?e" using t(3) by simp
  from e have "d * bw \<le> ?e * bw" using e bw(1) by (intro mult_right_mono) auto
  with low have "?d \<le> bw * ?e" unfolding mult.commute [of bw] by (rule order_trans)
  then have "(of_int ?d :: rat) / 1000000000 \<le> of_int (bw * ?e) / 1000000000"
    by (intro divide_right_mono iffD2 [OF of_int_le_iff]) simp_all
  then have "(of_int ?m :: rat) \<le> of_int (bw * ?e) / 1000000000" by simp
  then have low: "of_int (?m - 1) < fsec bw ?e" using f by (simp add: abs_less_iff)
  then have tr: "?m - 1 \<le> trunc (fsec bw ?e)"
  proof -
    have "0 < fsec bw ?e" using low m(1) by (smt (verit) of_int_0_le_iff order_le_less_trans)
    then have "trunc (fsec bw ?e) = \<lfloor>fsec bw ?e\<rfloor>" by (simp add: trunc_def)
    with low show ?thesis by (simp add: le_floor_iff less_imp_le)
  qed
  have "pc_maxDatagramSize p \<le> maxBurstSize qc bw p"
    using maxBurstSize_ge [of p qc bw] p by (simp add: pacer_ok_def maxBurstPackets_def)
  with tr e d(1) bw(1) last show ?thesis by (auto simp: Budget_def Let_def)
qed

end
