(* ===== verification/Congestion_Brutal.thy ===== *)
theory Congestion_Brutal
  imports Congestion_Pacer
begin

text \<open>
  \<open>internal/congestion/brutal/brutal.go\<close> and \<open>internal/congestion/brutal.go\<close>: the fixed-rate controller with
  its acknowledgement statistics, and the negotiation of its rate. The debug output is left out. The results of the
  \<open>float64\<close> expressions are the fields of \<open>brutal_floats\<close>.
\<close>

section \<open>Rates\<close>

definition bitsPerMegabit :: int where "bitsPerMegabit = 1000000"
definition MaxConfiguredRateBPS :: int where "MaxConfiguredRateBPS = 1000000 * bitsPerMegabit div 8"

definition MbpsToBytesPerSecond :: "int \<Rightarrow> int" where
  "MbpsToBytesPerSecond mbps = (if mbps \<le> 0 then 0 else u64 (mbps * bitsPerMegabit) div 8)"

definition CapRequestedRate :: "int \<Rightarrow> int \<Rightarrow> int" where
  "CapRequestedRate requested cap =
     (if requested = 0 then 0
      else
        let requested = (if requested > MaxConfiguredRateBPS then MaxConfiguredRateBPS else requested) in
        if cap > 0 \<and> requested > cap then cap else requested)"

definition AuthorizeRequestedRate :: "int \<Rightarrow> int \<Rightarrow> int" where
  "AuthorizeRequestedRate requested0 authorized0 =
     (let requested = CapRequestedRate requested0 0; authorized = CapRequestedRate authorized0 0 in
      if requested = 0 \<or> authorized = 0 then 0
      else if requested > authorized then authorized else requested)"

definition seedPacketSize :: "int \<Rightarrow> int \<Rightarrow> int" where
  "seedPacketSize quicSize byAddr = (if quicSize \<le> 0 then byAddr else min quicSize byAddr)"

section \<open>The controller\<close>

definition pktInfoSlotCount :: int where "pktInfoSlotCount = 5"
definition minSampleCount :: nat where "minSampleCount = 50"
definition minAckRate :: rat where "minAckRate = 4 / 5"
definition minimumWindowDatagrams :: int where "minimumWindowDatagrams = 10"

record pkt_info =
  pi_Timestamp :: int
  pi_AckCount :: nat
  pi_LossCount :: nat

text \<open>\<open>bq_quot bps rate\<close> is \<open>ByteCount(float64(bps) / rate)\<close>, \<open>bq_win bps rtt rate\<close> the window expression and
  \<open>bq_rate a n\<close> is \<open>float64(a) / float64(n)\<close>.\<close>

record brutal_floats =
  bq_quot :: "int \<Rightarrow> rat \<Rightarrow> int"
  bq_win :: "int \<Rightarrow> int \<Rightarrow> rat \<Rightarrow> int"
  bq_rate :: "nat \<Rightarrow> nat \<Rightarrow> rat"

record brutal_sender =
  br_bps :: int
  br_maxDatagramSize :: int
  br_pacer :: pacer
  br_pktInfoSlots :: "pkt_info list"
  br_ackRate :: rat
  br_disableLossCompensation :: bool

definition zero_info :: pkt_info where "zero_info = \<lparr>pi_Timestamp = 0, pi_AckCount = 0, pi_LossCount = 0\<rparr>"

definition NewBrutalSender :: "quic_consts \<Rightarrow> int \<Rightarrow> bool \<Rightarrow> brutal_sender" where
  "NewBrutalSender qc bps disableLossCompensation =
     \<lparr>br_bps = i64 bps, br_maxDatagramSize = qc_InitialPacketSize qc, br_pacer = NewPacer qc,
      br_pktInfoSlots = replicate (nat pktInfoSlotCount) zero_info, br_ackRate = 1,
      br_disableLossCompensation = disableLossCompensation\<rparr>"

text \<open>The bandwidth callback of the pacer.\<close>

definition brutal_bandwidth :: "brutal_floats \<Rightarrow> brutal_sender \<Rightarrow> int" where
  "brutal_bandwidth fl b = bq_quot fl (br_bps b) (br_ackRate b)"

text \<open>\<open>rtt\<close> is the smoothed round trip time, \<^const>\<open>None\<close> while no provider is installed.\<close>

definition brutal_GetCongestionWindow :: "brutal_floats \<Rightarrow> int option \<Rightarrow> brutal_sender \<Rightarrow> int" where
  "brutal_GetCongestionWindow fl rtt b =
     (let minimum = max 10240 (minimumWindowDatagrams * br_maxDatagramSize b) in
      case rtt of
        None \<Rightarrow> minimum
      | Some r \<Rightarrow> if r \<le> 0 then minimum else max (bq_win fl (br_bps b) r (br_ackRate b)) minimum)"

definition brutal_CanSend :: "brutal_floats \<Rightarrow> int option \<Rightarrow> int \<Rightarrow> brutal_sender \<Rightarrow> bool" where
  "brutal_CanSend fl rtt bytesInFlight b \<longleftrightarrow> bytesInFlight \<le> brutal_GetCongestionWindow fl rtt b"

definition brutal_HasPacingBudget :: "quic_consts \<Rightarrow> fsec \<Rightarrow> brutal_floats \<Rightarrow> int \<Rightarrow> brutal_sender \<Rightarrow> bool" where
  "brutal_HasPacingBudget qc fsec fl now b \<longleftrightarrow>
     Budget qc fsec (brutal_bandwidth fl b) now (br_pacer b) \<ge> br_maxDatagramSize b"

definition brutal_TimeUntilSend :: "quic_consts \<Rightarrow> brutal_floats \<Rightarrow> brutal_sender \<Rightarrow> int option" where
  "brutal_TimeUntilSend qc fl b = TimeUntilSend qc (brutal_bandwidth fl b) (br_pacer b)"

definition brutal_OnPacketSent ::
  "quic_consts \<Rightarrow> fsec \<Rightarrow> brutal_floats \<Rightarrow> int \<Rightarrow> int \<Rightarrow> brutal_sender \<Rightarrow> brutal_sender" where
  "brutal_OnPacketSent qc fsec fl sentTime bytes b =
     b\<lparr>br_pacer := SentPacket qc fsec (brutal_bandwidth fl b) sentTime bytes (br_pacer b)\<rparr>"

definition brutal_SetMaxDatagramSize :: "int \<Rightarrow> brutal_sender \<Rightarrow> brutal_sender" where
  "brutal_SetMaxDatagramSize s b =
     b\<lparr>br_maxDatagramSize := s, br_pacer := pacer_SetMaxDatagramSize s (br_pacer b)\<rparr>"

definition live_infos :: "int \<Rightarrow> pkt_info list \<Rightarrow> pkt_info list" where
  "live_infos currentTimestamp slots =
     filter (\<lambda>i. \<not> pi_Timestamp i < currentTimestamp - pktInfoSlotCount) slots"

definition updateAckRate :: "brutal_floats \<Rightarrow> int \<Rightarrow> brutal_sender \<Rightarrow> brutal_sender" where
  "updateAckRate fl currentTimestamp b =
     (if br_disableLossCompensation b then b\<lparr>br_ackRate := 1\<rparr>
      else
        let live = live_infos currentTimestamp (br_pktInfoSlots b);
            ackCount = sum_list (map pi_AckCount live);
            lossCount = sum_list (map pi_LossCount live)
        in if ackCount + lossCount < minSampleCount then b\<lparr>br_ackRate := 1\<rparr>
           else
             let rate = bq_rate fl ackCount (ackCount + lossCount) in
             if rate < minAckRate then b\<lparr>br_ackRate := minAckRate\<rparr> else b\<lparr>br_ackRate := rate\<rparr>)"

definition count_into :: "int \<Rightarrow> nat \<Rightarrow> nat \<Rightarrow> pkt_info \<Rightarrow> pkt_info" where
  "count_into currentTimestamp acked lost i =
     (if pi_Timestamp i = currentTimestamp
      then i\<lparr>pi_LossCount := pi_LossCount i + lost, pi_AckCount := pi_AckCount i + acked\<rparr>
      else \<lparr>pi_Timestamp = currentTimestamp, pi_AckCount = acked, pi_LossCount = lost\<rparr>)"

text \<open>\<open>acked\<close> and \<open>lost\<close> are the numbers of packets of the event; the clock is not negative.\<close>

definition brutal_OnCongestionEventEx :: "brutal_floats \<Rightarrow> int \<Rightarrow> nat \<Rightarrow> nat \<Rightarrow> brutal_sender \<Rightarrow> brutal_sender" where
  "brutal_OnCongestionEventEx fl eventTime acked lost b =
     (let currentTimestamp = tdiv eventTime Second;
          slot = nat (tmod currentTimestamp pktInfoSlotCount);
          slots = br_pktInfoSlots b
      in updateAckRate fl currentTimestamp
           (b\<lparr>br_pktInfoSlots := slots[slot := count_into currentTimestamp acked lost (slots ! slot)]\<rparr>))"

section \<open>The statistics are those of the last five seconds\<close>

text \<open>A history of events, each with its second and its counts.\<close>

type_synonym history = "(int \<times> nat \<times> nat) list"

definition total_at :: "(nat \<times> nat \<Rightarrow> nat) \<Rightarrow> history \<Rightarrow> int \<Rightarrow> nat" where
  "total_at f hist s = sum_list (map (f \<circ> snd) (filter (\<lambda>e. fst e = s) hist))"

definition total_since :: "(nat \<times> nat \<Rightarrow> nat) \<Rightarrow> history \<Rightarrow> int \<Rightarrow> nat" where
  "total_since f hist s = sum_list (map (f \<circ> snd) (filter (\<lambda>e. fst e > s) hist))"

definition events_in :: "history \<Rightarrow> int \<Rightarrow> history" where
  "events_in hist i = filter (\<lambda>e. fst e mod 5 = i) hist"

definition latest_in :: "history \<Rightarrow> int \<Rightarrow> int" where
  "latest_in hist i = fst (last (events_in hist i))"

definition slot_of :: "history \<Rightarrow> int \<Rightarrow> pkt_info" where
  "slot_of hist i =
     (let s = latest_in hist i in
      if events_in hist i = [] then zero_info
      else \<lparr>pi_Timestamp = s, pi_AckCount = total_at fst hist s, pi_LossCount = total_at snd hist s\<rparr>)"

definition slots_of :: "history \<Rightarrow> pkt_info list" where
  "slots_of hist = map (slot_of hist) [0, 1, 2, 3, 4]"

lemma total_at_append [simp]: "total_at f (hist @ [e]) s = total_at f hist s + (if fst e = s then f (snd e) else 0)"
  by (simp add: total_at_def)

lemma total_at_none: "\<forall>e\<in>set hist. fst e \<noteq> s \<Longrightarrow> total_at f hist s = 0"
  by (simp add: total_at_def filter_empty_conv)

lemma events_in_append [simp]:
  "events_in (hist @ [e]) i = (if fst e mod 5 = i then events_in hist i @ [e] else events_in hist i)"
  by (simp add: events_in_def)

lemma latest_in_append: "latest_in (hist @ [e]) i = (if fst e mod 5 = i then fst e else latest_in hist i)"
  by (simp add: latest_in_def)

lemma latest_in_mem:
  "events_in hist i \<noteq> [] \<Longrightarrow> last (events_in hist i) \<in> set hist \<and> latest_in hist i mod 5 = i"
  using last_in_set [of "events_in hist i"] by (auto simp: latest_in_def events_in_def)

lemma latest_in_max:
  assumes "sorted (map fst hist)" "e \<in> set hist" "fst e mod 5 = i"
  shows "events_in hist i \<noteq> []" "fst e \<le> latest_in hist i"
proof -
  have e: "e \<in> set (events_in hist i)" using assms by (simp add: events_in_def)
  then show "events_in hist i \<noteq> []" by auto
  have "sorted (map fst (events_in hist i))" using assms(1) unfolding events_in_def by (rule sorted_filter)
  with e show "fst e \<le> latest_in hist i"
    unfolding latest_in_def by (cases "events_in hist i" rule: rev_cases) (auto simp: sorted_append)
qed

lemma slot_of_other: "fst e mod 5 \<noteq> i \<Longrightarrow> slot_of (hist @ [e]) i = slot_of hist i"
proof -
  assume ne: "fst e mod 5 \<noteq> i"
  have "fst e \<noteq> latest_in hist i" if "events_in hist i \<noteq> []"
    using latest_in_mem [OF that] ne by auto
  with ne show ?thesis by (auto simp: slot_of_def latest_in_append Let_def)
qed

lemma slot_of_same:
  assumes "sorted (map fst hist)" "\<forall>e\<in>set hist. fst e \<le> s" "0 \<le> s"
  shows "slot_of (hist @ [(s, a, l)]) (s mod 5) = count_into s a l (slot_of hist (s mod 5))"
proof (cases "events_in hist (s mod 5) = []")
  case True
  then have "\<forall>e\<in>set hist. fst e \<noteq> s" by (auto simp: filter_empty_conv events_in_def)
  with True show ?thesis
    by (simp add: slot_of_def latest_in_append count_into_def Let_def total_at_none zero_info_def)
next
  case False
  show ?thesis
  proof (cases "latest_in hist (s mod 5) = s")
    case True
    with False show ?thesis by (simp add: slot_of_def latest_in_append count_into_def Let_def)
  next
    case old: False
    have "latest_in hist (s mod 5) \<le> s" using latest_in_mem [OF False] assms(2) by (simp add: latest_in_def)
    with old latest_in_max(2) [OF assms(1)] have "\<forall>e\<in>set hist. fst e \<noteq> s" by force
    with False old show ?thesis
      by (simp add: slot_of_def latest_in_append count_into_def Let_def total_at_none)
  qed
qed

lemma mod5_cases: "(s::int) mod 5 \<in> {0, 1, 2, 3, 4}"
proof -
  have "0 \<le> s mod 5" "s mod 5 < 5" by simp_all
  then show ?thesis by simp presburger
qed

lemma slots_of_append:
  assumes "sorted (map fst hist)" "\<forall>e\<in>set hist. fst e \<le> s" "0 \<le> s"
  shows "slots_of (hist @ [(s, a, l)]) =
    (slots_of hist)[nat (s mod 5) := count_into s a l (slots_of hist ! nat (s mod 5))]"
  using mod5_cases [of s] slot_of_same [OF assms, of a l] slot_of_other [of "(s, a, l)" _ hist]
  by (auto simp: slots_of_def)

text \<open>The live slots hold the events of the last five seconds.\<close>

lemma slot_live:
  assumes hist: "sorted (map fst hist)" "\<forall>e\<in>set hist. fst e \<le> s" "\<exists>e\<in>set hist. fst e = s"
    and k: "s - 5 < k" "k \<le> s"
  shows "(if pi_Timestamp (slot_of hist (k mod 5)) < s - 5 then 0 else pi_AckCount (slot_of hist (k mod 5))) =
      total_at fst hist k"
    "(if pi_Timestamp (slot_of hist (k mod 5)) < s - 5 then 0 else pi_LossCount (slot_of hist (k mod 5))) =
      total_at snd hist k"
proof -
  let ?l = "latest_in hist (k mod 5)"
  have goal: "(if pi_Timestamp (slot_of hist (k mod 5)) < s - 5 then 0 else pi_AckCount (slot_of hist (k mod 5))) =
        total_at fst hist k \<and>
      (if pi_Timestamp (slot_of hist (k mod 5)) < s - 5 then 0 else pi_LossCount (slot_of hist (k mod 5))) =
        total_at snd hist k"
  proof (cases "events_in hist (k mod 5) = []")
    case True
    then have "\<forall>e\<in>set hist. fst e \<noteq> k" by (auto simp: filter_empty_conv events_in_def)
    with True show ?thesis by (simp add: slot_of_def zero_info_def total_at_none)
  next
    case False
    have l: "?l mod 5 = k mod 5" "?l \<le> s"
      using latest_in_mem [OF False] hist(2) by (simp_all add: latest_in_def)
    show ?thesis
    proof (cases "?l = k")
      case True
      with False k show ?thesis by (simp add: slot_of_def Let_def)
    next
      case ne: False
      have none: "\<forall>e\<in>set hist. fst e \<noteq> k"
      proof
        fix e assume e: "e \<in> set hist"
        show "fst e \<noteq> k"
        proof
          assume "fst e = k"
          with latest_in_max(2) [OF hist(1) e, of "k mod 5"] have "k \<le> ?l" by simp
          with ne l k show False by presburger
        qed
      qed
      then have "k \<noteq> s" using hist(3) by blast
      have "?l \<noteq> s - 5"
      proof
        assume "?l = s - 5"
        with l(1) have "k mod 5 = s mod 5" by presburger
        with k \<open>k \<noteq> s\<close> show False by presburger
      qed
      moreover have "?l < k"
      proof (rule ccontr)
        assume "\<not> ?l < k"
        with ne l k show False by presburger
      qed
      then have "?l \<le> s - 5" using l(1) k by presburger
      ultimately have "?l < s - 5" by simp
      with False none show ?thesis by (simp add: slot_of_def Let_def total_at_none)
    qed
  qed
  from goal show "(if pi_Timestamp (slot_of hist (k mod 5)) < s - 5 then 0 else pi_AckCount (slot_of hist (k mod 5))) =
      total_at fst hist k" by (rule conjunct1)
  from goal show "(if pi_Timestamp (slot_of hist (k mod 5)) < s - 5 then 0 else pi_LossCount (slot_of hist (k mod 5))) =
      total_at snd hist k" by (rule conjunct2)
qed

lemma total_since_split:
  assumes "\<forall>e\<in>set hist. fst e \<le> s"
  shows "total_since f hist (s - 5) = total_at f hist s + total_at f hist (s - 1) + total_at f hist (s - 2) +
    total_at f hist (s - 3) + total_at f hist (s - 4)"
  using assms by (induction hist) (auto simp: total_since_def total_at_def)

lemma five_residues:
  fixes v :: "int \<Rightarrow> nat"
  shows "v 0 + v 1 + v 2 + v 3 + v 4 = v (s mod 5) + v ((s - 1) mod 5) + v ((s - 2) mod 5) + v ((s - 3) mod 5) + v ((s - 4) mod 5)"
proof -
  have "s mod 5 = 0 \<or> s mod 5 = 1 \<or> s mod 5 = 2 \<or> s mod 5 = 3 \<or> s mod 5 = 4" using mod5_cases [of s] by auto
  moreover have "(s - j) mod 5 = (s mod 5 - j) mod 5" for j by (simp add: mod_diff_left_eq)
  ultimately show ?thesis by (elim disjE) simp_all
qed

lemma live_sum:
  "sum_list (map f (live_infos s (slots_of hist))) =
    (let v = (\<lambda>i. if pi_Timestamp (slot_of hist i) < s - 5 then 0 else f (slot_of hist i)) in v 0 + v 1 + v 2 + v 3 + v 4)"
  for f :: "pkt_info \<Rightarrow> nat"
  by (simp add: live_infos_def slots_of_def pktInfoSlotCount_def Let_def)

lemma live_totals:
  assumes "sorted (map fst hist)" "\<forall>e\<in>set hist. fst e \<le> s" "\<exists>e\<in>set hist. fst e = s"
  shows "sum_list (map pi_AckCount (live_infos s (slots_of hist))) = total_since fst hist (s - 5)"
    "sum_list (map pi_LossCount (live_infos s (slots_of hist))) = total_since snd hist (s - 5)"
proof -
  note live = slot_live [OF assms]
  show "sum_list (map pi_AckCount (live_infos s (slots_of hist))) = total_since fst hist (s - 5)"
    unfolding live_sum Let_def five_residues [of "\<lambda>i. if pi_Timestamp (slot_of hist i) < s - 5 then 0 else pi_AckCount (slot_of hist i)" s]
      total_since_split [OF assms(2)]
    by (simp only: live(1) [of s] live(1) [of "s - 1"] live(1) [of "s - 2"] live(1) [of "s - 3"] live(1) [of "s - 4"])
  show "sum_list (map pi_LossCount (live_infos s (slots_of hist))) = total_since snd hist (s - 5)"
    unfolding live_sum Let_def five_residues [of "\<lambda>i. if pi_Timestamp (slot_of hist i) < s - 5 then 0 else pi_LossCount (slot_of hist i)" s]
      total_since_split [OF assms(2)]
    by (simp only: live(2) [of s] live(2) [of "s - 1"] live(2) [of "s - 2"] live(2) [of "s - 3"] live(2) [of "s - 4"])
qed

text \<open>The reference: the rate of the acknowledgements of the last five seconds, at least \<open>minAckRate\<close>, or 1 while there are
  too few samples or compensation is off.\<close>

definition window_rate :: "brutal_floats \<Rightarrow> bool \<Rightarrow> history \<Rightarrow> rat" where
  "window_rate fl off hist =
     (let now = fst (last hist); a = total_since fst hist (now - 5); l = total_since snd hist (now - 5) in
      if off \<or> hist = [] \<or> a + l < 50 then 1 else max (4 / 5) (bq_rate fl a (a + l)))"

definition brutal_feed :: "brutal_floats \<Rightarrow> (int \<times> nat \<times> nat) list \<Rightarrow> brutal_sender \<Rightarrow> brutal_sender" where
  "brutal_feed fl events b = fold (\<lambda>(t, a, l). brutal_OnCongestionEventEx fl t a l) events b"

definition seconds :: "(int \<times> nat \<times> nat) list \<Rightarrow> history" where
  "seconds = map (\<lambda>(t, c). (t div Second, c))"

lemma updateAckRate_keeps:
  "br_pktInfoSlots (updateAckRate fl s b) = br_pktInfoSlots b"
  "br_disableLossCompensation (updateAckRate fl s b) = br_disableLossCompensation b"
  "br_bps (updateAckRate fl s b) = br_bps b" "br_maxDatagramSize (updateAckRate fl s b) = br_maxDatagramSize b"
  by (simp_all add: updateAckRate_def Let_def)

lemma brutal_feed_slots:
  assumes "sorted (map fst events)" "\<forall>e\<in>set events. 0 \<le> fst e"
  shows "let b' = brutal_feed fl events (NewBrutalSender qc bps off) in
    br_pktInfoSlots b' = slots_of (seconds events) \<and> br_ackRate b' = window_rate fl off (seconds events) \<and>
    br_disableLossCompensation b' = off \<and> br_bps b' = i64 bps \<and> br_maxDatagramSize b' = qc_InitialPacketSize qc"
  using assms
proof (induction events rule: rev_induct)
  case Nil
  have "slots_of [] = replicate 5 zero_info"
    by (simp add: slots_of_def slot_of_def events_in_def numeral_eq_Suc)
  then show ?case
    by (simp add: brutal_feed_def NewBrutalSender_def seconds_def window_rate_def pktInfoSlotCount_def)
next
  case (snoc e events)
  obtain t a l where e: "e = (t, a, l)" by (cases e)
  let ?h = "seconds events" and ?s = "t div Second"
  let ?b = "brutal_feed fl events (NewBrutalSender qc bps off)"
  have t: "0 \<le> t" "0 \<le> ?s" using snoc.prems(2) e by (auto simp: Second_def)
  have ev: "sorted (map fst events)" "\<forall>e\<in>set events. 0 \<le> fst e" "\<forall>e\<in>set events. fst e \<le> t"
    using snoc.prems e by (auto simp: sorted_append)
  have h: "sorted (map fst ?h)" "\<forall>e\<in>set ?h. fst e \<le> ?s"
  proof -
    have "map fst ?h = map (\<lambda>e. fst e div Second) events" by (simp add: seconds_def case_prod_beta)
    moreover have "sorted_wrt (\<lambda>x y. fst x div Second \<le> fst y div Second) events"
      using ev(1) unfolding sorted_map
      by (rule sorted_wrt_mono_rel [rotated]) (simp add: Second_def zdiv_mono1)
    ultimately show "sorted (map fst ?h)" by (simp add: sorted_map)
    show "\<forall>e\<in>set ?h. fst e \<le> ?s" using ev(3) by (auto simp: seconds_def Second_def intro: zdiv_mono1)
  qed
  have h': "seconds (events @ [e]) = ?h @ [(?s, a, l)]" by (simp add: seconds_def e)
  have "sorted (map fst (?h @ [(?s, a, l)]))" "\<forall>e\<in>set (?h @ [(?s, a, l)]). fst e \<le> ?s" "\<exists>e\<in>set (?h @ [(?s, a, l)]). fst e = ?s"
    using h by (auto simp: sorted_append)
  note live = live_totals [OF this]
  from snoc.IH [OF ev(1,2)] have IH: "br_pktInfoSlots ?b = slots_of ?h" "br_disableLossCompensation ?b = off"
    "br_bps ?b = i64 bps" "br_maxDatagramSize ?b = qc_InitialPacketSize qc" by (simp_all add: Let_def)
  let ?b' = "?b\<lparr>br_pktInfoSlots := slots_of (?h @ [(?s, a, l)])\<rparr>"
  have feed: "brutal_feed fl (events @ [e]) (NewBrutalSender qc bps off) = updateAckRate fl ?s ?b'"
    using slots_of_append [OF h t(2), of a l] t IH(1)
    by (simp add: brutal_feed_def e brutal_OnCongestionEventEx_def Let_def Second_def pktInfoSlotCount_def)
  have "br_ackRate (updateAckRate fl ?s ?b') = window_rate fl off (?h @ [(?s, a, l)])"
    using live IH(2) by (simp add: updateAckRate_def window_rate_def Let_def minSampleCount_def minAckRate_def max_def)
  moreover have "br_pktInfoSlots (updateAckRate fl ?s ?b') = slots_of (?h @ [(?s, a, l)])"
    "br_disableLossCompensation (updateAckRate fl ?s ?b') = off" "br_bps (updateAckRate fl ?s ?b') = i64 bps"
    "br_maxDatagramSize (updateAckRate fl ?s ?b') = qc_InitialPacketSize qc"
    using IH by (simp_all add: updateAckRate_keeps)
  ultimately show ?case unfolding feed h' by (simp add: Let_def)
qed

text \<open>C35. The loss compensation of the fixed-rate controller. After any run of congestion events with a clock that
  does not go back, the acknowledgement rate kept in the five reused slots is the rate over exactly the events of the
  last five seconds, clamped from below at 0.8, and 1 while there are fewer than 50 samples. The bandwidth handed to
  the pacer is the configured rate divided by it, and the window never falls below ten datagrams.\<close>

theorem brutal_ack_rate:
  assumes "sorted (map fst events)" "\<forall>e\<in>set events. 0 \<le> fst e"
  shows "let b = brutal_feed fl events (NewBrutalSender qc bps off) in
    br_ackRate b = window_rate fl off (seconds events) \<and> 4 / 5 \<le> br_ackRate b \<and>
    brutal_bandwidth fl b = bq_quot fl (i64 bps) (window_rate fl off (seconds events)) \<and>
    10 * qc_InitialPacketSize qc \<le> brutal_GetCongestionWindow fl rtt b"
proof -
  have "4 / 5 \<le> (1::rat)" by simp
  then have "4 / 5 \<le> window_rate fl off (seconds events)"
    unfolding window_rate_def Let_def by (simp only: max.cobounded1 split: if_split) simp
  with brutal_feed_slots [OF assms, of fl qc bps off] show ?thesis
    by (auto simp: Let_def brutal_bandwidth_def brutal_GetCongestionWindow_def minimumWindowDatagrams_def split: option.split)
qed

lemma brutal_ack_rate_witness:
  "\<forall>fl qc. br_ackRate (brutal_feed fl [(1000000000, 60, 0), (7000000000, 45, 15)] (NewBrutalSender qc 1000 False)) =
     max (4 / 5) (bq_rate fl 45 60)"
proof (intro allI)
  fix fl qc
  let ?ev = "[(1000000000, 60, 0), (7000000000, 45, 15)] :: (int \<times> nat \<times> nat) list"
  from brutal_ack_rate [of ?ev fl qc 1000 False None]
  show "br_ackRate (brutal_feed fl ?ev (NewBrutalSender qc 1000 False)) = max (4 / 5) (bq_rate fl 45 60)"
    by (simp add: Let_def window_rate_def seconds_def total_since_def Second_def)
qed

section \<open>The negotiated rate\<close>

lemma CapRequestedRate_le:
  "0 \<le> r \<Longrightarrow> 0 \<le> c \<Longrightarrow> 0 \<le> CapRequestedRate r c \<and> CapRequestedRate r c \<le> r \<and> CapRequestedRate r c \<le> MaxConfiguredRateBPS \<and>
    (c \<noteq> 0 \<longrightarrow> CapRequestedRate r c \<le> c)"
  by (auto simp: CapRequestedRate_def Let_def MaxConfiguredRateBPS_def bitsPerMegabit_def)

lemma AuthorizeRequestedRate_meet:
  "0 \<le> r \<Longrightarrow> 0 \<le> a \<Longrightarrow> AuthorizeRequestedRate r a = min (min r a) MaxConfiguredRateBPS"
  by (auto simp: AuthorizeRequestedRate_def CapRequestedRate_def Let_def MaxConfiguredRateBPS_def bitsPerMegabit_def)

end
