(* ===== verification/Bbr_Containers.thy ===== *)
theory Bbr_Containers
  imports Prelude "HOL-Library.While_Combinator"
begin

text \<open>
  The containers of \<open>internal/congestion/bbr\<close>: the growing ring buffer (\<open>ringbuffer.go\<close>) and the
  queue indexed by packet numbers (\<open>packet_number_indexed_queue.go\<close>). The ring buffer keeps its
  positions and its \<open>full\<close> flag; it provides the interface \<open>deque\<close>, on which its clients rest. Packet
  numbers are integers: QUIC numbers stay below \<open>2 ^ 62\<close>, so that \<open>int64\<close> does not wrap.
\<close>

section \<open>Ring buffer\<close>

record 'a ring =
  bf_ring :: "'a list"
  bf_headPos :: nat
  bf_tailPos :: nat
  bf_full :: bool

text \<open>\<open>zero\<close> is the zero value of the element type.\<close>

definition ring_Init :: "'a \<Rightarrow> nat \<Rightarrow> 'a ring" where
  "ring_Init zero sz = \<lparr>bf_ring = replicate sz zero, bf_headPos = 0, bf_tailPos = 0, bf_full = False\<rparr>"

definition ring_Len :: "'a ring \<Rightarrow> nat" where
  "ring_Len r =
     (if bf_full r then length (bf_ring r)
      else if bf_tailPos r \<ge> bf_headPos r then bf_tailPos r - bf_headPos r
      else bf_tailPos r + length (bf_ring r) - bf_headPos r)"

definition ring_Empty :: "'a ring \<Rightarrow> bool" where
  "ring_Empty r \<longleftrightarrow> \<not> bf_full r \<and> bf_headPos r = bf_tailPos r"

definition ring_grow :: "'a \<Rightarrow> 'a ring \<Rightarrow> 'a ring" where
  "ring_grow zero r =
     (let old = bf_ring r; newSize = (if length old * 2 = 0 then 1 else length old * 2);
          content = drop (bf_headPos r) old @ take (bf_headPos r) old
      in \<lparr>bf_ring = content @ replicate (newSize - length content) zero, bf_headPos = 0,
          bf_tailPos = length old, bf_full = False\<rparr>)"

definition ring_PushBack :: "'a \<Rightarrow> 'a \<Rightarrow> 'a ring \<Rightarrow> 'a ring" where
  "ring_PushBack zero t r0 =
     (let r = (if bf_full r0 \<or> length (bf_ring r0) = 0 then ring_grow zero r0 else r0);
          r1 = r\<lparr>bf_ring := (bf_ring r)[bf_tailPos r := t], bf_tailPos := bf_tailPos r + 1\<rparr>;
          r2 = (if bf_tailPos r1 = length (bf_ring r1) then r1\<lparr>bf_tailPos := 0\<rparr> else r1)
      in if bf_tailPos r2 = bf_headPos r2 then r2\<lparr>bf_full := True\<rparr> else r2)"

text \<open>\<^const>\<open>None\<close> is the panic on an empty buffer or a bad index.\<close>

definition ring_PopFront :: "'a \<Rightarrow> 'a ring \<Rightarrow> ('a \<times> 'a ring) option" where
  "ring_PopFront zero r =
     (if ring_Empty r then None
      else
        let r1 = r\<lparr>bf_full := False, bf_ring := (bf_ring r)[bf_headPos r := zero],
                   bf_headPos := bf_headPos r + 1\<rparr>;
            r2 = (if bf_headPos r1 = length (bf_ring r1) then r1\<lparr>bf_headPos := 0\<rparr> else r1)
        in Some (bf_ring r ! bf_headPos r, r2))"

definition ring_Offset :: "nat \<Rightarrow> 'a ring \<Rightarrow> 'a option" where
  "ring_Offset index r =
     (if ring_Empty r \<or> index \<ge> ring_Len r then None
      else Some (bf_ring r ! ((bf_headPos r + index) mod length (bf_ring r))))"

text \<open>A write through the pointer that \<open>Offset\<close> returns.\<close>

definition ring_store :: "nat \<Rightarrow> 'a \<Rightarrow> 'a ring \<Rightarrow> 'a ring" where
  "ring_store index t r =
     (if ring_Empty r \<or> index \<ge> ring_Len r then r
      else r\<lparr>bf_ring := (bf_ring r)[(bf_headPos r + index) mod length (bf_ring r) := t]\<rparr>)"

definition ring_Front :: "'a ring \<Rightarrow> 'a option" where
  "ring_Front r = (if ring_Empty r then None else Some (bf_ring r ! bf_headPos r))"

definition ring_Back :: "'a ring \<Rightarrow> 'a option" where
  "ring_Back r = (if ring_Empty r then None else ring_Offset (ring_Len r - 1) r)"

definition ring_Clear :: "'a \<Rightarrow> 'a ring \<Rightarrow> 'a ring" where
  "ring_Clear zero r =
     r\<lparr>bf_ring := map (\<lambda>_. zero) (bf_ring r), bf_headPos := 0, bf_tailPos := 0, bf_full := False\<rparr>"

section \<open>The interface and what follows from it\<close>

text \<open>A deque as its clients see it: a list behind an abstraction function. The laws are stated for
  states that satisfy the provider's invariant.\<close>

locale deque =
  fixes inv :: "'q \<Rightarrow> bool" and contents :: "'q \<Rightarrow> 'a list"
    and push :: "'a \<Rightarrow> 'q \<Rightarrow> 'q" and pop :: "'q \<Rightarrow> ('a \<times> 'q) option"
    and look :: "nat \<Rightarrow> 'q \<Rightarrow> 'a option" and store :: "nat \<Rightarrow> 'a \<Rightarrow> 'q \<Rightarrow> 'q"
  assumes push_inv: "inv q \<Longrightarrow> inv (push x q)"
    and push_contents: "inv q \<Longrightarrow> contents (push x q) = contents q @ [x]"
    and pop_empty: "inv q \<Longrightarrow> contents q = [] \<Longrightarrow> pop q = None"
    and pop_some: "inv q \<Longrightarrow> contents q \<noteq> [] \<Longrightarrow>
      \<exists>q'. pop q = Some (hd (contents q), q') \<and> inv q' \<and> contents q' = tl (contents q)"
    and look_contents: "inv q \<Longrightarrow> look i q = (if i < length (contents q) then Some (contents q ! i) else None)"
    and store_inv: "inv q \<Longrightarrow> inv (store i x q)"
    and store_contents: "inv q \<Longrightarrow> contents (store i x q) = (contents q)[i := x]"

text \<open>Clients of a deque: several pushes, a fixed number of pops, and the loop
  \<open>for k := 0; k < q.Len()-1; k++ { q.PopFront() }\<close>, which reads the length anew each time.\<close>

fun pop_times :: "('q \<Rightarrow> ('a \<times> 'q) option) \<Rightarrow> nat \<Rightarrow> 'q \<Rightarrow> 'q option" where
  "pop_times pop 0 q = Some q"
| "pop_times pop (Suc n) q = (case pop q of None \<Rightarrow> None | Some (_, q') \<Rightarrow> pop_times pop n q')"

fun push_times :: "('q \<Rightarrow> 'q) \<Rightarrow> nat \<Rightarrow> 'q \<Rightarrow> 'q" where
  "push_times push 0 q = q"
| "push_times push (Suc n) q = push_times push n (push q)"

text \<open>The loop with its counter, as a partial function of the state.\<close>

definition shrink_loop :: "('q \<Rightarrow> nat) \<Rightarrow> ('q \<Rightarrow> ('a \<times> 'q) option) \<Rightarrow> 'q \<Rightarrow> (nat \<times> 'q) option" where
  "shrink_loop len pop q =
     while_option (\<lambda>(k, q). k + 1 < len q) (\<lambda>(k, q). (k + 1, case pop q of Some (_, q') \<Rightarrow> q' | None \<Rightarrow> q)) (0, q)"

context deque
begin

lemma pop_times_drop:
  "inv q \<Longrightarrow> n \<le> length (contents q) \<Longrightarrow>
    \<exists>q'. pop_times pop n q = Some q' \<and> inv q' \<and> contents q' = drop n (contents q)"
proof (induction n arbitrary: q)
  case (Suc n)
  then have "contents q \<noteq> []" by auto
  from pop_some [OF Suc.prems(1) this] obtain q' where
    q': "pop q = Some (hd (contents q), q')" "inv q'" "contents q' = tl (contents q)" by blast
  then have "n \<le> length (contents q')" using Suc.prems(2) by simp
  from Suc.IH [OF q'(2) this] q' show ?case by (simp add: drop_Suc)
qed simp

lemma push_times_append:
  "inv q \<Longrightarrow> inv (push_times (push x) n q) \<and> contents (push_times (push x) n q) = contents q @ replicate n x"
proof (induction n arbitrary: q)
  case (Suc n)
  from Suc.IH [OF push_inv [OF Suc.prems, of x]] Suc.prems show ?case by (simp add: push_contents replicate_app_Cons_same)
qed simp

text \<open>The counter grows while the length shrinks: the loop stops half way.\<close>

lemma shrink_from:
  assumes len: "\<And>q. inv q \<Longrightarrow> len q = length (contents q)" and "inv q"
  shows "\<exists>k' q'. while_option (\<lambda>(k, q). k + 1 < len q)
        (\<lambda>(k, q). (k + 1, case pop q of Some (_, q') \<Rightarrow> q' | None \<Rightarrow> q)) (k, q) = Some (k', q') \<and>
      inv q' \<and> contents q' = drop ((length (contents q) - k) div 2) (contents q)"
  using assms(2)
proof (induction "length (contents q)" arbitrary: q k)
  case 0
  then show ?case by (subst while_option_unfold) (simp add: len)
next
  case (Suc n)
  show ?case
  proof (cases "k + 1 < len q")
    case False
    then have "(length (contents q) - k) div 2 = 0" using Suc.prems by (simp add: len)
    with False Suc.prems show ?thesis by (subst while_option_unfold) simp
  next
    case True
    have "contents q \<noteq> []" using Suc.hyps(2) by auto
    from pop_some [OF Suc.prems this] obtain q' where
      q': "pop q = Some (hd (contents q), q')" "inv q'" "contents q' = tl (contents q)" by blast
    then have n: "n = length (contents q')" using Suc.hyps(2) by simp
    have "(length (contents q) - k) div 2 = Suc ((length (contents q') - (k + 1)) div 2)"
      using True n Suc.hyps(2) by (simp add: len [OF Suc.prems])
    with Suc.hyps(1) [OF n q'(2), of "k + 1"] True q' show ?thesis
      by (subst while_option_unfold) (simp add: drop_Suc)
  qed
qed

lemma shrink_loop_half:
  assumes "\<And>q. inv q \<Longrightarrow> len q = length (contents q)" and "inv q"
  shows "\<exists>k q'. shrink_loop len pop q = Some (k, q') \<and> inv q' \<and> contents q' = drop (length (contents q) div 2) (contents q)"
  using shrink_from [of len q 0] assms by (simp add: shrink_loop_def)

end

section \<open>The ring buffer is a deque\<close>

definition ring_ok :: "'a ring \<Rightarrow> bool" where
  "ring_ok r \<longleftrightarrow>
     (if bf_ring r = [] then bf_headPos r = 0 \<and> bf_tailPos r = 0 \<and> \<not> bf_full r
      else bf_headPos r < length (bf_ring r) \<and> bf_tailPos r < length (bf_ring r) \<and>
        (bf_full r \<longrightarrow> bf_headPos r = bf_tailPos r))"

definition ring_list :: "'a ring \<Rightarrow> 'a list" where
  "ring_list r = map (\<lambda>i. bf_ring r ! ((bf_headPos r + i) mod length (bf_ring r))) [0..<ring_Len r]"

lemma ring_list_length [simp]: "length (ring_list r) = ring_Len r"
  by (simp add: ring_list_def)

lemma ring_list_Nil: "ring_list r = [] \<longleftrightarrow> ring_Len r = 0"
  by (simp add: ring_list_def)

lemma ring_list_nth: "i < ring_Len r \<Longrightarrow> ring_list r ! i = bf_ring r ! ((bf_headPos r + i) mod length (bf_ring r))"
  by (simp add: ring_list_def)

lemma ring_Empty_iff: "ring_ok r \<Longrightarrow> ring_Empty r \<longleftrightarrow> ring_Len r = 0"
  by (auto simp: ring_ok_def ring_Empty_def ring_Len_def split: if_splits)

lemma ring_Len_le: "ring_ok r \<Longrightarrow> ring_Len r \<le> length (bf_ring r)"
  by (auto simp: ring_ok_def ring_Len_def split: if_splits)

lemma ring_Init_ok: "ring_ok (ring_Init z n)" "ring_list (ring_Init z n) = []"
  by (auto simp: ring_ok_def ring_Init_def ring_list_def ring_Len_def)

lemma ring_Clear_ok: "ring_ok (ring_Clear z r)" "ring_list (ring_Clear z r) = []"
  by (auto simp: ring_ok_def ring_Clear_def ring_list_def ring_Len_def)

lemma ring_pos:
  assumes "ring_ok r" "bf_ring r \<noteq> []"
  shows "bf_headPos r < length (bf_ring r)" "bf_tailPos r = (bf_headPos r + ring_Len r) mod length (bf_ring r)"
    "bf_full r \<longleftrightarrow> ring_Len r = length (bf_ring r)"
  using assms by (auto simp: ring_ok_def ring_Len_def)

lemma wrap_pos: "h < n \<Longrightarrow> l \<le> n \<Longrightarrow> (h + l) mod n = (if h + l < n then h + l else h + l - n)" for h l n :: nat
  by (simp add: mod_if)

lemma ring_posI:
  assumes "bf_headPos r < length (bf_ring r)" "l \<le> length (bf_ring r)"
    "bf_tailPos r = (bf_headPos r + l) mod length (bf_ring r)" "bf_full r \<longleftrightarrow> l = length (bf_ring r)"
  shows "ring_ok r" "ring_Len r = l"
proof -
  have "bf_ring r \<noteq> []" using assms(1) by auto
  then show "ring_ok r" "ring_Len r = l"
    using assms by (auto simp: ring_ok_def ring_Len_def wrap_pos split: if_splits)
qed

lemma ring_grow_ok:
  assumes "ring_ok r" "bf_full r \<or> bf_ring r = []"
  shows "ring_ok (ring_grow z r)" "ring_list (ring_grow z r) = ring_list r" "bf_ring (ring_grow z r) \<noteq> []"
    "\<not> bf_full (ring_grow z r)"
proof -
  let ?n = "length (bf_ring r)" and ?g = "ring_grow z r"
  let ?c = "drop (bf_headPos r) (bf_ring r) @ take (bf_headPos r) (bf_ring r)"
  have h: "bf_headPos r \<le> ?n" using assms by (auto simp: ring_ok_def split: if_splits)
  then have c: "length ?c = ?n" by simp
  have len: "length (bf_ring ?g) = (if ?n = 0 then 1 else ?n * 2)"
    using h by (simp add: ring_grow_def Let_def)
  have g: "ring_ok ?g" "ring_Len ?g = ?n"
  proof -
    have "bf_headPos ?g < length (bf_ring ?g)" "?n \<le> length (bf_ring ?g)" using len by (auto simp: ring_grow_def Let_def)
    moreover have "bf_tailPos ?g = (bf_headPos ?g + ?n) mod length (bf_ring ?g)"
      unfolding len by (auto simp: ring_grow_def Let_def)
    moreover have "bf_full ?g \<longleftrightarrow> ?n = length (bf_ring ?g)" unfolding len by (auto simp: ring_grow_def Let_def)
    ultimately show "ring_ok ?g" "ring_Len ?g = ?n" using ring_posI by blast+
  qed
  have r: "ring_Len r = ?n" using assms by (auto simp: ring_Len_def ring_ok_def)
  have "ring_list ?g = ring_list r"
  proof (rule nth_equalityI)
    show "length (ring_list ?g) = length (ring_list r)" using g r by simp
  next
    fix i assume i: "i < length (ring_list ?g)"
    then have i': "i < ?n" using g by simp
    then have ne: "bf_ring r \<noteq> []" by auto
    have hn: "bf_headPos r < ?n" using ring_pos(1) [OF assms(1) ne] .
    have "bf_ring ?g = ?c @ replicate (?n * 2 - ?n) z" "bf_headPos ?g = 0"
      using ne c by (simp_all add: ring_grow_def Let_def)
    then have "ring_list ?g ! i = bf_ring ?g ! i" using i i' len ne by (simp add: ring_list_nth)
    also have "\<dots> = ?c ! i"
      unfolding \<open>bf_ring ?g = ?c @ replicate (?n * 2 - ?n) z\<close> using i' c by (subst nth_append) simp
    also have "\<dots> = rotate (bf_headPos r) (bf_ring r) ! i" using hn by (simp add: rotate_drop_take)
    also have "\<dots> = ring_list r ! i" using i' r by (simp add: nth_rotate ring_list_nth)
    finally show "ring_list ?g ! i = ring_list r ! i" .
  qed
  with g show "ring_ok ?g" "ring_list ?g = ring_list r" by simp_all
  show "bf_ring ?g \<noteq> []" using len by (metis length_0_conv mult_eq_0_iff numeral_neq_zero one_neq_zero)
  show "\<not> bf_full ?g" by (simp add: ring_grow_def Let_def)
qed

lemma ring_put_ok:
  assumes "ring_ok r" "bf_ring r \<noteq> []" "\<not> bf_full r"
  shows "ring_ok (ring_PushBack z t r)" "ring_list (ring_PushBack z t r) = ring_list r @ [t]"
proof -
  let ?n = "length (bf_ring r)" and ?h = "bf_headPos r" and ?l = "ring_Len r" and ?p = "ring_PushBack z t r"
  note pos = ring_pos [OF assms(1,2)]
  have l: "?l < ?n" using pos(3) assms(1,3) ring_Len_le by fastforce
  have ring: "bf_ring ?p = (bf_ring r)[(?h + ?l) mod ?n := t]" "bf_headPos ?p = ?h"
    using assms(2,3) pos(2) by (auto simp: ring_PushBack_def Let_def)
  have tl: "bf_tailPos ?p = (if bf_tailPos r + 1 = ?n then 0 else bf_tailPos r + 1)"
    "bf_full ?p \<longleftrightarrow> bf_tailPos ?p = ?h"
    using assms(2,3) by (auto simp: ring_PushBack_def Let_def)
  have tail: "bf_tailPos ?p = (?h + (?l + 1)) mod ?n"
    unfolding tl(1) pos(2) using l by (simp add: mod_Suc)
  have full: "bf_full ?p \<longleftrightarrow> ?l + 1 = ?n"
    unfolding tl(2) tail using pos(1) l wrap_pos [OF pos(1), of "?l + 1"] by auto
  have p: "ring_ok ?p" "ring_Len ?p = ?l + 1"
    using ring_posI [of ?p "?l + 1"] ring tail full pos(1) l by simp_all
  have "(?h + ?l) mod ?n \<noteq> (?h + i) mod ?n" if "i < ?l" for i
    using that pos(1) l by (auto simp: wrap_pos split: if_splits)
  then have old: "bf_ring ?p ! ((?h + i) mod ?n) = bf_ring r ! ((?h + i) mod ?n)" if "i < ?l" for i
    using that unfolding ring by (intro nth_list_update_neq) blast
  have new: "bf_ring ?p ! ((?h + ?l) mod ?n) = t" using assms(2) by (simp add: ring)
  have "ring_list ?p = map (\<lambda>i. bf_ring ?p ! ((?h + i) mod ?n)) [0..<?l] @ [bf_ring ?p ! ((?h + ?l) mod ?n)]"
    using p ring by (simp add: ring_list_def)
  also have "\<dots> = ring_list r @ [t]"
    unfolding new using old by (simp add: ring_list_def)
  finally show "ring_list ?p = ring_list r @ [t]" .
  show "ring_ok ?p" by (rule p)
qed

lemma ring_PushBack_ok:
  assumes "ring_ok r"
  shows "ring_ok (ring_PushBack z t r) \<and> ring_list (ring_PushBack z t r) = ring_list r @ [t]"
proof (cases "bf_full r \<or> bf_ring r = []")
  case True
  note g = ring_grow_ok [OF assms True, of z]
  have "ring_PushBack z t r = ring_PushBack z t (ring_grow z r)"
    using True g(3,4) by (auto simp: ring_PushBack_def [of z t r] ring_PushBack_def [of z t "ring_grow z r"] Let_def)
  with ring_put_ok [OF g(1,3,4), of z t] g(2) show ?thesis by simp
next
  case False
  with ring_put_ok [OF assms] show ?thesis by blast
qed

lemma ring_PopFront_ok:
  assumes "ring_ok r" "ring_list r \<noteq> []"
  shows "\<exists>q. ring_PopFront z r = Some (hd (ring_list r), q) \<and> ring_ok q \<and> ring_list q = tl (ring_list r)"
proof -
  let ?n = "length (bf_ring r)" and ?h = "bf_headPos r" and ?l = "ring_Len r"
  have l: "?l \<noteq> 0" using assms(2) by (metis length_0_conv ring_list_length)
  have ne: "bf_ring r \<noteq> []" using l assms(1) by (auto simp: ring_Len_def ring_ok_def)
  note pos = ring_pos [OF assms(1) ne] and le = ring_Len_le [OF assms(1)]
  define q where "q = r\<lparr>bf_full := False, bf_ring := (bf_ring r)[?h := z], bf_headPos := (?h + 1) mod ?n\<rparr>"
  have q: "ring_PopFront z r = Some (bf_ring r ! ?h, q)" "bf_ring q = (bf_ring r)[?h := z]"
    "bf_headPos q = (?h + 1) mod ?n" "bf_tailPos q = bf_tailPos r" "\<not> bf_full q"
    using l assms(1) pos(1) by (auto simp: ring_PopFront_def Let_def ring_Empty_iff q_def mod_Suc)
  have tail: "bf_tailPos q = (bf_headPos q + (?l - 1)) mod length (bf_ring q)"
  proof -
    have "bf_tailPos q = ((?h + 1) + (?l - 1)) mod ?n" unfolding q(4) pos(2) using l by simp
    also have "\<dots> = ((?h + 1) mod ?n + (?l - 1)) mod ?n" by (simp only: mod_add_left_eq)
    finally show ?thesis unfolding q(3) q(2) by simp
  qed
  have ok: "ring_ok q" "ring_Len q = ?l - 1"
    using ring_posI [of q "?l - 1", OF _ _ tail] q l le pos(1) ne by auto
  have hd: "hd (ring_list r) = bf_ring r ! ?h"
    using l pos(1) by (simp add: hd_conv_nth [OF assms(2)] ring_list_nth)
  have neq: "(?h + i) mod ?n \<noteq> ?h" if "0 < i" "i < ?l" for i
    using that pos(1) le by (auto simp: wrap_pos split: if_splits)
  have "ring_list q ! i = tl (ring_list r) ! i" if "i < ?l - 1" for i
  proof -
    have "(bf_headPos q + i) mod ?n = (?h + (i + 1)) mod ?n" unfolding q(3) by (simp add: mod_add_left_eq)
    then have "ring_list q ! i = (bf_ring r)[?h := z] ! ((?h + (i + 1)) mod ?n)"
      using that ok(2) q(2) by (simp add: ring_list_nth)
    also have "\<dots> = bf_ring r ! ((?h + (i + 1)) mod ?n)"
      using neq [of "i + 1"] that by (intro nth_list_update_neq) force
    also have "\<dots> = tl (ring_list r) ! i" using that by (simp add: nth_tl ring_list_nth)
    finally show ?thesis .
  qed
  then have "ring_list q = tl (ring_list r)" using ok(2) by (intro nth_equalityI) simp_all
  with q(1) ok(1) hd show ?thesis by simp
qed

lemma ring_store_ok:
  assumes "ring_ok r"
  shows "ring_ok (ring_store i t r)" "ring_list (ring_store i t r) = (ring_list r)[i := t]"
proof -
  let ?n = "length (bf_ring r)" and ?h = "bf_headPos r" and ?l = "ring_Len r"
  show "ring_ok (ring_store i t r)" using assms by (auto simp: ring_store_def ring_ok_def)
  show "ring_list (ring_store i t r) = (ring_list r)[i := t]"
  proof (cases "i < ?l")
    case False
    then show ?thesis by (simp add: ring_store_def list_update_beyond)
  next
    case True
    then have ne: "bf_ring r \<noteq> []" using assms by (auto simp: ring_Len_def ring_ok_def)
    note pos = ring_pos [OF assms ne] and le = ring_Len_le [OF assms]
    have s: "ring_store i t r = r\<lparr>bf_ring := (bf_ring r)[(?h + i) mod ?n := t]\<rparr>"
      using True assms by (auto simp: ring_store_def ring_Empty_iff)
    have len: "ring_Len (ring_store i t r) = ?l" unfolding s by (simp add: ring_Len_def)
    have "(?h + i) mod ?n \<noteq> (?h + j) mod ?n" if "j < ?l" "j \<noteq> i" for j
      using that True pos(1) le by (auto simp: wrap_pos split: if_splits)
    then have old: "(bf_ring r)[(?h + i) mod ?n := t] ! ((?h + j) mod ?n) = bf_ring r ! ((?h + j) mod ?n)"
      if "j < ?l" "j \<noteq> i" for j
      using that by (intro nth_list_update_neq) blast
    have new: "(bf_ring r)[(?h + i) mod ?n := t] ! ((?h + i) mod ?n) = t" using ne by simp
    have "ring_list (ring_store i t r) ! j = (ring_list r)[i := t] ! j" if "j < ?l" for j
    proof -
      have "ring_list (ring_store i t r) ! j = (bf_ring r)[(?h + i) mod ?n := t] ! ((?h + j) mod ?n)"
        using that len by (simp add: ring_list_nth) (simp add: s)
      with old new that True show ?thesis by (cases "j = i") (simp_all add: ring_list_nth)
    qed
    with len show ?thesis by (intro nth_equalityI) simp_all
  qed
qed

text \<open>The ring buffer provides the interface.\<close>

interpretation ringq: deque ring_ok ring_list "ring_PushBack z" "ring_PopFront z" ring_Offset ring_store for z
proof
  show "ring_Offset i q = (if i < length (ring_list q) then Some (ring_list q ! i) else None)" if "ring_ok q" for i and q :: "'a ring"
    using that by (auto simp: ring_Offset_def ring_Empty_iff ring_list_nth)
  show "ring_PopFront z q = None" if "ring_ok q" "ring_list q = []" for q :: "'a ring"
    using that by (simp add: ring_PopFront_def ring_Empty_iff ring_list_Nil)
qed (simp_all add: ring_PushBack_ok ring_PopFront_ok ring_store_ok)

lemma ring_Front_ok: "ring_ok r \<Longrightarrow> ring_Front r = (case ring_list r of [] \<Rightarrow> None | x # _ \<Rightarrow> Some x)"
proof -
  assume ok: "ring_ok r"
  have "ring_Front r = ring_Offset 0 r"
    using ok by (auto simp: ring_Front_def ring_Offset_def ring_Empty_iff ring_ok_def split: if_splits)
  then show ?thesis using ringq.look_contents [OF ok, of 0] by (cases "ring_list r") auto
qed

lemma ring_Empty_list: "ring_ok r \<Longrightarrow> ring_Empty r \<longleftrightarrow> ring_list r = []"
  by (simp add: ring_Empty_iff ring_list_Nil)

lemma ring_Back_ok: "ring_ok r \<Longrightarrow> ring_list r \<noteq> [] \<Longrightarrow> ring_Back r = Some (last (ring_list r))"
  using ringq.look_contents [of r "ring_Len r - 1"]
  by (auto simp: ring_Back_def ring_Empty_list last_conv_nth ring_list_Nil)

section \<open>Queue indexed by packet numbers\<close>

type_synonym packet_number = int

definition invalidPacketNumber :: packet_number where "invalidPacketNumber = -1"

record 'a entry_wrapper =
  ew_present :: bool
  ew_entry :: 'a

record 'a pn_queue =
  pn_entries :: "'a entry_wrapper ring"
  pn_numberOfPresentEntries :: int
  pn_firstPacket :: packet_number

text \<open>The wrapper that holds no entry; its payload is the zero value of the payload type.\<close>

definition no_entry :: "'a \<Rightarrow> 'a entry_wrapper" where
  "no_entry zero = \<lparr>ew_present = False, ew_entry = zero\<rparr>"

definition newPacketNumberIndexedQueue :: "'a \<Rightarrow> nat \<Rightarrow> 'a pn_queue" where
  "newPacketNumberIndexedQueue zero sz =
     \<lparr>pn_entries = ring_Init (no_entry zero) sz, pn_numberOfPresentEntries = 0,
      pn_firstPacket = invalidPacketNumber\<rparr>"

definition pn_IsEmpty :: "'a pn_queue \<Rightarrow> bool" where
  "pn_IsEmpty p \<longleftrightarrow> pn_numberOfPresentEntries p = 0"

definition NumberOfPresentEntries :: "'a pn_queue \<Rightarrow> int" where
  "NumberOfPresentEntries p = pn_numberOfPresentEntries p"

definition EntrySlotsUsed :: "'a pn_queue \<Rightarrow> nat" where "EntrySlotsUsed p = ring_Len (pn_entries p)"

definition FirstPacket :: "'a pn_queue \<Rightarrow> packet_number" where "FirstPacket p = pn_firstPacket p"

definition LastPacket :: "'a pn_queue \<Rightarrow> packet_number" where
  "LastPacket p =
     (if pn_IsEmpty p then invalidPacketNumber else pn_firstPacket p + (int (ring_Len (pn_entries p)) - 1))"

definition pn_push :: "'a \<Rightarrow> 'a entry_wrapper \<Rightarrow> 'a pn_queue \<Rightarrow> 'a pn_queue" where
  "pn_push zero w p = p\<lparr>pn_entries := ring_PushBack (no_entry zero) w (pn_entries p)\<rparr>"

text \<open>\<^const>\<open>None\<close> for \<open>entry\<close> is the nil pointer.\<close>

definition Emplace :: "'a \<Rightarrow> packet_number \<Rightarrow> 'a option \<Rightarrow> 'a pn_queue \<Rightarrow> bool \<times> 'a pn_queue" where
  "Emplace zero n entry p =
     (case entry of
        None \<Rightarrow> (False, p)
      | Some x \<Rightarrow>
        if n = invalidPacketNumber then (False, p)
        else if pn_IsEmpty p
        then (True, (pn_push zero \<lparr>ew_present = True, ew_entry = x\<rparr> p)
                      \<lparr>pn_numberOfPresentEntries := 1, pn_firstPacket := n\<rparr>)
        else if n \<le> LastPacket p then (False, p)
        else
          let gap = n - FirstPacket p - int (ring_Len (pn_entries p));
              p1 = p\<lparr>pn_entries := push_times (ring_PushBack (no_entry zero) (no_entry zero)) (nat gap) (pn_entries p)\<rparr>
          in (True, (pn_push zero \<lparr>ew_present = True, ew_entry = x\<rparr> p1)
                      \<lparr>pn_numberOfPresentEntries := pn_numberOfPresentEntries p + 1\<rparr>))"

text \<open>The index of the wrapper that \<open>getEntryWraper\<close> points to.\<close>

definition getEntryWraper :: "packet_number \<Rightarrow> 'a pn_queue \<Rightarrow> (nat \<times> 'a entry_wrapper) option" where
  "getEntryWraper n p =
     (if n = invalidPacketNumber \<or> pn_IsEmpty p \<or> n < pn_firstPacket p then None
      else
        let i = nat (n - pn_firstPacket p) in
        if i \<ge> ring_Len (pn_entries p) then None
        else (case ring_Offset i (pn_entries p) of
                None \<Rightarrow> None | Some w \<Rightarrow> if \<not> ew_present w then None else Some (i, w)))"

definition GetEntry :: "packet_number \<Rightarrow> 'a pn_queue \<Rightarrow> 'a option" where
  "GetEntry n p = map_option (\<lambda>(i, w). ew_entry w) (getEntryWraper n p)"

text \<open>Both loops may in principle run forever: \<^const>\<open>None\<close> is a loop that does not return.\<close>

definition pop_first :: "'a \<Rightarrow> 'a pn_queue \<Rightarrow> 'a pn_queue" where
  "pop_first zero p =
     (case ring_PopFront (no_entry zero) (pn_entries p) of
        None \<Rightarrow> p
      | Some (_, r) \<Rightarrow> p\<lparr>pn_entries := r, pn_firstPacket := pn_firstPacket p + 1\<rparr>)"

definition front_present :: "'a pn_queue \<Rightarrow> bool" where
  "front_present p = (case ring_Front (pn_entries p) of None \<Rightarrow> False | Some w \<Rightarrow> ew_present w)"

definition clearup :: "'a \<Rightarrow> 'a pn_queue \<Rightarrow> 'a pn_queue option" where
  "clearup zero p =
     map_option (\<lambda>p. if ring_Empty (pn_entries p) then p\<lparr>pn_firstPacket := invalidPacketNumber\<rparr> else p)
       (while_option (\<lambda>p. \<not> ring_Empty (pn_entries p) \<and> \<not> front_present p) (pop_first zero) p)"

text \<open>\<open>Remove\<close> returns the entry that it hands to its callback.\<close>

definition pn_Remove :: "'a \<Rightarrow> packet_number \<Rightarrow> 'a pn_queue \<Rightarrow> ('a option \<times> 'a pn_queue) option" where
  "pn_Remove zero n p =
     (case getEntryWraper n p of
        None \<Rightarrow> Some (None, p)
      | Some (i, w) \<Rightarrow>
        let p1 = p\<lparr>pn_entries := ring_store i (w\<lparr>ew_present := False\<rparr>) (pn_entries p),
                   pn_numberOfPresentEntries := pn_numberOfPresentEntries p - 1\<rparr>
        in map_option (Pair (Some (ew_entry w))) (if n = FirstPacket p1 then clearup zero p1 else Some p1))"

definition drop_first :: "'a \<Rightarrow> 'a pn_queue \<Rightarrow> 'a pn_queue" where
  "drop_first zero p =
     pop_first zero
       (if front_present p then p\<lparr>pn_numberOfPresentEntries := pn_numberOfPresentEntries p - 1\<rparr> else p)"

definition RemoveUpTo :: "'a \<Rightarrow> packet_number \<Rightarrow> 'a pn_queue \<Rightarrow> 'a pn_queue option" where
  "RemoveUpTo zero n p =
     Option.bind
       (while_option
         (\<lambda>p. \<not> ring_Empty (pn_entries p) \<and> pn_firstPacket p \<noteq> invalidPacketNumber \<and> pn_firstPacket p < n)
         (drop_first zero) p)
       (clearup zero)"

section \<open>The queue is a finite map\<close>

definition pn_list :: "'a pn_queue \<Rightarrow> 'a entry_wrapper list" where "pn_list p = ring_list (pn_entries p)"

definition pn_map :: "'a pn_queue \<Rightarrow> packet_number \<Rightarrow> 'a option" where
  "pn_map p n =
     (if pn_firstPacket p \<le> n \<and> n - pn_firstPacket p < int (length (pn_list p)) \<and>
         ew_present (pn_list p ! nat (n - pn_firstPacket p))
      then Some (ew_entry (pn_list p ! nat (n - pn_firstPacket p))) else None)"

definition present_count :: "'a entry_wrapper list \<Rightarrow> int" where
  "present_count ws = int (length (filter ew_present ws))"

definition pn_ok :: "'a pn_queue \<Rightarrow> bool" where
  "pn_ok p \<longleftrightarrow>
     ring_ok (pn_entries p) \<and> pn_numberOfPresentEntries p = present_count (pn_list p) \<and>
     (if pn_list p = [] then pn_firstPacket p = invalidPacketNumber
      else 0 \<le> pn_firstPacket p \<and> ew_present (hd (pn_list p)))"

definition slots :: "packet_number \<Rightarrow> 'a entry_wrapper list \<Rightarrow> packet_number \<Rightarrow> 'a option" where
  "slots f ws n =
     (if f \<le> n \<and> n - f < int (length ws) \<and> ew_present (ws ! nat (n - f)) then Some (ew_entry (ws ! nat (n - f))) else None)"

lemma pn_map_slots: "pn_map p = slots (pn_firstPacket p) (pn_list p)"
  by (simp add: fun_eq_iff pn_map_def slots_def)

lemma slots_Nil [simp]: "slots f [] = Map.empty"
  by (simp add: fun_eq_iff slots_def)

lemma slots_Cons:
  "slots f (w # ws) n = (if n = f then if ew_present w then Some (ew_entry w) else None else slots (f + 1) ws n)"
proof (cases "f < n")
  case True
  then have "nat (n - f) = Suc (nat (n - (f + 1)))" by simp
  with True show ?thesis by (simp add: slots_def)
qed (auto simp: slots_def)

lemma slots_append:
  "slots f (ws @ [w]) n = (if n = f + int (length ws) then if ew_present w then Some (ew_entry w) else None else slots f ws n)"
  by (induction ws arbitrary: f) (auto simp: slots_Cons)

lemma slots_gap:
  "(\<forall>w\<in>set us. \<not> ew_present w) \<Longrightarrow> slots f (ws @ us) = slots f ws"
proof (induction us rule: rev_induct)
  case (snoc u us)
  then have "slots f ((ws @ us) @ [u]) n = slots f (ws @ us) n" for n
    unfolding slots_append by (auto simp: slots_def)
  with snoc show ?case by (simp add: fun_eq_iff)
qed simp

lemma slots_update:
  "i < length ws \<Longrightarrow> \<not> ew_present w \<Longrightarrow> slots f (ws[i := w]) = (slots f ws)(f + int i := None)"
proof (induction ws arbitrary: i f)
  case (Cons v vs)
  have below: "slots (f + 1) vs f = None" by (simp add: slots_def)
  show ?case
  proof (cases i)
    case 0
    with Cons.prems(2) below show ?thesis by (auto simp: fun_eq_iff slots_Cons)
  next
    case (Suc j)
    with Cons show ?thesis by (auto simp: fun_eq_iff slots_Cons)
  qed
qed simp

lemma slots_drop: "slots (f + int k) (drop k ws) n = (if f + int k \<le> n then slots f ws n else None)"
proof (induction k arbitrary: f ws)
  case 0
  then show ?case by (simp add: slots_def)
next
  case (Suc k)
  show ?case
  proof (cases ws)
    case (Cons v vs)
    then show ?thesis using Suc.IH [of "f + 1" vs] by (auto simp: slots_Cons algebra_simps)
  qed simp
qed

lemma slots_absent: "\<forall>w\<in>set ws. \<not> ew_present w \<Longrightarrow> slots f ws = Map.empty"
  using slots_gap [of ws f "[]"] by simp

lemma slots_dropWhile:
  "slots (f + int (length (takeWhile (\<lambda>w. \<not> ew_present w) ws))) (dropWhile (\<lambda>w. \<not> ew_present w) ws) = slots f ws"
proof (induction ws arbitrary: f)
  case (Cons w ws)
  have below: "slots (f + 1) ws f = None" by (simp add: slots_def)
  show ?case
  proof (cases "ew_present w")
    case False
    have "slots (f + 1) ws = slots f (w # ws)" using False below by (auto simp: fun_eq_iff slots_Cons)
    with Cons.IH [of "f + 1"] False show ?thesis by (simp add: algebra_simps)
  qed simp
qed simp

lemma present_count_simps [simp]:
  "present_count [] = 0" "present_count (w # ws) = (if ew_present w then 1 else 0) + present_count ws"
  "present_count (us @ ws) = present_count us + present_count ws" "0 \<le> present_count ws"
  by (simp_all add: present_count_def)

lemma present_count_dropWhile [simp]: "present_count (dropWhile (\<lambda>w. \<not> ew_present w) ws) = present_count ws"
  by (induction ws) auto

lemma present_count_absent: "\<forall>w\<in>set ws. \<not> ew_present w \<Longrightarrow> present_count ws = 0"
  by (simp add: present_count_def filter_empty_conv)

lemma present_count_clear:
  "i < length ws \<Longrightarrow> ew_present (ws ! i) \<Longrightarrow> \<not> ew_present w \<Longrightarrow> present_count (ws[i := w]) = present_count ws - 1"
  by (induction ws arbitrary: i) (auto split: nat.split simp: nth_Cons)

lemma pn_IsEmpty_iff: "pn_ok p \<Longrightarrow> pn_IsEmpty p \<longleftrightarrow> pn_list p = []"
proof (cases "pn_list p")
  case (Cons w ws)
  have "1 + present_count ws \<noteq> 0" using present_count_simps(4) [of ws] by linarith
  with Cons show "pn_ok p \<Longrightarrow> ?thesis" by (auto simp: pn_ok_def pn_IsEmpty_def)
qed (auto simp: pn_ok_def pn_IsEmpty_def)

text \<open>The loops of the queue, by induction on the slots.\<close>

lemma pop_first_ok:
  assumes "ring_ok (pn_entries p)" "pn_list p = w # ws"
  shows "ring_ok (pn_entries (pop_first z p))" "pn_list (pop_first z p) = ws"
    "pn_firstPacket (pop_first z p) = pn_firstPacket p + 1"
    "pn_numberOfPresentEntries (pop_first z p) = pn_numberOfPresentEntries p"
  using ringq.pop_some [of "pn_entries p" "no_entry z"] assms by (auto simp: pop_first_def pn_list_def)

lemma front_present_ok: "ring_ok (pn_entries p) \<Longrightarrow> front_present p \<longleftrightarrow> pn_list p \<noteq> [] \<and> ew_present (hd (pn_list p))"
  by (auto simp: front_present_def ring_Front_ok pn_list_def split: list.split)

lemma clear_loop:
  assumes "ring_ok (pn_entries p)"
  shows "\<exists>q. while_option (\<lambda>p. \<not> ring_Empty (pn_entries p) \<and> \<not> front_present p) (pop_first z) p = Some q \<and>
    ring_ok (pn_entries q) \<and> pn_list q = dropWhile (\<lambda>w. \<not> ew_present w) (pn_list p) \<and>
    pn_firstPacket q = pn_firstPacket p + int (length (takeWhile (\<lambda>w. \<not> ew_present w) (pn_list p))) \<and>
    pn_numberOfPresentEntries q = pn_numberOfPresentEntries p"
  using assms
proof (induction "pn_list p" arbitrary: p)
  case Nil
  then have "ring_Empty (pn_entries p)" by (simp add: ring_Empty_list pn_list_def)
  with Nil show ?case by (subst while_option_unfold) (simp flip: Nil.hyps)
next
  case (Cons w ws)
  have l: "pn_list p = w # ws" using Cons.hyps(2) by simp
  then have ne: "\<not> ring_Empty (pn_entries p)" using Cons.prems by (auto simp: ring_Empty_list pn_list_def)
  note pop = pop_first_ok [OF Cons.prems l, of z]
  show ?case
  proof (cases "ew_present w")
    case True
    with Cons.prems l show ?thesis by (subst while_option_unfold) (simp add: front_present_ok)
  next
    case False
    from Cons.hyps(1) [OF pop(2) [symmetric] pop(1)] pop False l ne Cons.prems
    show ?thesis by (subst while_option_unfold) (auto simp: front_present_ok)
  qed
qed

lemma clearup_ok:
  assumes "ring_ok (pn_entries p)" "pn_numberOfPresentEntries p = present_count (pn_list p)" "0 \<le> pn_firstPacket p \<or> pn_list p = []"
  shows "\<exists>q. clearup z p = Some q \<and> pn_ok q \<and> pn_map q = pn_map p \<and>
    (pn_list q \<noteq> [] \<longrightarrow> pn_firstPacket p \<le> pn_firstPacket q) \<and> length (pn_list q) \<le> length (pn_list p)"
proof -
  let ?w = "\<lambda>w. \<not> ew_present w"
  from clear_loop [OF assms(1), of z] obtain q where
    q: "while_option (\<lambda>p. \<not> ring_Empty (pn_entries p) \<and> \<not> front_present p) (pop_first z) p = Some q"
      "ring_ok (pn_entries q)" "pn_list q = dropWhile ?w (pn_list p)"
      "pn_firstPacket q = pn_firstPacket p + int (length (takeWhile ?w (pn_list p)))"
      "pn_numberOfPresentEntries q = pn_numberOfPresentEntries p" by blast
  let ?q = "if ring_Empty (pn_entries q) then q\<lparr>pn_firstPacket := invalidPacketNumber\<rparr> else q"
  have m: "pn_map q = pn_map p" unfolding pn_map_slots q(3,4) by (rule slots_dropWhile)
  have e: "ring_Empty (pn_entries q) \<longleftrightarrow> pn_list q = []" using q(2) by (simp add: ring_Empty_list pn_list_def)
  have l: "pn_list ?q = pn_list q" by (simp add: pn_list_def)
  have "clearup z p = Some ?q" by (simp add: clearup_def q(1))
  moreover have "pn_ok ?q"
    using q(2-5) assms(2,3) e l hd_dropWhile [of ?w "pn_list p"] by (auto simp: pn_ok_def)
  moreover have "pn_map ?q = pn_map p" using m e l by (auto simp: pn_map_slots)
  moreover have "length (pn_list ?q) \<le> length (pn_list p)" unfolding l q(3) by (rule length_dropWhile_le)
  ultimately show ?thesis using q(4) e l by (intro exI [of _ ?q]) auto
qed

lemma remove_loop:
  assumes "ring_ok (pn_entries p)" "pn_numberOfPresentEntries p = present_count (pn_list p)" "0 \<le> pn_firstPacket p"
  shows "\<exists>q k. while_option (\<lambda>p. \<not> ring_Empty (pn_entries p) \<and> pn_firstPacket p \<noteq> invalidPacketNumber \<and>
        pn_firstPacket p < n) (drop_first z) p = Some q \<and>
    ring_ok (pn_entries q) \<and> pn_numberOfPresentEntries q = present_count (pn_list q) \<and>
    k = min (length (pn_list p)) (nat (n - pn_firstPacket p)) \<and>
    pn_list q = drop k (pn_list p) \<and> pn_firstPacket q = pn_firstPacket p + int k"
  using assms
proof (induction "pn_list p" arbitrary: p)
  case Nil
  then have "ring_Empty (pn_entries p)" by (simp add: ring_Empty_list pn_list_def)
  with Nil show ?case by (subst while_option_unfold) (simp flip: Nil.hyps)
next
  case (Cons w ws)
  have l: "pn_list p = w # ws" using Cons.hyps(2) by simp
  then have ne: "\<not> ring_Empty (pn_entries p)" using Cons.prems by (auto simp: ring_Empty_list pn_list_def)
  show ?case
  proof (cases "pn_firstPacket p < n")
    case False
    with Cons.prems show ?thesis by (subst while_option_unfold) simp
  next
    case True
    let ?p = "if front_present p then p\<lparr>pn_numberOfPresentEntries := pn_numberOfPresentEntries p - 1\<rparr> else p"
    have p: "ring_ok (pn_entries ?p)" "pn_list ?p = w # ws" "pn_firstPacket ?p = pn_firstPacket p"
      using Cons.prems l by (auto simp: pn_list_def)
    note pop = pop_first_ok [OF p(1,2), of z]
    have c: "pn_numberOfPresentEntries (drop_first z p) = present_count ws"
      using Cons.prems l pop(4) by (auto simp: drop_first_def front_present_ok)
    have d: "ring_ok (pn_entries (drop_first z p))" "pn_list (drop_first z p) = ws"
      "pn_firstPacket (drop_first z p) = pn_firstPacket p + 1"
      using pop p(3) by (simp_all add: drop_first_def)
    have k: "min (length (w # ws)) (nat (n - pn_firstPacket p)) = Suc (min (length ws) (nat (n - (pn_firstPacket p + 1))))"
      using True by (simp add: nat_diff_distrib' Suc_nat_eq_nat_zadd1)
    from Cons.hyps(1) [OF d(2) [symmetric] d(1)] c d Cons.prems True ne l k show ?thesis
      by (subst while_option_unfold) (auto simp: invalidPacketNumber_def)
  qed
qed

section \<open>Operations of the queue on the map\<close>

lemma new_queue_ok: "pn_ok (newPacketNumberIndexedQueue z sz)" "pn_map (newPacketNumberIndexedQueue z sz) = Map.empty"
  by (simp_all add: pn_ok_def newPacketNumberIndexedQueue_def pn_list_def ring_Init_ok pn_map_slots)

lemma getEntryWraper_ok:
  assumes "pn_ok p"
  shows "getEntryWraper n p =
    (case pn_map p n of
       None \<Rightarrow> None | Some x \<Rightarrow> Some (nat (n - pn_firstPacket p), pn_list p ! nat (n - pn_firstPacket p)))"
proof -
  have r: "ring_ok (pn_entries p)" using assms by (simp add: pn_ok_def)
  have inv: "pn_map p invalidPacketNumber = None"
    using assms by (auto simp: pn_ok_def pn_map_def invalidPacketNumber_def split: if_splits)
  show ?thesis
  proof (cases "pn_list p = []")
    case True
    then have "pn_IsEmpty p" "pn_map p n = None" using pn_IsEmpty_iff [OF assms] by (simp_all add: pn_map_slots)
    then show ?thesis by (simp add: getEntryWraper_def)
  next
    case False
    then have "\<not> pn_IsEmpty p" using pn_IsEmpty_iff [OF assms] by simp
    with inv ringq.look_contents [OF r, of "nat (n - pn_firstPacket p)"] show ?thesis
      by (cases "n = invalidPacketNumber") (auto simp: getEntryWraper_def pn_map_def pn_list_def nat_less_iff Let_def)
  qed
qed

lemma GetEntry_ok: "pn_ok p \<Longrightarrow> GetEntry n p = pn_map p n"
  by (auto simp: GetEntry_def getEntryWraper_ok pn_map_def split: if_splits)

lemma pn_push_facts [simp]:
  "ring_ok (pn_entries p) \<Longrightarrow> ring_ok (pn_entries (pn_push z w p))"
  "ring_ok (pn_entries p) \<Longrightarrow> pn_list (pn_push z w p) = pn_list p @ [w]"
  "pn_firstPacket (pn_push z w p) = pn_firstPacket p"
  by (simp_all add: pn_push_def pn_list_def ringq.push_inv ringq.push_contents)

lemma Emplace_empty:
  assumes "pn_ok p" "pn_IsEmpty p" "0 \<le> n"
  shows "fst (Emplace z n (Some x) p) \<and> pn_ok (snd (Emplace z n (Some x) p)) \<and>
    pn_map (snd (Emplace z n (Some x) p)) = [n \<mapsto> x]"
proof -
  let ?w = "\<lparr>ew_present = True, ew_entry = x\<rparr>"
  let ?q = "(pn_push z ?w p)\<lparr>pn_numberOfPresentEntries := 1, pn_firstPacket := n\<rparr>"
  have e: "Emplace z n (Some x) p = (True, ?q)" using assms by (simp add: Emplace_def invalidPacketNumber_def)
  have l: "pn_list p = []" using assms pn_IsEmpty_iff by blast
  have r: "ring_ok (pn_entries p)" using assms(1) by (simp add: pn_ok_def)
  have q: "pn_list ?q = [?w]" "ring_ok (pn_entries ?q)"
    using pn_push_facts(1,2) [OF r, of z ?w] l by (simp_all add: pn_list_def)
  then have "pn_ok ?q" using assms(3) by (simp add: pn_ok_def)
  moreover have "pn_map ?q = [n \<mapsto> x]" unfolding pn_map_slots q by (auto simp: fun_eq_iff slots_Cons)
  ultimately show ?thesis unfolding e by simp
qed

lemma Emplace_after:
  assumes "pn_ok p" "\<not> pn_IsEmpty p" "LastPacket p < n" "0 \<le> n"
  shows "fst (Emplace z n (Some x) p) \<and> pn_ok (snd (Emplace z n (Some x) p)) \<and>
    pn_map (snd (Emplace z n (Some x) p)) = (pn_map p)(n \<mapsto> x)"
proof -
  let ?w = "\<lparr>ew_present = True, ew_entry = x\<rparr>" and ?none = "no_entry z"
  let ?gap = "n - FirstPacket p - int (ring_Len (pn_entries p))"
  let ?p1 = "p\<lparr>pn_entries := push_times (ring_PushBack ?none ?none) (nat ?gap) (pn_entries p)\<rparr>"
  let ?q = "(pn_push z ?w ?p1)\<lparr>pn_numberOfPresentEntries := pn_numberOfPresentEntries p + 1\<rparr>"
  have e: "Emplace z n (Some x) p = (True, ?q)"
    using assms by (simp add: Emplace_def invalidPacketNumber_def Let_def)
  have l: "pn_list p \<noteq> []" using assms(1,2) pn_IsEmpty_iff by blast
  then have r: "ring_ok (pn_entries p)" and f: "0 \<le> pn_firstPacket p" using assms(1) by (simp_all add: pn_ok_def)
  have len: "int (length (pn_list p)) = int (ring_Len (pn_entries p))" by (simp add: pn_list_def)
  have p1: "ring_ok (pn_entries ?p1)" "pn_list ?p1 = pn_list p @ replicate (nat ?gap) ?none"
    using ringq.push_times_append [OF r, of ?none ?none "nat ?gap"] by (simp_all add: pn_list_def)
  have q: "ring_ok (pn_entries ?q)" "pn_list ?q = (pn_list p @ replicate (nat ?gap) ?none) @ [?w]"
    "pn_firstPacket ?q = pn_firstPacket p"
    using pn_push_facts(1,2) [OF p1(1), of z ?w] p1(2) by (simp_all add: pn_list_def)
  have g: "0 \<le> ?gap" using assms(2,3) by (simp add: LastPacket_def FirstPacket_def)
  then have pos: "n = pn_firstPacket p + int (length (pn_list p @ replicate (nat ?gap) ?none))"
    using len by (simp add: FirstPacket_def)
  have absent: "\<forall>w\<in>set (replicate (nat ?gap) ?none). \<not> ew_present w" by (simp add: no_entry_def)
  have "present_count (replicate (nat ?gap) ?none) = 0" by (rule present_count_absent [OF absent])
  then have "pn_ok ?q" using assms(1) q l f by (simp add: pn_ok_def)
  moreover have "pn_map ?q = (pn_map p)(n \<mapsto> x)"
    unfolding fun_eq_iff pn_map_slots q slots_append pos [symmetric] slots_gap [OF absent] by simp
  ultimately show ?thesis unfolding e by simp
qed

lemma pn_Remove_ok:
  assumes "pn_ok p"
  shows "\<exists>q. pn_Remove z n p = Some (pn_map p n, q) \<and> pn_ok q \<and> pn_map q = (pn_map p)(n := None) \<and>
    EntrySlotsUsed q \<le> EntrySlotsUsed p"
proof (cases "pn_map p n")
  case None
  then show ?thesis using assms by (auto simp: pn_Remove_def getEntryWraper_ok fun_upd_idem)
next
  case (Some x)
  let ?i = "nat (n - pn_firstPacket p)"
  let ?w = "pn_list p ! ?i"
  let ?p = "p\<lparr>pn_entries := ring_store ?i (?w\<lparr>ew_present := False\<rparr>) (pn_entries p),
              pn_numberOfPresentEntries := pn_numberOfPresentEntries p - 1\<rparr>"
  have r: "ring_ok (pn_entries p)" and c: "pn_numberOfPresentEntries p = present_count (pn_list p)"
    using assms by (simp_all add: pn_ok_def)
  have i: "?i < length (pn_list p)" "ew_present ?w" "ew_entry ?w = x" "n = pn_firstPacket p + int ?i"
    using Some by (auto simp: pn_map_def nat_less_iff split: if_splits)
  then have f: "0 \<le> pn_firstPacket p" using assms by (auto simp: pn_ok_def split: if_splits)
  have p: "ring_ok (pn_entries ?p)" "pn_list ?p = (pn_list p)[?i := ?w\<lparr>ew_present := False\<rparr>]"
    using ringq.store_inv [OF r] ringq.store_contents [OF r] by (simp_all add: pn_list_def)
  have m: "pn_map ?p = (pn_map p)(n := None)"
    using slots_update [OF i(1), of "?w\<lparr>ew_present := False\<rparr>" "pn_firstPacket p"] i(4) p(2) by (simp add: pn_map_slots)
  have pc: "pn_numberOfPresentEntries ?p = present_count (pn_list ?p)"
    using present_count_clear [OF i(1,2), of "?w\<lparr>ew_present := False\<rparr>"] c p(2) by simp
  have slots: "EntrySlotsUsed t = length (pn_list t)" for t :: "'a pn_queue" by (simp add: EntrySlotsUsed_def pn_list_def)
  show ?thesis
  proof (cases "n = pn_firstPacket p")
    case True
    from clearup_ok [OF p(1) pc, of z] f obtain q where
      "clearup z ?p = Some q" "pn_ok q" "pn_map q = pn_map ?p" "length (pn_list q) \<le> length (pn_list ?p)" by auto
    with True m p(2) i Some assms show ?thesis
      by (intro exI [of _ q]) (simp add: pn_Remove_def getEntryWraper_ok FirstPacket_def slots Let_def)
  next
    case False
    then have "?i \<noteq> 0" using i(4) by auto
    then have "hd (pn_list ?p) = hd (pn_list p)" unfolding p(2) by (cases "pn_list p") (auto split: nat.split)
    with p pc f i(1) assms have "pn_ok ?p" by (auto simp: pn_ok_def split: if_splits)
    with False m i Some assms p(2) show ?thesis
      by (intro exI [of _ ?p]) (simp add: pn_Remove_def getEntryWraper_ok FirstPacket_def slots Let_def)
  qed
qed

lemma RemoveUpTo_ok:
  assumes "pn_ok p"
  shows "\<exists>q. RemoveUpTo z n p = Some q \<and> pn_ok q \<and> pn_map q = (\<lambda>m. if n \<le> m then pn_map p m else None) \<and>
    EntrySlotsUsed q \<le> EntrySlotsUsed p \<and> (pn_IsEmpty q \<or> n \<le> FirstPacket q)"
proof -
  have slots: "EntrySlotsUsed t = length (pn_list t)" for t :: "'a pn_queue" by (simp add: EntrySlotsUsed_def pn_list_def)
  have p: "ring_ok (pn_entries p)" "pn_numberOfPresentEntries p = present_count (pn_list p)"
    using assms by (simp_all add: pn_ok_def)
  show ?thesis
  proof (cases "pn_list p = []")
    case True
    then have e: "ring_Empty (pn_entries p)" using p(1) by (simp add: ring_Empty_list pn_list_def)
    have w: "while_option (\<lambda>p. \<not> ring_Empty (pn_entries p) \<and> pn_firstPacket p \<noteq> invalidPacketNumber \<and>
        pn_firstPacket p < n) (drop_first z) p = Some p" using e by (subst while_option_unfold) simp
    from clearup_ok [OF p, of z] True obtain q where
      q: "clearup z p = Some q" "pn_ok q" "pn_map q = pn_map p" "length (pn_list q) \<le> length (pn_list p)" by auto
    have "pn_map p = Map.empty" using True by (simp add: pn_map_slots)
    with q w True pn_IsEmpty_iff [OF q(2)] show ?thesis
      by (intro exI [of _ q]) (auto simp: RemoveUpTo_def slots)
  next
    case False
    then have f: "0 \<le> pn_firstPacket p" using assms by (simp add: pn_ok_def)
    from remove_loop [OF p f, of n z] obtain r k where
      r: "while_option (\<lambda>p. \<not> ring_Empty (pn_entries p) \<and> pn_firstPacket p \<noteq> invalidPacketNumber \<and>
        pn_firstPacket p < n) (drop_first z) p = Some r" "ring_ok (pn_entries r)"
        "pn_numberOfPresentEntries r = present_count (pn_list r)"
        "k = min (length (pn_list p)) (nat (n - pn_firstPacket p))" "pn_list r = drop k (pn_list p)"
        "pn_firstPacket r = pn_firstPacket p + int k" by blast
    have m: "pn_map r = (\<lambda>m. if n \<le> m then pn_map p m else None)"
    proof
      fix m
      have "pn_firstPacket p + int k \<le> m \<longleftrightarrow> n \<le> m"
        if "pn_firstPacket p \<le> m" "m - pn_firstPacket p < int (length (pn_list p))"
        using that r(4) by linarith
      then show "pn_map r m = (if n \<le> m then pn_map p m else None)"
        unfolding pn_map_slots r(5,6) slots_drop by (auto simp: slots_def)
    qed
    have "0 \<le> pn_firstPacket r \<or> pn_list r = []" using r(6) f by simp
    from clearup_ok [OF r(2,3) this, of z] obtain q where
      q: "clearup z r = Some q" "pn_ok q" "pn_map q = pn_map r" "length (pn_list q) \<le> length (pn_list r)"
        "pn_list q \<noteq> [] \<longrightarrow> pn_firstPacket r \<le> pn_firstPacket q" by blast
    have "n \<le> pn_firstPacket r" if "pn_list q \<noteq> []"
    proof -
      have "k < length (pn_list p)" using that q(4) r(5) by (cases "k < length (pn_list p)") auto
      with r(4,6) show ?thesis by linarith
    qed
    with q(5) have "pn_IsEmpty q \<or> n \<le> FirstPacket q" using pn_IsEmpty_iff [OF q(2)] by (auto simp: FirstPacket_def)
    moreover have "length (pn_list q) \<le> length (pn_list p)" using q(4) r(5) by simp
    moreover have "RemoveUpTo z n p = Some q" using r(1) q(1) by (simp add: RemoveUpTo_def)
    ultimately show ?thesis using q(2,3) m slots by (intro exI [of _ q]) auto
  qed
qed

text \<open>C32. The packet number queue is a finite map. From the empty queue on, every operation keeps the
  representation sound and acts on the map: insertion succeeds exactly on an empty queue or past the last
  slot, lookup reads it, removal deletes one entry and hands it over, and removal up to a number keeps
  exactly the entries from it on.\<close>

theorem pn_queue_refines_map:
  "pn_ok (newPacketNumberIndexedQueue z sz) \<and> pn_map (newPacketNumberIndexedQueue z sz) = Map.empty \<and>
   (\<forall>p. pn_ok p \<longrightarrow>
      (\<forall>n. GetEntry n p = pn_map p n) \<and>
      (\<forall>n x. 0 \<le> n \<longrightarrow>
         (let (ok, q) = Emplace z n (Some x) p in
          (ok \<longleftrightarrow> pn_IsEmpty p \<or> LastPacket p < n) \<and> pn_ok q \<and>
          pn_map q = (if ok then (pn_map p)(n \<mapsto> x) else pn_map p))) \<and>
      (\<forall>n. \<exists>q. pn_Remove z n p = Some (pn_map p n, q) \<and> pn_ok q \<and> pn_map q = (pn_map p)(n := None)) \<and>
      (\<forall>n. \<exists>q. RemoveUpTo z n p = Some q \<and> pn_ok q \<and> pn_map q = (\<lambda>m. if n \<le> m then pn_map p m else None)))"
proof (intro conjI allI impI)
  fix p :: "'a pn_queue" and n :: packet_number and x :: 'a
  assume ok: "pn_ok p" and n: "0 \<le> n"
  show "let (ok, q) = Emplace z n (Some x) p in (ok \<longleftrightarrow> pn_IsEmpty p \<or> LastPacket p < n) \<and> pn_ok q \<and>
      pn_map q = (if ok then (pn_map p)(n \<mapsto> x) else pn_map p)"
  proof (cases "pn_IsEmpty p")
    case True
    then have "pn_map p = Map.empty" using pn_IsEmpty_iff [OF ok] by (simp add: pn_map_slots)
    with Emplace_empty [OF ok True n, of z x] True show ?thesis by (simp add: case_prod_beta)
  next
    case False
    show ?thesis
    proof (cases "LastPacket p < n")
      case True
      with Emplace_after [OF ok False True n, of z x] False show ?thesis by (simp add: case_prod_beta)
    next
      case less: False
      with False n ok show ?thesis by (simp add: Emplace_def invalidPacketNumber_def)
    qed
  qed
next
  fix p :: "'a pn_queue" and n
  assume ok: "pn_ok p"
  show "GetEntry n p = pn_map p n" by (rule GetEntry_ok [OF ok])
  show "\<exists>q. pn_Remove z n p = Some (pn_map p n, q) \<and> pn_ok q \<and> pn_map q = (pn_map p)(n := None)"
    using pn_Remove_ok [OF ok, of z n] by metis
  show "\<exists>q. RemoveUpTo z n p = Some q \<and> pn_ok q \<and> pn_map q = (\<lambda>m. if n \<le> m then pn_map p m else None)"
    using RemoveUpTo_ok [OF ok, of z n] by metis
qed (rule new_queue_ok)+

lemma pn_queue_refines_map_witness:
  "\<exists>q. RemoveUpTo (0::int) 6 (snd (Emplace 0 7 (Some 2) (snd (Emplace 0 5 (Some 1) (newPacketNumberIndexedQueue 0 0))))) = Some q \<and>
     pn_map q = [7 \<mapsto> 2]"
proof -
  let ?q0 = "newPacketNumberIndexedQueue (0::int) 0" and ?q1 = "snd (Emplace 0 5 (Some 1) (newPacketNumberIndexedQueue (0::int) 0))"
  let ?q2 = "snd (Emplace 0 7 (Some 2) ?q1)"
  note laws = pn_queue_refines_map [of "0::int" 0]
  have q0: "pn_ok ?q0" "pn_map ?q0 = Map.empty" using laws by blast+
  have "pn_IsEmpty ?q0" by (simp add: pn_IsEmpty_def newPacketNumberIndexedQueue_def)
  moreover from laws q0(1) have "let (ok, q) = Emplace 0 5 (Some 1) ?q0 in (ok \<longleftrightarrow> pn_IsEmpty ?q0 \<or> LastPacket ?q0 < 5) \<and>
      pn_ok q \<and> pn_map q = (if ok then (pn_map ?q0)(5 \<mapsto> 1) else pn_map ?q0)" by simp
  ultimately have q1: "pn_ok ?q1" "pn_map ?q1 = [5 \<mapsto> 1]" using q0(2) by (auto simp: case_prod_beta)
  have "LastPacket ?q1 < 7"
    by (simp add: LastPacket_def Emplace_def newPacketNumberIndexedQueue_def pn_IsEmpty_def invalidPacketNumber_def pn_push_def
        ring_PushBack_def ring_grow_def ring_Init_def ring_Len_def Let_def)
  moreover from laws q1(1) have "let (ok, q) = Emplace 0 7 (Some 2) ?q1 in (ok \<longleftrightarrow> pn_IsEmpty ?q1 \<or> LastPacket ?q1 < 7) \<and>
      pn_ok q \<and> pn_map q = (if ok then (pn_map ?q1)(7 \<mapsto> 2) else pn_map ?q1)" by simp
  ultimately have q2: "pn_ok ?q2" "pn_map ?q2 = [5 \<mapsto> 1, 7 \<mapsto> 2]" using q1(2) by (auto simp: case_prod_beta)
  from laws q2(1) obtain q where "RemoveUpTo 0 6 ?q2 = Some q" "pn_map q = (\<lambda>m. if 6 \<le> m then pn_map ?q2 m else None)" by blast
  with q2(2) show ?thesis by (intro exI [of _ q]) (auto simp: fun_eq_iff)
qed

text \<open>The clean-up loops of the queue always return: removing everything below a number ends, never uses
  more slots than before and leaves no slot below that number allocated.\<close>

lemma pn_queue_cleanup_returns:
  assumes "pn_ok p"
  shows "\<exists>q. RemoveUpTo z n p = Some q \<and> EntrySlotsUsed q \<le> EntrySlotsUsed p \<and> (pn_IsEmpty q \<or> n \<le> FirstPacket q)"
  using RemoveUpTo_ok [OF assms, of z n] by blast

lemma pn_queue_cleanup_returns_witness:
  "\<exists>q. RemoveUpTo (0::int) 9 (snd (Emplace 0 5 (Some 1) (newPacketNumberIndexedQueue 0 0))) = Some q \<and>
     (pn_IsEmpty q \<or> 9 \<le> FirstPacket q)"
proof -
  have "pn_IsEmpty (newPacketNumberIndexedQueue (0::int) 0)" by (simp add: pn_IsEmpty_def newPacketNumberIndexedQueue_def)
  with Emplace_empty [OF new_queue_ok(1) this, of 5 0 1]
  have "pn_ok (snd (Emplace 0 5 (Some 1) (newPacketNumberIndexedQueue (0::int) 0)))" by simp
  from pn_queue_cleanup_returns [OF this, of 0 9] show ?thesis by blast
qed

end
