(* ===== verification/Bbr_Filter.thy ===== *)
theory Bbr_Filter
  imports Prelude
begin

text \<open>
  \<open>internal/congestion/bbr/windowed_filter.go\<close>: Kathleen Nichols' windowed filter with three
  estimates, over a comparator. The code instantiates the time with the 64-bit round trip counter,
  whose differences wrap. What a comparator promises is the interface \<open>comparator\<close>, which the
  maximum, the minimum and the ack height comparators provide.
\<close>

record 'v estimate =
  es_sample :: 'v
  es_time :: u64

record 'v windowed_filter =
  wf_windowLength :: u64
  wf_best :: "'v estimate"
  wf_second :: "'v estimate"
  wf_third :: "'v estimate"

definition zero_estimate :: "'v \<Rightarrow> 'v estimate" where
  "zero_estimate zero = \<lparr>es_sample = zero, es_time = 0\<rparr>"

definition MaxFilter :: "'o::linorder \<Rightarrow> 'o \<Rightarrow> int" where
  "MaxFilter a b = (if a > b then 1 else if a < b then -1 else 0)"

definition MinFilter :: "'o::linorder \<Rightarrow> 'o \<Rightarrow> int" where
  "MinFilter a b = (if a < b then 1 else if a > b then -1 else 0)"

definition NewWindowedFilter :: "'v \<Rightarrow> u64 \<Rightarrow> 'v windowed_filter" where
  "NewWindowedFilter zero windowLength =
     \<lparr>wf_windowLength = windowLength, wf_best = zero_estimate zero, wf_second = zero_estimate zero,
      wf_third = zero_estimate zero\<rparr>"

definition SetWindowLength :: "u64 \<Rightarrow> 'v windowed_filter \<Rightarrow> 'v windowed_filter" where
  "SetWindowLength windowLength f = f\<lparr>wf_windowLength := windowLength\<rparr>"

definition GetBest :: "'v windowed_filter \<Rightarrow> 'v" where "GetBest f = es_sample (wf_best f)"
definition GetSecondBest :: "'v windowed_filter \<Rightarrow> 'v" where "GetSecondBest f = es_sample (wf_second f)"
definition GetThirdBest :: "'v windowed_filter \<Rightarrow> 'v" where "GetThirdBest f = es_sample (wf_third f)"

definition wf_Reset :: "'v \<Rightarrow> u64 \<Rightarrow> 'v windowed_filter \<Rightarrow> 'v windowed_filter" where
  "wf_Reset newSample newTime f =
     (let e = \<lparr>es_sample = newSample, es_time = newTime\<rparr> in f\<lparr>wf_third := e, wf_second := e, wf_best := e\<rparr>)"

definition wf_Clear :: "'v \<Rightarrow> 'v windowed_filter \<Rightarrow> 'v windowed_filter" where
  "wf_Clear zero f =
     f\<lparr>wf_best := zero_estimate zero, wf_second := zero_estimate zero, wf_third := zero_estimate zero\<rparr>"

text \<open>The three parts of \<open>Update\<close> after the test for a reset: the replacement of worse estimates, the expiry
  of the best one, and the refresh of the second and third from later parts of the window.\<close>

definition wf_replace :: "('v \<Rightarrow> 'v \<Rightarrow> int) \<Rightarrow> 'v estimate \<Rightarrow> 'v windowed_filter \<Rightarrow> 'v windowed_filter" where
  "wf_replace cmp e f =
     (if cmp (es_sample e) (es_sample (wf_second f)) \<ge> 0 then f\<lparr>wf_second := e, wf_third := e\<rparr>
      else if cmp (es_sample e) (es_sample (wf_third f)) \<ge> 0 then f\<lparr>wf_third := e\<rparr>
      else f)"

definition wf_expire :: "'v estimate \<Rightarrow> 'v windowed_filter \<Rightarrow> 'v windowed_filter" where
  "wf_expire e f =
     (let f1 = f\<lparr>wf_best := wf_second f, wf_second := wf_third f, wf_third := e\<rparr> in
      if es_time e - es_time (wf_best f1) > wf_windowLength f1
      then f1\<lparr>wf_best := wf_second f1, wf_second := wf_third f1\<rparr> else f1)"

definition wf_refresh :: "('v \<Rightarrow> 'v \<Rightarrow> int) \<Rightarrow> 'v estimate \<Rightarrow> 'v windowed_filter \<Rightarrow> 'v windowed_filter" where
  "wf_refresh cmp e f =
     (if cmp (es_sample (wf_second f)) (es_sample (wf_best f)) = 0 \<and>
         es_time e - es_time (wf_second f) > wf_windowLength f div 4
      then f\<lparr>wf_second := e, wf_third := e\<rparr>
      else if cmp (es_sample (wf_third f)) (es_sample (wf_second f)) = 0 \<and>
              es_time e - es_time (wf_third f) > wf_windowLength f div 2
      then f\<lparr>wf_third := e\<rparr>
      else f)"

definition wf_Update :: "('v \<Rightarrow> 'v \<Rightarrow> int) \<Rightarrow> 'v \<Rightarrow> 'v \<Rightarrow> u64 \<Rightarrow> 'v windowed_filter \<Rightarrow> 'v windowed_filter" where
  "wf_Update cmp zero newSample newTime f =
     (let e = \<lparr>es_sample = newSample, es_time = newTime\<rparr> in
      if cmp (es_sample (wf_best f)) zero = 0 \<or> cmp newSample (es_sample (wf_best f)) \<ge> 0 \<or>
         newTime - es_time (wf_third f) > wf_windowLength f
      then wf_Reset newSample newTime f
      else
        let f1 = wf_replace cmp e f in
        if newTime - es_time (wf_best f1) > wf_windowLength f1 then wf_expire e f1
        else wf_refresh cmp e f1)"

section \<open>Comparators\<close>

text \<open>\<open>le a b\<close> says that \<open>b\<close> is at least as good as \<open>a\<close>.\<close>

locale comparator =
  fixes cmp :: "'v \<Rightarrow> 'v \<Rightarrow> int" and le :: "'v \<Rightarrow> 'v \<Rightarrow> bool"
  assumes le_refl: "le a a" and le_trans: "le a b \<Longrightarrow> le b c \<Longrightarrow> le a c" and le_total: "le a b \<or> le b a"
    and cmp_ge: "cmp a b \<ge> 0 \<longleftrightarrow> le b a" and cmp_zero: "cmp a b = 0 \<longleftrightarrow> le a b \<and> le b a"

text \<open>An estimate is sound for a history of samples when it is one of them and none after it is better.\<close>

definition sound_estimate :: "('v \<Rightarrow> 'v \<Rightarrow> bool) \<Rightarrow> 'v estimate \<Rightarrow> 'v estimate list \<Rightarrow> bool" where
  "sound_estimate le e hist \<longleftrightarrow> (\<exists>us vs. hist = us @ e # vs \<and> (\<forall>x\<in>set vs. le (es_sample x) (es_sample e)))"

definition filter_ok :: "('v \<Rightarrow> 'v \<Rightarrow> bool) \<Rightarrow> 'v estimate list \<Rightarrow> 'v windowed_filter \<Rightarrow> bool" where
  "filter_ok le hist f \<longleftrightarrow>
     sound_estimate le (wf_best f) hist \<and> sound_estimate le (wf_second f) hist \<and> sound_estimate le (wf_third f) hist \<and>
     le (es_sample (wf_second f)) (es_sample (wf_best f)) \<and> le (es_sample (wf_third f)) (es_sample (wf_second f)) \<and>
     es_time (wf_best f) \<le> es_time (wf_second f) \<and> es_time (wf_second f) \<le> es_time (wf_third f) \<and>
     es_time (wf_third f) \<le> es_time (last hist) \<and>
     es_time (last hist) - es_time (wf_best f) \<le> wf_windowLength f"

definition feed :: "('v \<Rightarrow> 'v \<Rightarrow> int) \<Rightarrow> 'v \<Rightarrow> 'v estimate list \<Rightarrow> 'v windowed_filter \<Rightarrow> 'v windowed_filter" where
  "feed cmp zero hist f = fold (\<lambda>e. wf_Update cmp zero (es_sample e) (es_time e)) hist f"

lemma Update_window: "wf_windowLength (wf_Update cmp zero x t f) = wf_windowLength f"
  by (simp add: wf_Update_def wf_Reset_def wf_replace_def wf_expire_def wf_refresh_def Let_def)

lemma feed_window: "wf_windowLength (feed cmp zero hist f) = wf_windowLength f"
  by (induction hist arbitrary: f) (simp_all add: feed_def Update_window)

lemma sound_new: "sound_estimate le e (hist @ [e])"
  unfolding sound_estimate_def by (intro exI [of _ hist] exI [of _ "[]"]) simp

lemma sound_old: "sound_estimate le e hist \<Longrightarrow> le (es_sample x) (es_sample e) \<Longrightarrow> sound_estimate le e (hist @ [x])"
  unfolding sound_estimate_def by fastforce

context comparator
begin

lemma not_better: "\<not> cmp a b \<ge> 0 \<Longrightarrow> le a b"
  using cmp_ge le_total by blast

text \<open>What holds between the parts of an update.\<close>

definition mid_ok :: "'v estimate list \<Rightarrow> 'v estimate \<Rightarrow> 'v windowed_filter \<Rightarrow> bool" where
  "mid_ok hist e f \<longleftrightarrow>
     sound_estimate le (wf_best f) (hist @ [e]) \<and> sound_estimate le (wf_second f) (hist @ [e]) \<and>
     sound_estimate le (wf_third f) (hist @ [e]) \<and>
     le (es_sample (wf_second f)) (es_sample (wf_best f)) \<and> le (es_sample (wf_third f)) (es_sample (wf_second f)) \<and>
     le (es_sample e) (es_sample (wf_third f)) \<and>
     es_time (wf_best f) \<le> es_time (wf_second f) \<and> es_time (wf_second f) \<le> es_time (wf_third f) \<and>
     es_time (wf_third f) \<le> es_time e \<and> es_time e - es_time (wf_third f) \<le> wf_windowLength f"

lemma replace_ok:
  assumes "filter_ok le hist f" "es_time (last hist) \<le> es_time e" "le (es_sample e) (es_sample (wf_best f))"
    "es_time e - es_time (wf_third f) \<le> wf_windowLength f"
  shows "mid_ok hist e (wf_replace cmp e f)"
proof -
  have t: "es_time (wf_third f) \<le> es_time e" "es_time (wf_second f) \<le> es_time e" "es_time (wf_best f) \<le> es_time e"
    using assms(1,2) unfolding filter_ok_def by auto
  note ok = assms(1) [unfolded filter_ok_def]
  consider (second) "cmp (es_sample e) (es_sample (wf_second f)) \<ge> 0"
    | (third) "\<not> cmp (es_sample e) (es_sample (wf_second f)) \<ge> 0" "cmp (es_sample e) (es_sample (wf_third f)) \<ge> 0"
    | (none) "\<not> cmp (es_sample e) (es_sample (wf_second f)) \<ge> 0" "\<not> cmp (es_sample e) (es_sample (wf_third f)) \<ge> 0"
    by blast
  then show ?thesis
  proof cases
    case second
    then show ?thesis
      using ok t assms(3) sound_new sound_old le_refl by (auto simp: mid_ok_def wf_replace_def)
  next
    case third
    with not_better [OF third(1)] show ?thesis
      using ok t assms(3) sound_new sound_old le_refl by (auto simp: mid_ok_def wf_replace_def)
  next
    case none
    with not_better [OF none(1)] not_better [OF none(2)] show ?thesis
      using ok t assms(3,4) sound_old by (auto simp: mid_ok_def wf_replace_def)
  qed
qed

lemma expire_ok:
  assumes "mid_ok hist e f"
  shows "filter_ok le (hist @ [e]) (wf_expire e f)"
  using assms sound_new [of le e hist] le_refl [of "es_sample e"]
  by (auto simp: mid_ok_def filter_ok_def wf_expire_def Let_def not_less)

lemma refresh_ok:
  assumes "mid_ok hist e f" "es_time e - es_time (wf_best f) \<le> wf_windowLength f"
  shows "filter_ok le (hist @ [e]) (wf_refresh cmp e f)"
proof -
  have "le (es_sample e) (es_sample (wf_second f))" "le (es_sample e) (es_sample (wf_best f))"
    using assms(1) le_trans unfolding mid_ok_def by blast+
  moreover have "es_time (wf_best f) \<le> es_time e" "es_time (wf_second f) \<le> es_time e"
    using assms(1) unfolding mid_ok_def by auto
  ultimately show ?thesis
    using assms sound_new [of le e hist] le_refl [of "es_sample e"]
    by (auto simp: mid_ok_def filter_ok_def wf_refresh_def)
qed

lemma reset_ok: "filter_ok le (hist @ [\<lparr>es_sample = x, es_time = t\<rparr>]) (wf_Reset x t f)"
  by (simp add: filter_ok_def wf_Reset_def Let_def sound_new le_refl)

lemma Update_ok:
  assumes "filter_ok le hist f" "es_time (last hist) \<le> t"
  shows "filter_ok le (hist @ [\<lparr>es_sample = x, es_time = t\<rparr>]) (wf_Update cmp zero x t f)"
proof -
  let ?e = "\<lparr>es_sample = x, es_time = t\<rparr>"
  show ?thesis
  proof (cases "cmp (es_sample (wf_best f)) zero = 0 \<or> cmp x (es_sample (wf_best f)) \<ge> 0 \<or>
      t - es_time (wf_third f) > wf_windowLength f")
    case True
    then have "wf_Update cmp zero x t f = wf_Reset x t f" by (simp add: wf_Update_def Let_def)
    then show ?thesis by (simp only: reset_ok)
  next
    case False
    then have "le x (es_sample (wf_best f))" "t - es_time (wf_third f) \<le> wf_windowLength f"
      using not_better by (auto simp: not_less)
    with replace_ok [OF assms(1), of ?e] assms(2) have m: "mid_ok hist ?e (wf_replace cmp ?e f)" by simp
    have "wf_Update cmp zero x t f =
        (if t - es_time (wf_best (wf_replace cmp ?e f)) > wf_windowLength (wf_replace cmp ?e f)
         then wf_expire ?e (wf_replace cmp ?e f) else wf_refresh cmp ?e (wf_replace cmp ?e f))"
      using False by (simp add: wf_Update_def Let_def)
    with expire_ok [OF m] refresh_ok [OF m] show ?thesis by (auto simp: not_less)
  qed
qed

lemma feed_ok:
  assumes "hist \<noteq> []" "sorted (map es_time hist)"
  shows "filter_ok le hist (feed cmp zero hist (NewWindowedFilter zero w))"
  using assms
proof (induction hist rule: rev_induct)
  case (snoc e hist)
  show ?case
  proof (cases "hist = []")
    case True
    have "cmp zero zero = 0" using cmp_zero le_refl by blast
    then have "wf_Update cmp zero (es_sample e) (es_time e) (NewWindowedFilter zero w) =
        wf_Reset (es_sample e) (es_time e) (NewWindowedFilter zero w)"
      by (simp add: wf_Update_def NewWindowedFilter_def zero_estimate_def Let_def)
    with True reset_ok [of "[]" "es_sample e" "es_time e"] show ?thesis by (cases e) (simp add: feed_def)
  next
    case False
    with snoc have ok: "filter_ok le hist (feed cmp zero hist (NewWindowedFilter zero w))"
      by (simp add: sorted_append)
    have "es_time (last hist) \<le> es_time e" using snoc.prems(2) False by (auto simp: sorted_append)
    from Update_ok [OF ok this, of "es_sample e" zero] show ?thesis by (cases e) (simp add: feed_def)
  qed
qed simp

end

interpretation max_cmp: comparator MaxFilter "(\<le>) :: 'o::linorder \<Rightarrow> 'o \<Rightarrow> bool"
  by standard (auto simp: MaxFilter_def)

interpretation min_cmp: comparator MinFilter "(\<ge>) :: 'o::linorder \<Rightarrow> 'o \<Rightarrow> bool"
  by standard (auto simp: MinFilter_def)

text \<open>After any run of bandwidth samples in the order of their rounds, the estimate of the filter is a
  sample that was really measured, at most one window ago, and no sample after it was higher; the second and
  third estimates never exceed it.\<close>

theorem max_filter_sound:
  assumes "hist \<noteq> []" "sorted (map es_time hist)"
  shows "let f = feed MaxFilter (0::u64) hist (NewWindowedFilter 0 w) in
    (\<exists>us e vs. hist = us @ e # vs \<and> GetBest f = es_sample e \<and>
       es_time (last hist) - es_time e \<le> w \<and> (\<forall>x\<in>set vs. es_sample x \<le> GetBest f)) \<and>
    GetThirdBest f \<le> GetSecondBest f \<and> GetSecondBest f \<le> GetBest f"
proof -
  let ?f = "feed MaxFilter (0::u64) hist (NewWindowedFilter 0 w)"
  have "filter_ok (\<le>) hist ?f" using max_cmp.feed_ok [OF assms] .
  moreover have "wf_windowLength ?f = w" by (simp add: feed_window) (simp add: NewWindowedFilter_def)
  ultimately show ?thesis
    by (auto simp: filter_ok_def sound_estimate_def Let_def GetBest_def GetSecondBest_def GetThirdBest_def)
qed

lemma max_filter_sound_witness:
  "let hist = [\<lparr>es_sample = 9, es_time = 1\<rparr>, \<lparr>es_sample = 5, es_time = 3\<rparr>, \<lparr>es_sample = 7, es_time = 12\<rparr>];
       f = feed MaxFilter (0::u64) hist (NewWindowedFilter 0 10)
   in GetBest f = 7 \<and> GetSecondBest f \<le> GetBest f"
proof -
  let ?h = "[\<lparr>es_sample = 9, es_time = 1\<rparr>, \<lparr>es_sample = 5, es_time = 3\<rparr>, \<lparr>es_sample = 7, es_time = 12\<rparr>] :: u64 estimate list"
  have "GetBest (feed MaxFilter (0::u64) ?h (NewWindowedFilter 0 10)) = 7"
    by (simp add: feed_def wf_Update_def wf_Reset_def wf_replace_def wf_expire_def wf_refresh_def MaxFilter_def
        NewWindowedFilter_def zero_estimate_def GetBest_def Let_def)
  with max_filter_sound [of ?h 10] show ?thesis by (simp add: Let_def)
qed

end
