(* ===== verification/Bbr_Sampler.thy ===== *)
theory Bbr_Sampler
  imports Go_Int Bbr_Containers Bbr_Filter
begin

text \<open>
  \<open>internal/congestion/bbr/bandwidth.go\<close> and \<open>bandwidth_sampler.go\<close>: bandwidth arithmetic, the tracker
  of ack aggregation, and the sampler that turns acknowledgements into bandwidth samples. \<open>ByteCount\<close>,
  \<open>Duration\<close>, \<open>monotime.Time\<close> are \<open>int64\<close> and \<open>Bandwidth\<close> is \<open>uint64\<close>: the products of the rate
  conversions are wrapped where the code computes them; sums of byte counters and times are plain
  integers, as a connection stays below \<open>2 ^ 63\<close> bytes and nanoseconds. A panic (division by zero,
  index out of range) or a loop that does not return is \<^const>\<open>None\<close>. The product of a \<open>float64\<close> gain
  with an integer is the parameter \<open>fmul\<close>.
\<close>

section \<open>Bandwidth arithmetic\<close>

definition infBandwidth :: int where "infBandwidth = 2 ^ 64 - 1"
definition infRTT :: int where "infRTT = 2 ^ 63 - 1"
definition BytesPerSecond :: int where "BytesPerSecond = 8"

definition BandwidthFromDelta :: "int \<Rightarrow> int \<Rightarrow> int option" where
  "BandwidthFromDelta bytes delta =
     (if u64 delta = 0 then None
      else Some (u64 (u64 (u64 bytes * Second) div u64 delta * BytesPerSecond)))"

definition bytesFromBandwidthAndTimeDelta :: "int \<Rightarrow> int \<Rightarrow> int" where
  "bytesFromBandwidthAndTimeDelta bandwidth delta = tdiv (i64 (i64 bandwidth * delta)) (Second * 8)"

definition timeDeltaFromBytesAndBandwidth :: "int \<Rightarrow> int \<Rightarrow> int option" where
  "timeDeltaFromBytesAndBandwidth bytes bandwidth =
     (if i64 bandwidth = 0 then None else Some (tdiv (i64 (i64 (bytes * 8) * Second)) (i64 bandwidth)))"

section \<open>Records\<close>

record send_time_state =
  ts_isValid :: bool
  ts_isAppLimited :: bool
  ts_totalBytesSent :: int
  ts_totalBytesAcked :: int
  ts_totalBytesLost :: int
  ts_bytesInFlight :: int

definition zero_send_state :: send_time_state where
  "zero_send_state =
     \<lparr>ts_isValid = False, ts_isAppLimited = False, ts_totalBytesSent = 0, ts_totalBytesAcked = 0,
      ts_totalBytesLost = 0, ts_bytesInFlight = 0\<rparr>"

definition newSendTimeState :: "bool \<Rightarrow> int \<Rightarrow> int \<Rightarrow> int \<Rightarrow> int \<Rightarrow> send_time_state" where
  "newSendTimeState appLimited sent acked lost inFlight =
     \<lparr>ts_isValid = True, ts_isAppLimited = appLimited, ts_totalBytesSent = sent, ts_totalBytesAcked = acked,
      ts_totalBytesLost = lost, ts_bytesInFlight = inFlight\<rparr>"

record extra_acked_event =
  ea_extraAcked :: int
  ea_bytesAcked :: int
  ea_timeDelta :: int
  ea_round :: u64

definition zero_event :: extra_acked_event where
  "zero_event = \<lparr>ea_extraAcked = 0, ea_bytesAcked = 0, ea_timeDelta = 0, ea_round = 0\<rparr>"

definition maxExtraAckedEventFunc :: "extra_acked_event \<Rightarrow> extra_acked_event \<Rightarrow> int" where
  "maxExtraAckedEventFunc a b =
     (if ea_extraAcked a > ea_extraAcked b then 1 else if ea_extraAcked a < ea_extraAcked b then -1 else 0)"

interpretation extra_cmp: comparator maxExtraAckedEventFunc "\<lambda>a b. ea_extraAcked a \<le> ea_extraAcked b"
  by standard (auto simp: maxExtraAckedEventFunc_def)

record bandwidth_sample =
  bs_bandwidth :: int
  bs_rtt :: int
  bs_sendRate :: int
  bs_stateAtSend :: send_time_state

definition newBandwidthSample :: bandwidth_sample where
  "newBandwidthSample =
     \<lparr>bs_bandwidth = 0, bs_rtt = 0, bs_sendRate = infBandwidth, bs_stateAtSend = zero_send_state\<rparr>"

section \<open>Ack aggregation\<close>

record ack_height_tracker =
  at_filter :: "extra_acked_event windowed_filter"
  at_epochStartTime :: int
  at_epochBytes :: int
  at_lastSentBeforeEpoch :: packet_number
  at_numEpochs :: nat
  at_threshold :: rat
  at_newEpochAfterFullRound :: bool
  at_reduceExtraAcked :: bool

definition newMaxAckHeightTracker :: "u64 \<Rightarrow> ack_height_tracker" where
  "newMaxAckHeightTracker windowLength =
     \<lparr>at_filter = NewWindowedFilter zero_event windowLength, at_epochStartTime = 0, at_epochBytes = 0,
      at_lastSentBeforeEpoch = invalidPacketNumber, at_numEpochs = 0, at_threshold = 1,
      at_newEpochAfterFullRound = False, at_reduceExtraAcked = False\<rparr>"

definition tracker_Get :: "ack_height_tracker \<Rightarrow> int" where
  "tracker_Get m = ea_extraAcked (GetBest (at_filter m))"

definition height_Update ::
  "extra_acked_event \<Rightarrow> u64 \<Rightarrow> extra_acked_event windowed_filter \<Rightarrow> extra_acked_event windowed_filter" where
  "height_Update e t f = wf_Update maxExtraAckedEventFunc zero_event e t f"

text \<open>Reinsertion of one saved height after the bandwidth estimate went up.\<close>

definition reinsert ::
  "int \<Rightarrow> extra_acked_event \<Rightarrow> extra_acked_event windowed_filter \<Rightarrow> extra_acked_event windowed_filter" where
  "reinsert bandwidthEstimate e f =
     (let expected = bytesFromBandwidthAndTimeDelta bandwidthEstimate (ea_timeDelta e) in
      if expected < ea_bytesAcked e
      then height_Update (e\<lparr>ea_extraAcked := ea_bytesAcked e - expected\<rparr>) (ea_round e) f else f)"

definition recalculate ::
  "int \<Rightarrow> extra_acked_event windowed_filter \<Rightarrow> extra_acked_event windowed_filter" where
  "recalculate bandwidthEstimate f =
     reinsert bandwidthEstimate (GetThirdBest f)
       (reinsert bandwidthEstimate (GetSecondBest f)
         (reinsert bandwidthEstimate (GetBest f) (wf_Clear zero_event f)))"

definition new_epoch :: "int \<Rightarrow> int \<Rightarrow> packet_number \<Rightarrow> ack_height_tracker \<Rightarrow> ack_height_tracker" where
  "new_epoch bytesAcked ackTime lastSent m =
     m\<lparr>at_epochBytes := bytesAcked, at_epochStartTime := ackTime, at_lastSentBeforeEpoch := lastSent,
       at_numEpochs := at_numEpochs m + 1\<rparr>"

definition tracker_Update ::
  "fmul \<Rightarrow> int \<Rightarrow> bool \<Rightarrow> u64 \<Rightarrow> packet_number \<Rightarrow> packet_number \<Rightarrow> int \<Rightarrow> int \<Rightarrow>
     ack_height_tracker \<Rightarrow> int \<times> ack_height_tracker" where
  "tracker_Update fmul bandwidthEstimate isNewMax roundTripCount lastSent lastAcked ackTime bytesAcked m0 =
     (let m = (if at_reduceExtraAcked m0 \<and> isNewMax
               then m0\<lparr>at_filter := recalculate bandwidthEstimate (at_filter m0)\<rparr> else m0);
          force = (at_newEpochAfterFullRound m \<and> at_lastSentBeforeEpoch m \<noteq> invalidPacketNumber \<and>
                   lastAcked \<noteq> invalidPacketNumber \<and> lastAcked > at_lastSentBeforeEpoch m)
      in if at_epochStartTime m = 0 \<or> force then (0, new_epoch bytesAcked ackTime lastSent m)
         else
           let delta = ackTime - at_epochStartTime m;
               expected = bytesFromBandwidthAndTimeDelta bandwidthEstimate delta
           in if at_epochBytes m \<le> fmul (at_threshold m) expected then (0, new_epoch bytesAcked ackTime lastSent m)
              else
                let bytes = at_epochBytes m + bytesAcked; extra = bytes - expected in
                (extra,
                 m\<lparr>at_epochBytes := bytes,
                   at_filter := height_Update
                     \<lparr>ea_extraAcked = extra, ea_bytesAcked = bytes, ea_timeDelta = delta, ea_round = 0\<rparr>
                     roundTripCount (at_filter m)\<rparr>))"

definition tracker_Reset :: "int \<Rightarrow> u64 \<Rightarrow> ack_height_tracker \<Rightarrow> ack_height_tracker" where
  "tracker_Reset newHeight newTime m =
     m\<lparr>at_filter := wf_Reset (zero_event\<lparr>ea_extraAcked := newHeight, ea_round := newTime\<rparr>) newTime (at_filter m)\<rparr>"

section \<open>Ack points\<close>

record ack_point =
  ap_ackTime :: int
  ap_totalBytesAcked :: int

definition zero_point :: ack_point where "zero_point = \<lparr>ap_ackTime = 0, ap_totalBytesAcked = 0\<rparr>"

record recent_points =
  rp_less :: ack_point
  rp_most :: ack_point

definition recent_Update :: "int \<Rightarrow> int \<Rightarrow> recent_points \<Rightarrow> recent_points" where
  "recent_Update ackTime totalBytesAcked r =
     (let r1 = (if ackTime < ap_ackTime (rp_most r) then r\<lparr>rp_most := (rp_most r)\<lparr>ap_ackTime := ackTime\<rparr>\<rparr>
                else if ackTime > ap_ackTime (rp_most r)
                then r\<lparr>rp_less := rp_most r, rp_most := (rp_most r)\<lparr>ap_ackTime := ackTime\<rparr>\<rparr>
                else r)
      in r1\<lparr>rp_most := (rp_most r1)\<lparr>ap_totalBytesAcked := totalBytesAcked\<rparr>\<rparr>)"

definition recent_Clear :: "recent_points \<Rightarrow> recent_points" where
  "recent_Clear r = \<lparr>rp_less = zero_point, rp_most = zero_point\<rparr>"

definition MostRecentPoint :: "recent_points \<Rightarrow> ack_point" where "MostRecentPoint r = rp_most r"

definition LessRecentPoint :: "recent_points \<Rightarrow> ack_point" where
  "LessRecentPoint r = (if ap_totalBytesAcked (rp_less r) \<noteq> 0 then rp_less r else rp_most r)"

section \<open>The sampler\<close>

record sent_packet =
  sp_sentTime :: int
  sp_size :: int
  sp_totalBytesSentAtLastAckedPacket :: int
  sp_lastAckedPacketSentTime :: int
  sp_lastAckedPacketAckTime :: int
  sp_sendTimeState :: send_time_state

definition zero_packet :: sent_packet where
  "zero_packet =
     \<lparr>sp_sentTime = 0, sp_size = 0, sp_totalBytesSentAtLastAckedPacket = 0, sp_lastAckedPacketSentTime = 0,
      sp_lastAckedPacketAckTime = 0, sp_sendTimeState = zero_send_state\<rparr>"

record event_sample =
  ev_sampleMaxBandwidth :: int
  ev_sampleIsAppLimited :: bool
  ev_sampleRtt :: int
  ev_sampleMaxInflight :: int
  ev_lastPacketSendState :: send_time_state
  ev_extraAcked :: int

definition newCongestionEventSample :: event_sample where
  "newCongestionEventSample =
     \<lparr>ev_sampleMaxBandwidth = 0, ev_sampleIsAppLimited = False, ev_sampleRtt = infRTT, ev_sampleMaxInflight = 0,
      ev_lastPacketSendState = zero_send_state, ev_extraAcked = 0\<rparr>"

record sampler =
  sa_totalBytesSent :: int
  sa_totalBytesAcked :: int
  sa_totalBytesLost :: int
  sa_totalBytesNeutered :: int
  sa_totalBytesSentAtLastAckedPacket :: int
  sa_lastAckedPacketSentTime :: int
  sa_lastAckedPacketAckTime :: int
  sa_lastSentPacket :: packet_number
  sa_lastAckedPacket :: packet_number
  sa_isAppLimited :: bool
  sa_endOfAppLimitedPhase :: packet_number
  sa_connectionStateMap :: "sent_packet pn_queue"
  sa_recentAckPoints :: recent_points
  sa_a0Candidates :: "ack_point ring"
  sa_maxAckHeightTracker :: ack_height_tracker
  sa_totalBytesAckedAfterLastAckEvent :: int
  sa_overestimateAvoidance :: bool
  sa_limitBySendRate :: bool

definition newBandwidthSampler :: "u64 \<Rightarrow> sampler" where
  "newBandwidthSampler windowLength =
     \<lparr>sa_totalBytesSent = 0, sa_totalBytesAcked = 0, sa_totalBytesLost = 0, sa_totalBytesNeutered = 0,
      sa_totalBytesSentAtLastAckedPacket = 0, sa_lastAckedPacketSentTime = 0, sa_lastAckedPacketAckTime = 0,
      sa_lastSentPacket = invalidPacketNumber, sa_lastAckedPacket = invalidPacketNumber, sa_isAppLimited = False,
      sa_endOfAppLimitedPhase = invalidPacketNumber,
      sa_connectionStateMap = newPacketNumberIndexedQueue zero_packet 256,
      sa_recentAckPoints = \<lparr>rp_less = zero_point, rp_most = zero_point\<rparr>,
      sa_a0Candidates = ring_Init zero_point 256, sa_maxAckHeightTracker = newMaxAckHeightTracker windowLength,
      sa_totalBytesAckedAfterLastAckEvent = 0, sa_overestimateAvoidance = False, sa_limitBySendRate = False\<rparr>"

definition newConnectionStateOnSentPacket :: "int \<Rightarrow> int \<Rightarrow> int \<Rightarrow> sampler \<Rightarrow> sent_packet" where
  "newConnectionStateOnSentPacket sentTime bytes bytesInFlight b =
     \<lparr>sp_sentTime = sentTime, sp_size = bytes,
      sp_totalBytesSentAtLastAckedPacket = sa_totalBytesSentAtLastAckedPacket b,
      sp_lastAckedPacketSentTime = sa_lastAckedPacketSentTime b,
      sp_lastAckedPacketAckTime = sa_lastAckedPacketAckTime b,
      sp_sendTimeState = newSendTimeState (sa_isAppLimited b) (sa_totalBytesSent b) (sa_totalBytesAcked b)
        (sa_totalBytesLost b) bytesInFlight\<rparr>"

definition MaxAckHeight :: "sampler \<Rightarrow> int" where "MaxAckHeight b = tracker_Get (sa_maxAckHeightTracker b)"

definition ResetMaxAckHeightTracker :: "int \<Rightarrow> u64 \<Rightarrow> sampler \<Rightarrow> sampler" where
  "ResetMaxAckHeightTracker newHeight newTime b =
     b\<lparr>sa_maxAckHeightTracker := tracker_Reset newHeight newTime (sa_maxAckHeightTracker b)\<rparr>"

definition SetReduceExtraAcked :: "bool \<Rightarrow> sampler \<Rightarrow> sampler" where
  "SetReduceExtraAcked v b =
     b\<lparr>sa_maxAckHeightTracker := (sa_maxAckHeightTracker b)\<lparr>at_reduceExtraAcked := v\<rparr>\<rparr>"

definition EnableOverestimateAvoidance :: "sampler \<Rightarrow> sampler" where
  "EnableOverestimateAvoidance b =
     (if sa_overestimateAvoidance b then b
      else b\<lparr>sa_overestimateAvoidance := True,
             sa_maxAckHeightTracker := (sa_maxAckHeightTracker b)\<lparr>at_threshold := 2\<rparr>\<rparr>)"

text \<open>The branch of \<open>OnPacketSent\<close> for an empty pipe.\<close>

definition pipe_opens :: "int \<Rightarrow> sampler \<Rightarrow> sampler" where
  "pipe_opens sentTime b =
     (let c1 = b\<lparr>sa_lastAckedPacketAckTime := sentTime\<rparr>;
          c2 = (if sa_overestimateAvoidance c1
                then
                  let r = recent_Update sentTime (sa_totalBytesAcked c1) (recent_Clear (sa_recentAckPoints c1))
                  in c1\<lparr>sa_recentAckPoints := r,
                        sa_a0Candidates := ring_PushBack zero_point (MostRecentPoint r)
                          (ring_Clear zero_point (sa_a0Candidates c1))\<rparr>
                else c1)
      in c2\<lparr>sa_totalBytesSentAtLastAckedPacket := sa_totalBytesSent c2, sa_lastAckedPacketSentTime := sentTime\<rparr>)"

definition sampler_OnPacketSent :: "int \<Rightarrow> packet_number \<Rightarrow> int \<Rightarrow> int \<Rightarrow> bool \<Rightarrow> sampler \<Rightarrow> sampler" where
  "sampler_OnPacketSent sentTime n bytes bytesInFlight isRetransmittable b0 =
     (let b1 = b0\<lparr>sa_lastSentPacket := n\<rparr> in
      if \<not> isRetransmittable then b1
      else
        let b2 = b1\<lparr>sa_totalBytesSent := sa_totalBytesSent b1 + bytes\<rparr>;
            b3 = (if bytesInFlight = 0 then pipe_opens sentTime b2 else b2)
        in b3\<lparr>sa_connectionStateMap :=
                snd (Emplace zero_packet n (Some (newConnectionStateOnSentPacket sentTime bytes (bytesInFlight + bytes) b3))
                  (sa_connectionStateMap b3))\<rparr>)"

definition sampler_OnPacketLost :: "packet_number \<Rightarrow> int \<Rightarrow> sampler \<Rightarrow> send_time_state \<times> sampler" where
  "sampler_OnPacketLost n bytesLost b =
     (let b1 = b\<lparr>sa_totalBytesLost := sa_totalBytesLost b + bytesLost\<rparr> in
      (case GetEntry n (sa_connectionStateMap b1) of
         None \<Rightarrow> (zero_send_state, b1)
       | Some p \<Rightarrow> ((sp_sendTimeState p)\<lparr>ts_isValid := True\<rparr>, b1)))"

definition OnPacketNeutered :: "packet_number \<Rightarrow> sampler \<Rightarrow> sampler option" where
  "OnPacketNeutered n b =
     map_option
       (\<lambda>(entry, q).
          b\<lparr>sa_connectionStateMap := q,
            sa_totalBytesNeutered :=
              sa_totalBytesNeutered b + (case entry of None \<Rightarrow> 0 | Some p \<Rightarrow> sp_size p)\<rparr>)
       (pn_Remove zero_packet n (sa_connectionStateMap b))"

definition OnAppLimited :: "sampler \<Rightarrow> sampler" where
  "OnAppLimited b = b\<lparr>sa_isAppLimited := True, sa_endOfAppLimitedPhase := sa_lastSentPacket b\<rparr>"

definition RemoveObsoletePackets :: "packet_number \<Rightarrow> sampler \<Rightarrow> sampler option" where
  "RemoveObsoletePackets leastUnacked b =
     map_option (\<lambda>q. b\<lparr>sa_connectionStateMap := q\<rparr>) (RemoveUpTo zero_packet leastUnacked (sa_connectionStateMap b))"

text \<open>\<open>chooseA0Point\<close>: the inner \<^const>\<open>None\<close> is the result false.\<close>

definition later_candidate :: "int \<Rightarrow> ack_point ring \<Rightarrow> nat option" where
  "later_candidate tot q =
     find (\<lambda>i. case ring_Offset i q of Some p \<Rightarrow> ap_totalBytesAcked p > tot | None \<Rightarrow> False) [1..<ring_Len q]"

definition chooseA0Point :: "int \<Rightarrow> ack_point ring \<Rightarrow> (ack_point option \<times> ack_point ring) option" where
  "chooseA0Point tot q =
     (if ring_Empty q then Some (None, q)
      else if ring_Len q = 1 then map_option (\<lambda>p. (Some p, q)) (ring_Front q)
      else (case later_candidate tot q of
              Some i \<Rightarrow>
                (case (ring_Offset (i - 1) q, pop_times (ring_PopFront zero_point) (i - 1) q) of
                   (Some p, Some q') \<Rightarrow> Some (Some p, q') | _ \<Rightarrow> None)
            | None \<Rightarrow>
                (case (ring_Back q, shrink_loop ring_Len (ring_PopFront zero_point) q) of
                   (Some p, Some (_, q')) \<Rightarrow> Some (Some p, q') | _ \<Rightarrow> None)))"

definition leave_app_limited :: "packet_number \<Rightarrow> sampler \<Rightarrow> sampler" where
  "leave_app_limited n b =
     (if sa_isAppLimited b \<and> (sa_endOfAppLimitedPhase b = invalidPacketNumber \<or> n > sa_endOfAppLimitedPhase b)
      then b\<lparr>sa_isAppLimited := False\<rparr> else b)"

definition send_rate :: "sent_packet \<Rightarrow> int option" where
  "send_rate p =
     (if sp_sentTime p > sp_lastAckedPacketSentTime p
      then BandwidthFromDelta (ts_totalBytesSent (sp_sendTimeState p) - sp_totalBytesSentAtLastAckedPacket p)
             (sp_sentTime p - sp_lastAckedPacketSentTime p)
      else Some infBandwidth)"

definition a0_point :: "sent_packet \<Rightarrow> sampler \<Rightarrow> (ack_point \<times> sampler) option" where
  "a0_point p b =
     (let own = \<lparr>ap_ackTime = sp_lastAckedPacketAckTime p, ap_totalBytesAcked = ts_totalBytesAcked (sp_sendTimeState p)\<rparr> in
      if sa_overestimateAvoidance b
      then map_option
             (\<lambda>(r, q). (case r of Some a \<Rightarrow> a | None \<Rightarrow> own, b\<lparr>sa_a0Candidates := q\<rparr>))
             (chooseA0Point (ts_totalBytesAcked (sp_sendTimeState p)) (sa_a0Candidates b))
      else Some (own, b))"

definition onPacketAcknowledged :: "int \<Rightarrow> packet_number \<Rightarrow> sampler \<Rightarrow> (bandwidth_sample \<times> sampler) option" where
  "onPacketAcknowledged ackTime n b0 =
     (let b1 = b0\<lparr>sa_lastAckedPacket := n\<rparr> in
      case GetEntry n (sa_connectionStateMap b1) of
        None \<Rightarrow> Some (newBandwidthSample, b1)
      | Some p \<Rightarrow>
        let b2 = b1\<lparr>sa_totalBytesAcked := sa_totalBytesAcked b1 + sp_size p,
                    sa_totalBytesSentAtLastAckedPacket := ts_totalBytesSent (sp_sendTimeState p),
                    sa_lastAckedPacketSentTime := sp_sentTime p, sa_lastAckedPacketAckTime := ackTime\<rparr>;
            b3 = (if sa_overestimateAvoidance b2
                  then b2\<lparr>sa_recentAckPoints := recent_Update ackTime (sa_totalBytesAcked b2) (sa_recentAckPoints b2)\<rparr>
                  else b2);
            b4 = leave_app_limited n b3
        in if sp_lastAckedPacketSentTime p = 0 then Some (newBandwidthSample, b4)
           else
             Option.bind (send_rate p) (\<lambda>sendRate.
             Option.bind (a0_point p b4) (\<lambda>(a0, b5).
               if ackTime - ap_ackTime a0 \<le> 0 then Some (newBandwidthSample, b5)
               else
                 map_option
                   (\<lambda>ackRate.
                      (\<lparr>bs_bandwidth = min sendRate ackRate, bs_rtt = ackTime - sp_sentTime p, bs_sendRate = sendRate,
                        bs_stateAtSend = (sp_sendTimeState p)\<lparr>ts_isValid := True\<rparr>\<rparr>, b5))
                   (BandwidthFromDelta (sa_totalBytesAcked b5 - ap_totalBytesAcked a0) (ackTime - ap_ackTime a0)))))"

definition onAckEventEnd ::
  "fmul \<Rightarrow> int \<Rightarrow> bool \<Rightarrow> u64 \<Rightarrow> sampler \<Rightarrow> int \<times> sampler" where
  "onAckEventEnd fmul bandwidthEstimate isNewMax roundTripCount b =
     (let newly = sa_totalBytesAcked b - sa_totalBytesAckedAfterLastAckEvent b in
      if newly = 0 then (0, b)
      else
        let (extra, m) = tracker_Update fmul bandwidthEstimate isNewMax roundTripCount (sa_lastSentPacket b)
              (sa_lastAckedPacket b) (sa_lastAckedPacketAckTime b) newly (sa_maxAckHeightTracker b);
            b1 = b\<lparr>sa_totalBytesAckedAfterLastAckEvent := sa_totalBytesAcked b, sa_maxAckHeightTracker := m\<rparr>
        in (extra,
            if sa_overestimateAvoidance b1 \<and> extra = 0
            then b1\<lparr>sa_a0Candidates :=
                     ring_PushBack zero_point (LessRecentPoint (sa_recentAckPoints b1)) (sa_a0Candidates b1)\<rparr>
            else b1))"

text \<open>The loops of \<open>OnCongestionEvent\<close>: one for the lost packets, one for the acknowledged ones. A loss only
  event ends after the first.\<close>

fun on_lost :: "(packet_number \<times> int) list \<Rightarrow> send_time_state \<Rightarrow> sampler \<Rightarrow> send_time_state \<times> sampler" where
  "on_lost [] lastLost b = (lastLost, b)"
| "on_lost ((n, bytes) # ps) lastLost b =
     (let (s, b') = sampler_OnPacketLost n bytes b in on_lost ps (if ts_isValid s then s else lastLost) b')"

record ack_loop =
  al_last :: send_time_state
  al_maxSendRate :: int
  al_event :: event_sample

definition count_sample :: "bandwidth_sample \<Rightarrow> sampler \<Rightarrow> ack_loop \<Rightarrow> ack_loop" where
  "count_sample s b l =
     (if \<not> ts_isValid (bs_stateAtSend s) then l
      else
        let e0 = al_event l;
            e1 = (if bs_rtt s \<noteq> 0 then e0\<lparr>ev_sampleRtt := min (ev_sampleRtt e0) (bs_rtt s)\<rparr> else e0);
            e2 = (if bs_bandwidth s > ev_sampleMaxBandwidth e1
                  then e1\<lparr>ev_sampleMaxBandwidth := bs_bandwidth s,
                          ev_sampleIsAppLimited := ts_isAppLimited (bs_stateAtSend s)\<rparr> else e1);
            rate = (if bs_sendRate s \<noteq> infBandwidth then max (al_maxSendRate l) (bs_sendRate s) else al_maxSendRate l);
            inflight = sa_totalBytesAcked b - ts_totalBytesAcked (bs_stateAtSend s);
            e3 = (if inflight > ev_sampleMaxInflight e2 then e2\<lparr>ev_sampleMaxInflight := inflight\<rparr> else e2)
        in \<lparr>al_last = bs_stateAtSend s, al_maxSendRate = rate, al_event = e3\<rparr>)"

fun on_acked :: "int \<Rightarrow> packet_number list \<Rightarrow> ack_loop \<Rightarrow> sampler \<Rightarrow> (ack_loop \<times> sampler) option" where
  "on_acked ackTime [] l b = Some (l, b)"
| "on_acked ackTime (n # ns) l b =
     (case onPacketAcknowledged ackTime n b of
        None \<Rightarrow> None
      | Some (s, b') \<Rightarrow> on_acked ackTime ns (count_sample s b' l) b')"

definition choose_state ::
  "(packet_number \<times> int) list \<Rightarrow> packet_number list \<Rightarrow> send_time_state \<Rightarrow> send_time_state \<Rightarrow> send_time_state" where
  "choose_state lost acked lastLost lastAcked =
     (if \<not> ts_isValid lastLost then lastAcked
      else if \<not> ts_isValid lastAcked then lastLost
      else if fst (last lost) > last acked then lastLost else lastAcked)"

definition sampler_OnCongestionEvent ::
  "fmul \<Rightarrow> int \<Rightarrow> packet_number list \<Rightarrow> (packet_number \<times> int) list \<Rightarrow> int \<Rightarrow> int \<Rightarrow> u64 \<Rightarrow>
     sampler \<Rightarrow> (event_sample \<times> sampler) option" where
  "sampler_OnCongestionEvent fmul ackTime acked lost maxBandwidth0 upperBound roundTripCount b0 =
     (let (lastLost, b1) = on_lost lost zero_send_state b0 in
      if acked = [] then Some (newCongestionEventSample\<lparr>ev_lastPacketSendState := lastLost\<rparr>, b1)
      else
        map_option
          (\<lambda>(l, b2).
             let e = (al_event l)\<lparr>ev_lastPacketSendState := choose_state lost acked lastLost (al_last l)\<rparr>;
                 isNewMax = ev_sampleMaxBandwidth e > maxBandwidth0;
                 m1 = max maxBandwidth0 (ev_sampleMaxBandwidth e);
                 m2 = (if sa_limitBySendRate b2 then max m1 (al_maxSendRate l) else m1);
                 (extra, b3) = onAckEventEnd fmul (min upperBound m2) isNewMax roundTripCount b2
             in (e\<lparr>ev_extraAcked := extra\<rparr>, b3))
          (on_acked ackTime acked
             \<lparr>al_last = zero_send_state, al_maxSendRate = 0, al_event = newCongestionEventSample\<rparr> b1))"

section \<open>The sampler always returns\<close>

text \<open>Clock readings are \<open>int64\<close> nanoseconds that are not negative; a difference of two of them that is
  positive is not a multiple of \<open>2 ^ 64\<close>.\<close>

definition time_ok :: "int \<Rightarrow> bool" where "time_ok t \<longleftrightarrow> 0 \<le> t \<and> t < 2 ^ 63"

definition packet_ok :: "sent_packet \<Rightarrow> bool" where
  "packet_ok p \<longleftrightarrow> time_ok (sp_sentTime p) \<and> time_ok (sp_lastAckedPacketSentTime p) \<and> time_ok (sp_lastAckedPacketAckTime p)"

definition points_ok :: "recent_points \<Rightarrow> bool" where
  "points_ok r \<longleftrightarrow> time_ok (ap_ackTime (rp_less r)) \<and> time_ok (ap_ackTime (rp_most r))"

definition sampler_ok :: "sampler \<Rightarrow> bool" where
  "sampler_ok b \<longleftrightarrow>
     pn_ok (sa_connectionStateMap b) \<and> (\<forall>p\<in>ran (pn_map (sa_connectionStateMap b)). packet_ok p) \<and>
     ring_ok (sa_a0Candidates b) \<and> (\<forall>a\<in>set (ring_list (sa_a0Candidates b)). time_ok (ap_ackTime a)) \<and>
     points_ok (sa_recentAckPoints b) \<and>
     time_ok (sa_lastAckedPacketSentTime b) \<and> time_ok (sa_lastAckedPacketAckTime b)"

lemma time_ok_0 [simp]: "time_ok 0"
  by (simp add: time_ok_def)

lemma delta_nonzero: "time_ok s \<Longrightarrow> time_ok t \<Longrightarrow> s < t \<Longrightarrow> u64 (t - s) \<noteq> 0"
  by (simp add: time_ok_def u64_def)

lemma BandwidthFromDelta_ok: "time_ok s \<Longrightarrow> time_ok t \<Longrightarrow> s < t \<Longrightarrow> \<exists>r. BandwidthFromDelta n (t - s) = Some r"
  using delta_nonzero by (simp add: BandwidthFromDelta_def)

lemma recent_Update_ok: "points_ok r \<Longrightarrow> time_ok t \<Longrightarrow> points_ok (recent_Update t n r)"
  by (simp add: points_ok_def recent_Update_def Let_def)

lemma recent_Clear_ok: "points_ok (recent_Clear r)"
  by (simp add: points_ok_def recent_Clear_def zero_point_def)

lemma new_sampler_ok: "sampler_ok (newBandwidthSampler w)"
  by (simp add: sampler_ok_def newBandwidthSampler_def new_queue_ok ring_Init_ok points_ok_def zero_point_def)

text \<open>The loop that was meant to keep the last candidate reads the length anew in every round, so it
  stops half way.\<close>

lemma shrink_loop_ring:
  assumes "ring_ok q"
  shows "\<exists>k q'. shrink_loop ring_Len (ring_PopFront z) q = Some (k, q') \<and> ring_ok q' \<and>
    ring_list q' = drop (ring_Len q div 2) (ring_list q)"
  using ringq.shrink_loop_half [of ring_Len q z, OF _ assms] by simp

lemma pop_times_ring:
  "ring_ok q \<Longrightarrow> n \<le> ring_Len q \<Longrightarrow>
    \<exists>q'. pop_times (ring_PopFront z) n q = Some q' \<and> ring_ok q' \<and> ring_list q' = drop n (ring_list q)"
  using ringq.pop_times_drop [of q n z] by simp

lemma later_candidate_bound: "later_candidate tot q = Some i \<Longrightarrow> 1 \<le> i \<and> i < ring_Len q"
  unfolding later_candidate_def find_Some_iff by auto

lemma chooseA0Point_ok:
  assumes "ring_ok q"
  shows "\<exists>r q'. chooseA0Point tot q = Some (r, q') \<and> ring_ok q' \<and> set (ring_list q') \<subseteq> set (ring_list q) \<and>
    (\<forall>p. r = Some p \<longrightarrow> p \<in> set (ring_list q))"
proof (cases "ring_Len q \<le> 1")
  case True
  then show ?thesis
    using assms by (cases "ring_list q")
      (auto simp: chooseA0Point_def ring_Empty_list ring_Front_ok simp flip: ring_list_length)
next
  case False
  then have ne: "ring_list q \<noteq> []" by (auto simp flip: ring_list_length)
  show ?thesis
  proof (cases "later_candidate tot q")
    case None
    from shrink_loop_ring [OF assms, of zero_point] obtain k q' where
      "shrink_loop ring_Len (ring_PopFront zero_point) q = Some (k, q')" "ring_ok q'"
      "ring_list q' = drop (ring_Len q div 2) (ring_list q)" by blast
    with None False ne ring_Back_ok [OF assms ne] assms show ?thesis
      by (auto simp: chooseA0Point_def ring_Empty_list dest: in_set_dropD)
  next
    case (Some i)
    note i = later_candidate_bound [OF Some]
    then have le: "i - 1 \<le> ring_Len q" by linarith
    have "ring_Offset (i - 1) q = Some (ring_list q ! (i - 1))"
      using ringq.look_contents [OF assms, of "i - 1"] i by auto
    moreover have "ring_list q ! (i - 1) \<in> set (ring_list q)" using i by (intro nth_mem) auto
    moreover from pop_times_ring [OF assms le, of zero_point] obtain q' where
      "pop_times (ring_PopFront zero_point) (i - 1) q = Some q'" "ring_ok q'"
      "ring_list q' = drop (i - 1) (ring_list q)" by blast
    ultimately show ?thesis using Some False ne assms
      by (auto simp: chooseA0Point_def ring_Empty_list dest: in_set_dropD)
  qed
qed

section \<open>Every operation keeps the invariant\<close>

lemma Emplace_packets:
  assumes "pn_ok q" "\<forall>p\<in>ran (pn_map q). packet_ok p" "0 \<le> n" "packet_ok p"
  shows "pn_ok (snd (Emplace zero_packet n (Some p) q)) \<and>
    (\<forall>p\<in>ran (pn_map (snd (Emplace zero_packet n (Some p) q))). packet_ok p)"
proof (cases "pn_IsEmpty q")
  case True
  from Emplace_empty [OF assms(1) True assms(3), of zero_packet p] assms(4) show ?thesis by auto
next
  case False
  show ?thesis
  proof (cases "LastPacket q < n")
    case True
    from Emplace_after [OF assms(1) False True assms(3), of zero_packet p] assms(2,4) show ?thesis
      by (auto simp: ran_def split: if_splits)
  next
    case late: False
    with False assms show ?thesis by (simp add: Emplace_def invalidPacketNumber_def)
  qed
qed

lemma pipe_opens_ok:
  assumes "sampler_ok b" "time_ok t"
  shows "sampler_ok (pipe_opens t b)"
proof -
  have clear: "ring_ok (ring_PushBack zero_point x (ring_Clear zero_point q))"
    "ring_list (ring_PushBack zero_point x (ring_Clear zero_point q)) = [x]" for x q
    using ring_PushBack_ok [OF ring_Clear_ok(1), of zero_point x zero_point q] by (simp_all add: ring_Clear_ok)
  have rec: "points_ok (recent_Update t k (recent_Clear r))" for k r
    by (rule recent_Update_ok [OF recent_Clear_ok assms(2)])
  then have most: "time_ok (ap_ackTime (MostRecentPoint (recent_Update t k (recent_Clear r))))" for k r
    by (simp add: points_ok_def MostRecentPoint_def)
  show ?thesis
    using assms by (simp add: sampler_ok_def pipe_opens_def Let_def clear rec most)
qed

lemma track_ok:
  assumes "sampler_ok b" "time_ok t" "0 \<le> n"
  shows "sampler_ok (b\<lparr>sa_connectionStateMap := snd (Emplace zero_packet n
    (Some (newConnectionStateOnSentPacket t bytes inFlight b)) (sa_connectionStateMap b))\<rparr>)"
proof -
  have q: "pn_ok (sa_connectionStateMap b)" "\<forall>p\<in>ran (pn_map (sa_connectionStateMap b)). packet_ok p"
    using assms(1) by (simp_all add: sampler_ok_def)
  have "packet_ok (newConnectionStateOnSentPacket t bytes inFlight b)"
    using assms by (simp add: packet_ok_def newConnectionStateOnSentPacket_def sampler_ok_def)
  from Emplace_packets [OF q assms(3) this] assms(1) show ?thesis by (simp add: sampler_ok_def)
qed

lemma sampler_OnPacketSent_ok:
  assumes "sampler_ok b" "time_ok t" "0 \<le> n"
  shows "sampler_ok (sampler_OnPacketSent t n bytes inFlight retr b)"
proof -
  let ?b2 = "b\<lparr>sa_lastSentPacket := n, sa_totalBytesSent := sa_totalBytesSent b + bytes\<rparr>"
  have b1: "sampler_ok (b\<lparr>sa_lastSentPacket := n\<rparr>)" "sampler_ok ?b2" using assms(1) by (simp_all add: sampler_ok_def)
  then have "sampler_ok (if inFlight = 0 then pipe_opens t ?b2 else ?b2)" using pipe_opens_ok assms(2) by simp
  from track_ok [OF this assms(2,3)] b1 show ?thesis by (simp add: sampler_OnPacketSent_def Let_def)
qed

lemma packets_mono:
  assumes "\<forall>p\<in>ran m. packet_ok p" "\<And>k. m' k = None \<or> m' k = m k"
  shows "\<forall>p\<in>ran m'. packet_ok p"
proof
  fix p assume "p \<in> ran m'"
  then obtain k where "m' k = Some p" by (auto simp: ran_def)
  with assms(2) [of k] have "p \<in> ran m" by (auto intro: ranI)
  with assms(1) show "packet_ok p" by blast
qed

lemma OnPacketNeutered_ok:
  assumes "sampler_ok b"
  shows "\<exists>b'. OnPacketNeutered n b = Some b' \<and> sampler_ok b'"
proof -
  have q: "pn_ok (sa_connectionStateMap b)" "\<forall>p\<in>ran (pn_map (sa_connectionStateMap b)). packet_ok p"
    using assms by (simp_all add: sampler_ok_def)
  from pn_Remove_ok [OF q(1), of zero_packet n] obtain r where
    r: "pn_Remove zero_packet n (sa_connectionStateMap b) = Some (pn_map (sa_connectionStateMap b) n, r)"
      "pn_ok r" "pn_map r = (pn_map (sa_connectionStateMap b))(n := None)" by blast
  have "\<forall>p\<in>ran (pn_map r). packet_ok p" by (rule packets_mono [OF q(2)]) (simp add: r(3))
  with r(1,2) assms show ?thesis by (simp add: OnPacketNeutered_def sampler_ok_def)
qed

lemma RemoveObsoletePackets_ok:
  assumes "sampler_ok b"
  shows "\<exists>b'. RemoveObsoletePackets n b = Some b' \<and> sampler_ok b'"
proof -
  have q: "pn_ok (sa_connectionStateMap b)" "\<forall>p\<in>ran (pn_map (sa_connectionStateMap b)). packet_ok p"
    using assms by (simp_all add: sampler_ok_def)
  from RemoveUpTo_ok [OF q(1), of zero_packet n] obtain r where
    r: "RemoveUpTo zero_packet n (sa_connectionStateMap b) = Some r" "pn_ok r"
      "pn_map r = (\<lambda>m. if n \<le> m then pn_map (sa_connectionStateMap b) m else None)" by blast
  have "\<forall>p\<in>ran (pn_map r). packet_ok p" by (rule packets_mono [OF q(2)]) (simp add: r(3))
  with r(1,2) assms show ?thesis by (simp add: RemoveObsoletePackets_def sampler_ok_def)
qed

lemma sampler_switches_ok:
  "sampler_ok b \<Longrightarrow> sampler_ok (OnAppLimited b)"
  "sampler_ok b \<Longrightarrow> sampler_ok (EnableOverestimateAvoidance b)"
  "sampler_ok b \<Longrightarrow> sampler_ok (SetReduceExtraAcked v b)"
  "sampler_ok b \<Longrightarrow> sampler_ok (ResetMaxAckHeightTracker h k b)"
  by (simp_all add: sampler_ok_def OnAppLimited_def EnableOverestimateAvoidance_def SetReduceExtraAcked_def
      ResetMaxAckHeightTracker_def)

lemma OnPacketLost_ok: "sampler_ok b \<Longrightarrow> sampler_ok (snd (sampler_OnPacketLost n k b))"
  by (simp add: sampler_ok_def sampler_OnPacketLost_def Let_def split: option.split)

lemma on_lost_ok: "sampler_ok b \<Longrightarrow> sampler_ok (snd (on_lost ps s b))"
proof (induction ps s b rule: on_lost.induct)
  case (2 n k ps s b)
  with OnPacketLost_ok [of b n k] show ?case by (simp add: case_prod_beta prod_eq_iff)
qed simp

lemma send_rate_ok: "packet_ok p \<Longrightarrow> \<exists>r. send_rate p = Some r"
  using BandwidthFromDelta_ok [of "sp_lastAckedPacketSentTime p" "sp_sentTime p"]
  by (simp add: send_rate_def packet_ok_def)

lemma a0_point_ok:
  assumes "sampler_ok b" "packet_ok p"
  shows "\<exists>a b'. a0_point p b = Some (a, b') \<and> time_ok (ap_ackTime a) \<and> sampler_ok b'"
proof (cases "sa_overestimateAvoidance b")
  case True
  have "ring_ok (sa_a0Candidates b)" using assms(1) by (simp add: sampler_ok_def)
  from chooseA0Point_ok [OF this, of "ts_totalBytesAcked (sp_sendTimeState p)"] obtain r q where
    r: "chooseA0Point (ts_totalBytesAcked (sp_sendTimeState p)) (sa_a0Candidates b) = Some (r, q)"
      "ring_ok q" "set (ring_list q) \<subseteq> set (ring_list (sa_a0Candidates b))"
      "\<forall>p. r = Some p \<longrightarrow> p \<in> set (ring_list (sa_a0Candidates b))" by blast
  with True assms show ?thesis
    by (cases r) (auto simp: a0_point_def sampler_ok_def packet_ok_def Let_def)
next
  case False
  with assms show ?thesis by (simp add: a0_point_def packet_ok_def Let_def)
qed

lemma onPacketAcknowledged_ok:
  assumes "sampler_ok b" "time_ok t"
  shows "\<exists>s b'. onPacketAcknowledged t n b = Some (s, b') \<and> sampler_ok b' \<and> \<bar>bs_rtt s\<bar> < 2 ^ 63"
proof -
  have q: "pn_ok (sa_connectionStateMap b)" using assms(1) by (simp add: sampler_ok_def)
  show ?thesis
  proof (cases "pn_map (sa_connectionStateMap b) n")
    case None
    with assms(1) q show ?thesis
      by (simp add: onPacketAcknowledged_def GetEntry_ok sampler_ok_def Let_def newBandwidthSample_def)
  next
    case (Some p)
    then have p: "packet_ok p" using assms(1) by (auto simp: sampler_ok_def ran_def)
    define b2 where "b2 = b\<lparr>sa_lastAckedPacket := n, sa_totalBytesAcked := sa_totalBytesAcked b + sp_size p,
        sa_totalBytesSentAtLastAckedPacket := ts_totalBytesSent (sp_sendTimeState p),
        sa_lastAckedPacketSentTime := sp_sentTime p, sa_lastAckedPacketAckTime := t\<rparr>"
    define b4 where "b4 = leave_app_limited n (if sa_overestimateAvoidance b2
        then b2\<lparr>sa_recentAckPoints := recent_Update t (sa_totalBytesAcked b2) (sa_recentAckPoints b2)\<rparr> else b2)"
    have b2: "sampler_ok b2" using assms p by (simp add: b2_def sampler_ok_def packet_ok_def)
    then have b4: "sampler_ok b4" using assms(2)
      by (auto simp: b4_def leave_app_limited_def sampler_ok_def recent_Update_ok)
    obtain rate where rate: "send_rate p = Some rate" using send_rate_ok [OF p] by blast
    obtain a b5 where a: "a0_point p b4 = Some (a, b5)" "time_ok (ap_ackTime a)" "sampler_ok b5"
      using a0_point_ok [OF b4 p] by blast
    have run: "onPacketAcknowledged t n b =
        (if sp_lastAckedPacketSentTime p = 0 then Some (newBandwidthSample, b4)
         else if t - ap_ackTime a \<le> 0 then Some (newBandwidthSample, b5)
         else map_option (\<lambda>ackRate.
             (\<lparr>bs_bandwidth = min rate ackRate, bs_rtt = t - sp_sentTime p, bs_sendRate = rate,
               bs_stateAtSend = (sp_sendTimeState p)\<lparr>ts_isValid := True\<rparr>\<rparr>, b5))
           (BandwidthFromDelta (sa_totalBytesAcked b5 - ap_totalBytesAcked a) (t - ap_ackTime a)))"
      using Some q rate a(1) unfolding onPacketAcknowledged_def
      by (simp add: GetEntry_ok Let_def flip: b4_def b2_def)
    have "\<bar>t - sp_sentTime p\<bar> < 2 ^ 63" using assms(2) p by (simp add: packet_ok_def time_ok_def abs_less_iff)
    with BandwidthFromDelta_ok [OF a(2) assms(2)] b4 a(3) show ?thesis
      unfolding run by (fastforce simp: newBandwidthSample_def)
  qed
qed

definition rtt_ok :: "int \<Rightarrow> bool" where "rtt_ok r \<longleftrightarrow> r \<noteq> 0 \<and> \<bar>r\<bar> < 2 ^ 63"

lemma count_sample_rtt:
  "rtt_ok (ev_sampleRtt (al_event l)) \<Longrightarrow> \<bar>bs_rtt s\<bar> < 2 ^ 63 \<Longrightarrow> rtt_ok (ev_sampleRtt (al_event (count_sample s b l)))"
  by (simp add: count_sample_def rtt_ok_def Let_def min_def)

lemma on_acked_ok:
  "sampler_ok b \<Longrightarrow> time_ok t \<Longrightarrow> rtt_ok (ev_sampleRtt (al_event l)) \<Longrightarrow>
    \<exists>l' b'. on_acked t ns l b = Some (l', b') \<and> sampler_ok b' \<and> rtt_ok (ev_sampleRtt (al_event l'))"
proof (induction ns arbitrary: l b)
  case (Cons n ns)
  from onPacketAcknowledged_ok [OF Cons.prems(1,2)] obtain s b' where
    "onPacketAcknowledged t n b = Some (s, b')" "sampler_ok b'" "\<bar>bs_rtt s\<bar> < 2 ^ 63" by blast
  with Cons count_sample_rtt show ?case by simp
qed simp

lemma onAckEventEnd_ok:
  assumes "sampler_ok b"
  shows "sampler_ok (snd (onAckEventEnd fmul bw isNew rt b))"
proof -
  have less: "time_ok (ap_ackTime (LessRecentPoint (sa_recentAckPoints b)))"
    using assms by (simp add: sampler_ok_def points_ok_def LessRecentPoint_def)
  have push: "ring_ok (ring_PushBack zero_point x (sa_a0Candidates b))"
    "ring_list (ring_PushBack zero_point x (sa_a0Candidates b)) = ring_list (sa_a0Candidates b) @ [x]" for x
    using ring_PushBack_ok [of "sa_a0Candidates b"] assms by (simp_all add: sampler_ok_def)
  show ?thesis
    using assms less push by (auto simp: onAckEventEnd_def Let_def case_prod_beta sampler_ok_def)
qed

lemma sampler_OnCongestionEvent_ok:
  assumes "sampler_ok b" "time_ok t"
  shows "\<exists>e b'. sampler_OnCongestionEvent fmul t acked lost mx ub rt b = Some (e, b') \<and> sampler_ok b' \<and>
    rtt_ok (ev_sampleRtt e)"
proof -
  obtain s b1 where lost: "on_lost lost zero_send_state b = (s, b1)" by (cases "on_lost lost zero_send_state b")
  then have b1: "sampler_ok b1" using on_lost_ok [OF assms(1), of lost zero_send_state] by simp
  let ?l0 = "\<lparr>al_last = zero_send_state, al_maxSendRate = 0, al_event = newCongestionEventSample\<rparr>"
  have inf: "rtt_ok (ev_sampleRtt newCongestionEventSample)"
    by (simp add: rtt_ok_def newCongestionEventSample_def infRTT_def)
  then have "rtt_ok (ev_sampleRtt (al_event ?l0))" by simp
  from on_acked_ok [OF b1 assms(2) this, of acked] obtain l b2 where
    "on_acked t acked ?l0 b1 = Some (l, b2)" "sampler_ok b2" "rtt_ok (ev_sampleRtt (al_event l))" by blast
  with onAckEventEnd_ok [OF this(2)] b1 lost inf show ?thesis
    by (simp add: sampler_OnCongestionEvent_def Let_def case_prod_beta)
qed

section \<open>Runs of the sampler\<close>

datatype sampler_op =
    Sent int packet_number int int bool
  | Congestion int "packet_number list" "(packet_number \<times> int) list" int int u64
  | Neutered packet_number
  | Obsolete packet_number
  | AppLimited
  | AvoidOverestimates
  | ReduceExtraAcked bool
  | ResetHeight int u64

fun sampler_step :: "fmul \<Rightarrow> sampler_op \<Rightarrow> sampler \<Rightarrow> sampler option" where
  "sampler_step fmul (Sent t n bytes inFlight retr) b = Some (sampler_OnPacketSent t n bytes inFlight retr b)"
| "sampler_step fmul (Congestion t acked lost mx ub rt) b =
     map_option snd (sampler_OnCongestionEvent fmul t acked lost mx ub rt b)"
| "sampler_step fmul (Neutered n) b = OnPacketNeutered n b"
| "sampler_step fmul (Obsolete n) b = RemoveObsoletePackets n b"
| "sampler_step fmul AppLimited b = Some (OnAppLimited b)"
| "sampler_step fmul AvoidOverestimates b = Some (EnableOverestimateAvoidance b)"
| "sampler_step fmul (ReduceExtraAcked v) b = Some (SetReduceExtraAcked v b)"
| "sampler_step fmul (ResetHeight h k) b = Some (ResetMaxAckHeightTracker h k b)"

fun sampler_run :: "fmul \<Rightarrow> sampler_op list \<Rightarrow> sampler \<Rightarrow> sampler option" where
  "sampler_run fmul [] b = Some b"
| "sampler_run fmul (c # cs) b = (case sampler_step fmul c b of None \<Rightarrow> None | Some b' \<Rightarrow> sampler_run fmul cs b')"

text \<open>What quic-go hands over: clock readings, and packet numbers from zero on for sent packets.\<close>

fun op_ok :: "sampler_op \<Rightarrow> bool" where
  "op_ok (Sent t n bytes inFlight retr) \<longleftrightarrow> time_ok t \<and> 0 \<le> n"
| "op_ok (Congestion t acked lost mx ub rt) \<longleftrightarrow> time_ok t"
| "op_ok _ \<longleftrightarrow> True"

lemma sampler_step_ok: "sampler_ok b \<Longrightarrow> op_ok c \<Longrightarrow> \<exists>b'. sampler_step fmul c b = Some b' \<and> sampler_ok b'"
proof (cases c)
  case (Congestion t acked lost mx ub rt)
  assume "sampler_ok b" "op_ok c"
  with Congestion sampler_OnCongestionEvent_ok [of b t fmul acked lost mx ub rt] show ?thesis by auto
qed (auto simp: sampler_OnPacketSent_ok OnPacketNeutered_ok RemoveObsoletePackets_ok sampler_switches_ok)

lemma sampler_run_ok:
  "sampler_ok b \<Longrightarrow> list_all op_ok cs \<Longrightarrow> \<exists>b'. sampler_run fmul cs b = Some b' \<and> sampler_ok b'"
proof (induction cs arbitrary: b)
  case (Cons c cs)
  from sampler_step_ok [of b c fmul] Cons.prems obtain b' where "sampler_step fmul c b = Some b'" "sampler_ok b'" by auto
  with Cons show ?case by simp
qed simp

text \<open>C36. Whatever the connection does, the bandwidth sampler never panics and all its loops return: no
  division by zero in the rates, no read of an empty candidate buffer, no runaway clean-up. After the run every
  tracked packet is still found by its number.\<close>

theorem sampler_never_panics:
  assumes "list_all op_ok cs"
  shows "\<exists>b. sampler_run fmul cs (newBandwidthSampler w) = Some b \<and>
    (\<forall>n. GetEntry n (sa_connectionStateMap b) = pn_map (sa_connectionStateMap b) n)"
  using sampler_run_ok [OF new_sampler_ok assms, of fmul w] by (auto simp: sampler_ok_def GetEntry_ok)

lemma sampler_never_panics_witness:
  "\<forall>fmul. \<exists>b. sampler_run fmul
     [AvoidOverestimates, Sent 5 0 1200 0 True, Sent 6 1 1200 1200 True, Congestion 9 [0] [] 0 0 0,
      Congestion 9 [1] [(0, 1200)] 0 0 1, Obsolete 2] (newBandwidthSampler 10) = Some b"
  using sampler_never_panics [of "[AvoidOverestimates, Sent 5 0 1200 0 True, Sent 6 1 1200 1200 True, Congestion 9 [0] [] 0 0 0,
      Congestion 9 [1] [(0, 1200)] 0 0 1, Obsolete 2]" _ 10] by (simp add: time_ok_def) blast

section \<open>Overflow of the expected bytes\<close>

lemma expected_overflow: "bytesFromBandwidthAndTimeDelta 1000000000 10000000000 = - 1055843009"
  by (simp add: bytesFromBandwidthAndTimeDelta_def tdiv_def i64_def Second_def)

text \<open>The bytes expected at a bandwidth of 1 Gbit/s over 10 seconds are computed as a product of bits per
  second and nanoseconds that does not fit into \<open>int64\<close>. An ack that arrives 10 seconds into an aggregation epoch,
  as after a pause of the application, does not start a new epoch as its low rate demands; it is booked as more than
  a gigabyte of extra acked bytes.\<close>

theorem ack_height_overflow:
  assumes "\<forall>e. \<bar>e\<bar> \<le> 2 ^ 53 \<longrightarrow> fmul 1 e = e"
    and "at_threshold m = 1" "at_epochStartTime m \<noteq> 0" "0 \<le> at_epochBytes m" "\<not> at_newEpochAfterFullRound m"
  shows "let (extra, m') = tracker_Update fmul (10 ^ 9) False rt lastSent lastAcked
        (at_epochStartTime m + 10 * Second) bytesAcked m in
    extra = at_epochBytes m + bytesAcked + 1055843009 \<and> at_numEpochs m' = at_numEpochs m \<and>
    10 ^ 9 * (10 * Second) div (8 * Second) = 1250000000"
proof -
  have "fmul 1 (- 1055843009) = - 1055843009" using assms(1) by simp
  then show ?thesis
    using assms(2-5) by (simp add: tracker_Update_def Let_def Second_def expected_overflow)
qed

lemma ack_height_overflow_witness:
  "let m = (newMaxAckHeightTracker 10)\<lparr>at_epochStartTime := 7, at_epochBytes := 1200\<rparr>;
       (extra, m') = tracker_Update (\<lambda>g e. \<lfloor>g * of_int e\<rfloor>) (10 ^ 9) False 3 20 19 10000000007 1200 m
   in extra = 1055845409"
proof -
  let ?m = "(newMaxAckHeightTracker 10)\<lparr>at_epochStartTime := 7, at_epochBytes := 1200\<rparr>"
  have "let (extra, m') = tracker_Update (\<lambda>g e. \<lfloor>g * of_int e\<rfloor>) (10 ^ 9) False 3 20 19
        (at_epochStartTime ?m + 10 * Second) 1200 ?m in
    extra = at_epochBytes ?m + 1200 + 1055843009 \<and> at_numEpochs m' = at_numEpochs ?m \<and>
    10 ^ 9 * (10 * Second) div (8 * Second) = 1250000000"
    by (rule ack_height_overflow) (simp_all add: newMaxAckHeightTracker_def)
  then show ?thesis
    by (simp add: newMaxAckHeightTracker_def Let_def case_prod_beta Second_def)
qed

end
