(* ===== verification/Bbr_Sender.thy ===== *)
theory Bbr_Sender
  imports Bbr_Sampler Congestion_Pacer Go_Strings
begin

text \<open>
  \<open>internal/congestion/bbr/bbr_sender.go\<close>: the BBR controller over the sampler, the bandwidth filter and the pacer.
  Gains are named by rationals, and the integer that a product of a \<open>float64\<close> gain and an integer yields is the
  parameter \<open>fm\<close>. \<open>rtt0\<close> is what \<open>rttStats.MinRTT()\<close> answers during a call. The random offset of the gain cycle
  is an argument. \<^const>\<open>None\<close> is a panic (division by zero, index out of range, shrunk datagram size). The fields
  that the code marks as not used, and the debug output, are left out.
\<close>

section \<open>Constants and profiles\<close>

definition minBps :: int where "minBps = 65536"

datatype bbr_mode = bbrModeStartup | bbrModeDrain | bbrModeProbeBw | bbrModeProbeRtt

datatype recovery_state = bbrRecoveryStateNotInRecovery | bbrRecoveryStateConservation | bbrRecoveryStateGrowth

text \<open>A profile is a string, as in the code.\<close>

type_synonym profile = string

definition ProfileConservative :: profile where "ProfileConservative = ''conservative''"
definition ProfileStandard :: profile where "ProfileStandard = ''standard''"
definition ProfileAggressive :: profile where "ProfileAggressive = ''aggressive''"

datatype profile_error = UnsupportedProfile string

definition ParseProfile :: "string \<Rightarrow> profile_error + profile" where
  "ParseProfile p =
     (let n = ToLower p in
      if n = [] \<or> n = ProfileStandard then Inr ProfileStandard
      else if n = ProfileConservative then Inr ProfileConservative
      else if n = ProfileAggressive then Inr ProfileAggressive
      else Inl (UnsupportedProfile p))"



section \<open>State\<close>

record bbr =
  bb_pacer :: pacer
  bb_mode :: bbr_mode
  bb_sampler :: sampler
  bb_roundTripCount :: u64
  bb_lastSentPacket :: packet_number
  bb_currentRoundTripEnd :: packet_number
  bb_numLossEventsInRound :: nat
  bb_bytesLostInRound :: int
  bb_maxBandwidth :: "int windowed_filter"
  bb_minRtt :: int
  bb_minRttTimestamp :: int
  bb_congestionWindow :: int
  bb_initialCongestionWindow :: int
  bb_maxCongestionWindow :: int
  bb_minCongestionWindow :: int
  bb_profile :: profile
  bb_highGain :: rat
  bb_highCwndGain :: rat
  bb_drainGain :: rat
  bb_pacingRate :: int
  bb_pacingGain :: rat
  bb_congestionWindowGain :: rat
  bb_congestionWindowGainConstant :: rat
  bb_numStartupRtts :: int
  bb_cycleCurrentOffset :: nat
  bb_lastCycleStart :: int
  bb_isAtFullBandwidth :: bool
  bb_roundsWithoutBandwidthGain :: int
  bb_bandwidthAtLastRound :: int
  bb_exitingQuiescence :: bool
  bb_exitProbeRttAt :: int
  bb_probeRttRoundPassed :: bool
  bb_lastSampleIsAppLimited :: bool
  bb_hasNoAppLimitedSample :: bool
  bb_recoveryState :: recovery_state
  bb_endRecoveryAt :: packet_number
  bb_recoveryWindow :: int
  bb_enableAckAggregationDuringStartup :: bool
  bb_expireAckAggregationInStartup :: bool
  bb_drainToTarget :: bool
  bb_detectOvershooting :: bool
  bb_bytesLostWhileDetectingOvershooting :: int
  bb_bytesLostMultiplier :: int
  bb_cwndToCalculateMinPacingRate :: int
  bb_maxDatagramSize :: int
  bb_bytesInFlight :: int






section \<open>Estimates\<close>


definition getMinRtt :: "int \<Rightarrow> bbr \<Rightarrow> int" where
  "getMinRtt rtt0 b = (if bb_minRtt b \<noteq> 0 then bb_minRtt b else if rtt0 = 0 then 100000000 else rtt0)"



definition probeRttCongestionWindow :: "bbr \<Rightarrow> int" where "probeRttCongestionWindow b = bb_minCongestionWindow b"

definition PacingRate :: "fmul \<Rightarrow> int \<Rightarrow> bbr \<Rightarrow> int option" where
  "PacingRate fm rtt0 b =
     (if bb_pacingRate b = 0
      then map_option (fm (bb_highGain b)) (BandwidthFromDelta (bb_initialCongestionWindow b) (getMinRtt rtt0 b))
      else Some (bb_pacingRate b))"

definition bandwidthForPacer :: "fmul \<Rightarrow> int \<Rightarrow> bbr \<Rightarrow> int option" where
  "bandwidthForPacer fm rtt0 b =
     map_option (\<lambda>rate. let bps = fm (1 / of_int BytesPerSecond) rate in if bps < minBps then minBps else bps)
       (PacingRate fm rtt0 b)"

section \<open>Windows seen by quic-go\<close>

definition InSlowStart :: "bbr \<Rightarrow> bool" where "InSlowStart b \<longleftrightarrow> bb_mode b = bbrModeStartup"

definition InRecovery :: "bbr \<Rightarrow> bool" where
  "InRecovery b \<longleftrightarrow> bb_recoveryState b \<noteq> bbrRecoveryStateNotInRecovery"

definition GetCongestionWindow :: "bbr \<Rightarrow> int" where
  "GetCongestionWindow b =
     (if bb_mode b = bbrModeProbeRtt then probeRttCongestionWindow b
      else if InRecovery b then min (bb_congestionWindow b) (bb_recoveryWindow b)
      else bb_congestionWindow b)"

definition CanSend :: "int \<Rightarrow> bbr \<Rightarrow> bool" where "CanSend bytesInFlight b \<longleftrightarrow> bytesInFlight < GetCongestionWindow b"

definition bbr_TimeUntilSend :: "quic_consts \<Rightarrow> fmul \<Rightarrow> int \<Rightarrow> bbr \<Rightarrow> int option" where
  "bbr_TimeUntilSend qc fm rtt0 b =
     Option.bind (bandwidthForPacer fm rtt0 b) (\<lambda>bw. TimeUntilSend qc bw (bb_pacer b))"

definition HasPacingBudget :: "quic_consts \<Rightarrow> fsec \<Rightarrow> fmul \<Rightarrow> int \<Rightarrow> int \<Rightarrow> bbr \<Rightarrow> bool option" where
  "HasPacingBudget qc fsec fm rtt0 now b =
     map_option (\<lambda>bw. Budget qc fsec bw now (bb_pacer b) \<ge> bb_maxDatagramSize b) (bandwidthForPacer fm rtt0 b)"


section \<open>Datagram size\<close>




section \<open>Rounds, recovery, modes\<close>













section \<open>Pacing rate and windows\<close>






section \<open>A congestion event\<close>








section \<open>What holds of a sender\<close>










section \<open>Steps\<close>














section \<open>The stages of an event\<close>













section \<open>Whole operations\<close>







section \<open>Connections\<close>

















end
