(* ===== verification/Ip_Checksum.thy ===== *)
theory Ip_Checksum
  imports Go_Netip
begin

text \<open>
  The internet checksum of \<open>agent/divert/packet.go\<close> (\<open>packetChecksum\<close>): the sum of the 16-bit words over several
  byte slices, a byte left over at the end of one kept for the next, the carries folded, the complement taken. The
  lemmas relate it to the sum of the concatenated bytes and show that a field holding it makes the whole check.
\<close>

section \<open>Checksums\<close>

text \<open>The running sum is a \<open>uint32\<close>; a byte left over at the end of a part is kept for the next one.\<close>

fun sum_words :: "u32 \<Rightarrow> byte list \<Rightarrow> u32 \<times> byte option" where
  "sum_words acc [] = (acc, None)"
| "sum_words acc [b] = (acc, Some b)"
| "sum_words acc (a # b # bs) = sum_words (acc + ucast (get_u16 [a, b])) bs"

definition sum_part :: "u32 \<times> byte option \<Rightarrow> byte list \<Rightarrow> u32 \<times> byte option" where
  "sum_part s part =
     (case part of
        [] \<Rightarrow> s
      | b # rest \<Rightarrow>
        (case s of
           (acc, None) \<Rightarrow> sum_words acc part
         | (acc, Some high) \<Rightarrow> sum_words (acc + (push_bit 8 (ucast high) OR ucast b)) rest))"

function fold_carry :: "u32 \<Rightarrow> u32" where
  "fold_carry s = (if drop_bit 16 s \<noteq> 0 then fold_carry ((s AND 0xffff) + drop_bit 16 s) else s)"
  by pat_completeness auto

definition packetChecksum :: "byte list list \<Rightarrow> u16" where
  "packetChecksum parts =
     (case fold (\<lambda>p s. sum_part s p) parts (0, None) of
        (acc, left) \<Rightarrow>
          NOT (ucast (fold_carry (case left of None \<Rightarrow> acc | Some high \<Rightarrow> acc + push_bit 8 (ucast high)))))"


lemma split16: "unat (s AND 0xffff) = unat s mod 65536" "unat (drop_bit 16 s) = unat s div 65536" for s :: u32
proof -
  have a: "s AND 0xffff = take_bit 16 s" by (simp only: take_bit_eq_mask) (simp add: mask_eq_exp_minus_1)
  show "unat (s AND 0xffff) = unat s mod 65536"
  proof -
    have "unat (take_bit 16 s) = take_bit 16 (unat s)" by (rule unsigned_take_bit_eq)
    then show ?thesis unfolding a by (simp add: take_bit_eq_mod del: unsigned_take_bit_eq)
  qed
  show "unat (drop_bit 16 s) = unat s div 65536"
  proof -
    have "take_bit 32 (unat s) = unat s" by (simp add: take_bit_nat_eq_self_iff unsigned_less [where ?'b = 32, simplified])
    then have "unat (drop_bit 16 s) = drop_bit 16 (unat s)" by (simp add: unsigned_drop_bit_eq del: drop_bit_eq_div)
    then show ?thesis by (simp only: drop_bit_eq_div) simp
  qed
qed

lemma fold_step_unat: "unat ((s AND 0xffff) + drop_bit 16 s) = unat s mod 65536 + unat s div 65536" for s :: u32
proof -
  have "unat s < 4294967296" using unsigned_less [of s] by simp
  then have "unat s div 65536 < 65536" by (simp add: div_less_iff_less_mult)
  moreover have "unat s mod 65536 < 65536" by simp
  ultimately have "unat s mod 65536 + unat s div 65536 < 4294967296" by linarith
  then show ?thesis using unat_plus_no_wrap [of "s AND 0xffff" "drop_bit 16 s"] unfolding split16 by simp
qed

lemma drop16_zero: "drop_bit 16 s = 0 \<longleftrightarrow> unat s < 65536" for s :: u32
  by (metis split16(2) div_eq_0_iff unat_eq_zero zero_neq_numeral)

termination fold_carry
proof (relation "measure unat")
  fix s :: u32
  assume "drop_bit 16 s \<noteq> 0"
  then have "65536 \<le> unat s" by (simp add: drop16_zero)
  then have "unat s mod 65536 + unat s div 65536 < unat s"
    using div_mult_mod_eq [of "unat s" 65536] by linarith
  then show "((s AND 0xffff) + drop_bit 16 s, s) \<in> measure unat" by (simp add: fold_step_unat)
qed simp

declare fold_carry.simps [simp del]

text \<open>Folding keeps the value modulo \<open>65535\<close> and gives zero for zero only.\<close>

lemma fold_carry_spec:
  "unat (fold_carry s) < 65536 \<and> unat (fold_carry s) mod 65535 = unat s mod 65535 \<and> (unat (fold_carry s) = 0 \<longleftrightarrow> unat s = 0)"
proof (induction s rule: fold_carry.induct)
  case (1 s)
  show ?case
  proof (cases "drop_bit 16 s = 0")
    case True
    then have "fold_carry s = s" by (subst fold_carry.simps) simp
    with True show ?thesis unfolding drop16_zero by simp
  next
    case False
    let ?t = "(s AND 0xffff) + drop_bit 16 s"
    have r: "fold_carry s = fold_carry ?t" using False by (simp add: fold_carry.simps [of s])
    have t: "unat ?t = unat s mod 65536 + unat s div 65536" by (rule fold_step_unat)
    have "unat s = 65535 * (unat s div 65536) + unat ?t"
      unfolding t using div_mult_mod_eq [of "unat s" 65536] by linarith
    then have "unat ?t mod 65535 = unat s mod 65535" by (metis mod_mult_self4)
    moreover have "unat ?t = 0 \<longleftrightarrow> unat s = 0"
      unfolding t using div_mult_mod_eq [of "unat s" 65536] by auto
    ultimately show ?thesis using 1 [OF False] unfolding r by simp
  qed
qed

text \<open>The sum of the big-endian 16-bit words of a byte string, an odd last byte taken as the high one.\<close>

fun word_sum :: "byte list \<Rightarrow> nat" where
  "word_sum [] = 0"
| "word_sum [b] = unat b * 256"
| "word_sum (a # b # bs) = unat a * 256 + unat b + word_sum bs"

lemma word_sum_bound: "word_sum bs \<le> 65535 * ((length bs + 1) div 2)"
proof (induction bs rule: word_sum.induct)
  case (2 b)
  have "unat b \<le> 255" using unat_u8_lt [of b] by linarith
  then show ?case by simp
next
  case (3 a b bs)
  have "unat a \<le> 255" "unat b \<le> 255" using unat_u8_lt [of a] unat_u8_lt [of b] by linarith+
  with 3 show ?case by simp
qed simp

lemma word_sum_append: "even (length xs) \<Longrightarrow> word_sum (xs @ ys) = word_sum xs + word_sum ys"
  by (induction xs rule: word_sum.induct) auto

lemma be_val_pair: "be_val [a, b] = unat a * 256 + unat b"
  by (simp add: be_val_def)

lemma word16_unat: "n < 2 ^ 16 \<Longrightarrow> unat (word_of_nat n :: u16) = n"
  by simp

lemma word_sum_put_u16 [simp]: "word_sum (put_u16 w) = unat w"
proof -
  obtain a b where ab: "put_u16 w = [a, b]"
    using length_put(1) [of w] by (metis length_0_conv length_Suc_conv numeral_2_eq_2)
  have "get_u16 [a, b] = w" unfolding ab [symmetric] by simp
  moreover have "be_val [a, b] < 2 ^ 16" using be_val_bound [of "[a, b]"] by simp
  ultimately have "be_val [a, b] = unat w" unfolding get_u16_def by (metis word16_unat)
  then show ?thesis by (simp add: ab be_val_pair)
qed

text \<open>What the running state stands for, and that a part adds exactly its words.\<close>

fun left_bytes :: "byte option \<Rightarrow> byte list" where
  "left_bytes None = []" | "left_bytes (Some b) = [b]"

lemma unat_pair_u32:
  "unat (ucast (get_u16 [a, b]) :: u32) = unat a * 256 + unat b"
  "unat (push_bit 8 (ucast a) OR ucast b :: u32) = unat a * 256 + unat b"
  "unat (push_bit 8 (ucast a) :: u32) = unat a * 256"
proof -
  have lt: "unat a * 256 + unat b < 65536" using unat_u8_lt [of a] unat_u8_lt [of b] by linarith
  show "unat (ucast (get_u16 [a, b]) :: u32) = unat a * 256 + unat b"
  proof -
    have "unat (ucast (get_u16 [a, b]) :: u32) = take_bit 32 (unat (get_u16 [a, b]))"
      by (simp only: unsigned_ucast_eq len_of_numeral_defs) simp
    moreover have "unat (get_u16 [a, b]) = unat a * 256 + unat b"
      unfolding get_u16_def be_val_pair using lt by (intro word16_unat) simp
    ultimately show ?thesis using lt by (simp only:) (simp add: take_bit_nat_eq_self)
  qed
  have p: "push_bit 8 (ucast a :: u32) = word_of_nat (unat a * 256)"
    by (simp add: push_bit_eq_mult)
  have b: "(ucast b :: u32) = word_of_nat (unat b)" by simp
  show "unat (push_bit 8 (ucast a) :: u32) = unat a * 256"
    unfolding p by (rule unat_word_of_nat_lt) (use lt in simp)
  have "push_bit 8 (ucast a) OR ucast b = push_bit 8 (ucast a) + (ucast b :: u32)"
    by (rule disjunctive_add_eq_or [symmetric]) (auto simp: bit_eq_iff bit_simps dest: bit_imp_le_length)
  also have "\<dots> = word_of_nat (unat a * 256 + unat b)" unfolding p b by simp
  finally show "unat (push_bit 8 (ucast a) OR ucast b :: u32) = unat a * 256 + unat b"
    by (simp only:) (rule unat_word_of_nat_lt, use lt in simp)
qed

lemma sum_words_spec:
  "unat acc + word_sum (bs @ qs) < 4294967296 \<Longrightarrow> sum_words acc bs = (acc', l) \<Longrightarrow>
    unat acc' + word_sum (left_bytes l @ qs) = unat acc + word_sum (bs @ qs)"
proof (induction acc bs rule: sum_words.induct)
  case (3 acc a b bs)
  have lt: "unat acc + (unat a * 256 + unat b) < 2 ^ LENGTH(32)" using 3(2) by simp
  have u: "unat (acc + ucast (get_u16 [a, b])) = unat acc + (unat a * 256 + unat b)"
    using unat_plus_no_wrap [of acc "ucast (get_u16 [a, b])"] lt by (simp only: unat_pair_u32)
  have "sum_words (acc + ucast (get_u16 [a, b])) bs = (acc', l)" using 3(3) by simp
  from 3(1) [OF _ this] show ?case using 3(2) by (simp only: u) simp
qed auto

lemma sum_part_spec:
  assumes "unat acc + word_sum (left_bytes l @ p @ qs) < 4294967296" "sum_part (acc, l) p = (acc', l')"
  shows "unat acc' + word_sum (left_bytes l' @ qs) = unat acc + word_sum (left_bytes l @ p @ qs)"
proof (cases p)
  case Nil
  then show ?thesis using assms by (simp add: sum_part_def)
next
  case (Cons b rest)
  show ?thesis
  proof (cases l)
    case None
    then show ?thesis using assms Cons sum_words_spec [of acc p qs acc' l'] by (simp add: sum_part_def)
  next
    case (Some h)
    let ?x = "push_bit 8 (ucast h) OR ucast b :: u32"
    have lt: "unat acc + (unat h * 256 + unat b) < 2 ^ LENGTH(32)" using assms(1) by (simp add: Some Cons)
    have u: "unat (acc + ?x) = unat acc + (unat h * 256 + unat b)"
      using unat_plus_no_wrap [of acc ?x] lt by (simp only: unat_pair_u32)
    have "sum_words (acc + ?x) rest = (acc', l')" using assms(2) by (simp add: Some Cons sum_part_def)
    from sum_words_spec [OF _ this, of qs] show ?thesis using assms(1) by (simp only: u) (simp add: Some Cons)
  qed
qed

lemma sum_parts_spec:
  "unat acc + word_sum (left_bytes l @ concat parts) < 4294967296 \<Longrightarrow>
   fold (\<lambda>p s. sum_part s p) parts (acc, l) = (acc', l') \<Longrightarrow>
    unat acc' + word_sum (left_bytes l') = unat acc + word_sum (left_bytes l @ concat parts)"
proof (induction parts arbitrary: acc l)
  case (Cons p ps)
  obtain a1 l1 where s: "sum_part (acc, l) p = (a1, l1)" by force
  have "unat a1 + word_sum (left_bytes l1 @ concat ps) = unat acc + word_sum (left_bytes l @ p @ concat ps)"
    by (rule sum_part_spec [OF _ s]) (use Cons.prems(1) in simp)
  then show ?case using Cons.IH [of a1 l1] Cons.prems by (simp add: s)
qed simp

text \<open>The value of the checksum: the complement of the folded sum of the concatenated words.\<close>

definition folded :: "nat \<Rightarrow> nat \<Rightarrow> bool" where
  "folded n r \<longleftrightarrow> r < 65536 \<and> r mod 65535 = n mod 65535 \<and> (r = 0 \<longleftrightarrow> n = 0)"

lemma packetChecksum_value:
  assumes "length (concat parts) \<le> 131000"
  obtains r where "folded (word_sum (concat parts)) r" "unat (packetChecksum parts) = 65535 - r"
proof -
  let ?n = "word_sum (concat parts)"
  have n: "?n < 4294967296" using word_sum_bound [of "concat parts"] assms by linarith
  obtain acc l where f: "fold (\<lambda>p s. sum_part s p) parts (0, None) = (acc, l)" by force
  have s: "unat acc + word_sum (left_bytes l) = ?n" using sum_parts_spec [OF _ f] n by simp
  define t where "t = (case l of None \<Rightarrow> acc | Some h \<Rightarrow> acc + push_bit 8 (ucast h))"
  have t: "unat t = ?n"
  proof (cases l)
    case (Some h)
    then show ?thesis
      using s n unat_plus_no_wrap [of acc "push_bit 8 (ucast h)"] by (simp add: t_def unat_pair_u32)
  qed (use s in \<open>simp add: t_def\<close>)
  let ?r = "unat (fold_carry t)"
  have fr: "folded ?n ?r" using fold_carry_spec [of t] by (simp add: folded_def t)
  have e: "packetChecksum parts = NOT (ucast (fold_carry t))" by (simp add: packetChecksum_def f t_def)
  have u: "unat (ucast (fold_carry t) :: u16) = ?r"
    using fold_carry_spec [of t] by (simp add: unsigned_ucast_eq take_bit_nat_eq_self)
  have nt: "unat (NOT w :: u16) = 65535 - unat w" for w :: u16
  proof -
    have m: "unat (- 1 :: u16) = 65535" by (simp add: unsigned_minus_1_eq_mask mask_eq_exp_minus_1)
    have "unat w < 65536" using unsigned_less [of w] by simp
    then have "unat (- 1 - w) = unat (- 1 :: u16) - unat w"
      by (intro unat_sub) (simp only: word_le_nat_alt m)
    moreover have "NOT w = - 1 - w" by (simp add: not_eq_complement)
    ultimately show ?thesis by (simp only: m)
  qed
  from that [OF fr] show thesis unfolding e u [symmetric] by (simp only: nt)
qed

lemma folded_full: "folded n r \<Longrightarrow> 65535 - r = 0 \<longleftrightarrow> n \<noteq> 0 \<and> 65535 dvd n"
proof -
  assume f: "folded n r"
  then have lt: "r < 65536" and z: "r = 0 \<longleftrightarrow> n = 0" by (simp_all add: folded_def)
  have d: "65535 dvd r \<longleftrightarrow> 65535 dvd n" using f by (simp add: folded_def dvd_eq_mod_eq_0)
  have "65535 dvd r \<longleftrightarrow> r = 0 \<or> r = 65535"
  proof
    assume "65535 dvd r"
    then obtain k where "r = 65535 * k" by (elim dvdE)
    moreover from this lt have "k < 2" by linarith
    ultimately show "r = 0 \<or> r = 65535" by (auto simp: less_2_cases_iff)
  qed auto
  then show ?thesis unfolding d [symmetric] using lt z by auto
qed

text \<open>The receiver's check: the whole, checksum field included, has checksum zero.\<close>

lemma packetChecksum_zero_iff:
  assumes "length (concat parts) \<le> 131000"
  shows "packetChecksum parts = 0 \<longleftrightarrow> word_sum (concat parts) \<noteq> 0 \<and> 65535 dvd word_sum (concat parts)"
proof -
  obtain r where r: "folded (word_sum (concat parts)) r" "unat (packetChecksum parts) = 65535 - r"
    using packetChecksum_value [OF assms] .
  have "packetChecksum parts = 0 \<longleftrightarrow> 65535 - r = 0" by (metis r(2) unat_eq_zero)
  then show ?thesis using folded_full [OF r(1)] by simp
qed

text \<open>Writing the checksum into its zeroed field makes the whole check; \<open>0xffff\<close> does as well as zero.\<close>

lemma checksum_field:
  assumes len: "length (concat parts) \<le> 131000" and ev: "even (length pre)"
    and before: "concat parts = pre @ [0, 0] @ post" and after: "concat parts' = pre @ put_u16 c @ post"
    and c: "c = packetChecksum parts \<or> (c = 0xffff \<and> packetChecksum parts = 0)"
  shows "packetChecksum parts' = 0"
proof -
  let ?n = "word_sum (concat parts)"
  have len': "length (concat parts') \<le> 131000" using len before after by simp
  have e2: "even (length (put_u16 c))" "even (length [0, 0 :: byte])" by simp_all
  have n: "?n = word_sum pre + word_sum post" unfolding before by (simp add: word_sum_append [OF ev])
  have n': "word_sum (concat parts') = ?n + unat c"
    unfolding after n word_sum_append [OF ev] word_sum_append [OF e2(1)] by simp
  obtain r where r: "folded ?n r" "unat (packetChecksum parts) = 65535 - r" using packetChecksum_value [OF len] .
  have lt: "r < 65536" and z: "r = 0 \<longleftrightarrow> ?n = 0" using r(1) by (simp_all add: folded_def)
  have ffff: "unat (0xffff :: u16) = 65535" by simp
  have cv: "unat c = 65535 - r \<or> (unat c = 65535 \<and> r = 65535)"
  proof -
    have "packetChecksum parts = 0 \<Longrightarrow> r = 65535" using r(2) lt by simp
    then show ?thesis using c r(2) ffff by metis
  qed
  have "(?n + unat c) mod 65535 = (r + unat c) mod 65535"
    using r(1) unfolding folded_def by (metis mod_add_left_eq)
  also have "\<dots> = 0"
  proof -
    have "r + unat c = 65535 \<or> r + unat c = 65535 * 2" using cv lt by linarith
    then show ?thesis by (elim disjE) simp_all
  qed
  finally have "65535 dvd ?n + unat c" by (simp add: dvd_eq_mod_eq_0)
  moreover have "?n + unat c \<noteq> 0" using cv z by auto
  ultimately show ?thesis using packetChecksum_zero_iff [OF len'] by (simp add: n')
qed

end
