(* ===== verification/Ip_Packet.thy ===== *)
theory Ip_Packet
  imports Ip_Checksum
begin

text \<open>
  \<open>agent/divert/packet.go\<close>: parsing of captured IP packets, the rewriting of their endpoints, synthesized UDP
  replies and TCP resets, and the repair of checksums. A packet is its bytes; the fields of \<open>ipPacket\<close> that alias
  it are lists of their own. Every error of the code is a constructor.
\<close>

section \<open>Types\<close>

type_synonym protocol = string

definition ProtoTCP :: protocol where "ProtoTCP = ''tcp''"
definition ProtoUDP :: protocol where "ProtoUDP = ''udp''"
definition maxUDPPayload :: nat where "maxUDPPayload = 65507"

record addr_port =
  pt_Addr :: addr
  pt_Port :: u16

definition addr_port_IsValid :: "addr_port \<Rightarrow> bool" where
  "addr_port_IsValid a \<longleftrightarrow> pt_Addr a \<noteq> InvalidAddr"

fun Is4 :: "addr \<Rightarrow> bool" where "Is4 (Addr4 _) = True" | "Is4 _ = False"

record ip_packet =
  ip_Bytes :: "byte list"
  ip_Source :: addr_port
  ip_Destination :: addr_port
  ip_Protocol :: protocol
  ip_TCPFlags :: byte
  ip_TCPSequence :: u32
  ip_TCPAck :: u32
  ip_TransportOffset :: nat
  ip_Payload :: "byte list"

record flow_key =
  fk_Protocol :: protocol
  fk_Source :: addr_port
  fk_Destination :: addr_port

datatype packet_error =
    EmptyPacket | TruncatedIPv4 | BadIPv4HeaderLength | BadIPv4Total | ReservedFragmentFlag | FragmentedIPv4
  | TruncatedIPv6 | EmptyIPv6 | BadIPv6Length | MappedOnWire | UnsupportedVersion
  | TruncatedTCP | BadTCPHeaderLength | TruncatedUDP | BadUDPLength | UDPTooLarge | UnsupportedTransport byte
  | TruncatedOption string | BadOptionLength string | IPv4SourceRouting
  | TruncatedExtension | BadExtensionLength | HopByHopNotFirst | IPv6SourceRouting | DuplicateFragment
  | TruncatedFragment | ReservedFragmentBits | FragmentedIPv6 | EspAh | UnsupportedNext byte
  | TruncatedIPv6Option | BadIPv6OptionLength | JumboOption
  | InvalidEndpoint | ZonedEndpoint | FamiliesDiffer | FamilyChange | UnsupportedProtocol | LengthLimits
  | ReplyNeedsUDP | ResetNeedsTCP | BadTCPPayload

text \<open>\<open>data[a:b]\<close>, and a two-byte field at an offset.\<close>

definition slice :: "nat \<Rightarrow> nat \<Rightarrow> 'a list \<Rightarrow> 'a list" where "slice a b xs = take (b - a) (drop a xs)"

definition u16_at :: "nat \<Rightarrow> byte list \<Rightarrow> u16" where "u16_at i xs = get_u16 (slice i (i + 2) xs)"

definition u32_at :: "nat \<Rightarrow> byte list \<Rightarrow> u32" where "u32_at i xs = get_u32 (slice i (i + 4) xs)"

text \<open>A write of bytes at an offset, inside the packet.\<close>

definition put_at :: "nat \<Rightarrow> 'a list \<Rightarrow> 'a list \<Rightarrow> 'a list" where
  "put_at i ys xs = take i xs @ ys @ drop (i + length ys) xs"

section \<open>Options and extension headers\<close>

function validatePacketOptions :: "string \<Rightarrow> byte list \<Rightarrow> packet_error option" where
  "validatePacketOptions header options =
     (case options of
        [] \<Rightarrow> None
      | kind # rest \<Rightarrow>
        if kind = 0 then None
        else if kind = 1 then validatePacketOptions header rest
        else (case rest of
            [] \<Rightarrow> Some (TruncatedOption header)
          | len # _ \<Rightarrow>
            if unat len < 2 \<or> unat len > length options then Some (BadOptionLength header)
            else if header = ''IPv4'' \<and> (kind = 131 \<or> kind = 137) then Some IPv4SourceRouting
            else validatePacketOptions header (drop (unat len) options)))"
  by pat_completeness auto
termination by (relation "measure (length \<circ> snd)") auto

function validateIPv6PacketOptions :: "byte list \<Rightarrow> packet_error option" where
  "validateIPv6PacketOptions options =
     (case options of
        [] \<Rightarrow> None
      | kind # rest \<Rightarrow>
        if kind = 0 then validateIPv6PacketOptions rest
        else (case rest of
            [] \<Rightarrow> Some TruncatedIPv6Option
          | len # _ \<Rightarrow>
            if unat len + 2 > length options then Some BadIPv6OptionLength
            else if kind = 0xc2 \<or> kind = 0xc9 then Some JumboOption
            else validateIPv6PacketOptions (drop (unat len + 2) options)))"
  by pat_completeness auto
termination by (relation "measure length") auto

text \<open>The walk over the extension headers, with the next header, the offset and whether a Fragment header was seen.\<close>

function ipv6_walk :: "byte list \<Rightarrow> byte \<Rightarrow> nat \<Rightarrow> bool \<Rightarrow> packet_error + (nat \<times> byte)" where
  "ipv6_walk data nxt offset fragmentSeen =
     (if nxt = 0 \<or> nxt = 43 \<or> nxt = 60
      then
        if offset + 8 > length data then Err TruncatedExtension
        else
          let len = (unat (data ! (offset + 1)) + 1) * 8 in
          if len > length data - offset then Err BadExtensionLength
          else if nxt = 0 \<and> offset \<noteq> 40 then Err HopByHopNotFirst
          else if nxt = 43
          then if data ! (offset + 3) \<noteq> 0 then Err IPv6SourceRouting
               else ipv6_walk data (data ! offset) (offset + len) fragmentSeen
          else (case validateIPv6PacketOptions (slice (offset + 2) (offset + len) data) of
              Some e \<Rightarrow> Err e
            | None \<Rightarrow> ipv6_walk data (data ! offset) (offset + len) fragmentSeen)
      else if nxt = 44
      then
        if fragmentSeen then Err DuplicateFragment
        else if offset + 8 > length data then Err TruncatedFragment
        else
          let fragment = u16_at (offset + 2) data in
          if data ! (offset + 1) \<noteq> 0 \<or> fragment AND 6 \<noteq> 0 then Err ReservedFragmentBits
          else if fragment \<noteq> 0 then Err FragmentedIPv6
          else ipv6_walk data (data ! offset) (offset + 8) True
      else if nxt = 50 \<or> nxt = 51 then Err EspAh
      else if nxt = 6 \<or> nxt = 17 then Ok (offset, nxt)
      else Err (UnsupportedNext nxt))"
  by pat_completeness auto
termination
  by (relation "measure (\<lambda>(data, _, offset, _). length data - offset)") auto

definition ipv6PacketTransport :: "byte list \<Rightarrow> packet_error + (nat \<times> byte)" where
  "ipv6PacketTransport data = ipv6_walk data (data ! 6) 40 False"

section \<open>Parsing\<close>

text \<open>The network header: source, destination, transport offset and protocol.\<close>

definition parse_ipv4 :: "byte list \<Rightarrow> packet_error + (addr \<times> addr \<times> nat \<times> byte)" where
  "parse_ipv4 data =
     (if length data < 20 then Err TruncatedIPv4
      else
        let offset = unat (data ! 0) mod 16 * 4; tot = unat (u16_at 2 data); fragment = u16_at 6 data in
        if offset < 20 \<or> offset > length data then Err BadIPv4HeaderLength
        else if tot < offset \<or> tot \<noteq> length data then Err BadIPv4Total
        else if fragment AND 0x8000 \<noteq> 0 then Err ReservedFragmentFlag
        else if fragment AND 0x3fff \<noteq> 0 then Err FragmentedIPv4
        else (case validatePacketOptions ''IPv4'' (slice 20 offset data) of
            Some e \<Rightarrow> Err e
          | None \<Rightarrow> Ok (Addr4 (slice 12 16 data), Addr4 (slice 16 20 data), offset, data ! 9)))"

definition parse_ipv6 :: "byte list \<Rightarrow> packet_error + (addr \<times> addr \<times> nat \<times> byte)" where
  "parse_ipv6 data =
     (if length data < 40 then Err TruncatedIPv6
      else
        let payloadLength = unat (u16_at 4 data);
            source = Addr6 (slice 8 24 data) []; destination = Addr6 (slice 24 40 data) [] in
        if payloadLength = 0 then Err EmptyIPv6
        else if payloadLength + 40 \<noteq> length data then Err BadIPv6Length
        else if Is4In6 source \<or> Is4In6 destination then Err MappedOnWire
        else (case ipv6PacketTransport data of Err e \<Rightarrow> Err e | Ok (offset, nxt) \<Rightarrow> Ok (source, destination, offset, nxt)))"

definition parse_network :: "byte list \<Rightarrow> packet_error + (addr \<times> addr \<times> nat \<times> byte)" where
  "parse_network data =
     (if data = [] then Err EmptyPacket
      else if unat (data ! 0) div 16 = 4 then parse_ipv4 data
      else if unat (data ! 0) div 16 = 6 then parse_ipv6 data
      else Err UnsupportedVersion)"

text \<open>The transport header: protocol, flags, sequence, acknowledgement and payload.\<close>

definition parse_transport :: "byte \<Rightarrow> byte list \<Rightarrow> packet_error + (protocol \<times> byte \<times> u32 \<times> u32 \<times> byte list)" where
  "parse_transport nxt transport =
     (if nxt = 6
      then
        if length transport < 20 then Err TruncatedTCP
        else
          let headerLength = unat (transport ! 12) div 16 * 4 in
          if headerLength < 20 \<or> headerLength > length transport then Err BadTCPHeaderLength
          else (case validatePacketOptions ''TCP'' (slice 20 headerLength transport) of
              Some e \<Rightarrow> Err e
            | None \<Rightarrow> Ok (ProtoTCP, transport ! 13, u32_at 4 transport, u32_at 8 transport, drop headerLength transport))
      else if nxt = 17
      then
        if length transport < 8 then Err TruncatedUDP
        else
          let len = unat (u16_at 4 transport) in
          if len < 8 \<or> len \<noteq> length transport then Err BadUDPLength
          else if length transport - 8 > maxUDPPayload then Err UDPTooLarge
          else Ok (ProtoUDP, 0, 0, 0, drop 8 transport)
      else Err (UnsupportedTransport nxt))"

definition parseIPPacket :: "byte list \<Rightarrow> packet_error + ip_packet" where
  "parseIPPacket data =
     (case parse_network data of
        Err e \<Rightarrow> Err e
      | Ok (source, destination, offset, nxt) \<Rightarrow>
        (case parse_transport nxt (drop offset data) of
           Err e \<Rightarrow> Err e
         | Ok (protocol, flags, sq, ack, payload) \<Rightarrow>
           Ok \<lparr>ip_Bytes = data, ip_Source = \<lparr>pt_Addr = source, pt_Port = u16_at 0 (drop offset data)\<rparr>,
               ip_Destination = \<lparr>pt_Addr = destination, pt_Port = u16_at 2 (drop offset data)\<rparr>,
               ip_Protocol = protocol, ip_TCPFlags = flags, ip_TCPSequence = sq, ip_TCPAck = ack,
               ip_TransportOffset = offset, ip_Payload = payload\<rparr>))"

lemma validatePacketOptions_Nil: "validatePacketOptions header [] = None"
  by simp

declare validatePacketOptions_Nil [simp]
declare validatePacketOptions.simps [simp del] validateIPv6PacketOptions.simps [simp del] ipv6_walk.simps [simp del]

section \<open>Rewriting\<close>

text \<open>The packet is written in place; its checksums are computed from the bytes as they are by then.\<close>

definition version :: "byte list \<Rightarrow> nat" where "version data = unat (data ! 0) div 16"

fun As4 :: "addr \<Rightarrow> byte list" where "As4 (Addr4 bs) = bs" | "As4 (Addr6 bs _) = drop 12 bs" | "As4 InvalidAddr = []"

definition repair_header :: "nat \<Rightarrow> byte list \<Rightarrow> byte list" where
  "repair_header offset data =
     (if version data = 4
      then let data0 = put_at 10 [0, 0] data in put_at 10 (put_u16 (packetChecksum [take offset data0])) data0
      else data)"

definition pseudo_header :: "byte \<Rightarrow> nat \<Rightarrow> byte list \<Rightarrow> byte list" where
  "pseudo_header protocol n data =
     (if version data = 4 then slice 12 20 data @ [0, protocol] @ put_u16 (word_of_nat n)
      else slice 8 40 data @ put_u32 (word_of_nat n) @ [0, 0, 0, protocol])"

definition checksum_place :: "protocol \<Rightarrow> nat \<times> byte" where
  "checksum_place p = (if p = ProtoUDP then (6, 17) else (16, 6))"

definition repair_transport :: "protocol \<Rightarrow> nat \<Rightarrow> byte list \<Rightarrow> byte list" where
  "repair_transport proto offset data =
     (let (co, nxt) = checksum_place proto;
          data0 = put_at (offset + co) [0, 0] data;
          checksum = packetChecksum [pseudo_header nxt (length data - offset) data0, drop offset data0]
      in put_at (offset + co) (put_u16 (if proto = ProtoUDP \<and> checksum = 0 then 0xffff else checksum)) data0)"

definition repairPacketChecksums :: "ip_packet \<Rightarrow> byte list" where
  "repairPacketChecksums p = repair_transport (ip_Protocol p) (ip_TransportOffset p) (repair_header (ip_TransportOffset p) (ip_Bytes p))"

definition packetEndpointPair :: "addr_port \<Rightarrow> addr_port \<Rightarrow> packet_error + (addr_port \<times> addr_port)" where
  "packetEndpointPair s d =
     (if \<not> addr_port_IsValid s \<or> \<not> addr_port_IsValid d then Err InvalidEndpoint
      else if Zone (pt_Addr s) \<noteq> [] \<or> Zone (pt_Addr d) \<noteq> [] then Err ZonedEndpoint
      else let s1 = s\<lparr>pt_Addr := Unmap (pt_Addr s)\<rparr>; d1 = d\<lparr>pt_Addr := Unmap (pt_Addr d)\<rparr> in
        if Is4 (pt_Addr s1) \<noteq> Is4 (pt_Addr d1) then Err FamiliesDiffer else Ok (s1, d1))"

definition write_addresses :: "addr \<Rightarrow> addr \<Rightarrow> byte list \<Rightarrow> byte list" where
  "write_addresses s d data =
     (if Is4 s then put_at 16 (As4 d) (put_at 12 (As4 s) data) else put_at 24 (As16 d) (put_at 8 (As16 s) data))"

definition write_ports :: "nat \<Rightarrow> u16 \<Rightarrow> u16 \<Rightarrow> byte list \<Rightarrow> byte list" where
  "write_ports offset s d data = put_at (offset + 2) (put_u16 d) (put_at offset (put_u16 s) data)"

text \<open>The bytes afterwards and the error, if any.\<close>

definition rewriteIPPacket :: "byte list \<Rightarrow> addr_port \<Rightarrow> addr_port \<Rightarrow> byte list \<times> packet_error option" where
  "rewriteIPPacket data s d =
     (case parseIPPacket data of
        Err e \<Rightarrow> (data, Some e)
      | Ok p \<Rightarrow>
        (case packetEndpointPair s d of
           Err e \<Rightarrow> (data, Some e)
         | Ok (s1, d1) \<Rightarrow>
           if Is4 (pt_Addr s1) \<noteq> (version data = 4) then (data, Some FamilyChange)
           else (repairPacketChecksums
                   (p\<lparr>ip_Bytes := write_ports (ip_TransportOffset p) (pt_Port s1) (pt_Port d1)
                                    (write_addresses (pt_Addr s1) (pt_Addr d1) data)\<rparr>), None)))"

section \<open>Synthesized packets\<close>

definition network_header :: "addr \<Rightarrow> addr \<Rightarrow> byte \<Rightarrow> nat \<Rightarrow> byte list" where
  "network_header s d nxt n =
     (if Is4 s
      then [0x45, 0] @ put_u16 (word_of_nat (20 + n)) @ [0, 0, 0x40, 0, 64, nxt, 0, 0] @ As4 s @ As4 d
      else [0x60, 0, 0, 0] @ put_u16 (word_of_nat n) @ [nxt, 64] @ As16 s @ As16 d)"

definition newTransportPacket :: "addr_port \<Rightarrow> addr_port \<Rightarrow> protocol \<Rightarrow> nat \<Rightarrow> packet_error + ip_packet" where
  "newTransportPacket s d proto n =
     (case packetEndpointPair s d of
        Err e \<Rightarrow> Err e
      | Ok (s1, d1) \<Rightarrow>
        let headerLength = (if Is4 (pt_Addr s1) then 20 else 40) in
        if proto \<noteq> ProtoTCP \<and> proto \<noteq> ProtoUDP then Err UnsupportedProtocol
        else let (nxt, minimum) = (if proto = ProtoUDP then (17, 8) else (6, 20)) in
          if n < minimum \<or> n > 65535 \<or> (headerLength = 20 \<and> n > 65535 - headerLength) then Err LengthLimits
          else Ok \<lparr>ip_Bytes = write_ports headerLength (pt_Port s1) (pt_Port d1)
                                (network_header (pt_Addr s1) (pt_Addr d1) nxt n @ replicate n 0),
                   ip_Source = s1, ip_Destination = d1, ip_Protocol = proto, ip_TCPFlags = 0, ip_TCPSequence = 0,
                   ip_TCPAck = 0, ip_TransportOffset = headerLength, ip_Payload = []\<rparr>)"

definition makeUDPReply :: "flow_key \<Rightarrow> byte list \<Rightarrow> packet_error + byte list" where
  "makeUDPReply key payload =
     (if fk_Protocol key \<noteq> ProtoUDP then Err ReplyNeedsUDP
      else if length payload > maxUDPPayload then Err UDPTooLarge
      else (case newTransportPacket (fk_Destination key) (fk_Source key) ProtoUDP (8 + length payload) of
          Err e \<Rightarrow> Err e
        | Ok p \<Rightarrow>
          let udp = length (ip_Bytes p) - ip_TransportOffset p in
          Ok (repairPacketChecksums (p\<lparr>ip_Bytes :=
            put_at (ip_TransportOffset p + 8) payload
              (put_at (ip_TransportOffset p + 4) (put_u16 (word_of_nat udp)) (ip_Bytes p))\<rparr>))))"

definition reset_fields :: "ip_packet \<Rightarrow> byte \<times> u32 \<times> u32" where
  "reset_fields p =
     (if ip_TCPFlags p AND 0x10 \<noteq> 0 then (0x04, ip_TCPAck p, 0)
      else (0x04 OR 0x10, 0,
            ip_TCPSequence p + word_of_nat (length (ip_Payload p))
              + (if ip_TCPFlags p AND 0x02 \<noteq> 0 then 1 else 0) + (if ip_TCPFlags p AND 0x01 \<noteq> 0 then 1 else 0)))"

text \<open>A reset is never answered: neither a packet nor an error.\<close>

definition makeTCPReset :: "ip_packet \<Rightarrow> packet_error + byte list option" where
  "makeTCPReset p =
     (if ip_Protocol p \<noteq> ProtoTCP then Err ResetNeedsTCP
      else if ip_TCPFlags p AND 0x04 \<noteq> 0 then Ok None
      else if length (ip_Payload p) > 65535 - 20 then Err BadTCPPayload
      else (case newTransportPacket (ip_Destination p) (ip_Source p) ProtoTCP 20 of
          Err e \<Rightarrow> Err e
        | Ok reply \<Rightarrow>
          let o4 = ip_TransportOffset reply; (flags, sq, ack) = reset_fields p in
          Ok (Some (repairPacketChecksums (reply\<lparr>ip_Bytes :=
            put_at (o4 + 8) (put_u32 ack) (put_at (o4 + 4) (put_u32 sq)
              (put_at (o4 + 12) [80, flags] (ip_Bytes reply)))\<rparr>)))))"

section \<open>Bytes left alone\<close>

text \<open>Two byte strings of one length that agree outside a set of positions.\<close>

definition eq_out :: "nat set \<Rightarrow> 'a list \<Rightarrow> 'a list \<Rightarrow> bool" where
  "eq_out A xs ys \<longleftrightarrow> length xs = length ys \<and> (\<forall>j < length xs. j \<notin> A \<longrightarrow> xs ! j = ys ! j)"

lemma length_put_at [simp]: "i + length ys \<le> length xs \<Longrightarrow> length (put_at i ys xs) = length xs"
  by (simp add: put_at_def)

lemma nth_put_at:
  "i + length ys \<le> length xs \<Longrightarrow> j < length xs \<Longrightarrow>
    put_at i ys xs ! j = (if i \<le> j \<and> j < i + length ys then ys ! (j - i) else xs ! j)"
  by (auto simp: put_at_def nth_append)

lemma eq_out_put: "i + length ys \<le> length xs \<Longrightarrow> eq_out {i..<i + length ys} (put_at i ys xs) xs"
  by (simp add: eq_out_def nth_put_at)

lemma eq_out_trans: "eq_out A xs ys \<Longrightarrow> eq_out B ys zs \<Longrightarrow> eq_out (A \<union> B) xs zs"
  by (simp add: eq_out_def)

lemma eq_out_mono: "eq_out A xs ys \<Longrightarrow> A \<subseteq> B \<Longrightarrow> eq_out B xs ys"
  by (auto simp: eq_out_def)

lemma eq_out_length: "eq_out A xs ys \<Longrightarrow> length xs = length ys"
  by (simp add: eq_out_def)

lemma eq_out_nth: "eq_out A xs ys \<Longrightarrow> j < length ys \<Longrightarrow> j \<notin> A \<Longrightarrow> xs ! j = ys ! j"
  by (simp add: eq_out_def)

lemma eq_out_slice: "eq_out A xs ys \<Longrightarrow> {a..<b} \<inter> A = {} \<Longrightarrow> slice a b xs = slice a b ys"
  unfolding eq_out_def slice_def by (intro nth_equalityI) (auto simp: disjoint_iff)

lemma eq_out_take: "eq_out A xs ys \<Longrightarrow> {..<b} \<inter> A = {} \<Longrightarrow> take b xs = take b ys"
  unfolding eq_out_def by (intro nth_equalityI) (auto simp: disjoint_iff)

lemma eq_out_drop: "eq_out A xs ys \<Longrightarrow> eq_out {j. n + j \<in> A} (drop n xs) (drop n ys)"
  unfolding eq_out_def by auto

lemma eq_out_drop_eq: "eq_out A xs ys \<Longrightarrow> {n..} \<inter> A = {} \<Longrightarrow> drop n xs = drop n ys"
  unfolding eq_out_def by (intro nth_equalityI) (auto simp: disjoint_iff)

lemma eq_out_u16: "eq_out A xs ys \<Longrightarrow> i \<notin> A \<Longrightarrow> i + 1 \<notin> A \<Longrightarrow> u16_at i xs = u16_at i ys"
  unfolding u16_at_def by (subst eq_out_slice) (auto simp: le_less_Suc_eq less_Suc_eq)

lemma eq_out_u32:
  "eq_out A xs ys \<Longrightarrow> {i..<i + 4} \<inter> A = {} \<Longrightarrow> u32_at i xs = u32_at i ys"
  unfolding u32_at_def by (subst eq_out_slice) auto

lemma slice_put_same: "b = i + length ys \<Longrightarrow> i + length ys \<le> length xs \<Longrightarrow> slice i b (put_at i ys xs) = ys"
  by (simp add: slice_def put_at_def)

lemma u16_at_put [simp]: "i + 2 \<le> length xs \<Longrightarrow> u16_at i (put_at i (put_u16 w) xs) = w"
  by (simp add: u16_at_def slice_put_same)

lemma u32_at_put [simp]: "i + 4 \<le> length xs \<Longrightarrow> u32_at i (put_at i (put_u32 w) xs) = w"
  by (simp add: u32_at_def slice_put_same)

lemma length_slice [simp]: "b \<le> length xs \<Longrightarrow> length (slice a b xs) = b - a"
  by (simp add: slice_def)

section \<open>What parsing depends on\<close>

lemma ipv6_walk_bound:
  "ipv6_walk data n i f = Ok (i', nx) \<Longrightarrow> i \<le> i' \<and> (i \<le> length data \<longrightarrow> i' \<le> length data) \<and> (nx = 6 \<or> nx = 17)"
proof (induction data n i f rule: ipv6_walk.induct)
  case (1 data nxt i f)
  from 1(4) show ?case
    using 1(1-3)
    by (subst (asm) ipv6_walk.simps) (fastforce simp: Let_def split: if_splits option.splits)
qed

lemma ipv6_walk_cong:
  "ipv6_walk data n i f = Ok (i', nx) \<Longrightarrow> length data' = length data \<Longrightarrow>
    \<forall>j. i \<le> j \<and> j < i' \<longrightarrow> data' ! j = data ! j \<Longrightarrow> ipv6_walk data' n i f = Ok (i', nx)"
proof (induction data n i f rule: ipv6_walk.induct)
  case (1 data nxt i f)
  note l = 1(5) and same = 1(6)
  let ?len = "(unat (data ! (i + 1)) + 1) * 8"
  consider (opts) "nxt = 0 \<or> nxt = 43 \<or> nxt = 60" | (frag) "nxt = 44" | (stop) "nxt = 6 \<or> nxt = 17"
    using 1(4) by (subst (asm) ipv6_walk.simps) (auto split: if_splits)
  then show ?case
  proof cases
    case opts
    have ok: "i + 8 \<le> length data" "?len \<le> length data - i" "nxt = 0 \<longrightarrow> i = 40"
      using 1(4) opts by (subst (asm) ipv6_walk.simps, auto simp: Let_def split: if_splits)+
    have rec: "ipv6_walk data (data ! i) (i + ?len) f = Ok (i', nx)"
      using 1(4) opts by (subst (asm) ipv6_walk.simps) (auto simp: Let_def split: if_splits option.splits)
    have ge: "i + ?len \<le> i'" using ipv6_walk_bound [OF rec] by simp
    have b: "data' ! i = data ! i" "data' ! (i + 1) = data ! (i + 1)" "data' ! (i + 3) = data ! (i + 3)"
      using same ge by simp_all
    have sl: "slice (i + 2) (i + ?len) data' = slice (i + 2) (i + ?len) data"
      by (rule eq_out_slice [of "- {i..<i'}"]) (use l same ge in \<open>auto simp: eq_out_def\<close>)
    have IH: "ipv6_walk data' (data ! i) (i + ?len) f = Ok (i', nx)"
    proof (cases "nxt = 43")
      case True
      then show ?thesis
        using 1(1) [of ?len] 1(4) ok opts rec l same ge
        by (subst (asm) ipv6_walk.simps) (auto simp: Let_def split: if_splits)
    next
      case False
      then show ?thesis
        using 1(2) [of ?len] 1(4) ok opts rec l same ge
        by (subst (asm) ipv6_walk.simps) (auto simp: Let_def split: if_splits option.splits)
    qed
    show ?thesis
      using 1(4) opts ok IH
      by (subst (asm) ipv6_walk.simps, subst ipv6_walk.simps)
        (simp add: Let_def l b [simplified] sl [simplified] split: if_splits option.splits)
  next
    case frag
    have rec: "ipv6_walk data (data ! i) (i + 8) True = Ok (i', nx)"
      using 1(4) frag by (subst (asm) ipv6_walk.simps) (auto simp: Let_def split: if_splits)
    have ge: "i + 8 \<le> i'" using ipv6_walk_bound [OF rec] by simp
    have b: "data' ! i = data ! i" "data' ! (i + 1) = data ! (i + 1)" using same ge by simp_all
    have u: "u16_at (i + 2) data' = u16_at (i + 2) data"
      by (rule eq_out_u16 [of "- {i..<i'}"]) (use l same ge in \<open>auto simp: eq_out_def\<close>)
    have IH: "ipv6_walk data' (data ! i) (i + 8) True = Ok (i', nx)"
      using 1(3) [of "u16_at (i + 2) data"] 1(4) frag rec l same ge
      by (subst (asm) ipv6_walk.simps) (auto simp: Let_def split: if_splits)
    show ?thesis
      using 1(4) frag IH
      by (subst (asm) ipv6_walk.simps, subst ipv6_walk.simps) (simp add: Let_def l b [simplified] u [simplified] split: if_splits)
  next
    case stop
    then show ?thesis using 1(4) by (subst (asm) ipv6_walk.simps, subst ipv6_walk.simps) auto
  qed
qed

lemma parse_network_shape:
  assumes "parse_network data = Ok (s, d, i, nx)"
  shows "i \<le> length data \<and> length data \<le> 65575 \<and>
    (version data = 4 \<and> 20 \<le> i \<and> even i \<and> (\<exists>a b. s = Addr4 a \<and> d = Addr4 b) \<or>
     version data = 6 \<and> 40 \<le> i \<and> (nx = 6 \<or> nx = 17) \<and> (\<exists>a b. s = Addr6 a [] \<and> d = Addr6 b []))"
proof (cases "unat (data ! 0) div 16 = 4")
  case True
  have t: "unat (u16_at 2 data) < 65536" using unsigned_less [of "u16_at 2 data"] by simp
  show ?thesis
    using assms True t
    by (auto simp: parse_network_def parse_ipv4_def version_def Let_def split: if_splits option.splits)
next
  case False
  have t: "unat (u16_at 4 data) < 65536" using unsigned_less [of "u16_at 4 data"] by simp
  have e: "parse_ipv6 data = Ok (s, d, i, nx)" "version data = 6"
    using assms False by (auto simp: parse_network_def version_def split: if_splits)
  have w: "ipv6_walk data (data ! 6) 40 False = Ok (i, nx)" and len: "length data \<le> 65575" "40 \<le> length data"
    and sd: "\<exists>a b. s = Addr6 a [] \<and> d = Addr6 b []"
    using e(1) t by (auto simp: parse_ipv6_def ipv6PacketTransport_def Let_def split: if_splits sum.splits)
  show ?thesis using ipv6_walk_bound [OF w] len e(2) sd by simp
qed

text \<open>Parsing the network header does not look at the IPv4 checksum, nor at the addresses but to return them.\<close>

lemma parse_ipv4_cong:
  assumes p: "parse_ipv4 data = Ok (s, d, i, nx)" and eq: "eq_out ({10..<20} \<union> {i..}) data' data" and le: "20 \<le> i" "i \<le> length data"
  shows "parse_ipv4 data' = Ok (Addr4 (slice 12 16 data'), Addr4 (slice 16 20 data'), i, nx)"
proof -
  have l: "length data' = length data" using eq by (rule eq_out_length)
  have b: "data' ! 0 = data ! 0" "data' ! 9 = data ! 9" by (rule eq_out_nth [OF eq], use le in \<open>auto simp del: length_greater_0_conv\<close>)+
  have u: "u16_at 2 data' = u16_at 2 data" "u16_at 6 data' = u16_at 6 data"
    by (rule eq_out_u16 [OF eq], use le in auto)+
  have sl: "slice 20 i data' = slice 20 i data" by (rule eq_out_slice [OF eq]) auto
  have "i = unat (data ! 0) mod 16 * 4" using p by (auto simp: parse_ipv4_def Let_def split: if_splits option.splits)
  then show ?thesis
    using p sl unfolding parse_ipv4_def Let_def l b u by (auto split: if_splits option.splits)
qed

lemma parse_ipv6_cong:
  assumes p: "parse_ipv6 data = Ok (s, d, i, nx)" and eq: "eq_out ({8..<40} \<union> {i..}) data' data"
    and m: "\<not> Is4In6 (Addr6 (slice 8 24 data') [])" "\<not> Is4In6 (Addr6 (slice 24 40 data') [])"
  shows "parse_ipv6 data' = Ok (Addr6 (slice 8 24 data') [], Addr6 (slice 24 40 data') [], i, nx)"
proof -
  have l: "length data' = length data" using eq by (rule eq_out_length)
  have len: "40 \<le> length data" and w: "ipv6_walk data (data ! 6) 40 False = Ok (i, nx)"
    using p by (auto simp: parse_ipv6_def ipv6PacketTransport_def Let_def split: if_splits sum.splits)
  have i: "40 \<le> i" "i \<le> length data" using ipv6_walk_bound [OF w] len by simp_all
  have b: "data' ! 6 = data ! 6" by (rule eq_out_nth [OF eq]) (use i in auto)
  have u: "u16_at 4 data' = u16_at 4 data" by (rule eq_out_u16 [OF eq]) (use i in auto)
  have "ipv6_walk data' (data' ! 6) 40 False = Ok (i, nx)" unfolding b
    by (rule ipv6_walk_cong [OF w l]) (use eq_out_nth [OF eq] i in auto)
  then show ?thesis
    using p m unfolding parse_ipv6_def ipv6PacketTransport_def Let_def l u by (auto split: if_splits sum.splits)
qed

definition checksum_at :: "byte \<Rightarrow> nat set" where
  "checksum_at nx = (if nx = 17 then {6..<8} else {16..<18})"

lemma parse_transport_cong:
  assumes "parse_transport nx t = Ok r" "eq_out ({..<4} \<union> checksum_at nx) t' t"
  shows "parse_transport nx t' = Ok r"
proof -
  note eq = assms(2)
  have l: "length t' = length t" using eq by (rule eq_out_length)
  consider (tcp) "nx = 6" "20 \<le> length t" | (udp) "nx = 17" "8 \<le> length t"
    using assms(1) by (auto simp: parse_transport_def split: if_splits)
  then show ?thesis
  proof cases
    case tcp
    have b: "t' ! 12 = t ! 12" "t' ! 13 = t ! 13"
      by (rule eq_out_nth [OF eq], use tcp in \<open>auto simp: checksum_at_def\<close>)+
    have u: "u32_at 4 t' = u32_at 4 t" "u32_at 8 t' = u32_at 8 t"
      by (rule eq_out_u32 [OF eq], use tcp in \<open>auto simp: checksum_at_def\<close>)+
    have sl: "slice 20 n t' = slice 20 n t" for n by (rule eq_out_slice [OF eq]) (use tcp in \<open>auto simp: checksum_at_def\<close>)
    have dr: "20 \<le> n \<Longrightarrow> drop n t' = drop n t" for n by (rule eq_out_drop_eq [OF eq]) (use tcp in \<open>auto simp: checksum_at_def\<close>)
    show ?thesis
      using assms(1) tcp dr [of "unat (t ! 12) div 16 * 4"] unfolding parse_transport_def Let_def l b u sl
      by (auto split: if_splits option.splits)
  next
    case udp
    have u: "u16_at 4 t' = u16_at 4 t" by (rule eq_out_u16 [OF eq]) (use udp in \<open>auto simp: checksum_at_def\<close>)
    have dr: "drop 8 t' = drop 8 t" by (rule eq_out_drop_eq [OF eq]) (use udp in \<open>auto simp: checksum_at_def\<close>)
    show ?thesis using assms(1) udp unfolding parse_transport_def Let_def l u dr by (auto split: if_splits)
  qed
qed

lemma parse_transport_shape:
  "parse_transport nx t = Ok (pr, fl, sq, ak, pl) \<Longrightarrow>
    nx = 6 \<and> pr = ProtoTCP \<and> 20 \<le> length t \<or> nx = 17 \<and> pr = ProtoUDP \<and> 8 \<le> length t"
  by (auto simp: parse_transport_def Let_def split: if_splits option.splits)

lemma proto_neq [simp]: "ProtoTCP \<noteq> ProtoUDP" "ProtoUDP \<noteq> ProtoTCP"
  by (simp_all add: ProtoTCP_def ProtoUDP_def)

section \<open>Checksums after repair\<close>

definition header_checks :: "nat \<Rightarrow> byte list \<Rightarrow> bool" where
  "header_checks i data \<longleftrightarrow> (version data = 4 \<longrightarrow> packetChecksum [take i data] = 0)"

definition transport_checks :: "protocol \<Rightarrow> nat \<Rightarrow> byte list \<Rightarrow> bool" where
  "transport_checks proto i data \<longleftrightarrow>
     packetChecksum [pseudo_header (snd (checksum_place proto)) (length data - i) data, drop i data] = 0 \<and>
     (proto = ProtoUDP \<longrightarrow> u16_at (i + 6) data \<noteq> 0)"

lemma version_cong: "eq_out A xs ys \<Longrightarrow> 0 \<notin> A \<Longrightarrow> 0 < length ys \<Longrightarrow> version xs = version ys"
  unfolding version_def using eq_out_nth [of A xs ys 0] by simp

lemma put_at_split: "i + length ys \<le> length xs \<Longrightarrow> put_at i ys xs = take i xs @ ys @ drop (i + length ys) xs"
  by (simp add: put_at_def)

lemma put_at_put_at:
  "length ys = length zs \<Longrightarrow> i + length ys \<le> length xs \<Longrightarrow> put_at i zs (put_at i ys xs) = put_at i zs xs"
  by (simp add: put_at_def)

lemma repair_header_out: "12 \<le> length data \<Longrightarrow> eq_out {10..<12} (repair_header i data) data"
  unfolding repair_header_def Let_def
  by (auto simp: put_at_put_at eq_out_def nth_put_at)

lemma repair_header_checks:
  assumes "12 \<le> i" "i \<le> length data" "i \<le> 131000"
  shows "header_checks i (repair_header i data)"
proof (cases "version data = 4")
  case True
  let ?d0 = "put_at 10 [0, 0] data"
  let ?c = "packetChecksum [take i ?d0]"
  have r: "repair_header i data = put_at 10 (put_u16 ?c) data"
    unfolding repair_header_def Let_def using True assms by (simp add: put_at_put_at)
  have before: "concat [take i ?d0] = take 10 data @ [0, 0] @ take (i - 12) (drop 12 data)"
    using assms by (simp add: put_at_def take_Cons')
  have after: "concat [take i (repair_header i data)] = take 10 data @ put_u16 ?c @ take (i - 12) (drop 12 data)"
    using assms unfolding r by (simp add: put_at_def)
  have "packetChecksum [take i (repair_header i data)] = 0"
    by (rule checksum_field [OF _ _ before after]) (use assms in auto)
  then show ?thesis by (simp add: header_checks_def)
next
  case False
  then show ?thesis by (simp add: header_checks_def repair_header_def)
qed

lemma pseudo_header_cong:
  assumes "eq_out A xs ys" "A \<inter> {12..<20} = {} \<or> version ys \<noteq> 4" "A \<inter> {8..<40} = {} \<or> version ys = 4" "0 \<notin> A" "0 < length ys"
  shows "pseudo_header nx n xs = pseudo_header nx n ys"
  unfolding pseudo_header_def version_cong [OF assms(1,4,5)]
  using eq_out_slice [OF assms(1), of 12 20] eq_out_slice [OF assms(1), of 8 40] assms(2,3) by auto

lemma repair_transport_out:
  "i + fst (checksum_place pr) + 2 \<le> length data \<Longrightarrow>
    eq_out {i + fst (checksum_place pr)..<i + fst (checksum_place pr) + 2} (repair_transport pr i data) data"
  unfolding repair_transport_def Let_def by (auto simp: put_at_put_at eq_out_def nth_put_at split: prod.splits)

lemma drop_put_at: "i \<le> j \<Longrightarrow> j + length ys \<le> length xs \<Longrightarrow> drop i (put_at j ys xs) = take (j - i) (drop i xs) @ ys @ drop (j + length ys) xs"
  by (simp add: put_at_def drop_take)

lemma length_pseudo_header:
  "20 \<le> length data \<Longrightarrow> version data = 4 \<or> 40 \<le> length data \<Longrightarrow> length (pseudo_header nx n data) = (if version data = 4 then 12 else 40)"
  by (auto simp: pseudo_header_def)

lemma repair_transport_checks:
  assumes len: "i + fst (checksum_place pr) + 2 \<le> length data" "length data \<le> 65575"
    and i: "version data = 4 \<and> 20 \<le> i \<or> 40 \<le> i"
  shows "transport_checks pr i (repair_transport pr i data)"
proof -
  obtain co nx where pl: "checksum_place pr = (co, nx)" by force
  have co: "even co" "pr = ProtoUDP \<longrightarrow> co = 6" using pl by (auto simp: checksum_place_def split: if_splits)
  let ?n = "length data - i"
  let ?zeroed = "put_at (i + co) [0, 0] data"
  let ?cs = "packetChecksum [pseudo_header nx ?n ?zeroed, drop i ?zeroed]"
  define c where "c = (if pr = ProtoUDP \<and> ?cs = 0 then 0xffff else ?cs)"
  let ?filled = "put_at (i + co) (put_u16 c) data"
  have l: "i + co + 2 \<le> length data" using len pl by simp
  have "repair_transport pr i data = put_at (i + co) (put_u16 c) ?zeroed"
    by (simp add: repair_transport_def Let_def pl c_def)
  also have "\<dots> = ?filled" by (rule put_at_put_at) (use l in simp_all)
  finally have r: "repair_transport pr i data = ?filled" .
  have ph: "pseudo_header nx ?n (put_at (i + co) ys data) = pseudo_header nx ?n data" if "length ys = 2" for ys
    by (rule pseudo_header_cong [OF eq_out_put]) (use l i that in auto)
  have lph: "even (length (pseudo_header nx ?n data))" "length (pseudo_header nx ?n data) \<le> 40"
    using length_pseudo_header [of data nx ?n] i l by auto
  let ?pre = "pseudo_header nx ?n data @ take co (drop i data)"
  let ?post = "drop (i + co + 2) data"
  have before: "concat [pseudo_header nx ?n ?zeroed, drop i ?zeroed] = ?pre @ [0, 0] @ ?post"
    using l by (simp add: ph drop_put_at)
  have after: "concat [pseudo_header nx ?n ?filled, drop i ?filled] = ?pre @ put_u16 c @ ?post"
    using l by (simp add: ph drop_put_at)
  have "length (concat [pseudo_header nx ?n ?zeroed, drop i ?zeroed]) \<le> 131000"
    unfolding before using len l lph by simp
  moreover have "even (length ?pre)" using lph co l by simp
  moreover have "c = ?cs \<or> c = 0xffff \<and> ?cs = 0" by (simp add: c_def)
  ultimately have ck: "packetChecksum [pseudo_header nx ?n ?filled, drop i ?filled] = 0"
    using checksum_field [OF _ _ before after] by blast
  have "u16_at (i + 6) ?filled \<noteq> 0" if "pr = ProtoUDP"
    using that co l by (auto simp: c_def)
  with ck l show ?thesis unfolding transport_checks_def r by (simp add: pl)
qed

text \<open>Both at once, and what the repair leaves alone.\<close>

definition checksums_ok :: "protocol \<Rightarrow> nat \<Rightarrow> byte list \<Rightarrow> bool" where
  "checksums_ok proto i data \<longleftrightarrow> header_checks i data \<and> transport_checks proto i data"

lemma repair_checksums:
  assumes len: "ip_TransportOffset p + fst (checksum_place (ip_Protocol p)) + 2 \<le> length (ip_Bytes p)" "length (ip_Bytes p) \<le> 65575"
    and i: "version (ip_Bytes p) = 4 \<and> 20 \<le> ip_TransportOffset p \<or> version (ip_Bytes p) = 6 \<and> 40 \<le> ip_TransportOffset p"
  shows "checksums_ok (ip_Protocol p) (ip_TransportOffset p) (repairPacketChecksums p)"
    and "eq_out ((if version (ip_Bytes p) = 4 then {10..<12} else {}) \<union>
           {ip_TransportOffset p + fst (checksum_place (ip_Protocol p))..<ip_TransportOffset p + fst (checksum_place (ip_Protocol p)) + 2})
           (repairPacketChecksums p) (ip_Bytes p)"
proof -
  let ?i = "ip_TransportOffset p" and ?pr = "ip_Protocol p" and ?b = "ip_Bytes p"
  let ?co = "fst (checksum_place ?pr)"
  let ?h = "repair_header ?i ?b"
  have out1: "eq_out {10..<12} ?h ?b" by (rule repair_header_out) (use len i in auto)
  have l1: "length ?h = length ?b" using out1 by (rule eq_out_length)
  have v1: "version ?h = version ?b" by (rule version_cong [OF out1]) (use len i in auto)
  have out2: "eq_out {?i + ?co..<?i + ?co + 2} (repair_transport ?pr ?i ?h) ?h"
    by (rule repair_transport_out) (use len l1 in simp)
  have v2: "version (repair_transport ?pr ?i ?h) = version ?h" by (rule version_cong [OF out2]) (use len l1 i in auto)
  have "header_checks ?i ?h" by (rule repair_header_checks) (use len i in auto)
  moreover have "take ?i (repair_transport ?pr ?i ?h) = take ?i ?h" by (rule eq_out_take [OF out2]) auto
  ultimately have "header_checks ?i (repair_transport ?pr ?i ?h)" unfolding header_checks_def v2 by simp
  moreover have "transport_checks ?pr ?i (repair_transport ?pr ?i ?h)"
    by (rule repair_transport_checks) (use len l1 v1 i in auto)
  ultimately show "checksums_ok ?pr ?i (repairPacketChecksums p)" by (simp add: checksums_ok_def repairPacketChecksums_def)
  have "eq_out (if version ?b = 4 then {10..<12} else {}) ?h ?b"
    using out1 by (cases "version ?b = 4") (simp_all add: repair_header_def eq_out_def)
  from eq_out_trans [OF out2 this] show "eq_out ((if version ?b = 4 then {10..<12} else {}) \<union> {?i + ?co..<?i + ?co + 2}) (repairPacketChecksums p) ?b"
    by (simp add: repairPacketChecksums_def Un_commute)
qed

section \<open>The rewritten packet\<close>

lemma packetEndpointPair_shape:
  assumes "packetEndpointPair s d = Ok (s1, d1)" "addr_wf (pt_Addr s)" "addr_wf (pt_Addr d)"
  shows "(\<exists>a b. pt_Addr s1 = Addr4 a \<and> pt_Addr d1 = Addr4 b \<and> length a = 4 \<and> length b = 4) \<or>
    (\<exists>a b. pt_Addr s1 = Addr6 a [] \<and> pt_Addr d1 = Addr6 b [] \<and> length a = 16 \<and> length b = 16 \<and>
       \<not> Is4In6 (Addr6 a []) \<and> \<not> Is4In6 (Addr6 b []))"
  using assms
  by (cases "pt_Addr s"; cases "pt_Addr d") (auto simp: packetEndpointPair_def Let_def split: if_splits)

lemma parse_shape:
  assumes "parseIPPacket data = Ok p"
  obtains s d nx where "parse_network data = Ok (s, d, ip_TransportOffset p, nx)"
    "parse_transport nx (drop (ip_TransportOffset p) data) =
       Ok (ip_Protocol p, ip_TCPFlags p, ip_TCPSequence p, ip_TCPAck p, ip_Payload p)"
    "p = \<lparr>ip_Bytes = data, ip_Source = \<lparr>pt_Addr = s, pt_Port = u16_at 0 (drop (ip_TransportOffset p) data)\<rparr>,
          ip_Destination = \<lparr>pt_Addr = d, pt_Port = u16_at 2 (drop (ip_TransportOffset p) data)\<rparr>,
          ip_Protocol = ip_Protocol p, ip_TCPFlags = ip_TCPFlags p, ip_TCPSequence = ip_TCPSequence p, ip_TCPAck = ip_TCPAck p,
          ip_TransportOffset = ip_TransportOffset p, ip_Payload = ip_Payload p\<rparr>"
  using assms by (auto simp: parseIPPacket_def split: sum.splits prod.splits)

definition addr_pair :: "addr \<Rightarrow> addr \<Rightarrow> bool \<Rightarrow> bool" where
  "addr_pair a b v4 \<longleftrightarrow>
     (if v4 then \<exists>x y. a = Addr4 x \<and> b = Addr4 y \<and> length x = 4 \<and> length y = 4
      else \<exists>x y. a = Addr6 x [] \<and> b = Addr6 y [] \<and> length x = 16 \<and> length y = 16 \<and>
             \<not> Is4In6 (Addr6 x []) \<and> \<not> Is4In6 (Addr6 y []))"

lemma packetEndpointPair_pair:
  assumes "packetEndpointPair s d = Ok (s1, d1)" "addr_wf (pt_Addr s)" "addr_wf (pt_Addr d)"
  shows "addr_pair (pt_Addr s1) (pt_Addr d1) (Is4 (pt_Addr s1))"
  using packetEndpointPair_shape [OF assms] by (auto simp: addr_pair_def)

lemma write_addresses_out:
  assumes "addr_pair a b v4" "if v4 then 20 \<le> length data else 40 \<le> length data"
  shows "eq_out (if v4 then {12..<20} else {8..<40}) (write_addresses a b data) data"
  using assms unfolding addr_pair_def write_addresses_def
  by (cases v4) (auto simp: eq_out_def nth_put_at)

lemma write_addresses_slices:
  assumes "addr_pair a b v4" "if v4 then 20 \<le> length data else 40 \<le> length data"
  shows "v4 \<Longrightarrow> a = Addr4 (slice 12 16 (write_addresses a b data)) \<and> b = Addr4 (slice 16 20 (write_addresses a b data))"
    and "\<not> v4 \<Longrightarrow> a = Addr6 (slice 8 24 (write_addresses a b data)) [] \<and> b = Addr6 (slice 24 40 (write_addresses a b data)) []"
  using assms unfolding addr_pair_def write_addresses_def
  by (auto simp: slice_def put_at_def)

lemma rewritten_network:
  assumes p: "parse_network data = Ok (s0, d0, i, nx)" and pr: "addr_pair a b (version data = 4)"
    and eq: "eq_out ((if version data = 4 then {10..<12} else {}) \<union> {i..}) r (write_addresses a b data)"
  shows "parse_network r = Ok (a, b, i, nx)"
proof -
  note sh = parse_network_shape [OF p]
  let ?w = "write_addresses a b data"
  have len: "if version data = 4 then 20 \<le> length data else 40 \<le> length data" using sh by auto
  note out = write_addresses_out [OF pr len]
  have lr: "length r = length data" using eq out by (simp add: eq_out_def)
  have eqd: "eq_out ((if version data = 4 then {10..<12} else {}) \<union> {i..} \<union> (if version data = 4 then {12..<20} else {8..<40})) r data"
    by (rule eq_out_trans [OF eq out])
  have pos: "0 < length data" "r \<noteq> []" "data \<noteq> []" using len lr by (auto split: if_splits)
  have vr: "version r = version data" by (rule version_cong [OF eqd _ pos(1)]) (use sh in auto)
  show ?thesis
  proof (cases "version data = 4")
    case True
    have p4: "parse_ipv4 data = Ok (s0, d0, i, nx)" using p True by (auto simp: parse_network_def version_def split: if_splits)
    have i: "20 \<le> i" "i \<le> length data" using sh True by auto
    have "parse_ipv4 r = Ok (Addr4 (slice 12 16 r), Addr4 (slice 16 20 r), i, nx)"
      by (rule parse_ipv4_cong [OF p4 _ i]) (rule eq_out_mono [OF eqd], use True i in auto)
    moreover have "slice 12 16 r = slice 12 16 ?w" "slice 16 20 r = slice 16 20 ?w"
      by (rule eq_out_slice [OF eq], use True i in auto)+
    ultimately have "parse_ipv4 r = Ok (a, b, i, nx)" using write_addresses_slices(1) [OF pr len True] by simp
    then show ?thesis using True vr pos by (simp add: parse_network_def version_def)
  next
    case False
    have v6: "version data = 6" "40 \<le> i" using sh False by auto
    have p6: "parse_ipv6 data = Ok (s0, d0, i, nx)" using p v6 by (auto simp: parse_network_def version_def split: if_splits)
    have sl: "slice 8 24 r = slice 8 24 ?w" "slice 24 40 r = slice 24 40 ?w"
      by (rule eq_out_slice [OF eq], use v6 in auto)+
    have ab: "a = Addr6 (slice 8 24 r) []" "b = Addr6 (slice 24 40 r) []"
      using write_addresses_slices(2) [OF pr len False] sl by simp_all
    have m: "\<not> Is4In6 (Addr6 (slice 8 24 r) [])" "\<not> Is4In6 (Addr6 (slice 24 40 r) [])"
      using pr False unfolding ab [symmetric] by (auto simp: addr_pair_def)
    have "parse_ipv6 r = Ok (Addr6 (slice 8 24 r) [], Addr6 (slice 24 40 r) [], i, nx)"
      by (rule parse_ipv6_cong [OF p6 _ m]) (rule eq_out_mono [OF eqd], use v6 in auto)
    then show ?thesis using v6 vr pos ab by (simp add: parse_network_def version_def)
  qed
qed

lemma write_ports_out: "i + 4 \<le> length data \<Longrightarrow> eq_out {i..<i + 4} (write_ports i s d data) data"
  by (auto simp: write_ports_def eq_out_def nth_put_at)

lemma write_ports_read:
  assumes "i + 4 \<le> length data"
  shows "u16_at i (write_ports i s d data) = s" "u16_at (i + 2) (write_ports i s d data) = d"
proof -
  let ?x = "put_at i (put_u16 s) data"
  have eq: "eq_out {i + 2..<i + 2 + 2} (write_ports i s d data) ?x"
    unfolding write_ports_def using eq_out_put [of "i + 2" "put_u16 d" ?x] assms by simp
  have "u16_at i (write_ports i s d data) = u16_at i ?x" by (rule eq_out_u16 [OF eq]) simp_all
  then show "u16_at i (write_ports i s d data) = s" using assms by simp
  show "u16_at (i + 2) (write_ports i s d data) = d"
    unfolding write_ports_def using assms by simp
qed

lemma u16_at_drop: "u16_at j (drop i xs) = u16_at (i + j) xs"
  by (simp add: u16_at_def slice_def add.commute)

text \<open>From the two headers to the packet.\<close>

lemma parse_from_parts:
  "parse_network r = Ok (pt_Addr s, pt_Addr d, i, nx) \<Longrightarrow>
   parse_transport nx (drop i r) = Ok (pr, fl, sq, ak, pl) \<Longrightarrow> u16_at i r = pt_Port s \<Longrightarrow> u16_at (i + 2) r = pt_Port d \<Longrightarrow>
   parseIPPacket r = Ok \<lparr>ip_Bytes = r, ip_Source = s, ip_Destination = d, ip_Protocol = pr, ip_TCPFlags = fl,
     ip_TCPSequence = sq, ip_TCPAck = ak, ip_TransportOffset = i, ip_Payload = pl\<rparr>"
  by (simp add: parseIPPacket_def u16_at_drop)

text \<open>C31. 
  Rewriting the endpoints of a captured packet, whatever its options and extension headers, gives a packet that
  parses with the new endpoints and otherwise as before, payload and TCP fields included, and whose IPv4 header and
  transport checksums check, even when those of the captured packet did not; a UDP checksum is never written as zero.
\<close>
theorem rewritten_packet_parses:
  assumes parse: "parseIPPacket data = Ok p" and pair: "packetEndpointPair s d = Ok (s1, d1)"
    and family: "Is4 (pt_Addr s1) \<longleftrightarrow> version data = 4" and wf: "addr_wf (pt_Addr s)" "addr_wf (pt_Addr d)"
  shows "\<exists>data'. rewriteIPPacket data s d = (data', None) \<and>
    parseIPPacket data' = Ok (p\<lparr>ip_Bytes := data', ip_Source := s1, ip_Destination := d1\<rparr>) \<and>
    checksums_ok (ip_Protocol p) (ip_TransportOffset p) data'"
proof -
  obtain s0 d0 nx where net: "parse_network data = Ok (s0, d0, ip_TransportOffset p, nx)"
    and tr: "parse_transport nx (drop (ip_TransportOffset p) data) =
       Ok (ip_Protocol p, ip_TCPFlags p, ip_TCPSequence p, ip_TCPAck p, ip_Payload p)"
    using parse_shape [OF parse] by blast
  define i where "i = ip_TransportOffset p"
  let ?w = "write_addresses (pt_Addr s1) (pt_Addr d1) data"
  let ?p = "write_ports i (pt_Port s1) (pt_Port d1) ?w"
  let ?q = "p\<lparr>ip_Bytes := ?p\<rparr>"
  let ?co = "fst (checksum_place (ip_Protocol p))"
  note sh = parse_network_shape [OF net [folded i_def]]
  have t: "nx = 6 \<and> ip_Protocol p = ProtoTCP \<and> 20 \<le> length data - i \<or> nx = 17 \<and> ip_Protocol p = ProtoUDP \<and> 8 \<le> length data - i"
    using parse_transport_shape [OF tr [folded i_def]] by simp
  have pr: "addr_pair (pt_Addr s1) (pt_Addr d1) (version data = 4)"
    using packetEndpointPair_pair [OF pair wf] family by simp
  have len: "if version data = 4 then 20 \<le> length data else 40 \<le> length data" using sh by auto
  note outw = write_addresses_out [OF pr len]
  have lw: "length ?w = length data" using outw by (rule eq_out_length)
  have outp: "eq_out {i..<i + 4} ?p ?w" by (rule write_ports_out) (use t sh lw in auto)
  have lp: "length ?p = length data" using eq_out_length [OF outp] lw by simp
  have vp: "version ?p = version data"
    by (rule version_cong [OF eq_out_trans [OF outp outw]]) (use sh len in \<open>auto split: if_splits\<close>)
  have fits: "i + ?co + 2 \<le> length ?p" using t sh lp by (auto simp: checksum_place_def)
  have rep: "checksums_ok (ip_Protocol p) i (repairPacketChecksums ?q)"
    "eq_out ((if version data = 4 then {10..<12} else {}) \<union> {i + ?co..<i + ?co + 2}) (repairPacketChecksums ?q) ?p"
    using repair_checksums [of ?q] fits lp sh vp by (auto simp: i_def)
  let ?r = "repairPacketChecksums ?q"
  have lr: "length ?r = length data" using eq_out_length [OF rep(2)] lp by simp
  have "parse_network ?r = Ok (pt_Addr s1, pt_Addr d1, i, nx)"
    by (rule rewritten_network [OF net [folded i_def] pr])
      (rule eq_out_mono [OF eq_out_trans [OF rep(2) outp]], auto)
  moreover have "parse_transport nx (drop i ?r) = Ok (ip_Protocol p, ip_TCPFlags p, ip_TCPSequence p, ip_TCPAck p, ip_Payload p)"
  proof (rule parse_transport_cong [OF tr [folded i_def]])
    show "eq_out ({..<4} \<union> checksum_at nx) (drop i ?r) (drop i data)"
      by (rule eq_out_mono [OF eq_out_drop [OF eq_out_trans [OF eq_out_trans [OF rep(2) outp] outw]]])
        (use sh t in \<open>auto simp: checksum_at_def checksum_place_def split: if_splits\<close>)
  qed
  moreover have "u16_at i ?r = pt_Port s1" "u16_at (i + 2) ?r = pt_Port d1"
  proof -
    have le: "i + 4 \<le> length ?w" using t sh lw by auto
    have "u16_at i ?r = u16_at i ?p" "u16_at (i + 2) ?r = u16_at (i + 2) ?p"
      by (rule eq_out_u16 [OF rep(2)], use sh t in \<open>auto simp: checksum_place_def\<close>)+
    then show "u16_at i ?r = pt_Port s1" "u16_at (i + 2) ?r = pt_Port d1" using write_ports_read [OF le] by simp_all
  qed
  ultimately have "parseIPPacket ?r = Ok (p\<lparr>ip_Bytes := ?r, ip_Source := s1, ip_Destination := d1\<rparr>)"
    using parse_from_parts [of ?r s1 d1 i nx] by (simp add: i_def)
  moreover have "rewriteIPPacket data s d = (?r, None)"
    using parse pair family by (simp add: rewriteIPPacket_def i_def)
  ultimately show ?thesis using rep(1) by (auto simp: i_def)
qed

section \<open>Synthesized packets parse\<close>

lemma put_at_append: "put_at (length h + k) ys (h @ t) = h @ put_at k ys t"
  by (simp add: put_at_def)

lemma write_ports_append: "write_ports (length h) s d (h @ t) = h @ write_ports 0 s d t"
  using put_at_append [of h 0 "put_u16 s" t] put_at_append [of h 2 "put_u16 d" "put_at 0 (put_u16 s) t"]
  by (simp add: write_ports_def numeral_2_eq_2)

lemma put_u16_pair: obtains x y where "put_u16 w = [x, y]"
  using length_put(1) [of w] by (metis length_0_conv length_Suc_conv numeral_2_eq_2)

definition header_length :: "addr \<Rightarrow> nat" where "header_length a = (if Is4 a then 20 else 40)"

lemma length_network_header: "addr_pair a b (Is4 a) \<Longrightarrow> length (network_header a b nx n) = header_length a"
  by (auto simp: addr_pair_def network_header_def header_length_def split: if_splits)

lemma u16_of_nat: "n < 65536 \<Longrightarrow> unat (word_of_nat n :: u16) = n"
  by simp

lemma network_header_parses:
  assumes pr: "addr_pair a b (Is4 a)" and nx: "nx = 6 \<or> nx = 17" and n: "0 < n" "n \<le> 65535" "Is4 a \<longrightarrow> n \<le> 65515"
    and body: "length body = n"
  shows "parse_network (network_header a b nx n @ body) = Ok (a, b, header_length a, nx)"
    and "version (network_header a b nx n @ body) = (if Is4 a then 4 else 6)"
proof -
  let ?d = "network_header a b nx n @ body"
  obtain x y where xy: "put_u16 (word_of_nat (if Is4 a then 20 + n else n)) = [x, y]" by (rule put_u16_pair)
  then have g: "get_u16 [x, y] = word_of_nat (if Is4 a then 20 + n else n)" by (metis get_put_u16)
  show v: "version ?d = (if Is4 a then 4 else 6)" by (simp add: version_def network_header_def)
  show "parse_network ?d = Ok (a, b, header_length a, nx)"
  proof (cases "Is4 a")
    case True
    then obtain p q where ab: "a = Addr4 p" "b = Addr4 q" "length p = 4" "length q = 4" using pr by (auto simp: addr_pair_def)
    have d: "?d = [0x45, 0, x, y, 0, 0, 0x40, 0, 64, nx, 0, 0] @ p @ q @ body"
      using xy True ab by (simp add: network_header_def)
    have u: "u16_at 2 ?d = word_of_nat (20 + n)" "u16_at 6 ?d = 0x4000"
      using g True by (simp_all add: d u16_at_def slice_def get_u16_def be_val_def)
    have s: "slice 12 16 ?d = p" "slice 16 20 ?d = q" "slice 20 20 ?d = []"
      unfolding d by (simp_all add: slice_def ab)
    have ln: "length ?d = 20 + n" using body ab unfolding d by simp
    have h: "?d ! 0 = 0x45" "?d ! 9 = nx" unfolding d by simp_all
    have hl: "unat (0x45 :: byte) mod 16 * 4 = 20" by simp
    have ne: "?d \<noteq> []" unfolding d by simp
    have tot: "unat (word_of_nat (20 + n) :: u16) = 20 + n" by (rule u16_of_nat) (use n True in simp)
    have "parse_ipv4 ?d = Ok (a, b, 20, nx)"
      unfolding parse_ipv4_def Let_def ln u h tot hl s validatePacketOptions_Nil by (simp add: ab)
    then show ?thesis using True ne by (simp add: parse_network_def h header_length_def)
  next
    case False
    then obtain p q where ab: "a = Addr6 p []" "b = Addr6 q []" "length p = 16" "length q = 16"
      "\<not> Is4In6 (Addr6 p [])" "\<not> Is4In6 (Addr6 q [])" using pr by (auto simp: addr_pair_def)
    have d: "?d = [0x60, 0, 0, 0, x, y, nx, 64] @ p @ q @ body"
      using xy False ab by (simp add: network_header_def)
    have u: "u16_at 4 ?d = word_of_nat n"
      using g False by (simp add: d u16_at_def slice_def)
    have s: "slice 8 24 ?d = p" "slice 24 40 ?d = q"
      unfolding d by (simp_all add: slice_def ab)
    have ln: "length ?d = 40 + n" using body ab unfolding d by simp
    have h: "?d ! 0 = 0x60" "?d ! 6 = nx" unfolding d by simp_all
    have ne: "?d \<noteq> []" unfolding d by simp
    have tot: "unat (word_of_nat n :: u16) = n" by (rule u16_of_nat) (use n in simp)
    have w: "ipv6PacketTransport ?d = Ok (40, nx)"
      unfolding ipv6PacketTransport_def h by (subst ipv6_walk.simps) (use nx in auto)
    have "parse_ipv6 ?d = Ok (a, b, 40, nx)"
      unfolding parse_ipv6_def Let_def ln u tot w s using ab n by simp
    then show ?thesis using False ne by (simp add: parse_network_def h header_length_def)
  qed
qed

lemma put_at_slice: "i \<le> j \<Longrightarrow> j \<le> length xs \<Longrightarrow> put_at i (slice i j xs) xs = xs"
  by (simp add: put_at_def slice_def) (metis append_take_drop_id drop_drop le_add_diff_inverse2)

lemma write_addresses_same:
  assumes "parse_network data = Ok (a, b, i, nx)" "addr_pair a b (version data = 4)"
  shows "write_addresses a b data = data"
proof (cases "version data = 4")
  case True
  then have "a = Addr4 (slice 12 16 data)" "b = Addr4 (slice 16 20 data)" "20 \<le> length data"
    using assms(1) by (auto simp: parse_network_def version_def parse_ipv4_def Let_def split: if_splits option.splits)
  then show ?thesis by (simp add: write_addresses_def put_at_slice)
next
  case False
  then have "a = Addr6 (slice 8 24 data) []" "b = Addr6 (slice 24 40 data) []" "40 \<le> length data"
    using assms(1) by (auto simp: parse_network_def version_def parse_ipv6_def Let_def split: if_splits option.splits sum.splits)
  then show ?thesis by (simp add: write_addresses_def put_at_slice)
qed

lemma synthesized_parses:
  assumes pr: "addr_pair a b (Is4 a)" and nx: "nx = snd (checksum_place proto)" and proto: "proto = ProtoTCP \<or> proto = ProtoUDP"
    and n: "n \<le> 65535" "Is4 a \<longrightarrow> n \<le> 65515" and body: "length body = n"
    and tr: "parse_transport nx body = Ok (proto, fl, sq, ak, pl)" and ports: "u16_at 0 body = sp" "u16_at 2 body = dp"
    and p: "ip_Bytes p = network_header a b nx n @ body" "ip_Protocol p = proto" "ip_TransportOffset p = header_length a"
  shows "parseIPPacket (repairPacketChecksums p) = Ok \<lparr>ip_Bytes = repairPacketChecksums p, ip_Source = \<lparr>pt_Addr = a, pt_Port = sp\<rparr>,
      ip_Destination = \<lparr>pt_Addr = b, pt_Port = dp\<rparr>, ip_Protocol = proto, ip_TCPFlags = fl, ip_TCPSequence = sq, ip_TCPAck = ak,
      ip_TransportOffset = header_length a, ip_Payload = pl\<rparr> \<and>
    checksums_ok proto (header_length a) (repairPacketChecksums p)"
proof -
  let ?i = "header_length a" and ?d = "network_header a b nx n @ body" and ?r = "repairPacketChecksums p"
  let ?co = "fst (checksum_place proto)"
  have nx2: "nx = 6 \<or> nx = 17" and min: "?co + 2 \<le> n" "8 \<le> n"
    using nx proto parse_transport_shape [OF tr] body by (auto simp: checksum_place_def split: if_splits)
  have lh: "length (network_header a b nx n) = ?i" using length_network_header [OF pr] .
  have net: "parse_network ?d = Ok (a, b, ?i, nx)" and v: "version ?d = (if Is4 a then 4 else 6)"
    using network_header_parses [OF pr nx2 _ n body] min by simp_all
  have v4: "version ?d = 4 \<longleftrightarrow> Is4 a" using v by simp
  have hl: "?i = (if version ?d = 4 then 20 else 40)" unfolding v4 by (simp add: header_length_def)
  have rep: "checksums_ok proto ?i ?r"
    "eq_out ((if version ?d = 4 then {10..<12} else {}) \<union> {?i + ?co..<?i + ?co + 2}) ?r ?d"
    using repair_checksums [of p] p lh min body n hl v by (auto split: if_splits)
  have wa: "write_addresses a b ?d = ?d" by (rule write_addresses_same [OF net]) (use pr v4 in simp)
  have "eq_out ((if version ?d = 4 then {10..<12} else {}) \<union> {?i..}) ?r (write_addresses a b ?d)"
    unfolding wa by (rule eq_out_mono [OF rep(2)]) auto
  from rewritten_network [OF net _ this] have "parse_network ?r = Ok (a, b, ?i, nx)" using pr v4 by simp
  moreover have "parse_transport nx (drop ?i ?r) = Ok (proto, fl, sq, ak, pl)"
  proof (rule parse_transport_cong [OF tr])
    have "eq_out {j. ?i + j \<in> (if version ?d = 4 then {10..<12} else {}) \<union> {?i + ?co..<?i + ?co + 2}} (drop ?i ?r) (drop ?i ?d)"
      by (rule eq_out_drop [OF rep(2)])
    then show "eq_out ({..<4} \<union> checksum_at nx) (drop ?i ?r) body"
      unfolding lh [symmetric]
      by (simp, elim eq_out_mono) (use nx proto hl lh in \<open>auto simp: checksum_at_def checksum_place_def split: if_splits\<close>)
  qed
  moreover have "u16_at ?i ?r = sp" "u16_at (?i + 2) ?r = dp"
  proof -
    have "u16_at ?i ?r = u16_at ?i ?d" "u16_at (?i + 2) ?r = u16_at (?i + 2) ?d"
      by (rule eq_out_u16 [OF rep(2)], use hl in \<open>auto simp: checksum_place_def split: if_splits\<close>)+
    moreover have "u16_at (?i + k) ?d = u16_at k body" for k
      unfolding lh [symmetric] u16_at_drop [symmetric] by simp
    ultimately show "u16_at ?i ?r = sp" "u16_at (?i + 2) ?r = dp" using ports by (metis add_0_right)+
  qed
  ultimately show ?thesis
    using rep(1) parse_from_parts [of ?r "\<lparr>pt_Addr = a, pt_Port = sp\<rparr>" "\<lparr>pt_Addr = b, pt_Port = dp\<rparr>" ?i nx] by simp
qed

lemma zeros_write_ports:
  "4 \<le> n \<Longrightarrow> write_ports 0 s d (replicate n 0) = put_u16 s @ put_u16 d @ replicate (n - 4) 0"
  by (simp add: write_ports_def put_at_def)

lemma u16_at_0: "length x = 2 \<Longrightarrow> u16_at 0 (x @ xs) = get_u16 x"
  by (simp add: u16_at_def slice_def)

lemma u16_at_skip: "length x \<le> i \<Longrightarrow> u16_at i (x @ xs) = u16_at (i - length x) xs"
  by (simp add: u16_at_def slice_def)

lemma u32_at_0: "length x = 4 \<Longrightarrow> u32_at 0 (x @ xs) = get_u32 x"
  by (simp add: u32_at_def slice_def)

lemma u32_at_skip: "length x \<le> i \<Longrightarrow> u32_at i (x @ xs) = u32_at (i - length x) xs"
  by (simp add: u32_at_def slice_def)

text \<open>The transport part of a reply and of a reset, as bytes.\<close>

lemma udp_body:
  "put_at 8 payload (put_at 4 (put_u16 w) (write_ports 0 s d (replicate (8 + length payload) 0))) =
     put_u16 s @ put_u16 d @ put_u16 w @ [0, 0] @ payload"
  by (simp add: zeros_write_ports) (simp add: put_at_def numeral_eq_Suc)

lemma tcp_body:
  "put_at 8 (put_u32 ack) (put_at 4 (put_u32 sq) (put_at 12 [80, flags] (write_ports 0 s d (replicate 20 0)))) =
     put_u16 s @ put_u16 d @ put_u32 sq @ put_u32 ack @ [80, flags, 0, 0, 0, 0, 0, 0]"
  by (simp add: zeros_write_ports) (simp add: put_at_def numeral_eq_Suc)

lemma new_packet:
  assumes "packetEndpointPair s d = Ok (s1, d1)" "addr_wf (pt_Addr s)" "addr_wf (pt_Addr d)"
    "proto = ProtoTCP \<or> proto = ProtoUDP" "20 \<le> n \<or> 8 \<le> n \<and> proto = ProtoUDP" "n \<le> 65515"
  shows "\<exists>p. newTransportPacket s d proto n = Ok p \<and> ip_Protocol p = proto \<and> ip_TransportOffset p = header_length (pt_Addr s1) \<and>
    ip_Bytes p = network_header (pt_Addr s1) (pt_Addr d1) (snd (checksum_place proto)) n @
      write_ports 0 (pt_Port s1) (pt_Port d1) (replicate n 0)"
proof -
  have "length (network_header (pt_Addr s1) (pt_Addr d1) nx n) = header_length (pt_Addr s1)" for nx
    using length_network_header packetEndpointPair_pair [OF assms(1-3)] .
  from write_ports_append [of "network_header (pt_Addr s1) (pt_Addr d1) nx n" for nx, unfolded this]
  show ?thesis
    using assms by (auto simp: newTransportPacket_def header_length_def checksum_place_def Let_def)
qed

text \<open>A DNS-like query of one byte over IPv4, its checksums left to the hardware.\<close>

definition example_packet :: "byte list" where
  "example_packet = [69, 0, 0, 29, 0, 0, 64, 0, 64, 17, 0, 0, 10, 0, 0, 1, 10, 0, 0, 2, 4, 210, 0, 53, 0, 9, 0, 0, 65]"

lemma example_packet_parses:
  "parseIPPacket example_packet =
     Ok \<lparr>ip_Bytes = example_packet, ip_Source = \<lparr>pt_Addr = Addr4 [10, 0, 0, 1], pt_Port = 1234\<rparr>,
         ip_Destination = \<lparr>pt_Addr = Addr4 [10, 0, 0, 2], pt_Port = 53\<rparr>, ip_Protocol = ProtoUDP, ip_TCPFlags = 0,
         ip_TCPSequence = 0, ip_TCPAck = 0, ip_TransportOffset = 20, ip_Payload = [65]\<rparr>"
  by (simp add: example_packet_def parseIPPacket_def parse_network_def parse_ipv4_def parse_transport_def u16_at_def
      slice_def get_u16_def be_val_def maxUDPPayload_def)

lemma rewritten_packet_parses_witness:
  "\<exists>data'. rewriteIPPacket example_packet \<lparr>pt_Addr = Addr4 [127, 0, 0, 1], pt_Port = 7\<rparr>
      \<lparr>pt_Addr = Addr4 [127, 0, 0, 1], pt_Port = 5353\<rparr> = (data', None) \<and> header_checks 20 data'"
proof -
  have "packetEndpointPair \<lparr>pt_Addr = Addr4 [127, 0, 0, 1], pt_Port = 7\<rparr> \<lparr>pt_Addr = Addr4 [127, 0, 0, 1], pt_Port = 5353\<rparr> =
    Ok (\<lparr>pt_Addr = Addr4 [127, 0, 0, 1], pt_Port = 7\<rparr>, \<lparr>pt_Addr = Addr4 [127, 0, 0, 1], pt_Port = 5353\<rparr>)"
    by (simp add: packetEndpointPair_def addr_port_IsValid_def Let_def)
  from rewritten_packet_parses [OF example_packet_parses this] show ?thesis
    by (auto simp: version_def example_packet_def checksums_ok_def)
qed

text \<open>A reply to a UDP flow, whatever its payload up to the largest one, parses as that payload sent from the remote
  endpoint of the flow to its local one, and its checksums check.
\<close>
theorem udp_reply_parses:
  assumes key: "fk_Protocol key = ProtoUDP" and payload: "length payload \<le> maxUDPPayload"
    and pair: "packetEndpointPair (fk_Destination key) (fk_Source key) = Ok (s1, d1)"
    and wf: "addr_wf (pt_Addr (fk_Destination key))" "addr_wf (pt_Addr (fk_Source key))"
  shows "\<exists>r. makeUDPReply key payload = Ok r \<and>
    parseIPPacket r = Ok \<lparr>ip_Bytes = r, ip_Source = s1, ip_Destination = d1, ip_Protocol = ProtoUDP, ip_TCPFlags = 0,
      ip_TCPSequence = 0, ip_TCPAck = 0, ip_TransportOffset = header_length (pt_Addr s1), ip_Payload = payload\<rparr> \<and>
    checksums_ok ProtoUDP (header_length (pt_Addr s1)) r"
proof -
  let ?n = "8 + length payload" and ?i = "header_length (pt_Addr s1)"
  have n: "?n \<le> 65515" using payload by (simp add: maxUDPPayload_def)
  let ?h = "network_header (pt_Addr s1) (pt_Addr d1) (snd (checksum_place ProtoUDP)) ?n"
  obtain p where p: "newTransportPacket (fk_Destination key) (fk_Source key) ProtoUDP ?n = Ok p" "ip_Protocol p = ProtoUDP"
    "ip_TransportOffset p = ?i" "ip_Bytes p = ?h @ write_ports 0 (pt_Port s1) (pt_Port d1) (replicate ?n 0)"
    using new_packet [OF pair wf, of ProtoUDP ?n] n by auto
  have pr: "addr_pair (pt_Addr s1) (pt_Addr d1) (Is4 (pt_Addr s1))" by (rule packetEndpointPair_pair [OF pair wf])
  have lh: "length ?h = ?i" by (rule length_network_header [OF pr])
  let ?body = "put_u16 (pt_Port s1) @ put_u16 (pt_Port d1) @ put_u16 (word_of_nat ?n) @ [0, 0] @ payload"
  let ?q = "p\<lparr>ip_Bytes := ?h @ ?body\<rparr>"
  have lb: "length (ip_Bytes p) - ?i = ?n" unfolding p(4) by (simp add: lh zeros_write_ports)
  have bytes: "put_at (?i + 8) payload (put_at (?i + 4) (put_u16 (word_of_nat ?n)) (ip_Bytes p)) = ?h @ ?body"
    unfolding p(4) lh [symmetric] put_at_append udp_body ..
  have made: "makeUDPReply key payload = Ok (repairPacketChecksums ?q)"
  proof -
    have "makeUDPReply key payload = Ok (repairPacketChecksums (p\<lparr>ip_Bytes := put_at (ip_TransportOffset p + 8) payload
        (put_at (ip_TransportOffset p + 4) (put_u16 (word_of_nat (length (ip_Bytes p) - ip_TransportOffset p))) (ip_Bytes p))\<rparr>))"
      using key payload p(1) by (simp add: makeUDPReply_def Let_def)
    then show ?thesis unfolding p(3) lb bytes .
  qed
  have un: "unat (word_of_nat ?n :: u16) = ?n" by (rule u16_of_nat) (use n in simp)
  have u4: "u16_at 4 ?body = word_of_nat ?n" by (simp add: u16_at_skip u16_at_0 del: append_assoc)
  have tr: "parse_transport (snd (checksum_place ProtoUDP)) ?body = Ok (ProtoUDP, 0, 0, 0, payload)"
    using n unfolding parse_transport_def Let_def u4 un by (simp add: checksum_place_def maxUDPPayload_def)
  show ?thesis unfolding made
    using synthesized_parses [OF pr refl _ _ _ _ tr, of ?n "pt_Port s1" "pt_Port d1" ?q] n p
    by (simp add: u16_at_0 u16_at_skip)
qed

text \<open>Every segment of a flow but a reset is answered by a packet that parses as a reset from the segment's destination
  to its source, with the sequence number and acknowledgement of RFC 9293, and whose checksums check.
\<close>
theorem tcp_reset_parses:
  assumes packet: "ip_Protocol p = ProtoTCP" "ip_TCPFlags p AND 0x04 = 0" "length (ip_Payload p) \<le> 65515"
    and pair: "packetEndpointPair (ip_Destination p) (ip_Source p) = Ok (s1, d1)"
    and wf: "addr_wf (pt_Addr (ip_Destination p))" "addr_wf (pt_Addr (ip_Source p))"
    and acked: "acked \<longleftrightarrow> ip_TCPFlags p AND 0x10 \<noteq> 0"
  shows "\<exists>r. makeTCPReset p = Ok (Some r) \<and>
    parseIPPacket r = Ok \<lparr>ip_Bytes = r, ip_Source = s1, ip_Destination = d1, ip_Protocol = ProtoTCP,
      ip_TCPFlags = (if acked then 0x04 else 0x14),
      ip_TCPSequence = (if acked then ip_TCPAck p else 0),
      ip_TCPAck = (if acked then 0 else ip_TCPSequence p + word_of_nat (length (ip_Payload p)) +
        (if ip_TCPFlags p AND 0x02 \<noteq> 0 then 1 else 0) + (if ip_TCPFlags p AND 0x01 \<noteq> 0 then 1 else 0)),
      ip_TransportOffset = header_length (pt_Addr s1), ip_Payload = []\<rparr> \<and>
    checksums_ok ProtoTCP (header_length (pt_Addr s1)) r"
proof -
  let ?i = "header_length (pt_Addr s1)"
  let ?h = "network_header (pt_Addr s1) (pt_Addr d1) (snd (checksum_place ProtoTCP)) 20"
  obtain flags sq ack where f: "reset_fields p = (flags, sq, ack)" by (cases "reset_fields p")
  have fields: "flags = (if acked then 0x04 else 0x14)" "sq = (if acked then ip_TCPAck p else 0)"
    "ack = (if acked then 0 else ip_TCPSequence p + word_of_nat (length (ip_Payload p)) +
        (if ip_TCPFlags p AND 0x02 \<noteq> 0 then 1 else 0) + (if ip_TCPFlags p AND 0x01 \<noteq> 0 then 1 else 0))"
    using f by (auto simp: reset_fields_def acked split: if_splits)
  obtain q where q: "newTransportPacket (ip_Destination p) (ip_Source p) ProtoTCP 20 = Ok q" "ip_Protocol q = ProtoTCP"
    "ip_TransportOffset q = ?i" "ip_Bytes q = ?h @ write_ports 0 (pt_Port s1) (pt_Port d1) (replicate 20 0)"
    using new_packet [OF pair wf, of ProtoTCP 20] by auto
  have pr: "addr_pair (pt_Addr s1) (pt_Addr d1) (Is4 (pt_Addr s1))" by (rule packetEndpointPair_pair [OF pair wf])
  have lh: "length ?h = ?i" by (rule length_network_header [OF pr])
  let ?body = "put_u16 (pt_Port s1) @ put_u16 (pt_Port d1) @ put_u32 sq @ put_u32 ack @ [80, flags, 0, 0, 0, 0, 0, 0]"
  let ?q = "q\<lparr>ip_Bytes := ?h @ ?body\<rparr>"
  have bytes: "put_at (?i + 8) (put_u32 ack) (put_at (?i + 4) (put_u32 sq) (put_at (?i + 12) [80, flags] (ip_Bytes q))) = ?h @ ?body"
    unfolding q(4) lh [symmetric] put_at_append tcp_body ..
  have made: "makeTCPReset p = Ok (Some (repairPacketChecksums ?q))"
    unfolding bytes [symmetric] q(3) [symmetric] using packet q(1) f by (simp add: makeTCPReset_def Let_def)
  have u: "u32_at 4 ?body = sq" "u32_at 8 ?body = ack" by (simp_all add: u32_at_skip u32_at_0)
  have nth: "?body ! 12 = 80" "?body ! 13 = flags" by (simp_all add: nth_append)
  have dr: "drop 20 ?body = []" "slice 20 20 ?body = []" by (simp_all add: slice_def)
  have hl: "unat (80 :: byte) div 16 * 4 = 20" by simp
  have tr: "parse_transport (snd (checksum_place ProtoTCP)) ?body = Ok (ProtoTCP, flags, sq, ack, [])"
    unfolding parse_transport_def Let_def nth hl u dr validatePacketOptions_Nil by (simp add: checksum_place_def)
  show ?thesis unfolding made fields [symmetric]
    using synthesized_parses [OF pr refl _ _ _ _ tr, of 20 "pt_Port s1" "pt_Port d1" ?q] q
    by (simp add: u16_at_0 u16_at_skip)
qed

definition example_local :: addr_port where "example_local = \<lparr>pt_Addr = Addr6 ([0, 0, 0, 0, 0, 0, 0, 0, 0, 0, 0, 0, 0, 0, 0, 1]) [], pt_Port = 1234\<rparr>"
definition example_remote :: addr_port where "example_remote = \<lparr>pt_Addr = Addr6 ([0, 0, 0, 0, 0, 0, 0, 0, 0, 0, 0, 0, 0, 0, 0, 2]) [], pt_Port = 53\<rparr>"

lemma example_pair:
  "packetEndpointPair example_remote example_local = Ok (example_remote, example_local)"
  "addr_wf (pt_Addr example_local)" "addr_wf (pt_Addr example_remote)"
  by (simp_all add: packetEndpointPair_def addr_port_IsValid_def example_local_def example_remote_def Let_def
      mapped_prefix_def)

lemma udp_reply_parses_witness:
  "\<exists>r. makeUDPReply \<lparr>fk_Protocol = ProtoUDP, fk_Source = example_local, fk_Destination = example_remote\<rparr> [1, 2, 3] = Ok r \<and>
    checksums_ok ProtoUDP (header_length (pt_Addr example_remote)) r"
  using udp_reply_parses [of "\<lparr>fk_Protocol = ProtoUDP, fk_Source = example_local, fk_Destination = example_remote\<rparr>" "[1, 2, 3]"
      example_remote example_local] example_pair
  by (auto simp: maxUDPPayload_def)

definition example_syn :: ip_packet where
  "example_syn = \<lparr>ip_Bytes = [], ip_Source = example_local, ip_Destination = example_remote, ip_Protocol = ProtoTCP, ip_TCPFlags = 2,
     ip_TCPSequence = 41, ip_TCPAck = 0, ip_TransportOffset = 40, ip_Payload = []\<rparr>"

lemma tcp_reset_parses_witness:
  "\<exists>r p. makeTCPReset example_syn = Ok (Some r) \<and> parseIPPacket r = Ok p \<and> ip_TCPFlags p = 0x14 \<and> ip_TCPAck p = 42"
  using tcp_reset_parses [of example_syn example_remote example_local False] example_pair
  by (auto simp: example_syn_def)

end
