(* ===== verification/Session_Manager.thy ===== *)
theory Session_Manager
  imports Go_Strings "HOL-Library.AList"
begin

text \<open>
  \<open>server/session/manager.go\<close>: the registry of connected devices. A session is a pointer into a heap of records; the
  registry keeps it by device and, while it serves as an exit, in three more indexes. Maps are association lists
  without duplicate keys, whose order stands for Go's unspecified one. Notifications and tunnel closes, which the code
  performs after the locks are released, are recorded in the order of one operation. JSON validity of diagnostics is a
  parameter.
\<close>

section \<open>Sessions\<close>

definition CapabilityProxyExit :: string where "CapabilityProxyExit = ''proxy.exit''"
definition CapabilityProxyClient :: string where "CapabilityProxyClient = ''proxy.client''"

record device_battery =
  bt_Level :: int
  bt_Charging :: bool
  bt_ReceivedAt :: int

record battery_status =
  bs_Level :: int
  bs_Charging :: bool

record device_diagnostics =
  dg_ReceivedAt :: int
  dg_Payload :: "byte list"
  dg_Active :: bool

record device_session =
  ds_SessionID :: string
  ds_DeviceID :: string
  ds_DeviceName :: string
  ds_Fingerprint :: string
  ds_OwnerUserID :: string
  ds_IdentityID :: string
  ds_IdentityName :: string
  ds_PolicyRevision :: int
  ds_Mode :: string
  ds_Capabilities :: "string list"
  ds_Grants :: "string list"
  ds_RuntimeCapabilities :: "string list option"
  ds_Transport :: string
  ds_Tunnel :: "nat option"
  ds_LastHeartbeat :: int
  ds_Diagnostics :: "device_diagnostics option"
  ds_Battery :: "device_battery option"

type_synonym sessions = "(string \<times> nat) list"
type_synonym buckets = "(string \<times> sessions) list"

record manager =
  mg_heap :: "nat \<Rightarrow> device_session"
  mg_sessions :: sessions
  mg_exits :: sessions
  mg_exitsByOwner :: buckets
  mg_exitsByIdentity :: buckets
  mg_notifier :: bool
  mg_notified :: "string list"
  mg_closed :: "nat list"

definition IsExit :: "device_session \<Rightarrow> bool" where
  "IsExit s \<longleftrightarrow> CapabilityProxyExit \<in> set (case ds_RuntimeCapabilities s of Some cs \<Rightarrow> cs | None \<Rightarrow> ds_Grants s)"

definition battery_Valid :: "battery_status \<Rightarrow> bool" where
  "battery_Valid b \<longleftrightarrow> bs_Level b \<ge> 0 \<and> bs_Level b \<le> 100"

definition SetBatteryStatus :: "int \<Rightarrow> battery_status option \<Rightarrow> device_session \<Rightarrow> device_session" where
  "SetBatteryStatus now battery s =
     (case battery of
        None \<Rightarrow> s
      | Some b \<Rightarrow> if \<not> battery_Valid b then s
                  else s\<lparr>ds_Battery := Some \<lparr>bt_Level = bs_Level b, bt_Charging = bs_Charging b, bt_ReceivedAt = now\<rparr>\<rparr>)"

definition BatterySnapshot :: "device_session option \<Rightarrow> device_battery option" where
  "BatterySnapshot s = (case s of None \<Rightarrow> None | Some d \<Rightarrow> ds_Battery d)"

text \<open>\<open>json_valid\<close> is \<open>json.Valid\<close> and \<open>counts\<close> what \<open>diagnosticPayloadActive\<close> decodes: active streams, connections, exit TCP streams.\<close>

definition diagnosticPayloadActive :: "(byte list \<Rightarrow> (int \<times> nat \<times> nat option) option) \<Rightarrow> byte list \<Rightarrow> bool" where
  "diagnosticPayloadActive counts payload =
     (case counts payload of
        None \<Rightarrow> False
      | Some (streams, connections, exit) \<Rightarrow>
          streams > 0 \<or> connections > 0 \<or> (case exit of None \<Rightarrow> False | Some n \<Rightarrow> n > 0))"

definition SetDiagnostics ::
    "(byte list \<Rightarrow> bool) \<Rightarrow> (byte list \<Rightarrow> (int \<times> nat \<times> nat option) option) \<Rightarrow> int \<Rightarrow> byte list \<Rightarrow> device_session \<Rightarrow> device_session" where
  "SetDiagnostics json_valid counts now payload s =
     (if payload = [] \<or> length payload > 256 * 1024 \<or> \<not> json_valid payload then s
      else s\<lparr>ds_Diagnostics := Some \<lparr>dg_ReceivedAt = now, dg_Payload = payload, dg_Active = diagnosticPayloadActive counts payload\<rparr>\<rparr>)"

definition TouchHeartbeat :: "int \<Rightarrow> device_session \<Rightarrow> device_session" where
  "TouchHeartbeat now s = s\<lparr>ds_LastHeartbeat := now\<rparr>"

section \<open>Indexes\<close>

definition bucket :: "string \<Rightarrow> buckets \<Rightarrow> sessions" where
  "bucket k idx = (case map_of idx k of None \<Rightarrow> [] | Some b \<Rightarrow> b)"

definition bucket_put :: "string \<Rightarrow> string \<Rightarrow> nat \<Rightarrow> buckets \<Rightarrow> buckets" where
  "bucket_put k d s idx = (if k \<noteq> [] then AList.update k (AList.update d s (bucket k idx)) idx else idx)"

definition bucket_remove :: "string \<Rightarrow> string \<Rightarrow> buckets \<Rightarrow> buckets" where
  "bucket_remove k d idx =
     (if k = [] then idx
      else (case map_of idx k of
          None \<Rightarrow> idx
        | Some b \<Rightarrow>
          let b1 = AList.delete d b in
          if b1 = [] then AList.delete k idx else AList.update k b1 idx))"

definition indexExitLocked :: "nat \<Rightarrow> manager \<Rightarrow> manager" where
  "indexExitLocked p m =
     (let s = mg_heap m p in
      if \<not> IsExit s then m
      else m\<lparr>mg_exits := AList.update (ds_DeviceID s) p (mg_exits m),
             mg_exitsByOwner := bucket_put (ds_OwnerUserID s) (ds_DeviceID s) p (mg_exitsByOwner m),
             mg_exitsByIdentity := bucket_put (ds_IdentityID s) (ds_DeviceID s) p (mg_exitsByIdentity m)\<rparr>)"

definition unindexExitLocked :: "nat \<Rightarrow> manager \<Rightarrow> manager" where
  "unindexExitLocked p m =
     (let s = mg_heap m p in
      m\<lparr>mg_exits := AList.delete (ds_DeviceID s) (mg_exits m),
        mg_exitsByOwner := bucket_remove (ds_OwnerUserID s) (ds_DeviceID s) (mg_exitsByOwner m),
        mg_exitsByIdentity := bucket_remove (ds_IdentityID s) (ds_DeviceID s) (mg_exitsByIdentity m)\<rparr>)"

definition removeLocked :: "string \<Rightarrow> manager \<Rightarrow> nat option \<times> manager" where
  "removeLocked d m =
     (case map_of (mg_sessions m) d of
        None \<Rightarrow> (None, m)
      | Some p \<Rightarrow> (Some p, unindexExitLocked p (m\<lparr>mg_sessions := AList.delete d (mg_sessions m)\<rparr>)))"

section \<open>Operations\<close>

definition NewManager :: "(nat \<Rightarrow> device_session) \<Rightarrow> manager" where
  "NewManager heap = \<lparr>mg_heap = heap, mg_sessions = [], mg_exits = [], mg_exitsByOwner = [], mg_exitsByIdentity = [],
     mg_notifier = False, mg_notified = [], mg_closed = []\<rparr>"

definition SetPresenceNotifier :: "bool \<Rightarrow> manager \<Rightarrow> manager" where
  "SetPresenceNotifier f m = m\<lparr>mg_notifier := f\<rparr>"

definition notifyPresence :: "string \<Rightarrow> manager \<Rightarrow> manager" where
  "notifyPresence i m = (if mg_notifier m then m\<lparr>mg_notified := mg_notified m @ [i]\<rparr> else m)"

definition close_tunnel :: "nat option \<Rightarrow> manager \<Rightarrow> manager" where
  "close_tunnel t m = (case t of None \<Rightarrow> m | Some u \<Rightarrow> m\<lparr>mg_closed := mg_closed m @ [u]\<rparr>)"

text \<open>The session \<open>p\<close> replaces the one of its device, whose tunnel is returned.\<close>

definition mg_register :: "int \<Rightarrow> nat \<Rightarrow> manager \<Rightarrow> nat option \<times> manager" where
  "mg_register now p m =
     (let d = ds_DeviceID (mg_heap m p);
          (old, m1) = (case map_of (mg_sessions m) d of
              None \<Rightarrow> (None, m)
            | Some q \<Rightarrow> (ds_Tunnel (mg_heap m q), unindexExitLocked q m));
          m2 = m1\<lparr>mg_heap := (mg_heap m1)(p := TouchHeartbeat now (mg_heap m1 p))\<rparr>;
          m3 = m2\<lparr>mg_sessions := AList.update d p (mg_sessions m2)\<rparr>
      in (old, indexExitLocked p m3))"

definition mg_Register :: "int \<Rightarrow> nat \<Rightarrow> manager \<Rightarrow> manager" where
  "mg_Register now p m =
     (let (old, m1) = mg_register now p m in close_tunnel old (notifyPresence (ds_IdentityID (mg_heap m p)) m1))"

text \<open>\<open>verified\<close> is what the recheck returns under the authorization gate.\<close>

definition RegisterAuthenticated :: "int \<Rightarrow> bool \<Rightarrow> nat \<Rightarrow> manager \<Rightarrow> bool \<times> manager" where
  "RegisterAuthenticated now verified p m = (if \<not> verified then (False, m) else (True, mg_Register now p m))"

text \<open>The change of the approval itself happens under the gate as well; here it has succeeded.\<close>

definition change_sessions :: "string \<Rightarrow> bool \<Rightarrow> manager \<Rightarrow> manager" where
  "change_sessions d revoke m =
     (if \<not> revoke then m
      else (case removeLocked d m of
          (None, m1) \<Rightarrow> m1
        | (Some p, m1) \<Rightarrow>
          let s = mg_heap m p;
              m2 = (if ds_IdentityID s \<noteq> [] then notifyPresence (ds_IdentityID s) m1 else m1)
          in close_tunnel (ds_Tunnel s) m2))"

definition ChangeDeviceAuthorization ::
    "string \<Rightarrow> bool \<Rightarrow> ('db \<Rightarrow> 'e + 'db) \<Rightarrow> 'db \<times> manager \<Rightarrow> 'e option \<times> 'db \<times> manager" where
  "ChangeDeviceAuthorization d revoke change s =
     (case change (fst s) of
        Err e \<Rightarrow> (Some e, s)
      | Ok db1 \<Rightarrow> (None, db1, change_sessions d revoke (snd s)))"

definition InvalidateIdentity :: "string \<Rightarrow> manager \<Rightarrow> string list \<times> manager" where
  "InvalidateIdentity i m =
     (if i = [] then ([], m)
      else
        let gone = filter (\<lambda>(d, p). ds_IdentityID (mg_heap m p) = i) (mg_sessions m);
            m1 = fold (\<lambda>(d, p) x. snd (removeLocked d x)) gone m;
            m2 = (if gone \<noteq> [] then notifyPresence i m1 else m1)
        in (map fst gone, fold (\<lambda>(d, p) x. close_tunnel (ds_Tunnel (mg_heap m p)) x) gone m2))"

definition UnregisterSession :: "nat option \<Rightarrow> manager \<Rightarrow> bool \<times> manager" where
  "UnregisterSession sess m =
     (case sess of
        None \<Rightarrow> (False, m)
      | Some p \<Rightarrow>
        let s = mg_heap m p in
        if map_of (mg_sessions m) (ds_DeviceID s) = Some p
        then (True, close_tunnel (ds_Tunnel s) (notifyPresence (ds_IdentityID s) (snd (removeLocked (ds_DeviceID s) m))))
        else (False, m))"

definition Unregister :: "string \<Rightarrow> manager \<Rightarrow> manager" where
  "Unregister d m =
     (case removeLocked d m of
        (None, m1) \<Rightarrow> m1
      | (Some p, m1) \<Rightarrow>
        let s = mg_heap m p;
            m2 = (if ds_IdentityID s \<noteq> [] then notifyPresence (ds_IdentityID s) m1 else m1)
        in close_tunnel (ds_Tunnel s) m2)"

definition ReapStaleSessions :: "int \<Rightarrow> manager \<Rightarrow> manager" where
  "ReapStaleSessions threshold m =
     (let gone = filter (\<lambda>(d, p). ds_LastHeartbeat (mg_heap m p) < threshold) (mg_sessions m);
          changed = remdups (map (\<lambda>(d, p). ds_IdentityID (mg_heap m p)) gone);
          m1 = fold (\<lambda>(d, p) x. snd (removeLocked d x)) gone m;
          m2 = fold notifyPresence changed m1
      in fold (\<lambda>(d, p) x. close_tunnel (ds_Tunnel (mg_heap m p)) x) gone m2)"

definition CloseAll :: "manager \<Rightarrow> manager" where
  "CloseAll m =
     fold (\<lambda>(d, p) x. close_tunnel (ds_Tunnel (mg_heap m p)) x) (mg_sessions m)
       (m\<lparr>mg_sessions := [], mg_exits := [], mg_exitsByOwner := [], mg_exitsByIdentity := []\<rparr>)"

text \<open>The control channel writes into a session it holds, registered or not.\<close>

definition touch_session :: "nat \<Rightarrow> (device_session \<Rightarrow> device_session) \<Rightarrow> manager \<Rightarrow> manager" where
  "touch_session p f m = m\<lparr>mg_heap := (mg_heap m)(p := f (mg_heap m p))\<rparr>"

section \<open>Queries\<close>

definition mg_Get :: "string \<Rightarrow> manager \<Rightarrow> nat option" where "mg_Get d m = map_of (mg_sessions m) d"
definition mg_List :: "manager \<Rightarrow> nat list" where "mg_List m = map snd (mg_sessions m)"
definition GetExits :: "manager \<Rightarrow> nat list" where "GetExits m = map snd (mg_exits m)"

definition GetExitsForOwner :: "string \<Rightarrow> manager \<Rightarrow> nat list" where
  "GetExitsForOwner u m = map snd (if u = [] then mg_exits m else bucket u (mg_exitsByOwner m))"

definition GetExitsForIdentity :: "string \<Rightarrow> manager \<Rightarrow> nat list" where
  "GetExitsForIdentity i m = (if i = [] then [] else map snd (bucket i (mg_exitsByIdentity m)))"

definition UniqueExitForOwner :: "string \<Rightarrow> manager \<Rightarrow> nat option \<times> nat" where
  "UniqueExitForOwner u m =
     (let b = (if u = [] then mg_exits m else bucket u (mg_exitsByOwner m)) in
      if length b \<noteq> 1 then (None, length b) else (Some (snd (hd b)), 1))"

record exit_node_info =
  xi_DeviceID :: string
  xi_DeviceName :: string
  xi_Transport :: string
  xi_Online :: bool

definition GetExitNodesInfo :: "manager \<Rightarrow> exit_node_info list" where
  "GetExitNodesInfo m =
     map (\<lambda>p. \<lparr>xi_DeviceID = ds_DeviceID (mg_heap m p), xi_DeviceName = ds_DeviceName (mg_heap m p),
              xi_Transport = ds_Transport (mg_heap m p), xi_Online = True\<rparr>) (GetExits m)"

section \<open>The indexes against the sessions\<close>

lemma map_of_AList_update [simp]: "map_of (AList.update k v al) x = (if x = k then Some v else map_of al x)"
  by (simp add: update_conv')

lemma map_of_AList_delete [simp]: "map_of (AList.delete k al) x = (if x = k then None else map_of al x)"
  by (simp add: delete_conv')

lemma AList_update_ne [simp]: "AList.update k v al \<noteq> []"
  by (cases al) auto

text \<open>A bucket index holds the entries of the map \<open>sv\<close> whose key is not empty, grouped by key, without empty groups.\<close>

definition bucket_ok :: "(nat \<Rightarrow> string) \<Rightarrow> (string \<Rightarrow> nat option) \<Rightarrow> buckets \<Rightarrow> bool" where
  "bucket_ok key sv idx \<longleftrightarrow>
     (\<forall>k d. map_of (bucket k idx) d = (case sv d of None \<Rightarrow> None | Some p \<Rightarrow> if k \<noteq> [] \<and> key p = k then Some p else None)) \<and>
     (\<forall>k b. map_of idx k = Some b \<longrightarrow> b \<noteq> [] \<and> distinct (map fst b))"

lemma bucket_distinct: "bucket_ok key sv idx \<Longrightarrow> distinct (map fst (bucket k idx))"
  by (auto simp: bucket_ok_def bucket_def split: option.splits)

lemma bucket_put_lookup:
  "map_of (bucket k (bucket_put k' d p idx)) x = (if k' \<noteq> [] \<and> k = k' \<and> x = d then Some p else map_of (bucket k idx) x)"
  by (auto simp: bucket_put_def bucket_def split: option.splits)

lemma bucket_remove_lookup:
  "map_of (bucket k (bucket_remove k' d idx)) x = (if k' \<noteq> [] \<and> k = k' \<and> x = d then None else map_of (bucket k idx) x)"
proof (cases "k' \<noteq> [] \<and> k = k'")
  case True
  then show ?thesis
  proof (cases "map_of idx k'")
    case None
    then show ?thesis using True by (simp add: bucket_remove_def bucket_def)
  next
    case (Some b)
    show ?thesis
    proof (cases "AList.delete d b = []")
      case empty: True
      have "map_of (AList.delete d b) x = None" unfolding empty by simp
      then have "x = d \<or> map_of b x = None" by (simp split: if_splits)
      then show ?thesis using True Some empty by (auto simp: bucket_remove_def bucket_def)
    next
      case False
      then show ?thesis using True Some by (simp add: bucket_remove_def bucket_def Let_def)
    qed
  qed
next
  case False
  then show ?thesis by (auto simp: bucket_remove_def bucket_def Let_def split: option.splits)
qed

lemma bucket_put_ok:
  assumes "bucket_ok key sv idx" "sv d = None"
  shows "bucket_ok key (sv(d \<mapsto> p)) (bucket_put (key p) d p idx)"
proof -
  have "distinct (map fst (bucket (key p) idx))" by (rule bucket_distinct [OF assms(1)])
  then have "b \<noteq> [] \<and> distinct (map fst b)" if "map_of (bucket_put (key p) d p idx) k = Some b" for k b
    using that assms(1) by (auto simp: bucket_put_def bucket_ok_def distinct_update split: if_splits)
  then show ?thesis using assms by (auto simp: bucket_ok_def bucket_put_lookup split: option.splits)
qed

lemma bucket_remove_ok:
  assumes "bucket_ok key sv idx" "sv d = None \<or> sv d = Some p"
  shows "bucket_ok key (sv(d := None)) (bucket_remove (key p) d idx)"
proof -
  have "b \<noteq> [] \<and> distinct (map fst b)" if "map_of (bucket_remove (key p) d idx) k = Some b" for k b
    using that assms(1) by (auto simp: bucket_remove_def bucket_ok_def Let_def distinct_delete split: if_splits option.splits)
  then show ?thesis using assms by (auto simp: bucket_ok_def bucket_remove_lookup split: option.splits)
qed

definition tables_ok :: "(string \<Rightarrow> nat option) \<Rightarrow> manager \<Rightarrow> bool" where
  "tables_ok sv m \<longleftrightarrow> distinct (map fst (mg_exits m)) \<and> map_of (mg_exits m) = sv \<and>
     bucket_ok (\<lambda>p. ds_OwnerUserID (mg_heap m p)) sv (mg_exitsByOwner m) \<and>
     bucket_ok (\<lambda>p. ds_IdentityID (mg_heap m p)) sv (mg_exitsByIdentity m)"

lemma unindex_ok:
  assumes "tables_ok sv m" "ds_DeviceID (mg_heap m p) = d" "sv d = None \<or> sv d = Some p"
  shows "tables_ok (sv(d := None)) (unindexExitLocked p m)"
  using assms bucket_remove_ok [where sv = sv and d = d and p = p and key = "\<lambda>p. ds_OwnerUserID (mg_heap m p)"]
    bucket_remove_ok [where sv = sv and d = d and p = p and key = "\<lambda>p. ds_IdentityID (mg_heap m p)"]
  by (auto simp: tables_ok_def unindexExitLocked_def Let_def distinct_delete)

lemma index_ok:
  assumes "tables_ok sv m" "ds_DeviceID (mg_heap m p) = d" "sv d = None"
  shows "tables_ok (sv(d := (if IsExit (mg_heap m p) then Some p else None))) (indexExitLocked p m)"
proof (cases "IsExit (mg_heap m p)")
  case True
  then show ?thesis
    using assms bucket_put_ok [where sv = sv and d = d and p = p and key = "\<lambda>p. ds_OwnerUserID (mg_heap m p)"]
      bucket_put_ok [where sv = sv and d = d and p = p and key = "\<lambda>p. ds_IdentityID (mg_heap m p)"]
    by (auto simp: tables_ok_def indexExitLocked_def Let_def distinct_update)
next
  case False
  have "sv(d := None) = sv" using assms(3) by (simp add: fun_upd_idem)
  then show ?thesis using assms False by (simp add: indexExitLocked_def)
qed

text \<open>The exits among the registered sessions.\<close>

definition served :: "manager \<Rightarrow> string \<Rightarrow> nat option" where
  "served m d = (case map_of (mg_sessions m) d of None \<Rightarrow> None | Some p \<Rightarrow> if IsExit (mg_heap m p) then Some p else None)"

definition manager_ok :: "manager \<Rightarrow> bool" where
  "manager_ok m \<longleftrightarrow> distinct (map fst (mg_sessions m)) \<and>
     (\<forall>d p. map_of (mg_sessions m) d = Some p \<longrightarrow> ds_DeviceID (mg_heap m p) = d) \<and> tables_ok (served m) m"

text \<open>Writes that leave the fields the registry reads alone.\<close>

definition keeps_session :: "(device_session \<Rightarrow> device_session) \<Rightarrow> bool" where
  "keeps_session f \<longleftrightarrow> (\<forall>s. ds_DeviceID (f s) = ds_DeviceID s \<and> ds_OwnerUserID (f s) = ds_OwnerUserID s \<and>
     ds_IdentityID (f s) = ds_IdentityID s \<and> IsExit (f s) = IsExit s \<and> ds_Fingerprint (f s) = ds_Fingerprint s \<and>
     ds_Grants (f s) = ds_Grants s)"

lemma keeps_session_setters:
  "keeps_session (TouchHeartbeat now)" "keeps_session (SetBatteryStatus now b)" "keeps_session (SetDiagnostics jv ct now pl)"
  by (simp_all add: keeps_session_def TouchHeartbeat_def SetBatteryStatus_def SetDiagnostics_def IsExit_def split: option.splits)

lemma unindex_fields [simp]:
  "mg_heap (unindexExitLocked p m) = mg_heap m" "mg_sessions (unindexExitLocked p m) = mg_sessions m"
  "mg_heap (indexExitLocked p m) = mg_heap m" "mg_sessions (indexExitLocked p m) = mg_sessions m"
  "mg_notified (indexExitLocked p m) = mg_notified m" "mg_closed (indexExitLocked p m) = mg_closed m"
  by (simp_all add: unindexExitLocked_def indexExitLocked_def Let_def)

lemma manager_ok_frame:
  assumes "manager_ok m" "mg_heap m' = mg_heap m" "mg_sessions m' = mg_sessions m" "mg_exits m' = mg_exits m"
    "mg_exitsByOwner m' = mg_exitsByOwner m" "mg_exitsByIdentity m' = mg_exitsByIdentity m"
  shows "manager_ok m'"
proof -
  have "served m' = served m" by (rule ext) (simp add: served_def assms(2,3) split: option.split)
  then show ?thesis using assms by (simp add: manager_ok_def tables_ok_def)
qed

lemma notify_ok [simp]: "manager_ok (notifyPresence i m) = manager_ok m"
  using manager_ok_frame [of m "notifyPresence i m"] manager_ok_frame [of "notifyPresence i m" m]
  by (auto simp: notifyPresence_def)

lemma close_ok [simp]: "manager_ok (close_tunnel t m) = manager_ok m"
  using manager_ok_frame [of m "close_tunnel t m"] manager_ok_frame [of "close_tunnel t m" m]
  by (auto simp: close_tunnel_def split: option.splits)

lemma touch_ok:
  assumes "manager_ok m" "keeps_session f"
  shows "manager_ok (touch_session p f m)"
proof -
  have k: "ds_DeviceID (mg_heap (touch_session p f m) q) = ds_DeviceID (mg_heap m q)"
    "ds_OwnerUserID (mg_heap (touch_session p f m) q) = ds_OwnerUserID (mg_heap m q)"
    "ds_IdentityID (mg_heap (touch_session p f m) q) = ds_IdentityID (mg_heap m q)"
    "IsExit (mg_heap (touch_session p f m) q) = IsExit (mg_heap m q)" for q
    using assms(2) by (simp_all add: keeps_session_def touch_session_def)
  have s: "served (touch_session p f m) = served m"
  proof
    fix d
    have "mg_sessions (touch_session p f m) = mg_sessions m" by (simp add: touch_session_def)
    then show "served (touch_session p f m) d = served m d" by (simp only: served_def k)
  qed
  have f: "mg_sessions (touch_session p f m) = mg_sessions m" "mg_exits (touch_session p f m) = mg_exits m"
    "mg_exitsByOwner (touch_session p f m) = mg_exitsByOwner m" "mg_exitsByIdentity (touch_session p f m) = mg_exitsByIdentity m"
    by (simp_all add: touch_session_def)
  show ?thesis using assms(1) unfolding manager_ok_def tables_ok_def s f k .
qed

lemma served_device: "manager_ok m \<Longrightarrow> map_of (mg_sessions m) d = Some p \<Longrightarrow> ds_DeviceID (mg_heap m p) = d"
  by (simp add: manager_ok_def)

lemma remove_ok:
  assumes "manager_ok m"
  shows "manager_ok (snd (removeLocked d m))" and "map_of (mg_sessions (snd (removeLocked d m))) = (map_of (mg_sessions m))(d := None)"
    and "mg_heap (snd (removeLocked d m)) = mg_heap m"
proof -
  show h: "mg_heap (snd (removeLocked d m)) = mg_heap m"
    by (simp add: removeLocked_def split: option.split)
  show l: "map_of (mg_sessions (snd (removeLocked d m))) = (map_of (mg_sessions m))(d := None)"
    by (rule ext) (simp add: removeLocked_def split: option.split)
  show "manager_ok (snd (removeLocked d m))"
  proof (cases "map_of (mg_sessions m) d")
    case None
    then show ?thesis using assms by (simp add: removeLocked_def)
  next
    case (Some p)
    let ?m1 = "m\<lparr>mg_sessions := AList.delete d (mg_sessions m)\<rparr>"
    let ?m2 = "unindexExitLocked p ?m1"
    have r: "snd (removeLocked d m) = ?m2" using Some by (simp add: removeLocked_def)
    have dev: "ds_DeviceID (mg_heap m p) = d" by (rule served_device [OF assms Some])
    have "tables_ok (served m) ?m1" using assms by (simp add: manager_ok_def tables_ok_def)
    moreover have "served m d = None \<or> served m d = Some p" using Some by (simp add: served_def)
    ultimately have "tables_ok ((served m)(d := None)) ?m2" using dev by (intro unindex_ok) simp_all
    moreover have "served ?m2 = (served m)(d := None)"
      by (rule ext) (simp add: served_def split: option.split)
    ultimately show ?thesis
      using assms unfolding r manager_ok_def by (simp add: distinct_delete)
  qed
qed

lemma register_ok:
  assumes "manager_ok m"
  shows "manager_ok (snd (mg_register now p m))"
    and "map_of (mg_sessions (snd (mg_register now p m))) = (map_of (mg_sessions m))(ds_DeviceID (mg_heap m p) \<mapsto> p)"
    and "mg_heap (snd (mg_register now p m)) = (mg_heap m)(p := TouchHeartbeat now (mg_heap m p))"
proof -
  define d where "d = ds_DeviceID (mg_heap m p)"
  define m1 where "m1 = (case map_of (mg_sessions m) d of None \<Rightarrow> m | Some q \<Rightarrow> unindexExitLocked q m)"
  define m2 where "m2 = touch_session p (TouchHeartbeat now) m1"
  define m3 where "m3 = m2\<lparr>mg_sessions := AList.update d p (mg_sessions m2)\<rparr>"
  have m1f: "mg_heap m1 = mg_heap m" "mg_sessions m1 = mg_sessions m" by (simp_all add: m1_def split: option.split)
  have r: "snd (mg_register now p m) = indexExitLocked p m3"
    by (simp add: mg_register_def Let_def m3_def m2_def m1_def touch_session_def d_def split: option.split)
  have k: "ds_DeviceID (mg_heap m3 q) = ds_DeviceID (mg_heap m q)" "ds_OwnerUserID (mg_heap m3 q) = ds_OwnerUserID (mg_heap m q)"
    "ds_IdentityID (mg_heap m3 q) = ds_IdentityID (mg_heap m q)" "IsExit (mg_heap m3 q) = IsExit (mg_heap m q)" for q
    using keeps_session_setters(1) [of now] by (simp_all add: m3_def m2_def touch_session_def m1f keeps_session_def)
  have t1: "tables_ok ((served m)(d := None)) m1"
  proof (cases "map_of (mg_sessions m) d")
    case None
    then have "(served m)(d := None) = served m" by (intro fun_upd_idem) (simp add: served_def)
    then show ?thesis using assms None by (simp add: m1_def manager_ok_def)
  next
    case (Some q)
    then have "served m d = None \<or> served m d = Some q" by (simp add: served_def)
    then show ?thesis using assms Some served_device [OF assms Some] by (simp add: m1_def manager_ok_def unindex_ok)
  qed
  have t3: "tables_ok ((served m)(d := None)) m3"
    using t1 unfolding tables_ok_def k by (simp add: m3_def m2_def touch_session_def m1f)
  have t4: "tables_ok ((served m)(d := None, d := (if IsExit (mg_heap m3 p) then Some p else None))) (indexExitLocked p m3)"
    by (rule index_ok [OF t3]) (simp_all add: k d_def)
  show h: "mg_heap (snd (mg_register now p m)) = (mg_heap m)(p := TouchHeartbeat now (mg_heap m p))"
    unfolding r by (simp add: m3_def m2_def touch_session_def m1f)
  have s3: "mg_sessions m3 = AList.update d p (mg_sessions m)" by (simp add: m3_def m2_def touch_session_def m1f)
  show l: "map_of (mg_sessions (snd (mg_register now p m))) = (map_of (mg_sessions m))(ds_DeviceID (mg_heap m p) \<mapsto> p)"
    unfolding r d_def [symmetric] by (rule ext) (simp add: s3)
  have "served (indexExitLocked p m3) = (served m)(d := None, d := (if IsExit (mg_heap m3 p) then Some p else None))"
    by (rule ext) (simp add: served_def s3 k split: option.split)
  then show "manager_ok (snd (mg_register now p m))"
    using assms t4 unfolding r manager_ok_def
    by (auto simp: s3 k distinct_update d_def split: if_splits)
qed

lemma fold_remove_ok:
  assumes "manager_ok m"
  shows "manager_ok (fold (\<lambda>(d, p) x. snd (removeLocked d x)) gone m) \<and>
    map_of (mg_sessions (fold (\<lambda>(d, p) x. snd (removeLocked d x)) gone m)) = (\<lambda>d. if d \<in> fst ` set gone then None else map_of (mg_sessions m) d) \<and>
    mg_heap (fold (\<lambda>(d, p) x. snd (removeLocked d x)) gone m) = mg_heap m"
  using assms
proof (induction gone arbitrary: m)
  case (Cons g gone)
  obtain d p where g: "g = (d, p)" by force
  note r = remove_ok [OF Cons.prems, of d]
  from Cons.IH [OF r(1)] show ?case by (auto simp: g r(2,3) fun_eq_iff)
qed simp

lemma fold_close_ok [simp]: "manager_ok (fold (\<lambda>(d, p) x. close_tunnel (t d p) x) gone m) = manager_ok m"
  by (induction gone arbitrary: m) (auto split: prod.splits)

lemma fold_notify_ok [simp]: "manager_ok (fold notifyPresence ids m) = manager_ok m"
  by (induction ids arbitrary: m) auto

section \<open>Reachable registries\<close>

inductive mgr_step :: "manager \<Rightarrow> manager \<Rightarrow> bool" where
  "mgr_step m (mg_Register now p m)"
| "mgr_step m (snd (RegisterAuthenticated now verified p m))"
| "mgr_step m (change_sessions d revoke m)"
| "mgr_step m (snd (InvalidateIdentity i m))"
| "mgr_step m (snd (UnregisterSession sess m))"
| "mgr_step m (Unregister d m)"
| "mgr_step m (ReapStaleSessions threshold m)"
| "mgr_step m (CloseAll m)"
| "mgr_step m (SetPresenceNotifier f m)"
| "mgr_step m (touch_session p (TouchHeartbeat now) m)"
| "mgr_step m (touch_session p (SetBatteryStatus now b) m)"
| "mgr_step m (touch_session p (SetDiagnostics jv ct now pl) m)"
| "p \<notin> snd ` set (mg_sessions m) \<Longrightarrow> mgr_step m (m\<lparr>mg_heap := (mg_heap m)(p := s)\<rparr>)"

inductive mgr_reach :: "manager \<Rightarrow> bool" where
  "mgr_reach (NewManager heap)"
| "mgr_reach m \<Longrightarrow> mgr_step m m' \<Longrightarrow> mgr_reach m'"

lemma Register_ok: "manager_ok m \<Longrightarrow> manager_ok (mg_Register now p m)"
  using register_ok(1) [of m now p] by (cases "mg_register now p m") (simp add: mg_Register_def)

lemma change_sessions_ok: "manager_ok m \<Longrightarrow> manager_ok (change_sessions d revoke m)"
  using remove_ok(1) [of m d] by (auto simp: change_sessions_def Let_def split: prod.split option.split)

lemma Unregister_ok: "manager_ok m \<Longrightarrow> manager_ok (Unregister d m)"
  using remove_ok(1) [of m d] by (auto simp: Unregister_def Let_def split: prod.split option.split)

lemma alloc_ok:
  assumes "manager_ok m" "p \<notin> snd ` set (mg_sessions m)"
  shows "manager_ok (m\<lparr>mg_heap := (mg_heap m)(p := s)\<rparr>)"
proof -
  let ?m = "m\<lparr>mg_heap := (mg_heap m)(p := s)\<rparr>"
  have np: "q \<noteq> p" if "map_of (mg_sessions m) d = Some q" for d q
    using that assms(2) by (metis image_eqI map_of_SomeD snd_conv)
  have sv: "served ?m = served m" by (rule ext) (use np in \<open>auto simp: served_def split: option.split\<close>)
  have np2: "q \<noteq> p" if "served m d = Some q" for d q
    using that np by (auto simp: served_def split: option.splits if_splits)
  have b: "bucket_ok (\<lambda>q. key (mg_heap ?m q)) (served m) idx = bucket_ok (\<lambda>q. key (mg_heap m q)) (served m) idx" for key :: "device_session \<Rightarrow> string" and idx
    unfolding bucket_ok_def by (intro arg_cong2 [of _ _ _ _ "(\<and>)"] refl iff_allI) (use np2 in \<open>auto split: option.splits\<close>)
  show ?thesis using assms(1) np unfolding manager_ok_def tables_ok_def sv b by auto
qed

lemma mgr_step_ok: "mgr_step m m' \<Longrightarrow> manager_ok m \<Longrightarrow> manager_ok m'"
proof (induction rule: mgr_step.induct)
  case (2 m now verified p)
  then show ?case by (simp add: RegisterAuthenticated_def Register_ok)
next
  case (4 m i)
  then show ?case 
    using fold_remove_ok [OF 4, of "filter (\<lambda>(d, p). ds_IdentityID (mg_heap m p) = i) (mg_sessions m)"]
    by (simp add: InvalidateIdentity_def Let_def)
next
  case (5 m sess)
  then show ?case using remove_ok(1) [OF 5] by (auto simp: UnregisterSession_def Let_def split: option.split)
next
  case (7 m threshold)
  then show ?case 
    using fold_remove_ok [OF 7, of "filter (\<lambda>(d, p). ds_LastHeartbeat (mg_heap m p) < threshold) (mg_sessions m)"]
    by (simp add: ReapStaleSessions_def Let_def)
next
  case (8 m)
  show ?case by (simp add: CloseAll_def) (simp add: manager_ok_def tables_ok_def bucket_ok_def bucket_def served_def fun_eq_iff)
next
  case (9 m f)
  then show ?case using manager_ok_frame [of m "SetPresenceNotifier f m"] by (simp add: SetPresenceNotifier_def)
qed (simp_all add: Register_ok change_sessions_ok Unregister_ok touch_ok keeps_session_setters alloc_ok)

lemma mgr_reach_ok: "mgr_reach m \<Longrightarrow> manager_ok m"
proof (induction rule: mgr_reach.induct)
  case (1 heap)
  show ?case by (simp add: NewManager_def manager_ok_def tables_ok_def bucket_ok_def bucket_def served_def fun_eq_iff)
qed (rule mgr_step_ok)

section \<open>What the queries see\<close>

lemma values_of:
  assumes "distinct (map fst al)"
  shows "set (map snd al) = {p. \<exists>d. map_of al d = Some p}"
  using ran_distinct [OF assms] by (simp add: ran_def)

lemma distinct_values:
  assumes "distinct (map fst al)" "\<And>d p. map_of al d = Some p \<Longrightarrow> g p = d"
  shows "distinct (map snd al)"
proof -
  have g: "fst x = g (snd x)" if "x \<in> set al" for x
    using that assms(2) map_of_is_SomeI [OF assms(1), of "fst x" "snd x"] by simp
  have "inj_on snd (set al)"
  proof (rule inj_onI)
    fix x y
    assume "x \<in> set al" "y \<in> set al" "snd x = snd y"
    then show "x = y" using g by (metis prod_eqI)
  qed
  then show ?thesis using assms(1) by (simp add: distinct_map)
qed

lemma served_iff: "served m d = Some p \<longleftrightarrow> mg_Get d m = Some p \<and> IsExit (mg_heap m p)"
  by (auto simp: served_def mg_Get_def split: option.splits if_splits)

lemma manager_facts:
  assumes "manager_ok m"
  shows "set (mg_List m) = {p. \<exists>d. mg_Get d m = Some p}" "distinct (mg_List m)"
    "set (GetExits m) = {p. \<exists>d. served m d = Some p}" "distinct (GetExits m)"
    "k \<noteq> [] \<Longrightarrow> set (map snd (bucket k (mg_exitsByOwner m))) = {p. \<exists>d. served m d = Some p \<and> ds_OwnerUserID (mg_heap m p) = k}"
    "k \<noteq> [] \<Longrightarrow> set (map snd (bucket k (mg_exitsByIdentity m))) = {p. \<exists>d. served m d = Some p \<and> ds_IdentityID (mg_heap m p) = k}"
proof -
  have t: "tables_ok (served m) m" and ds: "distinct (map fst (mg_sessions m))" using assms by (simp_all add: manager_ok_def)
  then have de: "distinct (map fst (mg_exits m))" and me: "map_of (mg_exits m) = served m"
    and bo: "bucket_ok (\<lambda>p. ds_OwnerUserID (mg_heap m p)) (served m) (mg_exitsByOwner m)"
    and bi: "bucket_ok (\<lambda>p. ds_IdentityID (mg_heap m p)) (served m) (mg_exitsByIdentity m)"
    by (simp_all add: tables_ok_def)
  show "set (mg_List m) = {p. \<exists>d. mg_Get d m = Some p}" using values_of [OF ds] by (simp add: mg_List_def mg_Get_def)
  show "set (GetExits m) = {p. \<exists>d. served m d = Some p}" using values_of [OF de] by (simp add: GetExits_def me)
  show "distinct (mg_List m)"
    unfolding mg_List_def by (rule distinct_values [OF ds]) (rule served_device [OF assms])
  show "distinct (GetExits m)"
    unfolding GetExits_def
    by (rule distinct_values [OF de, where g = "\<lambda>p. ds_DeviceID (mg_heap m p)"])
      (use served_device [OF assms] in \<open>auto simp: me served_iff mg_Get_def\<close>)
  have b: "set (map snd (bucket k idx)) = {p. \<exists>d. served m d = Some p \<and> key p = k}"
    if "bucket_ok key (served m) idx" "k \<noteq> []" for key :: "nat \<Rightarrow> string" and idx
    using values_of [OF bucket_distinct [OF that(1), of k]] that by (auto simp: bucket_ok_def split: option.splits if_splits)
  show "k \<noteq> [] \<Longrightarrow> set (map snd (bucket k (mg_exitsByOwner m))) = {p. \<exists>d. served m d = Some p \<and> ds_OwnerUserID (mg_heap m p) = k}"
    by (rule b [OF bo])
  show "k \<noteq> [] \<Longrightarrow> set (map snd (bucket k (mg_exitsByIdentity m))) = {p. \<exists>d. served m d = Some p \<and> ds_IdentityID (mg_heap m p) = k}"
    by (rule b [OF bi])
qed

text \<open>C16. 
  Over every sequence of registrations, replacements, removals, invalidations, reaps and heartbeats the registry
  holds one session per device, the exits it lists are exactly the registered sessions that serve as exits, and the
  exits of an identity or of an owner are exactly those among them with that identity or owner.
\<close>
theorem session_indexes:
  assumes "mgr_reach m"
  shows "(\<forall>d p. mg_Get d m = Some p \<longrightarrow> ds_DeviceID (mg_heap m p) = d) \<and>
    distinct (mg_List m) \<and> distinct (GetExits m) \<and>
    set (GetExits m) = {p \<in> set (mg_List m). IsExit (mg_heap m p)} \<and>
    (\<forall>i. set (GetExitsForIdentity i m) = {p \<in> set (mg_List m). IsExit (mg_heap m p) \<and> i \<noteq> [] \<and> ds_IdentityID (mg_heap m p) = i}) \<and>
    (\<forall>u. set (GetExitsForOwner u m) = {p \<in> set (mg_List m). IsExit (mg_heap m p) \<and> (u = [] \<or> ds_OwnerUserID (mg_heap m p) = u)}) \<and>
    (\<forall>u p. fst (UniqueExitForOwner u m) = Some p \<longrightarrow> set (GetExitsForOwner u m) = {p})"
proof -
  have ok: "manager_ok m" by (rule mgr_reach_ok [OF assms])
  note f = manager_facts [OF ok]
  have u1: "set (GetExitsForOwner u m) = {p}" if "fst (UniqueExitForOwner u m) = Some p" for u p
    using that by (auto simp: UniqueExitForOwner_def GetExitsForOwner_def Let_def length_Suc_conv split: if_splits)
  have ow: "set (GetExitsForOwner u m) = {p \<in> set (mg_List m). IsExit (mg_heap m p) \<and> (u = [] \<or> ds_OwnerUserID (mg_heap m p) = u)}" for u
    using f(1,3,5) by (auto simp: GetExitsForOwner_def GetExits_def served_iff)
  have id: "set (GetExitsForIdentity i m) = {p \<in> set (mg_List m). IsExit (mg_heap m p) \<and> i \<noteq> [] \<and> ds_IdentityID (mg_heap m p) = i}" for i
    using f(1,6) by (auto simp: GetExitsForIdentity_def served_iff)
  have ex: "set (GetExits m) = {p \<in> set (mg_List m). IsExit (mg_heap m p)}"
    using f(1,3) by (auto simp: served_iff)
  show ?thesis using f(2,4) u1 ow id ex served_device [OF ok] by (auto simp: mg_Get_def)
qed

definition example_session :: "string \<Rightarrow> nat \<Rightarrow> device_session" where
  "example_session i p = \<lparr>ds_SessionID = [], ds_DeviceID = (if p < 2 then ''d'' else ''e''), ds_DeviceName = [], ds_Fingerprint = [],
     ds_OwnerUserID = [], ds_IdentityID = i, ds_IdentityName = [], ds_PolicyRevision = 1, ds_Mode = [], ds_Capabilities = [],
     ds_Grants = [CapabilityProxyExit], ds_RuntimeCapabilities = None, ds_Transport = [], ds_Tunnel = Some p, ds_LastHeartbeat = 0,
     ds_Diagnostics = None, ds_Battery = None\<rparr>"

definition example_manager :: manager where
  "example_manager = mg_Register 9 2 (mg_Register 8 1 (mg_Register 7 0 (NewManager (example_session ''i''))))"

theorem session_indexes_witness:
  "set (GetExitsForIdentity ''i'' example_manager) = {1, 2} \<and> mg_closed example_manager = [0]"
proof -
  have r: "mgr_reach example_manager"
    unfolding example_manager_def by (rule mgr_reach.intros(1) mgr_reach.intros(2) [OF _ mgr_step.intros(1)])+
  have e1: "mg_List example_manager = [1, 2]" by code_simp
  have e2: "mg_closed example_manager = [0]" by code_simp
  have e3: "list_all (\<lambda>p. IsExit (mg_heap example_manager p) \<and> ds_IdentityID (mg_heap example_manager p) = ''i'') [1, 2]" by code_simp
  have e: "set (mg_List example_manager) = {1, 2}" "mg_closed example_manager = [0]"
    "\<forall>p \<in> {1, 2}. IsExit (mg_heap example_manager p) \<and> ds_IdentityID (mg_heap example_manager p) = ''i''"
    using e1 e2 e3 by auto
  show ?thesis using session_indexes [OF r] e by auto
qed

end
