(* ===== verification/Enrollment_Store.thy ===== *)
theory Enrollment_Store
  imports Go_Strings
begin

text \<open>
  \<open>server/repository/enrollment.go\<close> and the device part of \<open>identity.go\<close> and \<open>db.go\<close>: which devices are approved,
  under which identity and with which capabilities. A table is the list of its rows, a statement acts on the rows
  its WHERE clause selects, and a transaction that ends in an error leaves every table as it was. Capability columns
  hold the normalized list their JSON text encodes. Identifiers drawn by \<open>uuid.NewString\<close> are arguments; audit
  rows, time stamps, display metadata and driver failures are left out.
\<close>

section \<open>Capabilities\<close>

definition allowed_capabilities :: "string list" where
  "allowed_capabilities = [''proxy.client'', ''proxy.exit'', ''rdp.controller'', ''rdp.host'', ''rdp.public'',
     ''files.client'', ''files.host'']"

text \<open>The loop of \<open>normalizeCapabilities\<close> with the names it has seen.\<close>

fun normalize_from :: "string list \<Rightarrow> string list \<Rightarrow> string list" where
  "normalize_from seen [] = []"
| "normalize_from seen (c # cs) =
     (let c1 = TrimSpace c in
      if c1 = [] \<or> c1 \<in> set seen then normalize_from seen cs else c1 # normalize_from (c1 # seen) cs)"

definition normalizeCapabilities :: "string list \<Rightarrow> string list" where
  "normalizeCapabilities cs = normalize_from [] cs"

definition filterApprovedCapabilities :: "string list \<Rightarrow> string list \<Rightarrow> string list" where
  "filterApprovedCapabilities selected requested =
     (let selected1 =
        (if selected = []
         then (if ''proxy.client'' \<notin> set requested \<and> requested \<noteq> [] then take 1 requested else [''proxy.client''])
         else selected)
      in filter (\<lambda>c. c \<in> set allowed_capabilities \<and> c \<in> set requested) (normalizeCapabilities selected1))"

definition capabilitiesExcept :: "string list \<Rightarrow> string list \<Rightarrow> string list" where
  "capabilitiesExcept requested approved =
     filter (\<lambda>c. c \<notin> set (normalizeCapabilities approved)) (normalizeCapabilities requested)"

definition capabilitiesIntersection :: "string list \<Rightarrow> string list \<Rightarrow> string list" where
  "capabilitiesIntersection left right =
     filter (\<lambda>c. c \<in> set (normalizeCapabilities right)) (normalizeCapabilities left)"

definition validateCapabilityDependencies :: "string list \<Rightarrow> bool" where
  "validateCapabilityDependencies cs \<longleftrightarrow> (''rdp.public'' \<in> set cs \<longrightarrow> ''rdp.host'' \<in> set cs)"

definition modeForCapabilities :: "string list \<Rightarrow> string" where
  "modeForCapabilities cs =
     (if ''proxy.client'' \<in> set cs \<and> ''proxy.exit'' \<in> set cs then ''BOTH''
      else if ''proxy.exit'' \<in> set cs then ''EXIT'' else ''CLIENT'')"

section \<open>Tables\<close>

definition EnrollmentPending :: string where "EnrollmentPending = ''pending''"
definition EnrollmentApproved :: string where "EnrollmentApproved = ''approved''"
definition EnrollmentRejected :: string where "EnrollmentRejected = ''rejected''"
definition EnrollmentRevoked :: string where "EnrollmentRevoked = ''revoked''"
definition IdentityStatusActive :: string where "IdentityStatusActive = ''active''"
definition IdentityStatusDisabled :: string where "IdentityStatusDisabled = ''disabled''"

record device_row =
  dv_id :: string
  dv_owner :: "string option"
  dv_identity :: "string option"
  dv_name :: string
  dv_fingerprint :: string
  dv_installation :: string
  dv_state :: string
  dv_requested :: "string list"
  dv_approved :: "string list"
  dv_denied :: "string list"

record key_row =
  ik_fingerprint :: string
  ik_device :: "string option"
  ik_installation :: string
  ik_key :: "byte list"
  ik_status :: string

record request_row =
  rq_id :: string
  rq_identity :: "string option"
  rq_fingerprint :: string
  rq_installation :: string
  rq_key :: "byte list"
  rq_name :: string
  rq_requested :: "string list"
  rq_state :: string

record identity_row =
  in_id :: string
  in_name :: string
  in_status :: string
  in_revision :: int

record service_row =
  sv_id :: string
  sv_device :: string
  sv_enabled :: bool

record port_row =
  po_service :: string
  po_status :: string

record share_row =
  sh_id :: string
  sh_target :: string
  sh_grantee :: string
  sh_features :: "string list"
  sh_expires :: "int option"
  sh_revision :: int

record system_row =
  sy_id :: string
  sy_resource :: string
  sy_grantee :: string
  sy_features :: "string list"
  sy_expires :: "int option"
  sy_revision :: int

text \<open>
  \<open>st_members\<close> lists \<open>identity_memberships\<close> (identity, user) in the order the query sorts them in;
  \<open>st_shares\<close> is \<open>device_identity_grants\<close> and \<open>st_system\<close> is \<open>system_identity_grants\<close>.
\<close>

record store =
  st_devices :: "device_row list"
  st_keys :: "key_row list"
  st_requests :: "request_row list"
  st_identities :: "identity_row list"
  st_members :: "(string \<times> string) list"
  st_grants :: "(string \<times> string) list"
  st_services :: "service_row list"
  st_ports :: "port_row list"
  st_access :: "(string \<times> string) list"
  st_shares :: "share_row list"
  st_system :: "system_row list"

datatype store_error =
    ErrNoRows | BadArguments | NotPending | RequestWithoutIdentity | NothingApproved | NoDevice | KeyNotPending
  | DependencyMissing | NotApproved | UniqueViolation | ErrInvalidIdentity | ErrDeviceIdentityConflict
  | IncompleteIdentity | MetadataMismatch | NothingRequested | UnsupportedState | NothingSelected
  | ErrIdentityRevisionConflict | BadName | BadStatus | NullScan | ForeignKeyViolation
  | UnsupportedFeature | FeatureRequired | BadExpiry | TargetWithoutIdentity | SameIdentity | IdentityInactive | TargetLacksCapability
  | ErrGrantExists | ErrGrantRevision | UnsupportedResource

definition update_where :: "('a \<Rightarrow> bool) \<Rightarrow> ('a \<Rightarrow> 'a) \<Rightarrow> 'a list \<Rightarrow> 'a list" where
  "update_where p f rows = map (\<lambda>r. if p r then f r else r) rows"

definition delete_where :: "('a \<Rightarrow> bool) \<Rightarrow> 'a list \<Rightarrow> 'a list" where
  "delete_where p rows = filter (\<lambda>r. \<not> p r) rows"

definition count_where :: "('a \<Rightarrow> bool) \<Rightarrow> 'a list \<Rightarrow> nat" where
  "count_where p rows = length (filter p rows)"

definition device_by_id :: "string \<Rightarrow> store \<Rightarrow> device_row option" where
  "device_by_id d st = find (\<lambda>r. dv_id r = d) (st_devices st)"

definition key_by_fingerprint :: "string \<Rightarrow> store \<Rightarrow> key_row option" where
  "key_by_fingerprint f st = find (\<lambda>r. ik_fingerprint r = f) (st_keys st)"

definition request_by_id :: "string \<Rightarrow> store \<Rightarrow> request_row option" where
  "request_by_id i st = find (\<lambda>r. rq_id r = i) (st_requests st)"

definition request_by_fingerprint :: "string \<Rightarrow> store \<Rightarrow> request_row option" where
  "request_by_fingerprint f st = find (\<lambda>r. rq_fingerprint r = f) (st_requests st)"

definition identity_by_id :: "string \<Rightarrow> store \<Rightarrow> identity_row option" where
  "identity_by_id i st = find (\<lambda>r. in_id r = i) (st_identities st)"

section \<open>Authorization checks\<close>

definition join_keys_devices :: "store \<Rightarrow> (key_row \<times> device_row) list" where
  "join_keys_devices st =
     filter (\<lambda>(i, d). ik_device i = Some (dv_id d)) (List.product (st_keys st) (st_devices st))"

definition IsDeviceIdentityApproved :: "store \<Rightarrow> string \<Rightarrow> string \<Rightarrow> bool" where
  "IsDeviceIdentityApproved st fingerprint device \<longleftrightarrow>
     count_where (\<lambda>(i, d). ik_fingerprint i = fingerprint \<and> ik_device i = Some device \<and> ik_status i = EnrollmentApproved \<and>
       dv_state d = EnrollmentApproved) (join_keys_devices st) = 1"

definition join_identities :: "store \<Rightarrow> ((key_row \<times> device_row) \<times> identity_row) list" where
  "join_identities st =
     filter (\<lambda>((i, d), n). dv_identity d = Some (in_id n)) (List.product (join_keys_devices st) (st_identities st))"

definition IsIdentityDeviceAuthorized :: "store \<Rightarrow> string \<Rightarrow> string \<Rightarrow> string \<Rightarrow> bool" where
  "IsIdentityDeviceAuthorized st fingerprint device identity \<longleftrightarrow>
     count_where (\<lambda>((i, d), n). ik_fingerprint i = fingerprint \<and> ik_device i = Some device \<and> ik_status i = EnrollmentApproved \<and>
       dv_state d = EnrollmentApproved \<and> dv_identity d = Some identity \<and> in_status n = IdentityStatusActive)
       (join_identities st) = 1"

section \<open>Runtime grants and services\<close>

definition replaceDeviceRuntimeGrants :: "string \<Rightarrow> string list \<Rightarrow> store \<Rightarrow> store" where
  "replaceDeviceRuntimeGrants d cs st =
     st\<lparr>st_grants := delete_where (\<lambda>(d1, _). d1 = d) (st_grants st) @ map (\<lambda>c. (d, c)) cs\<rparr>"

definition service_of :: "string \<Rightarrow> store \<Rightarrow> service_row option" where
  "service_of d st = find (\<lambda>r. sv_device r = d) (st_services st)"

definition enable_service :: "string \<Rightarrow> string \<Rightarrow> store \<Rightarrow> store" where
  "enable_service newid d st =
     (case service_of d st of
        None \<Rightarrow> st\<lparr>st_services := st_services st @ [\<lparr>sv_id = newid, sv_device = d, sv_enabled = True\<rparr>]\<rparr>
      | Some s \<Rightarrow> st\<lparr>st_services := update_where (\<lambda>r. sv_id r = sv_id s) (\<lambda>r. r\<lparr>sv_enabled := True\<rparr>) (st_services st)\<rparr>)"

definition disable_services :: "string \<Rightarrow> store \<Rightarrow> store" where
  "disable_services d st =
     st\<lparr>st_services := update_where (\<lambda>r. sv_device r = d) (\<lambda>r. r\<lparr>sv_enabled := False\<rparr>) (st_services st)\<rparr>"

definition disable_ports :: "string \<Rightarrow> store \<Rightarrow> store" where
  "disable_ports d st =
     st\<lparr>st_ports := update_where (\<lambda>p. \<exists>s \<in> set (st_services st). sv_device s = d \<and> sv_id s = po_service p)
                     (\<lambda>p. p\<lparr>po_status := ''disabled''\<rparr>) (st_ports st)\<rparr>"

definition syncDeviceRDPService :: "string \<Rightarrow> string \<Rightarrow> string list \<Rightarrow> store \<Rightarrow> store" where
  "syncDeviceRDPService newid d cs st =
     (if ''rdp.host'' \<in> set cs then enable_service newid d st else disable_ports d (disable_services d st))"

definition update_devices :: "(device_row \<Rightarrow> bool) \<Rightarrow> (device_row \<Rightarrow> device_row) \<Rightarrow> store \<Rightarrow> store" where
  "update_devices p f st = st\<lparr>st_devices := update_where p f (st_devices st)\<rparr>"

definition update_keys :: "(key_row \<Rightarrow> bool) \<Rightarrow> (key_row \<Rightarrow> key_row) \<Rightarrow> store \<Rightarrow> store" where
  "update_keys p f st = st\<lparr>st_keys := update_where p f (st_keys st)\<rparr>"

definition update_requests :: "(request_row \<Rightarrow> bool) \<Rightarrow> (request_row \<Rightarrow> request_row) \<Rightarrow> store \<Rightarrow> store" where
  "update_requests p f st = st\<lparr>st_requests := update_where p f (st_requests st)\<rparr>"

section \<open>Observing an installation\<close>

record observation =
  ob_Fingerprint :: string
  ob_InstallationID :: string
  ob_PublicKey :: "byte list"
  ob_DeviceName :: string
  ob_RequestedCapabilities :: "string list"

record device_authorization =
  au_State :: string
  au_RequestID :: string
  au_DeviceID :: string
  au_IdentityID :: string
  au_PolicyRevision :: int
  au_ApprovedCapabilities :: "string list"

definition fallbackDeviceName :: "string \<Rightarrow> string" where
  "fallbackDeviceName n = (if n = [] then ''RelayProxy Agent'' else n)"

definition updateIdentityManagedDevice ::
    "string \<Rightarrow> string \<Rightarrow> observation \<Rightarrow> string list \<Rightarrow> string list \<Rightarrow> string list \<Rightarrow> store \<Rightarrow> store" where
  "updateIdentityManagedDevice newid d ob requested denied effective st =
     syncDeviceRDPService newid d effective
       (replaceDeviceRuntimeGrants d effective
         (update_devices (\<lambda>r. dv_id r = d \<and> dv_state r = EnrollmentApproved)
           (\<lambda>r. r\<lparr>dv_name := fallbackDeviceName (ob_DeviceName ob), dv_requested := requested, dv_denied := denied\<rparr>) st))"

text \<open>Both upserts insert a request under a new identifier unless the installation has one; they differ in what a conflict updates.\<close>

definition new_request :: "string \<Rightarrow> string \<Rightarrow> observation \<Rightarrow> string list \<Rightarrow> request_row" where
  "new_request newid identity ob cs =
     \<lparr>rq_id = newid, rq_identity = Some identity, rq_fingerprint = ob_Fingerprint ob, rq_installation = ob_InstallationID ob,
      rq_key = ob_PublicKey ob, rq_name = fallbackDeviceName (ob_DeviceName ob), rq_requested = normalizeCapabilities cs,
      rq_state = EnrollmentPending\<rparr>"

definition upsert_request :: "(request_row \<Rightarrow> request_row) \<Rightarrow> request_row \<Rightarrow> store \<Rightarrow> store_error + store" where
  "upsert_request on_conflict row st =
     (case request_by_fingerprint (rq_fingerprint row) st of
        Some _ \<Rightarrow> Ok (update_requests (\<lambda>r. rq_fingerprint r = rq_fingerprint row) on_conflict st)
      | None \<Rightarrow> if request_by_id (rq_id row) st \<noteq> None then Err UniqueViolation
                 else Ok (st\<lparr>st_requests := st_requests st @ [row]\<rparr>))"

definition upsertIncrementalEnrollment ::
    "string \<Rightarrow> string \<Rightarrow> observation \<Rightarrow> string list \<Rightarrow> store \<Rightarrow> store_error + (string \<times> string) \<times> store" where
  "upsertIncrementalEnrollment newid identity ob cs st =
     (let row = new_request newid identity ob cs in
      case upsert_request (\<lambda>r. r\<lparr>rq_identity := rq_identity row, rq_name := rq_name row, rq_requested := rq_requested row,
                                rq_state := EnrollmentPending\<rparr>) row st of
        Err e \<Rightarrow> Err e
      | Ok st1 \<Rightarrow>
        (case request_by_fingerprint (ob_Fingerprint ob) st1 of
           None \<Rightarrow> Err ErrNoRows
         | Some r \<Rightarrow> Ok ((rq_id r, EnrollmentPending), st1)))"

definition refusal :: "string \<Rightarrow> string \<Rightarrow> device_authorization" where
  "refusal state d = \<lparr>au_State = state, au_RequestID = [], au_DeviceID = d, au_IdentityID = [], au_PolicyRevision = 0,
     au_ApprovedCapabilities = []\<rparr>"

text \<open>The approved installation: its declaration is refreshed, what is neither approved nor denied is asked for again.\<close>

definition observe_approved ::
    "string \<times> string \<Rightarrow> string \<Rightarrow> int \<Rightarrow> observation \<Rightarrow> string list \<Rightarrow> string option \<Rightarrow> store \<Rightarrow>
     store_error + device_authorization \<times> store" where
  "observe_approved newids identity revision ob requested existing st =
     (case existing of
        None \<Rightarrow> Err NoDevice
      | Some d \<Rightarrow>
        if d = [] then Err NoDevice
        else (case device_by_id d st of
            None \<Rightarrow> Err ErrNoRows
          | Some row \<Rightarrow>
            if dv_state row = EnrollmentRevoked then Ok (refusal EnrollmentRevoked d, st)
            else if dv_identity row \<noteq> Some identity then Err ErrDeviceIdentityConflict
            else
              let approved = normalizeCapabilities (dv_approved row);
                  denied = capabilitiesIntersection (normalizeCapabilities (dv_denied row)) requested;
                  effective = filterApprovedCapabilities approved requested;
                  st1 = updateIdentityManagedDevice (fst newids) d ob (normalizeCapabilities requested)
                          (normalizeCapabilities denied) effective st;
                  pending = capabilitiesExcept (capabilitiesExcept requested approved) denied
              in case (if pending = [] then Ok (([], []), st1)
                       else upsertIncrementalEnrollment (snd newids) identity ob pending st1) of
                  Err e \<Rightarrow> Err e
                | Ok ((requestID, requestState), st2) \<Rightarrow>
                  Ok (if effective = []
                      then \<lparr>au_State = (if requestState = [] then EnrollmentRejected else requestState), au_RequestID = requestID,
                            au_DeviceID = d, au_IdentityID = identity, au_PolicyRevision = 0, au_ApprovedCapabilities = []\<rparr>
                      else \<lparr>au_State = EnrollmentApproved,
                            au_RequestID = (if requestState = EnrollmentPending then requestID else []),
                            au_DeviceID = d, au_IdentityID = identity, au_PolicyRevision = revision,
                            au_ApprovedCapabilities = effective\<rparr>, st2)))"

definition observe_pending ::
    "string \<times> string \<Rightarrow> string \<Rightarrow> observation \<Rightarrow> string list \<Rightarrow> store \<Rightarrow> store_error + device_authorization \<times> store" where
  "observe_pending newids identity ob requested st =
     (let row = new_request (snd newids) identity ob requested in
      case upsert_request (\<lambda>r. r\<lparr>rq_name := rq_name row, rq_requested := rq_requested row\<rparr>) row st of
        Err e \<Rightarrow> Err e
      | Ok st1 \<Rightarrow>
        (case request_by_fingerprint (ob_Fingerprint ob) st1 of
           None \<Rightarrow> Err ErrNoRows
         | Some r \<Rightarrow> Ok (\<lparr>au_State = EnrollmentPending, au_RequestID = rq_id r, au_DeviceID = [], au_IdentityID = identity,
                           au_PolicyRevision = 0, au_ApprovedCapabilities = []\<rparr>, st1)))"

text \<open>\<open>newids\<close> are the identifiers drawn for a service and for a request.\<close>

definition ObserveIdentityDevice ::
    "string \<times> string \<Rightarrow> string \<Rightarrow> observation \<Rightarrow> store \<Rightarrow> store_error + device_authorization \<times> store" where
  "ObserveIdentityDevice newids identity ob st =
     (if identity = [] then Err ErrInvalidIdentity
      else if ob_Fingerprint ob = [] \<or> ob_InstallationID ob = [] \<or> ob_PublicKey ob = [] then Err IncompleteIdentity
      else
        let requested = filterApprovedCapabilities (ob_RequestedCapabilities ob) (ob_RequestedCapabilities ob) in
        if requested = [] then Err NothingRequested
        else if \<not> validateCapabilityDependencies requested then Err DependencyMissing
        else (case find (\<lambda>n. in_id n = identity \<and> in_status n = IdentityStatusActive) (st_identities st) of
            None \<Rightarrow> Err ErrInvalidIdentity
          | Some n \<Rightarrow>
            (case key_by_fingerprint (ob_Fingerprint ob) st of
               Some k \<Rightarrow>
                 if ik_installation k \<noteq> ob_InstallationID ob \<or> ik_key k \<noteq> ob_PublicKey ob then Err MetadataMismatch
                 else if ik_status k = EnrollmentApproved
                 then observe_approved newids identity (in_revision n) ob requested (ik_device k) st
                 else if ik_status k = EnrollmentRejected \<or> ik_status k = EnrollmentRevoked
                 then Ok (refusal (ik_status k) (case ik_device k of None \<Rightarrow> [] | Some d \<Rightarrow> d), st)
                 else if ik_status k = EnrollmentPending
                 then (case request_by_fingerprint (ob_Fingerprint ob) st of
                     None \<Rightarrow> Err ErrNoRows
                   | Some r \<Rightarrow>
                     (case rq_identity r of
                        None \<Rightarrow> Err NullScan
                      | Some i \<Rightarrow> if i \<noteq> identity then Err ErrDeviceIdentityConflict
                                   else observe_pending newids identity ob requested st))
                 else Err UnsupportedState
             | None \<Rightarrow>
               observe_pending newids identity ob requested
                 (st\<lparr>st_keys := st_keys st @ [\<lparr>ik_fingerprint = ob_Fingerprint ob, ik_device = None,
                      ik_installation = ob_InstallationID ob, ik_key = ob_PublicKey ob, ik_status = EnrollmentPending\<rparr>]\<rparr>))))"

section \<open>Decisions of the administrator\<close>

definition owner_of :: "string option \<Rightarrow> store \<Rightarrow> string option" where
  "owner_of identity st = (case identity of None \<Rightarrow> None | Some i \<Rightarrow> map_of (st_members st) i)"

text \<open>The first approval creates the device; \<open>newids\<close> are those of the device and of its service.\<close>

definition approve_first ::
    "string \<times> string \<Rightarrow> string \<Rightarrow> request_row \<Rightarrow> string list \<Rightarrow> string list \<Rightarrow> store \<Rightarrow> store_error + device_row \<times> store" where
  "approve_first newids reviewer rq requested approved st =
     (if \<not> validateCapabilityDependencies approved then Err DependencyMissing
      else
        let owner = (case owner_of (rq_identity rq) st of None \<Rightarrow> reviewer | Some u \<Rightarrow> u);
            d = ''dev_'' @ fst newids;
            row = \<lparr>dv_id = d, dv_owner = Some owner, dv_identity = (if rq_identity rq = Some [] then None else rq_identity rq),
                   dv_name = rq_name rq, dv_fingerprint = rq_fingerprint rq, dv_installation = rq_installation rq,
                   dv_state = EnrollmentApproved, dv_requested = rq_requested rq, dv_approved = normalizeCapabilities approved,
                   dv_denied = normalizeCapabilities (capabilitiesExcept requested approved)\<rparr>
        in if device_by_id d st \<noteq> None \<or> (\<exists>r \<in> set (st_devices st). dv_fingerprint r = rq_fingerprint rq) then Err UniqueViolation
           else
             let st1 = st\<lparr>st_devices := st_devices st @ [row]\<rparr>;
                 st2 = update_keys (\<lambda>k. ik_fingerprint k = rq_fingerprint rq \<and> ik_status k = EnrollmentPending)
                         (\<lambda>k. k\<lparr>ik_device := Some d, ik_status := EnrollmentApproved\<rparr>) st1;
                 st3 = update_requests (\<lambda>r. rq_id r = rq_id rq \<and> rq_state r = EnrollmentPending)
                         (\<lambda>r. r\<lparr>rq_state := EnrollmentApproved\<rparr>) st2;
                 st4 = st3\<lparr>st_grants := st_grants st3 @ map (\<lambda>c. (d, c)) approved\<rparr>;
                 st5 = (if ''rdp.host'' \<in> set approved
                        then st4\<lparr>st_services := st_services st4 @ [\<lparr>sv_id = snd newids, sv_device = d, sv_enabled = True\<rparr>]\<rparr>
                        else st4)
             in Ok (row, st5))"

definition approveAdditionalCapabilities ::
    "string \<Rightarrow> string \<Rightarrow> string \<Rightarrow> string list \<Rightarrow> string list \<Rightarrow> store \<Rightarrow> store_error + device_row \<times> store" where
  "approveAdditionalCapabilities newid request d requested selected st =
     (case device_by_id d st of
        None \<Rightarrow> Err ErrNoRows
      | Some row \<Rightarrow>
        if dv_state row \<noteq> EnrollmentApproved then Err NotApproved
        else
          let currentRequested = normalizeCapabilities (dv_requested row);
              merged = normalizeCapabilities (normalizeCapabilities (dv_approved row) @ selected)
          in if \<not> validateCapabilityDependencies merged then Err DependencyMissing
             else
               let denied = capabilitiesExcept (normalizeCapabilities (normalizeCapabilities (dv_denied row) @
                              capabilitiesExcept requested selected)) merged;
                   set_row = (\<lambda>r. r\<lparr>dv_approved := merged, dv_denied := normalizeCapabilities denied\<rparr>);
                   st1 = update_devices (\<lambda>r. dv_id r = d \<and> dv_state r = EnrollmentApproved) set_row st;
                   st2 = update_requests (\<lambda>r. rq_id r = request \<and> rq_state r = EnrollmentPending)
                           (\<lambda>r. r\<lparr>rq_state := EnrollmentApproved\<rparr>) st1;
                   effective = filterApprovedCapabilities merged currentRequested;
                   st3 = syncDeviceRDPService newid d effective (replaceDeviceRuntimeGrants d effective st2)
               in Ok (row\<lparr>dv_requested := currentRequested, dv_approved := merged\<rparr>, st3))"

definition ApproveEnrollmentForIdentity ::
    "string \<times> string \<Rightarrow> string \<Rightarrow> string \<Rightarrow> string \<Rightarrow> string list \<Rightarrow> store \<Rightarrow> store_error + device_row \<times> store" where
  "ApproveEnrollmentForIdentity newids request reviewer allowedIdentity capabilities st =
     (if request = [] \<or> reviewer = [] then Err BadArguments
      else (case request_by_id request st of
          None \<Rightarrow> Err ErrNoRows
        | Some rq \<Rightarrow>
          let identity = (case rq_identity rq of None \<Rightarrow> [] | Some i \<Rightarrow> i) in
          if rq_state rq \<noteq> EnrollmentPending then Err NotPending
          else if identity = [] \<and> allowedIdentity \<noteq> [] then Err RequestWithoutIdentity
          else if allowedIdentity \<noteq> [] \<and> identity \<noteq> allowedIdentity then Err ErrNoRows
          else
            let requested = normalizeCapabilities (rq_requested rq);
                approved = filterApprovedCapabilities capabilities requested
            in if approved = [] then Err NothingApproved
               else (case key_by_fingerprint (rq_fingerprint rq) st of
                   None \<Rightarrow> Err ErrNoRows
                 | Some k \<Rightarrow>
                   if ik_status k = EnrollmentApproved
                   then (case ik_device k of
                       None \<Rightarrow> Err NoDevice
                     | Some d \<Rightarrow> if d = [] then Err NoDevice
                                  else approveAdditionalCapabilities (snd newids) request d requested approved st)
                   else if ik_status k \<noteq> EnrollmentPending then Err KeyNotPending
                   else approve_first newids reviewer rq requested approved st)))"

definition PendingEnrollmentDeviceIDForIdentity :: "string \<Rightarrow> string \<Rightarrow> store \<Rightarrow> store_error + string" where
  "PendingEnrollmentDeviceIDForIdentity request allowedIdentity st =
     (case request_by_id request st of
        None \<Rightarrow> Err ErrNoRows
      | Some rq \<Rightarrow>
        (case key_by_fingerprint (rq_fingerprint rq) st of
           None \<Rightarrow> Err ErrNoRows
         | Some k \<Rightarrow>
           if rq_state rq \<noteq> EnrollmentPending then Err ErrNoRows
           else if allowedIdentity \<noteq> [] \<and> (case rq_identity rq of None \<Rightarrow> [] | Some i \<Rightarrow> i) \<noteq> allowedIdentity then Err ErrNoRows
           else Ok (case ik_device k of None \<Rightarrow> [] | Some d \<Rightarrow> d)))"

definition reviewEnrollment :: "string \<Rightarrow> string \<Rightarrow> string \<Rightarrow> store \<Rightarrow> store_error + store" where
  "reviewEnrollment request allowedIdentity state st =
     (case request_by_id request st of
        None \<Rightarrow> Err ErrNoRows
      | Some rq \<Rightarrow>
        (case key_by_fingerprint (rq_fingerprint rq) st of
           None \<Rightarrow> Err ErrNoRows
         | Some k \<Rightarrow>
           if rq_state rq \<noteq> EnrollmentPending then Err ErrNoRows
           else if allowedIdentity \<noteq> [] \<and> (case rq_identity rq of None \<Rightarrow> [] | Some i \<Rightarrow> i) \<noteq> allowedIdentity then Err ErrNoRows
           else
             let st1 = update_requests (\<lambda>r. rq_id r = request) (\<lambda>r. r\<lparr>rq_state := state\<rparr>) st in
             (if ik_status k \<noteq> EnrollmentApproved \<or> ik_device k = None
              then Ok (update_keys (\<lambda>i. ik_fingerprint i = rq_fingerprint rq) (\<lambda>i. i\<lparr>ik_status := state\<rparr>) st1)
              else if state = EnrollmentRejected
              then (case ik_device k of
                  None \<Rightarrow> Ok st1
                | Some d \<Rightarrow>
                  (case device_by_id d st of
                     None \<Rightarrow> Err ErrNoRows
                   | Some row \<Rightarrow>
                     let approved = normalizeCapabilities (dv_approved row);
                         denied = capabilitiesExcept (normalizeCapabilities (normalizeCapabilities (dv_denied row) @
                                    normalizeCapabilities (rq_requested rq))) approved
                     in Ok (update_devices (\<lambda>r. dv_id r = d) (\<lambda>r. r\<lparr>dv_denied := normalizeCapabilities denied\<rparr>) st1)))
              else Ok st1)))"

definition RejectEnrollmentForIdentity :: "string \<Rightarrow> string \<Rightarrow> store \<Rightarrow> store_error + store" where
  "RejectEnrollmentForIdentity request allowedIdentity st = reviewEnrollment request allowedIdentity EnrollmentRejected st"

definition RevokeDevice :: "string \<Rightarrow> store \<Rightarrow> store_error + store" where
  "RevokeDevice d st =
     (let approved_row = (\<lambda>r. dv_id r = d \<and> dv_state r = EnrollmentApproved) in
      if count_where approved_row (st_devices st) \<noteq> 1 then Err NotApproved
      else
        let st1 = update_devices approved_row (\<lambda>r. r\<lparr>dv_state := EnrollmentRevoked\<rparr>) st;
            st2 = update_keys (\<lambda>k. ik_device k = Some d) (\<lambda>k. k\<lparr>ik_status := EnrollmentRevoked\<rparr>) st1
        in Ok (st2\<lparr>st_access := delete_where (\<lambda>(c, t). c = d \<or> t = d) (st_access st2)\<rparr>))"

definition resolve_pending :: "string \<Rightarrow> string list \<Rightarrow> store \<Rightarrow> store" where
  "resolve_pending fingerprint approved st =
     (case find (\<lambda>r. rq_fingerprint r = fingerprint \<and> rq_state r = EnrollmentPending) (st_requests st) of
        None \<Rightarrow> st
      | Some rq \<Rightarrow>
        update_requests (\<lambda>r. rq_id r = rq_id rq \<and> rq_state r = EnrollmentPending)
          (\<lambda>r. r\<lparr>rq_state := (if capabilitiesExcept (normalizeCapabilities (rq_requested rq)) approved \<noteq> []
                             then EnrollmentRejected else EnrollmentApproved)\<rparr>) st)"

definition UpdateDeviceCapabilities :: "string \<Rightarrow> string \<Rightarrow> string \<Rightarrow> string list \<Rightarrow> store \<Rightarrow> store_error + device_row \<times> store" where
  "UpdateDeviceCapabilities newid d reviewer capabilities st =
     (if d = [] \<or> reviewer = [] then Err BadArguments
      else
        let selected = normalizeCapabilities capabilities in
        if selected = [] then Err NothingSelected
        else (case device_by_id d st of
            None \<Rightarrow> Err ErrNoRows
          | Some row \<Rightarrow>
            if dv_state row \<noteq> EnrollmentApproved then Err NotApproved
            else
              let requested = normalizeCapabilities (dv_requested row);
                  approved = filterApprovedCapabilities selected requested
              in if approved = [] then Err NothingSelected
                 else if \<not> validateCapabilityDependencies approved then Err DependencyMissing
                 else
                   let denied = capabilitiesExcept requested approved;
                       st1 = update_devices (\<lambda>r. dv_id r = d \<and> dv_state r = EnrollmentApproved)
                               (\<lambda>r. r\<lparr>dv_approved := normalizeCapabilities approved, dv_denied := normalizeCapabilities denied\<rparr>) st;
                       st2 = resolve_pending (dv_fingerprint row) approved st1;
                       st3 = replaceDeviceRuntimeGrants d approved st2;
                       st4 = (if ''rdp.host'' \<in> set approved then enable_service newid d st3 else disable_services d st3);
                       st5 = (if ''rdp.host'' \<notin> set approved \<or> ''rdp.public'' \<notin> set approved then disable_ports d st4 else st4);
                       st6 = (if ''rdp.controller'' \<notin> set approved
                              then st5\<lparr>st_access := delete_where (\<lambda>(c, t). c = d) (st_access st5)\<rparr> else st5);
                       st7 = (if ''rdp.host'' \<notin> set approved
                              then st6\<lparr>st_access := delete_where (\<lambda>(c, t). t = d) (st_access st6)\<rparr> else st6)
                   in Ok (row\<lparr>dv_requested := requested, dv_approved := approved\<rparr>, st7)))"

text \<open>Deleting a device cascades to its grants, services with their ports, access rows and shares; a key that still refers to it forbids it.\<close>

definition cascade_device :: "string \<Rightarrow> store \<Rightarrow> store" where
  "cascade_device d st =
     st\<lparr>st_devices := delete_where (\<lambda>r. dv_id r = d) (st_devices st),
        st_grants := delete_where (\<lambda>(d1, _). d1 = d) (st_grants st),
        st_services := delete_where (\<lambda>s. sv_device s = d) (st_services st),
        st_ports := delete_where (\<lambda>p. \<exists>s \<in> set (st_services st). sv_device s = d \<and> sv_id s = po_service p) (st_ports st),
        st_access := delete_where (\<lambda>(c, t). c = d \<or> t = d) (st_access st),
        st_shares := delete_where (\<lambda>g. sh_target g = d) (st_shares st)\<rparr>"

definition DeleteDevice :: "string \<Rightarrow> string \<Rightarrow> store \<Rightarrow> store_error + store" where
  "DeleteDevice d reviewer st =
     (if d = [] \<or> reviewer = [] then Err BadArguments
      else (case device_by_id d st of
          None \<Rightarrow> Err ErrNoRows
        | Some row \<Rightarrow>
          let st1 = st\<lparr>st_requests := delete_where (\<lambda>r. rq_fingerprint r = dv_fingerprint row) (st_requests st)\<rparr>;
              st2 = st1\<lparr>st_keys := delete_where (\<lambda>k. ik_fingerprint k = dv_fingerprint row \<and> ik_device k = Some d) (st_keys st1)\<rparr>
          in if \<exists>k \<in> set (st_keys st2). ik_device k = Some d then Err ForeignKeyViolation
             else if count_where (\<lambda>r. dv_id r = d) (st_devices st2) \<noteq> 1 then Err ErrNoRows
             else Ok (cascade_device d st2)))"

definition SetDeviceIdentity :: "string \<Rightarrow> string \<Rightarrow> string \<Rightarrow> store \<Rightarrow> store_error + store" where
  "SetDeviceIdentity device identity actor st =
     (let d = TrimSpace device; i = TrimSpace identity in
      if d = [] \<or> i = [] \<or> TrimSpace actor = [] then Err BadArguments
      else (case device_by_id d st of
          None \<Rightarrow> Err ErrNoRows
        | Some row \<Rightarrow>
          if count_where (\<lambda>n. in_id n = i) (st_identities st) \<noteq> 1 then Err ErrNoRows
          else
            let identityOwner = (case map_of (st_members st) i of None \<Rightarrow> [] | Some u \<Rightarrow> u);
                identityChanged = (dv_identity row \<noteq> Some i);
                ownerChanged = (identityOwner \<noteq> [] \<and> (case dv_owner row of None \<Rightarrow> [] | Some u \<Rightarrow> u) \<noteq> identityOwner);
                st1 = (if identityChanged then st\<lparr>st_shares := delete_where (\<lambda>g. sh_target g = d) (st_shares st)\<rparr> else st);
                st2 = (if identityChanged \<or> ownerChanged
                       then update_devices (\<lambda>r. dv_id r = d)
                              (\<lambda>r. r\<lparr>dv_identity := Some i, dv_owner := (if identityOwner \<noteq> [] then Some identityOwner else dv_owner r)\<rparr>) st1
                       else st1)
            in Ok st2))"

definition UpdateIdentity :: "string \<Rightarrow> string \<Rightarrow> string option \<Rightarrow> string option \<Rightarrow> int \<Rightarrow> store \<Rightarrow> store_error + store" where
  "UpdateIdentity identity actor name status revision st =
     (let i = TrimSpace identity in
      if i = [] \<or> TrimSpace actor = [] then Err BadArguments
      else (case identity_by_id i st of
          None \<Rightarrow> Err ErrNoRows
        | Some row \<Rightarrow>
          if revision > 0 \<and> revision \<noteq> in_revision row then Err ErrIdentityRevisionConflict
          else
            let nextName = (case name of None \<Rightarrow> in_name row | Some n \<Rightarrow> TrimSpace n);
                nextStatus = (case status of None \<Rightarrow> in_status row | Some s \<Rightarrow> TrimSpace s)
            in if name \<noteq> None \<and> (nextName = [] \<or> length nextName > 100) then Err BadName
               else if status \<noteq> None \<and> nextStatus \<noteq> IdentityStatusActive \<and> nextStatus \<noteq> IdentityStatusDisabled then Err BadStatus
               else
                 let this_row = (\<lambda>n. in_id n = i \<and> in_revision n = in_revision row) in
                 if \<exists>n \<in> set (st_identities st). in_id n \<noteq> i \<and> in_name n = nextName then Err UniqueViolation
                 else if count_where this_row (st_identities st) \<noteq> 1 then Err ErrIdentityRevisionConflict
                 else Ok (st\<lparr>st_identities := update_where this_row
                            (\<lambda>n. n\<lparr>in_name := nextName, in_status := nextStatus, in_revision := in_revision row + 1\<rparr>)
                            (st_identities st)\<rparr>)))"

section \<open>Lists of capabilities\<close>

lemma set_normalize_from: "set (normalize_from seen cs) = TrimSpace ` set cs - {[]} - set seen"
  by (induction seen cs rule: normalize_from.induct) (auto simp: Let_def)

lemma set_normalize: "set (normalizeCapabilities cs) = TrimSpace ` set cs - {[]}"
  by (simp add: normalizeCapabilities_def set_normalize_from)

lemma distinct_normalize_from: "distinct (normalize_from seen cs)"
  by (induction seen cs rule: normalize_from.induct) (auto simp: Let_def set_normalize_from)

definition plain :: "string list \<Rightarrow> bool" where
  "plain cs \<longleftrightarrow> distinct cs \<and> set cs \<subseteq> set allowed_capabilities"

lemma allowed_trimmed: "c \<in> set allowed_capabilities \<Longrightarrow> TrimSpace c = c \<and> c \<noteq> []"
  by (auto simp: allowed_capabilities_def TrimSpace_def TrimRightSpace_def is_space_def code_def)

lemma normalize_from_plain:
  "distinct cs \<Longrightarrow> set cs \<inter> set seen = {} \<Longrightarrow> set cs \<subseteq> set allowed_capabilities \<Longrightarrow> normalize_from seen cs = cs"
proof (induction seen cs rule: normalize_from.induct)
  case (2 seen c cs)
  then have "TrimSpace c = c" "c \<noteq> []" using allowed_trimmed [of c] by auto
  with 2 show ?case by (auto simp: Let_def)
qed simp

lemma normalize_plain: "plain cs \<Longrightarrow> normalizeCapabilities cs = cs"
  by (simp add: plain_def normalizeCapabilities_def normalize_from_plain)

lemma plain_filter: "plain (filterApprovedCapabilities a b)"
  by (auto simp: plain_def filterApprovedCapabilities_def normalizeCapabilities_def distinct_normalize_from Let_def)

lemma filter_approved_subset: "set (filterApprovedCapabilities a b) \<subseteq> set b"
  by (auto simp: filterApprovedCapabilities_def Let_def)

lemma filter_plain: "plain a \<Longrightarrow> a \<noteq> [] \<Longrightarrow> filterApprovedCapabilities a b = filter (\<lambda>c. c \<in> set b) a"
  by (auto simp: filterApprovedCapabilities_def normalize_plain plain_def intro!: filter_cong)

lemma set_normalize_plain: "set cs \<subseteq> set allowed_capabilities \<Longrightarrow> set (normalizeCapabilities cs) = set cs"
  unfolding set_normalize using allowed_trimmed by (auto simp: image_iff) (metis subsetD)+

lemma plain_normalize: "set cs \<subseteq> set allowed_capabilities \<Longrightarrow> plain (normalizeCapabilities cs)"
  by (simp add: plain_def set_normalize_plain) (simp add: normalizeCapabilities_def distinct_normalize_from)

text \<open>What the \<open>approved_capabilities\<close> of a device always are.\<close>

definition approved_ok :: "string list \<Rightarrow> bool" where
  "approved_ok cs \<longleftrightarrow> cs \<noteq> [] \<and> plain cs \<and> validateCapabilityDependencies cs"

lemma approved_ok_merged:
  assumes "approved_ok old" "plain new" "validateCapabilityDependencies (normalizeCapabilities (normalizeCapabilities old @ new))"
  shows "approved_ok (normalizeCapabilities (normalizeCapabilities old @ new))"
proof -
  have s: "set (old @ new) \<subseteq> set allowed_capabilities" using assms by (auto simp: approved_ok_def plain_def)
  have n: "normalizeCapabilities old = old" using assms(1) by (simp add: approved_ok_def normalize_plain)
  have "normalizeCapabilities (old @ new) \<noteq> []"
    using set_normalize_plain [OF s] assms(1) by (metis append_is_Nil_conv approved_ok_def set_empty)
  then show ?thesis using assms(3) plain_normalize [OF s] unfolding n by (simp add: approved_ok_def)
qed

section \<open>The invariant of the store\<close>

definition device_ok :: "device_row \<Rightarrow> bool" where
  "device_ok r \<longleftrightarrow> (dv_state r = EnrollmentApproved \<or> dv_state r = EnrollmentRevoked) \<and> approved_ok (dv_approved r)"

definition devices_ok :: "device_row list \<Rightarrow> bool" where
  "devices_ok ds \<longleftrightarrow> distinct (map dv_id ds) \<and> distinct (map dv_fingerprint ds) \<and> (\<forall>r \<in> set ds. device_ok r)"

definition key_ok :: "device_row list \<Rightarrow> key_row \<Rightarrow> bool" where
  "key_ok ds k \<longleftrightarrow>
     (case ik_device k of
        None \<Rightarrow> ik_status k \<noteq> EnrollmentApproved
      | Some d \<Rightarrow> ik_status k \<noteq> EnrollmentPending \<and>
          (\<exists>r \<in> set ds. dv_id r = d \<and> dv_fingerprint r = ik_fingerprint k \<and>
             (ik_status k = EnrollmentApproved \<longleftrightarrow> dv_state r = EnrollmentApproved)))"

definition has_key :: "key_row list \<Rightarrow> device_row \<Rightarrow> bool" where
  "has_key ks r \<longleftrightarrow> (\<exists>k \<in> set ks. ik_device k = Some (dv_id r) \<and> ik_fingerprint k = dv_fingerprint r)"

definition keys_ok :: "key_row list \<Rightarrow> device_row list \<Rightarrow> bool" where
  "keys_ok ks ds \<longleftrightarrow> distinct (map ik_fingerprint ks) \<and> (\<forall>k \<in> set ks. key_ok ds k) \<and>
     (\<forall>r \<in> set ds. dv_state r = EnrollmentApproved \<longrightarrow> has_key ks r)"

definition store_ok :: "store \<Rightarrow> bool" where
  "store_ok st \<longleftrightarrow> devices_ok (st_devices st) \<and> keys_ok (st_keys st) (st_devices st) \<and>
     distinct (map rq_fingerprint (st_requests st)) \<and> distinct (map rq_id (st_requests st)) \<and> distinct (map in_id (st_identities st))"

lemma states_differ [simp]:
  "EnrollmentPending \<noteq> EnrollmentApproved" "EnrollmentApproved \<noteq> EnrollmentPending"
  "EnrollmentRevoked \<noteq> EnrollmentApproved" "EnrollmentApproved \<noteq> EnrollmentRevoked"
  "EnrollmentRejected \<noteq> EnrollmentApproved" "EnrollmentApproved \<noteq> EnrollmentRejected"
  "EnrollmentRejected \<noteq> EnrollmentPending" "EnrollmentRevoked \<noteq> EnrollmentPending"
  "EnrollmentPending \<noteq> EnrollmentRejected" "EnrollmentPending \<noteq> EnrollmentRevoked"
  "EnrollmentPending \<noteq> []" "EnrollmentApproved \<noteq> []"
  by (simp_all add: EnrollmentPending_def EnrollmentApproved_def EnrollmentRevoked_def EnrollmentRejected_def)

text \<open>Everything about services, ports, grants and access rows leaves the four tables of the invariant alone.\<close>

definition same_core :: "store \<Rightarrow> store \<Rightarrow> bool" where
  "same_core s t \<longleftrightarrow> st_devices s = st_devices t \<and> st_keys s = st_keys t \<and> st_requests s = st_requests t \<and>
     st_identities s = st_identities t \<and> st_members s = st_members t"

lemma core_fields [simp]:
  "st_devices (syncDeviceRDPService i d cs st) = st_devices st" "st_keys (syncDeviceRDPService i d cs st) = st_keys st"
  "st_requests (syncDeviceRDPService i d cs st) = st_requests st" "st_identities (syncDeviceRDPService i d cs st) = st_identities st"
  "st_devices (replaceDeviceRuntimeGrants d cs st) = st_devices st" "st_keys (replaceDeviceRuntimeGrants d cs st) = st_keys st"
  "st_requests (replaceDeviceRuntimeGrants d cs st) = st_requests st" "st_identities (replaceDeviceRuntimeGrants d cs st) = st_identities st"
  "st_devices (enable_service i d st) = st_devices st" "st_keys (enable_service i d st) = st_keys st"
  "st_requests (enable_service i d st) = st_requests st" "st_identities (enable_service i d st) = st_identities st"
  "st_devices (disable_services d st) = st_devices st" "st_keys (disable_services d st) = st_keys st"
  "st_requests (disable_services d st) = st_requests st" "st_identities (disable_services d st) = st_identities st"
  "st_devices (disable_ports d st) = st_devices st" "st_keys (disable_ports d st) = st_keys st"
  "st_requests (disable_ports d st) = st_requests st" "st_identities (disable_ports d st) = st_identities st"
  "st_devices (update_keys p f st) = st_devices st" "st_requests (update_keys p f st) = st_requests st"
  "st_identities (update_keys p f st) = st_identities st" "st_keys (update_keys p f st) = update_where p f (st_keys st)"
  "st_devices (update_requests q g st) = st_devices st" "st_keys (update_requests q g st) = st_keys st"
  "st_identities (update_requests q g st) = st_identities st" "st_requests (update_requests q g st) = update_where q g (st_requests st)"
  "st_keys (update_devices r h st) = st_keys st" "st_requests (update_devices r h st) = st_requests st"
  "st_identities (update_devices r h st) = st_identities st" "st_devices (update_devices r h st) = update_where r h (st_devices st)"
  by (simp_all add: syncDeviceRDPService_def replaceDeviceRuntimeGrants_def enable_service_def disable_services_def
      disable_ports_def update_keys_def update_requests_def update_devices_def split: option.splits)

lemma map_update_where: "(\<And>r. p r \<Longrightarrow> g (f r) = g r) \<Longrightarrow> map g (update_where p f rows) = map g rows"
  by (auto simp: update_where_def)

lemma set_update_where: "set (update_where p f rows) = (\<lambda>r. if p r then f r else r) ` set rows"
  by (simp add: update_where_def)

lemma distinct_delete_where: "distinct (map g rows) \<Longrightarrow> distinct (map g (delete_where p rows))"
  by (simp add: delete_where_def distinct_map_filter)

lemma find_Some: "find p xs = Some x \<Longrightarrow> p x \<and> x \<in> set xs"
  by (induction xs) (auto split: if_splits)

section \<open>Every operation keeps it\<close>

lemma key_ok_mono:
  assumes "key_ok ds k"
    and "\<And>r. r \<in> set ds \<Longrightarrow> \<exists>r' \<in> set ds'. dv_id r' = dv_id r \<and> dv_fingerprint r' = dv_fingerprint r \<and> dv_state r' = dv_state r"
  shows "key_ok ds' k"
  using assms unfolding key_ok_def by (cases "ik_device k") (simp_all, metis)

definition keeps_rows :: "(device_row \<Rightarrow> bool) \<Rightarrow> (device_row \<Rightarrow> device_row) \<Rightarrow> bool" where
  "keeps_rows p f \<longleftrightarrow> (\<forall>r. p r \<longrightarrow> dv_id (f r) = dv_id r \<and> dv_fingerprint (f r) = dv_fingerprint r \<and> dv_state (f r) = dv_state r)"

lemma update_devices_keeps:
  assumes "keeps_rows p f" "\<And>r. r \<in> set ds \<Longrightarrow> p r \<Longrightarrow> device_ok r \<Longrightarrow> device_ok (f r)" "devices_ok ds"
  shows "devices_ok (update_where p f ds)" "keys_ok ks ds \<Longrightarrow> keys_ok ks (update_where p f ds)"
proof -
  have same: "\<And>r. p r \<Longrightarrow> dv_id (f r) = dv_id r" "\<And>r. p r \<Longrightarrow> dv_fingerprint (f r) = dv_fingerprint r"
    "\<And>r. p r \<Longrightarrow> dv_state (f r) = dv_state r"
    using assms(1) by (simp_all add: keeps_rows_def)
  have "\<forall>r \<in> set (update_where p f ds). device_ok r"
    using assms(2,3) by (auto simp: devices_ok_def set_update_where)
  then show "devices_ok (update_where p f ds)"
    using assms(3) unfolding devices_ok_def
    by (simp add: map_update_where [of p dv_id f] map_update_where [of p dv_fingerprint f] same)
  assume k: "keys_ok ks ds"
  have "key_ok (update_where p f ds) x" if "x \<in> set ks" for x
  proof (rule key_ok_mono)
    show "key_ok ds x" using k that by (simp add: keys_ok_def)
    show "\<exists>r'\<in>set (update_where p f ds). dv_id r' = dv_id r \<and> dv_fingerprint r' = dv_fingerprint r \<and> dv_state r' = dv_state r"
      if "r \<in> set ds" for r
      using that same by (intro bexI [of _ "if p r then f r else r"]) (auto simp: set_update_where)
  qed
  moreover have "has_key ks r" if r: "r \<in> set (update_where p f ds)" "dv_state r = EnrollmentApproved" for r
  proof -
    obtain r0 where r0: "r0 \<in> set ds" "r = (if p r0 then f r0 else r0)" using r(1) by (auto simp: set_update_where)
    then have "has_key ks r0" using k r(2) same by (auto simp: keys_ok_def split: if_splits)
    then show ?thesis using r0 same by (auto simp: has_key_def)
  qed
  ultimately show "keys_ok ks (update_where p f ds)" using k by (auto simp: keys_ok_def)
qed

lemma requests_keep:
  assumes "distinct (map rq_fingerprint rs)" "distinct (map rq_id rs)" "\<And>r. p r \<Longrightarrow> rq_fingerprint (f r) = rq_fingerprint r \<and> rq_id (f r) = rq_id r"
  shows "distinct (map rq_fingerprint (update_where p f rs))" "distinct (map rq_id (update_where p f rs))"
  using assms by (simp_all add: map_update_where [of p rq_fingerprint f] map_update_where [of p rq_id f])

lemma find_None_map: "find (\<lambda>r. g r = x) rows = None \<longleftrightarrow> x \<notin> g ` set rows"
  by (auto simp: find_None_iff)

lemma upsert_request_ok:
  assumes "upsert_request f row st = Ok st'" "store_ok st" "\<And>r. rq_fingerprint (f r) = rq_fingerprint r \<and> rq_id (f r) = rq_id r"
  shows "store_ok st'" "st_devices st' = st_devices st" "st_keys st' = st_keys st" "st_identities st' = st_identities st"
proof -
  show "st_devices st' = st_devices st" "st_keys st' = st_keys st" "st_identities st' = st_identities st"
    using assms(1) by (auto simp: upsert_request_def split: option.splits if_splits)
  show "store_ok st'"
  proof (cases "request_by_fingerprint (rq_fingerprint row) st")
    case None
    then have st': "st' = st\<lparr>st_requests := st_requests st @ [row]\<rparr>" "request_by_id (rq_id row) st = None"
      using assms(1) by (auto simp: upsert_request_def split: if_splits)
    have "rq_fingerprint row \<notin> rq_fingerprint ` set (st_requests st)" "rq_id row \<notin> rq_id ` set (st_requests st)"
      using None st'(2) unfolding request_by_fingerprint_def request_by_id_def find_None_map by simp_all
    then show ?thesis using assms(2) by (simp add: st' store_ok_def)
  next
    case (Some r)
    then have "st' = update_requests (\<lambda>r. rq_fingerprint r = rq_fingerprint row) f st"
      using assms(1) by (simp add: upsert_request_def)
    then show ?thesis using assms(2,3) requests_keep [of "st_requests st"] by (simp add: store_ok_def)
  qed
qed

lemma observe_pending_ok:
  assumes "observe_pending ids i ob cs st = Ok (a, st')" "store_ok st"
  shows "store_ok st'" "st_devices st' = st_devices st" "st_keys st' = st_keys st" "st_identities st' = st_identities st"
    "au_ApprovedCapabilities a = []"
proof -
  obtain f row where u: "upsert_request f row st = Ok st'" "\<And>r. rq_fingerprint (f r) = rq_fingerprint r \<and> rq_id (f r) = rq_id r"
    and a: "au_ApprovedCapabilities a = []"
    using assms(1) unfolding observe_pending_def Let_def by (auto split: sum.splits option.splits)
  show "store_ok st'" "st_devices st' = st_devices st" "st_keys st' = st_keys st" "st_identities st' = st_identities st"
    by (rule upsert_request_ok [OF u(1) assms(2) u(2)])+
  show "au_ApprovedCapabilities a = []" by (rule a)
qed

lemma new_key_ok:
  assumes "store_ok st" "key_by_fingerprint (ik_fingerprint k) st = None" "ik_device k = None" "ik_status k = EnrollmentPending"
  shows "store_ok (st\<lparr>st_keys := st_keys st @ [k]\<rparr>)"
  using assms by (auto simp: store_ok_def keys_ok_def key_by_fingerprint_def find_None_map key_ok_def has_key_def)

definition observed_device :: "observation \<Rightarrow> string list \<Rightarrow> string list \<Rightarrow> device_row \<Rightarrow> device_row" where
  "observed_device ob requested denied r =
     r\<lparr>dv_name := fallbackDeviceName (ob_DeviceName ob), dv_requested := requested, dv_denied := denied\<rparr>"

lemma update_managed_ok:
  assumes "store_ok st"
  shows "store_ok (updateIdentityManagedDevice i d ob cs ds es st)"
    and "\<exists>p f. keeps_rows p f \<and> (\<forall>r. dv_approved (f r) = dv_approved r \<and> dv_identity (f r) = dv_identity r) \<and>
      st_devices (updateIdentityManagedDevice i d ob cs ds es st) = update_where p f (st_devices st)"
    and "st_keys (updateIdentityManagedDevice i d ob cs ds es st) = st_keys st"
    and "st_identities (updateIdentityManagedDevice i d ob cs ds es st) = st_identities st"
proof -
  let ?p = "\<lambda>r. dv_id r = d \<and> dv_state r = EnrollmentApproved" and ?f = "observed_device ob cs ds"
  have u: "st_devices (updateIdentityManagedDevice i d ob cs ds es st) = update_where ?p ?f (st_devices st)"
    by (simp add: updateIdentityManagedDevice_def observed_device_def [abs_def])
  have k: "keeps_rows ?p ?f" by (simp add: keeps_rows_def observed_device_def)
  have ok: "device_ok (?f r)" if "device_ok r" for r using that by (simp add: device_ok_def observed_device_def)
  show "store_ok (updateIdentityManagedDevice i d ob cs ds es st)"
    using assms update_devices_keeps [OF k ok] unfolding store_ok_def u by (simp add: updateIdentityManagedDevice_def)
  show "\<exists>p f. keeps_rows p f \<and> (\<forall>r. dv_approved (f r) = dv_approved r \<and> dv_identity (f r) = dv_identity r) \<and>
      st_devices (updateIdentityManagedDevice i d ob cs ds es st) = update_where p f (st_devices st)"
    using k u by (intro exI [of _ ?p] exI [of _ ?f]) (simp add: observed_device_def)
qed (simp_all add: updateIdentityManagedDevice_def)

lemma upsert_incremental_ok:
  assumes "upsertIncrementalEnrollment ni i ob cs st = Ok (x, st')" "store_ok st"
  shows "store_ok st'" "st_devices st' = st_devices st" "st_keys st' = st_keys st" "st_identities st' = st_identities st"
proof -
  obtain f row where u: "upsert_request f row st = Ok st'" "\<And>r. rq_fingerprint (f r) = rq_fingerprint r \<and> rq_id (f r) = rq_id r"
    using assms(1) unfolding upsertIncrementalEnrollment_def Let_def by (auto split: sum.splits option.splits)
  show "store_ok st'" "st_devices st' = st_devices st" "st_keys st' = st_keys st" "st_identities st' = st_identities st"
    by (rule upsert_request_ok [OF u(1) assms(2) u(2)])+
qed

text \<open>What an observation may change of the devices, and what it returns.\<close>

definition approval_view :: "device_row \<Rightarrow> string \<times> string option \<times> string \<times> string \<times> string list" where
  "approval_view r = (dv_id r, dv_identity r, dv_fingerprint r, dv_state r, dv_approved r)"

lemma observe_approved_ok:
  assumes "observe_approved ids i rv ob cs ex st = Ok (a, st')" "store_ok st"
  shows "store_ok st' \<and> map approval_view (st_devices st') = map approval_view (st_devices st) \<and> st_keys st' = st_keys st \<and>
    st_identities st' = st_identities st"
proof -
  obtain d row where ex: "ex = Some d" "device_by_id d st = Some row"
    using assms(1) by (auto simp: observe_approved_def split: option.splits if_splits)
  show ?thesis
  proof (cases "dv_state row = EnrollmentRevoked")
    case True
    then show ?thesis using assms ex by (auto simp: observe_approved_def split: if_splits)
  next
    case False
    define st1 where "st1 = updateIdentityManagedDevice (fst ids) d ob (normalizeCapabilities cs)
      (normalizeCapabilities (capabilitiesIntersection (normalizeCapabilities (dv_denied row)) cs))
      (filterApprovedCapabilities (normalizeCapabilities (dv_approved row)) cs) st"
    have st2: "st' = st1 \<or> (\<exists>x pd. upsertIncrementalEnrollment (snd ids) i ob pd st1 = Ok (x, st'))"
      using assms(1) ex False unfolding observe_approved_def Let_def st1_def
      by (auto split: if_splits sum.splits)
    have ok1: "store_ok st1" unfolding st1_def by (rule update_managed_ok [OF assms(2)])
    have u: "store_ok st'" "st_devices st' = st_devices st1" "st_keys st' = st_keys st1" "st_identities st' = st_identities st1"
      using st2 ok1 upsert_incremental_ok [OF _ ok1] by auto
    obtain p f where pf: "keeps_rows p f" "\<forall>r. dv_approved (f r) = dv_approved r \<and> dv_identity (f r) = dv_identity r"
      "st_devices st1 = update_where p f (st_devices st)"
      using update_managed_ok(2) [OF assms(2)] unfolding st1_def by blast
    have "map approval_view (st_devices st1) = map approval_view (st_devices st)"
      unfolding pf(3) by (rule map_update_where) (use pf in \<open>simp add: approval_view_def keeps_rows_def\<close>)
    then show ?thesis using u update_managed_ok(3,4) [OF assms(2)] by (simp add: st1_def)
  qed
qed

lemma observe_ok:
  assumes "ObserveIdentityDevice ids i ob st = Ok (a, st')" "store_ok st"
  shows "store_ok st' \<and> map approval_view (st_devices st') = map approval_view (st_devices st) \<and> st_identities st' = st_identities st \<and>
    (st_keys st' = st_keys st \<or> (\<exists>k. st_keys st' = st_keys st @ [k] \<and> ik_device k = None))"
proof -
  define requested where "requested = filterApprovedCapabilities (ob_RequestedCapabilities ob) (ob_RequestedCapabilities ob)"
  obtain n where n: "find (\<lambda>n. in_id n = i \<and> in_status n = IdentityStatusActive) (st_identities st) = Some n"
    using assms(1) by (auto simp: ObserveIdentityDevice_def Let_def split: if_splits option.splits)
  show ?thesis
  proof (cases "key_by_fingerprint (ob_Fingerprint ob) st")
    case None
    define k where "k = \<lparr>ik_fingerprint = ob_Fingerprint ob, ik_device = None,
                      ik_installation = ob_InstallationID ob, ik_key = ob_PublicKey ob, ik_status = EnrollmentPending\<rparr>"
    have o: "observe_pending ids i ob requested (st\<lparr>st_keys := st_keys st @ [k]\<rparr>) = Ok (a, st')"
      using assms(1) None n by (auto simp: ObserveIdentityDevice_def Let_def k_def requested_def split: if_splits)
    have ok: "store_ok (st\<lparr>st_keys := st_keys st @ [k]\<rparr>)" by (rule new_key_ok) (use assms None in \<open>simp_all add: k_def\<close>)
    show ?thesis using observe_pending_ok [OF o ok] by (simp add: k_def)
  next
    case (Some k)
    consider (approved) "observe_approved ids i (in_revision n) ob requested (ik_device k) st = Ok (a, st')"
      | (same) "st' = st" | (pending) "observe_pending ids i ob requested st = Ok (a, st')"
      using assms(1) Some n unfolding ObserveIdentityDevice_def Let_def requested_def [symmetric]
      by (auto split: if_splits option.splits)
    then show ?thesis
    proof cases
      case approved
      then show ?thesis using observe_approved_ok [OF _ assms(2)] by simp
    next
      case same
      then show ?thesis using assms(2) by simp
    next
      case pending
      then show ?thesis using observe_pending_ok [OF _ assms(2)] by simp
    qed
  qed
qed

subsection \<open>Administrative operations\<close>

lemma device_found: "device_by_id d st = Some r \<Longrightarrow> r \<in> set (st_devices st) \<and> dv_id r = d"
  unfolding device_by_id_def using find_Some by fastforce

lemma set_capabilities_ok:
  assumes "store_ok st" "approved_ok cs"
  shows "store_ok (update_devices (\<lambda>r. dv_id r = d \<and> dv_state r = EnrollmentApproved) (\<lambda>r. r\<lparr>dv_approved := cs, dv_denied := ds\<rparr>) st)"
proof -
  have k: "keeps_rows (\<lambda>r. dv_id r = d \<and> dv_state r = EnrollmentApproved) (\<lambda>r. r\<lparr>dv_approved := cs, dv_denied := ds\<rparr>)"
    by (simp add: keeps_rows_def)
  have ok: "device_ok (r\<lparr>dv_approved := cs, dv_denied := ds\<rparr>)" if "device_ok r" for r
    using that assms(2) by (simp add: device_ok_def)
  show ?thesis using assms(1) update_devices_keeps [OF k ok] by (simp add: store_ok_def)
qed

lemma request_state_ok: "store_ok st \<Longrightarrow> store_ok (update_requests p (\<lambda>r. r\<lparr>rq_state := f r\<rparr>) st)"
  using requests_keep [of "st_requests st" p "\<lambda>r. r\<lparr>rq_state := f r\<rparr>"] by (simp add: store_ok_def)

lemma same_tables_ok:
  "store_ok st \<Longrightarrow> st_devices st' = st_devices st \<Longrightarrow> st_keys st' = st_keys st \<Longrightarrow> st_requests st' = st_requests st \<Longrightarrow>
    st_identities st' = st_identities st \<Longrightarrow> store_ok st'"
  by (simp add: store_ok_def)

lemma approve_additional_ok:
  assumes "approveAdditionalCapabilities ni rq d requested selected st = Ok (r, st')" "store_ok st" "plain selected"
  shows "store_ok st'"
proof -
  obtain row where row: "device_by_id d st = Some row" using assms(1)
    by (auto simp: approveAdditionalCapabilities_def split: option.splits)
  define merged where "merged = normalizeCapabilities (normalizeCapabilities (dv_approved row) @ selected)"
  have dep: "validateCapabilityDependencies merged"
    using assms(1) row by (auto simp: approveAdditionalCapabilities_def Let_def merged_def split: if_splits)
  have "device_ok row" using assms(2) device_found [OF row] by (simp add: store_ok_def devices_ok_def)
  then have ok: "approved_ok merged"
    using approved_ok_merged [OF _ assms(3)] dep unfolding merged_def device_ok_def by blast
  obtain dn i1 cs1 where st': "st' = syncDeviceRDPService ni d cs1 (replaceDeviceRuntimeGrants d cs1
      (update_requests (\<lambda>r. rq_id r = rq \<and> rq_state r = EnrollmentPending) (\<lambda>r. r\<lparr>rq_state := EnrollmentApproved\<rparr>)
        (update_devices (\<lambda>r. dv_id r = d \<and> dv_state r = EnrollmentApproved) (\<lambda>r. r\<lparr>dv_approved := merged, dv_denied := dn\<rparr>) st)))"
    using assms(1) row by (auto simp: approveAdditionalCapabilities_def Let_def merged_def split: if_splits)
  show ?thesis unfolding st'
    by (rule same_tables_ok [OF request_state_ok [OF set_capabilities_ok [OF assms(2) ok]]]) simp_all
qed

lemma count_where_1: "count_where p rows = 1 \<longleftrightarrow> (\<exists>r. filter p rows = [r])"
  by (auto simp: count_where_def length_Suc_conv)

lemma distinct_map_eq: "distinct (map g rows) \<Longrightarrow> x \<in> set rows \<Longrightarrow> y \<in> set rows \<Longrightarrow> g x = g y \<Longrightarrow> x = y"
  by (simp add: distinct_map inj_on_def)

lemma approve_first_ok:
  assumes "approve_first ids rv rq requested approved st = Ok (r, st')" "store_ok st" "plain approved" "approved \<noteq> []"
    and key: "key_by_fingerprint (rq_fingerprint rq) st = Some k" "ik_status k = EnrollmentPending"
  shows "store_ok st'"
proof -
  define d where "d = ''dev_'' @ fst ids"
  let ?p = "\<lambda>k. ik_fingerprint k = rq_fingerprint rq \<and> ik_status k = EnrollmentPending"
  let ?f = "\<lambda>k. k\<lparr>ik_device := Some d, ik_status := EnrollmentApproved\<rparr>"
  obtain row where row: "dv_id row = d" "dv_fingerprint row = rq_fingerprint rq" "dv_state row = EnrollmentApproved" "dv_approved row = approved"
    and fresh: "d \<notin> dv_id ` set (st_devices st)" "rq_fingerprint rq \<notin> dv_fingerprint ` set (st_devices st)"
    and dep: "validateCapabilityDependencies approved"
    and st': "st_devices st' = st_devices st @ [row]" "st_keys st' = update_where ?p ?f (st_keys st)"
      "st_requests st' = update_where (\<lambda>r. rq_id r = rq_id rq \<and> rq_state r = EnrollmentPending) (\<lambda>r. r\<lparr>rq_state := EnrollmentApproved\<rparr>) (st_requests st)"
      "st_identities st' = st_identities st"
  proof -
    have u: "device_by_id d st = None" "\<not> (\<exists>r \<in> set (st_devices st). dv_fingerprint r = rq_fingerprint rq)"
      "validateCapabilityDependencies approved"
      using assms(1) by (auto simp: approve_first_def Let_def d_def split: if_splits)
    have f: "d \<notin> dv_id ` set (st_devices st)" "rq_fingerprint rq \<notin> dv_fingerprint ` set (st_devices st)"
      using u(1,2) by (auto simp: device_by_id_def find_None_map)
    show thesis
      by (rule that [OF _ _ _ _ f u(3), of r])
        (use assms(1) u normalize_plain [OF assms(3)] in \<open>auto simp: approve_first_def Let_def d_def split: if_splits\<close>)
  qed
  have devs: "devices_ok (st_devices st')"
    using assms(2-4) dep fresh row unfolding st' by (auto simp: store_ok_def devices_ok_def device_ok_def approved_ok_def)
  have kin: "k \<in> set (st_keys st)" "ik_fingerprint k = rq_fingerprint rq"
    using key(1) unfolding key_by_fingerprint_def using find_Some by fastforce+
  have keys: "keys_ok (st_keys st) (st_devices st)" using assms(2) by (simp add: store_ok_def)
  have "key_ok (st_devices st') x" if x: "x \<in> set (st_keys st')" for x
  proof -
    obtain x0 where x0: "x0 \<in> set (st_keys st)" "x = (if ?p x0 then ?f x0 else x0)" using x by (auto simp: st' set_update_where)
    show ?thesis
    proof (cases "?p x0")
      case True
      then show ?thesis using x0(2) row by (auto simp: st' key_ok_def)
    next
      case False
      then have "x = x0" using x0(2) by auto
      then have "key_ok (st_devices st) x" using x0(1) keys by (simp add: keys_ok_def)
      then show ?thesis by (rule key_ok_mono) (auto simp: st')
    qed
  qed
  moreover have "has_key (st_keys st') r" if r: "r \<in> set (st_devices st')" "dv_state r = EnrollmentApproved" for r
  proof (cases "r = row")
    case True
    have "?f k \<in> set (st_keys st')" using kin key(2) by (auto simp: st' set_update_where)
    then show ?thesis using kin row True unfolding has_key_def by (intro bexI [of _ "?f k"]) simp_all
  next
    case False
    then have "r \<in> set (st_devices st)" using r st' by simp
    then obtain x where x: "x \<in> set (st_keys st)" "ik_device x = Some (dv_id r)" "ik_fingerprint x = dv_fingerprint r"
      using keys r(2) by (auto simp: keys_ok_def has_key_def)
    have "\<not> ?p x" using keys x by (auto simp: keys_ok_def key_ok_def)
    then have "x \<in> set (st_keys st')" using x by (auto simp: st' set_update_where image_iff)
    then show ?thesis using x by (auto simp: has_key_def)
  qed
  moreover have "distinct (map ik_fingerprint (st_keys st'))"
    using keys by (simp add: st' keys_ok_def map_update_where)
  ultimately have "keys_ok (st_keys st') (st_devices st')" by (auto simp: keys_ok_def)
  then show ?thesis using assms(2) devs requests_keep [of "st_requests st"] by (simp add: store_ok_def st')
qed

lemma request_found: "request_by_id q st = Some rq \<Longrightarrow> rq \<in> set (st_requests st) \<and> rq_id rq = q"
  unfolding request_by_id_def using find_Some by fastforce

lemma key_found: "key_by_fingerprint f st = Some k \<Longrightarrow> k \<in> set (st_keys st) \<and> ik_fingerprint k = f"
  unfolding key_by_fingerprint_def using find_Some by fastforce

lemma approve_ok:
  assumes "ApproveEnrollmentForIdentity ids q rv al cs st = Ok (r, st')" "store_ok st"
  shows "store_ok st'"
proof -
  obtain rq k where rq: "request_by_id q st = Some rq" and k: "key_by_fingerprint (rq_fingerprint rq) st = Some k"
    using assms(1) by (auto simp: ApproveEnrollmentForIdentity_def Let_def split: option.splits if_splits)
  define requested where "requested = normalizeCapabilities (rq_requested rq)"
  define approved where "approved = filterApprovedCapabilities cs requested"
  consider (additional) d where "approveAdditionalCapabilities (snd ids) q d requested approved st = Ok (r, st')"
    | (first) "ik_status k = EnrollmentPending" "approved \<noteq> []" "approve_first ids rv rq requested approved st = Ok (r, st')"
    using assms(1) rq k unfolding ApproveEnrollmentForIdentity_def Let_def requested_def approved_def
    by (auto split: option.splits if_splits)
  then show ?thesis
  proof cases
    case additional
    then show ?thesis using approve_additional_ok [OF _ assms(2)] plain_filter by (simp add: approved_def)
  next
    case first
    show ?thesis by (rule approve_first_ok [OF first(3) assms(2) _ first(2) k first(1)]) (simp add: approved_def plain_filter)
  qed
qed

lemma has_key_update:
  assumes "has_key ks r" "\<And>k. ik_device (f k) = ik_device k \<and> ik_fingerprint (f k) = ik_fingerprint k"
  shows "has_key (update_where p f ks) r"
proof -
  obtain k where "k \<in> set ks" "ik_device k = Some (dv_id r)" "ik_fingerprint k = dv_fingerprint r"
    using assms(1) by (auto simp: has_key_def)
  then show ?thesis
    using assms(2) unfolding has_key_def by (intro bexI [of _ "if p k then f k else k"]) (auto simp: set_update_where)
qed

lemma key_ok_Some:
  "ik_device k = Some (dv_id r) \<Longrightarrow> r \<in> set ds \<Longrightarrow> dv_fingerprint r = ik_fingerprint k \<Longrightarrow> ik_status k \<noteq> EnrollmentPending \<Longrightarrow>
    (ik_status k = EnrollmentApproved \<longleftrightarrow> dv_state r = EnrollmentApproved) \<Longrightarrow> key_ok ds k"
  by (auto simp: key_ok_def)

text \<open>Changing the status of keys away from approved, together with the state of the devices they name.\<close>

lemma review_ok:
  assumes "reviewEnrollment q al EnrollmentRejected st = Ok st'" "store_ok st"
  shows "store_ok st'"
proof -
  obtain rq k where rq: "request_by_id q st = Some rq" and k: "key_by_fingerprint (rq_fingerprint rq) st = Some k"
    using assms(1) by (auto simp: reviewEnrollment_def split: option.splits)
  let ?st1 = "update_requests (\<lambda>r. rq_id r = q) (\<lambda>r. r\<lparr>rq_state := EnrollmentRejected\<rparr>) st"
  have ok1: "store_ok ?st1" by (rule request_state_ok [OF assms(2)])
  consider (key) "ik_status k \<noteq> EnrollmentApproved \<or> ik_device k = None"
      "st' = update_keys (\<lambda>i. ik_fingerprint i = rq_fingerprint rq) (\<lambda>i. i\<lparr>ik_status := EnrollmentRejected\<rparr>) ?st1"
    | (device) d dn where "st' = update_devices (\<lambda>r. dv_id r = d) (\<lambda>r. r\<lparr>dv_denied := dn\<rparr>) ?st1"
    using assms(1) rq k by (auto simp: reviewEnrollment_def Let_def split: option.splits if_splits)
  then show ?thesis
  proof cases
    case key
    let ?p = "\<lambda>i. ik_fingerprint i = rq_fingerprint rq" and ?f = "\<lambda>i. i\<lparr>ik_status := EnrollmentRejected\<rparr>"
    have keys: "keys_ok (st_keys st) (st_devices st)" using assms(2) by (simp add: store_ok_def)
    have un: "x = k" if "x \<in> set (st_keys st)" "?p x" for x
      using that key_found [OF k] keys distinct_map_eq [of ik_fingerprint "st_keys st" x k] by (auto simp: keys_ok_def)
    have kk: "key_ok (st_devices st) k" using keys key_found [OF k] by (simp add: keys_ok_def)
    have notap: "ik_status k \<noteq> EnrollmentApproved" using key(1) kk by (auto simp: key_ok_def)
    have "key_ok (st_devices st) (?f k)" using kk notap by (auto simp: key_ok_def split: option.splits)
    then have "\<forall>x \<in> set (update_where ?p ?f (st_keys st)). key_ok (st_devices st) x"
      using keys un by (auto simp: set_update_where keys_ok_def)
    moreover have "has_key (update_where ?p ?f (st_keys st)) r" if "has_key (st_keys st) r" for r
      by (rule has_key_update [OF that]) simp
    ultimately have "keys_ok (update_where ?p ?f (st_keys st)) (st_devices st)"
      using keys by (auto simp: keys_ok_def map_update_where)
    then show ?thesis using ok1 by (simp add: key(2) store_ok_def)
  next
    case device
    have "keeps_rows (\<lambda>r. dv_id r = d) (\<lambda>r. r\<lparr>dv_denied := dn\<rparr>)" by (simp add: keeps_rows_def)
    then show ?thesis using ok1 update_devices_keeps [of "\<lambda>r. dv_id r = d" "\<lambda>r. r\<lparr>dv_denied := dn\<rparr>"]
      by (simp add: device store_ok_def device_ok_def)
  qed
qed

lemma revoke_ok:
  assumes "RevokeDevice d st = Ok st'" "store_ok st"
  shows "store_ok st'"
proof -
  let ?p = "\<lambda>r. dv_id r = d \<and> dv_state r = EnrollmentApproved" and ?f = "\<lambda>r. r\<lparr>dv_state := EnrollmentRevoked\<rparr>"
  let ?q = "\<lambda>k. ik_device k = Some d" and ?g = "\<lambda>k. k\<lparr>ik_status := EnrollmentRevoked\<rparr>"
  have st': "st_devices st' = update_where ?p ?f (st_devices st)" "st_keys st' = update_where ?q ?g (st_keys st)"
    "st_requests st' = st_requests st" "st_identities st' = st_identities st"
    using assms(1) by (auto simp: RevokeDevice_def Let_def split: if_splits)
  have ds: "devices_ok (st_devices st)" and ks: "keys_ok (st_keys st) (st_devices st)" using assms(2) by (simp_all add: store_ok_def)
  have dok: "\<forall>r \<in> set (update_where ?p ?f (st_devices st)). device_ok r"
    using ds by (auto simp: devices_ok_def set_update_where device_ok_def)
  have devs: "devices_ok (st_devices st')"
    using ds dok by (simp add: st' devices_ok_def map_update_where)
  have "key_ok (st_devices st') x" if x: "x \<in> set (st_keys st')" for x
  proof -
    obtain x0 where x0: "x0 \<in> set (st_keys st)" "x = (if ?q x0 then ?g x0 else x0)" using x by (auto simp: st' set_update_where)
    have k0: "key_ok (st_devices st) x0" using ks x0 by (simp add: keys_ok_def)
    show ?thesis
    proof (cases "ik_device x0")
      case None
      then show ?thesis using k0 x0 by (simp add: key_ok_def)
    next
      case (Some e)
      then obtain r where r: "r \<in> set (st_devices st)" "dv_id r = e" "dv_fingerprint r = ik_fingerprint x0"
        "ik_status x0 = EnrollmentApproved \<longleftrightarrow> dv_state r = EnrollmentApproved" "ik_status x0 \<noteq> EnrollmentPending"
        using k0 by (auto simp: key_ok_def)
      let ?r = "if ?p r then ?f r else r"
      show ?thesis
      proof (rule key_ok_Some [of x ?r])
        show "?r \<in> set (st_devices st')" using r(1) by (auto simp: st' set_update_where)
        show "ik_device x = Some (dv_id ?r)" "dv_fingerprint ?r = ik_fingerprint x" using r Some x0(2) by simp_all
        show "ik_status x \<noteq> EnrollmentPending" using r(5) x0(2) by simp
        show "ik_status x = EnrollmentApproved \<longleftrightarrow> dv_state ?r = EnrollmentApproved"
        proof (cases "e = d")
          case True
          then show ?thesis using r(2) Some x0(2) by simp
        next
          case False
          then show ?thesis using r(2,4) Some x0(2) by simp
        qed
      qed
    qed
  qed
  moreover have "has_key (st_keys st') r" if r: "r \<in> set (st_devices st')" "dv_state r = EnrollmentApproved" for r
  proof -
    obtain r1 where r1: "r1 \<in> set (st_devices st)" "r = (if ?p r1 then ?f r1 else r1)"
      using r(1) unfolding st'(1) set_update_where by blast
    have "\<not> ?p r1" using r(2) r1(2) by (cases "?p r1") simp_all
    then have "r = r1" using r1(2) by (simp only: if_False)
    then have r0: "r \<in> set (st_devices st)" using r1(1) by simp
    then have "has_key (st_keys st) r" using ks r(2) by (simp add: keys_ok_def)
    then show ?thesis unfolding st'(2) by (rule has_key_update) simp
  qed
  moreover have "distinct (map ik_fingerprint (st_keys st'))" using ks by (simp add: st' keys_ok_def map_update_where)
  ultimately have "keys_ok (st_keys st') (st_devices st')" by (auto simp: keys_ok_def)
  then show ?thesis using assms(2) devs by (simp add: store_ok_def st')
qed

lemma update_capabilities_ok:
  assumes "UpdateDeviceCapabilities ni d rv cs st = Ok (r, st')" "store_ok st"
  shows "store_ok st'"
proof -
  obtain row where row: "device_by_id d st = Some row"
    using assms(1) by (auto simp: UpdateDeviceCapabilities_def Let_def split: if_splits option.splits)
  define approved where "approved = filterApprovedCapabilities (normalizeCapabilities cs) (normalizeCapabilities (dv_requested row))"
  have ap: "approved_ok approved"
    using assms(1) row plain_filter unfolding approved_ok_def approved_def
    by (auto simp: UpdateDeviceCapabilities_def Let_def split: if_splits)
  let ?st1 = "\<lambda>dn. update_devices (\<lambda>r. dv_id r = d \<and> dv_state r = EnrollmentApproved)
      (\<lambda>r. r\<lparr>dv_approved := approved, dv_denied := dn\<rparr>) st"
  have ok1: "store_ok (?st1 dn)" for dn by (rule set_capabilities_ok [OF assms(2) ap])
  have ok2: "store_ok (resolve_pending f a (?st1 dn))" for f a dn
    using ok1 request_state_ok by (auto simp: resolve_pending_def split: option.splits)
  have n: "normalizeCapabilities approved = approved" using ap by (simp add: approved_ok_def normalize_plain)
  have "\<exists>f a dn. st_devices st' = st_devices (resolve_pending f a (?st1 dn)) \<and> st_keys st' = st_keys (resolve_pending f a (?st1 dn)) \<and>
      st_requests st' = st_requests (resolve_pending f a (?st1 dn)) \<and> st_identities st' = st_identities (resolve_pending f a (?st1 dn))"
    using assms(1) row n unfolding UpdateDeviceCapabilities_def Let_def approved_def
    by (intro exI [of _ "dv_fingerprint row"] exI [of _ approved]
        exI [of _ "normalizeCapabilities (capabilitiesExcept (normalizeCapabilities (dv_requested row)) approved)"])
      (auto simp: approved_def split: if_splits)
  then show ?thesis using same_tables_ok [OF ok2] by blast
qed

lemma delete_device_ok:
  assumes "DeleteDevice d rv st = Ok st'" "store_ok st"
  shows "store_ok st'"
proof -
  obtain row where row: "device_by_id d st = Some row"
    using assms(1) by (auto simp: DeleteDevice_def split: if_splits option.splits)
  let ?q = "\<lambda>k. ik_fingerprint k = dv_fingerprint row \<and> ik_device k = Some d"
  have st': "st_devices st' = delete_where (\<lambda>r. dv_id r = d) (st_devices st)" "st_keys st' = delete_where ?q (st_keys st)"
    "st_requests st' = delete_where (\<lambda>r. rq_fingerprint r = dv_fingerprint row) (st_requests st)" "st_identities st' = st_identities st"
    and fk: "\<forall>k \<in> set (delete_where ?q (st_keys st)). ik_device k \<noteq> Some d"
    using assms(1) row by (auto simp: DeleteDevice_def Let_def cascade_device_def split: if_splits)
  have ds: "devices_ok (st_devices st)" and ks: "keys_ok (st_keys st) (st_devices st)" using assms(2) by (simp_all add: store_ok_def)
  have "devices_ok (st_devices st')"
    using ds by (simp add: devices_ok_def st' distinct_delete_where) (simp add: delete_where_def)
  moreover have "key_ok (st_devices st') k" if k: "k \<in> set (st_keys st')" for k
  proof -
    have "ik_device k \<noteq> Some d" using k fk unfolding st'(2) by simp
    moreover have "k \<in> set (st_keys st)" using k unfolding st'(2) delete_where_def by simp
    then have "key_ok (st_devices st) k" using ks by (simp add: keys_ok_def)
    ultimately show ?thesis unfolding key_ok_def st' delete_where_def by (cases "ik_device k") auto
  qed
  moreover have "has_key (st_keys st') r" if r: "r \<in> set (st_devices st')" "dv_state r = EnrollmentApproved" for r
  proof -
    have "r \<in> set (st_devices st)" "dv_id r \<noteq> d" using r by (auto simp: st' delete_where_def)
    then show ?thesis using ks r(2) unfolding keys_ok_def has_key_def st' delete_where_def by fastforce
  qed
  moreover have "distinct (map ik_fingerprint (st_keys st'))" using ks by (simp add: st' keys_ok_def distinct_delete_where)
  ultimately show ?thesis using assms(2) by (simp add: store_ok_def keys_ok_def st' distinct_delete_where)
qed

lemma set_identity_ok:
  assumes "SetDeviceIdentity d i ac st = Ok st'" "store_ok st"
  shows "store_ok st'"
proof -
  let ?f = "\<lambda>o' (r :: device_row). r\<lparr>dv_identity := Some (TrimSpace i), dv_owner := o' r\<rparr>"
  obtain row where row: "device_by_id (TrimSpace d) st = Some row"
    using assms(1) by (auto simp: SetDeviceIdentity_def Let_def split: if_splits option.splits)
  define owner where "owner = (case map_of (st_members st) (TrimSpace i) of None \<Rightarrow> [] | Some u \<Rightarrow> u)"
  define o' where "o' = (\<lambda>r :: device_row. if owner \<noteq> [] then Some owner else dv_owner r)"
  define st1 where "st1 = (if dv_identity row \<noteq> Some (TrimSpace i)
      then st\<lparr>st_shares := delete_where (\<lambda>g. sh_target g = TrimSpace d) (st_shares st)\<rparr> else st)"
  have s: "st' = st1 \<or> st' = update_devices (\<lambda>r. dv_id r = TrimSpace d) (?f o') st1"
    using assms(1) row unfolding SetDeviceIdentity_def Let_def owner_def [symmetric] o'_def st1_def
    by (simp split: if_splits)
  have t: "st_devices st1 = st_devices st" "st_keys st1 = st_keys st" "st_requests st1 = st_requests st" "st_identities st1 = st_identities st"
    by (simp_all add: st1_def)
  have k: "keeps_rows (\<lambda>r. dv_id r = TrimSpace d) (?f o')" by (simp add: keeps_rows_def)
  have ok1: "store_ok st1" using same_tables_ok [OF assms(2) t] .
  show ?thesis using s ok1 update_devices_keeps [OF k] by (auto simp: store_ok_def device_ok_def)
qed

lemma update_identity_ok:
  assumes "UpdateIdentity i ac nm sta rv st = Ok st'" "store_ok st"
  shows "store_ok st'"
proof -
  obtain p f where "st' = st\<lparr>st_identities := update_where p f (st_identities st)\<rparr>" "\<And>n. in_id (f n) = in_id n"
    using assms(1) unfolding UpdateIdentity_def Let_def by (auto split: if_splits option.splits)
  then show ?thesis using assms(2) by (simp add: store_ok_def map_update_where)
qed

end
