(* ===== verification/Enrollment_Policy.thy ===== *)
theory Enrollment_Policy
  imports Enrollment_Store
begin

text \<open>
  What the enrollment store guarantees: observing an installation never approves anything, approvals stay consistent
  over every sequence of operations, and two ways in which an approval goes further than it should.
\<close>

section \<open>Reachable stores\<close>

definition fresh_store :: "store \<Rightarrow> bool" where
  "fresh_store st \<longleftrightarrow> st_devices st = [] \<and> st_keys st = [] \<and> st_requests st = [] \<and> distinct (map in_id (st_identities st))"

inductive store_step :: "store \<Rightarrow> store \<Rightarrow> bool" where
  observe: "ObserveIdentityDevice ids i ob st = Ok (a, st') \<Longrightarrow> store_step st st'"
| approve: "ApproveEnrollmentForIdentity ids q reviewer allowed cs st = Ok (r, st') \<Longrightarrow> store_step st st'"
| reject: "RejectEnrollmentForIdentity q allowed st = Ok st' \<Longrightarrow> store_step st st'"
| revoke: "RevokeDevice d st = Ok st' \<Longrightarrow> store_step st st'"
| capabilities: "UpdateDeviceCapabilities newid d reviewer cs st = Ok (r, st') \<Longrightarrow> store_step st st'"
| delete: "DeleteDevice d reviewer st = Ok st' \<Longrightarrow> store_step st st'"
| move: "SetDeviceIdentity d i actor st = Ok st' \<Longrightarrow> store_step st st'"
| identity: "UpdateIdentity i actor nm status revision st = Ok st' \<Longrightarrow> store_step st st'"

inductive store_reach :: "store \<Rightarrow> bool" where
  fresh: "fresh_store st \<Longrightarrow> store_reach st"
| step: "store_reach st \<Longrightarrow> store_step st st' \<Longrightarrow> store_reach st'"

inductive_cases store_stepE: "store_step st st'"

lemma store_step_ok: "store_step st st' \<Longrightarrow> store_ok st \<Longrightarrow> store_ok st'"
proof (induction rule: store_step.induct)
  case (observe ids i ob st a st')
  then show ?case using observe_ok by blast
next
  case (reject q allowed st st')
  then show ?case unfolding RejectEnrollmentForIdentity_def by (rule review_ok)
qed (rule approve_ok revoke_ok update_capabilities_ok delete_device_ok set_identity_ok update_identity_ok; assumption)+

lemma store_reach_ok: "store_reach st \<Longrightarrow> store_ok st"
proof (induction rule: store_reach.induct)
  case (fresh st)
  then show ?case by (simp add: fresh_store_def store_ok_def devices_ok_def keys_ok_def)
qed (rule store_step_ok)

section \<open>Who is authorized\<close>

lemma count_singleton:
  assumes "distinct rows" "\<And>x y. x \<in> set rows \<Longrightarrow> y \<in> set rows \<Longrightarrow> p x \<Longrightarrow> p y \<Longrightarrow> x = y"
  shows "count_where p rows = 1 \<longleftrightarrow> (\<exists>x \<in> set rows. p x)"
proof -
  have c: "count_where p rows = card {x \<in> set rows. p x}"
    using distinct_card [of "filter p rows"] assms(1) by (simp add: count_where_def Int_def conj_commute)
  have "{x \<in> set rows. p x} = {} \<or> (\<exists>x. {x \<in> set rows. p x} = {x})" using assms(2) by blast
  then show ?thesis
  proof
    assume e: "{x \<in> set rows. p x} = {}"
    show ?thesis unfolding c e using e by simp
  next
    assume "\<exists>x. {x \<in> set rows. p x} = {x}"
    then obtain x where e: "{x \<in> set rows. p x} = {x}" by blast
    then have "x \<in> set rows" "p x" by blast+
    then show ?thesis unfolding c e by auto
  qed
qed

lemma distinct_rows: "distinct (map g rows) \<Longrightarrow> distinct rows"
  by (simp add: distinct_map)

lemma authorized_iff:
  assumes "store_ok st"
  shows "IsIdentityDeviceAuthorized st f d i \<longleftrightarrow>
    (\<exists>r \<in> set (st_devices st). dv_id r = d \<and> dv_fingerprint r = f \<and> dv_state r = EnrollmentApproved \<and> dv_identity r = Some i) \<and>
    (\<exists>n \<in> set (st_identities st). in_id n = i \<and> in_status n = IdentityStatusActive)"
proof -
  have dk: "distinct (map ik_fingerprint (st_keys st))" and dd: "distinct (map dv_id (st_devices st))"
    and di: "distinct (map in_id (st_identities st))"
    using assms by (simp_all add: store_ok_def keys_ok_def devices_ok_def)
  have rows: "distinct (join_identities st)"
    using dk dd di by (simp add: join_identities_def join_keys_devices_def distinct_product distinct_rows)
  let ?p = "\<lambda>((k, r), n). ik_fingerprint k = f \<and> ik_device k = Some d \<and> ik_status k = EnrollmentApproved \<and>
       dv_state r = EnrollmentApproved \<and> dv_identity r = Some i \<and> in_status n = IdentityStatusActive"
  have mem: "((k, r), n) \<in> set (join_identities st) \<longleftrightarrow> k \<in> set (st_keys st) \<and> r \<in> set (st_devices st) \<and> n \<in> set (st_identities st) \<and>
      ik_device k = Some (dv_id r) \<and> dv_identity r = Some (in_id n)" for k r n
    by (auto simp: join_identities_def join_keys_devices_def)
  have "IsIdentityDeviceAuthorized st f d i \<longleftrightarrow> (\<exists>x \<in> set (join_identities st). ?p x)"
    unfolding IsIdentityDeviceAuthorized_def
  proof (rule count_singleton [OF rows])
    fix x y
    assume a: "x \<in> set (join_identities st)" "y \<in> set (join_identities st)" "?p x" "?p y"
    obtain k r n k' r' n' where xy: "x = ((k, r), n)" "y = ((k', r'), n')" by (metis prod.collapse)
    have m: "k \<in> set (st_keys st)" "k' \<in> set (st_keys st)" "r \<in> set (st_devices st)" "r' \<in> set (st_devices st)"
      "n \<in> set (st_identities st)" "n' \<in> set (st_identities st)" "dv_id r = dv_id r'" "in_id n = in_id n'"
      "ik_fingerprint k = ik_fingerprint k'"
      using a unfolding xy by (auto simp only: mem prod.case)
    show "x = y"
      unfolding xy using distinct_map_eq [OF dk m(1,2,9)] distinct_map_eq [OF dd m(3,4,7)] distinct_map_eq [OF di m(5,6,8)] by simp
  qed
  also have "\<dots> \<longleftrightarrow> (\<exists>k r n. k \<in> set (st_keys st) \<and> r \<in> set (st_devices st) \<and> n \<in> set (st_identities st) \<and>
      ik_device k = Some d \<and> dv_id r = d \<and> in_id n = i \<and> ik_fingerprint k = f \<and> ik_status k = EnrollmentApproved \<and>
       dv_state r = EnrollmentApproved \<and> dv_identity r = Some i \<and> in_status n = IdentityStatusActive)"
    by (simp add: mem Bex_def split_paired_Ex, (rule ex_cong1 conj_cong [OF refl])+, auto)
  also have "\<dots> \<longleftrightarrow> (\<exists>r \<in> set (st_devices st). dv_id r = d \<and> dv_fingerprint r = f \<and> dv_state r = EnrollmentApproved \<and> dv_identity r = Some i) \<and>
    (\<exists>n \<in> set (st_identities st). in_id n = i \<and> in_status n = IdentityStatusActive)" (is "?l \<longleftrightarrow> ?r")
  proof
    assume ?l
    then obtain k r n where k: "k \<in> set (st_keys st)" "ik_device k = Some d" "ik_fingerprint k = f"
      and r: "r \<in> set (st_devices st)" "dv_id r = d" "dv_state r = EnrollmentApproved" "dv_identity r = Some i"
      and n: "n \<in> set (st_identities st)" "in_id n = i" "in_status n = IdentityStatusActive" by blast
    have "key_ok (st_devices st) k" using assms k by (simp add: store_ok_def keys_ok_def)
    then obtain r' where "r' \<in> set (st_devices st)" "dv_id r' = d" "dv_fingerprint r' = f" using k by (auto simp: key_ok_def)
    then have "dv_fingerprint r = f" using distinct_map_eq [OF dd] r by auto
    then show ?r using r n by blast
  next
    assume ?r
    then obtain r n where r: "r \<in> set (st_devices st)" "dv_id r = d" "dv_fingerprint r = f" "dv_state r = EnrollmentApproved" "dv_identity r = Some i"
      and n: "n \<in> set (st_identities st)" "in_id n = i" "in_status n = IdentityStatusActive" by blast
    have "has_key (st_keys st) r" using assms r by (simp add: store_ok_def keys_ok_def)
    then obtain k where k: "k \<in> set (st_keys st)" "ik_device k = Some d" "ik_fingerprint k = f" using r by (auto simp: has_key_def)
    have "key_ok (st_devices st) k" using assms k by (simp add: store_ok_def keys_ok_def)
    then obtain r' where r': "r' \<in> set (st_devices st)" "dv_id r' = d" "ik_status k = EnrollmentApproved \<longleftrightarrow> dv_state r' = EnrollmentApproved"
      using k by (auto simp: key_ok_def)
    then have "r' = r" using distinct_map_eq [OF dd] r by auto
    then have "ik_status k = EnrollmentApproved" using r'(3) r by simp
    then show ?l using k r n by blast
  qed
  finally show ?thesis .
qed

text \<open>What \<open>approval_view\<close> shows of the devices decides who is authorized.\<close>

lemma authorized_view:
  assumes "store_ok s" "store_ok t" "map approval_view (st_devices s) = map approval_view (st_devices t)"
    "st_identities s = st_identities t"
  shows "IsIdentityDeviceAuthorized s f d i = IsIdentityDeviceAuthorized t f d i"
proof -
  have e: "(\<exists>r \<in> set (st_devices u). dv_id r = d \<and> dv_fingerprint r = f \<and> dv_state r = EnrollmentApproved \<and> dv_identity r = Some i) \<longleftrightarrow>
      (\<exists>v \<in> set (map approval_view (st_devices u)). case v of (d1, i1, f1, s1, _) \<Rightarrow> d1 = d \<and> f1 = f \<and> s1 = EnrollmentApproved \<and> i1 = Some i)" for u
    by (auto simp: approval_view_def)
  show ?thesis unfolding authorized_iff [OF assms(1)] authorized_iff [OF assms(2)] e assms(3,4) ..
qed

section \<open>Properties\<close>

lemma effective_capabilities:
  assumes "approved_ok old" "validateCapabilityDependencies requested"
  shows "set (filterApprovedCapabilities (normalizeCapabilities old) requested) = set old \<inter> set requested"
    "validateCapabilityDependencies (filterApprovedCapabilities (normalizeCapabilities old) requested)"
proof -
  have "normalizeCapabilities old = old" "filterApprovedCapabilities old requested = filter (\<lambda>c. c \<in> set requested) old"
    using assms(1) filter_plain by (simp_all add: approved_ok_def normalize_plain)
  then show "set (filterApprovedCapabilities (normalizeCapabilities old) requested) = set old \<inter> set requested"
    "validateCapabilityDependencies (filterApprovedCapabilities (normalizeCapabilities old) requested)"
    using assms by (auto simp: approved_ok_def validateCapabilityDependencies_def)
qed

text \<open>C12. 
  Whatever an installation declares when it connects, the observation approves nothing: no device appears, and the
  state, identity and approved capabilities of every device stay as they were, so nobody becomes authorized. What it is
  granted for the session is what was approved for its device and is declared now, under the identity it is authorized for.
\<close>
theorem observing_never_approves:
  assumes reach: "store_reach st" and obs: "ObserveIdentityDevice ids i ob st = Ok (a, st')"
  shows "map approval_view (st_devices st') = map approval_view (st_devices st) \<and>
    IsIdentityDeviceAuthorized st' = IsIdentityDeviceAuthorized st \<and>
    (au_ApprovedCapabilities a \<noteq> [] \<longrightarrow>
      IsIdentityDeviceAuthorized st (ob_Fingerprint ob) (au_DeviceID a) i \<and>
      (\<exists>r \<in> set (st_devices st). dv_id r = au_DeviceID a \<and>
        set (au_ApprovedCapabilities a) = set (dv_approved r) \<inter> set (filterApprovedCapabilities (ob_RequestedCapabilities ob) (ob_RequestedCapabilities ob))) \<and>
      validateCapabilityDependencies (au_ApprovedCapabilities a))"
proof (intro conjI impI)
  have ok: "store_ok st" by (rule store_reach_ok [OF reach])
  note o = observe_ok [OF obs ok]
  show "map approval_view (st_devices st') = map approval_view (st_devices st)" using o by blast
  have "IsIdentityDeviceAuthorized st' f d j = IsIdentityDeviceAuthorized st f d j" for f d j
    by (rule authorized_view) (use o ok in auto)
  then show "IsIdentityDeviceAuthorized st' = IsIdentityDeviceAuthorized st" by (intro ext)
  assume ne: "au_ApprovedCapabilities a \<noteq> []"
  define requested where "requested = filterApprovedCapabilities (ob_RequestedCapabilities ob) (ob_RequestedCapabilities ob)"
  obtain n k where n: "find (\<lambda>n. in_id n = i \<and> in_status n = IdentityStatusActive) (st_identities st) = Some n"
    and dep: "validateCapabilityDependencies requested"
    and k: "key_by_fingerprint (ob_Fingerprint ob) st = Some k" "ik_status k = EnrollmentApproved"
    and oa: "observe_approved ids i (in_revision n) ob requested (ik_device k) st = Ok (a, st')"
  proof -
    obtain n where n: "find (\<lambda>n. in_id n = i \<and> in_status n = IdentityStatusActive) (st_identities st) = Some n"
      and dep: "validateCapabilityDependencies requested"
      using obs by (auto simp: ObserveIdentityDevice_def Let_def requested_def split: if_splits option.splits)
    have pend: "au_ApprovedCapabilities b = []" if "observe_pending ids i ob cs s = Ok (b, s')" for b cs s s'
      using that by (auto simp: observe_pending_def Let_def split: sum.splits option.splits)
    show thesis
    proof (cases "key_by_fingerprint (ob_Fingerprint ob) st")
      case None
      then show thesis using obs n ne pend by (auto simp: ObserveIdentityDevice_def Let_def split: if_splits)
    next
      case (Some k)
      then show thesis
        using that [OF n dep Some] obs n ne pend
        by (auto simp: ObserveIdentityDevice_def Let_def requested_def refusal_def split: if_splits option.splits)
    qed
  qed
  obtain d row where d: "ik_device k = Some d" "device_by_id d st = Some row" "dv_identity row = Some i"
    and a: "au_DeviceID a = d" "au_ApprovedCapabilities a = filterApprovedCapabilities (normalizeCapabilities (dv_approved row)) requested"
  proof -
    obtain d row where d: "ik_device k = Some d" "device_by_id d st = Some row"
      using oa by (auto simp: observe_approved_def split: option.splits if_splits)
    show thesis
      by (rule that [OF d])
        (use oa d ne in \<open>auto simp: observe_approved_def Let_def refusal_def split: if_splits sum.splits\<close>)
  qed
  have row: "row \<in> set (st_devices st)" "dv_id row = d" using device_found [OF d(2)] by simp_all
  have "device_ok row" using ok row by (simp add: store_ok_def devices_ok_def)
  then have ap: "approved_ok (dv_approved row)" by (simp add: device_ok_def)
  have kin: "k \<in> set (st_keys st)" "ik_fingerprint k = ob_Fingerprint ob" using key_found [OF k(1)] by simp_all
  have "key_ok (st_devices st) k" using ok kin by (simp add: store_ok_def keys_ok_def)
  then obtain r where r: "r \<in> set (st_devices st)" "dv_id r = d" "dv_fingerprint r = ob_Fingerprint ob" "dv_state r = EnrollmentApproved"
    using d k(2) kin by (auto simp: key_ok_def)
  have "distinct (map dv_id (st_devices st))" using ok by (simp add: store_ok_def devices_ok_def)
  then have "r = row" using distinct_map_eq r row by fastforce
  then have "IsIdentityDeviceAuthorized st (ob_Fingerprint ob) d i"
    unfolding authorized_iff [OF ok] using r row d(3) find_Some [OF n] by auto
  then show "IsIdentityDeviceAuthorized st (ob_Fingerprint ob) (au_DeviceID a) i" using a by simp
  show "\<exists>r \<in> set (st_devices st). dv_id r = au_DeviceID a \<and>
      set (au_ApprovedCapabilities a) = set (dv_approved r) \<inter> set (filterApprovedCapabilities (ob_RequestedCapabilities ob) (ob_RequestedCapabilities ob))"
    "validateCapabilityDependencies (au_ApprovedCapabilities a)"
    using effective_capabilities [OF ap dep] row a by (auto simp: requested_def)
qed

text \<open>C13. 
  After any sequence of observations and administrative decisions, an authorized device is so by one key and under
  one identity, a key authorizes one device, and the approved capabilities of every device are a nonempty set of known
  ones in which public RDP ingress comes with the RDP host.
\<close>
theorem approvals_consistent:
  assumes "store_reach st"
  shows "(\<forall>f d i f' i'. IsIdentityDeviceAuthorized st f d i \<and> IsIdentityDeviceAuthorized st f' d i' \<longrightarrow> f = f' \<and> i = i') \<and>
    (\<forall>f d i d' i'. IsIdentityDeviceAuthorized st f d i \<and> IsIdentityDeviceAuthorized st f d' i' \<longrightarrow> d = d') \<and>
    (\<forall>r \<in> set (st_devices st). dv_approved r \<noteq> [] \<and> distinct (dv_approved r) \<and>
      set (dv_approved r) \<subseteq> set allowed_capabilities \<and> validateCapabilityDependencies (dv_approved r))"
proof -
  have ok: "store_ok st" by (rule store_reach_ok [OF assms])
  have dd: "distinct (map dv_id (st_devices st))" and df: "distinct (map dv_fingerprint (st_devices st))"
    using ok by (simp_all add: store_ok_def devices_ok_def)
  have "f = f' \<and> i = i'" if "IsIdentityDeviceAuthorized st f d i" "IsIdentityDeviceAuthorized st f' d i'" for f d i f' i'
    using that distinct_map_eq [OF dd] unfolding authorized_iff [OF ok] by fastforce
  moreover have "d = d'" if "IsIdentityDeviceAuthorized st f d i" "IsIdentityDeviceAuthorized st f d' i'" for f d i d' i'
    using that distinct_map_eq [OF df] unfolding authorized_iff [OF ok] by fastforce
  moreover have "dv_approved r \<noteq> [] \<and> distinct (dv_approved r) \<and>
      set (dv_approved r) \<subseteq> set allowed_capabilities \<and> validateCapabilityDependencies (dv_approved r)"
    if "r \<in> set (st_devices st)" for r
    using that ok by (auto simp: store_ok_def devices_ok_def device_ok_def approved_ok_def plain_def)
  ultimately show ?thesis by blast
qed

section \<open>A run\<close>

text \<open>An installation enrolled under identity A asks for the RDP host, is moved to identity B and is approved by A.\<close>

fun after :: "store \<Rightarrow> store_error + 'a \<times> store \<Rightarrow> store" where
  "after st (Inl e) = st" | "after st (Inr (a, st')) = st'"

fun succeeds :: "store_error + 'a \<Rightarrow> bool" where
  "succeeds (Inl e) = False" | "succeeds (Inr a) = True"

lemma succeeds_after: "succeeds x \<Longrightarrow> \<exists>a. x = Ok (a, after st x)" for x :: "store_error + 'a \<times> store"
  by (cases x) auto

lemma succeeds_value: "succeeds x \<Longrightarrow> x = Ok (case x of Inl e \<Rightarrow> st | Inr s \<Rightarrow> s)"
  by (cases x) auto

definition example_observation :: "string list \<Rightarrow> observation" where
  "example_observation cs = \<lparr>ob_Fingerprint = ''f'', ob_InstallationID = ''i'', ob_PublicKey = [1], ob_DeviceName = ''n'',
     ob_RequestedCapabilities = cs\<rparr>"

definition example_0 :: store where
  "example_0 = \<lparr>st_devices = [], st_keys = [], st_requests = [],
     st_identities = [\<lparr>in_id = ''A'', in_name = ''a'', in_status = ''active'', in_revision = 1\<rparr>,
                      \<lparr>in_id = ''B'', in_name = ''b'', in_status = ''active'', in_revision = 1\<rparr>],
     st_members = [], st_grants = [], st_services = [], st_ports = [], st_access = [], st_shares = [], st_system = []\<rparr>"

definition "observed_1 = ObserveIdentityDevice (''s'', ''q'') ''A'' (example_observation [''proxy.client'']) example_0"
definition "approved_2 = ApproveEnrollmentForIdentity (''d'', ''s'') ''q'' ''admin'' [] [''proxy.client''] (after example_0 observed_1)"
definition "observed_3 = ObserveIdentityDevice (''s'', ''x'') ''A'' (example_observation [''proxy.client'', ''rdp.host''])
  (after example_0 approved_2)"
definition "moved_4 = SetDeviceIdentity ''dev_d'' ''B'' ''admin'' (after example_0 observed_3)"
definition "example_4 = (case moved_4 of Inl e \<Rightarrow> example_0 | Inr s \<Rightarrow> s)"
definition "approved_5 = ApproveEnrollmentForIdentity (''e'', ''s'') ''q'' ''account of A'' ''A'' [''rdp.host''] example_4"

lemma run_succeeds: "succeeds observed_1" "succeeds approved_2" "succeeds observed_3" "succeeds moved_4" "succeeds approved_5"
  by code_simp+

lemma example_fresh: "store_reach example_0"
  by (rule store_reach.fresh) (simp add: fresh_store_def example_0_def)

lemma example_approved: "store_reach (after example_0 approved_2)"
proof -
  have "store_reach (after example_0 observed_1)"
    using succeeds_after [OF run_succeeds(1), of example_0]
    by (metis example_fresh store_reach.step store_step.observe observed_1_def)
  then show ?thesis
    using succeeds_after [OF run_succeeds(2), of example_0]
    by (metis store_reach.step store_step.approve approved_2_def)
qed

lemma example_reachable: "store_reach example_4"
proof -
  have "store_reach (after example_0 observed_3)"
    using succeeds_after [OF run_succeeds(3), of example_0]
    by (metis example_approved store_reach.step store_step.observe observed_3_def)
  moreover have "moved_4 = Ok example_4"
    unfolding example_4_def by (rule succeeds_value [OF run_succeeds(4)])
  ultimately show ?thesis by (metis store_reach.step store_step.move moved_4_def)
qed

text \<open>C38. 
  The scope of a request is the identity it was made under, not the one its device has now: once a device has moved
  to another identity, an account of the old one can still approve a pending request and so enlarge the approved
  capabilities of a device that no longer belongs to it.
\<close>
theorem stale_scope_approves:
  "\<exists>st r st'. store_reach st \<and> IsIdentityDeviceAuthorized st ''f'' ''dev_d'' ''B'' \<and> \<not> IsIdentityDeviceAuthorized st ''f'' ''dev_d'' ''A'' \<and>
    map (\<lambda>d. (dv_id d, dv_approved d)) (st_devices st) = [(''dev_d'', [''proxy.client''])] \<and>
    ApproveEnrollmentForIdentity (''e'', ''s'') ''q'' ''account of A'' ''A'' [''rdp.host''] st = Ok (r, st') \<and>
    IsIdentityDeviceAuthorized st' ''f'' ''dev_d'' ''B'' \<and> (''dev_d'', ''rdp.host'') \<in> set (st_grants st')"
proof -
  have facts: "IsIdentityDeviceAuthorized example_4 ''f'' ''dev_d'' ''B''" "\<not> IsIdentityDeviceAuthorized example_4 ''f'' ''dev_d'' ''A''"
    "map (\<lambda>d. (dv_id d, dv_approved d)) (st_devices example_4) = [(''dev_d'', [''proxy.client''])]"
    "IsIdentityDeviceAuthorized (after example_4 approved_5) ''f'' ''dev_d'' ''B''"
    "(''dev_d'', ''rdp.host'') \<in> set (st_grants (after example_4 approved_5))"
    by code_simp+
  obtain r where "approved_5 = Ok (r, after example_4 approved_5)"
    using succeeds_after [OF run_succeeds(5), of example_4] by blast
  then have "ApproveEnrollmentForIdentity (''e'', ''s'') ''q'' ''account of A'' ''A'' [''rdp.host''] example_4 = Ok (r, after example_4 approved_5)"
    by (simp only: approved_5_def)
  then show ?thesis
    by (intro exI [of _ example_4] exI [of _ r] exI [of _ "after example_4 approved_5"] conjI facts example_reachable)
qed

text \<open>An approval that selects nothing grants the ordinary client capability, but only to an installation that declares
  it; to any other it grants the first declared capability, whatever that is.
\<close>
theorem empty_selection_grants:
  assumes "plain requested" "requested \<noteq> []"
  shows "filterApprovedCapabilities [] requested =
    (if ''proxy.client'' \<in> set requested then [''proxy.client''] else [hd requested])"
proof -
  have pc: "''proxy.client'' \<in> set allowed_capabilities" by (simp add: allowed_capabilities_def)
  have n: "normalizeCapabilities [c] = [c]" if "c \<in> set allowed_capabilities" for c
    using that by (intro normalize_plain) (simp add: plain_def)
  have h: "hd requested \<in> set allowed_capabilities" "take 1 requested = [hd requested]" "hd requested \<in> set requested"
    using assms by (cases requested; auto simp: plain_def)+
  show ?thesis
    using assms(2) pc n [OF pc] n [OF h(1)] h by (simp add: filterApprovedCapabilities_def)
qed

lemma empty_selection_grants_witness: "filterApprovedCapabilities [] [''rdp.host'', ''rdp.public''] = [''rdp.host'']"
  using empty_selection_grants [of "[''rdp.host'', ''rdp.public'']"] by (simp add: plain_def allowed_capabilities_def)

lemma approvals_consistent_witness:
  "\<exists>r \<in> set (st_devices example_4). dv_approved r \<noteq> [] \<and> validateCapabilityDependencies (dv_approved r)"
proof -
  have "st_devices example_4 \<noteq> []" by code_simp
  then obtain r where "r \<in> set (st_devices example_4)" by (cases "st_devices example_4") auto
  then show ?thesis using approvals_consistent [OF example_reachable] by blast
qed

lemma observing_never_approves_witness:
  "\<exists>a st'. ObserveIdentityDevice (''s'', ''x'') ''A'' (example_observation [''proxy.client'', ''rdp.host'']) (after example_0 approved_2) = Ok (a, st') \<and>
    au_ApprovedCapabilities a \<noteq> [] \<and> IsIdentityDeviceAuthorized (after example_0 approved_2) ''f'' (au_DeviceID a) ''A''"
proof -
  obtain a where a: "observed_3 = Ok (a, after example_0 observed_3)" using succeeds_after [OF run_succeeds(3)] by blast
  have "(case observed_3 of Inl e \<Rightarrow> False | Inr (a, s) \<Rightarrow> au_ApprovedCapabilities a \<noteq> [])" by code_simp
  then have "au_ApprovedCapabilities a \<noteq> []" using a by (metis (mono_tags, lifting) old.sum.simps(6) split_conv)
  then show ?thesis
    using observing_never_approves [OF example_approved a [unfolded observed_3_def]] a [unfolded observed_3_def]
    by (auto simp: example_observation_def)
qed

end
