(* ===== verification/Enrollment_Changes.thy ===== *)
theory Enrollment_Changes
  imports Enrollment_Policy
begin

text \<open>
  What each operation of the enrollment store leaves as it was: the devices it does not name keep key, state and
  identity, so whoever was authorized by them stays so.
\<close>

section \<open>What each change leaves authorized\<close>

definition keeps_device :: "string \<Rightarrow> store \<Rightarrow> store \<Rightarrow> bool" where
  "keeps_device e st st' \<longleftrightarrow> st_identities st' = st_identities st \<and>
     (\<forall>r \<in> set (st_devices st). dv_id r = e \<longrightarrow> (\<exists>r' \<in> set (st_devices st'). dv_id r' = e \<and>
        dv_fingerprint r' = dv_fingerprint r \<and> dv_state r' = dv_state r \<and> dv_identity r' = dv_identity r))"

lemma keeps_authorized:
  assumes "keeps_device d st st'" "store_ok st" "store_ok st'" "IsIdentityDeviceAuthorized st f d i"
  shows "IsIdentityDeviceAuthorized st' f d i"
  using assms(1,4) unfolding authorized_iff [OF assms(2)] authorized_iff [OF assms(3)] keeps_device_def by fastforce

lemma keeps_update:
  assumes "st_devices st' = update_where p h (st_devices st)" "st_identities st' = st_identities st"
    "\<And>r. p r \<Longrightarrow> dv_id r = e \<Longrightarrow> dv_id (h r) = e \<and> dv_fingerprint (h r) = dv_fingerprint r \<and> dv_state (h r) = dv_state r \<and>
      dv_identity (h r) = dv_identity r"
  shows "keeps_device e st st'"
  unfolding keeps_device_def
proof (intro conjI ballI impI)
  fix r
  assume "r \<in> set (st_devices st)" "dv_id r = e"
  then show "\<exists>r' \<in> set (st_devices st'). dv_id r' = e \<and> dv_fingerprint r' = dv_fingerprint r \<and> dv_state r' = dv_state r \<and>
      dv_identity r' = dv_identity r"
    using assms(3) by (intro bexI [of _ "if p r then h r else r"]) (auto simp: assms(1) set_update_where)
qed (rule assms(2))

lemma approve_keeps:
  assumes "ApproveEnrollmentForIdentity ids q user scope cs st = Ok (x, st')"
  shows "keeps_device e st st'"
proof -
  consider (additional) d rs as where "approveAdditionalCapabilities (snd ids) q d rs as st = Ok (x, st')"
    | (first) rq rs as where "approve_first ids user rq rs as st = Ok (x, st')"
    using assms by (auto simp: ApproveEnrollmentForIdentity_def Let_def split: option.splits if_splits)
  then show ?thesis
  proof cases
    case additional
    then obtain row dn mg where "st_devices st' = update_where (\<lambda>r. dv_id r = d \<and> dv_state r = EnrollmentApproved)
        (\<lambda>r. r\<lparr>dv_approved := mg, dv_denied := dn\<rparr>) (st_devices st)" "st_identities st' = st_identities st"
      by (auto simp: approveAdditionalCapabilities_def Let_def split: option.splits if_splits)
    then show ?thesis by (rule keeps_update) auto
  next
    case first
    then obtain row where "st_devices st' = st_devices st @ [row]" "st_identities st' = st_identities st"
      by (auto simp: approve_first_def Let_def split: if_splits)
    then show ?thesis by (auto simp: keeps_device_def)
  qed
qed

lemma reject_keeps:
  assumes "RejectEnrollmentForIdentity q scope st = Ok st'"
  shows "keeps_device e st st'"
proof -
  consider (same) "st_devices st' = st_devices st" "st_identities st' = st_identities st"
    | (device) d dn where "st' = update_devices (\<lambda>r. dv_id r = d) (\<lambda>r. r\<lparr>dv_denied := dn\<rparr>)
        (update_requests (\<lambda>r. rq_id r = q) (\<lambda>r. r\<lparr>rq_state := EnrollmentRejected\<rparr>) st)"
    using assms by (auto simp: RejectEnrollmentForIdentity_def reviewEnrollment_def Let_def split: option.splits if_splits)
  then show ?thesis
  proof cases
    case same
    then show ?thesis by (auto simp: keeps_device_def)
  next
    case device
    show ?thesis
      by (rule keeps_update [where p = "\<lambda>r. dv_id r = d" and h = "\<lambda>r. r\<lparr>dv_denied := dn\<rparr>"]) (simp_all add: device)
  qed
qed

lemma revoke_keeps: "RevokeDevice d st = Ok st' \<Longrightarrow> e \<noteq> d \<Longrightarrow> keeps_device e st st'"
  by (rule keeps_update [where p = "\<lambda>r. dv_id r = d \<and> dv_state r = EnrollmentApproved" and h = "\<lambda>r. r\<lparr>dv_state := EnrollmentRevoked\<rparr>"])
    (auto simp: RevokeDevice_def Let_def split: if_splits)

lemma capabilities_keep:
  assumes "UpdateDeviceCapabilities ni d user cs st = Ok (x, st')"
  shows "keeps_device e st st'"
proof -
  obtain ap dn where "st_devices st' = update_where (\<lambda>r. dv_id r = d \<and> dv_state r = EnrollmentApproved)
      (\<lambda>r. r\<lparr>dv_approved := ap, dv_denied := dn\<rparr>) (st_devices st)" "st_identities st' = st_identities st"
  proof -
    have f: "st_devices (resolve_pending fp a s) = st_devices s" "st_identities (resolve_pending fp a s) = st_identities s" for fp a s
      by (simp_all add: resolve_pending_def split: option.split)
    obtain row where row: "device_by_id d st = Some row"
      using assms by (auto simp: UpdateDeviceCapabilities_def Let_def split: if_splits option.splits)
    define approved where "approved = filterApprovedCapabilities (normalizeCapabilities cs) (normalizeCapabilities (dv_requested row))"
    have "st_devices st' = update_where (\<lambda>r. dv_id r = d \<and> dv_state r = EnrollmentApproved)
        (\<lambda>r. r\<lparr>dv_approved := normalizeCapabilities approved,
             dv_denied := normalizeCapabilities (capabilitiesExcept (normalizeCapabilities (dv_requested row)) approved)\<rparr>) (st_devices st) \<and>
      st_identities st' = st_identities st"
      using assms row f unfolding UpdateDeviceCapabilities_def Let_def approved_def by (auto split: if_splits)
    then show thesis using that by blast
  qed
  then show ?thesis by (rule keeps_update) auto
qed

lemma delete_keeps:
  assumes "DeleteDevice d user st = Ok st'" "e \<noteq> d"
  shows "keeps_device e st st'"
proof -
  have "st_devices st' = delete_where (\<lambda>r. dv_id r = d) (st_devices st)" "st_identities st' = st_identities st"
    using assms(1) by (auto simp: DeleteDevice_def Let_def cascade_device_def split: option.splits if_splits)
  then show ?thesis using assms(2) by (auto simp: keeps_device_def delete_where_def)
qed

lemma move_keeps:
  assumes "SetDeviceIdentity d i actor st = Ok st'"
  shows "e \<noteq> TrimSpace d \<Longrightarrow> keeps_device e st st'"
proof -
  obtain row where row: "device_by_id (TrimSpace d) st = Some row"
    using assms by (auto simp: SetDeviceIdentity_def Let_def split: if_splits option.splits)
  define owner where "owner = (case map_of (st_members st) (TrimSpace i) of None \<Rightarrow> [] | Some u \<Rightarrow> u)"
  define h where "h = (\<lambda>r :: device_row. r\<lparr>dv_identity := Some (TrimSpace i), dv_owner := (if owner \<noteq> [] then Some owner else dv_owner r)\<rparr>)"
  have s: "(st_devices st' = st_devices st \<or> st_devices st' = update_where (\<lambda>r. dv_id r = TrimSpace d) h (st_devices st)) \<and>
      st_identities st' = st_identities st"
    using assms row unfolding SetDeviceIdentity_def Let_def owner_def [symmetric] h_def by (auto split: if_splits)
  show "keeps_device e st st'" if "e \<noteq> TrimSpace d"
    using s
  proof (elim conjE disjE)
    assume "st_devices st' = st_devices st" "st_identities st' = st_identities st"
    then show ?thesis by (auto simp: keeps_device_def)
  next
    assume u: "st_devices st' = update_where (\<lambda>r. dv_id r = TrimSpace d) h (st_devices st)" "st_identities st' = st_identities st"
    show ?thesis by (rule keeps_update [OF u]) (use that in simp)
  qed
qed

lemma identity_keeps:
  assumes "UpdateIdentity i actor nm status revision st = Ok st'" "store_ok st" "store_ok st'"
    "IsIdentityDeviceAuthorized st f d j" "status = None \<or> j \<noteq> TrimSpace i"
  shows "IsIdentityDeviceAuthorized st' f d j"
proof -
  obtain row nn ns rv where row: "identity_by_id (TrimSpace i) st = Some row" and dv: "st_devices st' = st_devices st"
    and id: "st_identities st' = update_where (\<lambda>n. in_id n = TrimSpace i \<and> in_revision n = in_revision row)
      (\<lambda>n. n\<lparr>in_name := nn, in_status := ns, in_revision := rv\<rparr>) (st_identities st)"
    and ns: "status = None \<Longrightarrow> ns = in_status row"
    using assms(1) by (auto simp: UpdateIdentity_def Let_def split: option.splits if_splits)
  have di: "distinct (map in_id (st_identities st))" using assms(2) by (simp add: store_ok_def)
  have rowin: "row \<in> set (st_identities st)" "in_id row = TrimSpace i"
    using row find_Some [of "\<lambda>r. in_id r = TrimSpace i" "st_identities st" row] by (simp_all add: identity_by_id_def)
  have "\<exists>n' \<in> set (st_identities st'). in_id n' = j \<and> in_status n' = IdentityStatusActive"
    if n: "n \<in> set (st_identities st)" "in_id n = j" "in_status n = IdentityStatusActive" for n
  proof (cases "j = TrimSpace i")
    case True
    then have "n = row" using distinct_map_eq [OF di n(1) rowin(1)] n(2) rowin(2) by simp
    moreover have "ns = in_status row" using ns True assms(5) by blast
    ultimately show ?thesis
      using n rowin by (intro bexI [of _ "n\<lparr>in_name := nn, in_status := ns, in_revision := rv\<rparr>"]) (auto simp: id set_update_where)
  next
    case False
    then show ?thesis using n by (intro bexI [of _ n]) (auto simp: id set_update_where)
  qed
  then show ?thesis
    using assms(4) unfolding authorized_iff [OF assms(2)] authorized_iff [OF assms(3)] dv by blast
qed

end
