(* ===== verification/Session_Gate.thy ===== *)
theory Session_Gate
  imports Session_Manager Enrollment_Changes
begin

text \<open>
  The session registry beside the enrollment store: what \<open>server/gateway/listener.go\<close> does with an authorized hello,
  what the handlers of \<open>server/api\<close> change under the authorization gate, and which identities still have to be
  invalidated (\<open>onIdentityAuthorizationChanged\<close>, which a handler calls after its change is committed). A step is
  what one goroutine does between two points where another can run.
\<close>

section \<open>The handshake\<close>

definition CapabilityRuntimeState :: string where "CapabilityRuntimeState = ''runtime.capabilities''"
definition CapabilityProxyClientActive :: string where "CapabilityProxyClientActive = ''proxy.client.active''"
definition CapabilityProxyExitActive :: string where "CapabilityProxyExitActive = ''proxy.exit.active''"

definition activeRuntimeCapabilities :: "string list \<Rightarrow> string list \<Rightarrow> string list option" where
  "activeRuntimeCapabilities transport approved =
     (if CapabilityRuntimeState \<notin> set transport then None
      else Some ((if CapabilityProxyClient \<in> set approved \<and> CapabilityProxyClientActive \<in> set transport
                  then [CapabilityProxyClient] else []) @
                 (if CapabilityProxyExit \<in> set approved \<and> CapabilityProxyExitActive \<in> set transport
                  then [CapabilityProxyExit] else [])))"

definition runtimeCapabilitiesOrGrants :: "string list option \<Rightarrow> string list \<Rightarrow> string list" where
  "runtimeCapabilitiesOrGrants runtime grants = (case runtime of Some cs \<Rightarrow> cs | None \<Rightarrow> grants)"

definition gateway_mode :: "string list \<Rightarrow> string" where
  "gateway_mode cs =
     (let client = CapabilityProxyClient \<in> set cs; exit = CapabilityProxyExit \<in> set cs in
      if client \<and> exit then ''BOTH'' else if exit then ''EXIT'' else if \<not> client then ''CONTROL'' else ''CLIENT'')"

definition androidExitHeartbeatSec :: int where "androidExitHeartbeatSec = 30"

definition heartbeatForDevice :: "int \<Rightarrow> string \<Rightarrow> string list \<Rightarrow> int" where
  "heartbeatForDevice configured platform approved =
     (let sec = (if configured \<le> 0 then 15 else configured) in
      if platform = ''android'' \<and> CapabilityProxyExit \<in> set approved \<and> sec < androidExitHeartbeatSec
      then androidExitHeartbeatSec else sec)"

text \<open>What of a hello and of its connection goes into the session.\<close>

record hello_info =
  hl_SessionID :: string
  hl_DeviceName :: string
  hl_Fingerprint :: string
  hl_OwnerUserID :: string
  hl_IdentityName :: string
  hl_TransportCapabilities :: "string list"
  hl_Transport :: string
  hl_Tunnel :: nat

definition new_session :: "hello_info \<Rightarrow> device_authorization \<Rightarrow> device_session" where
  "new_session h a =
     (let runtime = activeRuntimeCapabilities (hl_TransportCapabilities h) (au_ApprovedCapabilities a) in
      \<lparr>ds_SessionID = hl_SessionID h, ds_DeviceID = au_DeviceID a, ds_DeviceName = hl_DeviceName h,
       ds_Fingerprint = hl_Fingerprint h, ds_OwnerUserID = hl_OwnerUserID h, ds_IdentityID = au_IdentityID a,
       ds_IdentityName = hl_IdentityName h, ds_PolicyRevision = au_PolicyRevision a,
       ds_Mode = gateway_mode (runtimeCapabilitiesOrGrants runtime (au_ApprovedCapabilities a)),
       ds_Capabilities = hl_TransportCapabilities h, ds_Grants = au_ApprovedCapabilities a,
       ds_RuntimeCapabilities = runtime, ds_Transport = hl_Transport h, ds_Tunnel = Some (hl_Tunnel h),
       ds_LastHeartbeat = 0, ds_Diagnostics = None, ds_Battery = None\<rparr>)"

section \<open>The system\<close>

record gate =
  gt_store :: store
  gt_manager :: manager
  gt_pending :: "string list"

definition RecheckIdentityDevice :: "store \<Rightarrow> device_session \<Rightarrow> bool" where
  "RecheckIdentityDevice st s = IsIdentityDeviceAuthorized st (ds_Fingerprint s) (ds_DeviceID s) (ds_IdentityID s)"

definition register_session :: "int \<Rightarrow> nat \<Rightarrow> gate \<Rightarrow> bool \<times> gate" where
  "register_session now p g =
     (let (ok, m) = RegisterAuthenticated now (RecheckIdentityDevice (gt_store g) (mg_heap (gt_manager g) p)) p (gt_manager g)
      in (ok, g\<lparr>gt_manager := m\<rparr>))"

definition change_gated :: "string \<Rightarrow> (store \<Rightarrow> store_error + store) \<Rightarrow> gate \<Rightarrow> store_error option \<times> gate" where
  "change_gated d change g =
     (case ChangeDeviceAuthorization d True change (gt_store g, gt_manager g) of
        (e, st, m) \<Rightarrow> (e, g\<lparr>gt_store := st, gt_manager := m\<rparr>))"

definition forget :: "store_error + 'a \<times> store \<Rightarrow> store_error + store" where
  "forget r = (case r of Err e \<Rightarrow> Err e | Ok (_, st) \<Rightarrow> Ok st)"

text \<open>\<open>existing\<close> is the device the handler looked up before; only then does it go through the gate.\<close>

definition handleApproveEnrollment ::
    "string \<times> string \<Rightarrow> string \<Rightarrow> string \<Rightarrow> string \<Rightarrow> string \<Rightarrow> string list \<Rightarrow> gate \<Rightarrow> store_error option \<times> gate" where
  "handleApproveEnrollment ids existing request user scope cs g =
     (let approve = (\<lambda>st. forget (ApproveEnrollmentForIdentity ids request user scope cs st)) in
      if existing = [] then (case approve (gt_store g) of Err e \<Rightarrow> (Some e, g) | Ok st \<Rightarrow> (None, g\<lparr>gt_store := st\<rparr>))
      else change_gated existing approve g)"

definition handleRejectEnrollment :: "string \<Rightarrow> string \<Rightarrow> gate \<Rightarrow> store_error option \<times> gate" where
  "handleRejectEnrollment request scope g =
     (case RejectEnrollmentForIdentity request scope (gt_store g) of
        Err e \<Rightarrow> (Some e, g) | Ok st \<Rightarrow> (None, g\<lparr>gt_store := st\<rparr>))"

definition handleRevokeDevice :: "string \<Rightarrow> gate \<Rightarrow> store_error option \<times> gate" where
  "handleRevokeDevice d g = change_gated d (RevokeDevice d) g"

definition handleDeleteDevice :: "string \<Rightarrow> string \<Rightarrow> gate \<Rightarrow> store_error option \<times> gate" where
  "handleDeleteDevice d actor g = change_gated d (DeleteDevice d actor) g"

definition handleUpdateDeviceCapabilities :: "string \<Rightarrow> string \<Rightarrow> string \<Rightarrow> string list \<Rightarrow> gate \<Rightarrow> store_error option \<times> gate" where
  "handleUpdateDeviceCapabilities newid d actor cs g =
     change_gated d (\<lambda>st. forget (UpdateDeviceCapabilities newid d actor cs st)) g"

text \<open>
  \<open>previous\<close> and \<open>grantees\<close> are the identity of the device and the identities it is shared with, as the handler
  read them before.
\<close>

definition handleSetDeviceIdentity :: "string \<Rightarrow> string \<Rightarrow> string list \<Rightarrow> string \<Rightarrow> string \<Rightarrow> gate \<Rightarrow> store_error option \<times> gate" where
  "handleSetDeviceIdentity d previous grantees i actor g =
     (case change_gated d (SetDeviceIdentity d i actor) g of
        (Some e, g1) \<Rightarrow> (Some e, g1)
      | (None, g1) \<Rightarrow>
          (None, if previous \<noteq> TrimSpace i
                 then g1\<lparr>gt_pending := gt_pending g1 @ filter (\<lambda>x. x \<noteq> []) (remdups (previous # TrimSpace i # grantees))\<rparr>
                 else g1))"

definition handleUpdateIdentity :: "string \<Rightarrow> string \<Rightarrow> string option \<Rightarrow> string option \<Rightarrow> int \<Rightarrow> gate \<Rightarrow> store_error option \<times> gate" where
  "handleUpdateIdentity i actor nm status revision g =
     (if nm = None \<and> status = None then (Some BadArguments, g)
      else case UpdateIdentity i actor nm status revision (gt_store g) of
        Err e \<Rightarrow> (Some e, g)
      | Ok st \<Rightarrow> (None, g\<lparr>gt_store := st, gt_pending := gt_pending g @ (if status \<noteq> None then [TrimSpace i] else [])\<rparr>))"

text \<open>The callback of the command that runs the server, and one ping of the control channel with the teardown that follows a failed recheck.\<close>

definition onIdentityAuthorizationChanged :: "string \<Rightarrow> gate \<Rightarrow> gate" where
  "onIdentityAuthorizationChanged i g =
     g\<lparr>gt_manager := snd (InvalidateIdentity i (gt_manager g)), gt_pending := (if i = [] then gt_pending g else remove1 i (gt_pending g))\<rparr>"

definition control_ping ::
    "(byte list \<Rightarrow> bool) \<Rightarrow> (byte list \<Rightarrow> (int \<times> nat \<times> nat option) option) \<Rightarrow> int \<Rightarrow> byte list \<Rightarrow> battery_status option \<Rightarrow>
     nat \<Rightarrow> gate \<Rightarrow> bool \<times> gate" where
  "control_ping jv ct now diagnostics battery p g =
     (let m = gt_manager g in
      if ds_IdentityID (mg_heap m p) \<noteq> [] \<and> \<not> RecheckIdentityDevice (gt_store g) (mg_heap m p)
      then (False, g\<lparr>gt_manager := snd (UnregisterSession (Some p) m)\<rparr>)
      else (True, g\<lparr>gt_manager := touch_session p (SetBatteryStatus now battery)
                   (touch_session p (SetDiagnostics jv ct now diagnostics) (touch_session p (TouchHeartbeat now) m))\<rparr>))"

section \<open>What each operation of the registry leaves registered\<close>





lemma quiet_fields [simp]:
  "mg_sessions (notifyPresence i m) = mg_sessions m" "mg_heap (notifyPresence i m) = mg_heap m"
  "mg_sessions (close_tunnel t m) = mg_sessions m" "mg_heap (close_tunnel t m) = mg_heap m"
  by (simp_all add: notifyPresence_def close_tunnel_def split: option.split)

lemma quiet_folds [simp]:
  "mg_sessions (fold (\<lambda>(d, p) x. close_tunnel (t d p) x) gone m) = mg_sessions m"
  "mg_heap (fold (\<lambda>(d, p) x. close_tunnel (t d p) x) gone m) = mg_heap m"
  "mg_sessions (fold notifyPresence ids m) = mg_sessions m" "mg_heap (fold notifyPresence ids m) = mg_heap m"
proof -
  show "mg_sessions (fold (\<lambda>(d, p) x. close_tunnel (t d p) x) gone m) = mg_sessions m"
    "mg_heap (fold (\<lambda>(d, p) x. close_tunnel (t d p) x) gone m) = mg_heap m"
    by (induction gone arbitrary: m) (auto split: prod.splits)
  show "mg_sessions (fold notifyPresence ids m) = mg_sessions m" "mg_heap (fold notifyPresence ids m) = mg_heap m"
    by (induction ids arbitrary: m) simp_all
qed







section \<open>Reachable systems\<close>

inductive gate_step :: "gate \<Rightarrow> gate \<Rightarrow> bool" where
  observe: "ObserveIdentityDevice ids i ob (gt_store g) = Ok (a, st) \<Longrightarrow> hl_Fingerprint h = ob_Fingerprint ob \<Longrightarrow>
    p \<notin> snd ` set (mg_sessions (gt_manager g)) \<Longrightarrow>
    gate_step g (g\<lparr>gt_store := st, gt_manager := (gt_manager g)\<lparr>mg_heap := (mg_heap (gt_manager g))(p := new_session h a)\<rparr>\<rparr>)"
| register: "gate_step g (snd (register_session now p g))"
| approve: "gate_step g (snd (handleApproveEnrollment ids existing q user scope cs g))"
| reject: "gate_step g (snd (handleRejectEnrollment q scope g))"
| revoke: "gate_step g (snd (handleRevokeDevice d g))"
| delete: "gate_step g (snd (handleDeleteDevice d user g))"
| capabilities: "gate_step g (snd (handleUpdateDeviceCapabilities newid d user cs g))"
| move: "TrimSpace d = d \<Longrightarrow> gate_step g (snd (handleSetDeviceIdentity d previous grantees i user g))"
| identity: "gate_step g (snd (handleUpdateIdentity i user nm status revision g))"
| invalidate: "gate_step g (onIdentityAuthorizationChanged i g)"
| ping: "gate_step g (snd (control_ping jv ct now dg bt p g))"
| disconnect: "gate_step g (g\<lparr>gt_manager := snd (UnregisterSession (Some p) (gt_manager g))\<rparr>)"
| unregister: "gate_step g (g\<lparr>gt_manager := Unregister d (gt_manager g)\<rparr>)"
| reap: "gate_step g (g\<lparr>gt_manager := ReapStaleSessions threshold (gt_manager g)\<rparr>)"
| close: "gate_step g (g\<lparr>gt_manager := CloseAll (gt_manager g)\<rparr>)"

inductive gate_reach :: "gate \<Rightarrow> bool" where
  start: "fresh_store st \<Longrightarrow> gate_reach \<lparr>gt_store = st, gt_manager = NewManager heap, gt_pending = []\<rparr>"
| step: "gate_reach g \<Longrightarrow> gate_step g g' \<Longrightarrow> gate_reach g'"
















section \<open>A run\<close>

text \<open>A device approved as client and exit connects; while its handshake runs an administrator withdraws the exit role.\<close>

definition example_hello :: hello_info where
  "example_hello = \<lparr>hl_SessionID = ''sess_1'', hl_DeviceName = ''n'', hl_Fingerprint = ''f'', hl_OwnerUserID = [],
     hl_IdentityName = ''a'', hl_TransportCapabilities = [], hl_Transport = ''tls'', hl_Tunnel = 1\<rparr>"

definition both_roles :: "string list" where "both_roles = [''proxy.client'', ''proxy.exit'']"

definition example_gate :: gate where
  "example_gate = \<lparr>gt_store = example_0, gt_manager = NewManager (example_session ''A''), gt_pending = []\<rparr>"

definition observe_gate :: "string \<Rightarrow> nat \<Rightarrow> gate \<Rightarrow> gate" where
  "observe_gate request p g =
     (case ObserveIdentityDevice (''s'', request) ''A'' (example_observation both_roles) (gt_store g) of
        Inl e \<Rightarrow> g
      | Inr (a, st) \<Rightarrow> g\<lparr>gt_store := st, gt_manager := (gt_manager g)\<lparr>mg_heap := (mg_heap (gt_manager g))(p := new_session example_hello a)\<rparr>\<rparr>)"

definition "gate_enrolled = snd (handleApproveEnrollment (''d'', ''s'') [] ''q'' ''admin'' [] both_roles (observe_gate ''q'' 0 example_gate))"
definition "gate_verified = observe_gate ''x'' 1 gate_enrolled"
definition "gate_registered = snd (register_session 5 1 gate_verified)"
definition "gate_reduced = snd (handleUpdateDeviceCapabilities ''s'' ''dev_d'' ''admin'' [''proxy.client''] gate_verified)"
definition "gate_stale = snd (register_session 5 1 gate_reduced)"

lemma observe_gate_reach:
  assumes "gate_reach g" "p \<notin> snd ` set (mg_sessions (gt_manager g))"
  shows "gate_reach (observe_gate q p g)"
proof (cases "ObserveIdentityDevice (''s'', q) ''A'' (example_observation both_roles) (gt_store g)")
  case (Inl e)
  then show ?thesis using assms(1) by (simp add: observe_gate_def)
next
  case (Inr x)
  then show ?thesis
    using gate_reach.step [OF assms(1) gate_step.observe [OF _ _ assms(2), of "(''s'', q)" "''A''" "example_observation both_roles"
        "fst x" "snd x" example_hello]]
    by (cases x) (simp add: observe_gate_def example_hello_def example_observation_def)
qed


lemma example_gate_reach: "gate_reach gate_verified"
proof -
  have e: "gate_reach example_gate" unfolding example_gate_def by (rule gate_reach.start) (simp add: fresh_store_def example_0_def)
  have "mg_sessions (gt_manager example_gate) = []" by (simp add: example_gate_def NewManager_def)
  then have "gate_reach (observe_gate ''q'' 0 example_gate)" by (intro observe_gate_reach [OF e]) simp
  then have en: "gate_reach gate_enrolled" unfolding gate_enrolled_def by (rule gate_reach.step [OF _ gate_step.approve])
  have "mg_sessions (gt_manager gate_enrolled) = []" by code_simp
  then show ?thesis unfolding gate_verified_def by (intro observe_gate_reach [OF en]) simp
qed


text \<open>C37. 
  The recheck under the gate asks whether the device is still authorized, not whether its capabilities are still the
  ones the handshake was granted: a device whose exit role is withdrawn between the two registers with the role it has
  lost, and is listed among the exits.
\<close>
theorem stale_grants_registered:
  "\<exists>g now p. gate_reach g \<and> fst (register_session now p g) \<and>
    (\<exists>d \<in> set (st_devices (gt_store g)). dv_id d = ''dev_d'' \<and> dv_approved d = [''proxy.client'']) \<and>
    mg_Get ''dev_d'' (gt_manager (snd (register_session now p g))) = Some p \<and>
    ''proxy.exit'' \<in> set (ds_Grants (mg_heap (gt_manager (snd (register_session now p g))) p)) \<and>
    p \<in> set (GetExits (gt_manager (snd (register_session now p g))))"
proof (intro exI conjI)
  show "gate_reach gate_reduced"
    unfolding gate_reduced_def by (rule gate_reach.step [OF example_gate_reach gate_step.capabilities])
  show "fst (register_session 5 1 gate_reduced)" by code_simp
  have "map (\<lambda>d. (dv_id d, dv_approved d)) (st_devices (gt_store gate_reduced)) = [(''dev_d'', [''proxy.client''])]" by code_simp
  then show "\<exists>d \<in> set (st_devices (gt_store gate_reduced)). dv_id d = ''dev_d'' \<and> dv_approved d = [''proxy.client'']" by force
  show "mg_Get ''dev_d'' (gt_manager (snd (register_session 5 1 gate_reduced))) = Some 1" by code_simp
  show "''proxy.exit'' \<in> set (ds_Grants (mg_heap (gt_manager (snd (register_session 5 1 gate_reduced))) 1))" by code_simp
  show "1 \<in> set (GetExits (gt_manager (snd (register_session 5 1 gate_reduced))))" by code_simp
qed

end
