(* ===== verification/Identity_Grants.thy ===== *)
theory Identity_Grants
  imports Enrollment_Changes "HOL-Library.List_Lexorder" "HOL-Library.Char_ord"
begin

text \<open>
  \<open>server/repository/identity_grant.go\<close>, \<open>system_grant.go\<close>, \<open>grant_expiry.go\<close> and the exit check of \<open>db.go\<close>: grants
  that let the devices of one identity use a device of another, or the exit of the server itself, and the decision
  whether a client may use an exit now. The feature column holds the list its JSON text encodes; \<open>now\<close> is the clock.
\<close>

section \<open>Features\<close>

definition GrantFeatureProxyUse :: string where "GrantFeatureProxyUse = ''proxy.use''"
definition GrantFeatureRDPConnect :: string where "GrantFeatureRDPConnect = ''rdp.connect''"
definition SystemResourceServerExit :: string where "SystemResourceServerExit = ''server''"

definition normalizeDeviceIdentityGrantFeatures :: "string list \<Rightarrow> store_error + string list" where
  "normalizeDeviceIdentityGrantFeatures features =
     (let trimmed = map TrimSpace features in
      if \<not> list_all (\<lambda>f. f = GrantFeatureProxyUse \<or> f = GrantFeatureRDPConnect) trimmed then Err UnsupportedFeature
      else if trimmed = [] then Err FeatureRequired
      else Ok (filter (\<lambda>f. f \<in> set trimmed) [GrantFeatureProxyUse, GrantFeatureRDPConnect]))"

definition normalizeSystemGrant :: "string \<Rightarrow> string list \<Rightarrow> store_error + string \<times> string list" where
  "normalizeSystemGrant resource features =
     (if TrimSpace resource \<noteq> SystemResourceServerExit then Err UnsupportedResource
      else (case normalizeDeviceIdentityGrantFeatures features of
          Err e \<Rightarrow> Err e
        | Ok fs \<Rightarrow> if length fs \<noteq> 1 \<or> hd fs \<noteq> GrantFeatureProxyUse then Err UnsupportedFeature else Ok (TrimSpace resource, fs)))"

definition validateGrantExpiry :: "int \<Rightarrow> int option \<Rightarrow> store_error + int option" where
  "validateGrantExpiry now expires =
     (case expires of None \<Rightarrow> Ok None | Some t \<Rightarrow> if t \<le> now then Err BadExpiry else Ok (Some t))"

definition hasCapabilityJSON :: "string list \<Rightarrow> string \<Rightarrow> bool" where
  "hasCapabilityJSON cs wanted \<longleftrightarrow> wanted \<in> set cs"

definition approved_device :: "string \<Rightarrow> store \<Rightarrow> device_row option" where
  "approved_device d st = find (\<lambda>r. dv_id r = d \<and> dv_state r = EnrollmentApproved) (st_devices st)"

definition in_force :: "int \<Rightarrow> int option \<Rightarrow> bool" where
  "in_force now expires = (case expires of None \<Rightarrow> True | Some t \<Rightarrow> t > now)"

section \<open>Grants on devices\<close>

fun lacks_capability :: "string list \<Rightarrow> string list \<Rightarrow> bool" where
  "lacks_capability cs [] = False"
| "lacks_capability cs (f # fs) =
     (if f = GrantFeatureProxyUse \<and> \<not> hasCapabilityJSON cs ''proxy.exit'' then True
      else if f = GrantFeatureRDPConnect \<and> \<not> hasCapabilityJSON cs ''rdp.host'' then True
      else lacks_capability cs fs)"

definition validateDeviceIdentityGrant :: "string \<Rightarrow> string \<Rightarrow> string list \<Rightarrow> store \<Rightarrow> store_error + string list" where
  "validateDeviceIdentityGrant target grantee features st =
     (let t = TrimSpace target; g = TrimSpace grantee in
      if t = [] \<or> g = [] then Err BadArguments
      else (case normalizeDeviceIdentityGrantFeatures features of
          Err e \<Rightarrow> Err e
        | Ok fs \<Rightarrow>
          (case approved_device t st of
             None \<Rightarrow> Err ErrNoRows
           | Some row \<Rightarrow>
             (case dv_identity row of
                None \<Rightarrow> Err TargetWithoutIdentity
              | Some i \<Rightarrow>
                if TrimSpace i = [] then Err TargetWithoutIdentity
                else if i = g then Err SameIdentity
                else (case (identity_by_id g st, identity_by_id i st) of
                    (Some n, Some m) \<Rightarrow>
                      if in_status n \<noteq> IdentityStatusActive \<or> in_status m \<noteq> IdentityStatusActive then Err IdentityInactive
                      else if lacks_capability (dv_approved row) fs then Err TargetLacksCapability
                      else Ok fs
                  | _ \<Rightarrow> Err ErrNoRows)))))"

definition CreateDeviceIdentityGrant ::
    "string \<Rightarrow> int \<Rightarrow> string \<Rightarrow> string \<Rightarrow> string \<Rightarrow> string list \<Rightarrow> int option \<Rightarrow> store \<Rightarrow> store_error + share_row \<times> store" where
  "CreateDeviceIdentityGrant newid now target grantee actor features expires st =
     (let t = TrimSpace target; g = TrimSpace grantee in
      if TrimSpace actor = [] then Err BadArguments
      else (case validateGrantExpiry now expires of
          Err e \<Rightarrow> Err e
        | Ok ex \<Rightarrow>
          (case validateDeviceIdentityGrant t g features st of
             Err e \<Rightarrow> Err e
           | Ok fs \<Rightarrow>
             if count_where (\<lambda>r. sh_target r = t \<and> sh_grantee r = g) (st_shares st) \<noteq> 0 then Err ErrGrantExists
             else
               let row = \<lparr>sh_id = ''dig_'' @ newid, sh_target = t, sh_grantee = g, sh_features = fs, sh_expires = ex, sh_revision = 1\<rparr> in
               if \<exists>r \<in> set (st_shares st). sh_id r = sh_id row then Err UniqueViolation
               else Ok (row, st\<lparr>st_shares := st_shares st @ [row]\<rparr>))))"

text \<open>A field of an update that is not set keeps its value; an expiry is cleared, replaced or kept.\<close>

definition next_expiry :: "int \<Rightarrow> bool \<Rightarrow> int option \<Rightarrow> int option \<Rightarrow> store_error + int option" where
  "next_expiry now clear new current =
     (if clear then Ok None else if new \<noteq> None then validateGrantExpiry now new else Ok current)"

definition UpdateDeviceIdentityGrant ::
    "int \<Rightarrow> string \<Rightarrow> string \<Rightarrow> string option \<Rightarrow> string list option \<Rightarrow> int option \<Rightarrow> bool \<Rightarrow> int \<Rightarrow> store \<Rightarrow>
     store_error + share_row \<times> store" where
  "UpdateDeviceIdentityGrant now grant actor grantee features expires clear revision st =
     (let i = TrimSpace grant in
      if i = [] \<or> TrimSpace actor = [] then Err BadArguments
      else (case find (\<lambda>r. sh_id r = i) (st_shares st) of
          None \<Rightarrow> Err ErrNoRows
        | Some row \<Rightarrow>
          if revision > 0 \<and> revision \<noteq> sh_revision row then Err ErrGrantRevision
          else (case normalizeDeviceIdentityGrantFeatures (sh_features row) of
              Err e \<Rightarrow> Err e
            | Ok current \<Rightarrow>
              let nextGrantee = (case grantee of None \<Rightarrow> sh_grantee row | Some g \<Rightarrow> TrimSpace g) in
              (case validateDeviceIdentityGrant (sh_target row) nextGrantee (case features of None \<Rightarrow> current | Some f \<Rightarrow> f) st of
                 Err e \<Rightarrow> Err e
               | Ok fs \<Rightarrow>
                 (case next_expiry now clear expires (sh_expires row) of
                    Err e \<Rightarrow> Err e
                  | Ok ex \<Rightarrow>
                    if nextGrantee \<noteq> sh_grantee row \<and>
                       count_where (\<lambda>r. sh_target r = sh_target row \<and> sh_grantee r = nextGrantee \<and> sh_id r \<noteq> i) (st_shares st) \<noteq> 0
                    then Err ErrGrantExists
                    else
                      let this_row = (\<lambda>r. sh_id r = i \<and> sh_revision r = sh_revision row);
                          set_row = (\<lambda>r. r\<lparr>sh_grantee := nextGrantee, sh_features := fs, sh_expires := ex,
                                       sh_revision := sh_revision row + 1\<rparr>)
                      in if count_where this_row (st_shares st) \<noteq> 1 then Err ErrGrantRevision
                         else Ok (set_row row, st\<lparr>st_shares := update_where this_row set_row (st_shares st)\<rparr>))))))"

definition DeleteDeviceIdentityGrant :: "string \<Rightarrow> string \<Rightarrow> int \<Rightarrow> store \<Rightarrow> store_error + bool \<times> store" where
  "DeleteDeviceIdentityGrant grant actor revision st =
     (let i = TrimSpace grant in
      if i = [] \<or> TrimSpace actor = [] then Err BadArguments
      else (case find (\<lambda>r. sh_id r = i) (st_shares st) of
          None \<Rightarrow> Ok (False, st)
        | Some row \<Rightarrow>
          if revision > 0 \<and> revision \<noteq> sh_revision row then Err ErrGrantRevision
          else (case normalizeDeviceIdentityGrantFeatures (sh_features row) of
              Err e \<Rightarrow> Err e
            | Ok _ \<Rightarrow>
              let this_row = (\<lambda>r. sh_id r = i \<and> sh_revision r = sh_revision row) in
              if count_where this_row (st_shares st) \<noteq> 1 then Err ErrGrantRevision
              else Ok (True, st\<lparr>st_shares := delete_where this_row (st_shares st)\<rparr>))))"

section \<open>Grants on the server's own exit\<close>

definition validateSystemIdentityGrant :: "string \<Rightarrow> string \<Rightarrow> string list \<Rightarrow> store \<Rightarrow> store_error + string \<times> string list" where
  "validateSystemIdentityGrant resource grantee features st =
     (case normalizeSystemGrant resource features of
        Err e \<Rightarrow> Err e
      | Ok (r, fs) \<Rightarrow>
        let g = TrimSpace grantee in
        if g = [] then Err BadArguments
        else if count_where (\<lambda>n. in_id n = g) (st_identities st) \<noteq> 1 then Err ErrNoRows
        else Ok (r, fs))"

definition CreateSystemIdentityGrant ::
    "string \<Rightarrow> int \<Rightarrow> string \<Rightarrow> string \<Rightarrow> string \<Rightarrow> string list \<Rightarrow> int option \<Rightarrow> store \<Rightarrow> store_error + system_row \<times> store" where
  "CreateSystemIdentityGrant newid now resource grantee actor features expires st =
     (if TrimSpace actor = [] then Err BadArguments
      else (case validateGrantExpiry now expires of
          Err e \<Rightarrow> Err e
        | Ok ex \<Rightarrow>
          (case validateSystemIdentityGrant resource grantee features st of
             Err e \<Rightarrow> Err e
           | Ok (r, fs) \<Rightarrow>
             let g = TrimSpace grantee in
             if count_where (\<lambda>x. sy_resource x = r \<and> sy_grantee x = g) (st_system st) \<noteq> 0 then Err ErrGrantExists
             else
               let row = \<lparr>sy_id = ''sig_'' @ newid, sy_resource = r, sy_grantee = g, sy_features = fs, sy_expires = ex, sy_revision = 1\<rparr> in
               if \<exists>x \<in> set (st_system st). sy_id x = sy_id row then Err UniqueViolation
               else Ok (row, st\<lparr>st_system := st_system st @ [row]\<rparr>))))"

definition UpdateSystemIdentityGrant ::
    "int \<Rightarrow> string \<Rightarrow> string \<Rightarrow> string option \<Rightarrow> string list option \<Rightarrow> int option \<Rightarrow> bool \<Rightarrow> int \<Rightarrow> store \<Rightarrow>
     store_error + system_row \<times> store" where
  "UpdateSystemIdentityGrant now grant actor grantee features expires clear revision st =
     (let i = TrimSpace grant in
      if i = [] \<or> TrimSpace actor = [] then Err BadArguments
      else (case find (\<lambda>r. sy_id r = i) (st_system st) of
          None \<Rightarrow> Err ErrNoRows
        | Some row \<Rightarrow>
          if revision > 0 \<and> revision \<noteq> sy_revision row then Err ErrGrantRevision
          else (case normalizeDeviceIdentityGrantFeatures (sy_features row) of
              Err e \<Rightarrow> Err e
            | Ok current \<Rightarrow>
              let nextGrantee = (case grantee of None \<Rightarrow> sy_grantee row | Some g \<Rightarrow> TrimSpace g) in
              (case validateSystemIdentityGrant (sy_resource row) nextGrantee (case features of None \<Rightarrow> current | Some f \<Rightarrow> f) st of
                 Err e \<Rightarrow> Err e
               | Ok (resource, fs) \<Rightarrow>
                 (case next_expiry now clear expires (sy_expires row) of
                    Err e \<Rightarrow> Err e
                  | Ok ex \<Rightarrow>
                    if nextGrantee \<noteq> sy_grantee row \<and>
                       count_where (\<lambda>r. sy_resource r = resource \<and> sy_grantee r = nextGrantee \<and> sy_id r \<noteq> i) (st_system st) \<noteq> 0
                    then Err ErrGrantExists
                    else
                      let this_row = (\<lambda>r. sy_id r = i \<and> sy_revision r = sy_revision row);
                          set_row = (\<lambda>r. r\<lparr>sy_grantee := nextGrantee, sy_features := fs, sy_expires := ex,
                                       sy_revision := sy_revision row + 1\<rparr>)
                      in if count_where this_row (st_system st) \<noteq> 1 then Err ErrGrantRevision
                         else Ok (set_row row, st\<lparr>st_system := update_where this_row set_row (st_system st)\<rparr>))))))"

definition DeleteSystemIdentityGrant :: "string \<Rightarrow> string \<Rightarrow> int \<Rightarrow> store \<Rightarrow> store_error + bool \<times> store" where
  "DeleteSystemIdentityGrant grant actor revision st =
     (let i = TrimSpace grant in
      if i = [] \<or> TrimSpace actor = [] then Err BadArguments
      else (case find (\<lambda>r. sy_id r = i) (st_system st) of
          None \<Rightarrow> Ok (False, st)
        | Some row \<Rightarrow>
          if revision > 0 \<and> revision \<noteq> sy_revision row then Err ErrGrantRevision
          else (case normalizeDeviceIdentityGrantFeatures (sy_features row) of
              Err e \<Rightarrow> Err e
            | Ok _ \<Rightarrow>
              let this_row = (\<lambda>r. sy_id r = i \<and> sy_revision r = sy_revision row) in
              if count_where this_row (st_system st) \<noteq> 1 then Err ErrGrantRevision
              else Ok (True, st\<lparr>st_system := delete_where this_row (st_system st)\<rparr>))))"

section \<open>Expiry\<close>

text \<open>The sweep deletes what has expired and returns the grantees, sorted.\<close>

definition ExpireIdentityGrants :: "int \<Rightarrow> store \<Rightarrow> string list \<times> store" where
  "ExpireIdentityGrants now st =
     (let devices = filter (\<lambda>r. \<not> in_force now (sh_expires r)) (st_shares st);
          systems = filter (\<lambda>r. \<not> in_force now (sy_expires r)) (st_system st)
      in (sort (remdups (map sh_grantee devices @ map sy_grantee systems)),
          st\<lparr>st_shares := delete_where (\<lambda>r. \<not> in_force now (sh_expires r)) (st_shares st),
             st_system := delete_where (\<lambda>r. \<not> in_force now (sy_expires r)) (st_system st)\<rparr>))"

section \<open>Decisions\<close>

fun any_grants :: "string \<Rightarrow> string list list \<Rightarrow> store_error + bool" where
  "any_grants feature [] = Ok False"
| "any_grants feature (raw # rest) =
     (case normalizeDeviceIdentityGrantFeatures raw of
        Err e \<Rightarrow> Err e
      | Ok fs \<Rightarrow> if feature \<in> set fs then Ok True else any_grants feature rest)"

definition HasActiveDeviceIdentityGrant :: "int \<Rightarrow> string \<Rightarrow> string \<Rightarrow> string \<Rightarrow> store \<Rightarrow> store_error + bool" where
  "HasActiveDeviceIdentityGrant now target grantee feature st =
     (if target = [] \<or> grantee = [] then Ok False
      else if feature \<noteq> GrantFeatureProxyUse \<and> feature \<noteq> GrantFeatureRDPConnect then Err UnsupportedFeature
      else any_grants feature (map sh_features
             (filter (\<lambda>r. sh_target r = target \<and> sh_grantee r = grantee \<and> in_force now (sh_expires r)) (st_shares st))))"

definition HasActiveSystemIdentityGrant :: "int \<Rightarrow> string \<Rightarrow> string \<Rightarrow> string \<Rightarrow> store \<Rightarrow> store_error + bool" where
  "HasActiveSystemIdentityGrant now resource grantee feature st =
     (let r = TrimSpace resource; g = TrimSpace grantee in
      if r = [] \<or> g = [] then Ok False
      else (case normalizeSystemGrant r [feature] of
          Err e \<Rightarrow> Err e
        | Ok _ \<Rightarrow> any_grants feature (map sy_features
             (filter (\<lambda>x. sy_resource x = r \<and> sy_grantee x = g \<and> in_force now (sy_expires x)) (st_system st)))))"

text \<open>The status of the identity a row refers to, through a left join: none when it refers to none.\<close>

definition status_of :: "string option \<Rightarrow> store \<Rightarrow> string option" where
  "status_of i st = (case i of None \<Rightarrow> None | Some x \<Rightarrow> map_option in_status (identity_by_id x st))"

definition blank_id :: "string option \<Rightarrow> bool" where
  "blank_id i = (case i of None \<Rightarrow> True | Some x \<Rightarrow> TrimSpace x = [])"

definition authorizeIdentityDeviceFeature ::
    "int \<Rightarrow> string \<Rightarrow> string \<Rightarrow> string \<Rightarrow> store \<Rightarrow> store_error + bool \<times> bool" where
  "authorizeIdentityDeviceFeature now client target feature st =
     (if client = [] \<or> target = [] \<or> client = target then Ok (False, False)
      else (case (approved_device client st, approved_device target st) of
          (Some c, Some t) \<Rightarrow>
            (if dv_identity c = None \<and> dv_identity t = None then Ok (False, False)
             else if blank_id (dv_identity c) \<or> blank_id (dv_identity t) then Ok (True, False)
             else if status_of (dv_identity c) st \<noteq> Some IdentityStatusActive \<or> status_of (dv_identity t) st \<noteq> Some IdentityStatusActive
             then Ok (True, False)
             else if feature = GrantFeatureProxyUse \<and> (\<not> hasCapabilityJSON (dv_approved c) ''proxy.client'' \<or> \<not> hasCapabilityJSON (dv_approved t) ''proxy.exit'')
             then Ok (True, False)
             else if feature = GrantFeatureRDPConnect \<and> (\<not> hasCapabilityJSON (dv_approved c) ''rdp.controller'' \<or> \<not> hasCapabilityJSON (dv_approved t) ''rdp.host'')
             then Ok (True, False)
             else if feature \<noteq> GrantFeatureProxyUse \<and> feature \<noteq> GrantFeatureRDPConnect then Err UnsupportedFeature
             else if dv_identity c = dv_identity t then Ok (True, True)
             else (case HasActiveDeviceIdentityGrant now target (the (dv_identity c)) feature st of
                 Err e \<Rightarrow> Err e
               | Ok granted \<Rightarrow> Ok (True, granted)))
        | _ \<Rightarrow> Err ErrNoRows))"

definition AuthorizeServerExit :: "int \<Rightarrow> string \<Rightarrow> store \<Rightarrow> store_error + bool" where
  "AuthorizeServerExit now client st =
     (let d = TrimSpace client in
      if d = [] then Ok False
      else (case approved_device d st of
          None \<Rightarrow> Err ErrNoRows
        | Some c \<Rightarrow>
          if \<not> hasCapabilityJSON (dv_approved c) ''proxy.client'' then Ok False
          else if blank_id (dv_identity c) then Ok True
          else if status_of (dv_identity c) st \<noteq> Some IdentityStatusActive then Ok False
          else HasActiveSystemIdentityGrant now SystemResourceServerExit (the (dv_identity c)) GrantFeatureProxyUse st))"

definition AuthorizeClientExit :: "int \<Rightarrow> store \<Rightarrow> string \<Rightarrow> string \<Rightarrow> store_error + bool" where
  "AuthorizeClientExit now st client exit =
     (if client = [] \<or> exit = [] \<or> client = exit then Ok False
      else if exit = SystemResourceServerExit then AuthorizeServerExit now client st
      else (case authorizeIdentityDeviceFeature now client exit GrantFeatureProxyUse st of
          Err e \<Rightarrow> Err e
        | Ok (managed, allowed) \<Rightarrow>
          if managed then Ok allowed
          else (case approved_device client st of
              None \<Rightarrow> Err ErrNoRows
            | Some c \<Rightarrow>
              (case approved_device exit st of
                 None \<Rightarrow> Err ErrNoRows
               | Some e \<Rightarrow> Ok (dv_owner c \<noteq> None \<and> dv_owner c \<noteq> Some [] \<and> dv_owner c = dv_owner e)))))"

record direct_snapshot =
  pd_Allowed :: bool
  pd_PolicyRevision :: int
  pd_AuthorizationRevision :: int

definition no_direct :: direct_snapshot where
  "no_direct = \<lparr>pd_Allowed = False, pd_PolicyRevision = 0, pd_AuthorizationRevision = 0\<rparr>"

definition latest_revision :: "share_row list \<Rightarrow> share_row option" where
  "latest_revision rows = find (\<lambda>r. list_all (\<lambda>x. sh_revision x \<le> sh_revision r) rows) rows"

definition PublicDirectAuthorization :: "int \<Rightarrow> store \<Rightarrow> string \<Rightarrow> string \<Rightarrow> store_error + direct_snapshot" where
  "PublicDirectAuthorization now st client exit =
     (let c1 = TrimSpace client; e1 = TrimSpace exit in
      if c1 = [] \<or> e1 = [] \<or> c1 = e1 then Ok no_direct
      else (case (approved_device c1 st, approved_device e1 st) of
          (Some c, Some e) \<Rightarrow>
            (if blank_id (dv_identity c) \<or> blank_id (dv_identity e) then Ok no_direct
             else (case (identity_by_id (the (dv_identity c)) st, identity_by_id (the (dv_identity e)) st) of
                 (Some n, Some m) \<Rightarrow>
                   (if in_status n \<noteq> IdentityStatusActive \<or> in_status m \<noteq> IdentityStatusActive \<or> in_revision n \<le> 0 \<or> in_revision m \<le> 0 \<or>
                       \<not> hasCapabilityJSON (dv_approved c) ''proxy.client'' \<or> \<not> hasCapabilityJSON (dv_approved e) ''proxy.exit''
                    then Ok no_direct
                    else if dv_identity c = dv_identity e
                    then Ok \<lparr>pd_Allowed = True, pd_PolicyRevision = in_revision n, pd_AuthorizationRevision = in_revision n\<rparr>
                    else (case latest_revision (filter (\<lambda>r. sh_target r = e1 \<and> sh_grantee r = the (dv_identity c) \<and>
                                 in_force now (sh_expires r)) (st_shares st)) of
                        None \<Rightarrow> Ok no_direct
                      | Some g \<Rightarrow>
                        (case normalizeDeviceIdentityGrantFeatures (sh_features g) of
                           Err x \<Rightarrow> Err x
                         | Ok fs \<Rightarrow>
                           if sh_revision g \<le> 0 \<or> GrantFeatureProxyUse \<notin> set fs then Ok no_direct
                           else Ok \<lparr>pd_Allowed = True, pd_PolicyRevision = in_revision n, pd_AuthorizationRevision = sh_revision g\<rparr>)))
               | _ \<Rightarrow> Ok no_direct))
        | _ \<Rightarrow> Ok no_direct))"

end
