(* ===== verification/Grant_Policy.thy ===== *)
theory Grant_Policy
  imports Identity_Grants
begin

text \<open>
  What the grants between identities guarantee over every sequence of enrollment and grant operations, and exactly
  when they let a device use another one as its exit.
\<close>

section \<open>Features\<close>

definition normalized :: "string list \<Rightarrow> bool" where
  "normalized fs \<longleftrightarrow> fs \<noteq> [] \<and> set fs \<subseteq> {GrantFeatureProxyUse, GrantFeatureRDPConnect} \<and> normalizeDeviceIdentityGrantFeatures fs = Ok fs"

lemma trim_features: "TrimSpace GrantFeatureProxyUse = GrantFeatureProxyUse" "TrimSpace GrantFeatureRDPConnect = GrantFeatureRDPConnect"
  "GrantFeatureProxyUse \<noteq> GrantFeatureRDPConnect" "GrantFeatureRDPConnect \<noteq> GrantFeatureProxyUse"
  by code_simp+

lemma normalize_normalized:
  assumes "normalizeDeviceIdentityGrantFeatures fs = Ok out"
  shows "normalized out"
proof -
  let ?a = "[GrantFeatureProxyUse, GrantFeatureRDPConnect]"
  let ?t = "map TrimSpace fs"
  have o: "out = filter (\<lambda>f. f \<in> set ?t) ?a" "?t \<noteq> []" "set ?t \<subseteq> set ?a"
    using assms by (auto simp: normalizeDeviceIdentityGrantFeatures_def Let_def list_all_iff split: if_splits)
  have so: "set out = set ?t" unfolding o(1) set_filter using o(3) by blast
  then have ne: "out \<noteq> []" using o(2) by (metis set_empty)
  have sub: "set out \<subseteq> {GrantFeatureProxyUse, GrantFeatureRDPConnect}" using o(1) by auto
  have m: "map TrimSpace out = out" using sub trim_features by (intro map_idI) auto
  have "filter (\<lambda>f. f \<in> set out) ?a = out" unfolding o(1) by (simp add: trim_features)
  then have "normalizeDeviceIdentityGrantFeatures out = Ok out"
    using sub ne so by (auto simp: normalizeDeviceIdentityGrantFeatures_def Let_def m list_all_iff)
  then show ?thesis using ne sub by (simp add: normalized_def)
qed

lemma normalize_system:
  assumes "normalizeSystemGrant r fs = Ok (r', out)"
  shows "r' = SystemResourceServerExit" "out = [GrantFeatureProxyUse]"
  using assms by (auto simp: normalizeSystemGrant_def length_Suc_conv split: if_splits sum.splits)

lemma validated:
  assumes "validateDeviceIdentityGrant t g fs st = Ok out"
  shows "normalized out \<and> TrimSpace g \<noteq> [] \<and> (\<exists>r i. approved_device (TrimSpace t) st = Some r \<and> dv_identity r = Some i \<and> TrimSpace i \<noteq> [] \<and>
      i \<noteq> TrimSpace g) \<and> (\<exists>n. identity_by_id (TrimSpace g) st = Some n)"
proof -
  have "normalizeDeviceIdentityGrantFeatures fs = Ok out"
    using assms by (auto simp: validateDeviceIdentityGrant_def Let_def split: if_splits sum.splits option.splits)
  then show ?thesis
    using assms normalize_normalized by (auto simp: validateDeviceIdentityGrant_def Let_def split: if_splits sum.splits option.splits)
qed

section \<open>The invariant\<close>

definition share_ok :: "store \<Rightarrow> share_row \<Rightarrow> bool" where
  "share_ok st g \<longleftrightarrow> normalized (sh_features g) \<and> sh_revision g \<ge> 1 \<and>
     TrimSpace (sh_target g) = sh_target g \<and> TrimSpace (sh_grantee g) = sh_grantee g \<and>
     (\<exists>r \<in> set (st_devices st). dv_id r = sh_target g \<and> \<not> blank_id (dv_identity r) \<and> dv_identity r \<noteq> Some (sh_grantee g)) \<and>
     (\<exists>n \<in> set (st_identities st). in_id n = sh_grantee g)"

definition system_ok :: "store \<Rightarrow> system_row \<Rightarrow> bool" where
  "system_ok st g \<longleftrightarrow> sy_resource g = SystemResourceServerExit \<and> sy_features g = [GrantFeatureProxyUse] \<and> sy_revision g \<ge> 1 \<and>
     TrimSpace (sy_grantee g) = sy_grantee g \<and> (\<exists>n \<in> set (st_identities st). in_id n = sy_grantee g)"

definition grants_ok :: "store \<Rightarrow> bool" where
  "grants_ok st \<longleftrightarrow> distinct (map sh_id (st_shares st)) \<and> distinct (map (\<lambda>g. (sh_target g, sh_grantee g)) (st_shares st)) \<and>
     (\<forall>g \<in> set (st_shares st). share_ok st g) \<and>
     distinct (map sy_id (st_system st)) \<and> distinct (map sy_grantee (st_system st)) \<and> (\<forall>g \<in> set (st_system st). system_ok st g)"

lemma grants_mono:
  assumes "grants_ok st" "st_system st' = st_system st"
    "st_shares st' = filter p (st_shares st)"
    "\<And>g. g \<in> set (st_shares st) \<Longrightarrow> p g \<Longrightarrow> keeps_device (sh_target g) st st'"
    "\<And>n. n \<in> set (st_identities st) \<Longrightarrow> \<exists>n' \<in> set (st_identities st'). in_id n' = in_id n"
  shows "grants_ok st'"
proof -
  have sh: "share_ok st' g" if g: "g \<in> set (st_shares st')" for g
  proof -
    have o: "share_ok st g" "keeps_device (sh_target g) st st'" using g assms(1,4) by (auto simp: assms(3) grants_ok_def)
    then obtain r where r: "r \<in> set (st_devices st)" "dv_id r = sh_target g" "\<not> blank_id (dv_identity r)" "dv_identity r \<noteq> Some (sh_grantee g)"
      by (auto simp: share_ok_def)
    then obtain r' where "r' \<in> set (st_devices st')" "dv_id r' = sh_target g" "dv_identity r' = dv_identity r"
      using o(2) unfolding keeps_device_def by blast
    then show ?thesis using o(1) r assms(5) unfolding share_ok_def by (metis (no_types, lifting))
  qed
  have sy: "system_ok st' g" if g: "g \<in> set (st_system st')" for g
    using g assms(1,5) unfolding assms(2) grants_ok_def system_ok_def by (metis (no_types, lifting))
  show ?thesis
    using assms(1) sh sy unfolding grants_ok_def assms(2,3) by (auto simp: distinct_map_filter)
qed

lemma grants_kept:
  assumes "grants_ok st" "st_shares st' = st_shares st" "st_system st' = st_system st" "\<And>e. keeps_device e st st'"
  shows "grants_ok st'"
proof (rule grants_mono [OF assms(1,3)])
  show "st_shares st' = filter (\<lambda>_. True) (st_shares st)" using assms(2) by simp
  show "\<And>n. n \<in> set (st_identities st) \<Longrightarrow> \<exists>n' \<in> set (st_identities st'). in_id n' = in_id n"
    using assms(4) by (auto simp: keeps_device_def)
qed (rule assms(4))

section \<open>Enrollment leaves the grants alone\<close>

lemma grant_fields [simp]:
  "st_shares (syncDeviceRDPService i d cs st) = st_shares st" "st_system (syncDeviceRDPService i d cs st) = st_system st"
  "st_shares (replaceDeviceRuntimeGrants d cs st) = st_shares st" "st_system (replaceDeviceRuntimeGrants d cs st) = st_system st"
  "st_shares (enable_service i d st) = st_shares st" "st_system (enable_service i d st) = st_system st"
  "st_shares (disable_services d st) = st_shares st" "st_system (disable_services d st) = st_system st"
  "st_shares (disable_ports d st) = st_shares st" "st_system (disable_ports d st) = st_system st"
  "st_shares (update_keys p f st) = st_shares st" "st_system (update_keys p f st) = st_system st"
  "st_shares (update_requests q g st) = st_shares st" "st_system (update_requests q g st) = st_system st"
  "st_shares (update_devices r h st) = st_shares st" "st_system (update_devices r h st) = st_system st"
  "st_shares (resolve_pending fp a st) = st_shares st" "st_system (resolve_pending fp a st) = st_system st"
  by (simp_all add: syncDeviceRDPService_def replaceDeviceRuntimeGrants_def enable_service_def disable_services_def
      disable_ports_def update_keys_def update_requests_def update_devices_def resolve_pending_def split: option.splits)

definition same_grants :: "store \<Rightarrow> store \<Rightarrow> bool" where
  "same_grants st st' \<longleftrightarrow> st_shares st' = st_shares st \<and> st_system st' = st_system st"

lemma upsert_grants: "upsert_request f row st = Ok st' \<Longrightarrow> same_grants st st'"
  by (auto simp: upsert_request_def same_grants_def split: option.splits if_splits)

lemma incremental_grants: "upsertIncrementalEnrollment ni i ob cs st = Ok (x, st') \<Longrightarrow> same_grants st st'"
  using upsert_grants by (fastforce simp: upsertIncrementalEnrollment_def Let_def split: sum.splits option.splits)

lemma pending_grants: "observe_pending ids i ob cs st = Ok (a, st') \<Longrightarrow> same_grants st st'"
  using upsert_grants by (fastforce simp: observe_pending_def Let_def split: sum.splits option.splits)

lemma managed_grants: "same_grants st (updateIdentityManagedDevice ni d ob r dn ef st)"
  by (simp add: updateIdentityManagedDevice_def same_grants_def)

lemma observe_grants:
  assumes "ObserveIdentityDevice ids i ob st = Ok (a, st')"
  shows "same_grants st st'"
proof -
  have ap: "same_grants st st'" if "observe_approved ids i rv ob cs ex st = Ok (a, st')" for rv cs ex
    using that incremental_grants managed_grants unfolding observe_approved_def Let_def
    by (auto simp: same_grants_def split: option.splits if_splits sum.splits; metis)
  have k: "same_grants (st\<lparr>st_keys := ks\<rparr>) st' \<Longrightarrow> same_grants st st'" for ks by (simp add: same_grants_def)
  show ?thesis
    using assms unfolding ObserveIdentityDevice_def Let_def
    by (auto split: if_splits option.splits dest!: ap pending_grants k) (simp_all add: same_grants_def)
qed

lemma admin_grants:
  "ApproveEnrollmentForIdentity ids2 q user scope cs st = Ok (x, st') \<Longrightarrow> same_grants st st'"
  "RejectEnrollmentForIdentity q scope st = Ok st' \<Longrightarrow> same_grants st st'"
  "RevokeDevice d st = Ok st' \<Longrightarrow> same_grants st st'"
  "UpdateDeviceCapabilities ni d user cs st = Ok (x, st') \<Longrightarrow> same_grants st st'"
  "UpdateIdentity i user nm status revision st = Ok st' \<Longrightarrow> same_grants st st'"
proof -
  show "same_grants st st'" if ap: "ApproveEnrollmentForIdentity ids2 q user scope cs st = Ok (x, st')"
  proof -
    consider (additional) d rs as where "approveAdditionalCapabilities (snd ids2) q d rs as st = Ok (x, st')"
      | (first) rq rs as where "approve_first ids2 user rq rs as st = Ok (x, st')"
      using ap by (auto simp: ApproveEnrollmentForIdentity_def Let_def split: option.splits if_splits)
    then show ?thesis
      by cases (auto simp: same_grants_def approveAdditionalCapabilities_def approve_first_def Let_def split: option.splits if_splits)
  qed
qed (auto simp: same_grants_def RejectEnrollmentForIdentity_def reviewEnrollment_def RevokeDevice_def UpdateDeviceCapabilities_def
    UpdateIdentity_def Let_def split: option.splits if_splits)

lemma delete_grants:
  assumes "DeleteDevice d user st = Ok st'"
  shows "st_shares st' = delete_where (\<lambda>g. sh_target g = d) (st_shares st)" "st_system st' = st_system st" "st_identities st' = st_identities st"
  using assms by (auto simp: DeleteDevice_def Let_def cascade_device_def split: option.splits if_splits)

lemma move_grants:
  assumes "SetDeviceIdentity d i user st = Ok st'" "store_ok st"
  shows "st_system st' = st_system st" "st_identities st' = st_identities st"
    "\<exists>p. st_shares st' = filter p (st_shares st) \<and> (\<forall>g. p g \<longrightarrow> keeps_device (sh_target g) st st')"
proof -
  obtain row where row: "device_by_id (TrimSpace d) st = Some row"
    using assms by (auto simp: SetDeviceIdentity_def Let_def split: if_splits option.splits)
  define owner where "owner = (case map_of (st_members st) (TrimSpace i) of None \<Rightarrow> [] | Some u \<Rightarrow> u)"
  define h where "h = (\<lambda>r :: device_row. r\<lparr>dv_identity := Some (TrimSpace i), dv_owner := (if owner \<noteq> [] then Some owner else dv_owner r)\<rparr>)"
  define sel where "sel = (\<lambda>r :: device_row. dv_id r = TrimSpace d)"
  have s: "st_system st' = st_system st \<and> st_identities st' = st_identities st \<and>
      (if dv_identity row \<noteq> Some (TrimSpace i)
       then st_shares st' = delete_where (\<lambda>g. sh_target g = TrimSpace d) (st_shares st) else st_shares st' = st_shares st) \<and>
      (st_devices st' = st_devices st \<or> st_devices st' = update_where sel h (st_devices st))"
    using assms row unfolding SetDeviceIdentity_def Let_def owner_def [symmetric] h_def sel_def by (auto split: if_splits)
  then show "st_system st' = st_system st" "st_identities st' = st_identities st" by simp_all
  show "\<exists>p. st_shares st' = filter p (st_shares st) \<and> (\<forall>g. p g \<longrightarrow> keeps_device (sh_target g) st st')"
  proof (cases "dv_identity row = Some (TrimSpace i)")
    case False
    then show ?thesis
      using s move_keeps [OF assms(1)] by (intro exI [of _ "\<lambda>g. sh_target g \<noteq> TrimSpace d"]) (auto simp: delete_where_def)
  next
    case True
    have "r = row" if "r \<in> set (st_devices st)" "dv_id r = TrimSpace d" for r
      using that device_found [OF row] assms(2) distinct_map_eq [of dv_id "st_devices st" r row] by (simp add: store_ok_def devices_ok_def)
    then have same: "\<exists>r' \<in> set (st_devices st'). dv_id r' = dv_id r \<and> dv_fingerprint r' = dv_fingerprint r \<and> dv_state r' = dv_state r \<and>
        dv_identity r' = dv_identity r" if "r \<in> set (st_devices st)" for r
    proof -
      let ?r = "if sel r then h r else r"
      have id: "dv_identity ?r = dv_identity r" using that True \<open>\<And>r. r \<in> set (st_devices st) \<Longrightarrow> dv_id r = TrimSpace d \<Longrightarrow> r = row\<close> [of r]
        by (auto simp: h_def sel_def)
      show ?thesis
        using s
      proof (elim conjE disjE)
        assume "st_devices st' = st_devices st"
        then show ?thesis using that by auto
      next
        assume u: "st_devices st' = update_where sel h (st_devices st)"
        have "?r \<in> set (st_devices st')" using that by (auto simp: u set_update_where)
        then show ?thesis using id by (intro bexI [of _ ?r]) (auto simp: h_def sel_def)
      qed
    qed
    have "keeps_device e st st'" for e
      using same s unfolding keeps_device_def by metis
    then show ?thesis using s True by (intro exI [of _ "\<lambda>_. True"]) simp
  qed
qed

lemma update_identity_grants:
  assumes "UpdateIdentity i user nm status revision st = Ok st'"
  shows "st_devices st' = st_devices st" "\<And>n. n \<in> set (st_identities st) \<Longrightarrow> \<exists>n' \<in> set (st_identities st'). in_id n' = in_id n"
proof -
  obtain p f where u: "st' = st\<lparr>st_identities := update_where p f (st_identities st)\<rparr>" "\<And>n. in_id (f n) = in_id n"
    using assms unfolding UpdateIdentity_def Let_def by (auto split: if_splits option.splits)
  then show "st_devices st' = st_devices st" by simp
  show "\<exists>n' \<in> set (st_identities st'). in_id n' = in_id n" if "n \<in> set (st_identities st)" for n
    using that u by (intro bexI [of _ "if p n then f n else n"]) (auto simp: set_update_where)
qed

lemma store_step_grants:
  assumes "store_step st st'" "store_ok st" "grants_ok st"
  shows "grants_ok st'"
  using assms
proof (cases rule: store_step.cases)
  case (observe ids i ob a)
  have k: "keeps_device e st st'" for e
    unfolding keeps_device_def
  proof (intro conjI ballI impI)
    have o: "map approval_view (st_devices st') = map approval_view (st_devices st)" "st_identities st' = st_identities st"
      using observe_ok [OF observe assms(2)] by simp_all
    show "st_identities st' = st_identities st" by (rule o)
    fix r
    assume r: "r \<in> set (st_devices st)" "dv_id r = e"
    then have "approval_view r \<in> set (map approval_view (st_devices st'))" unfolding o(1) by simp
    then obtain r' where "r' \<in> set (st_devices st')" "approval_view r' = approval_view r" by auto
    then show "\<exists>r' \<in> set (st_devices st'). dv_id r' = e \<and> dv_fingerprint r' = dv_fingerprint r \<and> dv_state r' = dv_state r \<and> dv_identity r' = dv_identity r"
      using r by (intro bexI [of _ r']) (auto simp: approval_view_def)
  qed
  show ?thesis by (rule grants_kept [OF assms(3) _ _ k]) (use observe_grants [OF observe] in \<open>simp_all add: same_grants_def\<close>)
next
  case (approve ids q reviewer allowed cs r)
  show ?thesis
    by (rule grants_kept [OF assms(3) _ _ approve_keeps [OF approve]]) (use admin_grants(1) [OF approve] in \<open>simp_all add: same_grants_def\<close>)
next
  case (reject q allowed)
  show ?thesis
    by (rule grants_kept [OF assms(3) _ _ reject_keeps [OF reject]]) (use admin_grants(2) [OF reject] in \<open>simp_all add: same_grants_def\<close>)
next
  case (revoke d)
  have id: "st_identities st' = st_identities st" "st_devices st' = update_where (\<lambda>r. dv_id r = d \<and> dv_state r = EnrollmentApproved)
      (\<lambda>r. r\<lparr>dv_state := EnrollmentRevoked\<rparr>) (st_devices st)"
    using revoke by (auto simp: RevokeDevice_def Let_def split: if_splits)
  have g: "st_shares st' = st_shares st" "st_system st' = st_system st" using admin_grants(3) [OF revoke] by (simp_all add: same_grants_def)
  have sh: "share_ok st' x" if x: "share_ok st x" for x
  proof -
    obtain r where r: "r \<in> set (st_devices st)" "dv_id r = sh_target x" "\<not> blank_id (dv_identity r)" "dv_identity r \<noteq> Some (sh_grantee x)"
      using x by (auto simp: share_ok_def)
    let ?r = "if dv_id r = d \<and> dv_state r = EnrollmentApproved then r\<lparr>dv_state := EnrollmentRevoked\<rparr> else r"
    have "?r \<in> set (st_devices st')" using r(1) by (auto simp: id set_update_where)
    moreover have "dv_id ?r = sh_target x" "\<not> blank_id (dv_identity ?r)" "dv_identity ?r \<noteq> Some (sh_grantee x)" using r by auto
    ultimately show ?thesis using x unfolding share_ok_def id(1) by blast
  qed
  have sy: "system_ok st' x" if "system_ok st x" for x using that by (simp add: system_ok_def id(1))
  show ?thesis using assms(3) sh sy unfolding grants_ok_def g by blast
next
  case (capabilities newid d reviewer cs r)
  show ?thesis
    by (rule grants_kept [OF assms(3) _ _ capabilities_keep [OF capabilities]])
      (use admin_grants(4) [OF capabilities] in \<open>simp_all add: same_grants_def\<close>)
next
  case (delete d reviewer)
  note g = delete_grants [OF delete]
  show ?thesis
  proof (rule grants_mono [OF assms(3) g(2)])
    show "st_shares st' = filter (\<lambda>x. sh_target x \<noteq> d) (st_shares st)" using g(1) by (simp add: delete_where_def)
  qed (use delete_keeps [OF delete] g(3) in auto)
next
  case (move d i actor)
  note g = move_grants [OF move assms(2)]
  obtain p where p: "st_shares st' = filter p (st_shares st)" "\<And>x. p x \<Longrightarrow> keeps_device (sh_target x) st st'" using g(3) by blast
  show ?thesis by (rule grants_mono [OF assms(3) g(1) p(1)]) (use p(2) g(2) in auto)
next
  case (identity i actor nm status revision)
  note u = update_identity_grants [OF identity]
  have g: "st_shares st' = st_shares st" "st_system st' = st_system st" using admin_grants(5) [OF identity] by (simp_all add: same_grants_def)
  have sh: "share_ok st' x" if "share_ok st x" for x using that u unfolding share_ok_def by metis
  have sy: "system_ok st' x" if "system_ok st x" for x using that u(2) unfolding system_ok_def by metis
  show ?thesis using assms(3) sh sy unfolding grants_ok_def g by blast
qed

section \<open>Operations on grants\<close>

definition same_enrollment :: "store \<Rightarrow> store \<Rightarrow> bool" where
  "same_enrollment st st' \<longleftrightarrow> st_devices st' = st_devices st \<and> st_keys st' = st_keys st \<and> st_requests st' = st_requests st \<and>
     st_identities st' = st_identities st"

lemma same_enrollment_ok:
  assumes "same_enrollment st st'"
  shows "share_ok st' = share_ok st" "system_ok st' = system_ok st" "store_ok st' = store_ok st"
  using assms by (auto simp: same_enrollment_def share_ok_def system_ok_def store_ok_def fun_eq_iff)

lemma approved_found: "approved_device d st = Some r \<Longrightarrow> r \<in> set (st_devices st) \<and> dv_id r = d \<and> dv_state r = EnrollmentApproved"
  unfolding approved_device_def using find_Some by fastforce

lemma identity_found: "identity_by_id i st = Some n \<Longrightarrow> n \<in> set (st_identities st) \<and> in_id n = i"
  unfolding identity_by_id_def using find_Some by fastforce

lemma trimmed_twice: "TrimSpace (TrimSpace s) = TrimSpace s"
proof -
  have r: "TrimRightSpace (TrimRightSpace u) = TrimRightSpace u" for u by (simp add: TrimRightSpace_def)
  have hd: "hd u = hd s" if "u \<noteq> []" "s = u @ v" for u v s :: string using that by simp
  define u where "u = dropWhile is_space s"
  obtain v where v: "u = TrimRightSpace u @ v"
    using takeWhile_dropWhile_id [of is_space "rev u"] unfolding TrimRightSpace_def by (metis rev_append rev_rev_ident)
  have "dropWhile is_space (TrimRightSpace u) = TrimRightSpace u"
  proof (cases "TrimRightSpace u")
    case (Cons c cs)
    then have "u = c # cs @ v" using v by simp
    then have "\<not> is_space c" using hd_dropWhile [of is_space s] unfolding u_def by (metis list.distinct(1) list.sel(1))
    then show ?thesis by (simp add: Cons)
  qed simp
  then show ?thesis unfolding TrimSpace_def u_def [symmetric] by (simp add: r)
qed

lemma validated_share:
  assumes "validateDeviceIdentityGrant t g fs st = Ok out" "TrimSpace t = t" "TrimSpace g = g" "sh_revision r \<ge> 1"
    "sh_target r = t" "sh_grantee r = g" "sh_features r = out"
  shows "share_ok st r"
proof -
  obtain d i n where d: "approved_device t st = Some d" "dv_identity d = Some i" "TrimSpace i \<noteq> []" "i \<noteq> g" "identity_by_id g st = Some n"
    "normalized out"
    using validated [OF assms(1)] unfolding assms(2,3) by blast
  then have "d \<in> set (st_devices st)" "dv_id d = t" "\<not> blank_id (dv_identity d)" "dv_identity d \<noteq> Some g"
    using approved_found [OF d(1)] by (simp_all add: blank_id_def)
  moreover have "n \<in> set (st_identities st)" "in_id n = g" using identity_found [OF d(5)] by simp_all
  ultimately show ?thesis using d(6) assms(2-7) unfolding share_ok_def by auto
qed

lemma validated_system:
  assumes "validateSystemIdentityGrant r g fs st = Ok (r', out)" "sy_revision x \<ge> 1" "sy_resource x = r'" "sy_grantee x = TrimSpace g"
    "sy_features x = out"
  shows "system_ok st x"
proof -
  have "normalizeSystemGrant r fs = Ok (r', out)" "count_where (\<lambda>n. in_id n = TrimSpace g) (st_identities st) = 1"
    using assms(1) by (auto simp: validateSystemIdentityGrant_def Let_def split: sum.splits if_splits)
  then obtain n where f: "filter (\<lambda>n. in_id n = TrimSpace g) (st_identities st) = [n]" and ns: "normalizeSystemGrant r fs = Ok (r', out)"
    unfolding count_where_1 by blast
  have "n \<in> set (filter (\<lambda>n. in_id n = TrimSpace g) (st_identities st))" unfolding f by simp
  then have n: "n \<in> set (st_identities st)" "in_id n = TrimSpace g" by simp_all
  show ?thesis using normalize_system [OF ns] n assms(2-5) unfolding system_ok_def by (simp add: trimmed_twice) blast
qed

lemma count_where_0: "count_where p rows = 0 \<longleftrightarrow> (\<forall>r \<in> set rows. \<not> p r)"
  by (auto simp: count_where_def filter_empty_conv)

lemma create_share_ok:
  assumes "CreateDeviceIdentityGrant ni now t g actor fs ex st = Ok (r, st')" "grants_ok st"
  shows "grants_ok st' \<and> same_enrollment st st'"
proof -
  obtain out where v: "validateDeviceIdentityGrant (TrimSpace t) (TrimSpace g) fs st = Ok out" and r: "sh_target r = TrimSpace t" "sh_grantee r = TrimSpace g"
      "sh_features r = out" "sh_revision r = 1"
    and new: "\<forall>x \<in> set (st_shares st). \<not> (sh_target x = TrimSpace t \<and> sh_grantee x = TrimSpace g)" "\<forall>x \<in> set (st_shares st). sh_id x \<noteq> sh_id r"
    and st': "st' = st\<lparr>st_shares := st_shares st @ [r]\<rparr>"
    using assms(1) by (auto simp: CreateDeviceIdentityGrant_def Let_def count_where_0 split: if_splits sum.splits)
  have se: "same_enrollment st st'" by (simp add: st' same_enrollment_def)
  have "share_ok st r" using validated_share [OF v] r by (simp add: trimmed_twice)
  then show ?thesis using assms(2) new r se unfolding grants_ok_def same_enrollment_ok [OF se] by (auto simp: st')
qed

lemma create_system_ok:
  assumes "CreateSystemIdentityGrant ni now rs g actor fs ex st = Ok (r, st')" "grants_ok st"
  shows "grants_ok st' \<and> same_enrollment st st'"
proof -
  obtain out where v: "validateSystemIdentityGrant rs g fs st = Ok (sy_resource r, out)" and r: "sy_grantee r = TrimSpace g"
      "sy_features r = out" "sy_revision r = 1"
    and new: "\<forall>x \<in> set (st_system st). \<not> (sy_resource x = sy_resource r \<and> sy_grantee x = TrimSpace g)" "\<forall>x \<in> set (st_system st). sy_id x \<noteq> sy_id r"
    and st': "st' = st\<lparr>st_system := st_system st @ [r]\<rparr>"
    using assms(1) by (auto simp: CreateSystemIdentityGrant_def Let_def count_where_0 split: if_splits sum.splits)
  have se: "same_enrollment st st'" by (simp add: st' same_enrollment_def)
  have sy: "system_ok st r" using validated_system [OF v] r by simp
  have "sy_resource x = sy_resource r" if "x \<in> set (st_system st)" for x
    using that sy assms(2) by (simp add: grants_ok_def system_ok_def)
  then have "\<forall>x \<in> set (st_system st). sy_grantee x \<noteq> sy_grantee r" using new(1) r(1) by auto
  then show ?thesis using assms(2) new(2) sy se unfolding grants_ok_def same_enrollment_ok [OF se] by (auto simp: st')
qed

lemma delete_rows_ok:
  assumes "grants_ok st" "st' = st\<lparr>st_shares := filter p (st_shares st), st_system := filter q (st_system st)\<rparr>"
  shows "grants_ok st' \<and> same_enrollment st st'"
proof -
  have se: "same_enrollment st st'" by (simp add: assms(2) same_enrollment_def)
  show ?thesis using assms(1) se unfolding grants_ok_def same_enrollment_ok [OF se] by (auto simp: assms(2) distinct_map_filter)
qed

lemma delete_grant_ok:
  assumes "DeleteDeviceIdentityGrant i actor rv st = Ok (b, st')" "grants_ok st"
  shows "grants_ok st' \<and> same_enrollment st st'"
proof -
  have "\<exists>p. st' = st\<lparr>st_shares := filter p (st_shares st), st_system := filter (\<lambda>_. True) (st_system st)\<rparr>"
  proof -
    consider "st' = st" | p where "st' = st\<lparr>st_shares := delete_where p (st_shares st)\<rparr>"
      using assms(1) by (auto simp: DeleteDeviceIdentityGrant_def Let_def split: if_splits sum.splits option.splits)
    then show ?thesis by cases (auto intro: exI [of _ "\<lambda>_. True"] simp: delete_where_def)
  qed
  then show ?thesis using delete_rows_ok [OF assms(2)] by blast
qed

lemma delete_system_ok:
  assumes "DeleteSystemIdentityGrant i actor rv st = Ok (b, st')" "grants_ok st"
  shows "grants_ok st' \<and> same_enrollment st st'"
proof -
  have "\<exists>p. st' = st\<lparr>st_shares := filter (\<lambda>_. True) (st_shares st), st_system := filter p (st_system st)\<rparr>"
  proof -
    consider "st' = st" | p where "st' = st\<lparr>st_system := delete_where p (st_system st)\<rparr>"
      using assms(1) by (auto simp: DeleteSystemIdentityGrant_def Let_def split: if_splits sum.splits option.splits)
    then show ?thesis by cases (auto intro: exI [of _ "\<lambda>_. True"] simp: delete_where_def)
  qed
  then show ?thesis using delete_rows_ok [OF assms(2)] by blast
qed

lemma expiry_sweep_ok: "grants_ok st \<Longrightarrow> grants_ok (snd (ExpireIdentityGrants now st)) \<and> same_enrollment st (snd (ExpireIdentityGrants now st))"
  by (rule delete_rows_ok [where p = "\<lambda>r. in_force now (sh_expires r)" and q = "\<lambda>r. in_force now (sy_expires r)"])
    (simp_all add: ExpireIdentityGrants_def Let_def delete_where_def)

text \<open>An update rewrites the one row that has the grant's identifier and the revision it was read at.\<close>

lemma update_one_row:
  assumes "distinct (map f rows)" "distinct (map k rows)" "row \<in> set rows" "\<And>x. p x \<Longrightarrow> f x = f row" "p row"
    "f (h row) = f row" "k (h row) = k row \<or> (\<forall>x \<in> set rows. f x \<noteq> f row \<longrightarrow> k x \<noteq> k (h row))"
  shows "distinct (map f (update_where p h rows))" "distinct (map k (update_where p h rows))"
    "set (update_where p h rows) \<subseteq> insert (h row) (set rows)"
proof -
  have one: "x = row" if "x \<in> set rows" "p x" for x
    using distinct_map_eq [OF assms(1) that(1) assms(3)] assms(4) [OF that(2)] by blast
  have e: "update_where p h rows = map (\<lambda>x. if x = row then h row else x) rows"
    unfolding update_where_def
  proof (rule map_cong [OF refl])
    fix x
    assume x: "x \<in> set rows"
    show "(if p x then h x else x) = (if x = row then h row else x)"
    proof (cases "x = row")
      case True
      then show ?thesis using assms(5) by simp
    next
      case False
      then have "\<not> p x" using one [OF x] by blast
      then show ?thesis using False by simp
    qed
  qed
  have "map f (update_where p h rows) = map f rows" unfolding e using assms(6) by auto
  then show "distinct (map f (update_where p h rows))" using assms(1) by simp
  show "set (update_where p h rows) \<subseteq> insert (h row) (set rows)" unfolding e by auto
  have "inj_on (\<lambda>x. k (if x = row then h row else x)) (set rows)"
  proof (rule inj_onI)
    fix x y
    assume xy: "x \<in> set rows" "y \<in> set rows" "k (if x = row then h row else x) = k (if y = row then h row else y)"
    have ne: "f z \<noteq> f row" if "z \<in> set rows" "z \<noteq> row" for z using distinct_map_eq [OF assms(1) that(1) assms(3)] that(2) by blast
    have kk: "k z \<noteq> k (h row)" if "z \<in> set rows" "z \<noteq> row" for z
      using assms(7) ne [OF that] that distinct_map_eq [OF assms(2) that(1) assms(3)] by auto
    show "x = y"
    proof (rule ccontr)
      assume "x \<noteq> y"
      then consider (left) "x = row" "y \<noteq> row" | (right) "x \<noteq> row" "y = row" | (neither) "x \<noteq> row" "y \<noteq> row" by blast
      then show False
      proof cases
        case left
        then show False using xy kk [of y] by simp
      next
        case right
        then show False using xy kk [of x] by simp
      next
        case neither
        then show False using xy distinct_map_eq [OF assms(2) xy(1,2)] \<open>x \<noteq> y\<close> by simp
      qed
    qed
  qed
  then show "distinct (map k (update_where p h rows))"
    unfolding e using assms(2) by (simp add: distinct_map comp_def)
qed

lemma update_share_ok:
  assumes "UpdateDeviceIdentityGrant now i actor g fs ex clear rv st = Ok (r, st')" "grants_ok st"
  shows "grants_ok st' \<and> same_enrollment st st'"
proof -
  obtain row where row: "find (\<lambda>r. sh_id r = TrimSpace i) (st_shares st) = Some row"
    using assms(1) by (auto simp: UpdateDeviceIdentityGrant_def Let_def split: if_splits option.splits)
  then have rin: "row \<in> set (st_shares st)" "sh_id row = TrimSpace i" using find_Some by fastforce+
  have rok: "share_ok st row" using rin assms(2) by (simp add: grants_ok_def)
  define ng where "ng = (case g of None \<Rightarrow> sh_grantee row | Some x \<Rightarrow> TrimSpace x)"
  have tg: "TrimSpace (sh_target row) = sh_target row" "TrimSpace ng = ng"
    using rok by (auto simp: share_ok_def ng_def trimmed_twice split: option.split)
  define sel where "sel = (\<lambda>r :: share_row. sh_id r = TrimSpace i \<and> sh_revision r = sh_revision row)"
  obtain out fs1 x where v: "validateDeviceIdentityGrant (sh_target row) ng fs1 st = Ok out"
    and dup: "ng = sh_grantee row \<or> (\<forall>r \<in> set (st_shares st). \<not> (sh_target r = sh_target row \<and> sh_grantee r = ng \<and> sh_id r \<noteq> TrimSpace i))"
    and st': "st' = st\<lparr>st_shares := update_where sel (\<lambda>r. r\<lparr>sh_grantee := ng, sh_features := out, sh_expires := x,
                                       sh_revision := sh_revision row + 1\<rparr>) (st_shares st)\<rparr>"
    using assms(1) row unfolding UpdateDeviceIdentityGrant_def Let_def count_where_0
    by (auto simp: ng_def sel_def split: if_splits sum.splits)
  define h where "h = (\<lambda>r :: share_row. r\<lparr>sh_grantee := ng, sh_features := out, sh_expires := x, sh_revision := sh_revision row + 1\<rparr>)"
  have se: "same_enrollment st st'" by (simp add: st' same_enrollment_def)
  have "sh_revision row \<ge> 1" using rok by (simp add: share_ok_def)
  then have nok: "share_ok st (h row)" by (intro validated_share [OF v tg]) (simp_all add: h_def)
  have d: "distinct (map sh_id (st_shares st))" "distinct (map (\<lambda>g. (sh_target g, sh_grantee g)) (st_shares st))"
    using assms(2) by (simp_all add: grants_ok_def)
  note u = update_one_row [OF d rin(1), of sel h]
  have "distinct (map sh_id (update_where sel h (st_shares st)))" "distinct (map (\<lambda>g. (sh_target g, sh_grantee g)) (update_where sel h (st_shares st)))"
    "set (update_where sel h (st_shares st)) \<subseteq> insert (h row) (set (st_shares st))"
    using u dup rin(2) by (auto simp: sel_def h_def)
  then show ?thesis
    using assms(2) nok se unfolding grants_ok_def same_enrollment_ok [OF se] by (auto simp: st' h_def [symmetric])
qed

lemma update_system_ok:
  assumes "UpdateSystemIdentityGrant now i actor g fs ex clear rv st = Ok (r, st')" "grants_ok st"
  shows "grants_ok st' \<and> same_enrollment st st'"
proof -
  obtain row where row: "find (\<lambda>r. sy_id r = TrimSpace i) (st_system st) = Some row"
    using assms(1) by (auto simp: UpdateSystemIdentityGrant_def Let_def split: if_splits option.splits)
  then have rin: "row \<in> set (st_system st)" "sy_id row = TrimSpace i" using find_Some by fastforce+
  have rok: "system_ok st row" using rin assms(2) by (simp add: grants_ok_def)
  define ng where "ng = (case g of None \<Rightarrow> sy_grantee row | Some x \<Rightarrow> TrimSpace x)"
  have tg: "TrimSpace ng = ng" using rok by (auto simp: system_ok_def ng_def trimmed_twice split: option.split)
  define sel where "sel = (\<lambda>r :: system_row. sy_id r = TrimSpace i \<and> sy_revision r = sy_revision row)"
  obtain out fs1 x rs where v: "validateSystemIdentityGrant (sy_resource row) ng fs1 st = Ok (rs, out)"
    and dup: "ng = sy_grantee row \<or> (\<forall>r \<in> set (st_system st). \<not> (sy_resource r = rs \<and> sy_grantee r = ng \<and> sy_id r \<noteq> TrimSpace i))"
    and st': "st' = st\<lparr>st_system := update_where sel (\<lambda>r. r\<lparr>sy_grantee := ng, sy_features := out, sy_expires := x,
                                       sy_revision := sy_revision row + 1\<rparr>) (st_system st)\<rparr>"
    using assms(1) row unfolding UpdateSystemIdentityGrant_def Let_def count_where_0
    by (auto simp: ng_def sel_def split: if_splits sum.splits)
  define h where "h = (\<lambda>r :: system_row. r\<lparr>sy_grantee := ng, sy_features := out, sy_expires := x, sy_revision := sy_revision row + 1\<rparr>)"
  have se: "same_enrollment st st'" by (simp add: st' same_enrollment_def)
  have rs: "rs = SystemResourceServerExit"
    using v normalize_system(1) by (auto simp: validateSystemIdentityGrant_def Let_def split: sum.splits if_splits)
  have all: "sy_resource r = rs" if "r \<in> set (st_system st)" for r using that assms(2) rs by (simp add: grants_ok_def system_ok_def)
  have nok: "system_ok st (h row)"
    using validated_system [OF v, of "h row"] rok tg all [OF rin(1)] by (simp add: h_def system_ok_def)
  have d: "distinct (map sy_id (st_system st))" "distinct (map sy_grantee (st_system st))"
    using assms(2) by (simp_all add: grants_ok_def)
  note u = update_one_row [OF d rin(1), of sel h]
  have "distinct (map sy_id (update_where sel h (st_system st)))" "distinct (map sy_grantee (update_where sel h (st_system st)))"
    "set (update_where sel h (st_system st)) \<subseteq> insert (h row) (set (st_system st))"
    using u dup rin(2) all by (auto simp: sel_def h_def)
  then show ?thesis
    using assms(2) nok se unfolding grants_ok_def same_enrollment_ok [OF se] by (auto simp: st' h_def [symmetric])
qed

section \<open>Reachable stores\<close>

inductive grant_step :: "store \<Rightarrow> store \<Rightarrow> bool" where
  enrollment: "store_step st st' \<Longrightarrow> grant_step st st'"
| create: "CreateDeviceIdentityGrant ni now t g actor fs ex st = Ok (r, st') \<Longrightarrow> grant_step st st'"
| update: "UpdateDeviceIdentityGrant now i actor g2 fs2 ex clear rv st = Ok (r, st') \<Longrightarrow> grant_step st st'"
| delete: "DeleteDeviceIdentityGrant i actor rv st = Ok (b, st') \<Longrightarrow> grant_step st st'"
| create_system: "CreateSystemIdentityGrant ni now t g actor fs ex st = Ok (s, st') \<Longrightarrow> grant_step st st'"
| update_system: "UpdateSystemIdentityGrant now i actor g2 fs2 ex clear rv st = Ok (s, st') \<Longrightarrow> grant_step st st'"
| delete_system: "DeleteSystemIdentityGrant i actor rv st = Ok (b, st') \<Longrightarrow> grant_step st st'"
| expire: "grant_step st (snd (ExpireIdentityGrants now st))"

inductive grant_reach :: "store \<Rightarrow> bool" where
  start: "fresh_store st \<Longrightarrow> st_shares st = [] \<Longrightarrow> st_system st = [] \<Longrightarrow> (\<forall>n \<in> set (st_identities st). in_revision n \<ge> 1) \<Longrightarrow>
    grant_reach st"
| step: "grant_reach st \<Longrightarrow> grant_step st st' \<Longrightarrow> grant_reach st'"

definition revisions_ok :: "store \<Rightarrow> bool" where
  "revisions_ok st \<longleftrightarrow> (\<forall>n \<in> set (st_identities st). in_revision n \<ge> 1)"

lemma identity_revisions:
  assumes "UpdateIdentity i user nm status revision st = Ok st'" "revisions_ok st"
  shows "revisions_ok st'"
proof -
  obtain row where row: "identity_by_id (TrimSpace i) st = Some row"
    using assms(1) by (auto simp: UpdateIdentity_def Let_def split: if_splits option.splits)
  have "in_revision row \<ge> 1" using identity_found [OF row] assms(2) by (simp add: revisions_ok_def)
  moreover obtain p nn ns where "st' = st\<lparr>st_identities := update_where p (\<lambda>n. n\<lparr>in_name := nn, in_status := ns, in_revision := in_revision row + 1\<rparr>)
      (st_identities st)\<rparr>"
    using assms(1) row unfolding UpdateIdentity_def Let_def by (auto split: if_splits option.splits)
  ultimately show ?thesis using assms(2) by (auto simp: revisions_ok_def set_update_where)
qed

lemma store_step_revisions:
  assumes "store_step st st'" "store_ok st" "revisions_ok st"
  shows "revisions_ok st'"
proof -
  have same: "revisions_ok st'" if "st_identities st' = st_identities st" using that assms(3) by (simp add: revisions_ok_def)
  have k: "st_identities st' = st_identities st" if "keeps_device e st st'" for e using that by (simp add: keeps_device_def)
  show ?thesis
    using assms(1)
  proof (cases rule: store_step.cases)
    case (observe ids i ob a)
    show ?thesis by (rule same) (use observe_ok [OF observe assms(2)] in simp)
  next
    case (approve ids q reviewer allowed cs r)
    then show ?thesis using same k [OF approve_keeps] by blast
  next
    case (reject q allowed)
    then show ?thesis using same k [OF reject_keeps] by blast
  next
    case (revoke d)
    then show ?thesis by (intro same) (auto simp: RevokeDevice_def Let_def split: if_splits)
  next
    case (capabilities newid d reviewer cs r)
    then show ?thesis using same k [OF capabilities_keep] by blast
  next
    case (delete d reviewer)
    then show ?thesis using same delete_grants(3) by blast
  next
    case (move d i actor)
    then show ?thesis using same move_grants(2) [OF _ assms(2)] by blast
  next
    case (identity i actor nm status revision)
    then show ?thesis using identity_revisions assms(3) by blast
  qed
qed

lemma grant_step_ok:
  assumes "grant_step st st'" "store_ok st \<and> grants_ok st \<and> revisions_ok st"
  shows "store_ok st' \<and> grants_ok st' \<and> revisions_ok st'"
proof -
  have other: ?thesis if g: "grants_ok st' \<and> same_enrollment st st'"
  proof -
    have "st_identities st' = st_identities st" using g by (simp add: same_enrollment_def)
    then show ?thesis using g assms(2) same_enrollment_ok(3) [OF conjunct2 [OF g]] by (simp add: revisions_ok_def)
  qed
  show ?thesis
    using assms(1)
  proof (cases rule: grant_step.cases)
    case enrollment
    then show ?thesis using assms(2) store_step_ok store_step_grants store_step_revisions by blast
  next
    case create
    then show ?thesis using other create_share_ok assms(2) by blast
  next
    case update
    then show ?thesis using other update_share_ok assms(2) by blast
  next
    case delete
    then show ?thesis using other delete_grant_ok assms(2) by blast
  next
    case create_system
    then show ?thesis using other create_system_ok assms(2) by blast
  next
    case update_system
    then show ?thesis using other update_system_ok assms(2) by blast
  next
    case delete_system
    then show ?thesis using other delete_system_ok assms(2) by blast
  next
    case (expire now)
    then show ?thesis using other expiry_sweep_ok assms(2) by blast
  qed
qed

lemma grant_reach_ok: "grant_reach st \<Longrightarrow> store_ok st \<and> grants_ok st \<and> revisions_ok st"
proof (induction rule: grant_reach.induct)
  case (start st)
  then show ?case using store_reach_ok [OF store_reach.fresh [OF start(1)]] by (simp add: grants_ok_def revisions_ok_def)
qed (rule grant_step_ok)

section \<open>Properties\<close>

text \<open>C14. 
  Over every sequence of enrollment and grant operations, a grant names a device that has an identity and grants it
  to another identity (moving or deleting the device takes its grants along), there is at most one per device and
  grantee, its features are a nonempty set of known ones, and the server's exit is granted for proxying only.
\<close>
theorem grants_consistent:
  assumes "grant_reach st"
  shows "(\<forall>g \<in> set (st_shares st). sh_features g \<noteq> [] \<and> set (sh_features g) \<subseteq> {GrantFeatureProxyUse, GrantFeatureRDPConnect} \<and>
      (\<exists>r \<in> set (st_devices st). dv_id r = sh_target g \<and> dv_identity r \<noteq> None \<and> dv_identity r \<noteq> Some (sh_grantee g))) \<and>
    (\<forall>g \<in> set (st_shares st). \<forall>h \<in> set (st_shares st). sh_target g = sh_target h \<and> sh_grantee g = sh_grantee h \<longrightarrow> g = h) \<and>
    (\<forall>g \<in> set (st_system st). sy_resource g = SystemResourceServerExit \<and> sy_features g = [GrantFeatureProxyUse]) \<and>
    (\<forall>g \<in> set (st_system st). \<forall>h \<in> set (st_system st). sy_grantee g = sy_grantee h \<longrightarrow> g = h)"
proof -
  have ok: "grants_ok st" using grant_reach_ok [OF assms] by blast
  then have d: "distinct (map (\<lambda>g. (sh_target g, sh_grantee g)) (st_shares st))" "distinct (map sy_grantee (st_system st))"
    by (simp_all add: grants_ok_def)
  have "sh_features g \<noteq> [] \<and> set (sh_features g) \<subseteq> {GrantFeatureProxyUse, GrantFeatureRDPConnect} \<and>
      (\<exists>r \<in> set (st_devices st). dv_id r = sh_target g \<and> dv_identity r \<noteq> None \<and> dv_identity r \<noteq> Some (sh_grantee g))"
    if "g \<in> set (st_shares st)" for g
  proof -
    have "share_ok st g" using ok that by (simp add: grants_ok_def)
    then obtain r where r: "r \<in> set (st_devices st)" "dv_id r = sh_target g" "\<not> blank_id (dv_identity r)" "dv_identity r \<noteq> Some (sh_grantee g)"
      and n: "normalized (sh_features g)" by (auto simp: share_ok_def)
    have "dv_identity r \<noteq> None" using r(3) by (cases "dv_identity r") (simp_all add: blank_id_def)
    then show ?thesis using r n unfolding normalized_def by blast
  qed
  moreover have "g = h" if "g \<in> set (st_shares st)" "h \<in> set (st_shares st)" "sh_target g = sh_target h \<and> sh_grantee g = sh_grantee h" for g h
    using distinct_map_eq [OF d(1) that(1,2)] that(3) by simp
  moreover have "g = h" if "g \<in> set (st_system st)" "h \<in> set (st_system st)" "sy_grantee g = sy_grantee h" for g h
    using distinct_map_eq [OF d(2) that(1,2)] that(3) by simp
  moreover have "sy_resource g = SystemResourceServerExit \<and> sy_features g = [GrantFeatureProxyUse]" if "g \<in> set (st_system st)" for g
    using ok that by (simp add: grants_ok_def system_ok_def)
  ultimately show ?thesis by blast
qed

subsection \<open>Who may use an exit\<close>

lemma approved_device_iff:
  assumes "store_ok st"
  shows "approved_device d st = Some r \<longleftrightarrow> r \<in> set (st_devices st) \<and> dv_id r = d \<and> dv_state r = EnrollmentApproved"
proof
  assume a: "r \<in> set (st_devices st) \<and> dv_id r = d \<and> dv_state r = EnrollmentApproved"
  then have "approved_device d st \<noteq> None" by (auto simp: approved_device_def find_None_iff)
  then obtain r' where r': "approved_device d st = Some r'" by blast
  have "r' = r"
    using approved_found [OF r'] a assms distinct_map_eq [of dv_id "st_devices st" r' r] by (simp add: store_ok_def devices_ok_def)
  then show "approved_device d st = Some r" using r' by simp
qed (rule approved_found)

lemma identity_by_id_iff:
  assumes "store_ok st"
  shows "identity_by_id i st = Some n \<longleftrightarrow> n \<in> set (st_identities st) \<and> in_id n = i"
proof
  assume a: "n \<in> set (st_identities st) \<and> in_id n = i"
  then have "identity_by_id i st \<noteq> None" by (auto simp: identity_by_id_def find_None_iff)
  then obtain n' where n': "identity_by_id i st = Some n'" by blast
  have "n' = n" using identity_found [OF n'] a assms distinct_map_eq [of in_id "st_identities st" n' n] by (simp add: store_ok_def)
  then show "identity_by_id i st = Some n" using n' by simp
qed (rule identity_found)

lemma any_grants_normalized:
  assumes "\<forall>fs \<in> set rows. normalized fs"
  shows "any_grants f rows = Ok (\<exists>fs \<in> set rows. f \<in> set fs)"
  using assms
proof (induction rows)
  case (Cons raw rows)
  then have "normalizeDeviceIdentityGrantFeatures raw = Ok raw" by (simp add: normalized_def)
  then show ?case using Cons by auto
qed simp

definition shared :: "int \<Rightarrow> store \<Rightarrow> string \<Rightarrow> string \<Rightarrow> bool" where
  "shared now st target grantee \<longleftrightarrow> (\<exists>g \<in> set (st_shares st). sh_target g = target \<and> sh_grantee g = grantee \<and>
     in_force now (sh_expires g) \<and> GrantFeatureProxyUse \<in> set (sh_features g))"

lemma has_active:
  assumes "grants_ok st" "target \<noteq> []" "grantee \<noteq> []"
  shows "HasActiveDeviceIdentityGrant now target grantee GrantFeatureProxyUse st = Ok (shared now st target grantee)"
proof -
  have "\<forall>fs \<in> set (map sh_features (filter (\<lambda>r. sh_target r = target \<and> sh_grantee r = grantee \<and> in_force now (sh_expires r)) (st_shares st))).
      normalized fs"
    using assms(1) by (auto simp: grants_ok_def share_ok_def)
  from any_grants_normalized [OF this, of GrantFeatureProxyUse] show ?thesis
    using assms(2,3) by (auto simp: HasActiveDeviceIdentityGrant_def shared_def)
qed

text \<open>The policy: an approved client uses an approved exit of its own identity, or of one that shares it.\<close>

definition exit_policy :: "int \<Rightarrow> store \<Rightarrow> device_row \<Rightarrow> device_row \<Rightarrow> bool" where
  "exit_policy now st c e \<longleftrightarrow>
     (case (dv_identity c, dv_identity e) of
        (None, None) \<Rightarrow> dv_owner c \<noteq> None \<and> dv_owner c \<noteq> Some [] \<and> dv_owner c = dv_owner e
      | (Some i, Some j) \<Rightarrow> TrimSpace i \<noteq> [] \<and> TrimSpace j \<noteq> [] \<and>
          (\<exists>n \<in> set (st_identities st). in_id n = i \<and> in_status n = IdentityStatusActive) \<and>
          (\<exists>n \<in> set (st_identities st). in_id n = j \<and> in_status n = IdentityStatusActive) \<and>
          ''proxy.client'' \<in> set (dv_approved c) \<and> ''proxy.exit'' \<in> set (dv_approved e) \<and> (i = j \<or> shared now st (dv_id e) i)
      | _ \<Rightarrow> False)"

lemma status_active:
  assumes "store_ok st"
  shows "status_of (Some i) st = Some s \<longleftrightarrow> (\<exists>n \<in> set (st_identities st). in_id n = i \<and> in_status n = s)"
  using identity_by_id_iff [OF assms] by (auto simp: status_of_def)

lemma exit_decision:
  assumes ok: "store_ok st" "grants_ok st"
    and dev: "approved_device c st = Some rc" "approved_device e st = Some re" "c \<noteq> []" "e \<noteq> []" "c \<noteq> e" "e \<noteq> SystemResourceServerExit"
  shows "AuthorizeClientExit now st c e = Ok (exit_policy now st rc re)"
proof -
  have id: "dv_id re = e" using approved_found [OF dev(2)] by simp
  have ne: "TrimSpace [] = ([] :: string)" by (simp add: TrimSpace_def TrimRightSpace_def)
  show ?thesis
  proof (cases "dv_identity rc = None \<and> dv_identity re = None")
    case True
    then show ?thesis using dev by (simp add: AuthorizeClientExit_def authorizeIdentityDeviceFeature_def exit_policy_def)
  next
    case False
    show ?thesis
    proof (cases "blank_id (dv_identity rc) \<or> blank_id (dv_identity re)")
      case True
      then show ?thesis
        using dev False by (auto simp: AuthorizeClientExit_def authorizeIdentityDeviceFeature_def exit_policy_def blank_id_def split: option.splits)
    next
      case nb: False
      then obtain i j where ij: "dv_identity rc = Some i" "dv_identity re = Some j" "TrimSpace i \<noteq> []" "TrimSpace j \<noteq> []"
        by (cases "dv_identity rc"; cases "dv_identity re") (simp_all add: blank_id_def)
      then have "i \<noteq> []" using ne by auto
      have act: "status_of (Some x) st = Some IdentityStatusActive \<longleftrightarrow> (\<exists>n \<in> set (st_identities st). in_id n = x \<and> in_status n = IdentityStatusActive)" for x
        by (rule status_active [OF ok(1)])
      show ?thesis
        using dev ij \<open>i \<noteq> []\<close> id has_active [OF ok(2) dev(4) \<open>i \<noteq> []\<close>, of now]
        by (simp add: AuthorizeClientExit_def authorizeIdentityDeviceFeature_def exit_policy_def blank_id_def act hasCapabilityJSON_def
            trim_features(3)) blast
    qed
  qed
qed

text \<open>C9. 
  A device may use another as its exit exactly when both are approved and either both have no identity and one owner,
  or both identities are active, the client is approved as a proxy client and the target as an exit, and they share the
  identity or the target is shared with the client's identity by a grant of proxy use that is still in force.
\<close>
theorem exit_authorized_iff:
  assumes "grant_reach st" "exit \<noteq> SystemResourceServerExit"
  shows "AuthorizeClientExit now st client exit = Ok True \<longleftrightarrow>
    client \<noteq> [] \<and> exit \<noteq> [] \<and> client \<noteq> exit \<and>
    (\<exists>c \<in> set (st_devices st). \<exists>e \<in> set (st_devices st). dv_id c = client \<and> dv_id e = exit \<and>
       dv_state c = EnrollmentApproved \<and> dv_state e = EnrollmentApproved \<and> exit_policy now st c e)"
proof -
  have ok: "store_ok st" "grants_ok st" using grant_reach_ok [OF assms(1)] by simp_all
  note iff = approved_device_iff [OF ok(1)]
  show ?thesis
  proof (cases "client = [] \<or> exit = [] \<or> client = exit")
    case True
    then show ?thesis by (auto simp: AuthorizeClientExit_def)
  next
    case False
    then have ne: "client \<noteq> []" "exit \<noteq> []" "client \<noteq> exit" by simp_all
    show ?thesis
    proof (cases "approved_device client st = None \<or> approved_device exit st = None")
      case True
      then have "AuthorizeClientExit now st client exit = Err ErrNoRows"
        by (elim disjE) (simp_all add: ne assms(2) AuthorizeClientExit_def authorizeIdentityDeviceFeature_def split: option.split)
      moreover have "\<not> (dv_id c = client \<and> dv_id e = exit \<and> dv_state c = EnrollmentApproved \<and> dv_state e = EnrollmentApproved \<and>
          exit_policy now st c e)" if "c \<in> set (st_devices st)" "e \<in> set (st_devices st)" for c e
        using True that iff [of client c] iff [of exit e] by auto
      ultimately show ?thesis by simp
    next
      case False
      then obtain rc re where r: "approved_device client st = Some rc" "approved_device exit st = Some re" by auto
      have cu: "c = rc" if "c \<in> set (st_devices st)" "dv_id c = client" "dv_state c = EnrollmentApproved" for c
        using that iff [of client c] r(1) by simp
      have eu: "e = re" if "e \<in> set (st_devices st)" "dv_id e = exit" "dv_state e = EnrollmentApproved" for e
        using that iff [of exit e] r(2) by simp
      have rows: "rc \<in> set (st_devices st)" "dv_id rc = client" "dv_state rc = EnrollmentApproved"
        "re \<in> set (st_devices st)" "dv_id re = exit" "dv_state re = EnrollmentApproved"
        using approved_found [OF r(1)] approved_found [OF r(2)] by simp_all
      have ex: "(\<exists>c \<in> set (st_devices st). \<exists>e \<in> set (st_devices st). dv_id c = client \<and> dv_id e = exit \<and>
          dv_state c = EnrollmentApproved \<and> dv_state e = EnrollmentApproved \<and> exit_policy now st c e) \<longleftrightarrow> exit_policy now st rc re"
      proof
        assume "\<exists>c \<in> set (st_devices st). \<exists>e \<in> set (st_devices st). dv_id c = client \<and> dv_id e = exit \<and>
          dv_state c = EnrollmentApproved \<and> dv_state e = EnrollmentApproved \<and> exit_policy now st c e"
        then obtain c e where ce: "c \<in> set (st_devices st)" "e \<in> set (st_devices st)" "dv_id c = client" "dv_id e = exit"
          "dv_state c = EnrollmentApproved" "dv_state e = EnrollmentApproved" "exit_policy now st c e" by blast
        show "exit_policy now st rc re" using ce(7) unfolding cu [OF ce(1,3,5)] eu [OF ce(2,4,6)] .
      next
        assume "exit_policy now st rc re"
        then show "\<exists>c \<in> set (st_devices st). \<exists>e \<in> set (st_devices st). dv_id c = client \<and> dv_id e = exit \<and>
          dv_state c = EnrollmentApproved \<and> dv_state e = EnrollmentApproved \<and> exit_policy now st c e"
          by (intro bexI [OF _ rows(1)] bexI [OF _ rows(4)]) (simp add: rows)
      qed
      show ?thesis unfolding ex exit_decision [OF ok r ne assms(2)] using ne by simp
    qed
  qed
qed

end
