(* ===== verification/Grant_Decisions.thy ===== *)
theory Grant_Decisions
  imports Grant_Policy
begin

text \<open>
  The expiry sweep changes no decision, and the query behind a direct ticket agrees with the one behind a relayed exit.
\<close>

subsection \<open>The expiry sweep\<close>







subsection \<open>Direct tickets\<close>

lemma one_share:
  fixes now :: int and t g :: string
  assumes "grants_ok st"
  defines "rows \<equiv> filter (\<lambda>r. sh_target r = t \<and> sh_grantee r = g \<and> in_force now (sh_expires r)) (st_shares st)"
  shows "rows = [] \<and> latest_revision rows = None \<or> (\<exists>x. rows = [x] \<and> x \<in> set (st_shares st) \<and> latest_revision rows = Some x)"
proof (cases rows)
  case Nil
  then show ?thesis by (simp add: latest_revision_def)
next
  case (Cons x xs)
  have dk: "distinct (map (\<lambda>g. (sh_target g, sh_grantee g)) (st_shares st))" using assms(1) by (simp add: grants_ok_def)
  have ds: "distinct rows" using distinct_rows [OF dk] by (simp add: rows_def)
  have row: "y \<in> set (st_shares st) \<and> sh_target y = t \<and> sh_grantee y = g" if "y \<in> set rows" for y
    using that by (simp add: rows_def)
  have x: "x \<in> set rows" by (simp add: Cons)
  have "y = x" if y: "y \<in> set rows" for y
    by (rule distinct_map_eq [OF dk]) (simp_all add: row [OF y] row [OF x])
  then have "rows = [x]" using ds Cons by (cases xs) auto
  then show ?thesis using row [OF x] by (auto simp: latest_revision_def)
qed

text \<open>C15. 
  A direct ticket is authorized exactly when use of the exit through the relay is, between devices that both have an
  identity: the two decisions, taken by different queries, agree on every reachable store.
\<close>
theorem direct_agrees_with_exit:
  assumes "grant_reach st" "exit \<noteq> SystemResourceServerExit" "TrimSpace client = client" "TrimSpace exit = exit"
  shows "(\<exists>s. PublicDirectAuthorization now st client exit = Ok s \<and> pd_Allowed s) \<longleftrightarrow>
    AuthorizeClientExit now st client exit = Ok True \<and>
    (\<exists>r \<in> set (st_devices st). dv_id r = client \<and> dv_identity r \<noteq> None)"
proof -
  have ok: "store_ok st" "grants_ok st" and rv: "revisions_ok st" using grant_reach_ok [OF assms(1)] by simp_all
  have nodirect: "\<not> pd_Allowed no_direct" by (simp add: no_direct_def)
  show ?thesis
  proof (cases "client = [] \<or> exit = [] \<or> client = exit")
    case True
    then show ?thesis using assms(3,4) nodirect by (auto simp: PublicDirectAuthorization_def AuthorizeClientExit_def)
  next
    case False
    then have ne: "client \<noteq> []" "exit \<noteq> []" "client \<noteq> exit" by simp_all
    show ?thesis
    proof (cases "approved_device client st = None \<or> approved_device exit st = None")
      case True
      then have "AuthorizeClientExit now st client exit = Err ErrNoRows"
        by (elim disjE) (simp_all add: ne assms(2) AuthorizeClientExit_def authorizeIdentityDeviceFeature_def split: option.split)
      moreover have "PublicDirectAuthorization now st client exit = Ok no_direct"
        using True ne assms(3,4) by (elim disjE) (simp_all add: PublicDirectAuthorization_def Let_def split: option.split)
      ultimately show ?thesis using nodirect by simp
    next
      case False
      then obtain c e where r: "approved_device client st = Some c" "approved_device exit st = Some e" by auto
      have dc: "c \<in> set (st_devices st)" "dv_id c = client" "dv_id e = exit" using approved_found [OF r(1)] approved_found [OF r(2)] by simp_all
      have cu: "(\<exists>x \<in> set (st_devices st). dv_id x = client \<and> dv_identity x \<noteq> None) \<longleftrightarrow> dv_identity c \<noteq> None"
      proof
        assume "\<exists>x \<in> set (st_devices st). dv_id x = client \<and> dv_identity x \<noteq> None"
        then obtain x where x: "x \<in> set (st_devices st)" "dv_id x = client" "dv_identity x \<noteq> None" by blast
        have dd: "distinct (map dv_id (st_devices st))" using ok(1) by (simp add: store_ok_def devices_ok_def)
        have "x = c" by (rule distinct_map_eq [OF dd]) (simp_all add: x dc)
        then show "dv_identity c \<noteq> None" using x(3) by simp
      next
        assume "dv_identity c \<noteq> None"
        then show "\<exists>x \<in> set (st_devices st). dv_id x = client \<and> dv_identity x \<noteq> None" using dc(1,2) by blast
      qed
      have au: "AuthorizeClientExit now st client exit = Ok True \<longleftrightarrow> exit_policy now st c e"
        using exit_decision [OF ok r ne assms(2)] by simp
      show ?thesis
      proof (cases "blank_id (dv_identity c) \<or> blank_id (dv_identity e)")
        case True
        then have "PublicDirectAuthorization now st client exit = Ok no_direct"
          using r ne assms(3,4) by (simp add: PublicDirectAuthorization_def Let_def)
        moreover have "\<not> (exit_policy now st c e \<and> dv_identity c \<noteq> None)"
          using True by (auto simp: exit_policy_def blank_id_def split: option.splits)
        ultimately show ?thesis using au cu nodirect by simp
      next
        case nb: False
        then obtain i j where ij: "dv_identity c = Some i" "dv_identity e = Some j" "TrimSpace i \<noteq> []" "TrimSpace j \<noteq> []"
          by (cases "dv_identity c"; cases "dv_identity e") (simp_all add: blank_id_def)
        show ?thesis
        proof (cases "identity_by_id i st = None \<or> identity_by_id j st = None")
          case True
          then have "PublicDirectAuthorization now st client exit = Ok no_direct"
            using r ne ij nb assms(3,4) by (elim disjE) (simp_all add: PublicDirectAuthorization_def Let_def split: option.split)
          moreover have "\<not> exit_policy now st c e"
            using True unfolding exit_policy_def
            by (elim disjE) (simp_all add: ij status_active [OF ok(1), symmetric] status_of_def)
          ultimately show ?thesis using au nodirect by simp
        next
          case False
          then obtain n m where nm: "identity_by_id i st = Some n" "identity_by_id j st = Some m" by auto
          have pos: "in_revision n > 0" "in_revision m > 0"
            using identity_found [OF nm(1)] identity_found [OF nm(2)] rv by (auto simp: revisions_ok_def)
          have act: "(\<exists>n \<in> set (st_identities st). in_id n = i \<and> in_status n = IdentityStatusActive) \<longleftrightarrow> in_status n = IdentityStatusActive"
            "(\<exists>n \<in> set (st_identities st). in_id n = j \<and> in_status n = IdentityStatusActive) \<longleftrightarrow> in_status m = IdentityStatusActive"
            using status_active [OF ok(1), of i] status_active [OF ok(1), of j] nm by (simp_all add: status_of_def)
          have pol: "exit_policy now st c e \<longleftrightarrow> in_status n = IdentityStatusActive \<and> in_status m = IdentityStatusActive \<and>
              ''proxy.client'' \<in> set (dv_approved c) \<and> ''proxy.exit'' \<in> set (dv_approved e) \<and> (i = j \<or> shared now st exit i)"
            using ij dc(3) by (simp add: exit_policy_def act)
          let ?rows = "filter (\<lambda>r. sh_target r = exit \<and> sh_grantee r = i \<and> in_force now (sh_expires r)) (st_shares st)"
          have rows: "latest_revision ?rows = None \<and> \<not> shared now st exit i \<or>
            (\<exists>x. latest_revision ?rows = Some x \<and> normalizeDeviceIdentityGrantFeatures (sh_features x) = Ok (sh_features x) \<and>
               \<not> sh_revision x \<le> 0 \<and> (shared now st exit i \<longleftrightarrow> GrantFeatureProxyUse \<in> set (sh_features x)))"
          proof -
            have shr: "shared now st exit i \<longleftrightarrow> (\<exists>g \<in> set ?rows. GrantFeatureProxyUse \<in> set (sh_features g))" by (auto simp: shared_def)
            show ?thesis
              using one_share [OF ok(2), where t = exit and g = i and now = now]
            proof (elim disjE exE conjE)
              assume "?rows = []" "latest_revision ?rows = None"
              then show ?thesis unfolding shr by simp
            next
              fix x
              assume x: "?rows = [x]" "x \<in> set (st_shares st)" "latest_revision ?rows = Some x"
              have "share_ok st x" using ok(2) x(2) by (simp add: grants_ok_def)
              then have n: "normalizeDeviceIdentityGrantFeatures (sh_features x) = Ok (sh_features x)" "\<not> sh_revision x \<le> 0"
                by (simp_all add: share_ok_def normalized_def)
              have "shared now st exit i \<longleftrightarrow> GrantFeatureProxyUse \<in> set (sh_features x)" unfolding shr x(1) by simp
              then show ?thesis using n x(3) by blast
            qed
          qed
          have pd: "PublicDirectAuthorization now st client exit =
             (if in_status n \<noteq> IdentityStatusActive \<or> in_status m \<noteq> IdentityStatusActive \<or>
                 ''proxy.client'' \<notin> set (dv_approved c) \<or> ''proxy.exit'' \<notin> set (dv_approved e) then Ok no_direct
              else if i = j then Ok \<lparr>pd_Allowed = True, pd_PolicyRevision = in_revision n, pd_AuthorizationRevision = in_revision n\<rparr>
              else (case latest_revision ?rows of
                  None \<Rightarrow> Ok no_direct
                | Some g \<Rightarrow> (case normalizeDeviceIdentityGrantFeatures (sh_features g) of
                    Err x \<Rightarrow> Err x
                  | Ok fs \<Rightarrow> if sh_revision g \<le> 0 \<or> GrantFeatureProxyUse \<notin> set fs then Ok no_direct
                     else Ok \<lparr>pd_Allowed = True, pd_PolicyRevision = in_revision n, pd_AuthorizationRevision = sh_revision g\<rparr>)))"
            using r ne ij nb nm pos assms(3,4) by (simp add: PublicDirectAuthorization_def Let_def hasCapabilityJSON_def)
          have nd: "dv_identity c \<noteq> None" by (simp add: ij)
          from rows show ?thesis
          proof (elim disjE exE conjE)
            assume "latest_revision ?rows = None" "\<not> shared now st exit i"
            then show ?thesis unfolding pd au cu pol using nodirect nd by auto
          next
            fix x
            assume "latest_revision ?rows = Some x" "normalizeDeviceIdentityGrantFeatures (sh_features x) = Ok (sh_features x)"
              "\<not> sh_revision x \<le> 0" "shared now st exit i \<longleftrightarrow> GrantFeatureProxyUse \<in> set (sh_features x)"
            then show ?thesis unfolding pd au cu pol using nodirect nd by auto
          qed
        qed
      qed
    qed
  qed
qed

section \<open>A concrete run\<close>

text \<open>
  Two installations are enrolled and approved, an exit under identity A and a client under identity B, and the exit is
  shared with B until time 50. The steps are run one after another on the model.
\<close>

definition grant_observation :: "string \<Rightarrow> string \<Rightarrow> string list \<Rightarrow> observation" where
  "grant_observation f i cs = \<lparr>ob_Fingerprint = f, ob_InstallationID = i, ob_PublicKey = [1], ob_DeviceName = ''n'',
     ob_RequestedCapabilities = cs\<rparr>"

definition "exit_observed = ObserveIdentityDevice (''s'', ''q'') ''A'' (grant_observation ''f'' ''i'' [''proxy.exit'']) example_0"
definition "exit_approved = ApproveEnrollmentForIdentity (''d'', ''s'') ''q'' ''admin'' [] [''proxy.exit''] (after example_0 exit_observed)"
definition "client_observed = ObserveIdentityDevice (''t'', ''r'') ''B'' (grant_observation ''g'' ''j'' [''proxy.client''])
  (after example_0 exit_approved)"
definition "client_approved = ApproveEnrollmentForIdentity (''c'', ''t'') ''r'' ''admin'' [] [''proxy.client''] (after example_0 client_observed)"
definition "exit_shared = CreateDeviceIdentityGrant ''g'' 10 ''dev_d'' ''B'' ''admin'' [''proxy.use''] (Some 50) (after example_0 client_approved)"
definition "server_shared = CreateSystemIdentityGrant ''h'' 10 ''server'' ''B'' ''admin'' [''proxy.use''] None (after example_0 exit_shared)"
definition "shared_store = after example_0 server_shared"

lemma shared_run: "succeeds exit_observed" "succeeds exit_approved" "succeeds client_observed" "succeeds client_approved"
  "succeeds exit_shared" "succeeds server_shared"
  by code_simp+

lemma shared_reach: "grant_reach shared_store"
proof -
  have 0: "grant_reach example_0"
    by (rule grant_reach.start) (simp_all add: fresh_store_def example_0_def)
  have 1: "grant_reach (after example_0 exit_observed)"
    using succeeds_after [OF shared_run(1), of example_0]
    by (metis 0 grant_reach.step grant_step.enrollment store_step.observe exit_observed_def)
  have 2: "grant_reach (after example_0 exit_approved)"
    using succeeds_after [OF shared_run(2), of example_0]
    by (metis 1 grant_reach.step grant_step.enrollment store_step.approve exit_approved_def)
  have 3: "grant_reach (after example_0 client_observed)"
    using succeeds_after [OF shared_run(3), of example_0]
    by (metis 2 grant_reach.step grant_step.enrollment store_step.observe client_observed_def)
  have 4: "grant_reach (after example_0 client_approved)"
    using succeeds_after [OF shared_run(4), of example_0]
    by (metis 3 grant_reach.step grant_step.enrollment store_step.approve client_approved_def)
  have 5: "grant_reach (after example_0 exit_shared)"
    using succeeds_after [OF shared_run(5), of example_0]
    by (metis 4 grant_reach.step grant_step.create exit_shared_def)
  show ?thesis
    using succeeds_after [OF shared_run(6), of example_0]
    by (metis 5 grant_reach.step grant_step.create_system server_shared_def shared_store_def)
qed

lemma shared_decisions:
  "AuthorizeClientExit 20 shared_store ''dev_c'' ''dev_d'' = Ok True"
  "AuthorizeClientExit 60 shared_store ''dev_c'' ''dev_d'' = Ok False"
  "AuthorizeClientExit 60 shared_store ''dev_c'' ''server'' = Ok True"
  "map (\<lambda>r. (dv_id r, dv_identity r)) (st_devices shared_store) = [(''dev_d'', Some ''A''), (''dev_c'', Some ''B'')]"
  "map sh_target (st_shares shared_store) = [''dev_d'']" "map sy_grantee (st_system shared_store) = [''B'']"
  by code_simp+

lemma grants_consistent_witness:
  "\<exists>g \<in> set (st_shares shared_store). \<exists>r \<in> set (st_devices shared_store). sh_features g \<noteq> [] \<and> dv_id r = sh_target g \<and>
     dv_identity r \<noteq> Some (sh_grantee g)"
proof -
  have "st_shares shared_store \<noteq> []" by code_simp
  then obtain g where "g \<in> set (st_shares shared_store)" by (cases "st_shares shared_store") auto
  then show ?thesis using grants_consistent [OF shared_reach] by blast
qed

lemma exit_authorized_iff_witness:
  "\<exists>c \<in> set (st_devices shared_store). \<exists>e \<in> set (st_devices shared_store). dv_id c = ''dev_c'' \<and> dv_id e = ''dev_d'' \<and>
     exit_policy 20 shared_store c e \<and> \<not> exit_policy 60 shared_store c e"
proof -
  have ne: "''dev_d'' \<noteq> SystemResourceServerExit" by code_simp
  note iff = exit_authorized_iff [OF shared_reach ne, where client = "''dev_c''"]
  obtain c e where ce: "c \<in> set (st_devices shared_store)" "e \<in> set (st_devices shared_store)" "dv_id c = ''dev_c''" "dv_id e = ''dev_d''"
    "dv_state c = EnrollmentApproved" "dv_state e = EnrollmentApproved" "exit_policy 20 shared_store c e"
    using iff [of 20] shared_decisions(1) by blast
  have "AuthorizeClientExit 60 shared_store ''dev_c'' ''dev_d'' \<noteq> Ok True" unfolding shared_decisions(2) by simp
  then have "\<not> exit_policy 60 shared_store c e" unfolding iff using ce(1-6) by auto
  then show ?thesis using ce by blast
qed


lemma direct_agrees_with_exit_witness:
  "(\<exists>s. PublicDirectAuthorization 20 shared_store ''dev_c'' ''dev_d'' = Ok s \<and> pd_Allowed s) \<and>
   \<not> (\<exists>s. PublicDirectAuthorization 60 shared_store ''dev_c'' ''dev_d'' = Ok s \<and> pd_Allowed s)"
proof -
  have ne: "''dev_d'' \<noteq> SystemResourceServerExit" "TrimSpace ''dev_c'' = ''dev_c''" "TrimSpace ''dev_d'' = ''dev_d''" by code_simp+
  have "(''dev_c'', Some ''B'') \<in> set (map (\<lambda>r. (dv_id r, dv_identity r)) (st_devices shared_store))"
    unfolding shared_decisions(4) by simp
  then obtain r where r: "r \<in> set (st_devices shared_store)" "(''dev_c'', Some ''B'') = (dv_id r, dv_identity r)"
    by (auto simp only: set_map)
  have "\<exists>r \<in> set (st_devices shared_store). dv_id r = ''dev_c'' \<and> dv_identity r \<noteq> None"
    by (rule bexI [OF _ r(1)]) (use r(2) [symmetric] in simp)
  then show ?thesis
    using direct_agrees_with_exit [OF shared_reach ne, of 20] direct_agrees_with_exit [OF shared_reach ne, of 60]
      shared_decisions(1,2) by simp
qed

end
