(* ===== verification/Gateway_Router.thy ===== *)
theory Gateway_Router
  imports Session_Manager Resume_Binding Acl Grant_Policy
begin

text \<open>
  \<open>server/gateway/router.go\<close> and \<open>dns_system.go\<close>: which exit serves a stream that a client opens, and whether it may.
  A handler is modelled up to the point where it serves the stream itself or opens one to the exit; what it decided is its
  plan. The sessions of the registry are pointers into its heap, and the client is the session the stream came from.
\<close>

section \<open>The router\<close>

definition CapabilityTargetACL :: string where "CapabilityTargetACL = ''target_acl_v1''"
definition CapabilitySpeedTest :: string where "CapabilitySpeedTest = ''speed_test_v1''"
definition CapabilityProxyStreamResume :: string where "CapabilityProxyStreamResume = ''proxy_stream_resume_v1''"
definition UDPModeStream :: string where "UDPModeStream = ''udp_stream_v1''"
definition UDPModeDatagram :: string where "UDPModeDatagram = ''udp_datagram_v1''"
definition ErrCodeExitOffline :: string where "ErrCodeExitOffline = ''EXIT_OFFLINE''"
definition ErrCodeAccessDenied :: string where "ErrCodeAccessDenied = ''ACCESS_DENIED''"
definition ErrCodeACLDenied :: string where "ErrCodeACLDenied = ''ACL_DENIED''"
definition ErrCodeInvalidRequest :: string where "ErrCodeInvalidRequest = ''INVALID_REQUEST''"
definition ErrCodeDatagramRequired :: string where "ErrCodeDatagramRequired = ''DATAGRAM_REQUIRED''"

text \<open>The relay's own copy of the policy is set together with its checker.\<close>

record stream_router =
  sr_localExit :: bool
  sr_aclChecker :: "checker option"
  sr_relayPolicy :: "policy option"
  sr_authChecker :: "(string \<Rightarrow> string \<Rightarrow> store_error + bool) option"

definition NewStreamRouter :: "checker option \<Rightarrow> (string \<Rightarrow> string \<Rightarrow> store_error + bool) option \<Rightarrow> stream_router" where
  "NewStreamRouter acl auth =
     \<lparr>sr_localExit = False, sr_aclChecker = acl, sr_relayPolicy = map_option ck_policy acl, sr_authChecker = auth\<rparr>"

definition SetLocalExit :: "bool \<Rightarrow> stream_router \<Rightarrow> stream_router" where
  "SetLocalExit handler rt = rt\<lparr>sr_localExit := handler\<rparr>"

definition hasCapability :: "device_session \<Rightarrow> string \<Rightarrow> bool" where
  "hasCapability s name \<longleftrightarrow> name \<in> set (ds_Capabilities s)"

definition containsCapability :: "string list \<Rightarrow> string \<Rightarrow> bool" where
  "containsCapability cs expected \<longleftrightarrow> expected \<in> set cs"

section \<open>Choosing an exit\<close>

definition ask_checker :: "stream_router \<Rightarrow> string \<Rightarrow> string \<Rightarrow> store_error + bool" where
  "ask_checker rt client exit = (case sr_authChecker rt of Some check \<Rightarrow> check client exit | None \<Rightarrow> Ok False)"

definition authorizeExit :: "stream_router \<Rightarrow> device_session option \<Rightarrow> device_session option \<Rightarrow> store_error + bool" where
  "authorizeExit rt client exit =
     (case (client, exit) of
        (Some c, Some e) \<Rightarrow>
          if ds_IdentityID c \<noteq> [] \<or> ds_IdentityID e \<noteq> [] then
            (if ds_IdentityID c = [] \<or> ds_IdentityID e = [] then Ok False
             else ask_checker rt (ds_DeviceID c) (ds_DeviceID e))
          else if ds_OwnerUserID c \<noteq> [] \<and> ds_OwnerUserID e \<noteq> [] then Ok (ds_OwnerUserID c = ds_OwnerUserID e)
          else ask_checker rt (ds_DeviceID c) (ds_DeviceID e)
      | _ \<Rightarrow> Ok False)"

datatype route_error = ErrExitOffline | ErrNoExitOnline | ErrMultipleExits | CheckFailed store_error

text \<open>The loop over the exits for a client with an identity: a failed check ends it, and so does a second candidate.\<close>

fun identity_candidates ::
    "stream_router \<Rightarrow> device_session \<Rightarrow> (nat \<Rightarrow> device_session) \<Rightarrow> nat list \<Rightarrow> nat option \<Rightarrow> nat \<Rightarrow> route_error + nat option \<times> nat" where
  "identity_candidates rt c heap [] candidate n = Ok (candidate, n)"
| "identity_candidates rt c heap (p # ps) candidate n =
     (if ds_DeviceID (heap p) = ds_DeviceID c then identity_candidates rt c heap ps candidate n
      else (case authorizeExit rt (Some c) (Some (heap p)) of
          Err e \<Rightarrow> Err (CheckFailed e)
        | Ok allowed \<Rightarrow>
            if \<not> allowed then identity_candidates rt c heap ps candidate n
            else if n + 1 > 1 then Err ErrMultipleExits
            else identity_candidates rt c heap ps (Some p) (n + 1)))"

text \<open>The loop for a session without identity and owner, which skips a failed check.\<close>

fun legacy_candidates ::
    "stream_router \<Rightarrow> device_session option \<Rightarrow> (nat \<Rightarrow> device_session) \<Rightarrow> nat list \<Rightarrow> nat option \<Rightarrow> bool \<Rightarrow> nat \<Rightarrow>
     route_error + nat option \<times> bool \<times> nat" where
  "legacy_candidates rt c heap [] candidate local n = Ok (candidate, local, n)"
| "legacy_candidates rt c heap (p # ps) candidate local n =
     (case authorizeExit rt c (Some (heap p)) of
        Ok True \<Rightarrow> if n + 1 > 1 then Err ErrMultipleExits else legacy_candidates rt c heap ps (Some p) False (n + 1)
      | _ \<Rightarrow> legacy_candidates rt c heap ps candidate local n)"

definition resolveExitSession ::
    "stream_router \<Rightarrow> manager \<Rightarrow> device_session option \<Rightarrow> string \<Rightarrow> route_error + nat option \<times> bool" where
  "resolveExitSession rt m client exitDeviceID =
     (if exitDeviceID \<noteq> [] then
        (if exitDeviceID = SystemResourceServerExit then
           (if \<not> sr_localExit rt then Err ErrExitOffline
            else (case client of
                None \<Rightarrow> Ok (None, True)
              | Some c \<Rightarrow>
                if ds_IdentityID c = [] then Ok (None, True)
                else if sr_authChecker rt = None then Err ErrExitOffline
                else (case ask_checker rt (ds_DeviceID c) SystemResourceServerExit of
                    Err e \<Rightarrow> Err (CheckFailed e)
                  | Ok allowed \<Rightarrow> if \<not> allowed then Err ErrExitOffline else Ok (None, True))))
         else (case mg_Get exitDeviceID m of
             None \<Rightarrow> Err ErrExitOffline
           | Some p \<Rightarrow> if \<not> IsExit (mg_heap m p) then Err ErrExitOffline else Ok (Some p, False)))
      else (case client of
          Some c \<Rightarrow>
            if ds_IdentityID c \<noteq> [] then
              (case (if sr_localExit rt \<and> sr_authChecker rt \<noteq> None
                     then ask_checker rt (ds_DeviceID c) SystemResourceServerExit else Ok False) of
                 Err e \<Rightarrow> Err (CheckFailed e)
               | Ok local \<Rightarrow>
                 (case identity_candidates rt c (mg_heap m) (GetExits m) None (if local then 1 else 0) of
                    Err e \<Rightarrow> Err e
                  | Ok (candidate, n) \<Rightarrow>
                    if n = 0 then Err ErrNoExitOnline
                    else if n = 1 then (if local then Ok (None, True) else Ok (candidate, False))
                    else Err ErrMultipleExits))
            else if ds_OwnerUserID c \<noteq> [] then
              (let exits = GetExitsForOwner (ds_OwnerUserID c) m;
                   n = length exits + (if sr_localExit rt then 1 else 0)
               in if n = 0 then Err ErrNoExitOnline
                  else if n = 1 then (if sr_localExit rt then Ok (None, True) else Ok (Some (hd exits), False))
                  else Err ErrMultipleExits)
            else
              (case legacy_candidates rt client (mg_heap m) (GetExits m) None (sr_localExit rt) (if sr_localExit rt then 1 else 0) of
                 Err e \<Rightarrow> Err e
               | Ok (candidate, local, n) \<Rightarrow>
                 if n = 0 then Err ErrNoExitOnline else if local then Ok (None, True) else Ok (candidate, False))
        | None \<Rightarrow>
            (case legacy_candidates rt client (mg_heap m) (GetExits m) None (sr_localExit rt) (if sr_localExit rt then 1 else 0) of
               Err e \<Rightarrow> Err e
             | Ok (candidate, local, n) \<Rightarrow>
               if n = 0 then Err ErrNoExitOnline else if local then Ok (None, True) else Ok (candidate, False))))"

section \<open>What a stream may do\<close>

definition targetPolicy ::
    "stream_router \<Rightarrow> device_session \<Rightarrow> string \<Rightarrow> u16 \<Rightarrow> string \<Rightarrow> (denial option) + policy option" where
  "targetPolicy rt exit host port transport =
     (case sr_aclChecker rt of
        None \<Rightarrow> Ok None
      | Some c \<Rightarrow>
        (case CheckHostProtocol c host port transport of
           Some d \<Rightarrow> Err (Some d)
         | None \<Rightarrow> if \<not> hasCapability exit CapabilityTargetACL then Err None else Ok (sr_relayPolicy rt)))"

definition proxyStreamResumeNegotiated :: "device_session option \<Rightarrow> device_session option \<Rightarrow> bool" where
  "proxyStreamResumeNegotiated client exit =
     (case (client, exit) of
        (Some c, Some e) \<Rightarrow> hasCapability c CapabilityProxyStreamResume \<and> hasCapability e CapabilityProxyStreamResume
      | _ \<Rightarrow> False)"

datatype resume_refusal = MissingBinding | InvalidMode | NotNegotiated | InvalidStreamID | InvalidToken | InvalidGeneration

definition validateTCPResumeBinding :: "tcp_resume_binding option \<Rightarrow> resume_refusal option" where
  "validateTCPResumeBinding binding =
     (case binding of
        None \<Rightarrow> Some MissingBinding
      | Some b \<Rightarrow>
        if tr_Mode b \<noteq> TCPResumeModeOpen \<and> tr_Mode b \<noteq> TCPResumeModeRebind then Some InvalidMode
        else if length (tr_StreamID b) \<noteq> StreamIDSize then Some InvalidStreamID
        else if length (tr_Token b) \<noteq> TokenSize then Some InvalidToken
        else if tr_Generation b = 0 then Some InvalidGeneration
        else None)"

definition normalizeTCPResumeBinding :: "tcp_resume_binding option \<Rightarrow> bool \<Rightarrow> resume_refusal + tcp_resume_binding option" where
  "normalizeTCPResumeBinding binding negotiated =
     (case binding of
        None \<Rightarrow> Ok None
      | Some b \<Rightarrow>
        if tr_Mode b = TCPResumeModeOpen \<and> \<not> negotiated then Ok None
        else if tr_Mode b = TCPResumeModeRebind \<and> \<not> negotiated then Err NotNegotiated
        else if tr_Mode b \<noteq> TCPResumeModeOpen \<and> tr_Mode b \<noteq> TCPResumeModeRebind then Err InvalidMode
        else (case validateTCPResumeBinding binding of Some e \<Rightarrow> Err e | None \<Rightarrow> Ok binding))"

text \<open>
  A plan refuses with the code of the response, serves on the relay itself under its policy, or forwards to a session
  with the policy the request will carry. The last component is what the handler made of the request.
\<close>

datatype 'r plan = Refuse string | Serve "policy option" 'r | Forward nat "policy option" 'r

definition resolve_code :: "route_error \<Rightarrow> string" where
  "resolve_code e = (if e = ErrMultipleExits then ErrCodeInvalidRequest else ErrCodeExitOffline)"

definition handleOpenTCP ::
    "stream_router \<Rightarrow> manager \<Rightarrow> device_session \<Rightarrow> string \<Rightarrow> string \<Rightarrow> u16 \<Rightarrow> tcp_resume_binding option \<Rightarrow>
     tcp_resume_binding option plan" where
  "handleOpenTCP rt m client exitDeviceID host port resume =
     (if \<not> containsCapability (ds_Grants client) CapabilityProxyClient then Refuse ErrCodeAccessDenied
      else (case resolveExitSession rt m (Some client) exitDeviceID of
          Err e \<Rightarrow> Refuse (resolve_code e)
        | Ok (session, local) \<Rightarrow>
          let exit = map_option (mg_heap m) session in
          if \<not> local \<and> authorizeExit rt (Some client) exit \<noteq> Ok True then Refuse ErrCodeACLDenied
          else
            (case (if resume = None then Ok None
                   else normalizeTCPResumeBinding resume (\<not> local \<and> proxyStreamResumeNegotiated (Some client) exit)) of
               Err e \<Rightarrow> Refuse ErrCodeInvalidRequest
             | Ok r \<Rightarrow>
               if local then Serve (sr_relayPolicy rt) r
               else (case targetPolicy rt (the exit) host port ''tcp'' of
                   Err e \<Rightarrow> Refuse ErrCodeACLDenied
                 | Ok policy \<Rightarrow> Forward (the session) policy r))))"

text \<open>\<open>datagrams p\<close> is \<open>tunnel.PeerSupportsDatagrams\<close> of a tunnel; opening the datagram channels, which can fail, comes after the plan.\<close>

definition handleOpenUDP ::
    "(nat option \<Rightarrow> bool) \<Rightarrow> stream_router \<Rightarrow> manager \<Rightarrow> device_session \<Rightarrow> string \<Rightarrow> string \<Rightarrow> u16 \<Rightarrow> string \<Rightarrow> u64 \<Rightarrow> bool \<Rightarrow>
     string plan" where
  "handleOpenUDP datagrams rt m client exitDeviceID host port mode association required =
     (if \<not> containsCapability (ds_Grants client) CapabilityProxyClient then Refuse ErrCodeAccessDenied
      else if mode \<noteq> [] \<and> mode \<noteq> UDPModeStream \<and> mode \<noteq> UDPModeDatagram then Refuse ErrCodeInvalidRequest
      else (case resolveExitSession rt m (Some client) exitDeviceID of
          Err e \<Rightarrow> Refuse (resolve_code e)
        | Ok (session, local) \<Rightarrow>
          let exit = map_option (mg_heap m) session in
          if \<not> local \<and> authorizeExit rt (Some client) exit \<noteq> Ok True then Refuse ErrCodeACLDenied
          else if local then (if required then Refuse ErrCodeDatagramRequired else Serve (sr_relayPolicy rt) UDPModeStream)
          else (case targetPolicy rt (the exit) host port ''udp'' of
              Err e \<Rightarrow> Refuse ErrCodeACLDenied
            | Ok policy \<Rightarrow>
              if mode = UDPModeDatagram \<and> association \<noteq> 0 \<and> hasCapability client UDPModeDatagram \<and>
                 hasCapability (the exit) UDPModeDatagram \<and> datagrams (ds_Tunnel client) \<and> datagrams (ds_Tunnel (the exit))
              then Forward (the session) policy UDPModeDatagram
              else if required then Refuse ErrCodeDatagramRequired
              else Forward (the session) policy UDPModeStream)))"

text \<open>\<open>valid\<close> is the verdict of \<open>speedtest.Validate\<close>.\<close>

definition handleSpeedTest :: "bool \<Rightarrow> stream_router \<Rightarrow> manager \<Rightarrow> device_session \<Rightarrow> string \<Rightarrow> unit plan" where
  "handleSpeedTest valid rt m client exitDeviceID =
     (if \<not> containsCapability (ds_Grants client) CapabilityProxyClient \<or> \<not> hasCapability client CapabilitySpeedTest
      then Refuse ErrCodeAccessDenied
      else if \<not> valid then Refuse ErrCodeInvalidRequest
      else (case resolveExitSession rt m (Some client) exitDeviceID of
          Err e \<Rightarrow> Refuse ErrCodeExitOffline
        | Ok (session, local) \<Rightarrow>
          if local then Serve None ()
          else
            let exit = map_option (mg_heap m) session in
            if authorizeExit rt (Some client) exit \<noteq> Ok True then Refuse ErrCodeAccessDenied
            else if \<not> hasCapability (the exit) CapabilitySpeedTest then Refuse ErrCodeInvalidRequest
            else Forward (the session) None ()))"

text \<open>\<open>question\<close> is what \<open>protocol.ValidateExitDNSQuestion\<close> makes of the question: the host name asked for, or an error.\<close>

definition handleExitSystemDNS ::
    "stream_router \<Rightarrow> manager \<Rightarrow> device_session \<Rightarrow> string \<Rightarrow> string \<Rightarrow> string option \<Rightarrow> string plan" where
  "handleExitSystemDNS rt m client exitDeviceID requestID question =
     (if \<not> containsCapability (ds_Grants client) CapabilityProxyClient then Refuse ErrCodeAccessDenied
      else if requestID = [] \<or> length requestID > 255 then Refuse ErrCodeInvalidRequest
      else (case question of
          None \<Rightarrow> Refuse ErrCodeInvalidRequest
        | Some hostname \<Rightarrow>
          (case resolveExitSession rt m (Some client) exitDeviceID of
             Err e \<Rightarrow> Refuse ErrCodeExitOffline
           | Ok (session, local) \<Rightarrow>
             let exit = map_option (mg_heap m) session in
             if \<not> local \<and> authorizeExit rt (Some client) exit \<noteq> Ok True then Refuse ErrCodeAccessDenied
             else if local then (if \<not> sr_localExit rt then Refuse ErrCodeExitOffline else Serve (sr_relayPolicy rt) hostname)
             else if \<not> hasCapability (the exit) CapabilityTargetACL then Refuse ErrCodeACLDenied
             else (case targetPolicy rt (the exit) hostname 53 ''udp'' of
                 Err e \<Rightarrow> Refuse ErrCodeACLDenied
               | Ok policy \<Rightarrow> Forward (the session) policy hostname))))"

end
