(* ===== verification/Gateway_Routes.thy ===== *)
theory Gateway_Routes
  imports Gateway_Router Grant_Decisions
begin

text \<open>
  What the relay's choice of an exit guarantees: a stream reaches only a registered exit that the grants allow, under the
  relay's own policy, and an exit is chosen automatically exactly when it is the only one.
\<close>

section \<open>The contract of the authorization check\<close>


section \<open>The checker of the gateway\<close>






section \<open>What resolution finds\<close>

lemma identity_candidates_iff:
  "identity_candidates rt c heap ps cand n = Ok (cand', n') \<longleftrightarrow>
     (\<forall>p \<in> set ps. ds_DeviceID (heap p) \<noteq> ds_DeviceID c \<longrightarrow> (\<exists>a. authorizeExit rt (Some c) (Some (heap p)) = Ok a)) \<and>
     (let found = filter (\<lambda>p. ds_DeviceID (heap p) \<noteq> ds_DeviceID c \<and> authorizeExit rt (Some c) (Some (heap p)) = Ok True) ps in
        found = [] \<and> cand' = cand \<and> n' = n \<or> (\<exists>p. found = [p] \<and> n = 0 \<and> cand' = Some p \<and> n' = 1))"
proof (induction ps arbitrary: cand n)
  case (Cons p ps)
  show ?case
  proof (cases "ds_DeviceID (heap p) = ds_DeviceID c")
    case False
    show ?thesis
    proof (cases "authorizeExit rt (Some c) (Some (heap p))")
      case (Inr a)
      then show ?thesis using False Cons.IH by (cases a; cases n) (auto simp: Let_def)
    qed (use False in simp)
  qed (use Cons.IH in simp)
qed (auto simp: Let_def)



section \<open>Routes\<close>


definition gateway_router :: "bool \<Rightarrow> checker \<Rightarrow> int \<Rightarrow> store \<Rightarrow> stream_router" where
  "gateway_router localExit acl now st = SetLocalExit localExit (NewStreamRouter (Some acl) (Some (AuthorizeClientExit now st)))"


















section \<open>Properties\<close>


text \<open>The exits a client may use, and whether the relay itself is one of them.\<close>

definition usable_exits :: "stream_router \<Rightarrow> manager \<Rightarrow> device_session \<Rightarrow> nat list" where
  "usable_exits rt m c =
     filter (\<lambda>p. ds_DeviceID (mg_heap m p) \<noteq> ds_DeviceID c \<and> authorizeExit rt (Some c) (Some (mg_heap m p)) = Ok True) (GetExits m)"

definition usable_server :: "stream_router \<Rightarrow> device_session \<Rightarrow> store_error + bool" where
  "usable_server rt c =
     (if sr_localExit rt \<and> sr_authChecker rt \<noteq> None then ask_checker rt (ds_DeviceID c) SystemResourceServerExit else Ok False)"

text \<open>C11. 
  A client with an identity that names no exit is given one exactly when every authorization check answers and there is
  exactly one choice: the relay itself if it may use it and no other exit, or the one registered exit it may use.
\<close>
theorem automatic_exit_unique:
  assumes "ds_IdentityID c \<noteq> []"
  shows "resolveExitSession rt m (Some c) [] = Ok (session, local) \<longleftrightarrow>
    (\<forall>p \<in> set (GetExits m). ds_DeviceID (mg_heap m p) = ds_DeviceID c \<or> (\<exists>a. authorizeExit rt (Some c) (Some (mg_heap m p)) = Ok a)) \<and>
    (if local then usable_server rt c = Ok True \<and> usable_exits rt m c = [] \<and> session = None
     else usable_server rt c = Ok False \<and> (\<exists>p. usable_exits rt m c = [p] \<and> session = Some p))"
proof (cases "usable_server rt c")
  case (Inl e)
  then show ?thesis using assms by (auto simp: resolveExitSession_def usable_server_def split: if_splits)
next
  case (Inr l)
  let ?found = "usable_exits rt m c"
  let ?answered = "\<forall>p \<in> set (GetExits m). ds_DeviceID (mg_heap m p) = ds_DeviceID c \<or> (\<exists>a. authorizeExit rt (Some c) (Some (mg_heap m p)) = Ok a)"
  have cand: "identity_candidates rt c (mg_heap m) (GetExits m) None (if l then 1 else 0) = Ok (s, n) \<longleftrightarrow>
      ?answered \<and> (?found = [] \<and> s = None \<and> n = (if l then 1 else 0) \<or> (\<exists>p. ?found = [p] \<and> \<not> l \<and> s = Some p \<and> n = 1))" for s n
    unfolding identity_candidates_iff usable_exits_def Let_def by auto
  have res: "resolveExitSession rt m (Some c) [] =
      (case identity_candidates rt c (mg_heap m) (GetExits m) None (if l then 1 else 0) of
         Err e \<Rightarrow> Err e
       | Ok (candidate, n) \<Rightarrow>
         if n = 0 then Err ErrNoExitOnline
         else if n = 1 then (if l then Ok (None, True) else Ok (candidate, False))
         else Err ErrMultipleExits)"
    using assms Inr by (simp add: resolveExitSession_def usable_server_def)
  show ?thesis
  proof (cases "identity_candidates rt c (mg_heap m) (GetExits m) None (if l then 1 else 0)")
    case (Inl e)
    have no: "\<not> (?answered \<and> (?found = [] \<and> s = None \<and> n = (if l then 1 else 0) \<or> (\<exists>p. ?found = [p] \<and> \<not> l \<and> s = Some p \<and> n = 1)))" for s and n :: nat
    proof
      assume "?answered \<and> (?found = [] \<and> s = None \<and> n = (if l then 1 else 0) \<or> (\<exists>p. ?found = [p] \<and> \<not> l \<and> s = Some p \<and> n = 1))"
      then have "identity_candidates rt c (mg_heap m) (GetExits m) None (if l then 1 else 0) = Ok (s, n)" by (rule iffD2 [OF cand])
      then show False using Inl by simp
    qed
    have "\<not> (?answered \<and> (if local then usable_server rt c = Ok True \<and> ?found = [] \<and> session = None
        else usable_server rt c = Ok False \<and> (\<exists>p. ?found = [p] \<and> session = Some p)))"
      using no [of None 1] no [of None 0] no [of session 1] \<open>usable_server rt c = Ok l\<close> by (cases l; cases local) auto
    then show ?thesis using Inl unfolding res by simp
  next
    case (Inr sn)
    obtain s n where sn: "sn = (s, n)" by (cases sn)
    then have "?answered \<and> (?found = [] \<and> s = None \<and> n = (if l then 1 else 0) \<or> (\<exists>p. ?found = [p] \<and> \<not> l \<and> s = Some p \<and> n = 1))"
      using Inr cand by simp
    then show ?thesis using Inr sn \<open>usable_server rt c = Ok l\<close> unfolding res by (cases l; cases local) auto
  qed
qed

section \<open>A concrete relay\<close>

text \<open>
  The client and the exit of the run of the grants, registered with the gateway; the policy of the relay allows the
  internet. The exit is shared until time 50, the server's exit without limit.
\<close>

definition route_session :: "nat \<Rightarrow> device_session" where
  "route_session p =
     (if p = 0 then (example_session ''B'' 0)\<lparr>ds_DeviceID := ''dev_c'', ds_Grants := [CapabilityProxyClient]\<rparr>
      else (example_session ''A'' 0)\<lparr>ds_DeviceID := ''dev_d'', ds_Capabilities := [CapabilityTargetACL]\<rparr>)"

definition route_manager :: manager where
  "route_manager = mg_Register 8 1 (mg_Register 7 0 (NewManager route_session))"

definition route_acl :: checker where
  "route_acl = \<lparr>ck_policy = \<lparr>po_ID = [], po_Name = [], po_Fingerprint = [], po_AllowInternet = True, po_AllowPrivateNetwork = False,
       po_AllowLoopback = False, po_Rules = [], po_AccessMode = [], po_AccessHosts = [], po_AccessCIDRs = []\<rparr>,
     ck_accessMode = [], ck_accessHosts = [], ck_accessCIDRs = [], ck_accessRngs = []\<rparr>"


lemma route_runs:
  "handleOpenTCP (gateway_router False route_acl 20 shared_store) route_manager (route_session 0) [] ''example.org'' 443 None =
     Forward 1 (Some (ck_policy route_acl)) None"
  "handleOpenTCP (gateway_router True route_acl 60 shared_store) route_manager (route_session 0) [] ''example.org'' 443 None =
     Serve (Some (ck_policy route_acl)) None"
  "handleOpenTCP (gateway_router True route_acl 60 shared_store) route_manager (route_session 0) ''dev_d'' ''example.org'' 443 None =
     Refuse ErrCodeACLDenied"
  "resolveExitSession (gateway_router False route_acl 20 shared_store) route_manager (Some (route_session 0)) [] = Ok (Some 1, False)"
  "resolveExitSession (gateway_router True route_acl 20 shared_store) route_manager (Some (route_session 0)) [] = Err ErrMultipleExits"
  by code_simp+


lemma automatic_exit_unique_witness:
  "usable_exits (gateway_router False route_acl 20 shared_store) route_manager (route_session 0) = [1] \<and>
   usable_server (gateway_router True route_acl 20 shared_store) (route_session 0) = Ok True"
proof -
  have id: "ds_IdentityID (route_session 0) \<noteq> []" by code_simp
  have "usable_server (gateway_router True route_acl 20 shared_store) (route_session 0) = Ok True" by code_simp
  moreover have "usable_exits (gateway_router False route_acl 20 shared_store) route_manager (route_session 0) = [1]"
    using automatic_exit_unique [OF id, of "gateway_router False route_acl 20 shared_store" route_manager "Some 1" False] route_runs(4)
    by simp
  ultimately show ?thesis by simp
qed

end
