(* ===== verification/Brutal_Budget.thy ===== *)
theory Brutal_Budget
  imports Prelude
begin

text \<open>
  \<open>server/gateway/brutal_budget.go\<close>: the pool from which the gateway grants fixed sending rates. Rates and charges are
  64-bit words. A reservation keeps, per direction, the charge its release function gives back and whether that
  function has run (\<open>sync.Once\<close>).
\<close>

section \<open>Reservations\<close>

definition minBudgetedBrutalBPS :: u64 where "minBudgetedBrutalBPS = 125000"

definition reserveBrutalDirection :: "u64 \<Rightarrow> u64 \<Rightarrow> u64 \<Rightarrow> (u64 \<times> u64) \<times> u64" where
  "reserveBrutalDirection request limit used =
     (if request = 0 \<or> limit = 0 then ((request, 0), used)
      else if used \<ge> limit then ((0, 0), used)
      else
        let available = limit - used;
            maxTarget = available div 5 * 4 + available mod 5 * 4 div 5;
            target = (if request > maxTarget then maxTarget else request)
        in
          if target < minBudgetedBrutalBPS then ((0, 0), used)
          else
            let charge0 = target + target div 4;
                charge = (if target mod 4 \<noteq> 0 then charge0 + 1 else charge0)
            in ((target, charge), used + charge))"

record brutal_budget =
  bu_clientTx :: u64
  bu_serverTx :: u64

record budget_grant =
  bg_rate :: u64
  bg_charge :: u64
  bg_held :: bool

definition reserveDirections ::
    "u64 \<Rightarrow> u64 \<Rightarrow> u64 \<Rightarrow> u64 \<Rightarrow> brutal_budget \<Rightarrow> (budget_grant \<times> budget_grant) \<times> brutal_budget" where
  "reserveDirections clientRequest serverRequest clientLimit serverLimit b =
     (let ((clientRate, clientCharge), c) = reserveBrutalDirection clientRequest clientLimit (bu_clientTx b);
          ((serverRate, serverCharge), s) = reserveBrutalDirection serverRequest serverLimit (bu_serverTx b)
      in ((\<lparr>bg_rate = clientRate, bg_charge = clientCharge, bg_held = True\<rparr>,
           \<lparr>bg_rate = serverRate, bg_charge = serverCharge, bg_held = True\<rparr>),
          \<lparr>bu_clientTx = c, bu_serverTx = s\<rparr>))"

definition releaseClient :: "budget_grant \<Rightarrow> brutal_budget \<Rightarrow> budget_grant \<times> brutal_budget" where
  "releaseClient g b =
     (if bg_held g then (g\<lparr>bg_held := False\<rparr>, b\<lparr>bu_clientTx := bu_clientTx b - bg_charge g\<rparr>) else (g, b))"

definition releaseServer :: "budget_grant \<Rightarrow> brutal_budget \<Rightarrow> budget_grant \<times> brutal_budget" where
  "releaseServer g b =
     (if bg_held g then (g\<lparr>bg_held := False\<rparr>, b\<lparr>bu_serverTx := bu_serverTx b - bg_charge g\<rparr>) else (g, b))"

text \<open>
  The calls of all sessions of a gateway, in the order of its lock, with the two limits of its configuration. A session
  releases by the number of its reservation, as often as it likes.
\<close>

datatype budget_call = Reserve u64 u64 | ReleaseClient nat | ReleaseServer nat

record budget_ledger =
  bl_budget :: brutal_budget
  bl_client :: "budget_grant list"
  bl_server :: "budget_grant list"

fun budget_step :: "u64 \<Rightarrow> u64 \<Rightarrow> budget_call \<Rightarrow> budget_ledger \<Rightarrow> budget_ledger" where
  "budget_step cl sl (Reserve c s) l =
     (case reserveDirections c s cl sl (bl_budget l) of
        ((gc, gs), b) \<Rightarrow> \<lparr>bl_budget = b, bl_client = bl_client l @ [gc], bl_server = bl_server l @ [gs]\<rparr>)"
| "budget_step cl sl (ReleaseClient i) l =
     (if i < length (bl_client l)
      then (case releaseClient (bl_client l ! i) (bl_budget l) of
          (g, b) \<Rightarrow> l\<lparr>bl_budget := b, bl_client := (bl_client l)[i := g]\<rparr>)
      else l)"
| "budget_step cl sl (ReleaseServer i) l =
     (if i < length (bl_server l)
      then (case releaseServer (bl_server l ! i) (bl_budget l) of
          (g, b) \<Rightarrow> l\<lparr>bl_budget := b, bl_server := (bl_server l)[i := g]\<rparr>)
      else l)"

definition budget_start :: budget_ledger where
  "budget_start = \<lparr>bl_budget = \<lparr>bu_clientTx = 0, bu_serverTx = 0\<rparr>, bl_client = [], bl_server = []\<rparr>"

definition budget_run :: "u64 \<Rightarrow> u64 \<Rightarrow> budget_call list \<Rightarrow> budget_ledger" where
  "budget_run cl sl calls = foldl (\<lambda>l c. budget_step cl sl c l) budget_start calls"

section \<open>One reservation\<close>

lemma max_target:
  fixes a :: u64
  shows "unat (a div 5 * 4 + a mod 5 * 4 div 5) = unat a * 4 div 5"
proof -
  let ?n = "unat a"
  have lt: "?n < 18446744073709551616" by (rule unat_u64_lt)
  have "?n * 4 = ?n mod 5 * 4 + ?n div 5 * 4 * 5" using div_mult_mod_eq [of ?n 5] by linarith
  then have s: "?n div 5 * 4 + ?n mod 5 * 4 div 5 = ?n * 4 div 5" by simp
  have "unat (a div 5 * 4) = ?n div 5 * 4" "unat (a mod 5 * 4 div 5) = ?n mod 5 * 4 div 5"
    using lt by (simp_all add: unat_word_ariths unat_div unat_mod)
  then have "unat (a div 5 * 4 + a mod 5 * 4 div 5) = (?n * 4 div 5) mod 18446744073709551616"
    by (simp add: unat_word_ariths s)
  then show ?thesis using lt by simp
qed

lemma charge_value:
  fixes t :: u64
  assumes "unat t * 5 \<le> 4 * n" "n < 18446744073709551616"
  shows "unat (if t mod 4 \<noteq> 0 then t + t div 4 + 1 else t + t div 4) = (unat t * 5 + 3) div 4"
proof -
  let ?m = "unat t"
  have z: "t mod 4 = 0 \<longleftrightarrow> ?m mod 4 = 0"
    by (simp add: unat_eq_zero [symmetric] unat_mod)
  have a: "unat (t + t div 4) = ?m + ?m div 4"
    using assms by (simp add: unat_word_ariths unat_div)
  show ?thesis
  proof (cases "?m mod 4 = 0")
    case True
    then have "?m + ?m div 4 = (?m * 5 + 3) div 4" by presburger
    then show ?thesis using z a True by simp
  next
    case False
    have "unat (t + t div 4 + 1) = ?m + ?m div 4 + 1"
    proof -
      have "?m div 4 * 4 + ?m mod 4 = ?m" by (rule div_mult_mod_eq)
      then have "?m + ?m div 4 + 1 < 18446744073709551616" using assms False by linarith
      then show ?thesis using a by (simp add: unat_word_ariths(1) [of "t + t div 4" 1])
    qed
    moreover have "?m + ?m div 4 + 1 = (?m * 5 + 3) div 4" using False by presburger
    ultimately show ?thesis using False z by simp
  qed
qed

definition grant_ok :: "u64 \<Rightarrow> u64 \<Rightarrow> u64 \<Rightarrow> bool" where
  "grant_ok limit rate charge \<longleftrightarrow>
     (if limit = 0 then charge = 0
      else unat charge = (unat rate * 5 + 3) div 4 \<and> (rate = 0 \<or> 125000 \<le> unat rate))"

lemma reserve_direction:
  assumes "reserveBrutalDirection request limit used = ((rate, charge), used')"
  shows "grant_ok limit rate charge \<and> unat rate \<le> unat request \<and> (limit = 0 \<longrightarrow> rate = request) \<and>
    unat used' = unat used + unat charge \<and> (charge \<noteq> 0 \<longrightarrow> unat used' \<le> unat limit)"
proof (cases "request = 0 \<or> limit = 0 \<or> used \<ge> limit")
  case True
  then show ?thesis
    using assms by (auto simp: reserveBrutalDirection_def grant_ok_def split: if_splits)
next
  case False
  let ?a = "limit - used"
  let ?max = "?a div 5 * 4 + ?a mod 5 * 4 div 5"
  define t where "t = (if request > ?max then ?max else request)"
  define c where "c = (if t mod 4 \<noteq> 0 then t + t div 4 + 1 else t + t div 4)"
  have f: "request \<noteq> 0" "limit \<noteq> 0" "used < limit" "\<not> limit \<le> used" using False by auto
  have red: "((rate, charge), used') = (if t < minBudgetedBrutalBPS then ((0, 0), used) else ((t, c), used + c))"
    using assms f unfolding reserveBrutalDirection_def Let_def t_def [symmetric] c_def [symmetric] by simp
  have ua: "unat ?a = unat limit - unat used" by (rule unat_sub [OF order_less_imp_le [OF f(3)]])
  have ul: "unat used < unat limit" using f(3) by (simp add: word_less_nat_alt)
  have t5: "unat t * 5 \<le> 4 * unat ?a" "unat t \<le> unat request"
    using max_target [of ?a] by (auto simp: t_def word_less_nat_alt)
  have uc: "unat c = (unat t * 5 + 3) div 4"
    unfolding c_def by (rule charge_value [OF t5(1)]) (rule unat_u64_lt)
  have ca: "unat c \<le> unat ?a" using uc t5 by linarith
  have us: "unat (used + c) = unat used + unat c"
    using ca ua ul unat_u64_lt [of limit] by (simp add: unat_word_ariths)
  show ?thesis
  proof (cases "t < minBudgetedBrutalBPS")
    case True
    then show ?thesis using red f by (simp add: grant_ok_def)
  next
    case low: False
    then have "125000 \<le> unat t" by (simp add: minBudgetedBrutalBPS_def not_less word_le_nat_alt)
    moreover have "unat used + unat c \<le> unat limit" using ca ua ul by linarith
    ultimately show ?thesis using red f low us uc t5(2) by (simp add: grant_ok_def)
  qed
qed

section \<open>The pool\<close>

definition held_charges :: "budget_grant list \<Rightarrow> nat" where
  "held_charges gs = sum_list (map (\<lambda>g. if bg_held g then unat (bg_charge g) else 0) gs)"

definition pool_ok :: "u64 \<Rightarrow> u64 \<Rightarrow> budget_grant list \<Rightarrow> bool" where
  "pool_ok limit used gs \<longleftrightarrow> unat used = held_charges gs \<and> unat used \<le> unat limit \<and>
     (\<forall>g \<in> set gs. grant_ok limit (bg_rate g) (bg_charge g))"

lemma pool_reserve:
  assumes "pool_ok limit used gs" "reserveBrutalDirection request limit used = ((rate, charge), used')"
  shows "pool_ok limit used' (gs @ [\<lparr>bg_rate = rate, bg_charge = charge, bg_held = True\<rparr>])"
proof -
  note r = reserve_direction [OF assms(2)]
  have "unat used' \<le> unat limit" using r assms(1) by (cases "charge = 0") (simp_all add: pool_ok_def)
  then show ?thesis using r assms(1) by (simp add: pool_ok_def held_charges_def)
qed

lemma held_release:
  assumes "i < length gs" "bg_held (gs ! i)"
  shows "held_charges (gs[i := (gs ! i)\<lparr>bg_held := False\<rparr>]) + unat (bg_charge (gs ! i)) = held_charges gs"
proof -
  let ?f = "\<lambda>g. if bg_held g then unat (bg_charge g) else 0"
  have "gs = take i gs @ gs ! i # drop (Suc i) gs" using assms(1) by (rule id_take_nth_drop)
  then have "held_charges gs = held_charges (take i gs @ gs ! i # drop (Suc i) gs)" by simp
  then show ?thesis using assms by (simp add: held_charges_def upd_conv_take_nth_drop)
qed

lemma pool_release:
  assumes "pool_ok limit used gs" "i < length gs" "bg_held (gs ! i)"
  shows "pool_ok limit (used - bg_charge (gs ! i)) (gs[i := (gs ! i)\<lparr>bg_held := False\<rparr>])"
proof -
  note h = held_release [OF assms(2,3)]
  have u: "unat used = held_charges gs" "unat used \<le> unat limit" using assms(1) by (simp_all add: pool_ok_def)
  have "bg_charge (gs ! i) \<le> used" using h u by (simp add: word_le_nat_alt)
  then have s: "unat (used - bg_charge (gs ! i)) = unat used - unat (bg_charge (gs ! i))" by (rule unat_sub)
  have "grant_ok limit (bg_rate g) (bg_charge g)" if "g \<in> set (gs[i := (gs ! i)\<lparr>bg_held := False\<rparr>])" for g
    using that assms(1) nth_mem [OF assms(2)] set_update_subset_insert [of gs i "(gs ! i)\<lparr>bg_held := False\<rparr>"] unfolding pool_ok_def by fastforce
  moreover have "unat (used - bg_charge (gs ! i)) = held_charges (gs[i := (gs ! i)\<lparr>bg_held := False\<rparr>])" using h u(1) s by linarith
  moreover have "unat (used - bg_charge (gs ! i)) \<le> unat limit" using u(2) s by linarith
  ultimately show ?thesis by (simp add: pool_ok_def)
qed

definition ledger_ok :: "u64 \<Rightarrow> u64 \<Rightarrow> budget_ledger \<Rightarrow> bool" where
  "ledger_ok cl sl l \<longleftrightarrow> pool_ok cl (bu_clientTx (bl_budget l)) (bl_client l) \<and> pool_ok sl (bu_serverTx (bl_budget l)) (bl_server l)"

lemma budget_step_ok:
  assumes "ledger_ok cl sl l"
  shows "ledger_ok cl sl (budget_step cl sl call l)"
proof (cases call)
  case (Reserve c s)
  then show ?thesis
    using assms by (auto simp: ledger_ok_def reserveDirections_def intro: pool_reserve split: prod.split)
next
  case (ReleaseClient i)
  then show ?thesis using assms pool_release by (simp add: ledger_ok_def releaseClient_def)
next
  case (ReleaseServer i)
  then show ?thesis using assms pool_release by (simp add: ledger_ok_def releaseServer_def)
qed

lemma budget_run_ok: "ledger_ok cl sl (budget_run cl sl calls)"
proof -
  have "ledger_ok cl sl (foldl (\<lambda>l c. budget_step cl sl c l) l calls)" if "ledger_ok cl sl l" for l
    using that by (induction calls arbitrary: l) (simp_all add: budget_step_ok)
  moreover have "ledger_ok cl sl budget_start"
    by (simp add: ledger_ok_def budget_start_def pool_ok_def held_charges_def)
  ultimately show ?thesis by (simp add: budget_run_def)
qed

lemma held_rates:
  assumes "pool_ok limit used gs" "limit \<noteq> 0"
  shows "5 * sum_list (map (\<lambda>g. if bg_held g then unat (bg_rate g) else 0) gs) \<le> 4 * unat used"
proof -
  have "5 * sum_list (map (\<lambda>g. if bg_held g then unat (bg_rate g) else 0) gs) \<le> 4 * held_charges gs"
    if "\<forall>g \<in> set gs. grant_ok limit (bg_rate g) (bg_charge g)" for gs
    using that
  proof (induction gs)
    case (Cons g gs)
    have "5 * unat (bg_rate g) \<le> 4 * unat (bg_charge g)" using Cons.prems assms(2) by (simp add: grant_ok_def)
    then show ?case using Cons by (simp add: held_charges_def split: if_split) 
  qed (simp add: held_charges_def)
  then show ?thesis using assms(1) by (simp add: pool_ok_def)
qed

section \<open>Properties\<close>

text \<open>C40. 
  Over any sequence of reservations and releases, repeated ones included, the two counters of the pool equal the
  charges still held and never wrap, and where the configuration sets a limit the rates held in that direction stay
  within it even when each is exceeded by a quarter; without a limit nothing is charged.
\<close>
theorem budget_never_exceeded:
  "let l = budget_run cl sl calls in
     unat (bu_clientTx (bl_budget l)) = held_charges (bl_client l) \<and>
     unat (bu_serverTx (bl_budget l)) = held_charges (bl_server l) \<and>
     (if cl = 0 then bu_clientTx (bl_budget l) = 0
      else 5 * sum_list (map (\<lambda>g. if bg_held g then unat (bg_rate g) else 0) (bl_client l)) \<le> 4 * unat cl) \<and>
     (if sl = 0 then bu_serverTx (bl_budget l) = 0
      else 5 * sum_list (map (\<lambda>g. if bg_held g then unat (bg_rate g) else 0) (bl_server l)) \<le> 4 * unat sl)"
proof -
  have ok: "pool_ok cl (bu_clientTx (bl_budget (budget_run cl sl calls))) (bl_client (budget_run cl sl calls))"
    "pool_ok sl (bu_serverTx (bl_budget (budget_run cl sl calls))) (bl_server (budget_run cl sl calls))"
    using budget_run_ok [of cl sl calls] by (simp_all add: ledger_ok_def)
  then show ?thesis
    using held_rates [OF ok(1)] held_rates [OF ok(2)] by (auto simp: Let_def pool_ok_def unat_eq_zero)
qed

end
