(* ===== verification/Spec2Isabelle.thy ===== *)
theory Spec2Isabelle
  imports Resume_Runs Resume_Registry Wire_Codec Udp_Fragment Acl_Policy Routing_Dialer Congestion_Brutal Bbr_Sender Ip_Packet Session_Gate Grant_Decisions Gateway_Routes Brutal_Budget
begin

text \<open>
  A verification development of the relay proxy, a server that connects devices and an agent that runs on them. A
  client agent captures or accepts connections of local programs, decides by its routing rules where each one goes and
  carries it to another agent acting as an exit, through the server (relayed streams) or over a direct path punched
  between the two. The exit checks its access policy and dials the target. The server approves devices, registers
  their sessions and decides which client may use which exit.

  The development follows the code bottom up. \<open>Prelude\<close> holds what all parts share: bytes, Go's error-or-value
  results (\<open>Ok\<close>, \<open>Err\<close>), big-endian integers, readers and writers, the interface \<open>framed_codec\<close> (a format whose
  reader takes back what its writer made and leaves the rest) and rule lists in which the first match decides. \<open>Go_Strings\<close>, \<open>Go_Netip\<close>,
  \<open>Go_Path\<close> and \<open>Go_Int\<close> are the parts of Go's library that the code relies on.
\<close>

section \<open>Streams that survive their transport\<close>

text \<open>
  \<open>Resume_Frame\<close> (\<open>internal/p2p/resume/frame.go\<close>), \<open>Resume_Binding\<close> (\<open>binding.go\<close>, \<open>protocol.go\<close>), \<open>Resume_Replay\<close>
  (\<open>replay.go\<close>), \<open>Resume_State\<close> (\<open>state.go\<close>) and \<open>Resume_Endpoint\<close> (\<open>endpoint.go\<close>) translate the resumable stream of
  the direct path, one definition per critical section; offsets, acknowledgements and generations are 64-bit words, and
  the replay buffer is proved to implement a contiguous byte sequence through the interface \<open>replay_store\<close>.
  \<open>Resume_System\<close> puts two endpoints and any number of transports together as a step relation \<open>sys_step\<close>, whose steps
  are those critical sections interleaved with losses, rebinds and closes. Its invariant ties the receiver of each end
  to the bytes written at the other. The theorems of \<open>Resume_Runs\<close> are: a genuine frame is never rejected, accepted
  bytes are a prefix of the written ones, everything written arrives once a transport has drained, and applications
  read in order. All of them assume that no writer abandons a chunk between retaining and sending it, and the last
  one that a superseded read loop hands its bytes over before the next one does; the runs \<open>late_writer_breaks_stream\<close>
  and \<open>superseded_loop_reorders\<close> show that the code has executions which violate these and go wrong.
  \<open>Resume_Registry\<close> (\<open>agent/exit/resume_registry.go\<close>, part of \<open>agent/exit/handler.go\<close>) is the exit's table of detached
  streams: it is bounded, holds one session per identity, accepts exactly the rebinds it should and disarms expiry.
\<close>

section \<open>Wire formats and packets\<close>

text \<open>
  \<open>Wire_Codec\<close> (\<open>internal/protocol/codec.go\<close>, \<open>udp_frame.go\<close>) has the stream header, JSON control frames and datagrams
  over a stream, with round trips. \<open>Udp_Fragment\<close> (\<open>udp_native.go\<close>, \<open>internal/p2p/punch/fragment.go\<close>) cuts datagrams
  into fragments and reassembles them in a bounded table: whatever a peer sends the table stays bounded and nothing
  panics, what is delivered was sent, fragments that arrive in time complete, and the two fragment senders agree.
  \<open>Ip_Checksum\<close> and \<open>Ip_Packet\<close> (\<open>agent/divert/packet.go\<close>) parse captured IP packets with options and extension
  headers, rewrite their endpoints and synthesize replies; a packet written this way parses to the intended endpoints
  and its checksums check.
\<close>

section \<open>Policies\<close>

text \<open>
  \<open>Glob\<close>, \<open>Acl\<close> and \<open>Acl_Policy\<close> (\<open>internal/acl/checker.go\<close>) compile the exit's access policy and characterise its
  decisions by the policy as written; the iterative glob is proved equivalent to a declarative one. \<open>Exit_Group\<close>
  (\<open>internal/exitgroup/group.go\<close>), \<open>Routing_Rules\<close> (\<open>agent/routing/rule.go\<close>, \<open>compound.go\<close>, \<open>dns_rules.go\<close>),
  \<open>Routing_Config\<close> (\<open>custom_exit.go\<close>, \<open>dns_upstream.go\<close>, \<open>validate.go\<close>), \<open>Routing_Subscription\<close> and \<open>Routing_Engine\<close>
  (\<open>subscription.go\<close>, \<open>engine.go\<close>) model the client's routing. The compiled rules and list matchers agree with
  reference matchers, and the engine, as a step relation of reloads, list downloads and worker passes, always decides
  by the configuration and lists it was last given. \<open>Routing_Dialer\<close> (\<open>dialer.go\<close>, \<open>dns_mode.go\<close>, \<open>selected_exit.go\<close>,
  part of \<open>internal/proxy/metadata.go\<close>) turns a decision into what is dialled.
\<close>

section \<open>Congestion control\<close>

text \<open>
  \<open>Congestion_Pacer\<close> (\<open>internal/congestion/common/pacer.go\<close>), \<open>Congestion_Brutal\<close> (\<open>brutal/brutal.go\<close>, \<open>brutal.go\<close>) and
  the BBR controller in \<open>Bbr_Containers\<close>, \<open>Bbr_Filter\<close>, \<open>Bbr_Sampler\<close> and \<open>Bbr_Sender\<close> (\<open>bbr/\<close>). The ring buffer and the
  packet queue refine lists and maps through the interface \<open>deque\<close>, the windowed filter keeps its order for every
  \<open>comparator\<close>, no call of the sampler panics, the window stays within its limits and the modes change only as the
  algorithm has it. A panic or a loop that does not return is \<open>None\<close>, so these are statements that it does.
\<close>

section \<open>Devices, sessions and grants on the server\<close>

text \<open>
  \<open>Enrollment_Store\<close> (\<open>server/repository/enrollment.go\<close>, parts of \<open>identity.go\<close> and \<open>db.go\<close>) has the tables behind device
  approval and every operation on them; a statement is a map or filter over rows, a failed transaction leaves the store
  as it was. \<open>Enrollment_Policy\<close> shows that a connecting installation never approves itself and that approvals stay
  consistent, \<open>Enrollment_Changes\<close> what each operation leaves alone. \<open>Session_Manager\<close> (\<open>server/session/manager.go\<close>) is
  the registry of sessions with its exit indexes. \<open>Session_Gate\<close> (parts of \<open>server/gateway/listener.go\<close>,
  \<open>server/api/router.go\<close>, \<open>server/api/identity.go\<close>, \<open>cmd/relay-server/main.go\<close>) interleaves handshakes,
  administrative changes and invalidations: whoever is registered is still authorized, or an invalidation of its identity is
  outstanding. \<open>Identity_Grants\<close>, \<open>Grant_Policy\<close> and \<open>Grant_Decisions\<close> (\<open>identity_grant.go\<close>, \<open>system_grant.go\<close>,
  \<open>grant_expiry.go\<close>, \<open>AuthorizeClientExit\<close> of \<open>db.go\<close>) say exactly who may use an exit, that the grants stay
  well formed over all operations, that the query behind direct tickets agrees and that the expiry sweep changes no
  decision.
  \<open>Gateway_Router\<close> (\<open>server/gateway/router.go\<close>, \<open>dns_system.go\<close>) chooses the exit of a stream and decides about it;
  \<open>Gateway_Routes\<close> states its contract with the authorization check as the interface \<open>exit_checker\<close>, discharges it with
  the grants, and shows that streams reach only exits their client may use, under the relay's policy. \<open>Brutal_Budget\<close>
  (\<open>brutal_budget.go\<close>) is the pool of fixed sending rates, which is never exceeded.
\<close>

section \<open>Parameters, bounds and what is left out\<close>

text \<open>
  Code that is not in the repository is a parameter: \<open>encoding/json\<close> (with the documented round trip as the only
  hypothesis), \<open>crypto/sha256\<close>, \<open>net/url.Parse\<close>, the resolver, HTTP responses, random numbers and identifiers, the
  clock, quic-go's constants and round-trip times, and the integer that a \<open>float64\<close> expression yields
  (\<open>fmul\<close>, \<open>fsec\<close>, \<open>brutal_floats\<close>), with the properties of the rounding used named as hypotheses. Concurrency is the
  interleaving of critical sections in an inductive step relation; each is one operation of the code, and waiting is the
  absence of a step. Loops are structural recursion or recursion on a measure. Go's map iteration is an arbitrary list.

  Integers are words where their width matters (frames, offsets, packets, checksums) and wrapped integers in the
  congestion controllers; times, counters and revisions that cannot reach their limit are unbounded. Strings are byte
  or ASCII character lists.

  Not modelled: network and file input and output, TLS, the yamux and QUIC libraries, the drivers that
  capture packets and the platform code around them, fake addresses and DNS interception, the desktop, web and mobile
  user interfaces, remote desktop, file sharing, browser synchronization, NAT traversal (candidates, punching, UPnP),
  the multiplexing layers of \<open>internal/tunnel\<close>, the SOCKS and HTTP proxies, certificates, configuration files,
  start-up and installation, and of the server the listings, audit rows, logins and HTTP handlers that decide nothing
  about devices.
\<close>

end
